(* ===== verification/ZBase.thy ===== *)
theory ZBase
  imports Main "HOL-Library.Word"
begin

unbundle bit_operations_syntax

text \<open>
  The prelude of the development: the machine-integer types of the Go sources, the
  encodings of \<open>encoding/binary\<close> (little and big endian), the decimal rendering of
  \<open>fmt\<close>'s \<open>%d\<close> for unsigned values, Go's slice writes, and the generic lemmas on
  lists, maps and words that the component theories share.

  Signed Go integers (\<open>int32\<close>, \<open>int64\<close>) are words of the same width read with
  \<open>sint\<close>; unsigned ones are words read with \<open>uint\<close> or \<open>unat\<close>. Go's \<open>int\<close> is
  64 bits wide on every platform the project builds for.
\<close>

type_synonym u8 = "8 word"
type_synonym u16 = "16 word"
type_synonym u32 = "32 word"
type_synonym u64 = "64 word"
type_synonym i32 = "32 word"
type_synonym i64 = "64 word"
type_synonym byte = "8 word"

named_theorems wire_simps \<open>unfolding rules of the wire codec\<close>
named_theorems pool_simps \<open>unfolding rules of the message pool\<close>
named_theorems rpc_simps \<open>unfolding rules of the RPC slot table\<close>
named_theorems aoi_simps \<open>unfolding rules of the AOI grid\<close>
named_theorems group_simps \<open>unfolding rules of the actor group\<close>

section \<open>Little-endian and big-endian words\<close>

text \<open>\<open>binary.LittleEndian.PutUint32/64\<close> and \<open>Uint32/64\<close>: the byte at index \<open>i\<close> holds
  bits \<open>8 i .. 8 i + 7\<close>.\<close>

definition le_bytes :: "nat \<Rightarrow> 'a::len word \<Rightarrow> byte list" where
  "le_bytes n w = map (\<lambda>i. ucast (drop_bit (8 * i) w)) [0..<n]"

fun le_word :: "byte list \<Rightarrow> 'a::len word" where
  "le_word [] = 0"
| "le_word (b # bs) = (ucast b OR push_bit 8 (le_word bs))"

definition be_bytes :: "nat \<Rightarrow> 'a::len word \<Rightarrow> byte list" where
  "be_bytes n w = rev (le_bytes n w)"

definition be_word :: "byte list \<Rightarrow> 'a::len word" where
  "be_word bs = le_word (rev bs)"

lemma length_le_bytes [simp]: "length (le_bytes n w) = n"
  by (simp add: le_bytes_def)

lemma length_be_bytes [simp]: "length (be_bytes n w) = n"
  by (simp add: be_bytes_def)

lemma bit_le_bytes:
  "i < n \<Longrightarrow> bit (le_bytes n w ! i) j \<longleftrightarrow> j < 8 \<and> bit (w :: 'a::len word) (8 * i + j)"
  by (auto simp: le_bytes_def bit_simps)

lemma bit_le_word:
  "bit (le_word bs :: 'a::len word) k \<longleftrightarrow>
     k < LENGTH('a) \<and> k < 8 * length bs \<and> bit (bs ! (k div 8)) (k mod 8)"
proof (induction bs arbitrary: k)
  case Nil
  then show ?case by simp
next
  case (Cons b bs)
  show ?case
  proof (cases "k < 8")
    case True
    then show ?thesis by (auto simp: bit_simps Cons.IH)
  next
    case False
    then have "k div 8 = Suc ((k - 8) div 8)" and "k mod 8 = (k - 8) mod 8"
      by (auto simp: div_if mod_if)
    moreover have "\<not> bit b k"
      using False bit_imp_le_length [of b k] by auto
    ultimately show ?thesis using False
      by (auto simp: bit_simps Cons.IH)
  qed
qed

lemma le_word_le_bytes:
  "8 * n = LENGTH('a) \<Longrightarrow> le_word (le_bytes n w) = (w :: 'a::len word)"
  by (rule bit_word_eqI) (auto simp: bit_le_word bit_le_bytes less_mult_imp_div_less mult.commute)

lemma le_bytes_le_word:
  assumes "8 * length bs = LENGTH('a)"
  shows "le_bytes (length bs) (le_word bs :: 'a::len word) = bs"
proof (rule nth_equalityI)
  fix i assume "i < length (le_bytes (length bs) (le_word bs :: 'a word))"
  then have i: "i < length bs" by simp
  show "le_bytes (length bs) (le_word bs :: 'a word) ! i = bs ! i"
  proof (rule bit_word_eqI)
    fix j assume "j < LENGTH(8)"
    then have j: "j < 8" by simp
    then have "(8 * i + j) div 8 = i" and "(8 * i + j) mod 8 = j" by auto
    moreover have "8 * i + j < 8 * length bs" using i j by linarith
    ultimately show "bit (le_bytes (length bs) (le_word bs :: 'a word) ! i) j = bit (bs ! i) j"
      using i j assms by (simp add: bit_le_bytes bit_le_word)
  qed
qed simp

lemma be_word_be_bytes:
  "8 * n = LENGTH('a) \<Longrightarrow> be_word (be_bytes n w) = (w :: 'a::len word)"
  by (simp add: be_word_def be_bytes_def le_word_le_bytes)

lemma be_bytes_be_word:
  "8 * length bs = LENGTH('a) \<Longrightarrow> be_bytes (length bs) (be_word bs :: 'a::len word) = bs"
  using le_bytes_le_word [of "rev bs", where 'a = 'a]
  by (simp add: be_word_def be_bytes_def)

section \<open>Byte buffers\<close>

text \<open>A write of \<open>bs\<close> at offset \<open>off\<close> of a buffer, and Go's \<open>copy(buf[off:], bs)\<close>,
  which copies as much as fits.\<close>

definition put_at :: "byte list \<Rightarrow> nat \<Rightarrow> byte list \<Rightarrow> byte list" where
  "put_at buf off bs = take off buf @ bs @ drop (off + length bs) buf"

definition copy_at :: "byte list \<Rightarrow> nat \<Rightarrow> byte list \<Rightarrow> byte list" where
  "copy_at buf off bs = put_at buf off (take (length buf - off) bs)"

definition gslice :: "'a list \<Rightarrow> nat \<Rightarrow> nat \<Rightarrow> 'a list" where
  "gslice xs i n = take n (drop i xs)"

lemma length_gslice [simp]: "length (gslice xs i n) = min n (length xs - i)"
  by (simp add: gslice_def)

lemma gslice_append_right: "i \<ge> length xs \<Longrightarrow> gslice (xs @ ys) i n = gslice ys (i - length xs) n"
  by (simp add: gslice_def)

lemma gslice_append_left: "i + n \<le> length xs \<Longrightarrow> gslice (xs @ ys) i n = gslice xs i n"
  by (simp add: gslice_def)

lemma gslice_full [simp]: "n = length xs \<Longrightarrow> gslice xs 0 n = xs"
  by (simp add: gslice_def)

text \<open>Consecutive writes from the start of a buffer are one write of the concatenation.\<close>

lemma put_at_0: "put_at buf 0 bs = bs @ drop (length bs) buf"
  by (simp add: put_at_def)

lemma put_at_put_at:
  "off = length xs \<Longrightarrow> put_at (put_at buf 0 xs) off ys = put_at buf 0 (xs @ ys)"
  by (simp add: put_at_def add.commute)

lemma length_put_at [simp]: "off + length bs \<le> length buf \<Longrightarrow> length (put_at buf off bs) = length buf"
  by (simp add: put_at_def)

section \<open>Decimal rendering (\<open>%d\<close> of an unsigned value)\<close>

definition digit_char :: "nat \<Rightarrow> char" where
  "digit_char d = char_of (48 + d)"

fun fmt_d :: "nat \<Rightarrow> string" where
  "fmt_d n = (if n < 10 then [digit_char n] else fmt_d (n div 10) @ [digit_char (n mod 10)])"

declare fmt_d.simps [simp del]

definition is_digit :: "char \<Rightarrow> bool" where
  "is_digit c \<longleftrightarrow> 48 \<le> (of_char c :: nat) \<and> (of_char c :: nat) \<le> 57"

definition digit_val :: "char \<Rightarrow> nat" where
  "digit_val c = of_char c - 48"

definition parse_digits :: "string \<Rightarrow> nat" where
  "parse_digits s = foldl (\<lambda>a c. a * 10 + digit_val c) 0 s"

lemma digit_char_digit [simp]: "d < 10 \<Longrightarrow> is_digit (digit_char d)"
  by (simp add: is_digit_def digit_char_def)

lemma digit_val_char [simp]: "d < 10 \<Longrightarrow> digit_val (digit_char d) = d"
  by (simp add: digit_val_def digit_char_def)

lemma fmt_d_digits: "list_all is_digit (fmt_d n)"
proof (induction n rule: fmt_d.induct)
  case (1 n)
  then show ?case by (subst fmt_d.simps) auto
qed

lemma fmt_d_nonempty [simp]: "fmt_d n \<noteq> []"
  by (subst fmt_d.simps) simp

lemma parse_fmt_d [simp]: "parse_digits (fmt_d n) = n"
proof (induction n rule: fmt_d.induct)
  case (1 n)
  then show ?case by (subst fmt_d.simps) (auto simp: parse_digits_def)
qed

lemma fmt_d_inject [simp]: "fmt_d m = fmt_d n \<longleftrightarrow> m = n"
  by (metis parse_fmt_d)

lemma not_digit_underscore [simp]: "\<not> is_digit (CHR ''_'')"
  by (simp add: is_digit_def)

text \<open>A run of digits up to a separator that is not a digit is read off uniquely.\<close>

lemma digit_run_unique:
  assumes "list_all is_digit xs" and "list_all is_digit ys"
    and "xs @ c # zs = ys @ c # ws" and "\<not> is_digit c"
  shows "xs = ys \<and> zs = ws"
  using assms
proof (induction xs arbitrary: ys)
  case Nil
  then show ?case by (cases ys) auto
next
  case (Cons x xs)
  then show ?case by (cases ys) auto
qed

lemma digit_run_no_sep:
  "list_all is_digit xs \<Longrightarrow> \<not> is_digit c \<Longrightarrow> c \<notin> set xs"
  by (auto simp: list_all_iff)

section \<open>Powers of two\<close>

definition is_pow2 :: "nat \<Rightarrow> bool" where
  "is_pow2 n \<longleftrightarrow> (\<exists>k. n = 2 ^ k)"

lemma is_pow2_pos: "is_pow2 n \<Longrightarrow> 0 < n"
  by (auto simp: is_pow2_def)

section \<open>Generic list and map lemmas\<close>

lemma filter_remove1_neq: "\<not> P x \<Longrightarrow> filter P (remove1 x xs) = filter P xs"
  by (induction xs) auto

lemma distinct_concat_map:
  assumes "distinct xs" and "\<And>x. x \<in> set xs \<Longrightarrow> distinct (f x)"
    and "\<And>x y. x \<in> set xs \<Longrightarrow> y \<in> set xs \<Longrightarrow> x \<noteq> y \<Longrightarrow> set (f x) \<inter> set (f y) = {}"
  shows "distinct (concat (map f xs))"
  using assms
proof (induction xs)
  case (Cons x xs)
  have "set (f x) \<inter> set (f y) = {}" if "y \<in> set xs" for y
    using that Cons.prems(1,3) by (metis distinct.simps(2) list.set_intros)
  then show ?case using Cons by auto
qed simp

section \<open>Machine words\<close>

lemma unat_inj_iff: "unat v = unat w \<longleftrightarrow> v = w"
  using unsigned_word_eqI by auto

lemma unat_word_of_nat_lt: "n < 2 ^ LENGTH('a) \<Longrightarrow> unat (word_of_nat n :: 'a::len word) = n"
  by (simp add: unsigned_of_nat take_bit_nat_eq_self)

lemma sint_eq_unat: "unat w < 2 ^ (LENGTH('a) - 1) \<Longrightarrow> sint (w :: 'a::len word) = int (unat w)"
proof -
  assume "unat w < 2 ^ (LENGTH('a) - 1)"
  then have "int (unat w) < int (2 ^ (LENGTH('a) - 1))" by (simp only: of_nat_less_iff)
  then have "uint w < 2 ^ (LENGTH('a) - 1)" by simp
  moreover have "- (2 ^ (LENGTH('a) - 1)) \<le> uint w"
    by (rule order_trans [of _ 0]) simp_all
  ultimately have "sint w = uint w"
    unfolding sint_uint by (intro signed_take_bit_int_eq_self) simp_all
  then show ?thesis by simp
qed

section \<open>Object pools\<close>

text \<open>\<open>zpool.Pool\<close> is not part of the repository: which pooled object its \<open>Get\<close> hands out, or
  whether it calls the constructor instead, is a parameter. The code relies on an object that
  is handed out having been put into the pool.\<close>

type_synonym pick = "nat list \<Rightarrow> nat option"

definition pick_ok :: "pick \<Rightarrow> bool" where
  "pick_ok pick \<longleftrightarrow> (\<forall>xs a. pick xs = Some a \<longrightarrow> a \<in> set xs)"

section \<open>Loops that may not return\<close>

text \<open>A loop over a list whose body may fail to return.\<close>

definition forM :: "'a list \<Rightarrow> ('a \<Rightarrow> 's \<Rightarrow> 's option) \<Rightarrow> 's \<Rightarrow> 's option" where
  "forM xs f s = fold (\<lambda>x r. Option.bind r (f x)) xs (Some s)"

lemma forM_Nil [simp]: "forM [] f s = Some s"
  by (simp add: forM_def)

lemma fold_bind_None [simp]: "fold (\<lambda>x r. Option.bind r (f x)) xs None = None"
  by (induction xs) simp_all

lemma forM_Cons [simp]: "forM (x # xs) f s = Option.bind (f x s) (forM xs f)"
  by (cases "f x s") (simp_all add: forM_def)

lemma forM_trace:
  assumes "\<And>x t. x \<in> set xs \<Longrightarrow> f x (upd t s) = Some (upd (t @ ev x) s)"
  shows "forM xs f (upd t s) = Some (upd (t @ concat (map ev xs)) s)"
  using assms by (induction xs arbitrary: t) simp_all

end
