(* ===== verification/ZMsg.thy ===== *)
theory ZMsg
  imports ZBase
begin

text \<open>
  \<open>zmsg/msg.go\<close>: the message envelope and its wire codec. \<open>Data\<close> is the contents of the
  payload slice and \<open>DataCap\<close> the capacity of its backing array (\<open>cap(m.Data)\<close>, which
  \<open>Unmarshal\<close>, \<open>Release\<close> and \<open>MarshalVTToMsg\<close> branch on); a nil slice is the empty list
  with capacity 0. The codec writes at the offsets the code computes, one definition per Go
  function, and every error return is a branch. \<open>Unmarshal\<close> mutates its receiver, so it
  returns the message next to the error, with the fields an error path has already
  overwritten.
\<close>

section \<open>The envelope\<close>

record message =
  SessionId :: u64
  RpcId :: u64
  TraceIdHi :: u64
  TraceIdLo :: u64
  SpanId :: u64
  Data :: "byte list"
  DataCap :: nat
  MsgId :: i32
  SrcActor :: u64
  TarActor :: u64
  RefCount :: i32
  SeqId :: u32
  ToClient :: bool
  FromClient :: bool
  IsResponse :: bool

text \<open>Go's zero value \<open>Message{}\<close>.\<close>

definition msg_zero :: message where
  "msg_zero = \<lparr>SessionId = 0, RpcId = 0, TraceIdHi = 0, TraceIdLo = 0, SpanId = 0, Data = [],
     DataCap = 0, MsgId = 0, SrcActor = 0, TarActor = 0, RefCount = 0, SeqId = 0,
     ToClient = False, FromClient = False, IsResponse = False\<rparr>"

datatype wire_error = ErrBufferTooSmall | ErrDataCorrupt

definition flagToClient :: u8 where "flagToClient = 1"
definition flagFromClient :: u8 where "flagFromClient = 2"
definition flagIsResponse :: u8 where "flagIsResponse = 4"

definition FixedHeaderSize :: nat where "FixedHeaderSize = 65"

definition maxMessageDataSize :: nat where "maxMessageDataSize = 16777216"

lemmas wire_consts [wire_simps] =
  flagToClient_def flagFromClient_def flagIsResponse_def FixedHeaderSize_def
  maxMessageDataSize_def

definition Size :: "message \<Rightarrow> nat" where
  "Size m = (let size = FixedHeaderSize in size + (4 + length (Data m)))"

section \<open>Encoding\<close>

definition MarshalTo :: "message \<Rightarrow> byte list \<Rightarrow> (wire_error + nat) \<times> byte list" where
  "MarshalTo m buf =
    (if length buf < Size m then (Inl ErrBufferTooSmall, buf)
     else
      (let offset = 0;
           flags = 0;
           flags = (if ToClient m then flags OR flagToClient else flags);
           flags = (if FromClient m then flags OR flagFromClient else flags);
           flags = (if IsResponse m then flags OR flagIsResponse else flags);
           buf = put_at buf offset [flags];
           offset = offset + 1;
           buf = put_at buf offset (le_bytes 4 (MsgId m));
           offset = offset + 4;
           buf = put_at buf offset (le_bytes 8 (SrcActor m));
           offset = offset + 8;
           buf = put_at buf offset (le_bytes 8 (TarActor m));
           offset = offset + 8;
           buf = put_at buf offset (le_bytes 8 (SessionId m));
           offset = offset + 8;
           buf = put_at buf offset (le_bytes 8 (RpcId m));
           offset = offset + 8;
           buf = put_at buf offset (le_bytes 4 (SeqId m));
           offset = offset + 4;
           buf = put_at buf offset (le_bytes 8 (TraceIdHi m));
           offset = offset + 8;
           buf = put_at buf offset (le_bytes 8 (TraceIdLo m));
           offset = offset + 8;
           buf = put_at buf offset (le_bytes 8 (SpanId m));
           offset = offset + 8;
           dataLen = (word_of_nat (length (Data m)) :: u32);
           buf = put_at buf offset (le_bytes 4 dataLen);
           offset = offset + 4
       in if 0 < dataLen
          then (Inr (offset + unat dataLen), copy_at buf offset (Data m))
          else (Inr offset, buf)))"

definition Marshal :: "message \<Rightarrow> (wire_error + nat) \<times> byte list" where
  "Marshal m = MarshalTo m (replicate (Size m) 0)"

text \<open>\<open>MarshalPooled\<close> writes into a pooled buffer of the requested size, whose old contents
  \<open>old\<close> are arbitrary, and re-slices it to the bytes written.\<close>

definition MarshalPooled :: "message \<Rightarrow> byte list \<Rightarrow> wire_error + byte list" where
  "MarshalPooled m old =
    (case MarshalTo m old of
       (Inl e, _) \<Rightarrow> Inl e
     | (Inr n, buf) \<Rightarrow> Inr (take n buf))"

section \<open>Decoding\<close>

definition Unmarshal :: "message \<Rightarrow> byte list \<Rightarrow> wire_error option \<times> message" where
  "Unmarshal m buf =
    (if length buf < FixedHeaderSize then (Some ErrDataCorrupt, m)
     else
      (let offset = 0;
           flags = buf ! offset;
           m = m\<lparr>ToClient := (flags AND flagToClient) \<noteq> 0,
                 FromClient := (flags AND flagFromClient) \<noteq> 0,
                 IsResponse := (flags AND flagIsResponse) \<noteq> 0\<rparr>;
           offset = offset + 1;
           m = m\<lparr>MsgId := le_word (gslice buf offset 4)\<rparr>;
           offset = offset + 4;
           m = m\<lparr>SrcActor := le_word (gslice buf offset 8)\<rparr>;
           offset = offset + 8;
           m = m\<lparr>TarActor := le_word (gslice buf offset 8)\<rparr>;
           offset = offset + 8;
           m = m\<lparr>SessionId := le_word (gslice buf offset 8)\<rparr>;
           offset = offset + 8;
           m = m\<lparr>RpcId := le_word (gslice buf offset 8)\<rparr>;
           offset = offset + 8;
           m = m\<lparr>SeqId := le_word (gslice buf offset 4)\<rparr>;
           offset = offset + 4;
           m = m\<lparr>TraceIdHi := le_word (gslice buf offset 8)\<rparr>;
           offset = offset + 8;
           m = m\<lparr>TraceIdLo := le_word (gslice buf offset 8)\<rparr>;
           offset = offset + 8;
           m = m\<lparr>SpanId := le_word (gslice buf offset 8)\<rparr>;
           offset = offset + 8
       in if offset + 4 > length buf then (Some ErrDataCorrupt, m)
          else
           (let dataLen = unat (le_word (gslice buf offset 4) :: u32);
                offset = offset + 4
            in if dataLen > maxMessageDataSize then (Some ErrDataCorrupt, m)
               else if dataLen > 0 then
                 (if offset + dataLen > length buf then (Some ErrDataCorrupt, m)
                  else
                   (let m = (if DataCap m \<ge> dataLen then m
                             else m\<lparr>DataCap := dataLen\<rparr>);
                        m = m\<lparr>Data := gslice buf offset dataLen\<rparr>
                    in (None, m)))
               else (None, m\<lparr>Data := [], DataCap := 0\<rparr>))))"

section \<open>The byte layout\<close>

definition flag_byte :: "message \<Rightarrow> u8" where
  "flag_byte m =
    (let flags = 0;
         flags = (if ToClient m then flags OR flagToClient else flags);
         flags = (if FromClient m then flags OR flagFromClient else flags);
         flags = (if IsResponse m then flags OR flagIsResponse else flags)
     in flags)"

definition wire_header :: "message \<Rightarrow> byte list" where
  "wire_header m =
     flag_byte m # le_bytes 4 (MsgId m) @ le_bytes 8 (SrcActor m) @ le_bytes 8 (TarActor m)
       @ le_bytes 8 (SessionId m) @ le_bytes 8 (RpcId m) @ le_bytes 4 (SeqId m)
       @ le_bytes 8 (TraceIdHi m) @ le_bytes 8 (TraceIdLo m) @ le_bytes 8 (SpanId m)"

definition wire_image :: "message \<Rightarrow> byte list" where
  "wire_image m =
     wire_header m @ le_bytes 4 (word_of_nat (length (Data m)) :: u32) @ Data m"

lemma length_wire_header [simp]: "length (wire_header m) = 65"
  by (simp add: wire_header_def)

lemma length_wire_image [simp]: "length (wire_image m) = Size m"
  by (simp add: wire_image_def Size_def FixedHeaderSize_def)

lemma Size_eq: "Size m = 69 + length (Data m)"
  by (simp add: Size_def FixedHeaderSize_def)

lemma flag_byte_bits:
  "(flag_byte m AND flagToClient) \<noteq> 0 \<longleftrightarrow> ToClient m"
  "(flag_byte m AND flagFromClient) \<noteq> 0 \<longleftrightarrow> FromClient m"
  "(flag_byte m AND flagIsResponse) \<noteq> 0 \<longleftrightarrow> IsResponse m"
  by (simp_all add: flag_byte_def wire_simps)

text \<open>The encoder with its ten fixed-width writes and the length word carried out: what it
  leaves in the buffer is the header, the length and what was behind them.\<close>

lemma MarshalTo_writes:
  "MarshalTo m buf =
    (if length buf < Size m then (Inl ErrBufferTooSmall, buf)
     else let dataLen = (word_of_nat (length (Data m)) :: u32);
              buf' = wire_header m @ le_bytes 4 dataLen @ drop 69 buf
          in if 0 < dataLen then (Inr (69 + unat dataLen), copy_at buf' 69 (Data m))
             else (Inr 69, buf'))"
  by (simp add: MarshalTo_def Let_def put_at_put_at cong: if_cong split del: if_split)
    (simp add: put_at_0 wire_header_def flag_byte_def Let_def cong: if_cong split del: if_split)

lemma MarshalTo_image:
  assumes "Size m \<le> length buf" and "length (Data m) < 2 ^ 32"
  shows "MarshalTo m buf = (Inr (Size m), wire_image m @ drop (Size m) buf)"
proof -
  let ?n = "length (Data m)"
  have un: "unat (word_of_nat ?n :: u32) = ?n"
    using assms(2) by (simp add: unat_of_nat)
  then have pos: "0 < (word_of_nat ?n :: u32) \<longleftrightarrow> 0 < ?n"
    by (simp add: word_less_nat_alt)
  show ?thesis using assms(1) un pos
    by (auto simp: MarshalTo_writes Size_eq wire_image_def copy_at_def put_at_def Let_def
        add.commute)
qed

section \<open>Decoding the layout\<close>

text \<open>The field reads of \<open>Unmarshal\<close> as one record update; \<open>read_header\<close> is what every path
  of the decoder that passes the length check has stored.\<close>

definition read_header :: "message \<Rightarrow> byte list \<Rightarrow> message" where
  "read_header m buf =
     m\<lparr>ToClient := (buf ! 0 AND flagToClient) \<noteq> 0,
       FromClient := (buf ! 0 AND flagFromClient) \<noteq> 0,
       IsResponse := (buf ! 0 AND flagIsResponse) \<noteq> 0,
       MsgId := le_word (gslice buf 1 4), SrcActor := le_word (gslice buf 5 8),
       TarActor := le_word (gslice buf 13 8), SessionId := le_word (gslice buf 21 8),
       RpcId := le_word (gslice buf 29 8), SeqId := le_word (gslice buf 37 4),
       TraceIdHi := le_word (gslice buf 41 8), TraceIdLo := le_word (gslice buf 49 8),
       SpanId := le_word (gslice buf 57 8)\<rparr>"

definition wire_dataLen :: "byte list \<Rightarrow> nat" where
  "wire_dataLen buf = unat (le_word (gslice buf 65 4) :: u32)"

lemma Unmarshal_cases:
  "Unmarshal m buf =
    (if length buf < 65 then (Some ErrDataCorrupt, m)
     else if length buf < 69 \<or> wire_dataLen buf > maxMessageDataSize
             \<or> (0 < wire_dataLen buf \<and> length buf < 69 + wire_dataLen buf)
     then (Some ErrDataCorrupt, read_header m buf)
     else if wire_dataLen buf = 0 then (None, (read_header m buf)\<lparr>Data := [], DataCap := 0\<rparr>)
     else (None, (read_header m buf)
             \<lparr>DataCap := max (DataCap m) (wire_dataLen buf),
              Data := gslice buf 69 (wire_dataLen buf)\<rparr>))"
  by (auto simp: Unmarshal_def Let_def read_header_def wire_dataLen_def FixedHeaderSize_def)

text \<open>The slices of an encoded header, field by field.\<close>

lemma header_slices:
  "(wire_header m @ r) ! 0 = flag_byte m"
  "gslice (wire_header m @ r) (Suc 0) 4 = le_bytes 4 (MsgId m)"
  "gslice (wire_header m @ r) 5 8 = le_bytes 8 (SrcActor m)"
  "gslice (wire_header m @ r) 13 8 = le_bytes 8 (TarActor m)"
  "gslice (wire_header m @ r) 21 8 = le_bytes 8 (SessionId m)"
  "gslice (wire_header m @ r) 29 8 = le_bytes 8 (RpcId m)"
  "gslice (wire_header m @ r) 37 4 = le_bytes 4 (SeqId m)"
  "gslice (wire_header m @ r) 41 8 = le_bytes 8 (TraceIdHi m)"
  "gslice (wire_header m @ r) 49 8 = le_bytes 8 (TraceIdLo m)"
  "gslice (wire_header m @ r) 57 8 = le_bytes 8 (SpanId m)"
  by (simp_all add: wire_header_def gslice_def)

lemma read_header_image:
  "read_header m0 (wire_header m @ r) =
     m\<lparr>Data := Data m0, DataCap := DataCap m0, RefCount := RefCount m0\<rparr>"
  by (rule message.equality)
    (simp_all add: read_header_def header_slices flag_byte_bits le_word_le_bytes)

lemma wire_dataLen_image:
  "length (Data m) < 2 ^ 32 \<Longrightarrow> wire_dataLen (wire_image m @ r) = length (Data m)"
  by (simp add: wire_dataLen_def wire_image_def gslice_def le_word_le_bytes unat_of_nat)

lemma wire_image_split: "wire_image m @ r = wire_header m @ (le_bytes 4 (word_of_nat (length (Data m)) :: u32) @ Data m @ r)"
  by (simp add: wire_image_def)

lemma data_slice_image: "gslice (wire_image m @ r) 69 (length (Data m)) = Data m"
  by (simp add: wire_image_def gslice_def)

lemma Unmarshal_image:
  assumes "length (Data m) \<le> maxMessageDataSize"
  shows "Unmarshal m0 (wire_image m @ r) =
    (None, m\<lparr>RefCount := RefCount m0,
             DataCap := (if Data m = [] then 0 else max (DataCap m0) (length (Data m)))\<rparr>)"
proof -
  have l: "length (Data m) < 2 ^ 32"
    using assms by (simp add: maxMessageDataSize_def)
  have h: "read_header m0 (wire_image m @ r) =
      m\<lparr>Data := Data m0, DataCap := DataCap m0, RefCount := RefCount m0\<rparr>"
    unfolding wire_image_split by (rule read_header_image)
  show ?thesis
    using assms
    by (simp add: Unmarshal_cases wire_dataLen_image [OF l] h data_slice_image Size_eq)
qed

text \<open>Three bits are all a flag byte can hold: a byte below 8 is the flag byte of its bits.\<close>

lemma u8_below_8:
  assumes "(w :: u8) < 8"
  shows "w \<in> {0, 1, 2, 3, 4, 5, 6, 7}"
proof -
  have "unat w < 8" using assms by (simp add: word_less_nat_alt)
  then have "unat w \<in> {0, 1, 2, 3, 4, 5, 6, 7}" by auto
  then show ?thesis by (auto simp: word_unat_eq_iff)
qed

lemma flag_byte_read_header:
  "buf ! 0 < 8 \<Longrightarrow> flag_byte (read_header m buf) = buf ! 0"
  using u8_below_8 [of "buf ! 0"]
  by (auto simp: flag_byte_def read_header_def wire_simps Let_def)

lemma wire_header_read_header:
  assumes "65 \<le> length buf" and "buf ! 0 < 8"
  shows "wire_header (read_header m buf) = take 65 buf"
proof -
  have sp: "take (n + k) xs = take n xs @ gslice xs n k" for n k and xs :: "byte list"
    by (simp add: gslice_def take_add)
  have "take (Suc 0) buf = [buf ! 0]"
    using assms(1) by (cases buf) auto
  then have "take 65 buf = [buf ! 0] @ gslice buf 1 4 @ gslice buf 5 8 @ gslice buf 13 8 @ gslice buf 21 8
      @ gslice buf 29 8 @ gslice buf 37 4 @ gslice buf 41 8 @ gslice buf 49 8 @ gslice buf 57 8"
    using sp [of 57 8 buf] sp [of 49 8 buf] sp [of 41 8 buf] sp [of 37 4 buf] sp [of 29 8 buf]
      sp [of 21 8 buf] sp [of 13 8 buf] sp [of 5 8 buf] sp [of 1 4 buf]
    by simp
  moreover have "le_bytes 8 (le_word (gslice buf k 8) :: u64) = gslice buf k 8" if "k + 8 \<le> 65" for k
    using le_bytes_le_word [of "gslice buf k 8", where 'a = 64] assms(1) that by simp
  moreover have "le_bytes 4 (le_word (gslice buf k 4) :: u32) = gslice buf k 4" if "k + 4 \<le> 65" for k
    using le_bytes_le_word [of "gslice buf k 4", where 'a = 32] assms(1) that by simp
  ultimately show ?thesis
    using flag_byte_read_header [OF assms(2), of m]
    by (simp add: wire_header_def read_header_def)
qed

lemma Marshal_eq:
  "length (Data m) < 2 ^ 32 \<Longrightarrow> Marshal m = (Inr (Size m), wire_image m)"
  by (simp add: Marshal_def MarshalTo_image)

lemma MarshalPooled_eq:
  "length (Data m) < 2 ^ 32 \<Longrightarrow> Size m \<le> length old \<Longrightarrow> MarshalPooled m old = Inr (wire_image m)"
  by (simp add: MarshalPooled_def MarshalTo_image)

section \<open>Properties of the codec\<close>

text \<open>Claim C2: decoding is a left inverse of encoding. For every message whose payload is
  within the 16 MB limit, both encoders (\<open>Marshal\<close> and \<open>MarshalPooled\<close>, the latter into a
  buffer with arbitrary old contents) succeed with \<open>Size m\<close> bytes, and \<open>Unmarshal\<close> of those
  bytes, whatever follows them in the buffer, restores every serialised field into any
  receiver, keeps the receiver's reference count, and copies the payload.\<close>

theorem wire_roundtrip:
  assumes "length (Data m) \<le> maxMessageDataSize" and "Size m \<le> length old"
  shows "\<exists>bs. Marshal m = (Inr (Size m), bs) \<and> MarshalPooled m old = Inr bs \<and> length bs = Size m
    \<and> Unmarshal m0 (bs @ extra) =
        (None, m\<lparr>RefCount := RefCount m0,
                 DataCap := (if Data m = [] then 0 else max (DataCap m0) (length (Data m)))\<rparr>)"
proof -
  have "length (Data m) < 2 ^ 32"
    using assms(1) by (simp add: maxMessageDataSize_def)
  then show ?thesis
    using assms by (simp add: Marshal_eq MarshalPooled_eq Unmarshal_image)
qed

theorem wire_roundtrip_witness:
  "\<exists>bs. Marshal (msg_zero\<lparr>MsgId := 7, Data := [1, 2], IsResponse := True\<rparr>) = (Inr 71, bs)
     \<and> length bs = 71
     \<and> MsgId (snd (Unmarshal msg_zero bs)) = 7 \<and> Data (snd (Unmarshal msg_zero bs)) = [1, 2]"
  using wire_roundtrip [of "msg_zero\<lparr>MsgId := 7, Data := [1, 2], IsResponse := True\<rparr>"
      "replicate 80 0" msg_zero "[]"]
  by (auto simp: msg_zero_def maxMessageDataSize_def Size_eq)

text \<open>\<open>Unmarshal\<close> accepts exactly the buffers that hold the 69 fixed bytes, announce a
  payload of at most 16 MB and contain that payload; every other buffer is refused with
  \<open>ErrDataCorrupt\<close>. Whatever the outcome the reference count is kept, a payload that is
  accepted has the announced length and fits its capacity.\<close>

theorem Unmarshal_accepts_iff:
  "fst (Unmarshal m buf) =
     (if 69 \<le> length buf \<and> wire_dataLen buf \<le> maxMessageDataSize
         \<and> 69 + wire_dataLen buf \<le> length buf
      then None else Some ErrDataCorrupt)
   \<and> RefCount (snd (Unmarshal m buf)) = RefCount m
   \<and> (fst (Unmarshal m buf) = None \<longrightarrow>
        Data (snd (Unmarshal m buf)) = gslice buf 69 (wire_dataLen buf)
        \<and> length (Data (snd (Unmarshal m buf))) = wire_dataLen buf
        \<and> wire_dataLen buf \<le> DataCap (snd (Unmarshal m buf)))"
  by (auto simp: Unmarshal_cases read_header_def gslice_def)

theorem Unmarshal_accepts_iff_witness:
  "fst (Unmarshal msg_zero (replicate 69 0)) = None
   \<and> fst (Unmarshal msg_zero (replicate 68 0)) = Some ErrDataCorrupt"
  using Unmarshal_accepts_iff [of msg_zero "replicate 69 0"]
    Unmarshal_accepts_iff [of msg_zero "replicate 68 0"]
  by (simp add: wire_dataLen_def gslice_def numeral_eq_Suc)

text \<open>encoding is a left inverse of decoding on canonical buffers. When \<open>Unmarshal\<close>
  accepts a buffer whose flag byte uses only the three defined bits, encoding the decoded
  message reproduces the consumed bytes exactly.\<close>

theorem Marshal_Unmarshal:
  assumes "fst (Unmarshal m buf) = None" and "buf ! 0 < 8"
  shows "Marshal (snd (Unmarshal m buf)) = (Inr (69 + wire_dataLen buf), take (69 + wire_dataLen buf) buf)"
proof -
  let ?n = "wire_dataLen buf" and ?m' = "snd (Unmarshal m buf)"
  have acc: "69 \<le> length buf" "?n \<le> maxMessageDataSize" "69 + ?n \<le> length buf"
    using assms(1) by (auto simp: Unmarshal_cases split: if_splits)
  have hdr: "wire_header ?m' = take 65 buf"
    using wire_header_read_header [of buf m] acc(1) assms(2)
    by (auto simp: Unmarshal_cases wire_header_def flag_byte_def split: if_splits)
  have dat: "Data ?m' = gslice buf 69 ?n"
    using acc by (auto simp: Unmarshal_cases gslice_def)
  have len: "le_bytes 4 (word_of_nat ?n :: u32) = gslice buf 65 4"
    using le_bytes_le_word [of "gslice buf 65 4", where 'a = 32] acc(1)
    by (simp add: wire_dataLen_def)
  have "length (Data ?m') = ?n" using dat acc by simp
  then have "wire_image ?m' = take 65 buf @ gslice buf 65 4 @ gslice buf 69 ?n"
    by (simp add: wire_image_def hdr dat len)
  also have "\<dots> = take (69 + ?n) buf"
    using take_add [of 65 4 buf] take_add [of 69 ?n buf] by (simp add: gslice_def)
  finally show ?thesis
    using Marshal_eq [of ?m'] acc(2) \<open>length (Data ?m') = ?n\<close>
    by (simp add: Size_eq maxMessageDataSize_def)
qed

theorem Marshal_Unmarshal_witness:
  "fst (Unmarshal msg_zero (5 # replicate 68 0)) = None
   \<and> Marshal (snd (Unmarshal msg_zero (5 # replicate 68 0))) = (Inr 69, 5 # replicate 68 0)"
proof -
  have d: "wire_dataLen (5 # replicate 68 0) = 0"
    by (simp add: wire_dataLen_def gslice_def numeral_eq_Suc)
  have a: "fst (Unmarshal msg_zero (5 # replicate 68 0)) = None"
    by (simp add: Unmarshal_cases d)
  show ?thesis using a Marshal_Unmarshal [OF a] by (simp add: d)
qed

text \<open>\<open>MarshalTo\<close> stays inside the caller's buffer. A buffer shorter than \<open>Size m\<close>
  is refused untouched; otherwise the call reports exactly \<open>Size m\<close> bytes, the buffer keeps its
  length, and everything behind the encoded message is unchanged.\<close>

theorem MarshalTo_in_bounds:
  assumes "length (Data m) < 2 ^ 32"
  shows "(length buf < Size m \<longrightarrow> MarshalTo m buf = (Inl ErrBufferTooSmall, buf))
    \<and> (Size m \<le> length buf \<longrightarrow>
         fst (MarshalTo m buf) = Inr (Size m)
         \<and> length (snd (MarshalTo m buf)) = length buf
         \<and> drop (Size m) (snd (MarshalTo m buf)) = drop (Size m) buf)"
  using assms by (simp add: MarshalTo_image) (simp add: MarshalTo_def)

theorem MarshalTo_in_bounds_witness:
  "MarshalTo msg_zero (replicate 68 0) = (Inl ErrBufferTooSmall, replicate 68 0)
   \<and> fst (MarshalTo msg_zero (replicate 70 1)) = Inr 69"
  using MarshalTo_in_bounds [of msg_zero "replicate 68 0"]
    MarshalTo_in_bounds [of msg_zero "replicate 70 1"]
  by (simp add: msg_zero_def Size_eq)

text \<open>the sender does not enforce the receiver's payload limit. A payload above 16 MB
  (and below 4 GB) is encoded without an error, and no receiver accepts the result.\<close>

theorem oversized_payload_undeliverable:
  assumes "maxMessageDataSize < length (Data m)" and "length (Data m) < 2 ^ 32"
  shows "\<exists>bs. Marshal m = (Inr (Size m), bs) \<and> fst (Unmarshal m0 bs) = Some ErrDataCorrupt"
  using assms wire_dataLen_image [OF assms(2), of "[]"]
  by (simp add: Marshal_eq Unmarshal_cases Size_eq)

theorem oversized_payload_undeliverable_witness:
  "\<exists>bs. Marshal (msg_zero\<lparr>Data := replicate 16777217 0\<rparr>) = (Inr 16777286, bs)
     \<and> fst (Unmarshal msg_zero bs) = Some ErrDataCorrupt"
  using oversized_payload_undeliverable [of "msg_zero\<lparr>Data := replicate 16777217 0\<rparr>" msg_zero]
  by (simp add: maxMessageDataSize_def Size_eq)

end
