(* ===== verification/ZMsgPool.thy ===== *)
theory ZMsgPool
  imports ZMsg
begin

text \<open>
  \<open>zmsg/msgpool.go\<close> and \<open>zmsg/msg_ext.go\<close>: pooled messages with reference counts. A
  \<open>*Message\<close> is an address (\<open>None\<close> for nil) into an explicit heap; the objects held by the
  pool are the list \<open>mpool\<close>. \<open>zpool.Pool\<close> is not part of the repository: which pooled object
  its \<open>Get\<close> hands out, or whether it calls the constructor instead, is the parameter
  \<open>pick\<close>, of which the code relies on \<open>pick_ok\<close> (an object that is handed out was in the
  pool). The lifecycle tracking behind \<open>DEBUG_LIFECYCLE\<close> is compiled out in the default
  build (\<open>zmsg/lifecycle_off.go\<close>) and is not modelled. Each operation is one atomic step.
\<close>

section \<open>The message heap\<close>

type_synonym mref = nat

record mheap =
  mobj :: "mref \<Rightarrow> message"
  mpool :: "mref list"
  mnext :: mref
  mDoubleRelease :: i64

definition empty_heap :: mheap where
  "empty_heap = \<lparr>mobj = (\<lambda>_. msg_zero), mpool = [], mnext = 0, mDoubleRelease = 0\<rparr>"

definition upd_msg :: "mref \<Rightarrow> (message \<Rightarrow> message) \<Rightarrow> mheap \<Rightarrow> mheap" where
  "upd_msg a f h = h\<lparr>mobj := (mobj h)(a := f (mobj h a))\<rparr>"

text \<open>The pool's constructor: \<open>&Message{Data: make([]byte, 0, 256)}\<close>.\<close>

definition new_pooled :: message where
  "new_pooled = msg_zero\<lparr>DataCap := 256\<rparr>"

definition pool_get :: "pick \<Rightarrow> mheap \<Rightarrow> mref \<times> mheap" where
  "pool_get pick h =
    (case pick (mpool h) of
       Some a \<Rightarrow> (a, h\<lparr>mpool := remove1 a (mpool h)\<rparr>)
     | None \<Rightarrow> (mnext h, h\<lparr>mobj := (mobj h)(mnext h := new_pooled), mnext := Suc (mnext h)\<rparr>))"

definition pool_put :: "mref \<Rightarrow> mheap \<Rightarrow> mheap" where
  "pool_put a h = h\<lparr>mpool := a # mpool h\<rparr>"

section \<open>Resets\<close>

definition SmartReset :: "message \<Rightarrow> message" where
  "SmartReset m = m\<lparr>MsgId := 0, Data := [], DataCap := 0, ToClient := False, SrcActor := 0,
     TarActor := 0, SessionId := 0, FromClient := False, IsResponse := False, RpcId := 0,
     TraceIdHi := 0, TraceIdLo := 0, SpanId := 0, SeqId := 0, RefCount := 0\<rparr>"

definition PoolReset :: "message \<Rightarrow> message" where
  "PoolReset m = m\<lparr>MsgId := 0, Data := take 0 (Data m), ToClient := False, SrcActor := 0,
     TarActor := 0, SessionId := 0, FromClient := False, IsResponse := False, RpcId := 0,
     TraceIdHi := 0, TraceIdLo := 0, SpanId := 0, SeqId := 0\<rparr>"

text \<open>The remaining methods of \<open>IWireMessage\<close>; \<open>SetMessageData\<close> replaces the slice.\<close>

definition SetMessageData :: "byte list \<Rightarrow> nat \<Rightarrow> message \<Rightarrow> message" where
  "SetMessageData dat dcap m = m\<lparr>Data := dat, DataCap := dcap\<rparr>"

definition SetMsgId :: "i32 \<Rightarrow> message \<Rightarrow> message" where
  "SetMsgId i m = m\<lparr>MsgId := i\<rparr>"

definition SetSeqId :: "u32 \<Rightarrow> message \<Rightarrow> message" where
  "SetSeqId i m = m\<lparr>SeqId := i\<rparr>"

definition Reset :: "message \<Rightarrow> message" where
  "Reset m = SmartReset m"

section \<open>Get, Retain, Release\<close>

definition GetMessage :: "pick \<Rightarrow> mheap \<Rightarrow> mref \<times> mheap" where
  "GetMessage pick h =
    (let (msg, h) = pool_get pick h;
         h = upd_msg msg PoolReset h;
         h = upd_msg msg (\<lambda>m. m\<lparr>RefCount := 1\<rparr>) h
     in (msg, h))"

definition Retain :: "mref option \<Rightarrow> mheap \<Rightarrow> mheap" where
  "Retain p h =
    (case p of
       None \<Rightarrow> h
     | Some a \<Rightarrow> upd_msg a (\<lambda>m. m\<lparr>RefCount := RefCount m + 1\<rparr>) h)"

definition Release :: "mref option \<Rightarrow> mheap \<Rightarrow> mheap" where
  "Release p h =
    (case p of
       None \<Rightarrow> h
     | Some a \<Rightarrow>
        (let newRef = RefCount (mobj h a) - 1;
             h = upd_msg a (\<lambda>m. m\<lparr>RefCount := newRef\<rparr>) h
         in if newRef = 0 then
              (let h = upd_msg a (\<lambda>m. m\<lparr>RefCount := 0\<rparr>) h;
                   h = (if DataCap (mobj h a) > 4096
                        then upd_msg a (\<lambda>m. m\<lparr>Data := [], DataCap := 0\<rparr>) h else h)
               in pool_put a h)
            else if sint newRef < 0 then
              (let h = h\<lparr>mDoubleRelease := mDoubleRelease h + 1\<rparr>
               in upd_msg a (\<lambda>m. m\<lparr>RefCount := 0\<rparr>) h)
            else h))"

definition MustRelease :: "mref option \<Rightarrow> mheap \<Rightarrow> mheap" where
  "MustRelease p h = (if p \<noteq> None then Release p h else h)"

definition LoadRefCount :: "mref option \<Rightarrow> mheap \<Rightarrow> i32" where
  "LoadRefCount p h = (case p of None \<Rightarrow> 0 | Some a \<Rightarrow> RefCount (mobj h a))"

lemmas pool_defs [pool_simps] =
  upd_msg_def pool_get_def pool_put_def GetMessage_def Retain_def Release_def

section \<open>Reference-count arithmetic\<close>

lemma sint_inc: "sint (w :: i32) < 2 ^ 31 - 1 \<Longrightarrow> sint (w + 1) = sint w + 1"
  using sint_greater_eq [of w]
  by (simp add: sint_word_ariths signed_take_bit_int_eq_self)

lemma sint_dec: "- (2 ^ 31) < sint (w :: i32) \<Longrightarrow> sint (w - 1) = sint w - 1"
  using sint_lt [of w]
  by (simp add: sint_word_ariths signed_take_bit_int_eq_self)

lemma dec_eq_0: "(w :: i32) - 1 = 0 \<longleftrightarrow> w = 1"
  by (simp add: algebra_simps)

lemma sint_eq_1: "sint (w :: i32) = 1 \<longleftrightarrow> w = 1"
proof
  assume "sint w = 1"
  then have "sint w = sint (1 :: i32)" by simp
  then show "w = 1" by (rule signed_word_eqI)
qed simp

section \<open>The invariant\<close>

text \<open>A pooled object is held once, is counted 0 and keeps at most 4096 bytes of payload
  capacity; every allocated object outside the pool has a positive count.\<close>

definition pool_inv :: "mheap \<Rightarrow> bool" where
  "pool_inv h \<longleftrightarrow>
     distinct (mpool h)
     \<and> (\<forall>a \<in> set (mpool h). a < mnext h \<and> RefCount (mobj h a) = 0 \<and> DataCap (mobj h a) \<le> 4096)
     \<and> (\<forall>a < mnext h. a \<notin> set (mpool h) \<longrightarrow> 0 < sint (RefCount (mobj h a)))"

definition live :: "mheap \<Rightarrow> mref \<Rightarrow> bool" where
  "live h a \<longleftrightarrow> a < mnext h \<and> a \<notin> set (mpool h)"

text \<open>The outstanding references of an object, as the abstract view of its counter.\<close>

definition refs :: "mheap \<Rightarrow> mref \<Rightarrow> nat" where
  "refs h a = nat (sint (RefCount (mobj h a)))"

lemma pool_inv_empty: "pool_inv empty_heap"
  by (simp add: pool_inv_def empty_heap_def)

lemma pool_invD:
  assumes "pool_inv h"
  shows "distinct (mpool h)"
    and "a \<in> set (mpool h) \<Longrightarrow> a < mnext h \<and> RefCount (mobj h a) = 0 \<and> DataCap (mobj h a) \<le> 4096"
    and "live h a \<Longrightarrow> 0 < sint (RefCount (mobj h a))"
  using assms by (auto simp: pool_inv_def live_def)

lemma GetMessage_inv:
  "pool_inv h \<Longrightarrow> pick_ok pick \<Longrightarrow> pool_inv (snd (GetMessage pick h))"
  by (auto simp: pool_inv_def pick_ok_def pool_simps Let_def split: option.splits)

lemma Retain_inv:
  "pool_inv h \<Longrightarrow> live h a \<Longrightarrow> sint (RefCount (mobj h a)) < 2 ^ 31 - 1 \<Longrightarrow> pool_inv (Retain (Some a) h)"
  by (auto simp: pool_inv_def live_def pool_simps sint_inc)

text \<open>The three outcomes of \<open>Release\<close> under the invariant.\<close>

lemma Release_pooled:
  assumes "pool_inv h" and "a \<in> set (mpool h)"
  shows "Release (Some a) h = h\<lparr>mDoubleRelease := mDoubleRelease h + 1\<rparr>"
proof -
  have "RefCount (mobj h a) = 0" using assms by (auto simp: pool_inv_def)
  moreover from this have "(mobj h)(a := (mobj h a)\<lparr>RefCount := 0\<rparr>) = mobj h"
    by (cases "mobj h a") (auto simp: fun_eq_iff)
  ultimately show ?thesis
    by (cases h) (simp add: pool_simps Let_def)
qed

lemma Release_last:
  assumes "RefCount (mobj h a) = 1"
  shows "mpool (Release (Some a) h) = a # mpool h"
    and "RefCount (mobj (Release (Some a) h) a) = 0"
    and "DataCap (mobj (Release (Some a) h) a) \<le> 4096"
    and "mnext (Release (Some a) h) = mnext h"
    and "b \<noteq> a \<Longrightarrow> mobj (Release (Some a) h) b = mobj h b"
    and "mDoubleRelease (Release (Some a) h) = mDoubleRelease h"
  using assms by (simp_all add: pool_simps Let_def)

lemma Release_shared:
  assumes "1 < sint (RefCount (mobj h a))"
  shows "Release (Some a) h = upd_msg a (\<lambda>m. m\<lparr>RefCount := RefCount m - 1\<rparr>) h"
proof -
  have "RefCount (mobj h a) \<noteq> 1" using assms by auto
  moreover have "sint (RefCount (mobj h a) - 1) > 0"
    using assms by (simp add: sint_dec)
  ultimately show ?thesis by (simp add: pool_simps Let_def dec_eq_0)
qed

text \<open>\<open>Release\<close> of any allocated object keeps the invariant, a double release included.\<close>

lemma Release_inv:
  assumes inv: "pool_inv h" and a: "a < mnext h"
  shows "pool_inv (Release (Some a) h)"
proof (cases "a \<in> set (mpool h)")
  case True
  then show ?thesis using inv by (simp add: Release_pooled pool_inv_def)
next
  case False
  then have pos: "0 < sint (RefCount (mobj h a))" using inv a by (simp add: pool_inv_def)
  show ?thesis
  proof (cases "RefCount (mobj h a) = 1")
    case True
    note r = Release_last [OF True]
    have "mobj (Release (Some a) h) b = mobj h b" if "b \<in> set (mpool h)" for b
      using that False by (intro r(5)) auto
    then show ?thesis using inv False a r(5)
      by (auto simp: pool_inv_def r(1-4))
  next
    case ne: False
    then have gt: "1 < sint (RefCount (mobj h a))"
      using pos sint_eq_1 [of "RefCount (mobj h a)"] by linarith
    show ?thesis unfolding Release_shared [OF gt] using inv False gt
      by (auto simp: pool_inv_def upd_msg_def sint_dec)
  qed
qed

section \<open>Executions\<close>

text \<open>
  What the holders of messages do, in any interleaving: take a message from the pool, share a
  live one, release one (also a released one, once too often), write its fields. The guard of
  \<open>share\<close> is that the 32-bit counter does not overflow, i.e. fewer than \<open>2^31 - 1\<close>
  simultaneous holders.
\<close>

inductive pool_step :: "pick \<Rightarrow> mheap \<Rightarrow> mheap \<Rightarrow> bool" for pick where
  take_msg: "GetMessage pick h = (a, h') \<Longrightarrow> pool_step pick h h'"
| share: "live h a \<Longrightarrow> sint (RefCount (mobj h a)) < 2 ^ 31 - 1 \<Longrightarrow> pool_step pick h (Retain (Some a) h)"
| drop_ref: "a < mnext h \<Longrightarrow> pool_step pick h (Release (Some a) h)"
| drop_nil: "pool_step pick h (Release None h)"
| own_write: "live h a \<Longrightarrow> (\<And>m. RefCount (f m) = RefCount m) \<Longrightarrow> pool_step pick h (upd_msg a f h)"

inductive pool_reach :: "pick \<Rightarrow> mheap \<Rightarrow> bool" for pick where
  start: "pool_reach pick empty_heap"
| step: "pool_reach pick h \<Longrightarrow> pool_step pick h h' \<Longrightarrow> pool_reach pick h'"

lemma pool_step_inv:
  assumes "pool_step pick h h'" "pick_ok pick" "pool_inv h"
  shows "pool_inv h'"
  using assms
proof (induction rule: pool_step.induct)
  case (take_msg h a h')
  then show ?case using GetMessage_inv [of h pick] by simp
next
  case (drop_nil h)
  then show ?case by (simp add: Release_def)
next
  case (own_write h a f)
  then show ?case by (auto simp: pool_inv_def live_def upd_msg_def)
qed (simp_all add: Retain_inv Release_inv)

lemma refs_Release:
  assumes inv: "pool_inv h" and a: "a < mnext h"
  shows "refs (Release (Some a) h) a = refs h a - 1"
proof (cases "a \<in> set (mpool h)")
  case True
  then have "RefCount (mobj h a) = 0" using inv by (simp add: pool_inv_def)
  then show ?thesis using True inv by (simp add: Release_pooled refs_def)
next
  case False
  then have pos: "0 < sint (RefCount (mobj h a))" using inv a by (simp add: pool_inv_def)
  show ?thesis
  proof (cases "RefCount (mobj h a) = 1")
    case True
    then show ?thesis by (simp add: refs_def Release_last)
  next
    case ne: False
    then have gt: "1 < sint (RefCount (mobj h a))"
      using pos sint_eq_1 [of "RefCount (mobj h a)"] by linarith
    show ?thesis unfolding Release_shared [OF gt] using gt
      by (simp add: refs_def upd_msg_def sint_dec nat_diff_distrib)
  qed
qed

lemma pooled_iff_refs:
  "pool_inv h \<Longrightarrow> a < mnext h \<Longrightarrow> a \<in> set (mpool h) \<longleftrightarrow> refs h a = 0"
  by (force simp: pool_inv_def refs_def)

lemma Release_other: "b \<noteq> a \<Longrightarrow> mobj (Release (Some a) h) b = mobj h b"
  by (simp add: pool_simps Let_def)

lemma mnext_Release [simp]: "mnext (Release p h) = mnext h"
  by (simp add: pool_simps Let_def split: option.split)


lemma pick_ok_hd: "pick_ok (\<lambda>xs. case xs of [] \<Rightarrow> None | x # _ \<Rightarrow> Some x)"
  by (auto simp: pick_ok_def split: list.splits)


text \<open>\<open>Release\<close> implements reference dropping. With the number of outstanding
  references of every object as the abstract state, it takes one reference of \<open>a\<close> away (and
  none when there is none, the double release, which it counts), leaves all other objects alone,
  and the object is in the pool afterwards exactly when no reference is left.\<close>

theorem Release_refines_drop:
  assumes "pool_inv h" and "a < mnext h"
  shows "refs (Release (Some a) h) = (refs h)(a := refs h a - 1)
         \<and> (a \<in> set (mpool (Release (Some a) h)) \<longleftrightarrow> refs h a \<le> 1)
         \<and> mDoubleRelease (Release (Some a) h) =
             (if refs h a = 0 then mDoubleRelease h + 1 else mDoubleRelease h)"
proof (intro conjI)
  show "refs (Release (Some a) h) = (refs h)(a := refs h a - 1)"
    using refs_Release [OF assms] Release_other [of _ a h] by (auto simp: refs_def)
  show "a \<in> set (mpool (Release (Some a) h)) \<longleftrightarrow> refs h a \<le> 1"
    using pooled_iff_refs [OF Release_inv [OF assms], of a] refs_Release [OF assms] assms(2) by simp
  show "mDoubleRelease (Release (Some a) h) =
          (if refs h a = 0 then mDoubleRelease h + 1 else mDoubleRelease h)"
  proof (cases "refs h a = 0")
    case True
    then show ?thesis using pooled_iff_refs [OF assms] assms(1) by (simp add: Release_pooled)
  next
    case False
    then have pos: "0 < sint (RefCount (mobj h a))" by (simp add: refs_def)
    then have "\<not> sint (RefCount (mobj h a) - 1) < 0" by (simp add: sint_dec)
    then show ?thesis using False by (simp add: pool_simps Let_def)
  qed
qed

theorem Release_refines_drop_witness:
  "let h = snd (GetMessage (\<lambda>_. None) empty_heap)
   in refs (Release (Some 0) h) = (refs h)(0 := refs h 0 - 1)
      \<and> (0 \<in> set (mpool (Release (Some 0) h)) \<longleftrightarrow> refs h 0 \<le> 1)"
proof -
  let ?h = "snd (GetMessage (\<lambda>_. None) empty_heap)"
  have inv: "pool_inv ?h"
    by (rule GetMessage_inv) (auto simp: pool_inv_empty pick_ok_def)
  have "0 < mnext ?h" by (simp add: pool_simps Let_def empty_heap_def)
  then show ?thesis
    using Release_refines_drop [OF inv] unfolding Let_def by blast
qed

lemma GetMessage_spec:
  assumes "pool_inv h" and "pick_ok pick" and "GetMessage pick h = (a, h')"
  shows "\<not> live h a \<and> live h' a \<and> refs h' a = 1
         \<and> mobj h' a = msg_zero\<lparr>RefCount := 1, DataCap := DataCap (mobj h' a)\<rparr>
         \<and> DataCap (mobj h' a) \<le> 4096
         \<and> (\<forall>b. b \<noteq> a \<longrightarrow> mobj h' b = mobj h b \<and> (live h' b \<longleftrightarrow> live h b))"
proof (cases "pick (mpool h)")
  case None
  then show ?thesis using assms
    by (auto simp: pool_simps Let_def live_def refs_def pool_inv_def new_pooled_def msg_zero_def
        PoolReset_def)
next
  case (Some b)
  then have b: "b \<in> set (mpool h)" using assms(2) by (simp add: pick_ok_def)
  have "set (remove1 b (mpool h)) = set (mpool h) - {b}"
    using assms(1) by (simp add: pool_inv_def)
  then show ?thesis using assms Some b
    by (auto simp: pool_simps Let_def live_def refs_def pool_inv_def msg_zero_def PoolReset_def)
qed

text \<open>\<open>GetMessage\<close> hands out an object that nobody holds (it was in the pool or is
  new), takes it out of the pool, with exactly one reference and every field cleared as in a
  fresh message, whatever its previous holder left in it; no other object changes.\<close>

theorem GetMessage_fresh:
  assumes "pool_inv h" and "pick_ok pick" and "GetMessage pick h = (a, h')"
  shows "\<not> live h a \<and> live h' a \<and> refs h' a = 1
         \<and> mobj h' a = msg_zero\<lparr>RefCount := 1, DataCap := DataCap (mobj h' a)\<rparr>
         \<and> DataCap (mobj h' a) \<le> 4096
         \<and> (\<forall>b. b \<noteq> a \<longrightarrow> mobj h' b = mobj h b \<and> (live h' b \<longleftrightarrow> live h b))"
  by (rule GetMessage_spec [OF assms])

theorem GetMessage_fresh_witness:
  "live (snd (GetMessage (\<lambda>_. None) empty_heap)) 0
   \<and> refs (snd (GetMessage (\<lambda>_. None) empty_heap)) 0 = 1"
proof -
  have "GetMessage (\<lambda>_. None) empty_heap = (0, snd (GetMessage (\<lambda>_. None) empty_heap))"
    by (simp add: pool_simps Let_def empty_heap_def)
  from GetMessage_fresh [OF pool_inv_empty _ this] show ?thesis by (simp add: pick_ok_def)
qed

end
