(* ===== verification/ZModel.thy ===== *)
theory ZModel
  imports ZMsgPool
begin

text \<open>
  \<open>zmodel/actor.go\<close>, \<open>zmodel/tickfn.go\<close>: the configuration and command data that the
  actor, group, gate and discovery packages share. Go functions carried as values are numbered
  (\<open>fnref\<close>); what a function does is supplied where it is called. Go's \<open>int\<close> and
  \<open>time.Duration\<close> fields of configurations are \<open>int\<close>s, no code of the package computes with
  them.
\<close>

type_synonym fnref = nat

record FrameworkTuning =
  ActorWorkSizeDefault :: int
  ActorBatchMin :: int
  ActorBatchMax :: int
  ActorBatchTargetP99 :: int
  SlowLogThreshold :: int
  SlowBatchThreshold :: int
  RTTBufferSize :: u32
  RTTMaxSamples :: u32

definition Millisecond :: int where "Millisecond = 1000000"

definition DefaultFrameworkTuning :: FrameworkTuning where
  "DefaultFrameworkTuning = \<lparr>ActorWorkSizeDefault = 500, ActorBatchMin = 1, ActorBatchMax = 200,
     ActorBatchTargetP99 = 10 * Millisecond, SlowLogThreshold = 10 * Millisecond,
     SlowBatchThreshold = 20 * Millisecond, RTTBufferSize = 16384, RTTMaxSamples = 100000\<rparr>"

text \<open>The process-wide \<open>atomic.Value\<close>: \<open>None\<close> before the package's \<open>init\<close> has run.\<close>

definition SetFrameworkTuning :: "FrameworkTuning \<Rightarrow> FrameworkTuning option \<Rightarrow> FrameworkTuning option" where
  "SetFrameworkTuning t frameworkTuningValue = Some t"

definition GetFrameworkTuning :: "FrameworkTuning option \<Rightarrow> FrameworkTuning" where
  "GetFrameworkTuning frameworkTuningValue =
    (case frameworkTuningValue of Some v \<Rightarrow> v | None \<Rightarrow> DefaultFrameworkTuning)"

record ActorModeConfig =
  Mode :: int
  ConcurrentPoolSize :: int
  ConcurrentMaxBatch :: int

definition IsSequential :: "ActorModeConfig \<Rightarrow> bool" where
  "IsSequential c \<longleftrightarrow> Mode c = 0"

definition IsConcurrent :: "ActorModeConfig \<Rightarrow> bool" where
  "IsConcurrent c \<longleftrightarrow> Mode c = 1"

definition GetPoolSize :: "ActorModeConfig \<Rightarrow> int" where
  "GetPoolSize c = (if ConcurrentPoolSize c \<le> 0 then 100 else ConcurrentPoolSize c)"

definition GetMaxBatch :: "ActorModeConfig \<Rightarrow> int" where
  "GetMaxBatch c = (if ConcurrentMaxBatch c \<le> 0 then 50 else ConcurrentMaxBatch c)"

record ActorConfig =
  Id :: u64
  Process :: u32
  Name :: string
  ActorType :: u32
  Index :: u32
  Addr :: string
  IsLimiter :: bool
  Rate :: int
  Burst :: int
  WorkSize :: u32
  MaxRPCPending :: u32
  MaxRestarts :: u32
  ModeConfig :: ActorModeConfig
  SupportedMsgIDs :: "i32 list"

definition mode_zero :: ActorModeConfig where
  "mode_zero = \<lparr>Mode = 0, ConcurrentPoolSize = 0, ConcurrentMaxBatch = 0\<rparr>"

definition config_zero :: ActorConfig where
  "config_zero = \<lparr>Id = 0, Process = 0, Name = [], ActorType = 0, Index = 0, Addr = [],
     IsLimiter = False, Rate = 0, Burst = 0, WorkSize = 0, MaxRPCPending = 0, MaxRestarts = 0,
     ModeConfig = mode_zero, SupportedMsgIDs = []\<rparr>"

definition GetTopic :: "ActorConfig \<Rightarrow> string" where
  "GetTopic a = ''topic_'' @ fmt_d (unat (ActorType a)) @ ''_'' @ fmt_d (unat (Index a)) @ ''_''
     @ fmt_d (unat (Id a))"

definition GetNameTopic :: "ActorConfig \<Rightarrow> string" where
  "GetNameTopic a = ''topic_name_'' @ fmt_d (unat (ActorType a))"

definition GetActorId :: "ActorConfig \<Rightarrow> u64" where "GetActorId a = Id a"
definition GetActorType :: "ActorConfig \<Rightarrow> u32" where "GetActorType a = ActorType a"

record ActorServerRegister =
  Key :: string
  Count :: i32
  Weight :: i32
  RegConfig :: ActorConfig

text \<open>\<open>Actor.getBroadcastTopic\<close> of \<open>zactor/base.go\<close>, the third kind of topic.\<close>

definition getBroadcastTopic :: string where
  "getBroadcastTopic = ''topic_broadcast''"

text \<open>A closure held by a command and the payload of an asynchronous command are type parameters, instantiated
  by the actor theories. \<open>CmdType\<close> is a \<open>uint8\<close>; a value outside of the constants is \<open>CmdOther\<close>.\<close>

datatype CmdType = CmdTypeMsg | CmdTypeTick | CmdTypeSafeFn | CmdTypeTickFn | CmdTypeClient
  | CmdTypeAsync | CmdOther u8

record TickFnItem =
  TickDo :: fnref
  Interval :: int
  LastTime :: int
  TickName :: string

definition NewTickFnItem :: "string \<Rightarrow> int \<Rightarrow> fnref \<Rightarrow> TickFnItem" where
  "NewTickFnItem name interval f = \<lparr>TickDo = f, Interval = interval, LastTime = 0, TickName = name\<rparr>"

record ('fn, 'any) ActorCmd =
  TickNow :: int
  Msg :: "mref option"
  Ctx :: "nat option"
  TickFn :: "TickFnItem option"
  Fn :: "'fn option"
  Any :: "'any option"
  Type :: CmdType

definition ActorCmd_Release :: "('fn, 'any) ActorCmd \<Rightarrow> mheap \<Rightarrow> ('fn, 'any) ActorCmd \<times> mheap" where
  "ActorCmd_Release c h =
    (if Msg c \<noteq> None then (let h = Release (Msg c) h in (c\<lparr>Msg := None\<rparr>, h)) else (c, h))"

definition ActorCmd_Retain :: "('fn, 'any) ActorCmd \<Rightarrow> mheap \<Rightarrow> mheap" where
  "ActorCmd_Retain c h = (if Msg c \<noteq> None then Retain (Msg c) h else h)"

section \<open>Topics\<close>

lemma fmt_d_hd: "\<exists>c cs. fmt_d n = c # cs \<and> is_digit c"
  using fmt_d_digits [of n] fmt_d_nonempty [of n] by (cases "fmt_d n") auto

lemma fmt_d_neq_letter:
  assumes "\<not> is_digit c"
  shows "fmt_d n @ xs \<noteq> c # ys"
  using fmt_d_hd [of n] assms by auto

lemma not_digit_n [simp]: "\<not> is_digit (CHR ''n'')"
  by (simp add: is_digit_def)

lemma not_digit_b [simp]: "\<not> is_digit (CHR ''b'')"
  by (simp add: is_digit_def)

text \<open>actors with different (type, index, id) never share a cross-process topic, and
  an actor's own topic is never the shared topic of some actor type nor the broadcast topic, so a
  message published for one actor cannot reach another actor's subscription.\<close>

theorem topics_separate:
  "(GetTopic a = GetTopic b \<longleftrightarrow> ActorType a = ActorType b \<and> Index a = Index b \<and> Id a = Id b)
   \<and> (GetNameTopic a = GetNameTopic b \<longleftrightarrow> ActorType a = ActorType b)
   \<and> GetTopic a \<noteq> GetNameTopic b \<and> GetTopic a \<noteq> getBroadcastTopic
   \<and> GetNameTopic a \<noteq> getBroadcastTopic"
proof (intro conjI)
  have inj: "ActorType a = ActorType b \<and> Index a = Index b \<and> Id a = Id b" if "GetTopic a = GetTopic b"
  proof -
    from that have eq: "fmt_d (unat (ActorType a)) @ CHR ''_'' # fmt_d (unat (Index a)) @ CHR ''_'' # fmt_d (unat (Id a))
        = fmt_d (unat (ActorType b)) @ CHR ''_'' # fmt_d (unat (Index b)) @ CHR ''_'' # fmt_d (unat (Id b))"
      by (simp add: GetTopic_def)
    note 1 = digit_run_unique [OF fmt_d_digits fmt_d_digits eq not_digit_underscore]
    note 2 = digit_run_unique [OF fmt_d_digits fmt_d_digits conjunct2 [OF 1] not_digit_underscore]
    from 1 2 show ?thesis by (simp add: unat_inj_iff)
  qed
  then show "GetTopic a = GetTopic b \<longleftrightarrow> ActorType a = ActorType b \<and> Index a = Index b \<and> Id a = Id b"
    by (auto simp: GetTopic_def)
  show "GetNameTopic a = GetNameTopic b \<longleftrightarrow> ActorType a = ActorType b"
    by (simp add: GetNameTopic_def unat_inj_iff)
  show "GetTopic a \<noteq> GetNameTopic b" "GetTopic a \<noteq> getBroadcastTopic"
    using fmt_d_neq_letter [of "CHR ''n''"] fmt_d_neq_letter [of "CHR ''b''"]
    by (simp_all add: GetTopic_def GetNameTopic_def getBroadcastTopic_def)
  show "GetNameTopic a \<noteq> getBroadcastTopic"
    by (simp add: GetNameTopic_def getBroadcastTopic_def)
qed

end
