(* ===== verification/ZRoute.thy ===== *)
theory ZRoute
  imports ZModel
begin

text \<open>
  \<open>zroute/remote_strategy.go\<close>: choosing one remote actor among the discovered candidates. The
  Go interface \<open>RemoteRouteStrategy\<close> is the locale \<open>remote_strategy\<close>, which the three
  strategies interpret; a strategy's mutable fields are passed explicitly. A nil message or a nil
  key function is \<open>None\<close>.
\<close>

unbundle bit_operations_syntax

definition DefaultRemoteRouteKey :: "message option \<Rightarrow> u64" where
  "DefaultRemoteRouteKey msg =
    (case msg of
       None \<Rightarrow> 0
     | Some m \<Rightarrow>
        if SessionId m \<noteq> 0 then SessionId m
        else if RpcId m \<noteq> 0 then RpcId m
        else 0)"

section \<open>First candidate and round robin\<close>

definition FirstCandidateStrategy_PickOne :: "message option \<Rightarrow> ActorConfig list \<Rightarrow> int" where
  "FirstCandidateStrategy_PickOne msg candidates = (if length candidates = 0 then - 1 else 0)"

record RoundRobinStrategy =
  seq :: u64

definition RoundRobinStrategy_PickOne ::
  "RoundRobinStrategy \<Rightarrow> message option \<Rightarrow> ActorConfig list \<Rightarrow> int \<times> RoundRobinStrategy" where
  "RoundRobinStrategy_PickOne s msg candidates =
    (let n = length candidates
     in if n = 0 then (- 1, s)
        else (let v = seq s + 1; s = s\<lparr>seq := v\<rparr>
              in (sint (v mod (word_of_nat n :: u64)), s)))"

section \<open>Rendezvous hashing\<close>

definition hrwScore :: "u64 \<Rightarrow> u64 \<Rightarrow> u64 \<Rightarrow> u64" where
  "hrwScore key actorID process =
    (let c1 = 0x9e3779b185ebca87;
         c2 = 0xc2b2ae3d27d4eb4f;
         x = key XOR (actorID + 0x100000001b3 * process);
         x = x XOR drop_bit 33 x;
         x = x * c1;
         x = x XOR drop_bit 29 x;
         x = x * c2;
         x = x XOR drop_bit 32 x
     in x)"

fun hrw_scan :: "u64 \<Rightarrow> int \<Rightarrow> int \<Rightarrow> u64 \<Rightarrow> ActorConfig list \<Rightarrow> int" where
  "hrw_scan key i bestIdx bestScore [] = bestIdx"
| "hrw_scan key i bestIdx bestScore (c # cs) =
    (let score = hrwScore key (Id c) (ucast (Process c))
     in if bestIdx < 0 \<or> score > bestScore
        then hrw_scan key (i + 1) i score cs
        else hrw_scan key (i + 1) bestIdx bestScore cs)"

record RendezvousHashStrategy =
  KeyFunc :: "(message option \<Rightarrow> u64) option"

definition RendezvousHashStrategy_PickOne ::
  "RendezvousHashStrategy \<Rightarrow> message option \<Rightarrow> ActorConfig list \<Rightarrow> int" where
  "RendezvousHashStrategy_PickOne s msg candidates =
    (let n = length candidates
     in if n = 0 then - 1
        else if n = 1 then 0
        else (let keyFn = (case KeyFunc s of None \<Rightarrow> DefaultRemoteRouteKey | Some f \<Rightarrow> f);
                  key = keyFn msg
              in if key = 0 then 0
                 else hrw_scan key 0 (- 1) 0 candidates))"

section \<open>The strategy interface\<close>

text \<open>\<open>pick st msg cs = (i, st')\<close>: the interface's contract is that an index is returned exactly
  when there is a candidate, and then a valid one.\<close>

locale remote_strategy =
  fixes pick :: "'s \<Rightarrow> message option \<Rightarrow> ActorConfig list \<Rightarrow> int \<times> 's"
  assumes pick_empty: "fst (pick st msg []) = - 1"
    and pick_range: "length cs < 2 ^ 63 \<Longrightarrow> cs \<noteq> [] \<Longrightarrow>
                     0 \<le> fst (pick st msg cs) \<and> fst (pick st msg cs) < int (length cs)"
begin

lemma pick_defined_iff:
  "length cs < 2 ^ 63 \<Longrightarrow> 0 \<le> fst (pick st msg cs) \<longleftrightarrow> cs \<noteq> []"
  using pick_empty [of st msg] pick_range [of cs st msg] by (cases "cs = []") auto

lemma pick_member:
  assumes "length cs < 2 ^ 63" and "cs \<noteq> []"
  shows "cs ! nat (fst (pick st msg cs)) \<in> set cs"
  using pick_range [OF assms] by (intro nth_mem) (simp add: nat_less_iff)

end

interpretation first: remote_strategy "\<lambda>st msg cs. (FirstCandidateStrategy_PickOne msg cs, st)"
  by unfold_locales (simp_all add: FirstCandidateStrategy_PickOne_def)

lemma round_robin_index:
  assumes "n < 2 ^ 63" and "n \<noteq> 0"
  shows "sint ((v :: u64) mod word_of_nat n) = int (unat v mod n)"
proof -
  have "unat (v mod word_of_nat n) = unat v mod n"
    using assms by (simp add: unat_mod unat_word_of_nat_lt)
  moreover have "unat v mod n < 2 ^ 63"
    using assms mod_less_divisor [of n "unat v"] by linarith
  ultimately show ?thesis by (simp add: sint_eq_unat)
qed

interpretation rr: remote_strategy RoundRobinStrategy_PickOne
proof (unfold_locales, goal_cases)
  case (1 st msg)
  then show ?case by (simp add: RoundRobinStrategy_PickOne_def)
next
  case (2 cs st msg)
  then show ?case by (simp add: RoundRobinStrategy_PickOne_def Let_def round_robin_index)
qed

text \<open>The scan keeps the first of the best-scored candidates seen so far.\<close>

definition hrw_rank :: "u64 \<Rightarrow> ActorConfig \<Rightarrow> u64" where
  "hrw_rank key c = hrwScore key (Id c) (ucast (Process c))"

definition first_max :: "('a \<Rightarrow> 'b::linorder) \<Rightarrow> 'a list \<Rightarrow> nat \<Rightarrow> bool" where
  "first_max f xs k \<longleftrightarrow> k < length xs \<and> (\<forall>j < length xs. f (xs ! j) \<le> f (xs ! k))
     \<and> (\<forall>j < k. f (xs ! j) < f (xs ! k))"

lemma first_max_unique: "first_max f xs k \<Longrightarrow> first_max f xs l \<Longrightarrow> k = l"
  unfolding first_max_def by (metis leD linorder_neqE_nat)

lemma first_max_snoc:
  assumes "first_max f xs k"
  shows "first_max f (xs @ [x]) (if f x > f (xs ! k) then length xs else k)"
  using assms by (force simp: first_max_def nth_append less_Suc_eq)

lemma hrw_scan_first_max:
  assumes "first_max (hrw_rank key) done k"
  shows "\<exists>r. hrw_scan key (int (length done)) (int k) (hrw_rank key (done ! k)) cs = int r
             \<and> first_max (hrw_rank key) (done @ cs) r"
  using assms
proof (induction cs arbitrary: "done" k)
  case Nil
  then show ?case by auto
next
  case (Cons c cs)
  let ?k = "if hrw_rank key c > hrw_rank key (done ! k) then length done else k"
  have k: "k < length done" using Cons.prems by (simp add: first_max_def)
  have "first_max (hrw_rank key) (done @ [c]) ?k" using first_max_snoc [OF Cons.prems] .
  from Cons.IH [OF this] k show ?case
    by (auto simp: Let_def nth_append add.commute simp flip: hrw_rank_def split: if_splits)
qed

lemma hrw_scan_correct:
  assumes "cs \<noteq> []"
  shows "\<exists>r. hrw_scan key 0 (- 1) 0 cs = int r \<and> first_max (hrw_rank key) cs r"
proof (cases cs)
  case (Cons c rest)
  have "first_max (hrw_rank key) [c] 0" by (simp add: first_max_def)
  from hrw_scan_first_max [OF this, of rest] Cons show ?thesis
    by (simp add: Let_def hrw_rank_def)
qed (use assms in simp)

interpretation hrw: remote_strategy "\<lambda>s msg cs. (RendezvousHashStrategy_PickOne s msg cs, s)"
proof (unfold_locales, goal_cases)
  case (1 st msg)
  then show ?case by (simp add: RendezvousHashStrategy_PickOne_def)
next
  case (2 cs st msg)
  have "0 \<le> hrw_scan key 0 (- 1) 0 cs \<and> hrw_scan key 0 (- 1) 0 cs < int (length cs)" for key
    using hrw_scan_correct [OF 2(2), of key] by (auto simp: first_max_def)
  then show ?case using 2(2) by (simp add: RendezvousHashStrategy_PickOne_def Let_def)
qed

section \<open>Properties\<close>

definition hrw_key :: "RendezvousHashStrategy \<Rightarrow> message option \<Rightarrow> u64" where
  "hrw_key s msg = (case KeyFunc s of None \<Rightarrow> DefaultRemoteRouteKey | Some f \<Rightarrow> f) msg"

lemma hrw_pick_first_max:
  assumes "hrw_key s msg \<noteq> 0" and "cs \<noteq> []"
  shows "\<exists>r. RendezvousHashStrategy_PickOne s msg cs = int r \<and> first_max (hrw_rank (hrw_key s msg)) cs r"
proof (cases "length cs = 1")
  case True
  then show ?thesis by (auto simp: RendezvousHashStrategy_PickOne_def first_max_def)
next
  case False
  then show ?thesis using assms hrw_scan_correct [OF assms(2)]
    by (simp add: RendezvousHashStrategy_PickOne_def Let_def hrw_key_def)
qed

lemma first_max_remove:
  assumes "first_max f xs k" and "j < length xs" and "j \<noteq> k"
  shows "first_max f (take j xs @ drop (Suc j) xs) (if j < k then k - 1 else k)"
proof -
  let ?ys = "take j xs @ drop (Suc j) xs"
  have nth: "?ys ! i = xs ! (if i < j then i else Suc i)" if "i < length xs - 1" for i
    using that assms(2) by (simp add: nth_append)
  have len: "length ?ys = length xs - 1" using assms(2) by simp
  have k: "k < length xs" "\<And>i. i < length xs \<Longrightarrow> f (xs ! i) \<le> f (xs ! k)"
    "\<And>i. i < k \<Longrightarrow> f (xs ! i) < f (xs ! k)"
    using assms(1) by (auto simp: first_max_def)
  let ?k = "if j < k then k - 1 else k"
  have k': "?k < length xs - 1" "?ys ! ?k = xs ! k"
    using assms k(1) by (auto simp: nth)
  show ?thesis unfolding first_max_def len k'(2)
    using k k'(1) assms(2) by (auto simp: nth)
qed

text \<open>sticky routing. With a routing key, rendezvous hashing picks the first of the
  candidates with the highest score for that key, the same message is always sent to the same
  candidate, and when any other candidate leaves the set the choice does not change (only
  the traffic of the leaving instance moves).\<close>

theorem rendezvous_sticky:
  assumes "hrw_key s msg \<noteq> 0" and "cs \<noteq> []"
  shows "\<exists>k. RendezvousHashStrategy_PickOne s msg cs = int k
           \<and> first_max (\<lambda>c. hrwScore (hrw_key s msg) (Id c) (ucast (Process c))) cs k
           \<and> (\<forall>j < length cs. j \<noteq> k \<longrightarrow>
                (let cs' = take j cs @ drop (Suc j) cs
                 in cs' ! nat (RendezvousHashStrategy_PickOne s msg cs') = cs ! k))"
proof -
  obtain k where k: "RendezvousHashStrategy_PickOne s msg cs = int k"
    and max: "first_max (hrw_rank (hrw_key s msg)) cs k"
    using hrw_pick_first_max [OF assms] by blast
  have "cs' ! nat (RendezvousHashStrategy_PickOne s msg cs') = cs ! k"
    if j: "j < length cs" "j \<noteq> k" and cs': "cs' = take j cs @ drop (Suc j) cs" for j cs'
  proof -
    let ?k = "if j < k then k - 1 else k"
    have max': "first_max (hrw_rank (hrw_key s msg)) cs' ?k"
      using first_max_remove [OF max j] by (simp add: cs')
    then have "cs' \<noteq> []" by (auto simp: first_max_def)
    from hrw_pick_first_max [OF assms(1) this] first_max_unique [OF max']
    have "RendezvousHashStrategy_PickOne s msg cs' = int ?k" by blast
    moreover have "cs' ! ?k = cs ! k" using j by (auto simp: cs' nth_append min_def)
    ultimately show ?thesis by simp
  qed
  then show ?thesis using k max by (auto simp: Let_def hrw_rank_def [abs_def])
qed

theorem rendezvous_sticky_witness:
  "let cs = [config_zero\<lparr>Id := 7\<rparr>, config_zero\<lparr>Id := 8\<rparr>, config_zero\<lparr>Id := 9\<rparr>]
   in \<exists>k. RendezvousHashStrategy_PickOne \<lparr>KeyFunc = None\<rparr> (Some (msg_zero\<lparr>SessionId := 42\<rparr>)) cs = int k
        \<and> k < 3"
  using rendezvous_sticky [of "\<lparr>KeyFunc = None\<rparr>" "Some (msg_zero\<lparr>SessionId := 42\<rparr>)"
      "[config_zero\<lparr>Id := 7\<rparr>, config_zero\<lparr>Id := 8\<rparr>, config_zero\<lparr>Id := 9\<rparr>]"]
  by (auto simp: hrw_key_def DefaultRemoteRouteKey_def first_max_def)

text \<open>Successive picks of the round-robin strategy from an unchanged candidate list.\<close>

fun rr_picks :: "nat \<Rightarrow> RoundRobinStrategy \<Rightarrow> message option \<Rightarrow> ActorConfig list \<Rightarrow> int list" where
  "rr_picks 0 s msg cs = []"
| "rr_picks (Suc k) s msg cs =
    (let (i, s') = RoundRobinStrategy_PickOne s msg cs in i # rr_picks k s' msg cs)"

lemma rr_picks_eq:
  assumes "cs \<noteq> []" and "length cs < 2 ^ 63"
  shows "unat (seq s) + k < 2 ^ 64 \<Longrightarrow>
    rr_picks k s msg cs = map (\<lambda>i. int ((unat (seq s) + 1 + i) mod length cs)) [0..<k]"
proof (induction k arbitrary: s)
  case (Suc k)
  have inc: "unat (seq s + 1) = unat (seq s) + 1"
    using Suc.prems by (simp add: unat_word_ariths)
  let ?s = "s\<lparr>seq := seq s + 1\<rparr>"
  have "rr_picks k ?s msg cs = map (\<lambda>i. int ((unat (seq ?s) + 1 + i) mod length cs)) [0..<k]"
    by (rule Suc.IH) (use Suc.prems inc in simp)
  then show ?case
    using assms inc
    by (simp add: RoundRobinStrategy_PickOne_def Let_def round_robin_index upt_conv_Cons
        map_Suc_upt [symmetric] del: upt_Suc)
qed simp

lemma mod_shift_inj:
  assumes "(c + i) mod n = (c + j) mod (n :: nat)" and "i < n" and "j < n"
  shows "i = j"
proof -
  have aux: "i = j" if "(c + i) mod n = (c + j) mod n" "i < n" "j < n" "i \<le> j" for i j
  proof -
    have "n dvd (c + j) - (c + i)" using that by (intro mod_eq_dvd_iff_nat [THEN iffD1]) simp_all
    then show ?thesis using that by (auto dest: dvd_imp_le)
  qed
  show ?thesis using aux [of i j] aux [of j i] assms by (cases "i \<le> j") auto
qed

text \<open>round robin is fair. As long as the 64-bit ticket counter does not wrap, any
  \<open>n\<close> successive picks from \<open>n\<close> candidates choose each of them exactly once.\<close>

theorem round_robin_fair:
  assumes "cs \<noteq> []" and "length cs < 2 ^ 63" and "unat (seq s) + length cs < 2 ^ 64"
  shows "distinct (rr_picks (length cs) s msg cs)
         \<and> set (rr_picks (length cs) s msg cs) = {0..<int (length cs)}"
proof -
  let ?n = "length cs" and ?ps = "rr_picks (length cs) s msg cs"
  have eq: "?ps = map (\<lambda>i. int ((unat (seq s) + 1 + i) mod ?n)) [0..<?n]"
    by (rule rr_picks_eq) (use assms in simp_all)
  have dist: "distinct ?ps" unfolding eq
    by (auto simp del: add_Suc_right simp: distinct_map intro!: inj_onI
        intro: mod_shift_inj [of "unat (seq s) + 1" _ "length cs"])
  moreover have "set ?ps \<subseteq> {0..<int ?n}" using assms(1) by (auto simp: eq)
  moreover have "card (set ?ps) = card {0..<int ?n}"
    using distinct_card [OF dist] by (simp add: eq)
  ultimately show ?thesis by (simp add: card_subset_eq)
qed

theorem round_robin_fair_witness:
  "distinct (rr_picks 3 \<lparr>seq = 0\<rparr> None (replicate 3 config_zero))
   \<and> set (rr_picks 3 \<lparr>seq = 0\<rparr> None (replicate 3 config_zero)) = {0..<3}"
  using round_robin_fair [of "replicate 3 config_zero" "\<lparr>seq = 0\<rparr>" None] by simp

text \<open>Every strategy honours the interface: it answers -1 exactly when there is no
  candidate, and otherwise a valid index of the candidate list.\<close>

theorem strategies_pick_valid:
  assumes "length cs < 2 ^ 63"
  shows "(0 \<le> FirstCandidateStrategy_PickOne msg cs \<longleftrightarrow> cs \<noteq> [])
         \<and> (0 \<le> fst (RoundRobinStrategy_PickOne s msg cs) \<longleftrightarrow> cs \<noteq> [])
         \<and> (0 \<le> RendezvousHashStrategy_PickOne r msg cs \<longleftrightarrow> cs \<noteq> [])
         \<and> (cs \<noteq> [] \<longrightarrow>
              FirstCandidateStrategy_PickOne msg cs < int (length cs)
              \<and> fst (RoundRobinStrategy_PickOne s msg cs) < int (length cs)
              \<and> RendezvousHashStrategy_PickOne r msg cs < int (length cs))"
  using first.pick_defined_iff [OF assms, where msg = msg] rr.pick_defined_iff [OF assms, of s msg]
    hrw.pick_defined_iff [OF assms, of r msg] first.pick_range [OF assms, where msg = msg]
    rr.pick_range [OF assms, of s msg] hrw.pick_range [OF assms, of r msg]
  by simp

theorem strategies_pick_valid_witness:
  "0 \<le> RendezvousHashStrategy_PickOne \<lparr>KeyFunc = None\<rparr> None [config_zero]
   \<and> fst (RoundRobinStrategy_PickOne \<lparr>seq = 5\<rparr> None [config_zero]) < 1"
  using strategies_pick_valid [of "[config_zero]" None "\<lparr>seq = 5\<rparr>" "\<lparr>KeyFunc = None\<rparr>"] by simp

end
