(* ===== verification/ZBreaker.thy ===== *)
theory ZBreaker
  imports ZBase
begin

text \<open>
  \<open>zactor/circuitbreaker.go\<close>: the circuit breaker an actor keeps per RPC target. The clock
  \<open>ztime.ServerNowUnixMilli\<close> is an argument of the operations that read it. The abstract
  specification counts consecutive failures; a history of calls of any length below the range
  of the 32-bit failure counter is refined by it.
\<close>

datatype cbState = cbClosed | cbOpen | cbHalfOpen

definition defaultCBThreshold :: i32 where "defaultCBThreshold = 5"
definition defaultCBCooldownMs :: i64 where "defaultCBCooldownMs = 10 * 1000"

record circuitBreaker =
  cb_state :: cbState
  cb_failures :: i32
  lastFailMs :: i64
  cb_threshold :: i32
  cooldownMs :: i64

definition newCircuitBreaker :: circuitBreaker where
  "newCircuitBreaker = \<lparr>cb_state = cbClosed, cb_failures = 0, lastFailMs = 0,
     cb_threshold = defaultCBThreshold, cooldownMs = defaultCBCooldownMs\<rparr>"

definition allow :: "i64 \<Rightarrow> circuitBreaker \<Rightarrow> bool \<times> circuitBreaker" where
  "allow now cb =
    (case cb_state cb of
       cbClosed \<Rightarrow> (True, cb)
     | cbOpen \<Rightarrow>
        if sint (now - lastFailMs cb) > sint (cooldownMs cb)
        then (True, if cb_state cb = cbOpen then cb\<lparr>cb_state := cbHalfOpen\<rparr> else cb)
        else (False, cb)
     | cbHalfOpen \<Rightarrow> (True, cb))"

definition recordSuccess :: "circuitBreaker \<Rightarrow> circuitBreaker" where
  "recordSuccess cb = cb\<lparr>cb_failures := 0, cb_state := cbClosed\<rparr>"

definition recordFailure :: "i64 \<Rightarrow> circuitBreaker \<Rightarrow> circuitBreaker" where
  "recordFailure now cb =
    (let cb = cb\<lparr>lastFailMs := now\<rparr>;
         n = cb_failures cb + 1;
         cb = cb\<lparr>cb_failures := n\<rparr>
     in if sint n \<ge> sint (cb_threshold cb) then cb\<lparr>cb_state := cbOpen\<rparr> else cb)"

section \<open>Specification\<close>

text \<open>What the breaker promises, over unbounded integers: \<open>streak\<close> is the number of failures
  since the last success, \<open>failed_at\<close> the time of the last failure, \<open>probing\<close> whether a request
  was let through after it although the threshold was reached.\<close>

record breaker_spec =
  streak :: nat
  failed_at :: int
  probing :: bool

datatype cb_event = Ask i64 | Succeeded | Failed i64

definition spec_allows :: "int \<Rightarrow> breaker_spec \<Rightarrow> bool" where
  "spec_allows now s \<longleftrightarrow> streak s < 5 \<or> probing s \<or> now - failed_at s > 10000"

fun spec_step :: "cb_event \<Rightarrow> breaker_spec \<Rightarrow> breaker_spec" where
  "spec_step (Ask now) s = s\<lparr>probing := probing s \<or> (streak s \<ge> 5 \<and> spec_allows (sint now) s)\<rparr>"
| "spec_step Succeeded s = s\<lparr>streak := 0, probing := False\<rparr>"
| "spec_step (Failed now) s = \<lparr>streak = streak s + 1, failed_at = sint now, probing = False\<rparr>"

fun cb_step :: "cb_event \<Rightarrow> circuitBreaker \<Rightarrow> circuitBreaker" where
  "cb_step (Ask now) cb = snd (allow now cb)"
| "cb_step Succeeded cb = recordSuccess cb"
| "cb_step (Failed now) cb = recordFailure now cb"

definition spec_init :: breaker_spec where
  "spec_init = \<lparr>streak = 0, failed_at = 0, probing = False\<rparr>"

text \<open>The timestamps of a history are non-negative and far from the 64-bit limit.\<close>

fun event_ok :: "cb_event \<Rightarrow> bool" where
  "event_ok (Ask now) \<longleftrightarrow> 0 \<le> sint now"
| "event_ok Succeeded \<longleftrightarrow> True"
| "event_ok (Failed now) \<longleftrightarrow> 0 \<le> sint now"

section \<open>Refinement\<close>

definition breaker_rel :: "nat \<Rightarrow> circuitBreaker \<Rightarrow> breaker_spec \<Rightarrow> bool" where
  "breaker_rel n cb s \<longleftrightarrow>
     cb_threshold cb = 5 \<and> cooldownMs cb = 10000
     \<and> sint (cb_failures cb) = int (streak s) \<and> streak s \<le> n
     \<and> sint (lastFailMs cb) = failed_at s \<and> 0 \<le> failed_at s
     \<and> cb_state cb = (if streak s < 5 then cbClosed else if probing s then cbHalfOpen else cbOpen)
     \<and> (streak s < 5 \<longrightarrow> \<not> probing s)"

lemma sint_diff_nonneg:
  assumes "0 \<le> sint (a :: i64)" and "0 \<le> sint b"
  shows "sint (a - b) = sint a - sint b"
  using assms sint_lt [of a] sint_lt [of b]
  by (simp add: sint_word_ariths signed_take_bit_int_eq_self)

lemma breaker_rel_init: "breaker_rel 0 newCircuitBreaker spec_init"
  by (simp add: breaker_rel_def newCircuitBreaker_def spec_init_def defaultCBThreshold_def
      defaultCBCooldownMs_def)

lemma allow_spec:
  assumes "breaker_rel n cb s" and "0 \<le> sint now"
  shows "fst (allow now cb) \<longleftrightarrow> spec_allows (sint now) s"
  using assms by (auto simp: breaker_rel_def allow_def spec_allows_def sint_diff_nonneg)

lemma cb_step_rel:
  assumes rel: "breaker_rel n cb s" and ok: "event_ok e" and n: "n < 2 ^ 31 - 1"
  shows "breaker_rel (Suc n) (cb_step e cb) (spec_step e s)"
proof (cases e)
  case (Ask now)
  then show ?thesis using rel ok
    by (auto simp: breaker_rel_def allow_def spec_allows_def sint_diff_nonneg)
next
  case Succeeded
  then show ?thesis using rel by (simp add: breaker_rel_def recordSuccess_def)
next
  case (Failed now)
  have "sint (cb_failures cb + 1) = int (streak s) + 1"
    using rel n by (simp add: breaker_rel_def sint_word_ariths signed_take_bit_int_eq_self)
  then show ?thesis using rel ok Failed
    by (auto simp: breaker_rel_def recordFailure_def Let_def)
qed

lemma cb_history_rel:
  assumes "list_all event_ok es" and "breaker_rel n cb s" and "n + length es < 2 ^ 31"
  shows "breaker_rel (n + length es) (fold cb_step es cb) (fold spec_step es s)"
  using assms
proof (induction es arbitrary: n cb s)
  case (Cons e es)
  have "breaker_rel (Suc n) (cb_step e cb) (spec_step e s)"
    using Cons.prems by (intro cb_step_rel) auto
  from Cons.IH [OF _ this] Cons.prems show ?case by simp
qed simp

text \<open>Claim C33: after any history of calls, the breaker is closed exactly while fewer than 5
  failures have happened in a row, and it answers a request exactly as the specification does: it
  refuses iff 5 or more failures have happened in a row, no probe was let through since the last
  of them and that one is at most 10 seconds old.\<close>

theorem breaker_refines_spec:
  assumes "list_all event_ok es" and "length es < 2 ^ 31" and "0 \<le> sint now"
  shows "let cb = fold cb_step es newCircuitBreaker; s = fold spec_step es spec_init
         in (cb_state cb = cbClosed \<longleftrightarrow> streak s < 5)
            \<and> (fst (allow now cb) \<longleftrightarrow> streak s < 5 \<or> probing s \<or> sint now - failed_at s > 10000)
            \<and> (fst (allow now cb) \<longrightarrow> streak s \<ge> 5 \<longrightarrow> cb_state (snd (allow now cb)) = cbHalfOpen)"
proof -
  have rel: "breaker_rel (length es) (fold cb_step es newCircuitBreaker) (fold spec_step es spec_init)"
    using cb_history_rel [OF assms(1) breaker_rel_init] assms(2) by simp
  then show ?thesis
    using allow_spec [OF rel assms(3)]
    by (auto simp: Let_def spec_allows_def breaker_rel_def allow_def split: if_splits)
qed

theorem breaker_refines_spec_witness:
  "let cb = fold cb_step [Failed 1000, Failed 1000, Failed 1000, Failed 1000, Failed 1000] newCircuitBreaker
   in \<not> fst (allow 11000 cb) \<and> fst (allow 11001 cb)"
  using breaker_refines_spec [of "[Failed 1000, Failed 1000, Failed 1000, Failed 1000, Failed 1000]" 11000]
    breaker_refines_spec [of "[Failed 1000, Failed 1000, Failed 1000, Failed 1000, Failed 1000]" 11001]
  by (simp add: Let_def spec_init_def del: cb_step.simps)

end
