(* ===== verification/ZSender.thy ===== *)
theory ZSender
  imports ZMsgPool
begin

text \<open>
  \<open>zactor/sender.go\<close>: the pool of RPC slots. A slot's channel is its buffer (capacity 1);
  \<open>None\<close> is a nil channel. The clock is an argument. An operation runs over the sender and the
  message heap. \<open>GetReply\<close> blocks, so it is split where it can block: \<open>GetReply_enter\<close> is the
  code before the \<open>select\<close> of its loop and \<open>GetReply_wake\<close> one iteration of the loop, for the
  event the runtime picks; \<open>rpc_step\<close> interleaves them with the steps of other goroutines. The
  timer pool is not modelled: the timer is the event \<open>TimerFired\<close>.
\<close>

unbundle bit_operations_syntax

section \<open>Data\<close>

definition DefaultMaxPendingRPCs :: int where "DefaultMaxPendingRPCs = 4096"
definition VersionShift :: nat where "VersionShift = 16"

datatype slotState = SlotFree | SlotWaiting | SlotAbandoned

record rpcSlot =
  ch :: "mref list option"
  version :: u64
  slot_state :: slotState
  timestamp :: i64

record ActorMsgSender =
  slots :: "rpcSlot list"
  cursor :: u64
  sender_timeout :: int
  indexMask :: u64
  poolSize :: u64
  abandonedRecycleDelay :: int
  waitingForceRecycleTTL :: int
  watchdogTick :: int

type_synonym sstate = "ActorMsgSender \<times> mheap"

datatype sender_error = ErrPoolExhausted | PanicTooManyPending

section \<open>Construction\<close>

definition nextPowerOfTwo :: "int \<Rightarrow> int" where
  "nextPowerOfTwo n =
    (if n \<le> 0 then 2
     else (let n = n - 1;
               n = n OR drop_bit 1 n;
               n = n OR drop_bit 2 n;
               n = n OR drop_bit 4 n;
               n = n OR drop_bit 8 n;
               n = n OR drop_bit 16 n
           in n + 1))"

definition newSlot :: rpcSlot where
  "newSlot = \<lparr>ch = Some [], version = 1, slot_state = SlotFree, timestamp = 0\<rparr>"

definition NewSenderWithObserver :: "int \<Rightarrow> sender_error + ActorMsgSender" where
  "NewSenderWithObserver maxPending =
    (let maxPending = (if maxPending \<le> 0 then DefaultMaxPendingRPCs else maxPending);
         maxPending = nextPowerOfTwo maxPending
     in if maxPending > push_bit VersionShift 1 then Inl PanicTooManyPending
        else Inr \<lparr>slots = replicate (nat maxPending) newSlot, cursor = 0,
                  sender_timeout = 30000000000, indexMask = word_of_int (maxPending - 1),
                  poolSize = word_of_int maxPending, abandonedRecycleDelay = 100000000,
                  waitingForceRecycleTTL = 120000000000, watchdogTick = 100000000\<rparr>)"

definition NewSender :: "int \<Rightarrow> sender_error + ActorMsgSender" where
  "NewSender maxPending = NewSenderWithObserver maxPending"

section \<open>Slots\<close>

definition slot_at :: "ActorMsgSender \<Rightarrow> u64 \<Rightarrow> rpcSlot" where
  "slot_at m idx = slots m ! unat idx"

definition upd_slot :: "u64 \<Rightarrow> (rpcSlot \<Rightarrow> rpcSlot) \<Rightarrow> ActorMsgSender \<Rightarrow> ActorMsgSender" where
  "upd_slot idx f m = m\<lparr>slots := (slots m)[unat idx := f (slot_at m idx)]\<rparr>"

text \<open>\<open>time.Duration.Milliseconds\<close> (truncating; every duration here is non-negative).\<close>

definition Milliseconds :: "int \<Rightarrow> int" where
  "Milliseconds d = d div 1000000"

definition recycleSlot :: "u64 \<Rightarrow> sstate \<Rightarrow> sstate" where
  "recycleSlot idx mh =
    (let (m, h) = mh;
         m = upd_slot idx (\<lambda>s. s\<lparr>version := version s + 1\<rparr>) m;
         (m, h) = (case ch (slot_at m idx) of
             None \<Rightarrow> (m, h)
           | Some [] \<Rightarrow> (m, h)
           | Some (a # rest) \<Rightarrow> (upd_slot idx (\<lambda>s. s\<lparr>ch := Some rest\<rparr>) m, Release (Some a) h))
     in (upd_slot idx (\<lambda>s. s\<lparr>slot_state := SlotFree\<rparr>) m, h))"

definition checkSlot :: "i64 \<Rightarrow> u64 \<Rightarrow> sstate \<Rightarrow> sstate" where
  "checkSlot now idx mh =
    (let m = fst mh; st = slot_state (slot_at m idx)
     in if st = SlotFree then mh
        else (let ts = timestamp (slot_at m idx)
              in if st = SlotAbandoned then
                   (if sint (now - ts) > Milliseconds (abandonedRecycleDelay m)
                    then recycleSlot idx mh else mh)
                 else if st = SlotWaiting \<and> sint (now - ts) > Milliseconds (waitingForceRecycleTTL m)
                   then recycleSlot idx mh
                 else mh))"

text \<open>One tick of the watchdog goroutine, with its loop variable \<open>shardIdx\<close>.\<close>

definition watchdog_tick :: "i64 \<Rightarrow> nat \<Rightarrow> sstate \<Rightarrow> nat \<times> sstate" where
  "watchdog_tick now shardIdx mh =
    (let shards = 16;
         batchSize = unat (poolSize (fst mh)) div shards;
         batchSize = (if batchSize < 1 then 1 else batchSize);
         start = shardIdx * batchSize;
         stop = start + batchSize;
         stop = (if stop > unat (poolSize (fst mh)) then unat (poolSize (fst mh)) else stop);
         mh = fold (\<lambda>i mh. checkSlot now (word_of_nat i) mh) [start..<stop] mh
     in ((shardIdx + 1) mod shards, mh))"

text \<open>The allocation loop: \<open>k\<close> iterations are left of \<open>poolSize\<close>.\<close>

fun AddSender_loop :: "i64 \<Rightarrow> u64 \<Rightarrow> nat \<Rightarrow> u64 \<Rightarrow> ActorMsgSender
  \<Rightarrow> (sender_error + u64) \<times> ActorMsgSender" where
  "AddSender_loop now start 0 i m = (Inl ErrPoolExhausted, m)"
| "AddSender_loop now start (Suc k) i m =
    (let idx = (start + i) AND indexMask m
     in if slot_state (slot_at m idx) = SlotFree then
          (let m = upd_slot idx (\<lambda>s. s\<lparr>slot_state := SlotWaiting\<rparr>) m;
               newVer = version (slot_at m idx) + 1;
               m = upd_slot idx (\<lambda>s. s\<lparr>version := newVer\<rparr>) m;
               m = upd_slot idx (\<lambda>s. s\<lparr>timestamp := now\<rparr>) m;
               rpcId = push_bit VersionShift newVer OR idx
           in if rpcId = 0
              then AddSender_loop now start k (i + 1) (upd_slot idx (\<lambda>s. s\<lparr>slot_state := SlotFree\<rparr>) m)
              else (Inr rpcId, m))
        else AddSender_loop now start k (i + 1) m)"

definition AddSender :: "i64 \<Rightarrow> ActorMsgSender \<Rightarrow> (sender_error + u64) \<times> ActorMsgSender" where
  "AddSender now m =
    (let start = cursor m + 1; m = m\<lparr>cursor := start\<rparr>
     in AddSender_loop now start (unat (poolSize m)) 0 m)"

definition SetReply :: "mref \<Rightarrow> sstate \<Rightarrow> sstate" where
  "SetReply data mh =
    (let (m, h) = mh;
         idx = RpcId (mobj h data) AND indexMask m;
         reqVer = drop_bit VersionShift (RpcId (mobj h data));
         slot = slot_at m idx
     in if version slot \<noteq> reqVer then (m, h)
        else if slot_state slot \<noteq> SlotWaiting then (m, h)
        else (case ch slot of
           None \<Rightarrow> (m, h)
         | Some buf \<Rightarrow>
            (let h = Retain (Some data) h
             in if length buf < 1
                then (upd_slot idx (\<lambda>s. s\<lparr>ch := Some (buf @ [data])\<rparr>) m, h)
                else (m, Release (Some data) h))))"

section \<open>Waiting for a reply\<close>

text \<open>Giving up: \<open>Waiting\<close> becomes \<open>Abandoned\<close>, with the time.\<close>

definition abandon :: "i64 \<Rightarrow> u64 \<Rightarrow> ActorMsgSender \<Rightarrow> ActorMsgSender" where
  "abandon now idx m =
    (if slot_state (slot_at m idx) = SlotWaiting
     then upd_slot idx (\<lambda>s. s\<lparr>timestamp := now\<rparr>) (upd_slot idx (\<lambda>s. s\<lparr>slot_state := SlotAbandoned\<rparr>) m)
     else m)"

definition reply_success :: "u64 \<Rightarrow> ActorMsgSender \<Rightarrow> ActorMsgSender" where
  "reply_success idx m = upd_slot idx (\<lambda>s. s\<lparr>slot_state := SlotFree\<rparr>) m"

text \<open>\<open>Returned (Some a)\<close> is \<open>(a, true)\<close>, \<open>Returned None\<close> is \<open>(nil, false)\<close>, \<open>Blocked\<close>
  waits in the \<open>select\<close> of the loop.\<close>

datatype reply_result = Returned "mref option" | Blocked

datatype wake_event = CtxDone | TimerFired | ReplyReady

definition GetReply_enter ::
  "bool \<Rightarrow> i64 \<Rightarrow> u64 \<Rightarrow> int \<Rightarrow> sstate \<Rightarrow> reply_result \<times> sstate" where
  "GetReply_enter ctxDone now expectedRpcId timeout mh =
    (let (m, h) = mh;
         idx = expectedRpcId AND indexMask m
     in if ctxDone then (Returned None, abandon now idx m, h)
        else (case ch (slot_at m idx) of
           None \<Rightarrow>
            (Returned None,
             (if slot_state (slot_at m idx) = SlotWaiting
              then upd_slot idx (\<lambda>s. s\<lparr>slot_state := SlotAbandoned\<rparr>) m else m), h)
         | Some buf \<Rightarrow>
            if timeout \<le> 0 then (Returned None, abandon now idx m, h)
            else (case buf of
               [] \<Rightarrow> (Blocked, m, h)
             | resp # rest \<Rightarrow>
                (let m = upd_slot idx (\<lambda>s. s\<lparr>ch := Some rest\<rparr>) m
                 in if RpcId (mobj h resp) = expectedRpcId
                    then (Returned (Some resp), reply_success idx m, h)
                    else (Blocked, m, Release (Some resp) h)))))"

definition GetReply_wake ::
  "i64 \<Rightarrow> u64 \<Rightarrow> wake_event \<Rightarrow> sstate \<Rightarrow> reply_result \<times> sstate" where
  "GetReply_wake now expectedRpcId ev mh =
    (let (m, h) = mh;
         idx = expectedRpcId AND indexMask m
     in case ev of
          CtxDone \<Rightarrow> (Returned None, abandon now idx m, h)
        | TimerFired \<Rightarrow> (Returned None, abandon now idx m, h)
        | ReplyReady \<Rightarrow>
           (case ch (slot_at m idx) of
              Some (resp # rest) \<Rightarrow>
               (let m = upd_slot idx (\<lambda>s. s\<lparr>ch := Some rest\<rparr>) m
                in if RpcId (mobj h resp) \<noteq> expectedRpcId
                   then (Blocked, m, Release (Some resp) h)
                   else (Returned (Some resp), reply_success idx m, h))
            | _ \<Rightarrow> (Blocked, m, h)))"

section \<open>Rounding up to a power of two\<close>

lemma smear_step:
  assumes "\<And>j. bit (y :: int) j \<longleftrightarrow> (\<exists>i<m. bit x (j + i))"
  shows "bit (y OR drop_bit m y) j \<longleftrightarrow> (\<exists>i<2 * m. bit x (j + i))"
proof -
  have "bit (drop_bit m y) j \<longleftrightarrow> (\<exists>i<m. bit x (j + (m + i)))"
    by (simp add: bit_drop_bit_eq assms add.left_commute add.assoc)
  also have "\<dots> \<longleftrightarrow> (\<exists>i<2 * m. m \<le> i \<and> bit x (j + i))"
    (is "?l \<longleftrightarrow> ?r")
  proof
    assume ?l
    then obtain i where "i < m" "bit x (j + (m + i))" by blast
    then show ?r by (intro exI [of _ "m + i"]) simp
  next
    assume ?r
    then obtain i where "i < 2 * m" "m \<le> i" "bit x (j + i)" by blast
    then show ?l by (intro exI [of _ "i - m"]) auto
  qed
  finally show ?thesis
    by (auto simp: bit_or_iff assms) (meson not_le)
qed

definition smear :: "int \<Rightarrow> int" where
  "smear n =
    (let n = n OR drop_bit 1 n; n = n OR drop_bit 2 n; n = n OR drop_bit 4 n;
         n = n OR drop_bit 8 n; n = n OR drop_bit 16 n in n)"

lemma nextPowerOfTwo_smear: "0 < n \<Longrightarrow> nextPowerOfTwo n = smear (n - 1) + 1"
  by (simp add: nextPowerOfTwo_def smear_def Let_def)

lemma bit_smear: "bit (smear x) j \<longleftrightarrow> (\<exists>i<32. bit x (j + i))"
proof -
  define a where "a = x OR drop_bit 1 x"
  define b where "b = a OR drop_bit 2 a"
  define c where "c = b OR drop_bit 4 b"
  define d where "d = c OR drop_bit 8 c"
  have x: "bit x j \<longleftrightarrow> (\<exists>i<1. bit x (j + i))" for j by auto
  have a: "bit a j \<longleftrightarrow> (\<exists>i<2. bit x (j + i))" for j
    using smear_step [OF x] by (simp add: a_def)
  have b: "bit b j \<longleftrightarrow> (\<exists>i<4. bit x (j + i))" for j
    using smear_step [OF a] by (simp add: b_def)
  have c: "bit c j \<longleftrightarrow> (\<exists>i<8. bit x (j + i))" for j
    using smear_step [OF b] by (simp add: c_def)
  have d: "bit d j \<longleftrightarrow> (\<exists>i<16. bit x (j + i))" for j
    using smear_step [OF c] by (simp add: d_def)
  have "smear x = d OR drop_bit 16 d"
    by (simp add: smear_def Let_def a_def b_def c_def d_def)
  then show ?thesis using smear_step [OF d] by simp
qed

lemma bit_top:
  assumes "2 ^ k \<le> (x :: int)" and "x < 2 ^ Suc k"
  shows "bit x k" and "k < j \<Longrightarrow> \<not> bit x j"
proof -
  have "x div 2 ^ k = 1" using assms by (intro int_div_pos_eq [of _ _ _ "x - 2 ^ k"]) simp_all
  then show "bit x k" by (simp add: bit_iff_odd)
  assume "k < j"
  then have "x < 2 ^ j" using assms(2) power_increasing [of "Suc k" j "2 :: int"] by linarith
  moreover have "0 \<le> x" using assms(1) order_trans [of 0 "2 ^ k" x] by simp
  ultimately show "\<not> bit x j" by (simp add: bit_iff_odd)
qed

lemma smear_top:
  assumes "2 ^ k \<le> (x :: int)" and "x < 2 ^ Suc k" and "k < 32"
  shows "smear x = mask (Suc k)"
proof (rule bit_eqI)
  fix j
  show "bit (smear x) j \<longleftrightarrow> bit (mask (Suc k) :: int) j"
  proof (cases "j \<le> k")
    case True
    then have "bit x (j + (k - j))" using bit_top(1) [OF assms(1,2)] by simp
    then show ?thesis using True assms(3) by (auto simp: bit_smear bit_mask_iff intro!: exI [of _ "k - j"])
  next
    case False
    then show ?thesis using bit_top(2) [OF assms(1,2)] by (auto simp: bit_smear bit_mask_iff)
  qed
qed

lemma highest_bit:
  assumes "1 \<le> (x :: int)"
  shows "\<exists>k. 2 ^ k \<le> x \<and> x < 2 ^ Suc k"
proof -
  have "1 \<le> nat x" using assms by simp
  from ex_power_ivl1 [OF order_refl this]
  obtain k where "2 ^ k \<le> nat x \<and> nat x < 2 ^ Suc k" by auto
  then have "int (2 ^ k) \<le> int (nat x) \<and> int (nat x) < int (2 ^ Suc k)"
    by (simp only: of_nat_le_iff of_nat_less_iff)
  then show ?thesis using assms by (intro exI [of _ k]) simp
qed

lemma nextPowerOfTwo_pow:
  assumes "1 \<le> n" and "n \<le> 2 ^ 32"
  shows "\<exists>k. nextPowerOfTwo n = 2 ^ k \<and> n \<le> 2 ^ k \<and> (\<forall>j. n \<le> 2 ^ j \<longrightarrow> k \<le> j)"
proof (cases "n = 1")
  case True
  then show ?thesis by (intro exI [of _ 0]) (simp add: nextPowerOfTwo_def)
next
  case False
  then obtain k where k: "2 ^ k \<le> n - 1" "n - 1 < 2 ^ Suc k"
    using highest_bit [of "n - 1"] assms by auto
  have "(2 :: int) ^ k < 2 ^ 32" using k(1) assms(2) by linarith
  then have "k < 32" by (rule power_less_imp_less_exp [rotated]) simp
  then have "nextPowerOfTwo n = 2 ^ Suc k"
    using smear_top [OF k] assms(1) by (simp add: nextPowerOfTwo_smear mask_eq_exp_minus_1)
  moreover have "Suc k \<le> j" if "n \<le> 2 ^ j" for j
  proof -
    have "(2 :: int) ^ k < 2 ^ j" using that k(1) by linarith
    then have "k < j" by (rule power_less_imp_less_exp [rotated]) simp
    then show ?thesis by simp
  qed
  ultimately show ?thesis using k(2) by (intro exI [of _ "Suc k"]) auto
qed

text \<open>For every size from 1 to \<open>2^32\<close>, \<open>nextPowerOfTwo\<close> is the least power of two
  that is not smaller.\<close>

theorem nextPowerOfTwo_least:
  assumes "1 \<le> n" and "n \<le> 2 ^ 32"
  shows "\<exists>k. nextPowerOfTwo n = 2 ^ k \<and> n \<le> 2 ^ k \<and> (\<forall>j. n \<le> 2 ^ j \<longrightarrow> k \<le> j)"
  using assms by (rule nextPowerOfTwo_pow)

theorem nextPowerOfTwo_least_witness:
  "\<exists>k. nextPowerOfTwo 100 = 2 ^ k \<and> 100 \<le> (2 :: int) ^ k"
  using nextPowerOfTwo_least [of 100] by auto

section \<open>RPC identifiers\<close>

definition mk_id :: "u64 \<Rightarrow> u64 \<Rightarrow> u64" where
  "mk_id v idx = push_bit VersionShift v OR idx"

lemma take_bit_selfD: "take_bit k (w :: u64) = w \<Longrightarrow> bit w i \<Longrightarrow> i < k"
  by (metis bit_take_bit_iff)

lemma mk_id_index:
  assumes "take_bit k idx = idx" and "k \<le> 16"
  shows "mk_id v idx AND mask k = idx"
proof (rule bit_word_eqI)
  fix n
  show "bit (mk_id v idx AND mask k) n \<longleftrightarrow> bit idx n"
    using assms take_bit_selfD [OF assms(1), of n]
    by (auto simp: mk_id_def VersionShift_def bit_simps)
qed

lemma mk_id_version:
  assumes "take_bit k idx = idx" and "k \<le> 16" and "take_bit 48 v = v"
  shows "drop_bit VersionShift (mk_id v idx) = v"
proof (rule bit_word_eqI)
  fix n
  show "bit (drop_bit VersionShift (mk_id v idx)) n \<longleftrightarrow> bit v n"
    using assms(2) take_bit_selfD [OF assms(1), of "16 + n"] take_bit_selfD [OF assms(3), of n]
    by (auto simp: mk_id_def VersionShift_def bit_simps)
qed

lemma take_bit_eq_self_unat: "take_bit k (w :: u64) = w \<longleftrightarrow> unat w < 2 ^ k"
proof -
  have "take_bit k w = w \<longleftrightarrow> unat (take_bit k w) = unat w" by (simp add: unat_inj_iff)
  also have "\<dots> \<longleftrightarrow> take_bit k (unat w) = unat w" by (simp add: unsigned_take_bit_eq)
  also have "\<dots> \<longleftrightarrow> unat w < 2 ^ k" by (rule take_bit_nat_eq_self_iff)
  finally show ?thesis .
qed

section \<open>The invariant\<close>

text \<open>The pool has \<open>2^k\<close> slots, \<open>k \<le> 16\<close>; every channel exists and holds at most one message;
  a free slot's channel is empty.\<close>

definition slot_ok :: "rpcSlot \<Rightarrow> bool" where
  "slot_ok s \<longleftrightarrow> (case ch s of None \<Rightarrow> False
      | Some buf \<Rightarrow> length buf \<le> 1 \<and> (slot_state s = SlotFree \<longrightarrow> buf = []))"

definition pool_shape :: "nat \<Rightarrow> ActorMsgSender \<Rightarrow> bool" where
  "pool_shape k m \<longleftrightarrow> k \<le> 16 \<and> length (slots m) = 2 ^ k \<and> poolSize m = 2 ^ k \<and> indexMask m = mask k"

definition sender_ok :: "ActorMsgSender \<Rightarrow> bool" where
  "sender_ok m \<longleftrightarrow> (\<exists>k. pool_shape k m) \<and> (\<forall>s \<in> set (slots m). slot_ok s)"

text \<open>No slot has been reused \<open>B\<close> times (an identifier has room for \<open>2^48\<close>).\<close>

definition versions_below :: "nat \<Rightarrow> ActorMsgSender \<Rightarrow> bool" where
  "versions_below B m \<longleftrightarrow> (\<forall>s \<in> set (slots m). unat (version s) < B)"

lemma and_mask_less: "pool_shape k m \<Longrightarrow> unat (w AND indexMask m) < length (slots m)"
  using take_bit_eq_self_unat [of k "take_bit k w"]
  by (simp add: pool_shape_def flip: take_bit_eq_mask)

lemma slot_upd_slot:
  assumes "unat idx < length (slots m)"
  shows "slot_at (upd_slot idx f m) idx = f (slot_at m idx)"
    and "i \<noteq> idx \<Longrightarrow> slot_at (upd_slot idx f m) i = slot_at m i"
  using assms by (auto simp: slot_at_def upd_slot_def nth_list_update unat_inj_iff)

lemma upd_slot_frame [simp]:
  "length (slots (upd_slot idx f m)) = length (slots m)"
  "poolSize (upd_slot idx f m) = poolSize m"
  "indexMask (upd_slot idx f m) = indexMask m"
  "abandonedRecycleDelay (upd_slot idx f m) = abandonedRecycleDelay m"
  "waitingForceRecycleTTL (upd_slot idx f m) = waitingForceRecycleTTL m"
  by (simp_all add: upd_slot_def)

lemma upd_slot_upd_slot [simp]:
  "unat idx < length (slots m) \<Longrightarrow>
   upd_slot idx g (upd_slot idx f m) = upd_slot idx (\<lambda>s. g (f s)) m"
  by (simp add: upd_slot_def slot_at_def)

lemma upd_slot_cong: "f (slot_at m idx) = g (slot_at m idx) \<Longrightarrow> upd_slot idx f m = upd_slot idx g m"
  by (simp add: upd_slot_def)

lemma upd_slot_same [simp]: "unat idx < length (slots m) \<Longrightarrow> slot_at (upd_slot idx f m) idx = f (slot_at m idx)"
  by (rule slot_upd_slot)

lemma pool_shape_upd [simp]: "pool_shape k (upd_slot idx f m) = pool_shape k m"
  by (simp add: pool_shape_def)

lemma set_slots_iff:
  assumes "pool_shape k m"
  shows "(\<forall>s \<in> set (slots m). P s) \<longleftrightarrow> (\<forall>w. P (slot_at m (w AND indexMask m)))"
proof
  assume "\<forall>s \<in> set (slots m). P s"
  then show "\<forall>w. P (slot_at m (w AND indexMask m))"
    using and_mask_less [OF assms] by (simp add: slot_at_def)
next
  assume all: "\<forall>w. P (slot_at m (w AND indexMask m))"
  show "\<forall>s \<in> set (slots m). P s"
  proof
    fix s assume "s \<in> set (slots m)"
    then obtain j where j: "j < 2 ^ k" "s = slots m ! j"
      using assms by (auto simp: in_set_conv_nth pool_shape_def)
    have "j < 2 ^ 64" using j(1) assms power_increasing [of k 64 "2 :: nat"]
      by (simp add: pool_shape_def)
    then have u: "unat (word_of_nat j :: u64) = j" by (intro unat_word_of_nat_lt) simp
    then have "(word_of_nat j :: u64) AND mask k = word_of_nat j"
      using j(1) by (simp add: take_bit_eq_self_unat flip: take_bit_eq_mask)
    then show "P s" using all [rule_format, of "word_of_nat j"] u j(2) assms
      by (simp add: slot_at_def pool_shape_def)
  qed
qed

lemma or_drop_ge: "0 \<le> (z :: int) \<Longrightarrow> z \<le> y \<Longrightarrow> z \<le> y OR drop_bit k y"
  using or_greater_eq [of "drop_bit k y" y] by simp

lemma nextPowerOfTwo_ge: "1 \<le> n \<Longrightarrow> n \<le> nextPowerOfTwo n"
proof -
  assume n: "1 \<le> n"
  then have "n - 1 \<le> smear (n - 1)"
    unfolding smear_def Let_def by (intro or_drop_ge order_refl) simp_all
  then show ?thesis using n by (simp add: nextPowerOfTwo_smear)
qed

lemma NewSender_ok:
  assumes "NewSender n = Inr m"
  shows "sender_ok m \<and> versions_below 2 m"
proof -
  let ?n = "if n \<le> 0 then 4096 else n"
  have le: "nextPowerOfTwo ?n \<le> 65536" and
    m: "slots m = replicate (nat (nextPowerOfTwo ?n)) newSlot"
       "poolSize m = word_of_int (nextPowerOfTwo ?n)"
       "indexMask m = word_of_int (nextPowerOfTwo ?n - 1)"
    using assms by (auto simp: NewSender_def NewSenderWithObserver_def Let_def
        DefaultMaxPendingRPCs_def VersionShift_def split: if_splits)
  have "?n \<le> nextPowerOfTwo ?n" using nextPowerOfTwo_ge [of ?n] by simp
  then have n: "1 \<le> ?n" "?n \<le> 65536" using le by auto
  then obtain k where k: "nextPowerOfTwo ?n = 2 ^ k"
    using nextPowerOfTwo_pow [of ?n] by auto
  have "k \<le> 16" using le power_le_imp_le_exp [of "2 :: int" k 16] by (simp add: k)
  moreover have "nat (2 ^ k) = 2 ^ k" by (simp add: nat_power_eq)
  ultimately have "pool_shape k m" using m k
    by (simp add: pool_shape_def mask_eq_exp_minus_1)
  then show ?thesis using m(1)
    by (auto simp: sender_ok_def versions_below_def newSlot_def slot_ok_def)
qed

section \<open>Allocation\<close>

definition is_free :: "ActorMsgSender \<Rightarrow> u64 \<Rightarrow> bool" where
  "is_free m idx \<longleftrightarrow> slot_state (slot_at m idx) = SlotFree"

definition claim :: "i64 \<Rightarrow> u64 \<Rightarrow> ActorMsgSender \<Rightarrow> ActorMsgSender" where
  "claim now idx m =
     upd_slot idx (\<lambda>s. s\<lparr>slot_state := SlotWaiting, version := version s + 1, timestamp := now\<rparr>) m"

lemma versions_belowD:
  "pool_shape k m \<Longrightarrow> versions_below B m \<Longrightarrow> unat (version (slot_at m (w AND indexMask m))) < B"
  unfolding versions_below_def using set_slots_iff [of k m "\<lambda>s. unat (version s) < B"] by blast

lemma version_inc:
  assumes "unat (v :: u64) < 2 ^ 48 - 1"
  shows "unat (v + 1) = unat v + 1" and "take_bit 48 (v + 1) = v + 1" and "v + 1 \<noteq> 0"
proof -
  show u: "unat (v + 1) = unat v + 1" using assms by (simp add: unat_word_ariths)
  then show "take_bit 48 (v + 1) = v + 1" using assms by (simp add: take_bit_eq_self_unat)
  show "v + 1 \<noteq> 0" using u by force
qed

lemma pool_index:
  "pool_shape k m \<Longrightarrow> take_bit k (w AND indexMask m) = w AND indexMask m \<and> k \<le> 16"
  by (simp add: pool_shape_def flip: take_bit_eq_mask)

lemma id_nonzero:
  assumes "pool_shape k m" and "unat v < 2 ^ 48 - 1"
  shows "mk_id (v + 1) (w AND indexMask m) \<noteq> 0"
  using mk_id_version [of k "w AND indexMask m" "v + 1"] version_inc [OF assms(2)] pool_index [OF assms(1)]
  by auto

lemma AddSender_loop_cases:
  assumes "pool_shape k m" and "versions_below (2 ^ 48 - 1) m"
  shows "(\<exists>j < n. let idx = (start + i + word_of_nat j) AND indexMask m
            in is_free m idx \<and> AddSender_loop now start n i m
                 = (Inr (mk_id (version (slot_at m idx) + 1) idx), claim now idx m))
         \<or> (\<forall>j < n. \<not> is_free m ((start + i + word_of_nat j) AND indexMask m))
           \<and> AddSender_loop now start n i m = (Inl ErrPoolExhausted, m)"
proof (induction n arbitrary: i)
  case (Suc n)
  let ?idx = "(start + i) AND indexMask m"
  note lt = and_mask_less [OF assms(1), of "start + i"]
  show ?case
  proof (cases "is_free m ?idx")
    case True
    have "mk_id (version (slot_at m ?idx) + 1) ?idx \<noteq> 0"
      using id_nonzero [OF assms(1)] versions_belowD [OF assms] by blast
    then have "AddSender_loop now start (Suc n) i m
        = (Inr (mk_id (version (slot_at m ?idx) + 1) ?idx), claim now ?idx m)"
      using True lt by (auto simp: Let_def is_free_def claim_def mk_id_def intro!: upd_slot_cong)
    then show ?thesis using True by (intro disjI1 exI [of _ 0]) (simp add: Let_def)
  next
    case False
    then have eq: "AddSender_loop now start (Suc n) i m = AddSender_loop now start n (i + 1) m"
      by (simp add: Let_def is_free_def)
    have sh: "start + (i + 1) + word_of_nat j = start + i + word_of_nat (Suc j)" for j
      by (simp add: algebra_simps)
    show ?thesis unfolding eq All_less_Suc2 Ex_less_Suc2 using Suc.IH [of "i + 1"] False
      by (auto simp: sh Let_def simp del: of_nat_Suc)
  qed
qed simp

text \<open>The \<open>2^k\<close> probes of the loop visit every slot.\<close>

lemma take_bit_add_right:
  assumes "k \<le> 64"
  shows "take_bit k ((a :: u64) + take_bit k b) = take_bit k (a + b)"
proof -
  have "(2 :: nat) ^ k dvd 2 ^ 64" using assms by (rule le_imp_power_dvd)
  note dvd = mod_mod_cancel [OF this]
  have tb: "unat (take_bit k w) = unat w mod 2 ^ k" for w :: u64
    by (simp add: unsigned_take_bit_eq take_bit_nat_def)
  have "unat (take_bit k (a + take_bit k b)) = unat (take_bit k (a + b))"
    using dvd by (simp add: tb unat_word_ariths mod_simps)
  then show ?thesis by (simp only: unat_inj_iff)
qed

lemma probes_cover:
  assumes "k \<le> 64"
  shows "\<exists>j < 2 ^ k. (start + word_of_nat j) AND mask k = (w :: u64) AND mask k"
proof (intro exI conjI)
  let ?j = "unat (take_bit k (w - start))"
  show "?j < 2 ^ k" using take_bit_eq_self_unat [of k "take_bit k (w - start)"] by simp
  have "take_bit k (start + take_bit k (w - start)) = take_bit k (start + (w - start))"
    using assms by (rule take_bit_add_right)
  then show "(start + word_of_nat ?j) AND mask k = w AND mask k"
    by (simp flip: take_bit_eq_mask)
qed

lemma pool_size_unat: "pool_shape k m \<Longrightarrow> unat (poolSize m) = 2 ^ k"
  using unat_word_of_nat_lt [where 'a = 64, of "2 ^ k"] power_strict_increasing [of k 64 "2 :: nat"]
  by (simp add: pool_shape_def)

lemma AddSender_cases:
  assumes "pool_shape k m" and "versions_below (2 ^ 48 - 1) m"
  shows "(\<exists>w. let idx = w AND indexMask m
            in is_free m idx \<and> AddSender now m
                 = (Inr (mk_id (version (slot_at m idx) + 1) idx), claim now idx (m\<lparr>cursor := cursor m + 1\<rparr>)))
         \<or> (\<forall>w. \<not> is_free m (w AND indexMask m))
           \<and> AddSender now m = (Inl ErrPoolExhausted, m\<lparr>cursor := cursor m + 1\<rparr>)"
proof -
  let ?m = "m\<lparr>cursor := cursor m + 1\<rparr>"
  have shape: "pool_shape k ?m" and ver: "versions_below (2 ^ 48 - 1) ?m"
    using assms by (simp_all add: pool_shape_def versions_below_def)
  have free: "is_free ?m idx = is_free m idx" "slot_at ?m idx = slot_at m idx" for idx
    by (simp_all add: is_free_def slot_at_def)
  have size: "unat (poolSize m) = 2 ^ k"
    by (rule pool_size_unat [OF assms(1)])
  have k: "k \<le> 64" using assms(1) by (simp add: pool_shape_def)
  have "\<not> is_free m (w AND indexMask m)"
    if "\<forall>j < 2 ^ k. \<not> is_free m ((cursor m + 1 + word_of_nat j) AND indexMask m)" for w
    using that probes_cover [OF k, of "cursor m + 1" w] assms(1) by (auto simp: pool_shape_def)
  then show ?thesis
    using AddSender_loop_cases [OF shape ver, of "2 ^ k" "cursor m + 1" 0 now]
    unfolding AddSender_def Let_def free
    by (simp add: size) blast
qed

text \<open>\<open>AddSender\<close> fails exactly when no slot is free, whatever the cursor. When it
  succeeds it takes one free slot, makes it wait under a new version, changes no other slot, and
  the identifier it returns encodes that slot and that version.\<close>

theorem AddSender_correct:
  assumes "sender_ok m" and "versions_below (2 ^ 48 - 1) m"
  shows "(fst (AddSender now m) = Inl ErrPoolExhausted \<longleftrightarrow> (\<forall>s \<in> set (slots m). slot_state s \<noteq> SlotFree))
         \<and> (\<forall>id. fst (AddSender now m) = Inr id \<longrightarrow>
              (let m' = snd (AddSender now m); idx = id AND indexMask m
               in slot_state (slot_at m idx) = SlotFree
                  \<and> slot_at m' idx = (slot_at m idx)\<lparr>slot_state := SlotWaiting,
                        version := version (slot_at m idx) + 1, timestamp := now\<rparr>
                  \<and> drop_bit VersionShift id = version (slot_at m idx) + 1
                  \<and> (\<forall>j < length (slots m). j \<noteq> unat idx \<longrightarrow> slots m' ! j = slots m ! j)))"
proof -
  obtain k where k: "pool_shape k m" using assms(1) by (auto simp: sender_ok_def)
  note all_free = set_slots_iff [OF k, of "\<lambda>s. slot_state s \<noteq> SlotFree"]
  from AddSender_cases [OF k assms(2), of now] show ?thesis
  proof (elim disjE exE)
    fix w
    let ?idx = "w AND indexMask m"
    let ?id = "mk_id (version (slot_at m ?idx) + 1) ?idx"
    assume "let idx = ?idx in is_free m idx \<and> AddSender now m
      = (Inr (mk_id (version (slot_at m idx) + 1) idx), claim now idx (m\<lparr>cursor := cursor m + 1\<rparr>))"
    then have free: "is_free m ?idx"
      and eq: "AddSender now m = (Inr ?id, claim now ?idx (m\<lparr>cursor := cursor m + 1\<rparr>))"
      by (simp_all add: Let_def)
    note lt = and_mask_less [OF k, of w]
    have idx: "?id AND indexMask m = ?idx"
      using mk_id_index [of k ?idx] pool_index [OF k] k by (simp add: pool_shape_def)
    have ver: "drop_bit VersionShift ?id = version (slot_at m ?idx) + 1"
      using mk_id_version [of k ?idx] pool_index [OF k] version_inc(2) [OF versions_belowD [OF k assms(2)]]
      by blast
    have other: "slots (snd (AddSender now m)) ! j = slots m ! j" if "j \<noteq> unat ?idx" for j
      using that by (simp add: eq claim_def upd_slot_def)
    have this_slot: "slot_at (snd (AddSender now m)) ?idx = (slot_at m ?idx)\<lparr>slot_state := SlotWaiting,
                        version := version (slot_at m ?idx) + 1, timestamp := now\<rparr>"
      using lt by (simp add: eq claim_def) (simp add: slot_at_def)
    have "\<not> (\<forall>s \<in> set (slots m). slot_state s \<noteq> SlotFree)"
      using free all_free by (auto simp: is_free_def)
    then show ?thesis using idx ver free other this_slot
      by (simp add: Let_def is_free_def eq)
  next
    assume "(\<forall>w. \<not> is_free m (w AND indexMask m)) \<and>
      AddSender now m = (Inl ErrPoolExhausted, m\<lparr>cursor := cursor m + 1\<rparr>)"
    then show ?thesis using all_free by (simp add: is_free_def)
  qed
qed

theorem AddSender_correct_witness:
  "let m = \<lparr>slots = replicate 4 newSlot, cursor = 0, sender_timeout = 0, indexMask = 3, poolSize = 4,
             abandonedRecycleDelay = 0, waitingForceRecycleTTL = 0, watchdogTick = 0\<rparr>
   in fst (AddSender 17 m) \<noteq> Inl ErrPoolExhausted"
proof -
  let ?m = "\<lparr>slots = replicate 4 newSlot, cursor = 0, sender_timeout = 0, indexMask = 3, poolSize = 4,
             abandonedRecycleDelay = 0, waitingForceRecycleTTL = 0, watchdogTick = 0\<rparr>"
  have "pool_shape 2 ?m" by (simp add: pool_shape_def mask_eq_exp_minus_1)
  then have ok: "sender_ok ?m" by (auto simp: sender_ok_def slot_ok_def newSlot_def)
  have "versions_below (2 ^ 48 - 1) ?m" by (simp add: versions_below_def newSlot_def)
  from AddSender_correct [OF ok this, of 17] show ?thesis
    by (simp add: Let_def newSlot_def)
qed

section \<open>How the other operations change slots\<close>

text \<open>Every operation but \<open>AddSender\<close> only moves a slot forward: its version does not decrease,
  and it does not become \<open>Waiting\<close>.\<close>

definition slot_evolves :: "rpcSlot \<Rightarrow> rpcSlot \<Rightarrow> bool" where
  "slot_evolves s s' \<longleftrightarrow> unat (version s) \<le> unat (version s')
     \<and> (slot_state s' = SlotWaiting \<longrightarrow> slot_state s = SlotWaiting \<and> version s' = version s)"

definition evolves :: "ActorMsgSender \<Rightarrow> ActorMsgSender \<Rightarrow> bool" where
  "evolves m m' \<longleftrightarrow> indexMask m' = indexMask m \<and> length (slots m') = length (slots m)
     \<and> (\<forall>w. slot_evolves (slot_at m (w AND indexMask m)) (slot_at m' (w AND indexMask m)))"

lemma evolves_refl [simp]: "evolves m m"
  by (simp add: evolves_def slot_evolves_def)

lemma slot_evolves_trans: "slot_evolves a b \<Longrightarrow> slot_evolves b c \<Longrightarrow> slot_evolves a c"
  by (auto simp: slot_evolves_def)

lemma evolves_trans:
  assumes "evolves a b" and "evolves b c"
  shows "evolves a c"
  unfolding evolves_def
proof (intro conjI allI)
  show "indexMask c = indexMask a" "length (slots c) = length (slots a)"
    using assms by (simp_all add: evolves_def)
  show "slot_evolves (slot_at a (w AND indexMask a)) (slot_at c (w AND indexMask a))" for w
    using assms by (auto simp: evolves_def intro: slot_evolves_trans)
qed

lemma upd_evolves:
  assumes "sender_ok m" and "idx = w AND indexMask m" and "slot_evolves (slot_at m idx) (f (slot_at m idx))"
  shows "evolves m (upd_slot idx f m)"
proof -
  obtain k where k: "pool_shape k m" using assms(1) by (auto simp: sender_ok_def)
  have "slot_evolves (slot_at m (v AND indexMask m)) (slot_at (upd_slot idx f m) (v AND indexMask m))" for v
    using assms(2,3) slot_upd_slot(2) [OF and_mask_less [OF k, of w], of "v AND indexMask m" f]
      and_mask_less [OF k, of w]
    by (cases "v AND indexMask m = idx") (auto simp: slot_evolves_def)
  then show ?thesis by (simp add: evolves_def)
qed

lemma upd_sender_ok:
  assumes "sender_ok m" and "slot_ok (f (slot_at m idx))"
  shows "sender_ok (upd_slot idx f m)"
  using assms by (auto simp: sender_ok_def upd_slot_def pool_shape_def dest!: set_update_subset_insert [THEN subsetD])

lemma sender_ok_slot: "sender_ok m \<Longrightarrow> slot_ok (slot_at m (w AND indexMask m))"
  using and_mask_less by (fastforce simp: sender_ok_def slot_at_def)

lemma sender_ok_idx: "sender_ok m \<Longrightarrow> unat (w AND indexMask m) < length (slots m)"
  using and_mask_less by (auto simp: sender_ok_def)

definition recycled :: "rpcSlot \<Rightarrow> rpcSlot" where
  "recycled s = s\<lparr>version := version s + 1, ch := map_option tl (ch s), slot_state := SlotFree\<rparr>"

lemma recycleSlot_eq:
  "unat idx < length (slots m) \<Longrightarrow> fst (recycleSlot idx (m, h)) = upd_slot idx recycled m"
  by (auto simp: recycleSlot_def Let_def recycled_def split: option.split list.split
      intro!: upd_slot_cong)

lemma checkSlot_cases:
  assumes "unat idx < length (slots m)"
  shows "fst (checkSlot now idx (m, h)) = upd_slot idx recycled m \<and> slot_state (slot_at m idx) \<noteq> SlotFree
         \<or> checkSlot now idx (m, h) = (m, h)"
  using recycleSlot_eq [OF assms, of h] by (auto simp: checkSlot_def Let_def)

lemma SetReply_cases:
  "SetReply a (m, h) = (m, h)
   \<or> (\<exists>buf. ch (slot_at m (RpcId (mobj h a) AND indexMask m)) = Some buf
        \<and> slot_state (slot_at m (RpcId (mobj h a) AND indexMask m)) = SlotWaiting
        \<and> (fst (SetReply a (m, h)) = m
           \<or> buf = [] \<and> fst (SetReply a (m, h))
               = upd_slot (RpcId (mobj h a) AND indexMask m) (\<lambda>s. s\<lparr>ch := Some [a]\<rparr>) m))"
  by (auto simp: SetReply_def Let_def split: option.split)

lemma SetReply_evolves:
  assumes "sender_ok m"
  shows "sender_ok (fst (SetReply a (m, h))) \<and> evolves m (fst (SetReply a (m, h)))"
  using SetReply_cases [of a m h] assms
  by (auto intro!: upd_sender_ok upd_evolves simp: slot_ok_def slot_evolves_def)

lemma abandon_evolves:
  assumes "sender_ok m"
  shows "sender_ok (abandon now (w AND indexMask m) m) \<and> evolves m (abandon now (w AND indexMask m) m)"
  using sender_ok_slot [OF assms, of w] sender_ok_idx [OF assms, of w] assms
  by (auto simp: abandon_def slot_ok_def slot_evolves_def split: option.splits
      intro!: upd_sender_ok upd_evolves)

lemma take_reply_evolves:
  assumes "sender_ok m" and "idx = w AND indexMask m" and "ch (slot_at m idx) = Some (a # rest)"
  shows "sender_ok (upd_slot idx (\<lambda>s. s\<lparr>ch := Some rest\<rparr>) m)
         \<and> evolves m (upd_slot idx (\<lambda>s. s\<lparr>ch := Some rest\<rparr>) m)"
    and "sender_ok (reply_success idx (upd_slot idx (\<lambda>s. s\<lparr>ch := Some rest\<rparr>) m))
         \<and> evolves m (reply_success idx (upd_slot idx (\<lambda>s. s\<lparr>ch := Some rest\<rparr>) m))"
  using sender_ok_slot [OF assms(1), of w] sender_ok_idx [OF assms(1), of w] assms
  by (auto simp: reply_success_def slot_ok_def slot_evolves_def intro!: upd_sender_ok upd_evolves)

lemma GetReply_enter_evolves:
  assumes "sender_ok m"
  shows "sender_ok (fst (snd (GetReply_enter ctxDone now rid timeout (m, h))))
         \<and> evolves m (fst (snd (GetReply_enter ctxDone now rid timeout (m, h))))"
  using abandon_evolves [OF assms, of now rid] sender_ok_slot [OF assms, of rid]
    take_reply_evolves [OF assms refl, of rid] assms
  by (auto simp: GetReply_enter_def Let_def slot_ok_def split: option.splits list.splits)

lemma GetReply_wake_evolves:
  assumes "sender_ok m"
  shows "sender_ok (fst (snd (GetReply_wake now rid ev (m, h))))
         \<and> evolves m (fst (snd (GetReply_wake now rid ev (m, h))))"
  using abandon_evolves [OF assms, of now rid] take_reply_evolves [OF assms refl, of rid] assms
  by (auto simp: GetReply_wake_def Let_def split: wake_event.splits option.splits list.splits)

lemma tl_short: "length xs \<le> Suc 0 \<Longrightarrow> tl xs = []"
  by (cases xs) auto

lemma checkSlot_evolves:
  assumes "sender_ok m" and "idx = w AND indexMask m" and "versions_below B m" and "B < 2 ^ 64"
  shows "sender_ok (fst (checkSlot now idx (m, h))) \<and> evolves m (fst (checkSlot now idx (m, h)))
         \<and> versions_below (Suc B) (fst (checkSlot now idx (m, h)))"
proof -
  obtain k where k: "pool_shape k m" using assms(1) by (auto simp: sender_ok_def)
  have v: "unat (version (slot_at m idx)) < B" using versions_belowD [OF k assms(3)] assms(2) by simp
  then have inc: "unat (version (slot_at m idx) + 1) = unat (version (slot_at m idx)) + 1"
    using assms(4) by (simp add: unat_word_ariths)
  have ok: "slot_ok (recycled (slot_at m idx))" "slot_evolves (slot_at m idx) (recycled (slot_at m idx))"
    using sender_ok_slot [OF assms(1), of w] inc assms(2)
    by (auto simp: slot_ok_def slot_evolves_def recycled_def tl_short split: option.splits)
  have "versions_below (Suc B) (upd_slot idx recycled m)"
    using assms(3) v inc
    by (auto simp: versions_below_def upd_slot_def recycled_def dest!: set_update_subset_insert [THEN subsetD])
  moreover have "versions_below (Suc B) m" using assms(3) by (auto simp: versions_below_def)
  ultimately show ?thesis
    using checkSlot_cases [OF sender_ok_idx [OF assms(1), of w], of now h] assms(1,2) ok
      upd_sender_ok [of m recycled idx, OF assms(1)] upd_evolves [OF assms(1,2), of recycled]
    by auto
qed

lemma index_word:
  assumes "sender_ok m" and "j < length (slots m)"
  shows "\<exists>w. word_of_nat j = w AND indexMask m" and "unat (word_of_nat j :: u64) = j"
proof -
  obtain k where k: "pool_shape k m" using assms(1) by (auto simp: sender_ok_def)
  have "j < 2 ^ 64" using assms(2) k power_increasing [of k 64 "2 :: nat"]
    by (simp add: pool_shape_def)
  then show u: "unat (word_of_nat j :: u64) = j" by (intro unat_word_of_nat_lt) simp
  have "(word_of_nat j :: u64) AND indexMask m = word_of_nat j"
    using assms(2) k u by (simp add: pool_shape_def take_bit_eq_self_unat flip: take_bit_eq_mask)
  then show "\<exists>w. word_of_nat j = w AND indexMask m" by metis
qed

lemma fold_check_evolves:
  assumes "sender_ok m" and "\<forall>i \<in> set is. i < length (slots m)" and "versions_below B m"
    and "B + length is < 2 ^ 64"
  shows "let m' = fst (fold (\<lambda>i mh. checkSlot now (word_of_nat i) mh) is (m, h))
         in sender_ok m' \<and> evolves m m' \<and> versions_below (B + length is) m'"
  using assms
proof (induction "is" arbitrary: m h B)
  case (Cons i "is")
  obtain w where w: "word_of_nat i = w AND indexMask m" using index_word(1) Cons.prems by force
  obtain m1 h1 where m1: "checkSlot now (word_of_nat i) (m, h) = (m1, h1)" by fastforce
  from checkSlot_evolves [OF Cons.prems(1) w Cons.prems(3), of now h] Cons.prems(4)
  have s1: "sender_ok m1" "evolves m m1" "versions_below (Suc B) m1" by (simp_all add: m1)
  then have "length (slots m1) = length (slots m)" by (simp add: evolves_def)
  with Cons.IH [OF s1(1) _ s1(3), of h1] Cons.prems s1(2) show ?case
    by (auto simp: m1 Let_def intro: evolves_trans)
qed (simp add: Let_def)

lemma watchdog_tick_fold:
  assumes "sender_ok m"
  shows "\<exists>is. snd (watchdog_tick now sh (m, h)) = fold (\<lambda>i mh. checkSlot now (word_of_nat i) mh) is (m, h)
           \<and> (\<forall>i \<in> set is. i < length (slots m)) \<and> length is \<le> 2 ^ 16"
proof -
  obtain k where k: "pool_shape k m" using assms by (auto simp: sender_ok_def)
  have size: "unat (poolSize m) = length (slots m)" "length (slots m) \<le> 2 ^ 16"
    using pool_size_unat [OF k] k power_increasing [of k 16 "2 :: nat"] by (simp_all add: pool_shape_def)
  let ?b = "if length (slots m) div 16 < 1 then 1 else length (slots m) div 16"
  let ?stop = "if sh * ?b + ?b > length (slots m) then length (slots m) else sh * ?b + ?b"
  have "snd (watchdog_tick now sh (m, h))
      = fold (\<lambda>i mh. checkSlot now (word_of_nat i) mh) [sh * ?b..<?stop] (m, h)"
    unfolding watchdog_tick_def by (simp only: Let_def fst_conv snd_conv size(1))
  moreover have "?stop - sh * ?b \<le> 2 ^ 16" using size(2) by (auto split: if_splits)
  ultimately show ?thesis by (intro exI [of _ "[sh * ?b..<?stop]"]) (auto split: if_splits)
qed

lemma watchdog_evolves:
  assumes "sender_ok m" and "versions_below (2 ^ 48 - 1) m"
  shows "sender_ok (fst (snd (watchdog_tick now sh (m, h))))
         \<and> evolves m (fst (snd (watchdog_tick now sh (m, h))))"
proof -
  obtain "is" where "snd (watchdog_tick now sh (m, h))
      = fold (\<lambda>i mh. checkSlot now (word_of_nat i) mh) is (m, h)"
    "\<forall>i \<in> set is. i < length (slots m)" "length is \<le> 2 ^ 16"
    using watchdog_tick_fold [OF assms(1)] by blast
  with fold_check_evolves [OF assms(1) _ assms(2), of "is" now h] show ?thesis by (simp add: Let_def)
qed

section \<open>Executions\<close>

text \<open>Goroutines interleave: callers allocate, wait and give up, replies arrive (with any
  identifier), the watchdog ticks, other components change messages. \<open>ids\<close> records the
  identifiers handed out. The guard on versions excludes runs in which one slot is reused about
  \<open>2^48\<close> times.\<close>

inductive rpc_step :: "sstate \<times> u64 list \<Rightarrow> sstate \<times> u64 list \<Rightarrow> bool" where
  call: "versions_below (2 ^ 48 - 1) m \<Longrightarrow> AddSender now m = (Inr rid, m')
         \<Longrightarrow> rpc_step ((m, h), ids) ((m', h), rid # ids)"
| call_fails: "versions_below (2 ^ 48 - 1) m \<Longrightarrow> AddSender now m = (Inl e, m')
         \<Longrightarrow> rpc_step ((m, h), ids) ((m', h), ids)"
| reply: "rpc_step ((m, h), ids) (SetReply a (m, h), ids)"
| enter: "rpc_step ((m, h), ids) (snd (GetReply_enter ctxDone now rid timeout (m, h)), ids)"
| wake: "rpc_step ((m, h), ids) (snd (GetReply_wake now rid ev (m, h)), ids)"
| tick: "versions_below (2 ^ 48 - 1) m \<Longrightarrow> rpc_step ((m, h), ids) (snd (watchdog_tick now sh (m, h)), ids)"
| others: "rpc_step ((m, h), ids) ((m, h'), ids)"

inductive rpc_reach :: "int \<Rightarrow> sstate \<times> u64 list \<Rightarrow> bool" for n where
  start: "NewSender n = Inr m \<Longrightarrow> rpc_reach n ((m, h), [])"
| step: "rpc_reach n st \<Longrightarrow> rpc_step st st' \<Longrightarrow> rpc_reach n st'"

text \<open>The identifiers whose callers are waiting.\<close>

definition outstanding :: "ActorMsgSender \<Rightarrow> u64 set" where
  "outstanding m = {rid. let idx = rid AND indexMask m; s = slot_at m idx
     in slot_state s = SlotWaiting \<and> take_bit 48 (version s) = version s \<and> rid = mk_id (version s) idx}"

definition ids_ok :: "ActorMsgSender \<Rightarrow> u64 list \<Rightarrow> bool" where
  "ids_ok m ids \<longleftrightarrow> sender_ok m \<and> distinct ids
     \<and> (\<forall>rid \<in> set ids. \<exists>v. let idx = rid AND indexMask m
          in rid = mk_id v idx \<and> take_bit 48 v = v \<and> unat v \<le> unat (version (slot_at m idx)))
     \<and> outstanding m \<subseteq> set ids"

lemma evolves_outstanding: "evolves m m' \<Longrightarrow> outstanding m' \<subseteq> outstanding m"
  by (auto simp: outstanding_def evolves_def slot_evolves_def Let_def)

lemma ids_ok_evolves:
  assumes "ids_ok m ids" and "sender_ok m'" and "evolves m m'"
  shows "ids_ok m' ids"
proof -
  have "unat v \<le> unat (version (slot_at m' (rid AND indexMask m)))"
    if "unat v \<le> unat (version (slot_at m (rid AND indexMask m)))" for v rid
    using that assms(3) order_trans by (fastforce simp: evolves_def slot_evolves_def)
  then show ?thesis using assms evolves_outstanding [OF assms(3)]
    unfolding ids_ok_def Let_def by (simp add: evolves_def) blast
qed

text \<open>What a successful allocation does, in terms of identifiers.\<close>

lemma AddSender_claims:
  assumes "sender_ok m" and "versions_below (2 ^ 48 - 1) m" and "AddSender now m = (Inr rid, m')"
  shows "is_free m (rid AND indexMask m)"
    and "rid = mk_id (version (slot_at m (rid AND indexMask m)) + 1) (rid AND indexMask m)"
    and "m' = claim now (rid AND indexMask m) (m\<lparr>cursor := cursor m + 1\<rparr>)"
proof -
  obtain k where k: "pool_shape k m" using assms(1) by (auto simp: sender_ok_def)
  from AddSender_cases [OF k assms(2), of now] obtain w where
    w: "is_free m (w AND indexMask m)"
       "rid = mk_id (version (slot_at m (w AND indexMask m)) + 1) (w AND indexMask m)"
       "m' = claim now (w AND indexMask m) (m\<lparr>cursor := cursor m + 1\<rparr>)"
    using assms(3) by (auto simp: Let_def)
  have idx: "rid AND indexMask m = w AND indexMask m"
    using mk_id_index [of k "w AND indexMask m"] pool_index [OF k, of w] k
    unfolding w(2) by (simp add: pool_shape_def)
  show "is_free m (rid AND indexMask m)"
    "rid = mk_id (version (slot_at m (rid AND indexMask m)) + 1) (rid AND indexMask m)"
    "m' = claim now (rid AND indexMask m) (m\<lparr>cursor := cursor m + 1\<rparr>)"
    unfolding idx using w by auto
qed

lemma slot_at_claim:
  assumes "sender_ok m"
  shows "slot_at (claim now (w AND indexMask m) (m\<lparr>cursor := c\<rparr>)) (v AND indexMask m) =
    (if v AND indexMask m = w AND indexMask m
     then (slot_at m (w AND indexMask m))\<lparr>slot_state := SlotWaiting,
        version := version (slot_at m (w AND indexMask m)) + 1, timestamp := now\<rparr>
     else slot_at m (v AND indexMask m))"
  using sender_ok_idx [OF assms, of w]
  by (auto simp: claim_def slot_at_def upd_slot_def nth_list_update unat_inj_iff)

lemma claim_frame [simp]:
  "indexMask (claim now idx m) = indexMask m"
  by (simp add: claim_def)

lemma claim_sender_ok:
  assumes "sender_ok m"
  shows "sender_ok (claim now (w AND indexMask m) (m\<lparr>cursor := c\<rparr>))"
proof -
  have "sender_ok (m\<lparr>cursor := c\<rparr>)" using assms by (simp add: sender_ok_def pool_shape_def)
  then show ?thesis unfolding claim_def
    using sender_ok_slot [OF assms, of w]
    by (intro upd_sender_ok) (auto simp: slot_ok_def slot_at_def split: option.splits)
qed

lemma claim_outstanding:
  assumes "sender_ok m" and "versions_below (2 ^ 48 - 1) m" and "AddSender now m = (Inr rid, m')"
  shows "outstanding m' = insert rid (outstanding m)" and "rid \<notin> outstanding m"
proof -
  obtain k where k: "pool_shape k m" using assms(1) by (auto simp: sender_ok_def)
  note c = AddSender_claims [OF assms]
  note v = version_inc(2) [OF versions_belowD [OF k assms(2)]]
  show "rid \<notin> outstanding m" using c(1) by (auto simp: outstanding_def is_free_def Let_def)
  have "r \<in> outstanding m' \<longleftrightarrow> r = rid \<or> r \<in> outstanding m" for r
  proof (cases "r AND indexMask m = rid AND indexMask m")
    case True
    have "r \<notin> outstanding m"
      using c(1) True by (auto simp: outstanding_def is_free_def Let_def)
    moreover have "r \<in> outstanding m' \<longleftrightarrow> r = rid"
      unfolding outstanding_def c(3) using v True c(2)
      by (auto simp: Let_def slot_at_claim [OF assms(1)])
    ultimately show ?thesis by simp
  next
    case False
    then show ?thesis unfolding outstanding_def c(3)
      by (auto simp: Let_def slot_at_claim [OF assms(1)])
  qed
  then show "outstanding m' = insert rid (outstanding m)" by auto
qed

lemma AddSender_ids_ok:
  assumes "ids_ok m ids" and "versions_below (2 ^ 48 - 1) m" and "AddSender now m = (Inr rid, m')"
  shows "ids_ok m' (rid # ids)"
proof -
  have ok: "sender_ok m" using assms(1) by (simp add: ids_ok_def)
  then obtain k where k: "pool_shape k m" by (auto simp: sender_ok_def)
  note c = AddSender_claims [OF ok assms(2,3)]
  let ?s = "\<lambda>r. slot_at m (r AND indexMask m)"
  have inc: "unat (version (?s r) + 1) = unat (version (?s r)) + 1"
    "take_bit 48 (version (?s r) + 1) = version (?s r) + 1" for r
    using version_inc [OF versions_belowD [OF k assms(2)]] by blast+
  have old: "\<exists>v. r = mk_id v (r AND indexMask m) \<and> take_bit 48 v = v \<and> unat v \<le> unat (version (?s r))"
    if "r \<in> set ids" for r
    using that assms(1) by (auto simp: ids_ok_def Let_def)
  have "rid \<notin> set ids"
  proof
    assume "rid \<in> set ids"
    from old [OF this] obtain v where v: "rid = mk_id v (rid AND indexMask m)" "take_bit 48 v = v"
      "unat v \<le> unat (version (?s rid))" by blast
    have "v = version (?s rid) + 1"
      using mk_id_version [of k "rid AND indexMask m"] pool_index [OF k, of rid] v(1,2) c(2) inc(2) by metis
    then show False using v(3) inc(1) [of rid] by simp
  qed
  moreover have "\<exists>v. r = mk_id v (r AND indexMask m) \<and> take_bit 48 v = v
      \<and> unat v \<le> unat (version (slot_at m' (r AND indexMask m)))" if r: "r \<in> set (rid # ids)" for r
  proof (cases "r = rid")
    case True
    show ?thesis unfolding True using c(2) inc(2) [of rid]
      by (intro exI [of _ "version (?s rid) + 1"]) (simp add: c(3) slot_at_claim [OF ok])
  next
    case False
    then obtain v where v: "r = mk_id v (r AND indexMask m)" "take_bit 48 v = v" "unat v \<le> unat (version (?s r))"
      using old [of r] r by auto
    have "unat (version (?s r)) \<le> unat (version (slot_at m' (r AND indexMask m)))"
      using inc(1) [of rid] by (simp add: c(3) slot_at_claim [OF ok])
    then show ?thesis using v order_trans by blast
  qed
  moreover have "indexMask m' = indexMask m" by (simp add: c(3))
  moreover have "sender_ok m'" unfolding c(3) by (rule claim_sender_ok [OF ok])
  moreover have "outstanding m' \<subseteq> set (rid # ids)"
    using claim_outstanding(1) [OF ok assms(2,3)] assms(1) by (auto simp: ids_ok_def)
  ultimately show ?thesis using assms(1) unfolding ids_ok_def Let_def by simp
qed

lemma ids_ok_moves:
  "ids_ok m ids \<Longrightarrow> (sender_ok m \<Longrightarrow> sender_ok m' \<and> evolves m m') \<Longrightarrow> ids_ok m' ids"
  by (rule ids_ok_evolves) (auto simp: ids_ok_def)

lemma rpc_step_ids_ok:
  assumes "rpc_step st st'" and "ids_ok (fst (fst st)) (snd st)"
  shows "ids_ok (fst (fst st')) (snd st')"
  using assms
proof (induction rule: rpc_step.induct)
  case (call m now rid m' h ids)
  then show ?case using AddSender_ids_ok by simp
next
  case (call_fails m now e m' h ids)
  then have ok: "sender_ok m" by (simp add: ids_ok_def)
  then obtain k where "pool_shape k m" by (auto simp: sender_ok_def)
  from AddSender_cases [OF this call_fails(1), of now] call_fails(2)
  have "m' = m\<lparr>cursor := cursor m + 1\<rparr>" by (auto simp: Let_def)
  then show ?case using call_fails(3)
    by (simp add: ids_ok_def sender_ok_def pool_shape_def outstanding_def slot_at_def Let_def)
next
  case (reply m h ids a)
  then show ?case using SetReply_evolves [of m a h] by (simp add: ids_ok_moves)
next
  case (enter m h ids ctxDone now rid timeout)
  then show ?case using GetReply_enter_evolves [of m ctxDone now rid timeout h] by (simp add: ids_ok_moves)
next
  case (wake m h ids now rid ev)
  then show ?case using GetReply_wake_evolves [of m now rid ev h] by (simp add: ids_ok_moves)
next
  case (tick m h ids now sh)
  then show ?case using watchdog_evolves [of m now sh h] by (simp add: ids_ok_moves)
qed simp

lemma rpc_reach_ids_ok: "rpc_reach n st \<Longrightarrow> ids_ok (fst (fst st)) (snd st)"
proof (induction rule: rpc_reach.induct)
  case (start m h)
  then have ok: "sender_ok m" using NewSender_ok by blast
  have "slot_state s = SlotFree" if "s \<in> set (slots m)" for s
    using start that by (auto simp: NewSender_def NewSenderWithObserver_def Let_def newSlot_def split: if_splits)
  moreover have "slot_at m (r AND indexMask m) \<in> set (slots m)" for r
    using sender_ok_idx [OF ok] by (simp add: slot_at_def)
  ultimately have "outstanding m = {}" by (auto simp: outstanding_def Let_def)
  then show ?case using ok by (simp add: ids_ok_def)
qed (rule rpc_step_ids_ok)

lemma SetReply_stale:
  assumes "ids_ok m ids" and "RpcId (mobj h a) \<in> set ids" and "RpcId (mobj h a) \<notin> outstanding m"
  shows "SetReply a (m, h) = (m, h)"
proof -
  let ?rid = "RpcId (mobj h a)"
  let ?idx = "?rid AND indexMask m"
  obtain k where k: "pool_shape k m" using assms(1) by (auto simp: ids_ok_def sender_ok_def)
  obtain v where v: "?rid = mk_id v ?idx" "take_bit 48 v = v"
    using assms(1,2) unfolding ids_ok_def Let_def by blast
  have "drop_bit VersionShift ?rid = v"
    using mk_id_version [of k ?idx v] pool_index [OF k, of ?rid] v by metis
  then have "version (slot_at m ?idx) \<noteq> drop_bit VersionShift ?rid
      \<or> slot_state (slot_at m ?idx) \<noteq> SlotWaiting"
    using assms(3) v unfolding outstanding_def Let_def by auto
  then show ?thesis unfolding SetReply_def Let_def by auto
qed

text \<open>Claim C3: in every interleaving of callers, replies, timeouts and watchdog ticks, no RPC
  identifier is ever handed out twice, only identifiers that were handed out are awaited, and
  whatever \<open>GetReply\<close> returns carries exactly the identifier it waits for: no caller receives the
  reply of another call.\<close>

theorem rpc_replies_matched:
  assumes "rpc_reach n ((m, h), ids)"
  shows "distinct ids \<and> outstanding m \<subseteq> set ids
         \<and> (fst (GetReply_wake now rid ev (m, h)) = Returned (Some a) \<longrightarrow> RpcId (mobj h a) = rid)
         \<and> (fst (GetReply_enter ctxDone now rid timeout (m, h)) = Returned (Some a) \<longrightarrow> RpcId (mobj h a) = rid)"
proof (intro conjI impI)
  have "ids_ok m ids" using rpc_reach_ids_ok [OF assms] by simp
  then show "distinct ids" "outstanding m \<subseteq> set ids" by (simp_all add: ids_ok_def)
  show "RpcId (mobj h a) = rid" if "fst (GetReply_wake now rid ev (m, h)) = Returned (Some a)"
    using that by (auto simp: GetReply_wake_def Let_def
        split: wake_event.splits option.splits list.splits if_splits)
  show "RpcId (mobj h a) = rid" if "fst (GetReply_enter ctxDone now rid timeout (m, h)) = Returned (Some a)"
    using that by (auto simp: GetReply_enter_def Let_def split: option.splits list.splits if_splits)
qed

lemma NewSender_one:
  "\<exists>m. NewSender 1 = Inr m \<and> slots m = [newSlot] \<and> indexMask m = 0"
  by (simp add: NewSender_def NewSenderWithObserver_def nextPowerOfTwo_def VersionShift_def Let_def)

theorem rpc_replies_matched_witness:
  "\<exists>m. NewSender 1 = Inr m \<and> distinct ([] :: u64 list) \<and> outstanding m \<subseteq> set []"
proof -
  obtain m where m: "NewSender 1 = Inr m" using NewSender_one by blast
  from rpc_replies_matched [OF rpc_reach.start [OF m, of empty_heap]] m show ?thesis by blast
qed

text \<open>a late reply is harmless. In every reachable state, a reply that carries an
  identifier handed out earlier whose caller no longer waits (answered, timed out, recycled by
  the watchdog, or its slot already serving another call) is dropped without touching any
  slot, any message or any reference count.\<close>

theorem rpc_late_reply_dropped:
  assumes "rpc_reach n ((m, h), ids)" and "RpcId (mobj h a) \<in> set ids"
    and "RpcId (mobj h a) \<notin> outstanding m"
  shows "SetReply a (m, h) = (m, h)"
  using rpc_reach_ids_ok [OF assms(1)] assms(2,3) by (intro SetReply_stale) simp_all

lemma late_reply_run:
  "\<exists>m. rpc_reach 1 ((m, empty_heap), [131072]) \<and> 131072 \<notin> outstanding m"
proof -
  obtain m where m: "NewSender 1 = Inr m" "slots m = [newSlot]" "indexMask m = 0"
    using NewSender_one by blast
  then have ok: "sender_ok m" and below: "versions_below (2 ^ 48 - 1) m"
    using NewSender_ok [OF m(1)] by (auto simp: versions_below_def)
  have "\<exists>rid m'. AddSender 0 m = (Inr rid, m')"
    using AddSender_cases [OF _ below, of _ 0] ok m
    by (auto simp: sender_ok_def is_free_def slot_at_def newSlot_def Let_def)
  then obtain rid m' where add: "AddSender 0 m = (Inr rid, m')" by blast
  note c = AddSender_claims [OF ok below add]
  have "version newSlot + 1 = 2" by (simp add: newSlot_def)
  then have rid: "rid = 131072"
    using c(2) m by (simp add: slot_at_def mk_id_def VersionShift_def)
  let ?st = "GetReply_wake 5 rid TimerFired (m', empty_heap)"
  have "rpc_reach 1 (snd ?st, [rid])"
    using m(1) below add by (blast intro: rpc_reach.intros call wake)
  moreover have "snd ?st = (abandon 5 0 m', empty_heap)" "rid \<notin> outstanding (abandon 5 0 m')"
    using m c(3) by (simp_all add: GetReply_wake_def Let_def claim_def outstanding_def abandon_def
        upd_slot_def slot_at_def)
  ultimately show ?thesis unfolding rid by (metis snd_conv)
qed

theorem rpc_late_reply_dropped_witness:
  "\<exists>m h. SetReply 0 (m, h) = (m, h) \<and> RpcId (mobj h 0) = 131072 \<and> rpc_reach 1 ((m, h), [131072])"
proof -
  let ?h = "empty_heap\<lparr>mobj := \<lambda>_. msg_zero\<lparr>RpcId := 131072\<rparr>\<rparr>"
  obtain m where m: "rpc_reach 1 ((m, empty_heap), [131072])" "131072 \<notin> outstanding m"
    using late_reply_run by blast
  then have r: "rpc_reach 1 ((m, ?h), [131072])" by (blast intro: rpc_reach.step others)
  from rpc_late_reply_dropped [OF r, of 0] m(2) r show ?thesis by (intro exI [of _ m] exI [of _ ?h]) simp
qed

section \<open>The request table as an interface\<close>

text \<open>What a client of the sender relies on, over an abstract state: identifiers are fresh, a
  reply is held for its identifier only, and waiting hands it over.\<close>

locale rpc_table =
  fixes inv :: "'s \<Rightarrow> bool"
    and room :: "'s \<Rightarrow> bool"
    and awaited :: "'s \<Rightarrow> u64 set"
    and held :: "'s \<Rightarrow> u64 \<Rightarrow> 'm option"
    and msgid :: "'s \<Rightarrow> 'm \<Rightarrow> u64"
    and add :: "'s \<Rightarrow> u64 option \<times> 's"
    and reply_to :: "'m \<Rightarrow> 's \<Rightarrow> 's"
    and await :: "u64 \<Rightarrow> 's \<Rightarrow> 'm option \<times> 's"
  assumes add_law: "inv s \<Longrightarrow> room s \<Longrightarrow> add s = (Some r, s') \<Longrightarrow>
      inv s' \<and> r \<notin> awaited s \<and> awaited s' = insert r (awaited s) \<and> held s' = (held s)(r := None)
      \<and> msgid s' = msgid s"
    and reply_law: "inv s \<Longrightarrow> msgid s m \<in> awaited s \<Longrightarrow> held s (msgid s m) = None \<Longrightarrow>
      inv (reply_to m s) \<and> awaited (reply_to m s) = awaited s
      \<and> held (reply_to m s) = (held s)(msgid s m := Some m) \<and> msgid (reply_to m s) = msgid s"
    and await_law: "inv s \<Longrightarrow> held s r = Some m \<Longrightarrow>
      \<exists>s'. await r s = (Some m, s') \<and> inv s' \<and> awaited s' = awaited s - {r}
           \<and> held s' = (held s)(r := None) \<and> msgid s' = msgid s"
begin

lemma call_roundtrip:
  assumes "inv s" and "room s" and "add s = (Some r, s')" and "msgid s m = r"
  shows "fst (await r (reply_to m s')) = Some m"
proof -
  have "inv s'" "r \<in> awaited s'" "held s' r = None" "msgid s' m = r"
    using add_law [OF assms(1-3)] assms(4) by auto
  then show ?thesis using reply_law [of s' m] await_law [of "reply_to m s'" r m] by auto
qed

lemma out_of_order:
  assumes inv: "inv s" and room: "room s" "room s1"
    and add: "add s = (Some r1, s1)" "add s1 = (Some r2, s2)"
    and ids: "msgid s m1 = r1" "msgid s m2 = r2"
    and st: "s3 = reply_to m1 (reply_to m2 s2)"
  shows "r1 \<noteq> r2 \<and> fst (await r1 s3) = Some m1 \<and> fst (await r2 (snd (await r1 s3))) = Some m2"
proof -
  note a1 = add_law [OF inv room(1) add(1)]
  then have inv1: "inv s1" by simp
  note a2 = add_law [OF inv1 room(2) add(2)]
  have ne: "r1 \<noteq> r2" using a1 a2 by auto
  have s2: "inv s2" "r1 \<in> awaited s2" "r2 \<in> awaited s2" "held s2 r1 = None" "held s2 r2 = None"
    "msgid s2 m1 = r1" "msgid s2 m2 = r2"
    using a1 a2 ids by auto
  have p: "inv (reply_to m2 s2)" "awaited (reply_to m2 s2) = awaited s2"
    "held (reply_to m2 s2) = (held s2)(r2 := Some m2)" "msgid (reply_to m2 s2) = msgid s2"
    using reply_law [of s2 m2] s2 by auto
  have "msgid (reply_to m2 s2) m1 = r1" "held (reply_to m2 s2) r1 = None" "r1 \<in> awaited (reply_to m2 s2)"
    using p s2 ne by simp_all
  then have "inv s3" "held s3 = (held (reply_to m2 s2))(r1 := Some m1)"
    using reply_law [OF p(1), of m1] by (simp_all add: st)
  then have q: "inv s3" "held s3 r1 = Some m1" "held s3 r2 = Some m2"
    using p(3) ne by simp_all
  obtain s4 where s4: "await r1 s3 = (Some m1, s4)" "inv s4" "held s4 = (held s3)(r1 := None)"
    using await_law [OF q(1,2)] by (elim exE conjE)
  have "held s4 r2 = Some m2" using s4(3) q(3) ne by simp
  from await_law [OF s4(2) this] obtain s5 where "await r2 s4 = (Some m2, s5)" by (elim exE conjE)
  then show ?thesis using s4(1) ne by simp
qed

end

text \<open>The sender provides it.\<close>

definition rpc_held :: "sstate \<Rightarrow> u64 \<Rightarrow> mref option" where
  "rpc_held s rid =
    (if rid \<in> outstanding (fst s)
     then (case ch (slot_at (fst s) (rid AND indexMask (fst s))) of Some [a] \<Rightarrow> Some a | _ \<Rightarrow> None)
     else None)"

definition rpc_inv :: "sstate \<Rightarrow> bool" where
  "rpc_inv s \<longleftrightarrow> sender_ok (fst s)
     \<and> (\<forall>rid a. rpc_held s rid = Some a \<longrightarrow> RpcId (mobj (snd s) a) = rid)"

definition rpc_add :: "i64 \<Rightarrow> sstate \<Rightarrow> u64 option \<times> sstate" where
  "rpc_add now s = (case AddSender now (fst s) of
      (Inr rid, m) \<Rightarrow> (Some rid, (m, snd s)) | (Inl _, m) \<Rightarrow> (None, (m, snd s)))"

definition rpc_await :: "i64 \<Rightarrow> u64 \<Rightarrow> sstate \<Rightarrow> mref option \<times> sstate" where
  "rpc_await now rid s = (case GetReply_enter False now rid 1 s of
      (Returned r, s') \<Rightarrow> (r, s') | (Blocked, s') \<Rightarrow> (None, s'))"

lemma RpcId_Retain [simp]: "RpcId (mobj (Retain p h) b) = RpcId (mobj h b)"
  by (simp add: Retain_def upd_msg_def split: option.split)

lemma outstanding_iff:
  "rid \<in> outstanding m \<longleftrightarrow> slot_state (slot_at m (rid AND indexMask m)) = SlotWaiting
     \<and> take_bit 48 (version (slot_at m (rid AND indexMask m))) = version (slot_at m (rid AND indexMask m))
     \<and> rid = mk_id (version (slot_at m (rid AND indexMask m))) (rid AND indexMask m)"
  by (simp add: outstanding_def Let_def)

lemma outstanding_same_slot:
  "r \<in> outstanding m \<Longrightarrow> r' \<in> outstanding m \<Longrightarrow> r AND indexMask m = r' AND indexMask m \<Longrightarrow> r = r'"
  by (metis outstanding_iff)

lemma rpc_add_law:
  assumes "rpc_inv s" and "versions_below (2 ^ 48 - 1) (fst s)" and "rpc_add now s = (Some r, s')"
  shows "rpc_inv s' \<and> r \<notin> outstanding (fst s) \<and> outstanding (fst s') = insert r (outstanding (fst s))
      \<and> rpc_held s' = (rpc_held s)(r := None) \<and> snd s' = snd s"
proof -
  obtain m h where s: "s = (m, h)" by (cases s)
  obtain m' where add: "AddSender now m = (Inr r, m')" and s': "s' = (m', h)"
    using assms(3) by (auto simp: rpc_add_def s split: prod.splits sum.splits)
  have ok: "sender_ok m" using assms(1) by (simp add: rpc_inv_def s)
  have below: "versions_below (2 ^ 48 - 1) m" using assms(2) by (simp add: s)
  note c = AddSender_claims [OF ok below add] and out = claim_outstanding [OF ok below add]
  have mask: "indexMask m' = indexMask m" by (simp add: c(3))
  have empty: "ch (slot_at m (r AND indexMask m)) = Some []"
    using sender_ok_slot [OF ok, of r] c(1) by (auto simp: slot_ok_def is_free_def split: option.splits)
  have held: "rpc_held (m', h) r' = ((rpc_held (m, h))(r := None)) r'" for r'
  proof (cases "r' AND indexMask m = r AND indexMask m")
    case True
    have "r' \<notin> outstanding m" using c(1) True by (simp add: outstanding_iff is_free_def)
    moreover have "r' \<in> outstanding m' \<longleftrightarrow> r' = r" using calculation out(1) by auto
    ultimately show ?thesis using empty by (simp add: rpc_held_def mask c(3) slot_at_claim [OF ok])
  next
    case False
    then have "slot_at m' (r' AND indexMask m) = slot_at m (r' AND indexMask m)" "r' \<noteq> r"
      by (auto simp: c(3) slot_at_claim [OF ok])
    then show ?thesis using out(1) by (simp add: rpc_held_def mask)
  qed
  have "sender_ok m'" unfolding c(3) by (rule claim_sender_ok [OF ok])
  then have "rpc_inv s'" using assms(1) unfolding rpc_inv_def s s' by (auto simp: held)
  then show ?thesis using out held by (auto simp: s s')
qed

lemma SetReply_awaited:
  assumes "sender_ok m" and "RpcId (mobj h a) \<in> outstanding m" and "rpc_held (m, h) (RpcId (mobj h a)) = None"
  shows "SetReply a (m, h) =
    (upd_slot (RpcId (mobj h a) AND indexMask m) (\<lambda>s. s\<lparr>ch := Some [a]\<rparr>) m, Retain (Some a) h)"
proof -
  let ?rid = "RpcId (mobj h a)"
  let ?s = "slot_at m (?rid AND indexMask m)"
  obtain k where k: "pool_shape k m" using assms(1) by (auto simp: sender_ok_def)
  have o: "slot_state ?s = SlotWaiting" "take_bit 48 (version ?s) = version ?s"
    "?rid = mk_id (version ?s) (?rid AND indexMask m)"
    using assms(2) by (simp_all add: outstanding_iff)
  have "drop_bit VersionShift (mk_id (version ?s) (?rid AND indexMask m)) = version ?s"
    using mk_id_version [of k _ "version ?s"] pool_index [OF k, of ?rid] o(2) by blast
  then have ver: "version ?s = drop_bit VersionShift ?rid" using o(3) by simp
  have "ch ?s = Some []"
    using sender_ok_slot [OF assms(1), of ?rid] assms(2,3)
    by (auto simp: slot_ok_def rpc_held_def le_Suc_eq length_Suc_conv split: option.splits list.splits)
  then show ?thesis using ver o(1) by (simp add: SetReply_def Let_def)
qed

lemma slot_at_upd:
  assumes "sender_ok m"
  shows "slot_at (upd_slot (w AND indexMask m) f m) (v AND indexMask m) =
    (if v AND indexMask m = w AND indexMask m then f (slot_at m (w AND indexMask m))
     else slot_at m (v AND indexMask m))"
  using sender_ok_idx [OF assms, of w]
  by (auto simp: slot_at_def upd_slot_def nth_list_update unat_inj_iff)

lemma rpc_reply_law:
  assumes "rpc_inv s" and "RpcId (mobj (snd s) a) \<in> outstanding (fst s)"
    and "rpc_held s (RpcId (mobj (snd s) a)) = None"
  shows "rpc_inv (SetReply a s) \<and> outstanding (fst (SetReply a s)) = outstanding (fst s)
      \<and> rpc_held (SetReply a s) = (rpc_held s)(RpcId (mobj (snd s) a) := Some a)
      \<and> (\<lambda>b. RpcId (mobj (snd (SetReply a s)) b)) = (\<lambda>b. RpcId (mobj (snd s) b))"
proof -
  obtain m h where s: "s = (m, h)" by (cases s)
  let ?rid = "RpcId (mobj h a)"
  let ?m = "upd_slot (?rid AND indexMask m) (\<lambda>s. s\<lparr>ch := Some [a]\<rparr>) m"
  have ok: "sender_ok m" using assms(1) by (simp add: rpc_inv_def s)
  have rid: "?rid \<in> outstanding m" using assms(2) by (simp add: s)
  have eq: "SetReply a s = (?m, Retain (Some a) h)"
    using SetReply_awaited [OF ok rid] assms(3) by (simp add: s)
  have "x \<in> outstanding ?m \<longleftrightarrow> x \<in> outstanding m" for x
    by (cases "x AND indexMask m = ?rid AND indexMask m") (simp_all add: outstanding_iff slot_at_upd [OF ok])
  then have out: "outstanding ?m = outstanding m" by blast
  have held: "rpc_held (?m, h') r = ((rpc_held (m, h))(?rid := Some a)) r" for r h'
    using outstanding_same_slot [OF _ rid, of r] rid
    by (auto simp: rpc_held_def out slot_at_upd [OF ok])
  have "sender_ok ?m"
    using rid by (intro upd_sender_ok [OF ok]) (auto simp: slot_ok_def outstanding_iff)
  then have "rpc_inv (?m, Retain (Some a) h)"
    using assms(1) by (auto simp: rpc_inv_def held s)
  then show ?thesis unfolding eq using out held by (auto simp: s)
qed

lemma rpc_await_law:
  assumes "rpc_inv s" and "rpc_held s r = Some a"
  shows "\<exists>s'. rpc_await now r s = (Some a, s') \<and> rpc_inv s' \<and> outstanding (fst s') = outstanding (fst s) - {r}
      \<and> rpc_held s' = (rpc_held s)(r := None) \<and> snd s' = snd s"
proof -
  obtain m h where s: "s = (m, h)" by (cases s)
  let ?idx = "r AND indexMask m"
  let ?m = "upd_slot ?idx (\<lambda>s. s\<lparr>ch := Some [], slot_state := SlotFree\<rparr>) m"
  have ok: "sender_ok m" using assms(1) by (simp add: rpc_inv_def s)
  have r: "r \<in> outstanding m" "ch (slot_at m ?idx) = Some [a]" "RpcId (mobj h a) = r"
    using assms by (auto simp: rpc_held_def rpc_inv_def s split: if_splits option.splits list.splits)
  have eq: "rpc_await now r s = (Some a, (?m, h))"
    using r sender_ok_idx [OF ok, of r] by (simp add: rpc_await_def GetReply_enter_def Let_def s reply_success_def)
  have "x \<in> outstanding ?m \<longleftrightarrow> x \<in> outstanding m \<and> x \<noteq> r" for x
    using outstanding_same_slot [OF _ r(1), of x]
    by (cases "x AND indexMask m = ?idx") (auto simp: outstanding_iff slot_at_upd [OF ok])
  then have out: "outstanding ?m = outstanding m - {r}" by blast
  have held: "rpc_held (?m, h) r' = ((rpc_held (m, h))(r := None)) r'" for r'
    using outstanding_same_slot [OF _ r(1), of r'] by (auto simp: rpc_held_def out slot_at_upd [OF ok])
  have "sender_ok ?m" by (intro upd_sender_ok [OF ok]) (simp add: slot_ok_def)
  then have "rpc_inv (?m, h)" using assms(1) by (auto simp: rpc_inv_def held s)
  then show ?thesis unfolding eq using out held by (auto simp: s)
qed

interpretation rt: rpc_table rpc_inv "\<lambda>s. versions_below (2 ^ 48 - 1) (fst s)" "\<lambda>s. outstanding (fst s)"
  rpc_held "\<lambda>s a. RpcId (mobj (snd s) a)" "rpc_add now" SetReply "rpc_await now'" for now now'
proof (unfold_locales, goal_cases)
  case (1 s r s')
  then show ?case using rpc_add_law [of s now r s'] by simp
next
  case (2 s m)
  then show ?case using rpc_reply_law [of s m] by simp
next
  case (3 s r m)
  then show ?case using rpc_await_law [of s r m now'] by auto
qed

text \<open>calls in flight do not get mixed up. After two allocations, replies that arrive in
  the opposite order are each handed to the caller that waits for them.\<close>

theorem rpc_out_of_order:
  assumes "sender_ok m" and "outstanding m = {}"
    and "versions_below (2 ^ 48 - 1) m" and "versions_below (2 ^ 48 - 1) m1"
    and "AddSender t m = (Inr r1, m1)" and "AddSender t m1 = (Inr r2, m2)"
    and "RpcId (mobj h a1) = r1" and "RpcId (mobj h a2) = r2"
  shows "let s = SetReply a1 (SetReply a2 (m2, h));
             (res1, s') = GetReply_enter False now r1 1 s;
             (res2, s'') = GetReply_enter False now r2 1 s'
         in r1 \<noteq> r2 \<and> res1 = Returned (Some a1) \<and> res2 = Returned (Some a2)"
proof -
  let ?s3 = "SetReply a1 (SetReply a2 (m2, h))"
  have inv: "rpc_inv (m, h)" using assms(1,2) by (simp add: rpc_inv_def rpc_held_def)
  have adds: "rpc_add t (m, h) = (Some r1, (m1, h))" "rpc_add t (m1, h) = (Some r2, (m2, h))"
    using assms(5,6) by (simp_all add: rpc_add_def)
  have "r1 \<noteq> r2 \<and> fst (rpc_await now r1 ?s3) = Some a1
      \<and> fst (rpc_await now r2 (snd (rpc_await now r1 ?s3))) = Some a2"
    using assms(3,4,7,8) by (intro rt.out_of_order [OF inv _ _ adds]) simp_all
  then show ?thesis
    by (auto simp: rpc_await_def Let_def split: prod.splits reply_result.splits)
qed

lemma two_calls_run:
  "\<exists>m m1 m2. sender_ok m \<and> outstanding m = {} \<and> versions_below (2 ^ 48 - 1) m
     \<and> versions_below (2 ^ 48 - 1) m1 \<and> AddSender 7 m = (Inr 131073, m1) \<and> AddSender 7 m1 = (Inr 131072, m2)"
proof -
  define m where "m = \<lparr>slots = [newSlot, newSlot], cursor = 0, sender_timeout = 0, indexMask = 1,
     poolSize = 2, abandonedRecycleDelay = 0, waitingForceRecycleTTL = 0, watchdogTick = 0\<rparr>"
  define w where "w = newSlot\<lparr>slot_state := SlotWaiting, version := 2, timestamp := 7\<rparr>"
  have "pool_shape 1 m" by (simp add: pool_shape_def m_def mask_eq_exp_minus_1)
  then have "sender_ok m" by (auto simp: sender_ok_def slot_ok_def newSlot_def m_def)
  moreover have "outstanding m = {}"
  proof -
    have "unat (x AND 1 :: u64) \<in> {0, 1}" for x by (simp add: and_one_eq mod_2_eq_odd)
    then show ?thesis
      by (auto simp: outstanding_iff m_def slot_at_def newSlot_def) (metis slotState.distinct(1) nth_Cons_0 nth_Cons_Suc One_nat_def insertE empty_iff rpcSlot.select_convs(3))
  qed
  moreover have "AddSender 7 m = (Inr 131073, m\<lparr>slots := [newSlot, w], cursor := 1\<rparr>)"
  proof -
    have "AddSender 7 m = AddSender_loop 7 1 (Suc (Suc 0)) 0 (m\<lparr>cursor := 1\<rparr>)"
      by (simp add: AddSender_def m_def Let_def flip: numeral_2_eq_2)
    then show ?thesis
      by (simp add: m_def w_def slot_at_def upd_slot_def newSlot_def VersionShift_def Let_def)
  qed
  moreover have "AddSender 7 (m\<lparr>slots := [newSlot, w], cursor := 1\<rparr>) = (Inr 131072, m\<lparr>slots := [w, w], cursor := 2\<rparr>)"
  proof -
    have "AddSender 7 (m\<lparr>slots := [newSlot, w], cursor := 1\<rparr>)
        = AddSender_loop 7 2 (Suc (Suc 0)) 0 (m\<lparr>slots := [newSlot, w], cursor := 2\<rparr>)"
      by (simp add: AddSender_def m_def Let_def flip: numeral_2_eq_2)
    then show ?thesis
      by (simp add: m_def w_def slot_at_def upd_slot_def newSlot_def VersionShift_def Let_def)
  qed
  ultimately show ?thesis
    by (intro exI [of _ m] exI [of _ "m\<lparr>slots := [newSlot, w], cursor := 1\<rparr>"]
        exI [of _ "m\<lparr>slots := [w, w], cursor := 2\<rparr>"])
       (simp add: versions_below_def m_def w_def newSlot_def)
qed

theorem rpc_out_of_order_witness:
  "\<exists>s. fst (GetReply_enter False 8 131073 1 s) = Returned (Some 5)"
proof -
  obtain m m1 m2 where m: "sender_ok m" "outstanding m = {}" "versions_below (2 ^ 48 - 1) m"
    "versions_below (2 ^ 48 - 1) m1" "AddSender 7 m = (Inr 131073, m1)" "AddSender 7 m1 = (Inr 131072, m2)"
    using two_calls_run by (elim exE conjE)
  let ?h = "empty_heap\<lparr>mobj := \<lambda>a. msg_zero\<lparr>RpcId := if a = 5 then 131073 else 131072\<rparr>\<rparr>"
  from rpc_out_of_order [OF m, of ?h 5 6 8] show ?thesis
    by (intro exI [of _ "SetReply 5 (SetReply 6 (m2, ?h))"]) (auto simp: Let_def split: prod.splits)
qed

section \<open>The watchdog\<close>

definition watchdog_run :: "i64 list \<Rightarrow> nat \<times> sstate \<Rightarrow> nat \<times> sstate" where
  "watchdog_run = fold (\<lambda>now (sh, mh). watchdog_tick now sh mh)"

definition due :: "i64 \<Rightarrow> int \<Rightarrow> rpcSlot \<Rightarrow> bool" where
  "due now delay s \<longleftrightarrow> slot_state s = SlotAbandoned \<and> sint (now - timestamp s) > Milliseconds delay"

text \<open>The parts of the sender the watchdog reads and never changes.\<close>

definition same_params :: "ActorMsgSender \<Rightarrow> ActorMsgSender \<Rightarrow> bool" where
  "same_params m m' \<longleftrightarrow> length (slots m') = length (slots m) \<and> poolSize m' = poolSize m
     \<and> abandonedRecycleDelay m' = abandonedRecycleDelay m"

lemma checkSlot_params:
  "unat idx < length (slots m) \<Longrightarrow> same_params m (fst (checkSlot now idx (m, h)))"
  using checkSlot_cases [of idx m now h] by (auto simp: same_params_def)

lemma checkSlot_at:
  assumes "i < length (slots m)" and "length (slots m) \<le> 2 ^ 16"
  shows "slots (fst (checkSlot now (word_of_nat i) (m, h))) ! j = slots m ! j
         \<or> slots (fst (checkSlot now (word_of_nat i) (m, h))) ! j = recycled (slots m ! j)"
    and "slot_state (slots m ! i) = SlotFree \<Longrightarrow> checkSlot now (word_of_nat i) (m, h) = (m, h)"
    and "due now (abandonedRecycleDelay m) (slots m ! i) \<Longrightarrow>
         slots (fst (checkSlot now (word_of_nat i) (m, h))) ! i = recycled (slots m ! i)"
proof -
  have u: "unat (word_of_nat i :: u64) = i" using assms by (intro unat_word_of_nat_lt) simp
  have s: "slot_at m (word_of_nat i) = slots m ! i" by (simp add: slot_at_def u)
  have lt: "unat (word_of_nat i :: u64) < length (slots m)" using assms(1) u by simp
  show "slot_state (slots m ! i) = SlotFree \<Longrightarrow> checkSlot now (word_of_nat i) (m, h) = (m, h)"
    by (simp add: checkSlot_def s)
  show "slots (fst (checkSlot now (word_of_nat i) (m, h))) ! j = slots m ! j
         \<or> slots (fst (checkSlot now (word_of_nat i) (m, h))) ! j = recycled (slots m ! j)"
    using checkSlot_cases [OF lt, of now h] assms(1)
    by (auto simp: upd_slot_def u s nth_list_update)
  show "due now (abandonedRecycleDelay m) (slots m ! i) \<Longrightarrow>
         slots (fst (checkSlot now (word_of_nat i) (m, h))) ! i = recycled (slots m ! i)"
    using recycleSlot_eq [OF lt, of h] assms(1)
    by (auto simp: due_def checkSlot_def Let_def s upd_slot_def u)
qed

lemma fold_check_due:
  assumes "\<forall>i \<in> set is. i < length (slots m)" and "length (slots m) \<le> 2 ^ 16" and "j < length (slots m)"
    and "slot_state (slots m ! j) = SlotFree \<or> due now (abandonedRecycleDelay m) (slots m ! j)"
  shows "let m' = fst (fold (\<lambda>i mh. checkSlot now (word_of_nat i) mh) is (m, h))
         in same_params m m' \<and> (slots m' ! j = slots m ! j \<or> slot_state (slots m' ! j) = SlotFree)
            \<and> (j \<in> set is \<longrightarrow> slot_state (slots m' ! j) = SlotFree)"
  using assms
proof (induction "is" arbitrary: m h)
  case (Cons i "is")
  obtain m1 h1 where m1: "checkSlot now (word_of_nat i) (m, h) = (m1, h1)" by fastforce
  have i: "i < length (slots m)" using Cons.prems(1) by simp
  have ui: "unat (word_of_nat i :: u64) = i" using i Cons.prems(2) by (intro unat_word_of_nat_lt) simp
  have p: "same_params m m1" using checkSlot_params [of "word_of_nat i" m now h] i ui by (simp add: m1)
  have at: "slots m1 ! j = slots m ! j \<or> slot_state (slots m1 ! j) = SlotFree"
    using checkSlot_at(1) [OF i Cons.prems(2), of now h j] by (auto simp: m1 recycled_def)
  have hit: "slot_state (slots m1 ! j) = SlotFree" if "i = j"
  proof -
    have "slot_state (slots m ! i) = SlotFree \<or> due now (abandonedRecycleDelay m) (slots m ! i)"
      using that Cons.prems(4) by simp
    then have "slot_state (slots m1 ! i) = SlotFree"
      using checkSlot_at(2,3) [OF i Cons.prems(2), of now h] by (auto simp: m1 recycled_def)
    then show ?thesis using that by simp
  qed
  have "let m' = fst (fold (\<lambda>i mh. checkSlot now (word_of_nat i) mh) is (m1, h1))
         in same_params m1 m' \<and> (slots m' ! j = slots m1 ! j \<or> slot_state (slots m' ! j) = SlotFree)
            \<and> (j \<in> set is \<longrightarrow> slot_state (slots m' ! j) = SlotFree)"
    using Cons.prems p at by (intro Cons.IH) (auto simp: same_params_def)
  then show ?case using p at hit by (auto simp: m1 Let_def same_params_def)
qed (simp add: Let_def same_params_def)

definition batch :: "nat \<Rightarrow> nat" where
  "batch n = (if n div 16 < 1 then 1 else n div 16)"

lemma watchdog_tick_due:
  assumes "unat (poolSize m) = length (slots m)" and "length (slots m) \<le> 2 ^ 16" and "j < length (slots m)"
    and "slot_state (slots m ! j) = SlotFree \<or> due now (abandonedRecycleDelay m) (slots m ! j)"
  shows "fst (watchdog_tick now sh (m, h)) = (sh + 1) mod 16
         \<and> (let m' = fst (snd (watchdog_tick now sh (m, h)))
            in same_params m m' \<and> (slots m' ! j = slots m ! j \<or> slot_state (slots m' ! j) = SlotFree)
               \<and> (j div batch (length (slots m)) = sh \<longrightarrow> slot_state (slots m' ! j) = SlotFree))"
proof -
  let ?b = "batch (length (slots m))"
  let ?stop = "if sh * ?b + ?b > length (slots m) then length (slots m) else sh * ?b + ?b"
  have eq: "watchdog_tick now sh (m, h) = ((sh + 1) mod 16,
      fold (\<lambda>i mh. checkSlot now (word_of_nat i) mh) [sh * ?b..<?stop] (m, h))"
    unfolding watchdog_tick_def by (simp only: Let_def fst_conv assms(1) batch_def)
  have b: "0 < ?b" by (simp add: batch_def)
  have "j \<in> set [sh * ?b..<?stop]" if "j div ?b = sh"
    using assms(3) div_mult_mod_eq [of j ?b] mod_less_divisor [OF b, of j] that by auto
  moreover have "\<forall>i \<in> set [sh * ?b..<?stop]. i < length (slots m)" by (auto split: if_splits)
  ultimately show ?thesis
    using fold_check_due [OF _ assms(2-4), of "[sh * ?b..<?stop]" h] unfolding eq by (simp only: Let_def fst_conv snd_conv) blast
qed

lemma watchdog_run_due:
  assumes "unat (poolSize m) = length (slots m)" and "length (slots m) \<le> 2 ^ 16" and "j < length (slots m)"
    and "slot_state (slots m ! j) = SlotFree \<or> (\<forall>now \<in> set nows. due now (abandonedRecycleDelay m) (slots m ! j))"
    and "slot_state (slots m ! j) = SlotFree \<or> (\<exists>t < length nows. (sh + t) mod 16 = j div batch (length (slots m)))"
    and "sh < 16"
  shows "slot_state (slots (fst (snd (watchdog_run nows (sh, (m, h))))) ! j) = SlotFree"
  using assms
proof (induction nows arbitrary: m h sh)
  case (Cons now nows)
  obtain sh1 m1 h1 where m1: "watchdog_tick now sh (m, h) = (sh1, (m1, h1))" by (metis surj_pair)
  have due1: "slot_state (slots m ! j) = SlotFree \<or> due now (abandonedRecycleDelay m) (slots m ! j)"
    using Cons.prems(4) by auto
  note t = watchdog_tick_due [OF Cons.prems(1-3) due1, of sh h]
  have sh1: "sh1 = (sh + 1) mod 16" and p: "same_params m m1"
    and keep: "slots m1 ! j = slots m ! j \<or> slot_state (slots m1 ! j) = SlotFree"
    and hit: "j div batch (length (slots m)) = sh \<longrightarrow> slot_state (slots m1 ! j) = SlotFree"
    using t by (simp_all add: m1 Let_def)
  have len: "length (slots m1) = length (slots m)" using p by (simp add: same_params_def)
  have later: "slot_state (slots m1 ! j) = SlotFree
      \<or> (\<exists>t < length nows. (sh1 + t) mod 16 = j div batch (length (slots m1)))"
  proof (cases "slot_state (slots m ! j) = SlotFree")
    case True
    then show ?thesis using keep by auto
  next
    case False
    then obtain t where t: "t < Suc (length nows)" "(sh + t) mod 16 = j div batch (length (slots m))"
      using Cons.prems(5) by auto
    show ?thesis
    proof (cases t)
      case 0
      then show ?thesis using t hit Cons.prems(6) by simp
    next
      case (Suc t')
      have "(sh1 + t') mod 16 = (sh + t) mod 16" by (simp add: sh1 Suc mod_simps)
      then show ?thesis using t Suc len by auto
    qed
  qed
  have "slot_state (slots (fst (snd (watchdog_run nows (sh1, (m1, h1))))) ! j) = SlotFree"
    using Cons.prems p len keep later sh1
    by (intro Cons.IH) (auto simp: same_params_def)
  then show ?case by (simp add: watchdog_run_def m1)
qed (auto simp: watchdog_run_def)

lemma batch_covers:
  assumes "pool_shape k m" and "j < length (slots m)"
  shows "j div batch (length (slots m)) < 16"
proof (cases "k < 4")
  case True
  then have "length (slots m) \<le> 2 ^ 3" using assms(1) power_increasing [of k 3 "2 :: nat"]
    by (simp add: pool_shape_def)
  then show ?thesis using assms(2) by (simp add: batch_def)
next
  case False
  then have "(2 :: nat) ^ k = 2 ^ (k - 4) * 16"
    using power_add [of "2 :: nat" "k - 4" 4] by simp
  then have n: "length (slots m) = 2 ^ (k - 4) * 16" using assms(1) by (simp add: pool_shape_def)
  then show ?thesis using assms(2)
    by (simp add: batch_def less_mult_imp_div_less mult.commute)
qed

text \<open>Claim C32: no abandoned slot is lost. Whatever shard the watchdog is at, 16 consecutive
  ticks visit every slot, and a slot whose caller gave up more than the recycle delay before each
  of these ticks is free again after them.\<close>

theorem watchdog_frees_abandoned:
  assumes "sender_ok m" and "length nows = 16" and "sh < 16" and "j < length (slots m)"
    and "slot_state (slots m ! j) = SlotAbandoned"
    and "\<forall>now \<in> set nows. sint (now - timestamp (slots m ! j)) > Milliseconds (abandonedRecycleDelay m)"
  shows "slot_state (slots (fst (snd (watchdog_run nows (sh, (m, h))))) ! j) = SlotFree"
proof -
  obtain k where k: "pool_shape k m" using assms(1) by (auto simp: sender_ok_def)
  have size: "unat (poolSize m) = length (slots m)" "length (slots m) \<le> 2 ^ 16"
    using pool_size_unat [OF k] k power_increasing [of k 16 "2 :: nat"] by (simp_all add: pool_shape_def)
  let ?c = "j div batch (length (slots m))"
  let ?t = "(?c + 16 - sh) mod 16"
  have c: "?c < 16" by (rule batch_covers [OF k assms(4)])
  have "(sh + ?t) mod 16 = (sh + (?c + 16 - sh)) mod 16" by (rule mod_add_right_eq)
  then have t: "(sh + ?t) mod 16 = ?c" using c assms(3) by simp
  have "?t < length nows" using assms(2) by simp
  then have "\<exists>t < length nows. (sh + t) mod 16 = ?c" using t by blast
  then show ?thesis
    using assms(3-6) size by (intro watchdog_run_due) (auto simp: due_def)
qed

theorem watchdog_frees_abandoned_witness:
  "let m = \<lparr>slots = [newSlot\<lparr>slot_state := SlotAbandoned\<rparr>, newSlot], cursor = 0, sender_timeout = 0,
             indexMask = 1, poolSize = 2, abandonedRecycleDelay = 100000000,
             waitingForceRecycleTTL = 0, watchdogTick = 0\<rparr>
   in slot_state (slots (fst (snd (watchdog_run (replicate 16 500) (3, (m, empty_heap))))) ! 0) = SlotFree"
proof -
  let ?m = "\<lparr>slots = [newSlot\<lparr>slot_state := SlotAbandoned\<rparr>, newSlot], cursor = 0, sender_timeout = 0,
             indexMask = 1, poolSize = 2, abandonedRecycleDelay = 100000000,
             waitingForceRecycleTTL = 0, watchdogTick = 0\<rparr>"
  have "pool_shape 1 ?m" by (simp add: pool_shape_def mask_eq_exp_minus_1)
  then have "sender_ok ?m" by (auto simp: sender_ok_def slot_ok_def newSlot_def)
  from watchdog_frees_abandoned [OF this, of "replicate 16 500" 3 0 empty_heap] show ?thesis
    by (simp add: Let_def newSlot_def Milliseconds_def)
qed

end
