(* ===== verification/ZFloat.thy ===== *)
theory ZFloat
  imports ZBase "HOL-Library.Log_Nat"
begin

text \<open>
  Go's \<open>float64\<close> arithmetic on finite values: a double is a rational, and every operation is the
  exact result rounded to the nearest double (ties to even), with 53 significant bits and
  gradual underflow at \<open>2^-1074\<close>. Infinities and NaN are not represented: results of
  magnitude \<open>2^1024\<close> and above are outside of the model. The facts that the clients need are
  monotonicity, exactness on small integers and the size of the rounding error.
\<close>

type_synonym f64 = rat

section \<open>Rounding\<close>

definition flog2 :: "rat \<Rightarrow> int" where
  "flog2 x = (let (n, d) = quotient_of x; k = bitlen n - bitlen d
              in if x < 2 powi k then k - 1 else k)"

definition round_even :: "rat \<Rightarrow> int" where
  "round_even x = (let f = \<lfloor>x\<rfloor>; r = x - of_int f
     in if r < 1 / 2 then f else if r > 1 / 2 then f + 1 else if even f then f else f + 1)"

definition quantum :: "rat \<Rightarrow> rat" where
  "quantum x = 2 powi (max (flog2 x - 52) (- 1074))"

definition round_pos :: "rat \<Rightarrow> rat" where
  "round_pos x = quantum x * of_int (round_even (x / quantum x))"

definition f64_round :: "rat \<Rightarrow> f64" where
  "f64_round x = (if x = 0 then 0 else if x > 0 then round_pos x else - round_pos (- x))"

definition fadd :: "f64 \<Rightarrow> f64 \<Rightarrow> f64" where "fadd x y = f64_round (x + y)"
definition fsub :: "f64 \<Rightarrow> f64 \<Rightarrow> f64" where "fsub x y = f64_round (x - y)"
definition fmul :: "f64 \<Rightarrow> f64 \<Rightarrow> f64" where "fmul x y = f64_round (x * y)"
definition fdiv :: "f64 \<Rightarrow> f64 \<Rightarrow> f64" where "fdiv x y = f64_round (x / y)"

text \<open>\<open>int(x)\<close> of a finite double truncates; \<open>math.Ceil\<close> is exact.\<close>

definition trunc :: "f64 \<Rightarrow> int" where
  "trunc x = (if 0 \<le> x then \<lfloor>x\<rfloor> else \<lceil>x\<rceil>)"

section \<open>The binary exponent\<close>

lemma powi2_pos [simp]: "0 < (2 :: rat) powi k"
  by simp

lemma powi2_mono: "k \<le> l \<Longrightarrow> (2 :: rat) powi k \<le> 2 powi l"
  by (rule power_int_increasing) auto

lemma powi2_less: "(2 :: rat) powi k < 2 powi l \<Longrightarrow> k < l"
  using powi2_mono [of l k] by (metis not_le)

lemma of_int_bitlen:
  assumes "0 < (n :: int)"
  shows "2 powi (bitlen n - 1) \<le> (of_int n :: rat)" and "of_int n < (2 :: rat) powi bitlen n"
proof -
  have b: "2 ^ nat (bitlen n - 1) \<le> n" "n < 2 ^ nat (bitlen n)"
    using bitlen_bounds [OF assms] by auto
  have pos: "0 < bitlen n" using assms bitlen_nonneg [of n] bitlen_eq_zero_iff [of n] by linarith
  have "(2 :: rat) powi (bitlen n - 1) = of_int (2 ^ nat (bitlen n - 1))"
    "(2 :: rat) powi bitlen n = of_int (2 ^ nat (bitlen n))"
    using pos by (simp_all add: power_int_def)
  then show "2 powi (bitlen n - 1) \<le> (of_int n :: rat)" "of_int n < (2 :: rat) powi bitlen n"
    using b by (simp_all only: of_int_le_iff of_int_less_iff)
qed

lemma flog2_bounds:
  assumes "0 < x"
  shows "2 powi flog2 x \<le> x" and "x < 2 powi (flog2 x + 1)"
proof -
  obtain n d where q: "quotient_of x = (n, d)" by fastforce
  have d: "0 < d" and x: "x = of_int n / of_int d"
    using quotient_of_denom_pos [OF q] quotient_of_div [OF q] by simp_all
  have n: "0 < n" using assms d x by (simp add: zero_less_divide_iff)
  let ?k = "bitlen n - bitlen d"
  note bn = of_int_bitlen [OF n] and bd = of_int_bitlen [OF d]
  have lower: "2 powi (?k - 1) \<le> x"
  proof -
    have "2 powi (?k - 1) * of_int d \<le> (2 :: rat) powi (?k - 1) * 2 powi bitlen d"
      using bd(2) by (intro mult_left_mono) auto
    also have "\<dots> = 2 powi (bitlen n - 1)" by (simp flip: power_int_add)
    also have "\<dots> \<le> of_int n" by (rule bn(1))
    finally show ?thesis using d by (simp add: x pos_le_divide_eq)
  qed
  have upper: "x < 2 powi (?k + 1)"
  proof -
    have "of_int n < (2 :: rat) powi bitlen n" by (rule bn(2))
    also have "\<dots> = 2 powi (?k + 1) * 2 powi (bitlen d - 1)" by (simp flip: power_int_add)
    also have "\<dots> \<le> 2 powi (?k + 1) * of_int d" using bd(1) by (intro mult_left_mono) auto
    finally show ?thesis using d by (simp add: x pos_divide_less_eq)
  qed
  show "2 powi flog2 x \<le> x" "x < 2 powi (flog2 x + 1)"
    using lower upper by (simp_all add: flog2_def q Let_def not_less)
qed

lemma flog2_mono: "0 < x \<Longrightarrow> x \<le> y \<Longrightarrow> flog2 x \<le> flog2 y"
  using flog2_bounds [of x] flog2_bounds [of y] powi2_less [of "flog2 x" "flog2 y + 1"] by force

section \<open>Rounding is monotone\<close>

lemma round_even_mono:
  assumes "x \<le> y"
  shows "round_even x \<le> round_even y"
proof (cases "\<lfloor>x\<rfloor> = \<lfloor>y\<rfloor>")
  case True
  then show ?thesis using assms by (auto simp: round_even_def Let_def)
next
  case False
  then have "\<lfloor>x\<rfloor> + 1 \<le> \<lfloor>y\<rfloor>" using floor_mono [OF assms] by linarith
  moreover have "round_even x \<le> \<lfloor>x\<rfloor> + 1" "\<lfloor>y\<rfloor> \<le> round_even y" by (simp_all add: round_even_def Let_def)
  ultimately show ?thesis by linarith
qed

lemma round_even_of_int [simp]: "round_even (of_int n) = n"
  by (simp add: round_even_def)

lemma round_even_error: "\<bar>of_int (round_even x) - x\<bar> \<le> 1 / 2"
proof -
  have "of_int \<lfloor>x\<rfloor> \<le> x" "x < of_int \<lfloor>x\<rfloor> + 1" by linarith+
  then show ?thesis by (auto simp: round_even_def Let_def)
qed

lemma quantum_pos [simp]: "0 < quantum x" "0 \<le> quantum x" "quantum x \<noteq> 0"
  by (simp_all add: quantum_def)

lemma powi2_multiple: "l \<le> k \<Longrightarrow> \<exists>n :: int. (2 :: rat) powi k = 2 powi l * of_int n"
proof (rule exI [of _ "2 ^ nat (k - l)"])
  assume "l \<le> k"
  then have "(2 :: rat) powi (k - l) = 2 ^ nat (k - l)" by (simp add: power_int_def)
  then show "(2 :: rat) powi k = 2 powi l * of_int (2 ^ nat (k - l))"
    using power_int_add [of "2 :: rat" l "k - l"] by simp
qed

lemma round_pos_fixes:
  assumes "y = quantum x * of_int n"
  shows "quantum x * of_int (round_even (y / quantum x)) = y"
  using assms quantum_pos [of x] by simp

lemma round_pos_mono:
  assumes "0 < x" and "x \<le> y"
  shows "round_pos x \<le> round_pos y"
proof (cases "max (flog2 x - 52) (- 1074) = max (flog2 y - 52) (- 1074)")
  case True
  then have "quantum x = quantum y" by (simp add: quantum_def)
  then show ?thesis
    using assms(2) by (auto simp: round_pos_def intro!: mult_left_mono round_even_mono divide_right_mono)
next
  case False
  let ?q = "max (flog2 y - 52) (- 1074)"
  have lt: "max (flog2 x - 52) (- 1074) < ?q" "flog2 x < flog2 y" "flog2 y \<ge> - 1021"
    using False flog2_mono [OF assms] by auto
  let ?b = "(2 :: rat) powi flog2 y"
  have xb: "x \<le> ?b"
    using flog2_bounds(2) [OF assms(1)] powi2_mono [of "flog2 x + 1" "flog2 y"] lt by simp
  have by_: "?b \<le> y" using flog2_bounds(1) [of y] assms by simp
  obtain n where n: "?b = quantum x * of_int n"
    using powi2_multiple [of "max (flog2 x - 52) (- 1074)" "flog2 y"] lt by (auto simp: quantum_def)
  obtain n' where n': "?b = quantum y * of_int n'"
    using powi2_multiple [of ?q "flog2 y"] lt by (auto simp: quantum_def)
  have "round_pos x \<le> quantum x * of_int (round_even (?b / quantum x))"
    using xb unfolding round_pos_def
    by (intro mult_left_mono) (auto intro!: round_even_mono divide_right_mono)
  also have "\<dots> = ?b" by (rule round_pos_fixes [OF n])
  also have "\<dots> = quantum y * of_int (round_even (?b / quantum y))" by (rule round_pos_fixes [OF n', symmetric])
  also have "\<dots> \<le> round_pos y"
    using by_ unfolding round_pos_def
    by (intro mult_left_mono) (auto intro!: round_even_mono divide_right_mono)
  finally show ?thesis .
qed

lemma round_pos_nonneg: "0 < x \<Longrightarrow> 0 \<le> round_pos x"
proof -
  assume "0 < x"
  then have "round_even 0 \<le> round_even (x / quantum x)" by (intro round_even_mono) simp
  then show ?thesis by (simp add: round_pos_def round_even_def)
qed

lemma f64_round_0 [simp]: "f64_round 0 = 0"
  by (simp add: f64_round_def)

lemma f64_round_mono: "x \<le> y \<Longrightarrow> f64_round x \<le> f64_round y"
  using round_pos_mono [of x y] round_pos_mono [of "- y" "- x"]
    round_pos_nonneg [of y] round_pos_nonneg [of "- x"]
  by (auto simp: f64_round_def)

lemma f64_round_nonneg: "0 \<le> x \<Longrightarrow> 0 \<le> f64_round x"
  using f64_round_mono [of 0 x] by simp

section \<open>Exactness and error\<close>

lemma round_pos_of_int:
  assumes "0 < n" and "n < 2 ^ 53"
  shows "round_pos (of_int n) = of_int n"
proof -
  have pos: "0 < (of_int n :: rat)" using assms by simp
  have "(of_int n :: rat) < of_int (2 ^ 53)" using assms(2) by (simp only: of_int_less_iff)
  then have "(2 :: rat) powi flog2 (of_int n) < 2 powi 53"
    using flog2_bounds(1) [OF pos] by simp
  then have "max (flog2 (of_int n) - 52) (- 1074) \<le> 0" using powi2_less by fastforce
  from powi2_multiple [OF this] obtain k :: int where
    k: "(1 :: rat) = quantum (of_int n) * of_int k" by (auto simp: quantum_def)
  then have "(of_int n :: rat) = quantum (of_int n) * of_int (k * n)" by (simp flip: mult.assoc)
  from round_pos_fixes [OF this] show ?thesis by (simp add: round_pos_def)
qed

lemma f64_round_of_int:
  assumes "\<bar>n\<bar> < 2 ^ 53"
  shows "f64_round (of_int n) = of_int n"
  using round_pos_of_int [of n] round_pos_of_int [of "- n"] assms by (auto simp: f64_round_def)

lemma round_pos_error:
  assumes "0 < x"
  shows "\<bar>round_pos x - x\<bar> \<le> quantum x / 2"
proof -
  have "\<bar>round_pos x - x\<bar> = quantum x * \<bar>of_int (round_even (x / quantum x)) - x / quantum x\<bar>"
    using abs_mult [of "quantum x" "of_int (round_even (x / quantum x)) - x / quantum x"]
    by (simp add: round_pos_def right_diff_distrib)
  also have "\<dots> \<le> quantum x * (1 / 2)"
    using round_even_error by (intro mult_left_mono) auto
  finally show ?thesis by simp
qed

lemma f64_round_error:
  assumes "0 \<le> x"
  shows "\<bar>f64_round x - x\<bar> \<le> x / 2 ^ 53 + 2 powi (- 1075)"
proof (cases "x = 0")
  case False
  then have pos: "0 < x" using assms by simp
  have "quantum x \<le> 2 powi (flog2 x - 52) + 2 powi (- 1074)"
    by (cases "flog2 x - 52 \<le> - 1074") (simp_all add: quantum_def max_def)
  also have "(2 :: rat) powi (flog2 x - 52) = 2 powi flog2 x / 2 ^ 52"
    by (simp add: power_int_diff)
  also have "\<dots> \<le> x / 2 ^ 52" using flog2_bounds(1) [OF pos] by (simp add: divide_right_mono)
  finally have "quantum x / 2 \<le> (x / 2 ^ 52 + 2 powi (- 1074)) / 2"
    by (rule divide_right_mono) simp_all
  also have "(2 :: rat) powi (- 1074) = 2 powi (- 1075) * 2"
    using power_int_add [of "2 :: rat" "- 1075" 1] by simp
  also have "(x / 2 ^ 52 + 2 powi (- 1075) * 2) / 2 = x / 2 ^ 53 + 2 powi (- 1075)"
    by (simp add: add_divide_distrib)
  finally show ?thesis using round_pos_error [OF pos] pos by (simp add: f64_round_def)
qed simp

end
