(* ===== verification/ZAoi.thy ===== *)
theory ZAoi
  imports ZFloat
begin

text \<open>
  \<open>zaoi/\<close>: the nine-grid area-of-interest manager. \<open>EntityNode\<close>s live in an explicit heap with
  the node pool beside it; a \<open>*Grid\<close> is its index in \<open>grids\<close>; an \<open>IEntity\<close> is a reference to
  a record that stores what its getters return. Callbacks observe: a call is recorded in
  \<open>trace\<close>. The loops that follow \<open>Next\<close> pointers run with as much fuel as there are nodes and
  answer \<open>None\<close> if that is not enough, which the invariant excludes. \<open>GridID\<close> is a \<open>uint32\<close>:
  \<open>NewStaticAoi\<close> keeps the number of grids within its range, so that it is a natural number
  here. Coordinates are finite doubles (\<open>ZFloat\<close>), products and sums are not fused.
\<close>

section \<open>Data\<close>

type_synonym nref = nat
type_synonym eref = nat

definition InvalidGridID :: nat where "InvalidGridID = 4294967295"

datatype aoi_error = ErrOutOfBounds

definition EntityTypeAll :: int where "EntityTypeAll = 0"

record Vector2 =
  X :: f64
  Y :: f64

definition GetX :: "Vector2 \<Rightarrow> f64" where "GetX v = X v"
definition GetY :: "Vector2 \<Rightarrow> f64" where "GetY v = Y v"

record EntityNode =
  Entity :: "eref option"
  Prev :: "nref option"
  Next :: "nref option"
  GridID :: nat

record IEntity =
  EntityId :: int
  EntityTyp :: int
  Position :: Vector2
  ViewDistance :: f64
  AoiNode :: "nref option"

record Grid =
  head :: "nref option"
  grid_id :: nat
  grid_count :: int

datatype callback = OnEnter | OnLeave

record StaticAoi =
  minX :: f64
  maxX :: f64
  minY :: f64
  maxY :: f64
  grids :: "Grid list"
  gridSize :: f64
  gridX :: int
  gridY :: int
  onEnter :: bool
  onLeave :: bool

type_synonym aoi_event = "callback \<times> eref \<times> eref"

record aoi_world =
  aoi :: StaticAoi
  nodes :: "nref \<Rightarrow> EntityNode"
  nodePool :: "nref list"
  nnext :: nref
  ents :: "eref \<Rightarrow> IEntity"
  trace :: "aoi_event list"

definition upd_ent :: "eref \<Rightarrow> (IEntity \<Rightarrow> IEntity) \<Rightarrow> aoi_world \<Rightarrow> aoi_world" where
  "upd_ent e f w = w\<lparr>ents := (ents w)(e := f (ents w e))\<rparr>"

definition upd_node :: "nref \<Rightarrow> (EntityNode \<Rightarrow> EntityNode) \<Rightarrow> aoi_world \<Rightarrow> aoi_world" where
  "upd_node n f w = w\<lparr>nodes := (nodes w)(n := f (nodes w n))\<rparr>"

definition upd_grid :: "nat \<Rightarrow> (Grid \<Rightarrow> Grid) \<Rightarrow> aoi_world \<Rightarrow> aoi_world" where
  "upd_grid i f w = w\<lparr>aoi := (aoi w)\<lparr>grids := (grids (aoi w))[i := f (grids (aoi w) ! i)]\<rparr>\<rparr>"

definition grid_at :: "aoi_world \<Rightarrow> nat \<Rightarrow> Grid" where
  "grid_at w i = grids (aoi w) ! i"

section \<open>Grid cells\<close>

definition getNode :: "pick \<Rightarrow> aoi_world \<Rightarrow> nref \<times> aoi_world" where
  "getNode pick w =
    (case pick (nodePool w) of
       Some n \<Rightarrow> (n, w\<lparr>nodePool := remove1 n (nodePool w)\<rparr>)
     | None \<Rightarrow> (nnext w, w\<lparr>nodes := (nodes w)(nnext w :=
                 \<lparr>Entity = None, Prev = None, Next = None, GridID = InvalidGridID\<rparr>), nnext := Suc (nnext w)\<rparr>))"

definition putNode :: "nref \<Rightarrow> aoi_world \<Rightarrow> aoi_world" where
  "putNode n w =
    (let w = upd_node n (\<lambda>nd. nd\<lparr>Entity := None, Prev := None, Next := None, GridID := InvalidGridID\<rparr>) w
     in w\<lparr>nodePool := n # nodePool w\<rparr>)"

definition Grid_Add :: "pick \<Rightarrow> nat \<Rightarrow> eref \<Rightarrow> aoi_world \<Rightarrow> aoi_world" where
  "Grid_Add pick g entity w =
    (let (node, w) = getNode pick w;
         w = upd_node node (\<lambda>nd. nd\<lparr>Entity := Some entity, GridID := grid_id (grid_at w g),
                                   Next := head (grid_at w g), Prev := None\<rparr>) w;
         w = (case head (grid_at w g) of
                None \<Rightarrow> w
              | Some first \<Rightarrow> upd_node first (\<lambda>nd. nd\<lparr>Prev := Some node\<rparr>) w);
         w = upd_grid g (\<lambda>gr. gr\<lparr>head := Some node\<rparr>) w;
         w = upd_ent entity (\<lambda>e. e\<lparr>AoiNode := Some node\<rparr>) w
     in upd_grid g (\<lambda>gr. gr\<lparr>grid_count := grid_count gr + 1\<rparr>) w)"

definition Grid_Remove :: "nat \<Rightarrow> eref \<Rightarrow> aoi_world \<Rightarrow> aoi_world" where
  "Grid_Remove g entity w =
    (case AoiNode (ents w entity) of
       None \<Rightarrow> w
     | Some node \<Rightarrow>
        if GridID (nodes w node) \<noteq> grid_id (grid_at w g) then w
        else
         (let w = (case Prev (nodes w node) of
                     Some p \<Rightarrow> upd_node p (\<lambda>nd. nd\<lparr>Next := Next (nodes w node)\<rparr>) w
                   | None \<Rightarrow> upd_grid g (\<lambda>gr. gr\<lparr>head := Next (nodes w node)\<rparr>) w);
              w = (case Next (nodes w node) of
                     Some q \<Rightarrow> upd_node q (\<lambda>nd. nd\<lparr>Prev := Prev (nodes w node)\<rparr>) w
                   | None \<Rightarrow> w);
              w = upd_ent entity (\<lambda>e. e\<lparr>AoiNode := None\<rparr>) w;
              w = upd_grid g (\<lambda>gr. gr\<lparr>grid_count := grid_count gr - 1\<rparr>) w
          in putNode node w))"

section \<open>Construction and geometry\<close>

datatype aoi_panic = PanicGridSize | PanicBounds | PanicDimensions | PanicTooManyGrids

definition NewStaticAoi :: "f64 \<Rightarrow> f64 \<Rightarrow> f64 \<Rightarrow> f64 \<Rightarrow> f64 \<Rightarrow> aoi_panic + StaticAoi" where
  "NewStaticAoi mnX mxX mnY mxY gsize =
    (if gsize \<le> 0 then Inl PanicGridSize
     else if mnX \<ge> mxX \<or> mnY \<ge> mxY then Inl PanicBounds
     else
      (let gX = \<lceil>fdiv (fsub mxX mnX) gsize\<rceil>;
           gY = \<lceil>fdiv (fsub mxY mnY) gsize\<rceil>
       in if gX \<le> 0 \<or> gY \<le> 0 then Inl PanicDimensions
          else
           (let total = gX * gY
            in if total > int InvalidGridID then Inl PanicTooManyGrids
               else Inr \<lparr>minX = mnX, maxX = mxX, minY = mnY, maxY = mxY,
                  grids = map (\<lambda>i. \<lparr>head = None, grid_id = i, grid_count = 0\<rparr>) [0..<nat total],
                  gridSize = gsize, gridX = gX, gridY = gY, onEnter = False, onLeave = False\<rparr>)))"

definition gridByID :: "StaticAoi \<Rightarrow> nat \<Rightarrow> nat option" where
  "gridByID m i = (if i = InvalidGridID \<or> i \<ge> length (grids m) then None else Some i)"

definition GetGridBounds :: "StaticAoi \<Rightarrow> nat \<Rightarrow> f64 \<times> f64 \<times> f64 \<times> f64" where
  "GetGridBounds m i =
    (let x = int i mod gridX m;
         y = int i div gridX m;
         gMinX = fadd (minX m) (fmul (of_int x) (gridSize m));
         gMinY = fadd (minY m) (fmul (of_int y) (gridSize m))
     in (gMinX, fadd gMinX (gridSize m), gMinY, fadd gMinY (gridSize m)))"

text \<open>The cell index on one axis, before clamping.\<close>

definition axis_cell :: "f64 \<Rightarrow> f64 \<Rightarrow> f64 \<Rightarrow> int" where
  "axis_cell mn gsize p = trunc (fdiv (fsub p mn) gsize)"

definition GetGridByPos :: "StaticAoi \<Rightarrow> Vector2 \<Rightarrow> nat option" where
  "GetGridByPos m pos =
    (let px = GetX pos; py = GetY pos
     in if px < minX m \<or> px \<ge> maxX m \<or> py < minY m \<or> py \<ge> maxY m then None
        else
         (let x = axis_cell (minX m) (gridSize m) px;
              y = axis_cell (minY m) (gridSize m) py;
              x = (if x \<ge> gridX m then gridX m - 1 else x);
              y = (if y \<ge> gridY m then gridY m - 1 else y)
          in Some (nat (y * gridX m + x))))"

definition SetCallbacks :: "bool \<Rightarrow> bool \<Rightarrow> StaticAoi \<Rightarrow> StaticAoi" where
  "SetCallbacks enter leave m = m\<lparr>onEnter := enter, onLeave := leave\<rparr>"

definition nineGridRange :: "StaticAoi \<Rightarrow> nat \<Rightarrow> int \<times> int \<times> int \<times> int" where
  "nineGridRange m i =
    (let gid = int i;
         yIdx = gid div gridX m;
         xIdx = gid mod gridX m;
         startX = xIdx - 1;
         startX = (if startX < 0 then 0 else startX);
         endX = xIdx + 1;
         endX = (if endX \<ge> gridX m then gridX m - 1 else endX);
         startY = yIdx - 1;
         startY = (if startY < 0 then 0 else startY);
         endY = yIdx + 1;
         endY = (if endY \<ge> gridY m then gridY m - 1 else endY)
     in (startX, endX, startY, endY))"

section \<open>Notifications\<close>

definition in_view :: "Vector2 \<Rightarrow> f64 \<Rightarrow> f64 \<Rightarrow> f64 \<Rightarrow> bool" where
  "in_view ePos selfX selfY distSq \<longleftrightarrow>
    (let dx = fsub (GetX ePos) selfX; dxSq = fmul dx dx
     in dxSq \<le> distSq \<and> (let dy = fsub (GetY ePos) selfY in fadd dxSq (fmul dy dy) \<le> distSq))"

text \<open>The body of the loop of \<open>notifyGridEntities\<close> for one entity of the cell.\<close>

definition notify_one ::
  "(eref \<Rightarrow> IEntity) \<Rightarrow> callback \<Rightarrow> eref \<Rightarrow> int \<Rightarrow> f64 \<Rightarrow> f64 \<Rightarrow> f64 \<Rightarrow> eref \<Rightarrow> aoi_event list" where
  "notify_one E cb entity selfId selfX selfY viewDistSq other =
    (if EntityId (E other) \<noteq> selfId then
      (let ePos = Position (E other);
           dx = fsub (GetX ePos) selfX;
           dxSq = fmul dx dx
       in if dxSq \<le> viewDistSq then
           (let dy = fsub (GetY ePos) selfY
            in if fadd dxSq (fmul dy dy) \<le> viewDistSq then
                (let otherViewSq = fmul (ViewDistance (E other)) (ViewDistance (E other))
                 in (cb, entity, other)
                    # (if fadd dxSq (fmul dy dy) \<le> otherViewSq then [(cb, other, entity)] else []))
               else [])
          else [])
     else [])"

fun notify_loop :: "nat \<Rightarrow> (nref \<Rightarrow> EntityNode) \<Rightarrow> (eref \<Rightarrow> aoi_event list) \<Rightarrow> nref option
  \<Rightarrow> aoi_event list \<Rightarrow> aoi_event list option" where
  "notify_loop 0 nd f cur t = None"
| "notify_loop (Suc fuel) nd f None t = Some t"
| "notify_loop (Suc fuel) nd f (Some c) t =
    (case Entity (nd c) of
       None \<Rightarrow> None
     | Some e \<Rightarrow> notify_loop fuel nd f (Next (nd c)) (t @ f e))"

definition notifyGridEntities ::
  "eref \<Rightarrow> int \<Rightarrow> f64 \<Rightarrow> f64 \<Rightarrow> f64 \<Rightarrow> int \<Rightarrow> callback \<Rightarrow> aoi_world \<Rightarrow> aoi_world option" where
  "notifyGridEntities entity selfId selfX selfY viewDistSq gridIdx cb w =
    map_option (\<lambda>t. w\<lparr>trace := t\<rparr>)
      (notify_loop (Suc (nnext w)) (nodes w)
         (notify_one (ents w) cb entity selfId selfX selfY viewDistSq)
         (head (grid_at w (nat gridIdx))) (trace w))"

definition notifyNearby :: "eref \<Rightarrow> callback \<Rightarrow> aoi_world \<Rightarrow> aoi_world option" where
  "notifyNearby entity cb w =
    (case AoiNode (ents w entity) of
       None \<Rightarrow> Some w
     | Some node \<Rightarrow>
        (let selfId = EntityId (ents w entity);
             selfX = GetX (Position (ents w entity));
             selfY = GetY (Position (ents w entity));
             viewDistSq = fmul (ViewDistance (ents w entity)) (ViewDistance (ents w entity));
             (startX, endX, startY, endY) = nineGridRange (aoi w) (GridID (nodes w node))
         in forM [startY..endY] (\<lambda>y.
              forM [startX..endX] (\<lambda>x.
                notifyGridEntities entity selfId selfX selfY viewDistSq (y * gridX (aoi w) + x) cb)) w))"

definition in_range :: "int \<times> int \<times> int \<times> int \<Rightarrow> int \<Rightarrow> int \<Rightarrow> bool" where
  "in_range r x y = (case r of (startX, endX, startY, endY) \<Rightarrow>
     x \<ge> startX \<and> x \<le> endX \<and> y \<ge> startY \<and> y \<le> endY)"

text \<open>One of the two notification loops of \<open>handleCrossGridMove\<close>: the cells of range \<open>r\<close> that
  are not in range \<open>r'\<close>.\<close>

definition notifyRange ::
  "eref \<Rightarrow> int \<Rightarrow> f64 \<Rightarrow> f64 \<Rightarrow> f64 \<Rightarrow> int \<times> int \<times> int \<times> int \<Rightarrow> int \<times> int \<times> int \<times> int \<Rightarrow> callback
   \<Rightarrow> aoi_world \<Rightarrow> aoi_world option" where
  "notifyRange entity selfId selfX selfY viewDistSq r r' cb w =
    (case r of (startX, endX, startY, endY) \<Rightarrow>
       forM [startY..endY] (\<lambda>y.
         forM [startX..endX] (\<lambda>x w.
           if in_range r' x y then Some w
           else notifyGridEntities entity selfId selfX selfY viewDistSq (y * gridX (aoi w) + x) cb w)) w)"

definition handleCrossGridMove ::
  "pick \<Rightarrow> eref \<Rightarrow> nat \<Rightarrow> nat \<Rightarrow> Vector2 \<Rightarrow> aoi_world \<Rightarrow> aoi_world option" where
  "handleCrossGridMove pick entity oldGrid newGrid newPos w =
    (let oldR = nineGridRange (aoi w) (grid_id (grid_at w oldGrid));
         newR = nineGridRange (aoi w) (grid_id (grid_at w newGrid));
         selfId = EntityId (ents w entity);
         viewDistSq = fmul (ViewDistance (ents w entity)) (ViewDistance (ents w entity))
     in Option.bind
          (if onLeave (aoi w)
           then notifyRange entity selfId (GetX (Position (ents w entity))) (GetY (Position (ents w entity)))
                  viewDistSq oldR newR OnLeave w
           else Some w)
          (\<lambda>w. let w = Grid_Remove oldGrid entity w;
                   w = upd_ent entity (\<lambda>e. e\<lparr>Position := newPos\<rparr>) w;
                   w = Grid_Add pick newGrid entity w
               in if onEnter (aoi w)
                  then notifyRange entity selfId (GetX newPos) (GetY newPos) viewDistSq newR oldR OnEnter w
                  else Some w))"

section \<open>Operations\<close>

text \<open>\<open>None\<close> outside: the call does not return; inside: \<open>nil\<close>, no error.\<close>

definition AddEntity :: "pick \<Rightarrow> eref \<Rightarrow> aoi_world \<Rightarrow> (aoi_error option \<times> aoi_world) option" where
  "AddEntity pick entity w =
    (case GetGridByPos (aoi w) (Position (ents w entity)) of
       None \<Rightarrow> Some (Some ErrOutOfBounds, w)
     | Some grid \<Rightarrow>
        (let w = Grid_Add pick grid entity w
         in map_option (\<lambda>w. (None, w))
              (if onEnter (aoi w) then notifyNearby entity OnEnter w else Some w)))"

definition RemoveEntity :: "eref \<Rightarrow> aoi_world \<Rightarrow> aoi_world option" where
  "RemoveEntity entity w =
    (case AoiNode (ents w entity) of
       None \<Rightarrow> Some w
     | Some node \<Rightarrow>
        (case gridByID (aoi w) (GridID (nodes w node)) of
           None \<Rightarrow> Some w
         | Some grid \<Rightarrow>
            map_option (Grid_Remove grid entity)
              (if onLeave (aoi w) then notifyNearby entity OnLeave w else Some w)))"

definition UpdateEntity ::
  "pick \<Rightarrow> eref \<Rightarrow> Vector2 \<Rightarrow> aoi_world \<Rightarrow> (aoi_error option \<times> aoi_world) option" where
  "UpdateEntity pick entity newPos w =
    (case GetGridByPos (aoi w) newPos of
       None \<Rightarrow> Some (Some ErrOutOfBounds, w)
     | Some newGrid \<Rightarrow>
        (let oldGrid = (case AoiNode (ents w entity) of
                          None \<Rightarrow> None
                        | Some node \<Rightarrow> gridByID (aoi w) (GridID (nodes w node)))
         in map_option (\<lambda>w. (None, w))
             (case oldGrid of
                Some og \<Rightarrow>
                 if grid_id (grid_at w og) = grid_id (grid_at w newGrid)
                 then Some (upd_ent entity (\<lambda>e. e\<lparr>Position := newPos\<rparr>) w)
                 else if onEnter (aoi w) \<or> onLeave (aoi w)
                 then handleCrossGridMove pick entity og newGrid newPos w
                 else Some (Grid_Add pick newGrid entity
                        (upd_ent entity (\<lambda>e. e\<lparr>Position := newPos\<rparr>) (Grid_Remove og entity w)))
              | None \<Rightarrow>
                 (let w = upd_ent entity (\<lambda>e. e\<lparr>Position := newPos\<rparr>) w;
                      w = Grid_Add pick newGrid entity w
                  in if onEnter (aoi w) then notifyNearby entity OnEnter w else Some w))))"

fun nearby_loop :: "nat \<Rightarrow> (nref \<Rightarrow> EntityNode) \<Rightarrow> (eref \<Rightarrow> bool) \<Rightarrow> nref option
  \<Rightarrow> eref list \<Rightarrow> eref list option" where
  "nearby_loop 0 nd P cur buf = None"
| "nearby_loop (Suc fuel) nd P None buf = Some buf"
| "nearby_loop (Suc fuel) nd P (Some c) buf =
    (case Entity (nd c) of
       None \<Rightarrow> None
     | Some e \<Rightarrow> nearby_loop fuel nd P (Next (nd c)) (if P e then buf @ [e] else buf))"

definition GetNearbyEntitiesByType :: "eref \<Rightarrow> int \<Rightarrow> aoi_world \<Rightarrow> eref list option" where
  "GetNearbyEntitiesByType entity entityType w =
    (let resultBuf = []
     in case AoiNode (ents w entity) of
          None \<Rightarrow> Some resultBuf
        | Some node \<Rightarrow>
           (let selfId = EntityId (ents w entity);
                selfX = GetX (Position (ents w entity));
                selfY = GetY (Position (ents w entity));
                viewDistSq = fmul (ViewDistance (ents w entity)) (ViewDistance (ents w entity));
                (startX, endX, startY, endY) = nineGridRange (aoi w) (GridID (nodes w node));
                filterAll = (entityType = EntityTypeAll)
            in forM [startY..endY] (\<lambda>y.
                 forM [startX..endX] (\<lambda>x.
                   nearby_loop (Suc (nnext w)) (nodes w)
                     (\<lambda>e. EntityId (ents w e) \<noteq> selfId \<and> (filterAll \<or> EntityTyp (ents w e) = entityType)
                          \<and> in_view (Position (ents w e)) selfX selfY viewDistSq)
                     (head (grid_at w (nat (y * gridX (aoi w) + x)))))) resultBuf))"

definition GetNearbyEntities :: "eref \<Rightarrow> aoi_world \<Rightarrow> eref list option" where
  "GetNearbyEntities entity w = GetNearbyEntitiesByType entity EntityTypeAll w"

record grid_stats =
  total_entities :: int
  total_grids :: int
  stat_grid_size :: f64
  min_entities_per_grid :: int
  max_entities_per_grid :: int
  avg_entities_per_grid :: f64

definition GetGridStats :: "StaticAoi \<Rightarrow> grid_stats" where
  "GetGridStats m =
    (let (totalEntities, minPerGrid, maxPerGrid) =
           fold (\<lambda>grid (total, mn, mx).
               let cnt = grid_count grid
               in (total + cnt, if cnt < mn then cnt else mn, if cnt > mx then cnt else mx))
             (grids m) (0, 2147483647, 0);
         totalGrids = gridX m * gridY m
     in \<lparr>total_entities = totalEntities, total_grids = totalGrids, stat_grid_size = gridSize m,
         min_entities_per_grid = minPerGrid, max_entities_per_grid = maxPerGrid,
         avg_entities_per_grid = fdiv (of_int totalEntities) (of_int totalGrids)\<rparr>)"

section \<open>Zones\<close>

datatype ZoneType = ZoneTypeStatic | ZoneTypeDynamic | ZoneTypeOther int

record Zone =
  ZoneId :: int
  ZoneName :: string
  ZType :: ZoneType
  Bounds :: "f64 \<times> f64 \<times> f64 \<times> f64"
  ZoneAoi :: "StaticAoi option"

record WorldManager =
  Zones :: "int \<rightharpoonup> Zone"
  DynamicZones :: "int \<rightharpoonup> Zone"

definition NewWorldManager :: WorldManager where
  "NewWorldManager = \<lparr>Zones = Map.empty, DynamicZones = Map.empty\<rparr>"

definition AddZone :: "Zone option \<Rightarrow> WorldManager \<Rightarrow> WorldManager" where
  "AddZone zone w =
    (case zone of
       None \<Rightarrow> w
     | Some z \<Rightarrow>
        (case ZType z of
           ZoneTypeDynamic \<Rightarrow> w\<lparr>DynamicZones := (DynamicZones w)(ZoneId z \<mapsto> z)\<rparr>
         | ZoneTypeStatic \<Rightarrow> w\<lparr>Zones := (Zones w)(ZoneId z \<mapsto> z)\<rparr>
         | ZoneTypeOther _ \<Rightarrow> w))"

section \<open>Doubly linked lists\<close>

fun dll :: "(nref \<Rightarrow> EntityNode) \<Rightarrow> nref option \<Rightarrow> nref option \<Rightarrow> nref list \<Rightarrow> bool" where
  "dll nd p c [] \<longleftrightarrow> c = None"
| "dll nd p c (n # ns) \<longleftrightarrow> c = Some n \<and> Prev (nd n) = p \<and> dll nd (Some n) (Next (nd n)) ns"

lemma dll_cong:
  "(\<And>n. n \<in> set ns \<Longrightarrow> Prev (nd' n) = Prev (nd n) \<and> Next (nd' n) = Next (nd n)) \<Longrightarrow>
   dll nd' p c ns = dll nd p c ns"
  by (induction ns arbitrary: p c) auto

text \<open>Only the first node's \<open>Prev\<close> pointer refers to what precedes the list.\<close>

lemma dll_relink:
  assumes "dll nd p c ns" and "distinct ns"
    and "\<And>n. n \<in> set ns \<Longrightarrow> Next (nd' n) = Next (nd n)"
    and "\<And>n. n \<in> set ns \<Longrightarrow> Prev (nd' n) = (if c = Some n then q else Prev (nd n))"
  shows "dll nd' q c ns"
proof (cases ns)
  case (Cons n ms)
  have c: "c = Some n" using assms(1) Cons by simp
  have "dll nd' (Some n) (Next (nd n)) ms = dll nd (Some n) (Next (nd n)) ms"
    using assms(2-4) Cons c by (intro dll_cong) auto
  then show ?thesis using assms Cons c by auto
qed (use assms(1) in simp)

lemma dll_neighbours:
  assumes "dll nd p c (xs @ n # ys)"
  shows "Prev (nd n) = (if xs = [] then p else Some (last xs))"
    and "Next (nd n) = (if ys = [] then None else Some (hd ys))"
  using assms by (induction xs arbitrary: p c) (auto, (cases ys; simp)+)

lemma dll_unlink:
  assumes "dll nd p c (xs @ n # ys)" and "distinct (xs @ n # ys)"
    and "\<And>m. m \<in> set (xs @ ys) \<Longrightarrow> Next (nd' m) = (if xs \<noteq> [] \<and> m = last xs then Next (nd n) else Next (nd m))"
    and "\<And>m. m \<in> set (xs @ ys) \<Longrightarrow> Prev (nd' m) = (if ys \<noteq> [] \<and> m = hd ys then Prev (nd n) else Prev (nd m))"
  shows "dll nd' p (if xs = [] then Next (nd n) else c) (xs @ ys)"
  using assms
proof (induction xs arbitrary: p c)
  case Nil
  have tail: "dll nd (Some n) (Next (nd n)) ys" "Prev (nd n) = p" using Nil.prems(1) by auto
  have first: "Next (nd n) = (if ys = [] then None else Some (hd ys))"
    using dll_neighbours(2) [of nd p c "[]" n ys] Nil.prems(1) by simp
  have "dll nd' p (Next (nd n)) ys"
  proof (rule dll_relink [OF tail(1)])
    show "distinct ys" using Nil.prems(2) by simp
    show "Next (nd' m) = Next (nd m)" if "m \<in> set ys" for m using Nil.prems(3) that by simp
    show "Prev (nd' m) = (if Next (nd n) = Some m then p else Prev (nd m))" if "m \<in> set ys" for m
      using Nil.prems(4) [of m] that tail(2) first by (cases ys) auto
  qed
  then show ?case by simp
next
  case (Cons x xs)
  have x: "c = Some x" "Prev (nd x) = p" "dll nd (Some x) (Next (nd x)) (xs @ n # ys)"
    using Cons.prems(1) by auto
  have d: "x \<notin> set xs" "x \<notin> set ys" "x \<noteq> n" using Cons.prems(2) by auto
  have "dll nd' (Some x) (if xs = [] then Next (nd n) else Next (nd x)) (xs @ ys)"
  proof (rule Cons.IH [OF x(3)])
    show "distinct (xs @ n # ys)" using Cons.prems(2) by simp
    show "Next (nd' m) = (if xs \<noteq> [] \<and> m = last xs then Next (nd n) else Next (nd m))" if "m \<in> set (xs @ ys)" for m
      using Cons.prems(3) [of m] that d by auto
    show "Prev (nd' m) = (if ys \<noteq> [] \<and> m = hd ys then Prev (nd n) else Prev (nd m))" if "m \<in> set (xs @ ys)" for m
      using Cons.prems(4) [of m] that by auto
  qed
  moreover have "Next (nd' x) = (if xs = [] then Next (nd n) else Next (nd x))"
    using Cons.prems(3) [of x] d by (auto dest: last_in_set)
  moreover have "Prev (nd' x) = p"
    using Cons.prems(4) [of x] d x(2) by (auto dest: hd_in_set)
  ultimately show ?case using x(1) by simp
qed

section \<open>The invariant\<close>

definition aoi_shape :: "StaticAoi \<Rightarrow> bool" where
  "aoi_shape m \<longleftrightarrow> 0 < gridX m \<and> 0 < gridY m \<and> int (length (grids m)) = gridX m * gridY m
     \<and> length (grids m) \<le> InvalidGridID \<and> (\<forall>i < length (grids m). grid_id (grids m ! i) = i)
     \<and> 0 < gridSize m \<and> minX m < maxX m \<and> minY m < maxY m"

definition cell_ok :: "aoi_world \<Rightarrow> nat \<Rightarrow> nref list \<Rightarrow> bool" where
  "cell_ok w i ns \<longleftrightarrow> dll (nodes w) None (head (grid_at w i)) ns \<and> distinct ns
     \<and> grid_count (grid_at w i) = int (length ns)
     \<and> (\<forall>n \<in> set ns. GridID (nodes w n) = i \<and> n < nnext w \<and> n \<notin> set (nodePool w)
          \<and> (\<exists>e. Entity (nodes w n) = Some e \<and> AoiNode (ents w e) = Some n))"

definition links_ok :: "aoi_world \<Rightarrow> (nat \<Rightarrow> nref list) \<Rightarrow> bool" where
  "links_ok w L \<longleftrightarrow> (\<forall>e n. AoiNode (ents w e) = Some n \<longrightarrow> Entity (nodes w n) = Some e
     \<and> GridID (nodes w n) < length (grids (aoi w)) \<and> n \<in> set (L (GridID (nodes w n))))"

text \<open>\<open>L i\<close> is the list of nodes of cell \<open>i\<close>.\<close>

definition aoi_rep :: "aoi_world \<Rightarrow> (nat \<Rightarrow> nref list) \<Rightarrow> bool" where
  "aoi_rep w L \<longleftrightarrow> aoi_shape (aoi w) \<and> (\<forall>i < length (grids (aoi w)). cell_ok w i (L i))
     \<and> links_ok w L \<and> distinct (nodePool w) \<and> (\<forall>n \<in> set (nodePool w). n < nnext w)"

definition aoi_ok :: "aoi_world \<Rightarrow> bool" where
  "aoi_ok w \<longleftrightarrow> (\<exists>L. aoi_rep w L)"

text \<open>The abstract state: in which cell an entity is.\<close>

definition loc :: "aoi_world \<Rightarrow> eref \<Rightarrow> nat option" where
  "loc w e = map_option (\<lambda>n. GridID (nodes w n)) (AoiNode (ents w e))"

lemmas aoi_upd_defs [aoi_simps] = upd_ent_def upd_node_def upd_grid_def grid_at_def

lemma aoi_rep_trace [simp]: "aoi_rep (w\<lparr>trace := t\<rparr>) L = aoi_rep w L"
  by (simp add: aoi_rep_def cell_ok_def links_ok_def grid_at_def)

lemma aoi_rep_move [simp]:
  "aoi_rep (upd_ent e (\<lambda>x. x\<lparr>Position := p\<rparr>) w) L = aoi_rep w L"
proof -
  have "AoiNode (ents (upd_ent e (\<lambda>x. x\<lparr>Position := p\<rparr>) w) a) = AoiNode (ents w a)" for a
    by (simp add: upd_ent_def)
  then show ?thesis by (simp add: aoi_rep_def cell_ok_def links_ok_def grid_at_def upd_ent_def)
qed

lemma loc_trace [simp]: "loc (w\<lparr>trace := t\<rparr>) = loc w"
  by (simp add: loc_def fun_eq_iff)

lemma loc_move [simp]: "loc (upd_ent e (\<lambda>x. x\<lparr>Position := p\<rparr>) w) = loc w"
  by (simp add: loc_def upd_ent_def fun_eq_iff)

lemma cell_disjoint:
  "cell_ok w i ns \<Longrightarrow> cell_ok w j ms \<Longrightarrow> n \<in> set ns \<Longrightarrow> n \<in> set ms \<Longrightarrow> i = j"
  by (auto simp: cell_ok_def)

lemma aoi_shape_upd:
  assumes "aoi_shape m" and "grid_id x = grid_id (grids m ! g)"
  shows "aoi_shape (m\<lparr>grids := (grids m)[g := x]\<rparr>)"
proof -
  have "grid_id ((grids m)[g := x] ! i) = grid_id (grids m ! i)" if "i < length (grids m)" for i
    using assms(2) that by (cases "i = g") auto
  then show ?thesis using assms(1) by (simp add: aoi_shape_def)
qed

section \<open>Adding to a cell\<close>

lemma getNode_fresh:
  assumes "aoi_rep w L" and "pick_ok pick" and "getNode pick w = (n, w1)"
  shows "aoi w1 = aoi w" "ents w1 = ents w" "trace w1 = trace w" "n < nnext w1" "nnext w \<le> nnext w1"
    "n \<notin> set (nodePool w1)" "set (nodePool w1) \<subseteq> set (nodePool w)" "distinct (nodePool w1)"
    "m \<noteq> n \<Longrightarrow> nodes w1 m = nodes w m" "i < length (grids (aoi w)) \<Longrightarrow> n \<notin> set (L i)"
    "AoiNode (ents w e) \<noteq> Some n"
proof -
  have fresh: "n \<in> set (nodePool w) \<or> n = nnext w"
    using assms(2,3) by (auto simp: getNode_def pick_ok_def split: option.splits)
  show out: "i < length (grids (aoi w)) \<Longrightarrow> n \<notin> set (L i)" for i
    using assms(1) fresh by (fastforce simp: aoi_rep_def cell_ok_def)
  then show "AoiNode (ents w e) \<noteq> Some n"
    using assms(1) by (auto simp: aoi_rep_def links_ok_def)
qed (use assms in \<open>auto simp: getNode_def pick_ok_def aoi_rep_def split: option.splits dest: notin_set_remove1\<close>)

definition added_nodes :: "nref \<Rightarrow> eref \<Rightarrow> nat \<Rightarrow> nref option \<Rightarrow> (nref \<Rightarrow> EntityNode) \<Rightarrow> nref \<Rightarrow> EntityNode" where
  "added_nodes n e g h nd =
    (let nd = nd(n := (nd n)\<lparr>Entity := Some e, GridID := g, Next := h, Prev := None\<rparr>)
     in case h of None \<Rightarrow> nd | Some f \<Rightarrow> nd(f := (nd f)\<lparr>Prev := Some n\<rparr>))"

lemma Grid_Add_fields:
  assumes "getNode pick w = (n, w1)" and "aoi w1 = aoi w" and "g < length (grids (aoi w))"
  shows "nodes (Grid_Add pick g e w) = added_nodes n e (grid_id (grid_at w g)) (head (grid_at w g)) (nodes w1)"
    and "nodePool (Grid_Add pick g e w) = nodePool w1" and "nnext (Grid_Add pick g e w) = nnext w1"
    and "ents (Grid_Add pick g e w) = (ents w1)(e := (ents w1 e)\<lparr>AoiNode := Some n\<rparr>)"
    and "trace (Grid_Add pick g e w) = trace w1"
    and "aoi (Grid_Add pick g e w) = (aoi w)\<lparr>grids := (grids (aoi w))[g := (grid_at w g)\<lparr>head := Some n,
           grid_count := grid_count (grid_at w g) + 1\<rparr>]\<rparr>"
  using assms
  by (simp_all add: Grid_Add_def Let_def added_nodes_def aoi_simps EntityNode.defs split: option.splits)

lemma added_nodes_dll:
  assumes "dll nd None h ns" and "distinct ns" and "n \<notin> set ns"
  shows "dll (added_nodes n e g h nd) None (Some n) (n # ns)"
proof -
  have hn: "h \<noteq> Some n" using assms(1,3) by (cases ns) auto
  have "dll (added_nodes n e g h nd) (Some n) h ns"
    using assms(3) by (intro dll_relink [OF assms(1,2)]) (auto simp: added_nodes_def Let_def split: option.splits)
  then show ?thesis using hn by (auto simp: added_nodes_def Let_def split: option.splits)
qed

lemma added_nodes_other:
  assumes "m \<noteq> n" and "h \<noteq> Some n"
  shows "GridID (added_nodes n e g h nd m) = GridID (nd m)" "Entity (added_nodes n e g h nd m) = Entity (nd m)"
    "Next (added_nodes n e g h nd m) = Next (nd m)" "h \<noteq> Some m \<Longrightarrow> Prev (added_nodes n e g h nd m) = Prev (nd m)"
    and "GridID (added_nodes n e g h nd n) = g" "Entity (added_nodes n e g h nd n) = Some e"
  using assms by (auto simp: added_nodes_def Let_def split: option.splits)

lemma Grid_Add_rep:
  assumes rep: "aoi_rep w L" and pick: "pick_ok pick" and g: "g < length (grids (aoi w))"
    and free: "AoiNode (ents w e) = None" and get: "getNode pick w = (n, w1)"
  shows "aoi_rep (Grid_Add pick g e w) (L(g := n # L g))"
proof -
  note fr = getNode_fresh [OF rep pick get]
  note f = Grid_Add_fields [OF get fr(1) g, of e]
  let ?w = "Grid_Add pick g e w" and ?h = "head (grid_at w g)"
  have shape: "aoi_shape (aoi w)" and cells: "\<And>i. i < length (grids (aoi w)) \<Longrightarrow> cell_ok w i (L i)"
    and links: "links_ok w L" using rep by (simp_all add: aoi_rep_def)
  have gid: "grid_id (grid_at w g) = g" using shape g by (simp add: aoi_shape_def grid_at_def)
  have hg: "?h = Some m \<Longrightarrow> m \<in> set (L g)" for m
    using cells [OF g] by (cases "L g") (auto simp: cell_ok_def)
  have hn: "?h \<noteq> Some n" using hg fr(10) [OF g] by auto
  have nd: "nodes ?w = added_nodes n e g ?h (nodes w1)" using f(1) gid by simp
  note oth = added_nodes_other [OF _ hn, of _ e g "nodes w1", folded nd]
  have same: "dll (nodes w1) p c ns = dll (nodes w) p c ns" if "n \<notin> set ns" for p c ns
    using that fr(9) by (intro dll_cong) metis
  have ent: "AoiNode (ents ?w a) = (if a = e then Some n else AoiNode (ents w a))" for a
    by (simp add: f(4) fr(2))
  have old: "GridID (nodes ?w m) = i \<and> m < nnext ?w \<and> m \<notin> set (nodePool ?w)
      \<and> (\<exists>a. Entity (nodes ?w m) = Some a \<and> AoiNode (ents ?w a) = Some m)"
    if i: "i < length (grids (aoi w))" and m: "m \<in> set (L i)" for i m
  proof -
    have mn: "m \<noteq> n" using fr(10) [OF i] m by auto
    obtain a where a: "Entity (nodes w m) = Some a" "AoiNode (ents w a) = Some m" "GridID (nodes w m) = i"
      "m < nnext w" "m \<notin> set (nodePool w)"
      using cells [OF i] m by (auto simp: cell_ok_def)
    then have "a \<noteq> e" using free by auto
    then show ?thesis using a mn oth(1,2) [OF mn] fr(5,7,9) by (auto simp: ent f(2,3))
  qed
  have "cell_ok ?w i ((L(g := n # L g)) i)" if i: "i < length (grids (aoi w))" for i
  proof (cases "i = g")
    case True
    have "dll (nodes ?w) None (Some n) (n # L g)"
      unfolding nd using cells [OF g] fr(10) [OF g] by (intro added_nodes_dll) (simp_all add: same cell_ok_def)
    moreover have "GridID (nodes ?w n) = g" "Entity (nodes ?w n) = Some e"
      using added_nodes_other(5,6) [of "Suc n" n ?h] hn by (simp_all add: nd)
    ultimately show ?thesis
      using True cells [OF g] g fr(4,6,10) old [OF g]
      by (auto simp: cell_ok_def f(2,3,6) grid_at_def ent)
  next
    case False
    have out: "n \<notin> set (L i)" using fr(10) [OF i] .
    have hi: "?h \<noteq> Some m" if "m \<in> set (L i)" for m
      using hg cell_disjoint [OF cells [OF i] cells [OF g]] False that by blast
    have "dll (nodes ?w) None (head (grid_at w i)) (L i) = dll (nodes w1) None (head (grid_at w i)) (L i)"
    proof (rule dll_cong)
      fix m assume m: "m \<in> set (L i)"
      then have "m \<noteq> n" using out by auto
      then show "Prev (nodes ?w m) = Prev (nodes w1 m) \<and> Next (nodes ?w m) = Next (nodes w1 m)"
        using oth(3,4) hi [OF m] by blast
    qed
    then show ?thesis
      using False cells [OF i] i old [OF i] same [OF out]
      by (auto simp: cell_ok_def f(6) grid_at_def)
  qed
  moreover have "links_ok ?w (L(g := n # L g))"
    unfolding links_ok_def
  proof (intro allI impI)
    fix a m assume am: "AoiNode (ents ?w a) = Some m"
    show "Entity (nodes ?w m) = Some a \<and> GridID (nodes ?w m) < length (grids (aoi ?w))
        \<and> m \<in> set ((L(g := n # L g)) (GridID (nodes ?w m)))"
    proof (cases "a = e")
      case True
      then have "m = n" using am by (simp add: ent)
      then show ?thesis using added_nodes_other(5,6) [of "Suc n" n ?h] hn g True by (simp add: nd f(6))
    next
      case False
      then have am': "AoiNode (ents w a) = Some m" using am by (simp add: ent)
      then have "m \<noteq> n" using fr(11) [of a] by auto
      then show ?thesis using links am' oth(1,2) fr(9) by (auto simp: links_ok_def f(6))
    qed
  qed
  moreover have "aoi_shape (aoi ?w)"
    unfolding f(6) using shape by (rule aoi_shape_upd) (simp add: grid_at_def)
  moreover have "\<forall>m \<in> set (nodePool w1). m < nnext w1"
    using rep fr(5,7) by (fastforce simp: aoi_rep_def)
  ultimately show ?thesis using fr(8) by (auto simp: aoi_rep_def f(2,3,6))
qed

section \<open>Removing from a cell\<close>

definition unlinked_nodes :: "nref \<Rightarrow> (nref \<Rightarrow> EntityNode) \<Rightarrow> nref \<Rightarrow> EntityNode" where
  "unlinked_nodes n nd =
    (let p = Prev (nd n); q = Next (nd n);
         nd = (case p of None \<Rightarrow> nd | Some a \<Rightarrow> nd(a := (nd a)\<lparr>Next := q\<rparr>))
     in case q of None \<Rightarrow> nd | Some b \<Rightarrow> nd(b := (nd b)\<lparr>Prev := p\<rparr>))"

lemma Grid_Remove_fields:
  assumes "AoiNode (ents w e) = Some n" and "GridID (nodes w n) = grid_id (grid_at w g)"
    and "Prev (nodes w n) \<noteq> Some n" and "Next (nodes w n) \<noteq> Some n" and "g < length (grids (aoi w))"
  shows "m \<noteq> n \<Longrightarrow> nodes (Grid_Remove g e w) m = unlinked_nodes n (nodes w) m"
    and "nodePool (Grid_Remove g e w) = n # nodePool w" and "nnext (Grid_Remove g e w) = nnext w"
    and "ents (Grid_Remove g e w) = (ents w)(e := (ents w e)\<lparr>AoiNode := None\<rparr>)"
    and "trace (Grid_Remove g e w) = trace w"
    and "aoi (Grid_Remove g e w) = (aoi w)\<lparr>grids := (grids (aoi w))[g := (grid_at w g)\<lparr>
           head := (if Prev (nodes w n) = None then Next (nodes w n) else head (grid_at w g)),
           grid_count := grid_count (grid_at w g) - 1\<rparr>]\<rparr>"
  using assms
  by (auto simp: Grid_Remove_def Let_def unlinked_nodes_def putNode_def aoi_simps split: option.splits)

lemma unlinked_nodes_at:
  "Next (unlinked_nodes n nd m) = (if Prev (nd n) = Some m then Next (nd n) else Next (nd m))"
  "Prev (unlinked_nodes n nd m) = (if Next (nd n) = Some m then Prev (nd n) else Prev (nd m))"
  "GridID (unlinked_nodes n nd m) = GridID (nd m)" "Entity (unlinked_nodes n nd m) = Entity (nd m)"
  by (auto simp: unlinked_nodes_def Let_def split: option.splits)

lemma Grid_Remove_rep:
  assumes rep: "aoi_rep w L" and e: "AoiNode (ents w e) = Some n" and g: "GridID (nodes w n) = g"
  shows "aoi_rep (Grid_Remove g e w) (L(g := remove1 n (L g)))"
proof -
  let ?w = "Grid_Remove g e w" and ?nd = "nodes w"
  have shape: "aoi_shape (aoi w)" and cells: "\<And>i. i < length (grids (aoi w)) \<Longrightarrow> cell_ok w i (L i)"
    and links: "links_ok w L" using rep by (simp_all add: aoi_rep_def)
  have n: "Entity (?nd n) = Some e" "g < length (grids (aoi w))" "n \<in> set (L g)"
    using links e g by (auto simp: links_ok_def)
  then have gid: "grid_id (grid_at w g) = g" using shape by (simp add: aoi_shape_def grid_at_def)
  obtain xs ys where L: "L g = xs @ n # ys" using split_list [OF n(3)] by blast
  have cg: "dll ?nd None (head (grid_at w g)) (xs @ n # ys)" "distinct (xs @ n # ys)"
    using cells [OF n(2)] by (simp_all add: cell_ok_def L)
  have rem: "remove1 n (xs @ n # ys) = xs @ ys" using cg(2) by (simp add: remove1_append)
  note nb = dll_neighbours [OF cg(1)]
  have nn: "Prev (?nd n) \<noteq> Some n" "Next (?nd n) \<noteq> Some n"
    using nb cg(2) by (auto simp: hd_conv_nth last_conv_nth nth_mem split: if_splits)
  note f = Grid_Remove_fields [OF e _ nn n(2), unfolded gid, OF g]
  have ent: "AoiNode (ents ?w a) = (if a = e then None else AoiNode (ents w a))" for a
    by (simp add: f(4))
  have nbin: "Prev (?nd n) = Some m \<Longrightarrow> m \<in> set (L g)" "Next (?nd n) = Some m \<Longrightarrow> m \<in> set (L g)" for m
    using nb by (auto simp: L split: if_splits)
  have old: "GridID (nodes ?w m) = i \<and> m < nnext ?w \<and> m \<notin> set (nodePool ?w)
      \<and> (\<exists>a. Entity (nodes ?w m) = Some a \<and> AoiNode (ents ?w a) = Some m)"
    if i: "i < length (grids (aoi w))" and m: "m \<in> set (L i)" "m \<noteq> n" for i m
  proof -
    obtain a where a: "Entity (?nd m) = Some a" "AoiNode (ents w a) = Some m" "GridID (?nd m) = i"
      "m < nnext w" "m \<notin> set (nodePool w)"
      using cells [OF i] m by (auto simp: cell_ok_def)
    then have "a \<noteq> e" using e m(2) by auto
    then show ?thesis using a m(2) by (auto simp: ent f(1) [OF m(2)] f(2,3) unlinked_nodes_at)
  qed
  have "cell_ok ?w i ((L(g := remove1 n (L g))) i)" if i: "i < length (grids (aoi w))" for i
  proof (cases "i = g")
    case True
    have "dll (nodes ?w) None (if xs = [] then Next (?nd n) else head (grid_at w g)) (xs @ ys)"
    proof (rule dll_unlink [OF cg])
      fix m assume "m \<in> set (xs @ ys)"
      then have "m \<noteq> n" using cg(2) by auto
      then show "Next (nodes ?w m) = (if xs \<noteq> [] \<and> m = last xs then Next (?nd n) else Next (?nd m))"
        "Prev (nodes ?w m) = (if ys \<noteq> [] \<and> m = hd ys then Prev (?nd n) else Prev (?nd m))"
        using nb by (auto simp: f(1) unlinked_nodes_at)
    qed
    moreover have "Prev (?nd n) = None \<longleftrightarrow> xs = []" using nb(1) by auto
    ultimately show ?thesis
      using True cells [OF n(2)] n(2) old [OF n(2)] cg(2)
      by (auto simp: cell_ok_def f(6) grid_at_def rem L)
  next
    case False
    have out: "n \<notin> set (L i)" using cell_disjoint [OF cells [OF i] cells [OF n(2)]] n(3) False by blast
    have "dll (nodes ?w) None (head (grid_at w i)) (L i) = dll ?nd None (head (grid_at w i)) (L i)"
    proof (rule dll_cong)
      fix m assume m: "m \<in> set (L i)"
      then have "m \<noteq> n" "Prev (?nd n) \<noteq> Some m" "Next (?nd n) \<noteq> Some m"
        using out nbin cell_disjoint [OF cells [OF i] cells [OF n(2)] m] False by auto
      then show "Prev (nodes ?w m) = Prev (?nd m) \<and> Next (nodes ?w m) = Next (?nd m)"
        by (simp add: f(1) unlinked_nodes_at)
    qed
    then show ?thesis
      using False cells [OF i] i old [OF i] out by (auto simp: cell_ok_def f(6) grid_at_def)
  qed
  moreover have "links_ok ?w (L(g := remove1 n (L g)))"
    unfolding links_ok_def
  proof (intro allI impI)
    fix a m assume am: "AoiNode (ents ?w a) = Some m"
    then have ae: "a \<noteq> e" and am': "AoiNode (ents w a) = Some m" by (auto simp: ent split: if_splits)
    then have m: "Entity (?nd m) = Some a" "GridID (?nd m) < length (grids (aoi w))" "m \<in> set (L (GridID (?nd m)))"
      using links by (auto simp: links_ok_def)
    then have "m \<noteq> n" using n(1) ae by auto
    then show "Entity (nodes ?w m) = Some a \<and> GridID (nodes ?w m) < length (grids (aoi ?w))
        \<and> m \<in> set ((L(g := remove1 n (L g))) (GridID (nodes ?w m)))"
      using m by (auto simp: f(1,6) unlinked_nodes_at)
  qed
  moreover have "aoi_shape (aoi ?w)"
    unfolding f(6) using shape by (rule aoi_shape_upd) (simp add: grid_at_def)
  moreover have "n \<notin> set (nodePool w)" "n < nnext w" using cells [OF n(2)] n(3) by (auto simp: cell_ok_def)
  ultimately show ?thesis using rep by (auto simp: aoi_rep_def f(2,3,6))
qed

lemma loc_Grid_Add:
  assumes "aoi_rep w L" and "pick_ok pick" and "g < length (grids (aoi w))" and "AoiNode (ents w e) = None"
  shows "loc (Grid_Add pick g e w) = (loc w)(e := Some g)"
proof
  fix a
  obtain n w1 where get: "getNode pick w = (n, w1)" by fastforce
  note fr = getNode_fresh [OF assms(1,2) get] and f = Grid_Add_fields [OF get _ assms(3), of e]
  have gid: "grid_id (grid_at w g) = g"
    using assms(1,3) by (simp add: aoi_rep_def aoi_shape_def grid_at_def)
  have "cell_ok w g (L g)" using assms(1,3) by (simp add: aoi_rep_def)
  then have hn: "head (grid_at w g) \<noteq> Some n" using fr(10) [OF assms(3)] by (cases "L g") (auto simp: cell_ok_def)
  have "GridID (nodes (Grid_Add pick g e w) m) = (if m = n then g else GridID (nodes w m))" for m
    using added_nodes_other(1) [of m n] added_nodes_other(5) [of "Suc n" n] hn fr(9) [of m]
    by (simp add: f(1) fr(1) gid)
  then show "loc (Grid_Add pick g e w) a = ((loc w)(e := Some g)) a"
    using fr(11) [of a] by (cases "AoiNode (ents w a)") (auto simp: loc_def f(4) fr(1,2))
qed

lemma loc_Grid_Remove:
  assumes rep: "aoi_rep w L" and e: "AoiNode (ents w e) = Some n" and g: "GridID (nodes w n) = g"
  shows "loc (Grid_Remove g e w) = (loc w)(e := None)"
proof
  fix a
  have n: "g < length (grids (aoi w))" "n \<in> set (L g)" "Entity (nodes w n) = Some e"
    using rep e g by (auto simp: aoi_rep_def links_ok_def)
  then have gid: "GridID (nodes w n) = grid_id (grid_at w g)"
    using rep g by (simp add: aoi_rep_def aoi_shape_def grid_at_def)
  obtain xs ys where L: "L g = xs @ n # ys" using split_list [OF n(2)] by blast
  have cg: "dll (nodes w) None (head (grid_at w g)) (xs @ n # ys)" "distinct (xs @ n # ys)"
    using rep n(1) by (auto simp: aoi_rep_def cell_ok_def simp flip: L)
  note nb = dll_neighbours [OF cg(1)]
  have nn: "Prev (nodes w n) \<noteq> Some n" "Next (nodes w n) \<noteq> Some n"
    using nb cg(2) by (auto simp: hd_conv_nth last_conv_nth nth_mem split: if_splits)
  note f = Grid_Remove_fields [OF e gid nn n(1)]
  have "AoiNode (ents w a) \<noteq> Some n" if "a \<noteq> e"
    using rep that n(3) by (auto simp: aoi_rep_def links_ok_def)
  then show "loc (Grid_Remove g e w) a = ((loc w)(e := None)) a"
    by (cases "AoiNode (ents w a)") (auto simp: loc_def f(1,4) unlinked_nodes_at)
qed

lemma Grid_frames:
  "Position (ents (Grid_Add pick g e w) a) = Position (ents w a)"
  "Position (ents (Grid_Remove g e w) a) = Position (ents w a)"
  "onEnter (aoi (Grid_Add pick g e w)) = onEnter (aoi w)"
  "onEnter (aoi (Grid_Remove g e w)) = onEnter (aoi w)"
  "length (grids (aoi (Grid_Remove g e w))) = length (grids (aoi w))"
  by (auto simp: Grid_Add_def Grid_Remove_def getNode_def putNode_def aoi_simps Let_def split: option.splits)

section \<open>Positions and cells\<close>

lemma axis_cell_nonneg:
  assumes "mn \<le> p" and "0 < gs"
  shows "0 \<le> axis_cell mn gs p"
proof -
  have "0 \<le> fdiv (fsub p mn) gs"
    using assms by (simp add: fdiv_def fsub_def f64_round_nonneg)
  then show ?thesis by (simp add: axis_cell_def trunc_def)
qed

lemma cell_index_range:
  assumes "0 \<le> x" "x < gX" "0 \<le> y" "y < (gY :: int)"
  shows "0 \<le> y * gX + x" and "y * gX + x < gX * gY"
    and "(y * gX + x) div gX = y" and "(y * gX + x) mod gX = x"
proof -
  show "0 \<le> y * gX + x" using assms by simp
  have "y * gX + x < y * gX + gX" using assms by simp
  also have "\<dots> = (y + 1) * gX" by (simp add: distrib_right)
  also have "\<dots> \<le> gY * gX" using assms by (intro mult_right_mono) auto
  finally show "y * gX + x < gX * gY" by (simp add: mult.commute)
qed (use assms in \<open>simp_all\<close>)

definition clamp_cell :: "int \<Rightarrow> int \<Rightarrow> int" where
  "clamp_cell n x = (if x \<ge> n then n - 1 else x)"

text \<open>The cell coordinates the position maps to.\<close>

definition cell_x :: "StaticAoi \<Rightarrow> Vector2 \<Rightarrow> int" where
  "cell_x m pos = clamp_cell (gridX m) (axis_cell (minX m) (gridSize m) (X pos))"

definition cell_y :: "StaticAoi \<Rightarrow> Vector2 \<Rightarrow> int" where
  "cell_y m pos = clamp_cell (gridY m) (axis_cell (minY m) (gridSize m) (Y pos))"

definition in_bounds :: "StaticAoi \<Rightarrow> Vector2 \<Rightarrow> bool" where
  "in_bounds m pos \<longleftrightarrow> minX m \<le> X pos \<and> X pos < maxX m \<and> minY m \<le> Y pos \<and> Y pos < maxY m"

lemma cell_xy_range:
  assumes "aoi_shape m" and "in_bounds m pos"
  shows "0 \<le> cell_x m pos" "cell_x m pos < gridX m" "0 \<le> cell_y m pos" "cell_y m pos < gridY m"
  using assms axis_cell_nonneg [of "minX m" "X pos" "gridSize m"] axis_cell_nonneg [of "minY m" "Y pos" "gridSize m"]
  by (auto simp: aoi_shape_def in_bounds_def cell_x_def cell_y_def clamp_cell_def)

lemma GetGridByPos_eq:
  "GetGridByPos m pos = (if in_bounds m pos then Some (nat (cell_y m pos * gridX m + cell_x m pos)) else None)"
  by (auto simp: GetGridByPos_def in_bounds_def Let_def GetX_def GetY_def cell_x_def cell_y_def clamp_cell_def)

lemma GetGridByPos_lt:
  assumes "aoi_shape m" and "GetGridByPos m pos = Some g"
  shows "g < length (grids m)"
proof -
  have b: "in_bounds m pos" using assms(2) by (auto simp: GetGridByPos_eq split: if_splits)
  note r = cell_index_range [OF cell_xy_range [OF assms(1) b]]
  have "int (length (grids m)) = gridX m * gridY m" using assms(1) by (simp add: aoi_shape_def)
  then show ?thesis using r(1,2) assms(2) b by (auto simp: GetGridByPos_eq)
qed

lemma NewStaticAoi_shape: "NewStaticAoi a b c d s = Inr m \<Longrightarrow> aoi_shape m"
  by (auto simp: NewStaticAoi_def aoi_shape_def Let_def InvalidGridID_def nat_le_iff zero_less_mult_iff
      split: if_splits)

text \<open>on every world \<open>NewStaticAoi\<close> accepts, and whatever floating-point rounding does,
  \<open>GetGridByPos\<close> finds a cell exactly for the positions within the bounds, and the index it
  computes is always within the grid array (rounding up to the far border is clamped).\<close>

theorem GetGridByPos_total:
  assumes "NewStaticAoi a b c d gsize = Inr m"
  shows "(GetGridByPos m pos = None \<longleftrightarrow> \<not> (a \<le> X pos \<and> X pos < b \<and> c \<le> Y pos \<and> Y pos < d))
         \<and> (\<forall>g. GetGridByPos m pos = Some g \<longrightarrow> g < length (grids m) \<and> grid_id (grids m ! g) = g)"
proof -
  have shape: "aoi_shape m" by (rule NewStaticAoi_shape [OF assms])
  have "minX m = a" "maxX m = b" "minY m = c" "maxY m = d"
    using assms by (auto simp: NewStaticAoi_def Let_def split: if_splits)
  then have "GetGridByPos m pos = None \<longleftrightarrow> \<not> (a \<le> X pos \<and> X pos < b \<and> c \<le> Y pos \<and> Y pos < d)"
    by (simp add: GetGridByPos_eq in_bounds_def)
  then show ?thesis using GetGridByPos_lt [OF shape] shape by (auto simp: aoi_shape_def)
qed

lemma f64_round_numeral [simp]: "numeral k < (2 ^ 53 :: int) \<Longrightarrow> f64_round (numeral k) = numeral k"
  using f64_round_of_int [of "numeral k"] by simp

definition demo_aoi :: StaticAoi where
  "demo_aoi = \<lparr>minX = 0, maxX = 20, minY = 0, maxY = 20,
     grids = map (\<lambda>i. \<lparr>head = None, grid_id = i, grid_count = 0\<rparr>) [0..<4],
     gridSize = 10, gridX = 2, gridY = 2, onEnter = False, onLeave = False\<rparr>"

lemma demo_aoi_new: "NewStaticAoi 0 20 0 20 10 = Inr demo_aoi"
  by (simp add: NewStaticAoi_def demo_aoi_def fdiv_def fsub_def InvalidGridID_def)

theorem GetGridByPos_total_witness:
  "GetGridByPos demo_aoi \<lparr>X = 20, Y = 3\<rparr> = None \<and> GetGridByPos demo_aoi \<lparr>X = 19, Y = 3\<rparr> \<noteq> None"
  using GetGridByPos_total [OF demo_aoi_new, of "\<lparr>X = 20, Y = 3\<rparr>"]
    GetGridByPos_total [OF demo_aoi_new, of "\<lparr>X = 19, Y = 3\<rparr>"] by simp

section \<open>Walking a cell\<close>

definition cell_ents :: "aoi_world \<Rightarrow> nref list \<Rightarrow> eref list" where
  "cell_ents w ns = map (\<lambda>n. the (Entity (nodes w n))) ns"

lemma notify_loop_dll:
  assumes "dll nd p c ns" and "\<forall>n \<in> set ns. Entity (nd n) \<noteq> None" and "length ns < fuel"
  shows "notify_loop fuel nd f c t = Some (t @ concat (map (\<lambda>n. f (the (Entity (nd n)))) ns))"
  using assms
proof (induction ns arbitrary: p c t fuel)
  case Nil
  then show ?case by (cases fuel) auto
next
  case (Cons n ns)
  then show ?case by (cases fuel) auto
qed

lemma nearby_loop_dll:
  assumes "dll nd p c ns" and "\<forall>n \<in> set ns. Entity (nd n) \<noteq> None" and "length ns < fuel"
  shows "nearby_loop fuel nd P c buf = Some (buf @ filter P (map (\<lambda>n. the (Entity (nd n))) ns))"
  using assms
proof (induction ns arbitrary: p c buf fuel)
  case Nil
  then show ?case by (cases fuel) auto
next
  case (Cons n ns)
  then show ?case by (cases fuel) auto
qed

lemma cell_walk:
  assumes "aoi_rep w L" and "i < length (grids (aoi w))"
  shows "dll (nodes w) None (head (grid_at w i)) (L i)" "\<forall>n \<in> set (L i). Entity (nodes w n) \<noteq> None"
    "length (L i) < Suc (nnext w)"
proof -
  have c: "cell_ok w i (L i)" using assms by (simp add: aoi_rep_def)
  then show "dll (nodes w) None (head (grid_at w i)) (L i)" "\<forall>n \<in> set (L i). Entity (nodes w n) \<noteq> None"
    by (auto simp: cell_ok_def)
  have "set (L i) \<subseteq> {..<nnext w}" "distinct (L i)" using c by (auto simp: cell_ok_def)
  then have "length (L i) \<le> card {..<nnext w}" by (metis card_mono distinct_card finite_lessThan)
  then show "length (L i) < Suc (nnext w)" by simp
qed

lemma cell_ents_loc:
  assumes "aoi_rep w L" and "i < length (grids (aoi w))"
  shows "distinct (cell_ents w (L i))" and "set (cell_ents w (L i)) = {e. loc w e = Some i}"
proof -
  have c: "cell_ok w i (L i)" and links: "links_ok w L" using assms by (simp_all add: aoi_rep_def)
  have own: "\<exists>e. Entity (nodes w n) = Some e \<and> AoiNode (ents w e) = Some n" if "n \<in> set (L i)" for n
    using c that by (auto simp: cell_ok_def)
  have "inj_on (\<lambda>n. the (Entity (nodes w n))) (set (L i))"
  proof (rule inj_onI)
    fix n m assume "n \<in> set (L i)" "m \<in> set (L i)" "the (Entity (nodes w n)) = the (Entity (nodes w m))"
    then show "n = m" using own [of n] own [of m] by auto
  qed
  then show "distinct (cell_ents w (L i))"
    using c by (simp add: cell_ents_def distinct_map cell_ok_def)
  show "set (cell_ents w (L i)) = {e. loc w e = Some i}"
  proof (intro equalityI subsetI)
    fix e assume "e \<in> set (cell_ents w (L i))"
    then obtain n where "n \<in> set (L i)" "e = the (Entity (nodes w n))" by (auto simp: cell_ents_def)
    then show "e \<in> {e. loc w e = Some i}" using own [of n] c by (auto simp: loc_def cell_ok_def)
  next
    fix e assume "e \<in> {e. loc w e = Some i}"
    then obtain n where n: "AoiNode (ents w e) = Some n" "GridID (nodes w n) = i" by (auto simp: loc_def)
    then have "n \<in> set (L i)" "Entity (nodes w n) = Some e" using links by (auto simp: links_ok_def)
    then show "e \<in> set (cell_ents w (L i))" by (force simp: cell_ents_def)
  qed
qed

section \<open>The nine cells\<close>

definition near :: "StaticAoi \<Rightarrow> nat \<Rightarrow> nat \<Rightarrow> bool" where
  "near m i j \<longleftrightarrow> \<bar>int i mod gridX m - int j mod gridX m\<bar> \<le> 1 \<and> \<bar>int i div gridX m - int j div gridX m\<bar> \<le> 1"

lemma nine_range:
  assumes "aoi_shape m" and "i < length (grids m)" and "nineGridRange m i = (sx, ex, sy, ey)"
  shows "x \<in> {sx..ex} \<and> y \<in> {sy..ey} \<longleftrightarrow>
     0 \<le> x \<and> x < gridX m \<and> 0 \<le> y \<and> y < gridY m \<and> near m i (nat (y * gridX m + x))"
proof -
  have g: "0 < gridX m" "0 < gridY m" "int (length (grids m)) = gridX m * gridY m"
    using assms(1) by (auto simp: aoi_shape_def)
  then have "int i < gridY m * gridX m" using assms(2) by (simp add: mult.commute)
  moreover have "int i div gridX m * gridX m \<le> int i"
    using g(1) div_mult_mod_eq [of "int i" "gridX m"] pos_mod_sign [of "gridX m" "int i"] by linarith
  ultimately have "int i div gridX m * gridX m < gridY m * gridX m" by linarith
  then have iy: "0 \<le> int i div gridX m" "int i div gridX m < gridY m"
    using g by (simp_all add: pos_imp_zdiv_nonneg_iff mult_less_cancel_right)
  have ix: "0 \<le> int i mod gridX m" "int i mod gridX m < gridX m" using g by simp_all
  have r: "sx = max 0 (int i mod gridX m - 1)" "ex = min (gridX m - 1) (int i mod gridX m + 1)"
    "sy = max 0 (int i div gridX m - 1)" "ey = min (gridY m - 1) (int i div gridX m + 1)"
    using assms(3) by (auto simp: nineGridRange_def Let_def)
  have near: "near m i (nat (y * gridX m + x)) \<longleftrightarrow>
      \<bar>int i mod gridX m - x\<bar> \<le> 1 \<and> \<bar>int i div gridX m - y\<bar> \<le> 1"
    if "0 \<le> x" "x < gridX m" "0 \<le> y" "y < gridY m"
    using cell_index_range [OF that] by (simp add: near_def)
  have "x \<in> {sx..ex} \<and> y \<in> {sy..ey} \<longleftrightarrow>
     (0 \<le> x \<and> x < gridX m \<and> 0 \<le> y \<and> y < gridY m) \<and> \<bar>int i mod gridX m - x\<bar> \<le> 1 \<and> \<bar>int i div gridX m - y\<bar> \<le> 1"
    using ix iy by (simp add: r abs_le_iff) linarith
  then show ?thesis using near by blast
qed

lemma forM_grid:
  assumes "\<And>x y t. x \<in> set xs \<Longrightarrow> y \<in> set ys \<Longrightarrow> f x y (upd t s) = Some (upd (t @ ev x y) s)"
  shows "forM ys (\<lambda>y. forM xs (\<lambda>x. f x y)) (upd t s)
         = Some (upd (t @ concat (map (\<lambda>y. concat (map (\<lambda>x. ev x y) xs)) ys)) s)"
  using assms by (intro forM_trace) auto

lemma nine_cells:
  assumes "aoi_shape m" and "i < length (grids m)" and "nineGridRange m i = (sx, ex, sy, ey)"
  shows "x \<in> {sx..ex} \<Longrightarrow> y \<in> {sy..ey} \<Longrightarrow> nat (y * gridX m + x) < length (grids m)"
    and "(\<Union>y \<in> {sy..ey}. \<Union>x \<in> {sx..ex}. F (nat (y * gridX m + x)))
         = (\<Union>j \<in> {j. j < length (grids m) \<and> near m i j}. F j)"
proof -
  have g: "0 < gridX m" "0 < gridY m" "int (length (grids m)) = gridX m * gridY m"
    using assms(1) by (auto simp: aoi_shape_def)
  show lt: "nat (y * gridX m + x) < length (grids m)" if "x \<in> {sx..ex}" "y \<in> {sy..ey}" for x y
    using nine_range [OF assms, of x y] that cell_index_range [of x "gridX m" y "gridY m"] g(3)
    by (simp add: nat_less_iff)
  show "(\<Union>y \<in> {sy..ey}. \<Union>x \<in> {sx..ex}. F (nat (y * gridX m + x)))
         = (\<Union>j \<in> {j. j < length (grids m) \<and> near m i j}. F j)" (is "?l = ?r")
  proof
    show "?l \<subseteq> ?r" using lt nine_range [OF assms] by blast
    show "?r \<subseteq> ?l"
    proof
      fix z assume "z \<in> ?r"
      then obtain j where j: "j < length (grids m)" "near m i j" "z \<in> F j" by blast
      let ?x = "int j mod gridX m" and ?y = "int j div gridX m"
      have eq: "nat (?y * gridX m + ?x) = j" by simp
      have "int j < gridY m * gridX m" using j(1) g(3) by (simp add: mult.commute)
      moreover have "?y * gridX m \<le> int j"
        using g(1) div_mult_mod_eq [of "int j" "gridX m"] pos_mod_sign [of "gridX m" "int j"] by linarith
      ultimately have "?y * gridX m < gridY m * gridX m" by linarith
      then have "0 \<le> ?x" "?x < gridX m" "0 \<le> ?y" "?y < gridY m"
        using g by (simp_all add: pos_imp_zdiv_nonneg_iff mult_less_cancel_right)
      then have xy: "?x \<in> {sx..ex}" "?y \<in> {sy..ey}"
        using nine_range [OF assms, of ?x ?y] j(2) unfolding eq by blast+
      have z: "z \<in> F (nat (?y * gridX m + ?x))" unfolding eq by (rule j(3))
      show "z \<in> ?l" by (rule UN_I [OF xy(2)], rule UN_I [OF xy(1)], rule z)
    qed
  qed
qed

lemma notifyGridEntities_ok:
  assumes "aoi_rep w L" and "nat k < length (grids (aoi w))"
  shows "notifyGridEntities e sid sx sy v k cb (w\<lparr>trace := t\<rparr>)
         = Some (w\<lparr>trace := t @ concat (map (notify_one (ents w) cb e sid sx sy v) (cell_ents w (L (nat k))))\<rparr>)"
  using notify_loop_dll [OF cell_walk [OF assms]]
  by (simp add: notifyGridEntities_def grid_at_def cell_ents_def comp_def)

lemma loc_bound: "aoi_rep w L \<Longrightarrow> loc w e = Some i \<Longrightarrow> i < length (grids (aoi w))"
  by (auto simp: aoi_rep_def links_ok_def loc_def)

text \<open>The entities that stand in one of the cells \<open>C\<close>.\<close>

definition standing :: "aoi_world \<Rightarrow> (nat \<Rightarrow> bool) \<Rightarrow> eref set" where
  "standing w C = {a. \<exists>j. loc w a = Some j \<and> C j}"

lemma cells_standing:
  assumes "aoi_rep w L"
  shows "(\<Union>j \<in> {j. j < length (grids (aoi w)) \<and> C j}. set (cell_ents w (L j))) = standing w C"
  using cell_ents_loc(2) [OF assms] loc_bound [OF assms] by (auto simp: standing_def)

lemma notifyRange_ok:
  assumes rep: "aoi_rep w L" and i: "i < length (grids (aoi w))" and i': "i' < length (grids (aoi w))"
  shows "\<exists>ev. notifyRange e sid px py v (nineGridRange (aoi w) i) (nineGridRange (aoi w) i') cb w
               = Some (w\<lparr>trace := trace w @ ev\<rparr>)
         \<and> set ev = (\<Union>other \<in> standing w (\<lambda>j. near (aoi w) i j \<and> \<not> near (aoi w) i' j).
                       set (notify_one (ents w) cb e sid px py v other))"
proof -
  let ?m = "aoi w" and ?one = "notify_one (ents w) cb e sid px py v"
  have shape: "aoi_shape ?m" using rep by (simp add: aoi_rep_def)
  obtain sx ex sy ey where r: "nineGridRange ?m i = (sx, ex, sy, ey)" by (metis surj_pair)
  obtain sx' ex' sy' ey' where r': "nineGridRange ?m i' = (sx', ex', sy', ey')" by (metis surj_pair)
  define evj where "evj j = (if near ?m i' j then [] else concat (map ?one (cell_ents w (L j))))" for j
  have mem_evj: "z \<in> set (evj j) \<longleftrightarrow> \<not> near ?m i' j \<and> (\<exists>a \<in> set (cell_ents w (L j)). z \<in> set (?one a))" for z j
    by (simp add: evj_def)
  define ev where "ev = concat (map (\<lambda>y. concat (map (\<lambda>x. evj (nat (y * gridX ?m + x))) [sx..ex])) [sy..ey])"
  have inr: "in_range (sx', ex', sy', ey') x y \<longleftrightarrow> near ?m i' (nat (y * gridX ?m + x))"
    if "x \<in> {sx..ex}" "y \<in> {sy..ey}" for x y
    using nine_range [OF shape i r, of x y] nine_range [OF shape i' r', of x y] that
    by (auto simp: in_range_def)
  let ?f = "\<lambda>x y w. if in_range (sx', ex', sy', ey') x y then Some w
           else notifyGridEntities e sid px py v (y * gridX (aoi w) + x) cb w"
  have "forM [sy..ey] (\<lambda>y. forM [sx..ex] (\<lambda>x. ?f x y)) (w\<lparr>trace := trace w\<rparr>) = Some (w\<lparr>trace := trace w @ ev\<rparr>)"
    unfolding ev_def
    using nine_cells(1) [OF shape i r] inr notifyGridEntities_ok [OF rep]
    by (intro forM_grid [where upd = "\<lambda>t w. w\<lparr>trace := t\<rparr>"]) (simp add: evj_def)
  then have "notifyRange e sid px py v (nineGridRange ?m i) (nineGridRange ?m i') cb w
      = Some (w\<lparr>trace := trace w @ ev\<rparr>)"
    by (simp add: notifyRange_def r r')
  moreover have "set ev = (\<Union>y \<in> {sy..ey}. \<Union>x \<in> {sx..ex}. set (evj (nat (y * gridX ?m + x))))"
    by (simp add: ev_def)
  then have "set ev = (\<Union>j \<in> {j. j < length (grids ?m) \<and> near ?m i j}. set (evj j))"
    by (simp only: nine_cells(2) [OF shape i r, of "\<lambda>j. set (evj j)"])
  then have "set ev = (\<Union>other \<in> (\<Union>j \<in> {j. j < length (grids ?m) \<and> near ?m i j \<and> \<not> near ?m i' j}. set (cell_ents w (L j))). set (?one other))"
    unfolding set_eq_iff UN_iff mem_evj by blast
  then have "set ev = (\<Union>other \<in> standing w (\<lambda>j. near ?m i j \<and> \<not> near ?m i' j). set (?one other))"
    by (simp only: cells_standing [OF rep])
  ultimately show ?thesis by blast
qed

lemma notifyNearby_ok:
  assumes rep: "aoi_rep w L" and i: "loc w e = Some i"
  shows "\<exists>ev. notifyNearby e cb w = Some (w\<lparr>trace := trace w @ ev\<rparr>)
         \<and> set ev = (\<Union>other \<in> standing w (near (aoi w) i). set (notify_one (ents w) cb e (EntityId (ents w e))
              (X (Position (ents w e))) (Y (Position (ents w e)))
              (fmul (ViewDistance (ents w e)) (ViewDistance (ents w e))) other))"
proof -
  define sid px py v where c: "sid = EntityId (ents w e)" "px = X (Position (ents w e))"
    "py = Y (Position (ents w e))" "v = fmul (ViewDistance (ents w e)) (ViewDistance (ents w e))"
  let ?m = "aoi w" and ?one = "notify_one (ents w) cb e sid px py v"
  have shape: "aoi_shape ?m" using rep by (simp add: aoi_rep_def)
  note il = loc_bound [OF rep i]
  obtain n where n: "AoiNode (ents w e) = Some n" "GridID (nodes w n) = i" using i by (auto simp: loc_def)
  obtain sx ex sy ey where r: "nineGridRange ?m i = (sx, ex, sy, ey)" by (metis surj_pair)
  define ev where "ev = concat (map (\<lambda>y. concat (map (\<lambda>x. concat (map ?one (cell_ents w (L (nat (y * gridX ?m + x)))))) [sx..ex])) [sy..ey])"
  have "forM [sy..ey] (\<lambda>y. forM [sx..ex] (\<lambda>x. notifyGridEntities e sid px py v (y * gridX ?m + x) cb)) (w\<lparr>trace := trace w\<rparr>)
      = Some (w\<lparr>trace := trace w @ ev\<rparr>)"
    unfolding ev_def
    using nine_cells(1) [OF shape il r] notifyGridEntities_ok [OF rep]
    by (intro forM_grid [where upd = "\<lambda>t w. w\<lparr>trace := t\<rparr>"]) simp
  then have "notifyNearby e cb w = Some (w\<lparr>trace := trace w @ ev\<rparr>)"
    by (simp add: notifyNearby_def n r c GetX_def GetY_def Let_def)
  moreover have "set ev = (\<Union>y \<in> {sy..ey}. \<Union>x \<in> {sx..ex}. \<Union>other \<in> set (cell_ents w (L (nat (y * gridX ?m + x)))). set (?one other))"
    by (simp add: ev_def)
  then have "set ev = (\<Union>j \<in> {j. j < length (grids ?m) \<and> near ?m i j}. \<Union>other \<in> set (cell_ents w (L j)). set (?one other))"
    by (simp only: nine_cells(2) [OF shape il r, of "\<lambda>j. \<Union>other \<in> set (cell_ents w (L j)). set (?one other)"])
  then have "set ev = (\<Union>other \<in> standing w (near ?m i). set (?one other))"
    by (simp flip: cells_standing [OF rep])
  ultimately show ?thesis unfolding c by blast
qed

section \<open>The operations on the abstract state\<close>

lemma Grid_Add_ok:
  assumes "aoi_rep w L" and "pick_ok pick" and "g < length (grids (aoi w))" and "AoiNode (ents w e) = None"
  shows "\<exists>L'. aoi_rep (Grid_Add pick g e w) L'"
proof -
  obtain n w1 where "getNode pick w = (n, w1)" by fastforce
  from Grid_Add_rep [OF assms this] show ?thesis by blast
qed

lemma aoi_ok_trace [simp]: "aoi_ok (w\<lparr>trace := t\<rparr>) = aoi_ok w"
  by (simp add: aoi_ok_def)

lemma aoi_ok_rep: "aoi_ok w \<Longrightarrow> (\<And>L. aoi_rep w L \<Longrightarrow> P) \<Longrightarrow> P"
  by (auto simp: aoi_ok_def)

lemma notifyNearby_frame:
  assumes "aoi_ok w" and "loc w e = Some i"
  shows "\<exists>ev. notifyNearby e cb w = Some (w\<lparr>trace := trace w @ ev\<rparr>)"
  using assms notifyNearby_ok by (metis aoi_ok_rep)

definition pos_of :: "aoi_world \<Rightarrow> eref \<Rightarrow> Vector2" where
  "pos_of w e = Position (ents w e)"

lemma pos_of_simps [simp]:
  "pos_of (w\<lparr>trace := t\<rparr>) = pos_of w"
  "pos_of (Grid_Add pick g e w) = pos_of w"
  "pos_of (Grid_Remove g e w) = pos_of w"
  "pos_of (upd_ent e (\<lambda>x. x\<lparr>Position := p\<rparr>) w) = (pos_of w)(e := p)"
  by (simp_all add: pos_of_def fun_eq_iff Grid_frames upd_ent_def)

text \<open>What no operation changes.\<close>

definition geo :: "StaticAoi \<Rightarrow> StaticAoi" where
  "geo m = m\<lparr>grids := []\<rparr>"

lemma geo_simps [simp]:
  "geo (aoi (w\<lparr>trace := t\<rparr>)) = geo (aoi w)"
  "geo (aoi (Grid_Add pick g e w)) = geo (aoi w)"
  "geo (aoi (Grid_Remove g e w)) = geo (aoi w)"
  "geo (aoi (upd_ent e f w)) = geo (aoi w)"
  by (auto simp: geo_def Grid_Add_def Grid_Remove_def getNode_def putNode_def aoi_simps Let_def split: option.splits)

lemma geo_cong:
  assumes "geo m = geo m'"
  shows "GetGridByPos m = GetGridByPos m'" and "near m = near m'" and "gridSize m = gridSize m'"
    and "in_bounds m = in_bounds m'"
proof -
  have "minX m = minX m'" "maxX m = maxX m'" "minY m = minY m'" "maxY m = maxY m'"
    "gridSize m = gridSize m'" "gridX m = gridX m'" "gridY m = gridY m'"
    using assms by (cases m; cases m'; simp add: geo_def)+
  then show "GetGridByPos m = GetGridByPos m'" "near m = near m'" "gridSize m = gridSize m'"
    "in_bounds m = in_bounds m'"
    by (simp_all add: GetGridByPos_eq cell_x_def cell_y_def near_def in_bounds_def fun_eq_iff)
qed

lemma AddEntity_spec:
  assumes ok: "aoi_ok w" and pick: "pick_ok pick" and out: "loc w e = None"
    and g: "GetGridByPos (aoi w) (pos_of w e) = Some g"
  shows "\<exists>w'. AddEntity pick e w = Some (None, w') \<and> aoi_ok w' \<and> loc w' = (loc w)(e := Some g) \<and> pos_of w' = pos_of w
      \<and> geo (aoi w') = geo (aoi w)"
proof -
  obtain L where rep: "aoi_rep w L" using ok by (rule aoi_ok_rep)
  have node: "AoiNode (ents w e) = None" using out by (simp add: loc_def)
  have gl: "g < length (grids (aoi w))" using GetGridByPos_lt g rep by (auto simp: aoi_rep_def)
  let ?w = "Grid_Add pick g e w"
  have ok1: "aoi_ok ?w" using Grid_Add_ok [OF rep pick gl node] by (auto simp: aoi_ok_def)
  have l1: "loc ?w = (loc w)(e := Some g)" by (rule loc_Grid_Add [OF rep pick gl node])
  obtain ev where "notifyNearby e OnEnter ?w = Some (?w\<lparr>trace := trace ?w @ ev\<rparr>)"
    using notifyNearby_frame [OF ok1, of e g] l1 by auto
  then show ?thesis using g ok1 l1 by (simp add: AddEntity_def pos_of_def [symmetric] Let_def)
qed

lemma loc_node:
  assumes "aoi_rep w L" and "loc w e = Some g"
  obtains n where "AoiNode (ents w e) = Some n" "GridID (nodes w n) = g" "g < length (grids (aoi w))"
    "gridByID (aoi w) g = Some g" "grid_id (grid_at w g) = g"
proof -
  obtain n where n: "AoiNode (ents w e) = Some n" "GridID (nodes w n) = g"
    using assms(2) by (auto simp: loc_def)
  have g: "g < length (grids (aoi w))" by (rule loc_bound [OF assms])
  then have "gridByID (aoi w) g = Some g" "grid_id (grid_at w g) = g"
    using assms(1) by (auto simp: gridByID_def aoi_rep_def aoi_shape_def grid_at_def)
  then show ?thesis using that n g by blast
qed

lemma RemoveEntity_spec:
  assumes ok: "aoi_ok w"
  shows "\<exists>w'. RemoveEntity e w = Some w' \<and> aoi_ok w' \<and> loc w' = (loc w)(e := None) \<and> pos_of w' = pos_of w
      \<and> geo (aoi w') = geo (aoi w)"
proof (cases "loc w e")
  case None
  then have "AoiNode (ents w e) = None" by (simp add: loc_def)
  then show ?thesis using ok None by (auto simp: RemoveEntity_def fun_upd_idem)
next
  case (Some g)
  obtain L where rep: "aoi_rep w L" using ok by (rule aoi_ok_rep)
  obtain n where n: "AoiNode (ents w e) = Some n" "GridID (nodes w n) = g" "gridByID (aoi w) g = Some g"
    using loc_node [OF rep Some] by metis
  obtain ev where ev: "notifyNearby e OnLeave w = Some (w\<lparr>trace := trace w @ ev\<rparr>)"
    using notifyNearby_frame [OF ok Some] by blast
  have rm: "aoi_ok (Grid_Remove g e (w\<lparr>trace := t\<rparr>)) \<and> loc (Grid_Remove g e (w\<lparr>trace := t\<rparr>)) = (loc w)(e := None)" for t
    using Grid_Remove_rep [of "w\<lparr>trace := t\<rparr>" L e n g] loc_Grid_Remove [of "w\<lparr>trace := t\<rparr>" L e n g] rep n
    by (auto simp: aoi_ok_def)
  then show ?thesis using n ev rm [of "trace w"] by (simp add: RemoveEntity_def)
qed

lemma move_spec:
  assumes ok: "aoi_ok w" and pick: "pick_ok pick" and gl: "g < length (grids (aoi w))" and l: "loc w e = Some og"
    and w': "w' = Grid_Add pick g e (upd_ent e (\<lambda>x. x\<lparr>Position := p\<rparr>) (Grid_Remove og e (w\<lparr>trace := t\<rparr>)))"
  shows "aoi_ok w'" "loc w' = (loc w)(e := Some g)" "pos_of w' = (pos_of w)(e := p)"
    "length (grids (aoi w')) = length (grids (aoi w))"
proof -
  obtain L where rep: "aoi_rep (w\<lparr>trace := t\<rparr>) L" using ok by (auto simp: aoi_ok_def)
  let ?w0 = "Grid_Remove og e (w\<lparr>trace := t\<rparr>)" and ?w1 = "upd_ent e (\<lambda>x. x\<lparr>Position := p\<rparr>) (Grid_Remove og e (w\<lparr>trace := t\<rparr>))"
  obtain n where n: "AoiNode (ents (w\<lparr>trace := t\<rparr>) e) = Some n" "GridID (nodes (w\<lparr>trace := t\<rparr>) n) = og"
    using l by (auto simp: loc_def)
  have rep1: "aoi_rep ?w1 (L(og := remove1 n (L og)))" using Grid_Remove_rep [OF rep n] by simp
  have l1: "loc ?w1 = (loc w)(e := None)" using loc_Grid_Remove [OF rep n] by simp
  have node: "AoiNode (ents ?w1 e) = None" using fun_cong [OF l1, of e] by (simp add: loc_def upd_ent_def)
  have len: "length (grids (aoi ?w1)) = length (grids (aoi w))" by (simp add: upd_ent_def Grid_frames)
  then have gl1: "g < length (grids (aoi ?w1))" using gl by simp
  show "aoi_ok w'" unfolding w' aoi_ok_def by (rule Grid_Add_ok [OF rep1 pick gl1 node])
  show "loc w' = (loc w)(e := Some g)" unfolding w' loc_Grid_Add [OF rep1 pick gl1 node] l1 by simp
  show "pos_of w' = (pos_of w)(e := p)" by (simp add: w')
  show "length (grids (aoi w')) = length (grids (aoi w))"
    using len by (simp add: w' Grid_Add_def Let_def aoi_simps getNode_def split: option.splits prod.splits)
qed

lemma near_cong: "gridX m = gridX m' \<Longrightarrow> near m = near m'"
  by (simp add: near_def fun_eq_iff)

lemma nine_cong: "gridX m = gridX m' \<Longrightarrow> gridY m = gridY m' \<Longrightarrow> nineGridRange m = nineGridRange m'"
  by (simp add: nineGridRange_def fun_eq_iff Let_def)

lemma Grid_frames2:
  "gridX (aoi (Grid_Add pick g e w)) = gridX (aoi w)" "gridY (aoi (Grid_Add pick g e w)) = gridY (aoi w)"
  "gridX (aoi (Grid_Remove g e w)) = gridX (aoi w)" "gridY (aoi (Grid_Remove g e w)) = gridY (aoi w)"
  "EntityId (ents (Grid_Add pick g e w) a) = EntityId (ents w a)"
  "ViewDistance (ents (Grid_Add pick g e w) a) = ViewDistance (ents w a)"
  "EntityId (ents (Grid_Remove g e w) a) = EntityId (ents w a)"
  "ViewDistance (ents (Grid_Remove g e w) a) = ViewDistance (ents w a)"
  "trace (Grid_Add pick g e w) = trace w" "trace (Grid_Remove g e w) = trace w"
  by (auto simp: Grid_Add_def Grid_Remove_def getNode_def putNode_def aoi_simps Let_def split: option.splits)

text \<open>The events of a notification pass over the entities standing in the cells \<open>C\<close>.\<close>

definition pass_events :: "aoi_world \<Rightarrow> callback \<Rightarrow> eref \<Rightarrow> Vector2 \<Rightarrow> (nat \<Rightarrow> bool) \<Rightarrow> aoi_event set" where
  "pass_events w cb e p C = (\<Union>other \<in> standing w C. set (notify_one (ents w) cb e (EntityId (ents w e))
      (X p) (Y p) (fmul (ViewDistance (ents w e)) (ViewDistance (ents w e))) other))"

lemma handleCrossGridMove_spec:
  assumes ok: "aoi_ok w" and pick: "pick_ok pick" and gl: "g < length (grids (aoi w))" and l: "loc w e = Some og"
  shows "\<exists>w' lv en. handleCrossGridMove pick e og g p w = Some w' \<and> aoi_ok w' \<and> geo (aoi w') = geo (aoi w)
     \<and> loc w' = (loc w)(e := Some g) \<and> pos_of w' = (pos_of w)(e := p)
     \<and> trace w' = trace w @ lv @ en
     \<and> set lv = (if onLeave (aoi w) then pass_events w OnLeave e (pos_of w e)
                    (\<lambda>j. near (aoi w) og j \<and> \<not> near (aoi w) g j) else {})
     \<and> set en = (if onEnter (aoi w) then pass_events w' OnEnter e p
                    (\<lambda>j. near (aoi w) g j \<and> \<not> near (aoi w) og j) else {})"
proof -
  obtain L where rep: "aoi_rep w L" using ok by (rule aoi_ok_rep)
  have ogl: "og < length (grids (aoi w))" by (rule loc_bound [OF rep l])
  have ids: "grid_id (grid_at w og) = og" "grid_id (grid_at w g) = g"
    using rep ogl gl by (auto simp: aoi_rep_def aoi_shape_def grid_at_def)
  let ?oldR = "nineGridRange (aoi w) og" and ?newR = "nineGridRange (aoi w) g"
  let ?sid = "EntityId (ents w e)" and ?v = "fmul (ViewDistance (ents w e)) (ViewDistance (ents w e))"
  obtain lv where lv: "(if onLeave (aoi w)
      then notifyRange e ?sid (X (pos_of w e)) (Y (pos_of w e)) ?v ?oldR ?newR OnLeave w else Some w)
      = Some (w\<lparr>trace := trace w @ lv\<rparr>)"
    "set lv = (if onLeave (aoi w) then pass_events w OnLeave e (pos_of w e)
                 (\<lambda>j. near (aoi w) og j \<and> \<not> near (aoi w) g j) else {})"
    using notifyRange_ok [OF rep ogl gl, of e ?sid "X (pos_of w e)" "Y (pos_of w e)" ?v OnLeave]
    by (cases "onLeave (aoi w)") (auto simp: pass_events_def)
  define w1 where "w1 = Grid_Add pick g e (upd_ent e (\<lambda>x. x\<lparr>Position := p\<rparr>) (Grid_Remove og e (w\<lparr>trace := trace w @ lv\<rparr>)))"
  note mv = move_spec [OF ok pick gl l w1_def]
  obtain L1 where rep1: "aoi_rep w1 L1" using mv(1) by (rule aoi_ok_rep)
  have fr: "gridX (aoi w1) = gridX (aoi w)" "gridY (aoi w1) = gridY (aoi w)" "onEnter (aoi w1) = onEnter (aoi w)"
    "EntityId (ents w1 e) = ?sid" "ViewDistance (ents w1 e) = ViewDistance (ents w e)" "trace w1 = trace w @ lv"
    by (simp_all add: w1_def Grid_frames2 Grid_frames upd_ent_def)
  note nr = nine_cong [OF fr(1,2)] and nc = near_cong [OF fr(1)]
  obtain en where en: "(if onEnter (aoi w)
      then notifyRange e ?sid (X p) (Y p) ?v ?newR ?oldR OnEnter w1 else Some w1) = Some (w1\<lparr>trace := trace w1 @ en\<rparr>)"
    "set en = (if onEnter (aoi w) then pass_events w1 OnEnter e p
                 (\<lambda>j. near (aoi w) g j \<and> \<not> near (aoi w) og j) else {})"
    using notifyRange_ok [OF rep1, of g og e ?sid "X p" "Y p" ?v OnEnter] gl ogl mv(4)
    by (cases "onEnter (aoi w)") (auto simp: pass_events_def nr nc fr)
  have pe: "pass_events (w1\<lparr>trace := t\<rparr>) cb e q C = pass_events w1 cb e q C" for t cb q C
    by (simp add: pass_events_def standing_def)
  have "handleCrossGridMove pick e og g p w = Some (w1\<lparr>trace := trace w1 @ en\<rparr>)"
    unfolding handleCrossGridMove_def Let_def ids GetX_def GetY_def pos_of_def [symmetric]
    by (simp add: lv(1) en(1) fr(3) cong: if_cong split del: if_split flip: w1_def)
  then show ?thesis using mv lv(2) en(2)
    by (intro exI [of _ "w1\<lparr>trace := trace w1 @ en\<rparr>"] exI [of _ lv] exI [of _ en]) (simp add: fr pe, simp add: w1_def)
qed

lemma UpdateEntity_spec:
  assumes ok: "aoi_ok w" and pick: "pick_ok pick" and g: "GetGridByPos (aoi w) p = Some g"
  shows "\<exists>w'. UpdateEntity pick e p w = Some (None, w') \<and> aoi_ok w' \<and> loc w' = (loc w)(e := Some g)
              \<and> pos_of w' = (pos_of w)(e := p) \<and> geo (aoi w') = geo (aoi w)"
proof -
  obtain L where rep: "aoi_rep w L" using ok by (rule aoi_ok_rep)
  have gl: "g < length (grids (aoi w))" using GetGridByPos_lt g rep by (auto simp: aoi_rep_def)
  then have gid: "grid_id (grid_at w g) = g" using rep by (auto simp: aoi_rep_def aoi_shape_def grid_at_def)
  show ?thesis
  proof (cases "loc w e")
    case None
    then have node: "AoiNode (ents w e) = None" by (simp add: loc_def)
    let ?wp = "upd_ent e (\<lambda>x. x\<lparr>Position := p\<rparr>) w"
    let ?w = "Grid_Add pick g e ?wp"
    have r: "aoi_rep ?wp L" "g < length (grids (aoi ?wp))" "AoiNode (ents ?wp e) = None"
      using rep gl node by (simp, simp_all add: upd_ent_def)
    have ok1: "aoi_ok ?w" using Grid_Add_ok [OF r(1) pick r(2,3)] by (simp add: aoi_ok_def)
    have l1: "loc ?w = (loc w)(e := Some g)" using loc_Grid_Add [OF r(1) pick r(2,3)] by simp
    obtain ev where "notifyNearby e OnEnter ?w = Some (?w\<lparr>trace := trace ?w @ ev\<rparr>)"
      using notifyNearby_frame [OF ok1, of e g] l1 by auto
    then show ?thesis using g node ok1 l1 by (simp add: UpdateEntity_def Let_def)
  next
    case (Some og)
    obtain n where n: "AoiNode (ents w e) = Some n" "GridID (nodes w n) = og" "gridByID (aoi w) og = Some og"
      "grid_id (grid_at w og) = og" using loc_node [OF rep Some] by metis
    show ?thesis
    proof (cases "og = g")
      case True
      have "aoi_ok (upd_ent e (\<lambda>x. x\<lparr>Position := p\<rparr>) w)" using ok by (simp add: aoi_ok_def)
      then show ?thesis using True n g Some by (simp add: UpdateEntity_def Let_def fun_upd_idem)
    next
      case False
      show ?thesis
      proof (cases "onEnter (aoi w) \<or> onLeave (aoi w)")
        case True
        from handleCrossGridMove_spec [OF ok pick gl Some, of p] show ?thesis
          using True False n g gid by (auto simp: UpdateEntity_def Let_def)
      next
        case no: False
        note mv = move_spec [OF ok pick gl Some refl, of p "trace w"]
        then show ?thesis using no False n g gid by (simp add: UpdateEntity_def Let_def)
      qed
    qed
  qed
qed

section \<open>Queries\<close>

lemma GetNearby_spec:
  assumes ok: "aoi_ok w" and i: "loc w e = Some i"
  shows "\<exists>res. GetNearbyEntitiesByType e ty w = Some res \<and> distinct res
     \<and> set res = {a \<in> standing w (near (aoi w) i). EntityId (ents w a) \<noteq> EntityId (ents w e)
           \<and> (ty = EntityTypeAll \<or> EntityTyp (ents w a) = ty)
           \<and> in_view (pos_of w a) (X (pos_of w e)) (Y (pos_of w e))
                (fmul (ViewDistance (ents w e)) (ViewDistance (ents w e)))}"
proof -
  obtain L where rep: "aoi_rep w L" using ok by (rule aoi_ok_rep)
  define P where "P a \<longleftrightarrow> EntityId (ents w a) \<noteq> EntityId (ents w e)
      \<and> (ty = EntityTypeAll \<or> EntityTyp (ents w a) = ty)
      \<and> in_view (pos_of w a) (X (pos_of w e)) (Y (pos_of w e))
           (fmul (ViewDistance (ents w e)) (ViewDistance (ents w e)))" for a
  let ?m = "aoi w" and ?c = "\<lambda>j. filter P (cell_ents w (L j))"
  have shape: "aoi_shape ?m" using rep by (simp add: aoi_rep_def)
  note il = loc_bound [OF rep i]
  obtain n where n: "AoiNode (ents w e) = Some n" "GridID (nodes w n) = i" using i by (auto simp: loc_def)
  obtain sx ex sy ey where r: "nineGridRange ?m i = (sx, ex, sy, ey)" by (metis surj_pair)
  define res where "res = concat (map (\<lambda>y. concat (map (\<lambda>x. ?c (nat (y * gridX ?m + x))) [sx..ex])) [sy..ey])"
  have "nearby_loop (Suc (nnext w)) (nodes w) P (head (grid_at w j)) buf = Some (buf @ ?c j)"
    if "j < length (grids ?m)" for j buf
    using nearby_loop_dll [OF cell_walk [OF rep that]] by (simp add: cell_ents_def)
  then have "forM [sy..ey] (\<lambda>y. forM [sx..ex] (\<lambda>x. nearby_loop (Suc (nnext w)) (nodes w) P
        (head (grid_at w (nat (y * gridX ?m + x)))))) ([] :: eref list) = Some ([] @ res)"
    unfolding res_def using nine_cells(1) [OF shape il r]
    by (intro forM_grid [where upd = "\<lambda>t _. t" and s = "()"]) simp
  then have eq: "GetNearbyEntitiesByType e ty w = Some res"
    by (simp add: GetNearbyEntitiesByType_def n r P_def [abs_def] pos_of_def GetX_def GetY_def Let_def)
  have "set res = (\<Union>y \<in> {sy..ey}. \<Union>x \<in> {sx..ex}. set (?c (nat (y * gridX ?m + x))))"
    by (simp add: res_def)
  then have "set res = (\<Union>j \<in> {j. j < length (grids ?m) \<and> near ?m i j}. set (?c j))"
    by (simp only: nine_cells(2) [OF shape il r, of "\<lambda>j. set (?c j)"])
  then have set: "set res = {a \<in> standing w (near ?m i). P a}"
    by (auto simp flip: cells_standing [OF rep])
  have "distinct res"
  proof -
    have rng: "0 \<le> x \<and> x < gridX ?m \<and> 0 \<le> y \<and> y < gridY ?m" "nat (y * gridX ?m + x) < length (grids ?m)"
      if "x \<in> {sx..ex}" "y \<in> {sy..ey}" for x y
      using nine_range [OF shape il r, of x y] nine_cells(1) [OF shape il r] that by blast+
    have disj: "set (?c (nat (y * gridX ?m + x))) \<inter> set (?c (nat (y' * gridX ?m + x'))) = {}"
      if "x \<in> {sx..ex}" "y \<in> {sy..ey}" "x' \<in> {sx..ex}" "y' \<in> {sy..ey}" "(x, y) \<noteq> (x', y')" for x y x' y'
    proof -
      have "nat (y * gridX ?m + x) \<noteq> nat (y' * gridX ?m + x')"
        using rng(1) [OF that(1,2)] rng(1) [OF that(3,4)] that(5)
          cell_index_range [of x "gridX ?m" y "gridY ?m"] cell_index_range [of x' "gridX ?m" y' "gridY ?m"]
        by (metis nat_eq_iff2 eq_nat_nat_iff)
      then show ?thesis using cell_ents_loc(2) [OF rep] rng(2) that by fastforce
    qed
    have row: "distinct (concat (map (\<lambda>x. ?c (nat (y * gridX ?m + x))) [sx..ex]))" if "y \<in> {sy..ey}" for y
    proof (rule distinct_concat_map)
      show "distinct (?c (nat (y * gridX ?m + x)))" if "x \<in> set [sx..ex]" for x
        using cell_ents_loc(1) [OF rep rng(2)] that \<open>y \<in> {sy..ey}\<close> by simp
      show "set (?c (nat (y * gridX ?m + x))) \<inter> set (?c (nat (y * gridX ?m + x'))) = {}"
        if "x \<in> set [sx..ex]" "x' \<in> set [sx..ex]" "x \<noteq> x'" for x x'
        using disj [of x y x' y] that \<open>y \<in> {sy..ey}\<close> by simp
    qed simp
    show ?thesis unfolding res_def
    proof (rule distinct_concat_map)
      show "set (concat (map (\<lambda>x. ?c (nat (y * gridX ?m + x))) [sx..ex]))
          \<inter> set (concat (map (\<lambda>x. ?c (nat (y' * gridX ?m + x))) [sx..ex])) = {}"
        if "y \<in> set [sy..ey]" "y' \<in> set [sy..ey]" "y \<noteq> y'" for y y'
        using disj [of _ y _ y'] that by fastforce
    qed (use row in auto)
  qed
  then show ?thesis using eq set by (auto simp: P_def)
qed

section \<open>The manager as a spatial index\<close>

text \<open>The contract of \<open>IAoi\<close>: where entities are, over the operations a client calls. From it
  follows that an entity is always filed under the cell of its position.\<close>

locale spatial_index =
  fixes ok :: "'w \<Rightarrow> bool"
    and where_is :: "'w \<Rightarrow> 'e \<Rightarrow> nat option"
    and place :: "'w \<Rightarrow> 'e \<Rightarrow> 'p"
    and cell :: "'w \<Rightarrow> 'p \<Rightarrow> nat option"
    and add :: "'e \<Rightarrow> 'w \<Rightarrow> (bool \<times> 'w) option"
    and remove :: "'e \<Rightarrow> 'w \<Rightarrow> 'w option"
    and move :: "'e \<Rightarrow> 'p \<Rightarrow> 'w \<Rightarrow> (bool \<times> 'w) option"
  assumes add_in: "ok w \<Longrightarrow> where_is w e = None \<Longrightarrow> cell w (place w e) = Some g \<Longrightarrow>
      \<exists>w'. add e w = Some (True, w') \<and> ok w' \<and> where_is w' = (where_is w)(e := Some g)
           \<and> place w' = place w \<and> cell w' = cell w"
    and add_out: "cell w (place w e) = None \<Longrightarrow> add e w = Some (False, w)"
    and remove_law: "ok w \<Longrightarrow> \<exists>w'. remove e w = Some w' \<and> ok w' \<and> where_is w' = (where_is w)(e := None)
           \<and> place w' = place w \<and> cell w' = cell w"
    and move_in: "ok w \<Longrightarrow> cell w p = Some g \<Longrightarrow>
      \<exists>w'. move e p w = Some (True, w') \<and> ok w' \<and> where_is w' = (where_is w)(e := Some g)
           \<and> place w' = (place w)(e := p) \<and> cell w' = cell w"
    and move_out: "cell w p = None \<Longrightarrow> move e p w = Some (False, w)"
begin

definition filed :: "'w \<Rightarrow> bool" where
  "filed w \<longleftrightarrow> ok w \<and> (\<forall>e g. where_is w e = Some g \<longrightarrow> cell w (place w e) = Some g)"

lemma add_filed: "filed w \<Longrightarrow> where_is w e = None \<Longrightarrow> add e w = Some (b, w') \<Longrightarrow> filed w'"
  using add_in [of w e] add_out [of w e] by (cases "cell w (place w e)") (fastforce simp: filed_def)+

lemma remove_filed: "filed w \<Longrightarrow> remove e w = Some w' \<Longrightarrow> filed w'"
  using remove_law [of w e] by (fastforce simp: filed_def)

lemma move_filed: "filed w \<Longrightarrow> move e p w = Some (b, w') \<Longrightarrow> filed w'"
  using move_in [of w p _ e] move_out [of w p e] by (cases "cell w p") (fastforce simp: filed_def)+

end

definition aoi_add :: "pick \<Rightarrow> eref \<Rightarrow> aoi_world \<Rightarrow> (bool \<times> aoi_world) option" where
  "aoi_add pick e w = map_option (\<lambda>(err, w). (err = None, w)) (AddEntity pick e w)"

definition aoi_move :: "pick \<Rightarrow> eref \<Rightarrow> Vector2 \<Rightarrow> aoi_world \<Rightarrow> (bool \<times> aoi_world) option" where
  "aoi_move pick e p w = map_option (\<lambda>(err, w). (err = None, w)) (UpdateEntity pick e p w)"

text \<open>A pool that always allocates, or any pool that hands out only what it holds.\<close>

definition safe_pick :: "pick \<Rightarrow> pick" where
  "safe_pick pick = (\<lambda>xs. case pick xs of Some a \<Rightarrow> if a \<in> set xs then Some a else None | None \<Rightarrow> None)"

lemma safe_pick_ok [simp]: "pick_ok (safe_pick pick)"
  by (auto simp: pick_ok_def safe_pick_def split: option.splits if_splits)

lemma safe_pick_id: "pick_ok pick \<Longrightarrow> safe_pick pick = pick"
  by (auto simp: pick_ok_def safe_pick_def fun_eq_iff split: option.splits)

interpretation si: spatial_index aoi_ok loc pos_of "\<lambda>w. GetGridByPos (aoi w)"
  "aoi_add (safe_pick pick)" RemoveEntity "aoi_move (safe_pick pick)" for pick
proof (unfold_locales, goal_cases)
  case (1 w e g)
  from AddEntity_spec [OF 1(1) safe_pick_ok 1(2,3)] obtain w' where
    r: "AddEntity (safe_pick pick) e w = Some (None, w')" "aoi_ok w'" "loc w' = (loc w)(e := Some g)"
    "pos_of w' = pos_of w" "geo (aoi w') = geo (aoi w)" by blast
  then show ?case using geo_cong(1) [OF r(5)] by (intro exI [of _ w']) (simp add: aoi_add_def)
next
  case (2 w e)
  then show ?case by (simp add: aoi_add_def AddEntity_def pos_of_def)
next
  case (3 w e)
  from RemoveEntity_spec [OF 3] obtain w' where r: "RemoveEntity e w = Some w'" "aoi_ok w'"
    "loc w' = (loc w)(e := None)" "pos_of w' = pos_of w" "geo (aoi w') = geo (aoi w)" by blast
  then show ?case using geo_cong(1) [OF r(5)] by (intro exI [of _ w']) simp
next
  case (4 w p g e)
  from UpdateEntity_spec [OF 4(1) safe_pick_ok 4(2), where e = e] obtain w' where
    r: "UpdateEntity (safe_pick pick) e p w = Some (None, w')" "aoi_ok w'" "loc w' = (loc w)(e := Some g)"
    "pos_of w' = (pos_of w)(e := p)" "geo (aoi w') = geo (aoi w)" by blast
  then show ?case using geo_cong(1) [OF r(5)] by (intro exI [of _ w']) (simp add: aoi_move_def)
next
  case (5 w p e)
  then show ?case by (simp add: aoi_move_def UpdateEntity_def)
qed

text \<open>The states a client reaches from an empty manager, with any callbacks set.\<close>

inductive aoi_reach :: "pick \<Rightarrow> StaticAoi \<Rightarrow> aoi_world \<Rightarrow> bool" for pick m0 where
  init: "(\<And>e. AoiNode (E e) = None) \<Longrightarrow>
     aoi_reach pick m0 \<lparr>aoi = SetCallbacks enter leave m0, nodes = nd, nodePool = [], nnext = 0, ents = E, trace = []\<rparr>"
| add: "aoi_reach pick m0 w \<Longrightarrow> loc w e = None \<Longrightarrow> AddEntity pick e w = Some (r, w') \<Longrightarrow> aoi_reach pick m0 w'"
| remove: "aoi_reach pick m0 w \<Longrightarrow> RemoveEntity e w = Some w' \<Longrightarrow> aoi_reach pick m0 w'"
| move: "aoi_reach pick m0 w \<Longrightarrow> UpdateEntity pick e p w = Some (r, w') \<Longrightarrow> aoi_reach pick m0 w'"

lemma init_rep:
  assumes "aoi_shape m" and "\<forall>g \<in> set (grids m). head g = None \<and> grid_count g = 0" and "\<And>e. AoiNode (E e) = None"
  shows "aoi_rep \<lparr>aoi = m, nodes = nd, nodePool = [], nnext = 0, ents = E, trace = []\<rparr> (\<lambda>_. [])"
  using assms by (simp add: aoi_rep_def cell_ok_def links_ok_def grid_at_def)

lemma aoi_reach_filed:
  assumes "NewStaticAoi a b c d gs = Inr m0" and "pick_ok pick" and "aoi_reach pick m0 w"
  shows "si.filed w"
  using assms(3)
proof induction
  case (init E enter leave nd)
  let ?m = "SetCallbacks enter leave m0"
  have "\<forall>g \<in> set (grids ?m). head g = None \<and> grid_count g = 0"
    using assms(1) by (auto simp: NewStaticAoi_def Let_def SetCallbacks_def split: if_splits)
  moreover have "aoi_shape ?m" using NewStaticAoi_shape [OF assms(1)] by (simp add: SetCallbacks_def aoi_shape_def)
  ultimately show ?case
    using init_rep [of ?m E nd] init
    unfolding si.filed_def by (auto simp: aoi_ok_def loc_def)
next
  case (add w e r w')
  then have "aoi_add (safe_pick pick) e w = Some (r = None, w')"
    using safe_pick_id [OF assms(2)] by (simp add: aoi_add_def)
  then show ?case using si.add_filed add by blast
next
  case (remove w e w')
  then show ?case using si.remove_filed by blast
next
  case (move w e p r w')
  then have "aoi_move (safe_pick pick) e p w = Some (r = None, w')"
    using safe_pick_id [OF assms(2)] by (simp add: aoi_move_def)
  then show ?case using si.move_filed move by blast
qed

section \<open>Nothing in view is outside of the nine cells\<close>

lemma clamp_lipschitz: "b \<le> a + 1 \<Longrightarrow> a \<le> b \<Longrightarrow> \<bar>clamp_cell n a - clamp_cell n b\<bar> \<le> 1"
  by (auto simp: clamp_cell_def)

lemma abs_diff_le: "\<bar>a - b\<bar> \<le> (e :: rat) \<Longrightarrow> a \<le> b + e \<and> b \<le> a + e"
  by linarith

lemma abs_diff_trans: "\<bar>a - b\<bar> \<le> (d :: rat) \<Longrightarrow> \<bar>b - c\<bar> \<le> e \<Longrightarrow> d + e \<le> f \<Longrightarrow> \<bar>a - c\<bar> \<le> f"
  by linarith

lemma close_quotients:
  "uq \<le> tq + e \<Longrightarrow> tp \<le> up + e \<Longrightarrow> tq - tp \<le> 1 - d \<Longrightarrow> e + e \<le> d \<Longrightarrow> uq \<le> (up :: rat) + 1"
  by linarith

text \<open>The quotient that the code computes is within \<open>2^-18\<close> of the exact one.\<close>

lemma axis_quotient_error:
  assumes "mn \<le> p" and g: "2 powi (- 900) \<le> g" and "p - mn \<le> 2 ^ 33 * g"
  shows "\<bar>fdiv (fsub p mn) g - (p - mn) / g\<bar> \<le> 1 / 2 ^ 18"
proof -
  have gpos: "0 < g" using g by (rule less_le_trans [rotated]) simp
  let ?x = "p - mn" and ?d = "fsub p mn"
  have x: "0 \<le> ?x" "?x / g \<le> 2 ^ 33" using assms(1,3) gpos by (simp_all add: pos_divide_le_eq)
  have tiny: "2 powi (- 1075) / g \<le> 1 / 2 ^ 60" "(2 :: rat) powi (- 1075) \<le> 1 / 2 ^ 60"
  proof -
    have "(2 :: rat) powi (- 1075) = 2 powi (- 175) * 2 powi (- 900)" by (simp flip: power_int_add)
    also have "\<dots> \<le> 2 powi (- 60) * g" using g by (intro mult_mono powi2_mono) auto
    finally show "2 powi (- 1075) / g \<le> 1 / 2 ^ 60" using gpos by (simp add: pos_divide_le_eq power_int_minus_divide)
    show "(2 :: rat) powi (- 1075) \<le> 1 / 2 ^ 60"
      using powi2_mono [of "- 1075" "- 60"] by (simp add: power_int_minus_divide)
  qed
  have "\<bar>?d - ?x\<bar> \<le> ?x / 2 ^ 53 + 2 powi (- 1075)"
    using f64_round_error [OF x(1)] by (simp add: fsub_def)
  then have "\<bar>?d - ?x\<bar> / g \<le> (?x / 2 ^ 53 + 2 powi (- 1075)) / g" using gpos by (simp add: divide_right_mono)
  also have "\<dots> = (?x / g) / 2 ^ 53 + 2 powi (- 1075) / g" by (simp add: add_divide_distrib)
  also have "\<dots> \<le> 2 ^ 33 / 2 ^ 53 + 1 / 2 ^ 60" using x(2) tiny(1) by (intro add_mono divide_right_mono) auto
  finally have e1: "\<bar>?d / g - ?x / g\<bar> \<le> 2 ^ 33 / 2 ^ 53 + 1 / 2 ^ 60"
    using gpos by (simp flip: diff_divide_distrib)
  have dnn: "0 \<le> ?d / g" using x(1) gpos by (simp add: fsub_def f64_round_nonneg)
  have "?d / g \<le> ?x / g + (2 ^ 33 / 2 ^ 53 + 1 / 2 ^ 60)" using abs_diff_le [OF e1] by simp
  also have "\<dots> \<le> 2 ^ 33 + (2 ^ 33 / 2 ^ 53 + 1 / 2 ^ 60)" using x(2) by (rule add_right_mono)
  finally have dub: "?d / g \<le> 2 ^ 34" by (rule order_trans) simp
  have "\<bar>fdiv ?d g - ?d / g\<bar> \<le> (?d / g) / 2 ^ 53 + 2 powi (- 1075)"
    using f64_round_error [OF dnn] by (simp add: fdiv_def)
  also have "\<dots> \<le> 2 ^ 34 / 2 ^ 53 + 1 / 2 ^ 60" using dub tiny(2) by (intro add_mono divide_right_mono) auto
  finally show ?thesis by (rule abs_diff_trans [OF _ e1]) simp
qed

lemma axis_close:
  assumes "mn \<le> p" "p \<le> q" and g: "2 powi (- 900) \<le> g" and "q - mn \<le> 2 ^ 33 * g"
    and near: "q - p \<le> (1 - 1 / 2 ^ 16) * g"
  shows "axis_cell mn g q \<le> axis_cell mn g p + 1" and "axis_cell mn g p \<le> axis_cell mn g q"
proof -
  have gpos: "0 < g" using g by (rule less_le_trans [rotated]) simp
  let ?u = "\<lambda>p. fdiv (fsub p mn) g"
  have nn: "0 \<le> ?u p" "0 \<le> ?u q" using assms(1,2) gpos by (simp_all add: fdiv_def fsub_def f64_round_nonneg)
  have "(q - p) / g \<le> 1 - 1 / 2 ^ 16" using near gpos by (simp add: pos_divide_le_eq)
  then have exact: "(q - mn) / g - (p - mn) / g \<le> 1 - 1 / 2 ^ 16" by (simp flip: diff_divide_distrib)
  have "\<bar>?u p - (p - mn) / g\<bar> \<le> 1 / 2 ^ 18" "\<bar>?u q - (q - mn) / g\<bar> \<le> 1 / 2 ^ 18"
    using assms by (intro axis_quotient_error; simp)+
  then have "?u q \<le> (q - mn) / g + 1 / 2 ^ 18" "(p - mn) / g \<le> ?u p + 1 / 2 ^ 18" using abs_diff_le by blast+
  then have "?u q \<le> ?u p + 1" by (rule close_quotients [OF _ _ exact]) simp
  then have "\<lfloor>?u q\<rfloor> \<le> \<lfloor>?u p + 1\<rfloor>" by (rule floor_mono)
  then show "axis_cell mn g q \<le> axis_cell mn g p + 1" using nn by (simp add: axis_cell_def trunc_def)
  have "?u p \<le> ?u q" using assms(2) gpos
    by (simp add: fdiv_def fsub_def f64_round_mono divide_right_mono)
  then show "axis_cell mn g p \<le> axis_cell mn g q"
    using nn floor_mono by (simp add: axis_cell_def trunc_def)
qed

lemma axis_clamped_close:
  assumes "mn \<le> p" "mn \<le> q" and g: "2 powi (- 900) \<le> g" and "p - mn \<le> 2 ^ 33 * g" "q - mn \<le> 2 ^ 33 * g"
    and near: "\<bar>q - p\<bar> \<le> (1 - 1 / 2 ^ 16) * g"
  shows "\<bar>clamp_cell n (axis_cell mn g p) - clamp_cell n (axis_cell mn g q)\<bar> \<le> 1"
proof (cases "p \<le> q")
  case True
  then show ?thesis using assms by (intro clamp_lipschitz axis_close) auto
next
  case False
  then have "\<bar>clamp_cell n (axis_cell mn g q) - clamp_cell n (axis_cell mn g p)\<bar> \<le> 1"
    using assms by (intro clamp_lipschitz axis_close) auto
  then show ?thesis by (simp add: abs_minus_commute)
qed

lemma near_positions:
  assumes shape: "aoi_shape m" and g: "2 powi (- 900) \<le> gridSize m"
    and big: "maxX m - minX m \<le> 2 ^ 33 * gridSize m" "maxY m - minY m \<le> 2 ^ 33 * gridSize m"
    and cells: "GetGridByPos m p = Some i" "GetGridByPos m q = Some j"
    and dx: "\<bar>X q - X p\<bar> \<le> (1 - 1 / 2 ^ 16) * gridSize m" and dy: "\<bar>Y q - Y p\<bar> \<le> (1 - 1 / 2 ^ 16) * gridSize m"
  shows "near m i j"
proof -
  have b: "in_bounds m p" "in_bounds m q" using cells by (auto simp: GetGridByPos_eq split: if_splits)
  note rp = cell_index_range [OF cell_xy_range [OF shape b(1)]] and rq = cell_index_range [OF cell_xy_range [OF shape b(2)]]
  have ij: "int i = cell_y m p * gridX m + cell_x m p" "int j = cell_y m q * gridX m + cell_x m q"
    using cells b rp(1) rq(1) by (auto simp: GetGridByPos_eq)
  have "\<bar>cell_x m p - cell_x m q\<bar> \<le> 1" "\<bar>cell_y m p - cell_y m q\<bar> \<le> 1"
    unfolding cell_x_def cell_y_def
    using b big g dx dy by (intro axis_clamped_close; simp add: in_bounds_def)+
  then show ?thesis using rp rq by (simp add: near_def ij)
qed

section \<open>Properties\<close>

text \<open>A world with one cell structure and three entities, for concrete instances.\<close>

definition demo_ent :: "eref \<Rightarrow> IEntity" where
  "demo_ent e = \<lparr>EntityId = int e, EntityTyp = 1, Position = \<lparr>X = of_nat e, Y = 1\<rparr>, ViewDistance = 5, AoiNode = None\<rparr>"

definition demo_world :: aoi_world where
  "demo_world = \<lparr>aoi = SetCallbacks True True demo_aoi,
     nodes = (\<lambda>_. \<lparr>Entity = None, Prev = None, Next = None, GridID = InvalidGridID\<rparr>),
     nodePool = [], nnext = 0, ents = demo_ent, trace = []\<rparr>"

lemma no_pick_ok: "pick_ok (\<lambda>_. None)"
  by (simp add: pick_ok_def)

lemma demo_reach: "aoi_reach (\<lambda>_. None) demo_aoi demo_world"
  unfolding demo_world_def by (rule aoi_reach.init) (simp add: demo_ent_def)

lemma demo_ok: "aoi_ok demo_world"
  using aoi_reach_filed [OF demo_aoi_new no_pick_ok demo_reach] unfolding si.filed_def by blast

lemma demo_axis:
  assumes "0 < r" and "r < 10" and "k < 2"
  shows "axis_cell 0 10 (of_nat (10 * k + r)) = int k"
proof -
  let ?n = "of_nat (10 * k + r) :: rat"
  have n: "?n / 10 \<ge> of_nat k + 1 / 10" "?n / 10 \<le> of_nat k + 9 / 10" "0 \<le> ?n / 10" "?n / 10 \<le> 2"
    using assms of_nat_mono [of 1 r, where 'a = rat] of_nat_mono [of r 9, where 'a = rat]
      of_nat_mono [of "10 * k + r" 20, where 'a = rat] by (auto simp: field_simps)
  have "\<bar>f64_round (?n / 10) - ?n / 10\<bar> \<le> (?n / 10) / 2 ^ 53 + 2 powi (- 1075)"
    by (rule f64_round_error [OF n(3)])
  also have "\<dots> \<le> 2 / 2 ^ 53 + 2 powi (- 10)"
    using n(4) by (intro add_mono divide_right_mono powi2_mono) auto
  also have "\<dots> < 1 / 10" by (simp add: power_int_minus_divide)
  finally have "of_nat k \<le> f64_round (?n / 10)" "f64_round (?n / 10) < of_nat k + 1"
    using n(1,2) by linarith+
  moreover from this(1) have "0 \<le> f64_round (?n / 10)" by (rule order_trans [rotated]) simp
  moreover have "f64_round ?n = ?n" using f64_round_of_int [of "int (10 * k + r)"] assms by simp
  ultimately show ?thesis by (simp add: axis_cell_def trunc_def fdiv_def fsub_def floor_eq_iff)
qed

lemma demo_cell: "GetGridByPos demo_aoi \<lparr>X = 2, Y = 1\<rparr> = Some 0" "GetGridByPos demo_aoi \<lparr>X = 3, Y = 1\<rparr> = Some 0"
  "GetGridByPos demo_aoi \<lparr>X = 20, Y = 1\<rparr> = None" "GetGridByPos demo_aoi \<lparr>X = 15, Y = 1\<rparr> = Some 1"
  using demo_axis [of 2 0] demo_axis [of 3 0] demo_axis [of 1 0] demo_axis [of 5 1]
  by (simp_all add: GetGridByPos_def demo_aoi_def GetX_def GetY_def Let_def)

lemma demo_world_cell: "GetGridByPos (aoi demo_world) = GetGridByPos demo_aoi"
  by (simp add: demo_world_def SetCallbacks_def GetGridByPos_eq cell_x_def cell_y_def in_bounds_def fun_eq_iff)



text \<open>\<open>UpdateEntity\<close> always returns. Out of bounds it reports the error and changes
  nothing at all; otherwise the entity stands at the new position in the cell of the new
  position, every other entity where it was, and the structure stays intact.\<close>

theorem UpdateEntity_correct:
  assumes "aoi_ok w" and "pick_ok pick"
  shows "case GetGridByPos (aoi w) p of
           None \<Rightarrow> UpdateEntity pick e p w = Some (Some ErrOutOfBounds, w)
         | Some g \<Rightarrow> \<exists>w'. UpdateEntity pick e p w = Some (None, w') \<and> aoi_ok w'
              \<and> loc w' = (loc w)(e := Some g) \<and> pos_of w' = (pos_of w)(e := p)"
  using UpdateEntity_spec [OF assms, where p = p and e = e]
  by (auto simp: UpdateEntity_def split: option.split)

theorem UpdateEntity_correct_witness:
  "UpdateEntity (\<lambda>_. None) 0 \<lparr>X = 20, Y = 1\<rparr> demo_world = Some (Some ErrOutOfBounds, demo_world)"
  using UpdateEntity_correct [OF demo_ok no_pick_ok, where p = "\<lparr>X = 20, Y = 1\<rparr>" and e = 0] demo_cell(3)
  by (simp add: demo_world_cell)

text \<open>Claim C34: \<open>GetNearbyEntitiesByType\<close> returns, without duplicates, exactly the entities that
  stand in one of the nine cells around the caller, have another id, the requested type (any type
  for \<open>EntityTypeAll\<close>) and are within the caller's view distance.\<close>

theorem GetNearbyEntities_exact:
  assumes "aoi_ok w" and "loc w e = Some i"
  shows "\<exists>res. GetNearbyEntitiesByType e ty w = Some res \<and> distinct res
     \<and> set res = {a. (\<exists>j. loc w a = Some j \<and> near (aoi w) i j)
           \<and> EntityId (ents w a) \<noteq> EntityId (ents w e)
           \<and> (ty = EntityTypeAll \<or> EntityTyp (ents w a) = ty)
           \<and> in_view (pos_of w a) (X (pos_of w e)) (Y (pos_of w e))
                (fmul (ViewDistance (ents w e)) (ViewDistance (ents w e)))}"
  using GetNearby_spec [OF assms, of ty] by (simp add: standing_def)

lemma demo_added:
  "\<exists>w. aoi_ok w \<and> loc w 2 = Some 0 \<and> loc w 3 = Some 0 \<and> geo (aoi w) = geo (aoi demo_world)"
proof -
  have g: "GetGridByPos (aoi demo_world) (pos_of demo_world 2) = Some 0"
    "GetGridByPos (aoi demo_world) (pos_of demo_world 3) = Some 0"
    unfolding demo_world_cell using demo_cell by (simp_all add: demo_world_def pos_of_def demo_ent_def)
  have out: "loc demo_world e = None" for e by (simp add: demo_world_def loc_def demo_ent_def)
  obtain w1 where w1: "aoi_ok w1" "loc w1 = (loc demo_world)(2 := Some 0)" "pos_of w1 = pos_of demo_world"
    "geo (aoi w1) = geo (aoi demo_world)"
    using AddEntity_spec [OF demo_ok no_pick_ok out g(1)] by blast
  have c: "GetGridByPos (aoi w1) (pos_of w1 3) = Some 0" using g(2) w1(3) geo_cong(1) [OF w1(4)] by simp
  have "loc w1 3 = None" using w1(2) out by simp
  from AddEntity_spec [OF w1(1) no_pick_ok this c] obtain w where
    "aoi_ok w" "loc w = (loc w1)(3 := Some 0)" "geo (aoi w) = geo (aoi w1)" by blast
  then show ?thesis using w1 by (intro exI [of _ w]) simp
qed

theorem GetNearbyEntities_exact_witness:
  "\<exists>w res. loc w 2 = Some 0 \<and> GetNearbyEntitiesByType 2 7 w = Some res \<and> distinct res"
proof -
  obtain w where "aoi_ok w" "loc w 2 = Some 0" using demo_added by blast
  with GetNearbyEntities_exact [OF this, of 7] show ?thesis by blast
qed

text \<open>searching nine cells is enough. Whatever rounding does, two positions within
  the bounds whose coordinates differ by at most \<open>1 - 2^-16\<close> of the cell size fall into
  neighbouring cells, provided there are at most \<open>2^33\<close> cells per axis and the cell size is at
  least \<open>2^-900\<close>. So no entity within such a view distance is missed.\<close>

theorem nine_cells_suffice:
  assumes "NewStaticAoi a b c d gsize = Inr m" and "2 powi (- 900) \<le> gsize"
    and "b - a \<le> 2 ^ 33 * gsize" and "d - c \<le> 2 ^ 33 * gsize"
    and "GetGridByPos m p = Some i" and "GetGridByPos m q = Some j"
    and "\<bar>X q - X p\<bar> \<le> (1 - 1 / 2 ^ 16) * gsize" and "\<bar>Y q - Y p\<bar> \<le> (1 - 1 / 2 ^ 16) * gsize"
  shows "near m i j"
proof -
  have "minX m = a" "maxX m = b" "minY m = c" "maxY m = d" "gridSize m = gsize"
    using assms(1) by (auto simp: NewStaticAoi_def Let_def split: if_splits)
  then show ?thesis using assms by (intro near_positions [OF NewStaticAoi_shape [OF assms(1)]]) simp_all
qed

theorem nine_cells_suffice_witness: "near demo_aoi 0 0"
proof (rule nine_cells_suffice [OF demo_aoi_new _ _ _ demo_cell(1,2)])
  have "(2 :: rat) powi (- 900) \<le> 2 powi 0" by (rule powi2_mono) simp
  then show "(2 :: rat) powi (- 900) \<le> 10" by simp
qed simp_all

lemma notify_one_first:
  assumes "a \<noteq> e"
  shows "(cb, e, a) \<in> set (notify_one E cb e sid px py v a') \<longleftrightarrow>
    a' = a \<and> EntityId (E a) \<noteq> sid \<and> in_view (Position (E a)) px py v"
  using assms by (auto simp: notify_one_def in_view_def Let_def)


lemma geo_callbacks: "geo m = geo m' \<Longrightarrow> onEnter m = onEnter m' \<and> onLeave m = onLeave m'"
  by (cases m; cases m') (simp add: geo_def)


lemma stats_fold:
  "fold (\<lambda>grid (total, mn, mx). let cnt = grid_count grid
       in (total + cnt, if cnt < mn then cnt else mn, if cnt > mx then cnt else mx)) gs (t, mn, mx)
   = (t + sum_list (map grid_count gs), fold min (map grid_count gs) mn, fold max (map grid_count gs) mx)"
  by (induction gs arbitrary: t mn mx) (auto simp: Let_def min_def max_def add.assoc)

lemma fold_min_le: "fold min (xs :: int list) m \<le> m \<and> (\<forall>x \<in> set xs. fold min xs m \<le> x)"
proof (induction xs arbitrary: m)
  case (Cons x xs)
  show ?case using Cons.IH [of "min x m"] by auto
qed simp

lemma fold_min_ge: "b \<le> m \<Longrightarrow> \<forall>x \<in> set xs. b \<le> x \<Longrightarrow> (b :: int) \<le> fold min xs m"
  by (induction xs arbitrary: m) auto

lemma GetGridStats_fields:
  "total_entities (GetGridStats m) = sum_list (map grid_count (grids m))"
  "min_entities_per_grid (GetGridStats m) = fold min (map grid_count (grids m)) 2147483647"
  unfolding GetGridStats_def stats_fold by (simp_all add: Let_def)

text \<open>the statistics count every entity once, and on a manager without entities the
  reported minimum per cell is 0 (not the initial value \<open>math.MaxInt32\<close>), because the empty cells
  count.\<close>

theorem GetGridStats_correct:
  assumes "aoi_ok w"
  shows "total_entities (GetGridStats (aoi w)) = int (card {e. loc w e \<noteq> None})
         \<and> ((\<forall>e. loc w e = None) \<longrightarrow> min_entities_per_grid (GetGridStats (aoi w)) = 0)"
proof -
  obtain L where rep: "aoi_rep w L" using assms by (rule aoi_ok_rep)
  let ?n = "length (grids (aoi w))"
  have cnt: "grid_count (grids (aoi w) ! i) = int (card {e. loc w e = Some i})" if "i < ?n" for i
  proof -
    have "cell_ok w i (L i)" using rep that by (simp add: aoi_rep_def)
    then have "grid_count (grids (aoi w) ! i) = int (length (cell_ents w (L i)))"
      by (simp add: cell_ok_def cell_ents_def grid_at_def)
    then show ?thesis using distinct_card [OF cell_ents_loc(1) [OF rep that]] cell_ents_loc(2) [OF rep that] by simp
  qed
  have fin: "finite {e. loc w e = Some i}" if "i < ?n" for i
    using cell_ents_loc(2) [OF rep that] by (metis List.finite_set)
  have counts: "map grid_count (grids (aoi w)) = map (\<lambda>i. int (card {e. loc w e = Some i})) [0..<?n]"
    by (rule nth_equalityI) (simp_all add: cnt)
  have "sum_list (map grid_count (grids (aoi w))) = (\<Sum>i<?n. int (card {e. loc w e = Some i}))"
    unfolding counts by (simp add: sum_list_distinct_conv_sum_set lessThan_atLeast0)
  also have "\<dots> = int (card (\<Union>i<?n. {e. loc w e = Some i}))"
    using fin by (subst card_UN_disjoint) auto
  also have "(\<Union>i<?n. {e. loc w e = Some i}) = {e. loc w e \<noteq> None}"
    using loc_bound [OF rep] by auto
  finally have total: "sum_list (map grid_count (grids (aoi w))) = int (card {e. loc w e \<noteq> None})" .
  have "min_entities_per_grid (GetGridStats (aoi w)) = 0" if none: "\<forall>e. loc w e = None"
  proof -
    have "int ?n = gridX (aoi w) * gridY (aoi w)" "0 < gridX (aoi w)" "0 < gridY (aoi w)"
      using rep by (auto simp: aoi_rep_def aoi_shape_def)
    then have "0 < ?n" by (metis of_nat_0_less_iff zero_less_mult_iff)
    then have "0 \<in> set (map grid_count (grids (aoi w)))" "\<forall>x \<in> set (map grid_count (grids (aoi w))). 0 \<le> x"
      unfolding counts using none by (auto intro!: image_eqI [of _ _ 0])
    then have "fold min (map grid_count (grids (aoi w))) 2147483647 = 0"
      using fold_min_le [of "map grid_count (grids (aoi w))" 2147483647]
        fold_min_ge [of 0 2147483647 "map grid_count (grids (aoi w))"] by force
    then show ?thesis by (simp add: GetGridStats_fields)
  qed
  then show ?thesis using total by (simp add: GetGridStats_fields)
qed

theorem GetGridStats_correct_witness:
  "min_entities_per_grid (GetGridStats (aoi demo_world)) = 0"
  using GetGridStats_correct [OF demo_ok] by (simp add: demo_world_def loc_def demo_ent_def)

end
