(* ===== verification/ZGroup.thy ===== *)
theory ZGroup
  imports ZModel
begin

text \<open>
  \<open>zactor/group.go\<close>, \<open>zactor/router.go\<close>, \<open>zactor/watchdog.go\<close>: the actors of one process, the
  local and remote routing tables, start-up with rollback, supervision of the actors' goroutines
  and the detector of blocked handlers. An actor object is a reference (\<open>aref\<close>); what the
  group reads of it (its configuration, its message identifiers, when its handler started) is
  an argument of the operation that reads it. The concurrent maps of \<open>zcoll\<close> are maps; the order
  in which their \<open>Range\<close> visits the keys is the argument \<open>order\<close>, of which the code
  relies on \<open>ranges\<close>. Logging, metrics and stack dumps are not modelled.
\<close>

type_synonym aref = nat

section \<open>Data\<close>

record ActorItem =
  IActor :: aref
  item_count :: i64

record otherRouteTableSnapshot =
  snap_version :: i64
  snap_table :: "i32 \<rightharpoonup> ActorConfig list"

record Watchdog =
  threshold :: i64
  interval :: i64
  cooldown :: i64
  maxDumpBytes :: int
  lastDump :: "u64 \<rightharpoonup> i64"

record Group =
  actors :: "u64 \<rightharpoonup> ActorItem"
  otherActors :: "u64 \<rightharpoonup> ActorConfig"
  process :: u64
  isSingle :: bool
  scriptEngines :: "string \<rightharpoonup> nat"
  msgRouteTable :: "i32 \<rightharpoonup> aref list"
  otherActorsVersion :: i64
  otherRouteSnapshot :: otherRouteTableSnapshot
  watchdog :: "Watchdog option"
  g_closed :: bool

definition NewGroup :: "u64 \<Rightarrow> bool \<Rightarrow> Group" where
  "NewGroup proc single = \<lparr>actors = Map.empty, otherActors = Map.empty, process = proc,
     isSingle = single, scriptEngines = Map.empty, msgRouteTable = Map.empty, otherActorsVersion = 0,
     otherRouteSnapshot = \<lparr>snap_version = 0, snap_table = Map.empty\<rparr>, watchdog = None, g_closed = False\<rparr>"

text \<open>Reading a Go map of slices: a missing key is the nil slice.\<close>

definition list_at :: "('k \<rightharpoonup> 'v list) \<Rightarrow> 'k \<Rightarrow> 'v list" where
  "list_at m k = (case m k of None \<Rightarrow> [] | Some l \<Rightarrow> l)"

definition ranges :: "'k list \<Rightarrow> ('k \<rightharpoonup> 'v) \<Rightarrow> bool" where
  "ranges order m \<longleftrightarrow> distinct order \<and> set order = dom m"

definition items :: "'k list \<Rightarrow> ('k \<rightharpoonup> 'v) \<Rightarrow> ('k \<times> 'v) list" where
  "items order m = map (\<lambda>k. (k, the (m k))) order"

datatype group_error = ErrNotFound | ErrInternal

section \<open>Local actors\<close>

text \<open>\<open>sort.Slice\<close> is not stable; with \<open>order\<close> arbitrary, a stable sort of the collected items
  gives every result it can give at index 0.\<close>

definition FindPoolActorByType ::
  "(aref \<Rightarrow> ActorConfig) \<Rightarrow> u64 list \<Rightarrow> u32 \<Rightarrow> Group \<Rightarrow> (group_error + ActorConfig) \<times> Group" where
  "FindPoolActorByType cfg order actorType g =
    (let res = filter (\<lambda>(k, v). GetActorType (cfg (IActor v)) = actorType) (items order (actors g))
     in if length res = 0 then (Inl ErrNotFound, g)
        else (let res = sort_key (\<lambda>(k, v). sint (item_count v)) res;
                  (k, v) = hd res;
                  v = v\<lparr>item_count := item_count v + 1\<rparr>
              in (Inr (cfg (IActor v)), g\<lparr>actors := (actors g)(k \<mapsto> v)\<rparr>)))"

definition AddActor :: "(aref \<Rightarrow> ActorConfig) \<Rightarrow> aref \<Rightarrow> Group \<Rightarrow> Group" where
  "AddActor cfg iActor g =
    g\<lparr>actors := (actors g)(GetActorId (cfg iActor) \<mapsto> \<lparr>IActor = iActor, item_count = 0\<rparr>)\<rparr>"

definition RegisterRoutes_one :: "aref \<Rightarrow> i32 \<Rightarrow> (i32 \<rightharpoonup> aref list) \<Rightarrow> (i32 \<rightharpoonup> aref list)" where
  "RegisterRoutes_one actor msgID newTable =
    (let list = list_at newTable msgID
     in if actor \<in> set list then newTable
        else newTable(msgID \<mapsto> list @ [actor]))"

definition RegisterRoutes :: "aref option \<Rightarrow> i32 list \<Rightarrow> Group \<Rightarrow> Group" where
  "RegisterRoutes actor msgIDs g =
    (case actor of
       None \<Rightarrow> g
     | Some actor \<Rightarrow>
        if length msgIDs = 0 then g
        else g\<lparr>msgRouteTable := fold (RegisterRoutes_one actor) msgIDs (msgRouteTable g)\<rparr>)"

definition LookupActorsByMsgIDView :: "i32 \<Rightarrow> Group \<Rightarrow> aref list" where
  "LookupActorsByMsgIDView msgID g =
    (case msgRouteTable g msgID of
       None \<Rightarrow> []
     | Some list \<Rightarrow> if length list = 0 then [] else list)"

definition LookupActorsByMsgID :: "i32 \<Rightarrow> Group \<Rightarrow> aref list" where
  "LookupActorsByMsgID msgID g =
    (case msgRouteTable g msgID of
       None \<Rightarrow> []
     | Some list \<Rightarrow> if length list = 0 then [] else take (length list) list)"

definition GetActorById :: "u64 \<Rightarrow> Group \<Rightarrow> aref option" where
  "GetActorById actorId g = (case actors g actorId of Some a \<Rightarrow> Some (IActor a) | None \<Rightarrow> None)"

definition GetOtherActorById :: "u64 \<Rightarrow> Group \<Rightarrow> ActorConfig option" where
  "GetOtherActorById actorId g = otherActors g actorId"

definition GetActors :: "u64 list \<Rightarrow> Group \<Rightarrow> aref list" where
  "GetActors order g = map (\<lambda>(k, v). IActor v) (items order (actors g))"

definition GetOtherActorConfigs :: "u64 list \<Rightarrow> Group \<Rightarrow> ActorConfig list" where
  "GetOtherActorConfigs order g = map snd (items order (otherActors g))"

text \<open>\<open>router.go\<close>: \<open>Group\<close> implements the view interface, so the first branch is taken; a nil
  group or message is \<open>None\<close>.\<close>

definition RouteLocal :: "Group option \<Rightarrow> message option \<Rightarrow> group_error + aref" where
  "RouteLocal grp msg =
    (case (grp, msg) of
       (Some g, Some m) \<Rightarrow>
         (let actors = LookupActorsByMsgIDView (MsgId m) g
          in if length actors = 0 then Inl ErrNotFound else Inr (actors ! 0))
     | _ \<Rightarrow> Inl ErrInternal)"

section \<open>Remote actors\<close>

text \<open>\<open>watchActor\<close>: the bulk load before watching, then one iteration of its loop per change.
  The writes of the map and the increment of the version are separate atomic steps of the
  code, so they are separate definitions here.\<close>

definition watch_load_item :: "ActorServerRegister \<Rightarrow> Group \<Rightarrow> Group" where
  "watch_load_item item g =
    (if (ucast (Process (RegConfig item)) :: u64) = process g then g
     else g\<lparr>otherActors := (otherActors g)(Id (RegConfig item) \<mapsto> RegConfig item)\<rparr>)"

definition watch_bump :: "Group \<Rightarrow> Group" where
  "watch_bump g = g\<lparr>otherActorsVersion := otherActorsVersion g + 1\<rparr>"

definition watch_write :: "ActorConfig \<Rightarrow> Group \<Rightarrow> Group" where
  "watch_write cfg g =
    (if ActorType cfg \<le> 0 then g\<lparr>otherActors := (otherActors g)(Id cfg := None)\<rparr>
     else g\<lparr>otherActors := (otherActors g)(Id cfg \<mapsto> cfg)\<rparr>)"

definition watchActor_start :: "bool \<Rightarrow> ActorServerRegister list \<Rightarrow> Group \<Rightarrow> Group" where
  "watchActor_start hasDiscoverer prefixItems g =
    (if isSingle g then g
     else if \<not> hasDiscoverer then g
     else watch_bump (fold watch_load_item prefixItems g))"

definition watchActor_event :: "ActorConfig \<Rightarrow> Group \<Rightarrow> Group" where
  "watchActor_event cfg g = (if Id cfg \<le> 0 then g else watch_bump (watch_write cfg g))"

definition table_add :: "ActorConfig \<Rightarrow> (i32 \<rightharpoonup> ActorConfig list) \<Rightarrow> (i32 \<rightharpoonup> ActorConfig list)" where
  "table_add cfg table = fold (\<lambda>mid t. t(mid \<mapsto> list_at t mid @ [cfg])) (SupportedMsgIDs cfg) table"

definition other_table :: "u64 list \<Rightarrow> Group \<Rightarrow> (i32 \<rightharpoonup> ActorConfig list)" where
  "other_table order g = fold table_add (GetOtherActorConfigs order g) Map.empty"

text \<open>The second check under the mutex sees the same state as the first, as the operation is one
  step here.\<close>

definition LookupOtherActorConfigsByMsgIDView ::
  "u64 list \<Rightarrow> i32 \<Rightarrow> Group \<Rightarrow> ActorConfig list \<times> Group" where
  "LookupOtherActorConfigsByMsgIDView order msgID g =
    (if msgID = 0 then ([], g)
     else (let currentVer = otherActorsVersion g; snap = otherRouteSnapshot g
           in if snap_version snap = currentVer then (list_at (snap_table snap) msgID, g)
              else (let table = other_table order g;
                        g = g\<lparr>otherRouteSnapshot := \<lparr>snap_version = currentVer, snap_table = table\<rparr>\<rparr>
                    in (list_at table msgID, g))))"

definition LookupOtherActorConfigsByMsgID ::
  "u64 list \<Rightarrow> i32 \<Rightarrow> Group \<Rightarrow> ActorConfig list \<times> Group" where
  "LookupOtherActorConfigsByMsgID order msgID g =
    (let (list, g) = LookupOtherActorConfigsByMsgIDView order msgID g
     in (if length list > 0 then take (length list) list else [], g))"

section \<open>Start-up\<close>

text \<open>What starting the group does to its actors and to the discovery service, in order.
  \<open>disc\<close> is whether a discoverer is set; the results of \<open>Init\<close> and \<open>RunServer\<close> are arguments
  (\<open>None\<close> for an actor that is no \<open>IServerActor\<close>).\<close>

datatype run_event = EvRegister ActorConfig | EvInit aref | EvRunServer aref | EvClose aref
  | EvUnregister ActorConfig | EvWatch | EvWorker aref | EvTick

definition register :: "bool \<Rightarrow> ActorConfig \<Rightarrow> run_event list" where
  "register disc a = (if \<not> disc then [] else [EvRegister a])"

text \<open>\<open>msgList\<close> is the key set of the handler map, as a list without repetition in any order.\<close>

definition registerActor :: "bool \<Rightarrow> (aref \<Rightarrow> ActorConfig) \<Rightarrow> (aref \<Rightarrow> i32 list) \<Rightarrow> ActorItem \<Rightarrow> run_event list" where
  "registerActor disc cfg msgList item =
    (let c = cfg (IActor item); ml = msgList (IActor item);
         c = (if length ml > 0 then c\<lparr>SupportedMsgIDs := sort_key sint ml\<rparr> else c)
     in register disc c)"

definition unregisterActor :: "bool \<Rightarrow> (aref \<Rightarrow> ActorConfig) \<Rightarrow> ActorItem \<Rightarrow> run_event list" where
  "unregisterActor disc cfg item = (if \<not> disc then [] else [EvUnregister (cfg (IActor item))])"

definition rollbackRunInit ::
  "bool \<Rightarrow> (aref \<Rightarrow> ActorConfig) \<Rightarrow> ActorItem list \<Rightarrow> ActorItem \<Rightarrow> bool \<Rightarrow> run_event list" where
  "rollbackRunInit disc cfg succeeded failed initFailed =
    concat (map (\<lambda>item. EvClose (IActor item) # unregisterActor disc cfg item) (rev succeeded))
    @ (if \<not> initFailed then [EvClose (IActor failed)] else [])
    @ unregisterActor disc cfg failed"

fun Run_init ::
  "bool \<Rightarrow> (aref \<Rightarrow> ActorConfig) \<Rightarrow> (aref \<Rightarrow> i32 list) \<Rightarrow> (aref \<Rightarrow> bool) \<Rightarrow> (aref \<Rightarrow> bool option)
   \<Rightarrow> ActorItem list \<Rightarrow> ActorItem list \<Rightarrow> run_event list \<Rightarrow> (group_error + unit) \<times> run_event list" where
  "Run_init disc cfg msgList initOk server [] succeeded tr = (Inr (), tr)"
| "Run_init disc cfg msgList initOk server (item # rest) succeeded tr =
    (let tr = tr @ registerActor disc cfg msgList item @ [EvInit (IActor item)]
     in if \<not> initOk (IActor item)
        then (Inl ErrInternal, tr @ rollbackRunInit disc cfg succeeded item True)
        else (case server (IActor item) of
            None \<Rightarrow> Run_init disc cfg msgList initOk server rest (succeeded @ [item]) tr
          | Some ok \<Rightarrow>
             (let tr = tr @ [EvRunServer (IActor item)]
              in if \<not> ok then (Inl ErrInternal, tr @ rollbackRunInit disc cfg succeeded item False)
                 else Run_init disc cfg msgList initOk server rest (succeeded @ [item]) tr)))"

definition StartWorkers :: "u64 list \<Rightarrow> Group \<Rightarrow> run_event list" where
  "StartWorkers order g = map (\<lambda>(k, v). EvWorker (IActor v)) (items order (actors g))"

definition Group_Run ::
  "bool \<Rightarrow> (aref \<Rightarrow> ActorConfig) \<Rightarrow> (aref \<Rightarrow> i32 list) \<Rightarrow> (aref \<Rightarrow> bool) \<Rightarrow> (aref \<Rightarrow> bool option)
   \<Rightarrow> u64 list \<Rightarrow> u64 list \<Rightarrow> Group \<Rightarrow> (group_error + unit) \<times> run_event list" where
  "Group_Run disc cfg msgList initOk server order order' g =
    (let actorItems = sort_key (\<lambda>item. GetActorId (cfg (IActor item))) (map snd (items order (actors g)));
         (r, tr) = Run_init disc cfg msgList initOk server actorItems [] []
     in case r of
          Inl e \<Rightarrow> (Inl e, tr)
        | Inr _ \<Rightarrow> (Inr (), tr @ [EvWatch] @ StartWorkers order' g @ [EvTick]))"

section \<open>Shutdown and script engines\<close>

text \<open>The trace of closed actors and closed engines.\<close>

definition CloseScriptEngines :: "string list \<Rightarrow> Group \<Rightarrow> nat list \<times> Group" where
  "CloseScriptEngines order g =
    (map snd (items order (scriptEngines g)), g\<lparr>scriptEngines := Map.empty\<rparr>)"

definition Group_Close :: "u64 list \<Rightarrow> string list \<Rightarrow> Group \<Rightarrow> run_event list \<times> nat list \<times> Group" where
  "Group_Close order eorder g =
    (if g_closed g then ([], [], g)
     else (let closed = map (\<lambda>(k, v). EvClose (IActor v)) (items order (actors g));
               (engines, g) = CloseScriptEngines eorder (g\<lparr>g_closed := True\<rparr>)
           in (closed, engines, g)))"

definition GetScriptEngine :: "string \<Rightarrow> Group \<Rightarrow> nat option" where
  "GetScriptEngine engineType g = scriptEngines g engineType"

definition SetScriptEngine :: "string \<Rightarrow> nat option \<Rightarrow> Group \<Rightarrow> Group" where
  "SetScriptEngine engineType engine g =
    (case engine of
       None \<Rightarrow> g
     | Some e \<Rightarrow> g\<lparr>scriptEngines := (scriptEngines g)(engineType \<mapsto> e)\<rparr>)"

section \<open>Supervision\<close>

definition defaultMaxRestarts :: int where "defaultMaxRestarts = 3"
definition Second :: int where "Second = 1000000000"

definition max_restarts :: "ActorConfig \<Rightarrow> int" where
  "max_restarts cfg = (if MaxRestarts cfg > 0 then uint (MaxRestarts cfg) else defaultMaxRestarts)"

definition restart_backoff :: "int \<Rightarrow> int" where
  "restart_backoff restarts =
    (let backoff = push_bit (nat (min (restarts - 1) 5)) Second
     in if backoff > 30 * Second then 30 * Second else backoff)"

datatype supervise_result = GracefulStop | GiveUp | Restart int

text \<open>One return of the actor's \<open>Run\<close>: whether the context is done, the clock when it returned
  and the clock when the restart is recorded; the state is \<open>(restarts, lastRestart)\<close>.\<close>

record run_return =
  ctx_done :: bool
  returned_at :: int
  restarted_at :: int

definition superviseActor_step :: "int \<Rightarrow> run_return \<Rightarrow> int \<times> int \<Rightarrow> supervise_result \<times> int \<times> int" where
  "superviseActor_step maxRestarts rr s =
    (let (restarts, lastRestart) = s; restartWindow = 30 * Second
     in if ctx_done rr then (GracefulStop, restarts, lastRestart)
        else (let restarts = (if returned_at rr - lastRestart > restartWindow then 0 else restarts);
                  restarts = restarts + 1
              in if restarts > maxRestarts then (GiveUp, restarts, lastRestart)
                 else (Restart (restart_backoff restarts), restarts, restarted_at rr)))"

fun superviseActor :: "int \<Rightarrow> int \<times> int \<Rightarrow> run_return list \<Rightarrow> supervise_result list" where
  "superviseActor maxRestarts s [] = []"
| "superviseActor maxRestarts s (rr # rest) =
    (let (r, s) = superviseActor_step maxRestarts rr s
     in case r of Restart b \<Rightarrow> r # superviseActor maxRestarts s rest | _ \<Rightarrow> [r])"

section \<open>Watchdog\<close>

definition newWatchdog :: "i64 \<Rightarrow> Watchdog" where
  "newWatchdog thr = \<lparr>threshold = thr, interval = 200000000, cooldown = 10000000000,
     maxDumpBytes = 64 * 1024, lastDump = Map.empty\<rparr>"

definition EnableWatchdog :: "i64 \<Rightarrow> Group \<Rightarrow> Group" where
  "EnableWatchdog thr g = (if sint thr \<le> 0 then g else g\<lparr>watchdog := Some (newWatchdog thr)\<rparr>)"

text \<open>One visit of the scan. \<open>started\<close> is \<open>GetProcessingStart\<close> of the visited object, \<open>None\<close>
  for an object whose dynamic type is not \<open>*Actor\<close>. The trace collects the reported ids.\<close>

definition scan_one ::
  "i64 \<Rightarrow> (aref \<Rightarrow> i64 option) \<Rightarrow> u64 \<times> ActorItem \<Rightarrow> u64 list \<times> Watchdog \<Rightarrow> u64 list \<times> Watchdog" where
  "scan_one now started ki rw =
    (let (actorId, item) = ki; (reports, w) = rw
     in case started (IActor item) of
          None \<Rightarrow> (reports, w)
        | Some startNano \<Rightarrow>
           if startNano = 0 then (reports, w)
           else (let blocked = now - startNano
                 in if sint blocked < sint (threshold w) then (reports, w)
                    else if (case lastDump w actorId of
                               Some prev \<Rightarrow> sint (now - prev) < sint (cooldown w)
                             | None \<Rightarrow> False) then (reports, w)
                    else (reports @ [actorId], w\<lparr>lastDump := (lastDump w)(actorId \<mapsto> now)\<rparr>)))"

definition scan :: "i64 \<Rightarrow> (aref \<Rightarrow> i64 option) \<Rightarrow> u64 list \<Rightarrow> Group \<Rightarrow> Watchdog \<Rightarrow> u64 list \<times> Watchdog" where
  "scan now started order g w = fold (scan_one now started) (items order (actors g)) ([], w)"


section \<open>Local routing\<close>

lemma list_at_upd [simp]: "list_at (m(k \<mapsto> l)) k' = (if k' = k then l else list_at m k')"
  by (simp add: list_at_def)

lemma list_at_empty [simp]: "list_at Map.empty k = []"
  by (simp add: list_at_def)

lemma LookupView_list_at [group_simps]: "LookupActorsByMsgIDView m g = list_at (msgRouteTable g) m"
  by (simp add: LookupActorsByMsgIDView_def list_at_def split: option.split)

lemma list_at_RegisterRoutes_one:
  "list_at (RegisterRoutes_one a i t) m =
     (if m = i \<and> a \<notin> set (list_at t m) then list_at t m @ [a] else list_at t m)"
  by (simp add: RegisterRoutes_one_def Let_def)

lemma list_at_RegisterRoutes:
  "list_at (fold (RegisterRoutes_one a) ids t) m =
     (if m \<in> set ids \<and> a \<notin> set (list_at t m) then list_at t m @ [a] else list_at t m)"
  by (induction ids arbitrary: t) (auto simp: list_at_RegisterRoutes_one)

text \<open>registering the routes of an actor appends it exactly once to the candidates of each
  listed message identifier that does not have it yet and changes no other entry; both lookups
  return the same candidates, and a message is routed to the actor registered first for it.\<close>

theorem RegisterRoutes_correct:
  "let g' = RegisterRoutes (Some a) ids g
   in LookupActorsByMsgIDView m g' =
        (if m \<in> set ids \<and> a \<notin> set (LookupActorsByMsgIDView m g)
         then LookupActorsByMsgIDView m g @ [a] else LookupActorsByMsgIDView m g)
      \<and> LookupActorsByMsgID m g' = LookupActorsByMsgIDView m g'
      \<and> RouteLocal (Some g') (Some (msg\<lparr>MsgId := m\<rparr>)) =
          (case LookupActorsByMsgIDView m g of
             b # _ \<Rightarrow> Inr b
           | [] \<Rightarrow> if m \<in> set ids then Inr a else Inl ErrNotFound)"
proof -
  have upd: "LookupActorsByMsgIDView m (RegisterRoutes (Some a) ids g) =
        (if m \<in> set ids \<and> a \<notin> set (LookupActorsByMsgIDView m g)
         then LookupActorsByMsgIDView m g @ [a] else LookupActorsByMsgIDView m g)"
    by (simp add: group_simps RegisterRoutes_def list_at_RegisterRoutes)
  have "LookupActorsByMsgID m g' = LookupActorsByMsgIDView m g'" for g' :: Group
    by (simp add: LookupActorsByMsgID_def LookupActorsByMsgIDView_def split: option.split)
  then show ?thesis
    using upd by (auto simp: RouteLocal_def Let_def split: list.split)
qed

section \<open>Remote routing\<close>

lemma list_at_table_add:
  "set (list_at (table_add c t) m) = set (list_at t m) \<union> (if m \<in> set (SupportedMsgIDs c) then {c} else {})"
proof -
  have "set (list_at (fold (\<lambda>mid t. t(mid \<mapsto> list_at t mid @ [c])) ids t) m)
      = set (list_at t m) \<union> (if m \<in> set ids then {c} else {})" for ids
    by (induction ids arbitrary: t) auto
  then show ?thesis by (simp add: table_add_def)
qed

lemma list_at_tables:
  "set (list_at (fold table_add cs t) m) = set (list_at t m) \<union> {c \<in> set cs. m \<in> set (SupportedMsgIDs c)}"
  by (induction cs arbitrary: t) (auto simp: list_at_table_add)

lemma set_items: "ranges order m \<Longrightarrow> set (items order m) = {(k, v). m k = Some v}"
  by (auto simp: ranges_def items_def image_iff)

lemma set_other_configs:
  "ranges order (otherActors g) \<Longrightarrow> set (GetOtherActorConfigs order g) = ran (otherActors g)"
  by (auto simp: GetOtherActorConfigs_def set_items ran_def image_iff)

lemma other_table_set:
  "ranges order (otherActors g) \<Longrightarrow>
     set (list_at (other_table order g) m) = {c \<in> ran (otherActors g). m \<in> set (SupportedMsgIDs c)}"
  by (simp add: other_table_def list_at_tables set_other_configs)

text \<open>The steps of the watching goroutine and of the routing goroutines, interleaved. The flag
  says that a write of the remote actors has not been followed by its version increment yet. The
  guard of \<open>bump\<close> is that the 64-bit version does not wrap around.\<close>

inductive grp_step :: "Group \<times> bool \<Rightarrow> Group \<times> bool \<Rightarrow> bool" where
  load_item: "grp_step (g, d) (watch_load_item it g, True)"
| write_cfg: "grp_step (g, d) (watch_write cfg g, True)"
| bump: "unat (otherActorsVersion g) < 2 ^ 64 - 1 \<Longrightarrow> grp_step (g, d) (watch_bump g, False)"
| lookup: "ranges order (otherActors g) \<Longrightarrow>
    grp_step (g, d) (snd (LookupOtherActorConfigsByMsgIDView order m g), d)"
| local_routes: "grp_step (g, d) (RegisterRoutes a ids g, d)"
| local_actor: "grp_step (g, d) (AddActor cf b g, d)"
| local_pool: "grp_step (g, d) (snd (FindPoolActorByType cf order t g), d)"

inductive grp_reach :: "Group \<Rightarrow> bool \<Rightarrow> bool" where
  start: "grp_reach (NewGroup p single) False"
| step: "grp_reach g d \<Longrightarrow> grp_step (g, d) (g', d') \<Longrightarrow> grp_reach g' d'"

definition remote_inv :: "Group \<Rightarrow> bool \<Rightarrow> bool" where
  "remote_inv g d \<longleftrightarrow>
     unat (snap_version (otherRouteSnapshot g)) \<le> unat (otherActorsVersion g)
     \<and> (\<not> d \<and> snap_version (otherRouteSnapshot g) = otherActorsVersion g \<longrightarrow>
          (\<forall>m. set (list_at (snap_table (otherRouteSnapshot g)) m)
               = {c \<in> ran (otherActors g). m \<in> set (SupportedMsgIDs c)}))"

lemma remote_inv_frame:
  "remote_inv g d \<Longrightarrow> otherActors g' = otherActors g \<Longrightarrow> otherActorsVersion g' = otherActorsVersion g \<Longrightarrow>
   otherRouteSnapshot g' = otherRouteSnapshot g \<Longrightarrow> remote_inv g' d"
  by (simp add: remote_inv_def)

lemma remote_inv_dirty:
  "remote_inv g d \<Longrightarrow> otherActorsVersion g' = otherActorsVersion g \<Longrightarrow>
   otherRouteSnapshot g' = otherRouteSnapshot g \<Longrightarrow> remote_inv g' True"
  by (simp add: remote_inv_def)

lemma remote_inv_bump:
  assumes "remote_inv g d" and "unat (otherActorsVersion g) < 2 ^ 64 - 1"
  shows "remote_inv (watch_bump g) False"
proof -
  have "unat (otherActorsVersion g + 1) = unat (otherActorsVersion g) + 1"
    using assms(2) by (simp add: unat_word_ariths)
  then show ?thesis using assms(1)
    by (auto simp: remote_inv_def watch_bump_def)
qed

lemma remote_inv_lookup:
  assumes "remote_inv g d" and "ranges order (otherActors g)"
  shows "remote_inv (snd (LookupOtherActorConfigsByMsgIDView order m g)) d"
  using assms
  by (auto simp: LookupOtherActorConfigsByMsgIDView_def Let_def remote_inv_def other_table_set)

lemma grp_step_inv:
  assumes "grp_step s s'" and "remote_inv (fst s) (snd s)"
  shows "remote_inv (fst s') (snd s')"
  using assms
proof (induction rule: grp_step.induct)
  case (load_item g d it)
  then show ?case by (auto simp: watch_load_item_def intro: remote_inv_dirty)
next
  case (write_cfg g d cfg)
  then show ?case by (auto simp: watch_write_def intro: remote_inv_dirty)
next
  case (local_routes g d a ids)
  then show ?case by (auto simp: RegisterRoutes_def intro: remote_inv_frame split: option.split)
next
  case (local_actor g d cf b)
  then show ?case by (auto simp: AddActor_def intro: remote_inv_frame)
next
  case (local_pool g d cf order t)
  then show ?case
    by (auto simp: FindPoolActorByType_def Let_def intro: remote_inv_frame split: prod.split)
qed (simp_all add: remote_inv_bump remote_inv_lookup)

lemma grp_reach_inv: "grp_reach g d \<Longrightarrow> remote_inv g d"
proof (induction rule: grp_reach.induct)
  case (start p single)
  then show ?case by (simp add: remote_inv_def NewGroup_def)
next
  case (step g d g' d')
  then show ?case using grp_step_inv [of "(g, d)" "(g', d')"] by simp
qed



section \<open>Load balancing\<close>

definition of_type :: "(aref \<Rightarrow> ActorConfig) \<Rightarrow> u32 \<Rightarrow> Group \<Rightarrow> u64 \<Rightarrow> ActorItem \<Rightarrow> bool" where
  "of_type cfg t g k v \<longleftrightarrow> actors g k = Some v \<and> ActorType (cfg (IActor v)) = t"

definition level :: "(aref \<Rightarrow> ActorConfig) \<Rightarrow> u32 \<Rightarrow> int \<Rightarrow> Group \<Rightarrow> bool" where
  "level cfg t n g \<longleftrightarrow> (\<forall>k v. of_type cfg t g k v \<longrightarrow> sint (item_count v) = n \<or> sint (item_count v) = n + 1)"

lemma hd_sort_key_min:
  assumes "xs \<noteq> []"
  shows "hd (sort_key f xs) \<in> set xs \<and> (\<forall>x \<in> set xs. f (hd (sort_key f xs)) \<le> f x)"
proof -
  obtain y ys where y: "sort_key f xs = y # ys"
    using assms by (metis length_0_conv length_sort neq_Nil_conv)
  have "set (y # ys) = set xs" unfolding y [symmetric] by simp
  moreover have "sorted (map f (y # ys))" unfolding y [symmetric] by simp
  ultimately show ?thesis unfolding y by auto
qed

text \<open>The shape of a successful pick: one item of the type, of least count, is counted up.\<close>

lemma FindPool_cases:
  assumes "ranges order (actors g)"
  obtains (none) "FindPoolActorByType cfg order t g = (Inl ErrNotFound, g)"
      "\<And>k v. \<not> of_type cfg t g k v"
  | (some) k v where "of_type cfg t g k v"
      "\<And>k' v'. of_type cfg t g k' v' \<Longrightarrow> sint (item_count v) \<le> sint (item_count v')"
      "FindPoolActorByType cfg order t g =
        (Inr (cfg (IActor v)), g\<lparr>actors := (actors g)(k \<mapsto> v\<lparr>item_count := item_count v + 1\<rparr>)\<rparr>)"
proof -
  let ?res = "filter (\<lambda>(k, v). GetActorType (cfg (IActor v)) = t) (items order (actors g))"
  have set_res: "set ?res = {(k, v). of_type cfg t g k v}"
    using set_items [OF assms] by (auto simp: of_type_def GetActorType_def)
  show ?thesis
  proof (cases "?res = []")
    case True
    then have "\<not> of_type cfg t g k v" for k v using set_res by auto
    then show ?thesis using True none by (simp add: FindPoolActorByType_def)
  next
    case False
    obtain k v where kv: "hd (sort_key (\<lambda>(k, v). sint (item_count v)) ?res) = (k, v)" by fastforce
    note least = hd_sort_key_min [OF False, of "\<lambda>(k, v). sint (item_count v)", unfolded kv set_res]
    show ?thesis
    proof (rule some [of k v])
      show "FindPoolActorByType cfg order t g =
        (Inr (cfg (IActor v)), g\<lparr>actors := (actors g)(k \<mapsto> v\<lparr>item_count := item_count v + 1\<rparr>)\<rparr>)"
        using False kv by (simp add: FindPoolActorByType_def Let_def)
    qed (use least in auto)
  qed
qed

lemma sint_inc64: "sint (w :: i64) < 2 ^ 63 - 1 \<Longrightarrow> sint (w + 1) = sint w + 1"
  using sint_greater_eq [of w] by (simp add: sint_word_ariths signed_take_bit_int_eq_self)

lemma FindPool_level:
  assumes "ranges order (actors g)" and lev: "level cfg t n g" and "n + 1 < 2 ^ 63 - 1"
  shows "\<exists>n'. (n' = n \<or> n' = n + 1) \<and> level cfg t n' (snd (FindPoolActorByType cfg order t g))"
  using assms(1)
proof (cases rule: FindPool_cases [of order g cfg t])
  case none
  then show ?thesis using lev by auto
next
  case (some k v)
  have cv: "sint (item_count v) = n \<or> sint (item_count v) = n + 1"
    using lev some(1) by (auto simp: level_def)
  then have inc: "sint (item_count v + 1) = sint (item_count v) + 1"
    using assms(3) by (intro sint_inc64) linarith
  show ?thesis
  proof (rule exI, intro conjI)
    let ?n = "sint (item_count v)"
    show "?n = n \<or> ?n = n + 1" by (rule cv)
    show "level cfg t ?n (snd (FindPoolActorByType cfg order t g))"
      unfolding some(3) level_def of_type_def
    proof (intro allI impI, elim conjE)
      fix k' v'
      assume "actors (snd (Inr (cfg (IActor v)) :: group_error + ActorConfig,
          g\<lparr>actors := (actors g)(k \<mapsto> v\<lparr>item_count := item_count v + 1\<rparr>)\<rparr>)) k' = Some v'"
        and "ActorType (cfg (IActor v')) = t"
      moreover from this have "sint (item_count v') = n \<or> sint (item_count v') = n + 1" if "k' \<noteq> k"
        using that lev by (auto simp: level_def of_type_def)
      moreover have "?n \<le> sint (item_count v')" if "of_type cfg t g k' v'"
        using some(2) that by blast
      ultimately show "sint (item_count v') = ?n \<or> sint (item_count v') = ?n + 1"
        using cv inc by (fastforce simp: of_type_def split: if_splits)
    qed
  qed
qed

lemma dom_FindPool: "ranges order (actors g) \<Longrightarrow> dom (actors (snd (FindPoolActorByType cfg order t g))) = dom (actors g)"
  by (cases rule: FindPool_cases [of order g cfg t]) (auto simp: of_type_def)

definition pool_picks :: "(aref \<Rightarrow> ActorConfig) \<Rightarrow> u32 \<Rightarrow> u64 list list \<Rightarrow> Group \<Rightarrow> Group" where
  "pool_picks cfg t orders g = fold (\<lambda>order g. snd (FindPoolActorByType cfg order t g)) orders g"

lemma pool_picks_level:
  assumes "\<forall>order \<in> set orders. ranges order (actors g)" and "level cfg t n g"
    and "n + 1 + int (length orders) < 2 ^ 63 - 1"
  shows "\<exists>n'. n' \<le> n + int (length orders) \<and> level cfg t n' (pool_picks cfg t orders g)"
  using assms
proof (induction orders arbitrary: g n)
  case Nil
  then show ?case by (auto simp: pool_picks_def)
next
  case (Cons order orders)
  let ?g = "snd (FindPoolActorByType cfg order t g)"
  have r: "ranges order (actors g)" using Cons.prems(1) by simp
  obtain n' where n': "n' = n \<or> n' = n + 1" "level cfg t n' ?g"
    using FindPool_level [OF r Cons.prems(2)] Cons.prems(3) by auto
  have "\<forall>order \<in> set orders. ranges order (actors ?g)"
    using Cons.prems(1) dom_FindPool [OF r] by (simp add: ranges_def)
  moreover have "n' + 1 + int (length orders) < 2 ^ 63 - 1" using n'(1) Cons.prems(3) by auto
  ultimately obtain m where "m \<le> n' + int (length orders)" "level cfg t m (pool_picks cfg t orders ?g)"
    using Cons.IH [OF _ n'(2)] by blast
  moreover have "pool_picks cfg t (order # orders) g = pool_picks cfg t orders ?g"
    by (simp add: pool_picks_def)
  ultimately show ?case using n'(1) by (intro exI [of _ m]) auto
qed

lemma dom_pool_picks:
  "\<forall>order \<in> set orders. ranges order (actors g) \<Longrightarrow>
     dom (actors (pool_picks cfg t orders g)) = dom (actors g)"
proof (induction orders arbitrary: g)
  case (Cons order orders)
  then have "dom (actors (snd (FindPoolActorByType cfg order t g))) = dom (actors g)"
    by (intro dom_FindPool) simp
  moreover from this have "\<forall>o' \<in> set orders. ranges o' (actors (snd (FindPoolActorByType cfg order t g)))"
    using Cons.prems by (simp add: ranges_def)
  ultimately show ?case using Cons.IH by (simp add: pool_picks_def)
qed (simp add: pool_picks_def)

text \<open>starting from fresh actors, picking actors of a type any number of times keeps their
  load counters within one of each other, in whatever order the map is walked.\<close>

theorem FindPool_balances:
  assumes "\<forall>order \<in> set orders. ranges order (actors g)"
    and "\<forall>k v. actors g k = Some v \<longrightarrow> item_count v = 0" and "length orders < 2 ^ 62"
    and "actors (pool_picks cfg t orders g) j = Some u" and "ActorType (cfg (IActor u)) = t"
    and "actors (pool_picks cfg t orders g) k = Some v" and "ActorType (cfg (IActor v)) = t"
  shows "\<bar>sint (item_count u) - sint (item_count v)\<bar> \<le> 1"
proof -
  have "level cfg t 0 g" using assms(2) by (auto simp: level_def of_type_def)
  with assms(1,3) obtain n where "level cfg t n (pool_picks cfg t orders g)"
    using pool_picks_level [of orders g cfg t 0] by auto
  then have "sint (item_count u) = n \<or> sint (item_count u) = n + 1"
    "sint (item_count v) = n \<or> sint (item_count v) = n + 1"
    using assms(4-7) by (auto simp: level_def of_type_def)
  then show ?thesis by linarith
qed

lemma actors_two:
  "dom (actors g) = {1, 2} \<Longrightarrow> ranges [1, 2] (actors g) \<and> ranges [2, 1] (actors g)"
  by (auto simp: ranges_def)

theorem FindPool_balances_witness:
  "let cfg = (\<lambda>a. config_zero\<lparr>Id := word_of_nat a, ActorType := 4\<rparr>);
       g = AddActor cfg 2 (AddActor cfg 1 (NewGroup 1 True));
       g' = pool_picks cfg 4 [[1, 2], [2, 1], [2, 1]] g
   in \<bar>sint (item_count (the (actors g' 1))) - sint (item_count (the (actors g' 2)))\<bar> \<le> 1"
proof -
  let ?cfg = "\<lambda>a. config_zero\<lparr>Id := word_of_nat a, ActorType := 4\<rparr>"
  let ?g = "AddActor ?cfg 2 (AddActor ?cfg 1 (NewGroup 1 True))"
  let ?g' = "pool_picks ?cfg 4 [[1, 2], [2, 1], [2, 1]] ?g"
  have acts: "actors ?g = [1 \<mapsto> \<lparr>IActor = 1, item_count = 0\<rparr>, 2 \<mapsto> \<lparr>IActor = 2, item_count = 0\<rparr>]"
    by (simp add: AddActor_def NewGroup_def GetActorId_def)
  then have r: "\<forall>order \<in> set [[1, 2], [2, 1], [2, 1]]. ranges order (actors ?g)"
    using actors_two [of ?g] by auto
  have z: "\<forall>k v. actors ?g k = Some v \<longrightarrow> item_count v = 0" using acts by (auto split: if_splits)
  have "dom (actors ?g') = {1, 2}" unfolding dom_pool_picks [OF r] acts by auto
  then have "1 \<in> dom (actors ?g')" and "2 \<in> dom (actors ?g')" by simp_all
  then obtain u v where uv: "actors ?g' 1 = Some u" "actors ?g' 2 = Some v"
    unfolding dom_def mem_Collect_eq not_None_eq by blast
  have "\<bar>sint (item_count u) - sint (item_count v)\<bar> \<le> 1"
    by (rule FindPool_balances [OF r z _ uv(1) _ uv(2)]) simp_all
  then show ?thesis unfolding Let_def uv by simp
qed

section \<open>Start-up is all or nothing\<close>

fun reg_id :: "run_event \<Rightarrow> u64 list" where
  "reg_id (EvRegister c) = [Id c]" | "reg_id _ = []"
fun unreg_id :: "run_event \<Rightarrow> u64 list" where
  "unreg_id (EvUnregister c) = [Id c]" | "unreg_id _ = []"
fun init_of :: "run_event \<Rightarrow> aref list" where
  "init_of (EvInit a) = [a]" | "init_of _ = []"
fun close_of :: "run_event \<Rightarrow> aref list" where
  "close_of (EvClose a) = [a]" | "close_of _ = []"
fun background :: "run_event \<Rightarrow> bool" where
  "background EvWatch = True" | "background (EvWorker _) = True" | "background EvTick = True"
| "background _ = False"

definition start_events :: "bool \<Rightarrow> (aref \<Rightarrow> ActorConfig) \<Rightarrow> (aref \<Rightarrow> i32 list) \<Rightarrow> (aref \<Rightarrow> bool option) \<Rightarrow> ActorItem \<Rightarrow> run_event list" where
  "start_events disc cfg msgList server item = registerActor disc cfg msgList item @ [EvInit (IActor item)]
     @ (case server (IActor item) of None \<Rightarrow> [] | Some _ \<Rightarrow> [EvRunServer (IActor item)])"

definition starts :: "(aref \<Rightarrow> bool) \<Rightarrow> (aref \<Rightarrow> bool option) \<Rightarrow> ActorItem \<Rightarrow> bool" where
  "starts initOk server item \<longleftrightarrow> initOk (IActor item) \<and> server (IActor item) \<noteq> Some False"

lemma Run_init_trace:
  "Run_init disc cfg msgList initOk server its prev tr =
    (case dropWhile (starts initOk server) its of
       [] \<Rightarrow> (Inr (), tr @ concat (map (start_events disc cfg msgList server) its))
     | f # _ \<Rightarrow>
        (let ok = takeWhile (starts initOk server) its
         in (Inl ErrInternal, tr @ concat (map (start_events disc cfg msgList server) ok)
              @ (if initOk (IActor f) then start_events disc cfg msgList server f
                 else registerActor disc cfg msgList f @ [EvInit (IActor f)])
              @ rollbackRunInit disc cfg (prev @ ok) f (\<not> initOk (IActor f)))))"
proof (induction its arbitrary: prev tr)
  case (Cons item its)
  show ?case
  proof (cases "starts initOk server item")
    case True
    then have eq: "Run_init disc cfg msgList initOk server (item # its) prev tr
        = Run_init disc cfg msgList initOk server its (prev @ [item]) (tr @ start_events disc cfg msgList server item)"
      by (auto simp: starts_def start_events_def Let_def split: option.split)
    show ?thesis unfolding eq Cons.IH using True
      by (cases "dropWhile (starts initOk server) its") (simp_all add: Let_def del: dropWhile_eq_Nil_conv)
  next
    case False
    then show ?thesis
      by (auto simp: starts_def start_events_def Let_def split: option.split)
  qed
qed simp

lemma Id_registered [simp]:
  "concat (map reg_id (registerActor disc cfg msgList item)) = (if disc then [Id (cfg (IActor item))] else [])"
  "concat (map unreg_id (registerActor disc cfg msgList item)) = []"
  "concat (map init_of (registerActor disc cfg msgList item)) = []"
  "concat (map close_of (registerActor disc cfg msgList item)) = []"
  "filter background (registerActor disc cfg msgList item) = []"
  by (auto simp: registerActor_def register_def Let_def)

lemma start_events_proj [simp]:
  "concat (map reg_id (start_events disc cfg msgList server item)) = (if disc then [Id (cfg (IActor item))] else [])"
  "concat (map unreg_id (start_events disc cfg msgList server item)) = []"
  "concat (map init_of (start_events disc cfg msgList server item)) = [IActor item]"
  "concat (map close_of (start_events disc cfg msgList server item)) = []"
  "filter background (start_events disc cfg msgList server item) = []"
  by (auto simp: start_events_def split: option.split)

lemma concat_map_concat: "concat (map f (concat xss)) = concat (map (\<lambda>xs. concat (map f xs)) xss)"
  by (induction xss) simp_all

lemma start_all_proj [simp]:
  "concat (map reg_id (concat (map (start_events disc cfg msgList server) its)))
     = (if disc then map (\<lambda>i. Id (cfg (IActor i))) its else [])"
  "concat (map unreg_id (concat (map (start_events disc cfg msgList server) its))) = []"
  "concat (map init_of (concat (map (start_events disc cfg msgList server) its))) = map IActor its"
  "concat (map close_of (concat (map (start_events disc cfg msgList server) its))) = []"
  "filter background (concat (map (start_events disc cfg msgList server) its)) = []"
  by (induction its) simp_all

lemma rollback_proj [simp]:
  "concat (map reg_id (rollbackRunInit disc cfg prev f b)) = []"
  "concat (map unreg_id (rollbackRunInit disc cfg prev f b))
     = (if disc then rev (map (\<lambda>i. Id (cfg (IActor i))) prev) @ [Id (cfg (IActor f))] else [])"
  "concat (map init_of (rollbackRunInit disc cfg prev f b)) = []"
  "concat (map close_of (rollbackRunInit disc cfg prev f b)) = rev (map IActor prev) @ (if b then [] else [IActor f])"
  "filter background (rollbackRunInit disc cfg prev f b) = []"
  by (induction prev rule: rev_induct)
    (auto simp: rollbackRunInit_def unregisterActor_def)



section \<open>Supervision\<close>

text \<open>A crash loop: every return is unexpected and comes at most 30 seconds after the restart
  before it.\<close>

fun crash_loop :: "int \<Rightarrow> run_return list \<Rightarrow> bool" where
  "crash_loop lastRestart [] \<longleftrightarrow> True"
| "crash_loop lastRestart (rr # rest) \<longleftrightarrow>
     \<not> ctx_done rr \<and> returned_at rr - lastRestart \<le> 30 * Second \<and> crash_loop (restarted_at rr) rest"

lemma restart_backoff_eq:
  "1 \<le> n \<Longrightarrow> restart_backoff n = min (2 ^ nat (n - 1)) 30 * Second"
proof -
  assume n: "1 \<le> n"
  show ?thesis
  proof (cases "n \<le> 6")
    case True
    then have "n = 1 \<or> n = 2 \<or> n = 3 \<or> n = 4 \<or> n = 5 \<or> n = 6" using n by auto
    then show ?thesis by (auto simp: restart_backoff_def Second_def push_bit_eq_mult Let_def)
  next
    case False
    then have "(2 :: int) ^ 6 \<le> 2 ^ nat (n - 1)" by (intro power_increasing) auto
    then show ?thesis using False by (simp add: restart_backoff_def Second_def push_bit_eq_mult Let_def)
  qed
qed

lemma superviseActor_crashes:
  assumes "crash_loop t rrs" and "length rrs > k" and "0 \<le> n"
  shows "superviseActor (n + int k) (n, t) rrs
    = map (\<lambda>i. Restart (restart_backoff (n + int i))) [1..<Suc k] @ [GiveUp]"
  using assms
proof (induction k arbitrary: n t rrs)
  case 0
  then obtain rr rest where "rrs = rr # rest" by (cases rrs) auto
  then show ?case using 0 by (simp add: superviseActor_step_def Let_def)
next
  case (Suc k)
  then obtain rr rest where rrs: "rrs = rr # rest" by (cases rrs) auto
  have ih: "superviseActor (n + 1 + int k) (n + 1, restarted_at rr) rest
      = map (\<lambda>i. Restart (restart_backoff (n + 1 + int i))) [1..<Suc k] @ [GiveUp]"
    using Suc.prems rrs by (intro Suc.IH) auto
  have "[1..<Suc (Suc k)] = 1 # map Suc [1..<Suc k]" by (simp add: map_Suc_upt upt_conv_Cons del: upt_Suc)
  then have "map (\<lambda>i. Restart (restart_backoff (n + int i))) [1..<Suc (Suc k)]
      = Restart (restart_backoff (n + 1)) # map (\<lambda>i. Restart (restart_backoff (n + 1 + int i))) [1..<Suc k]"
    by (simp add: algebra_simps del: upt_Suc)
  moreover have "superviseActor (n + int (Suc k)) (n, t) rrs
      = Restart (restart_backoff (n + 1)) # superviseActor (n + 1 + int k) (n + 1, restarted_at rr) rest"
    using Suc.prems by (simp add: rrs superviseActor_step_def Let_def algebra_simps)
  ultimately show ?case using ih by simp
qed



section \<open>Watchdog\<close>

definition must_report :: "i64 \<Rightarrow> (aref \<Rightarrow> i64 option) \<Rightarrow> Group \<Rightarrow> Watchdog \<Rightarrow> u64 \<Rightarrow> bool" where
  "must_report now started g w k \<longleftrightarrow>
     (\<exists>item s. actors g k = Some item \<and> started (IActor item) = Some s \<and> s \<noteq> 0
        \<and> sint (threshold w) \<le> sint (now - s)
        \<and> (\<forall>t. lastDump w k = Some t \<longrightarrow> sint (cooldown w) \<le> sint (now - t)))"

lemma scan_fold:
  assumes "distinct (map fst kis)" and "\<forall>(k, item) \<in> set kis. actors g k = Some item"
    and "\<forall>(k, item) \<in> set kis. lastDump w' k = lastDump w k"
    and "threshold w' = threshold w" and "cooldown w' = cooldown w"
  shows "fold (scan_one now started) kis (rs, w') =
    (let new = filter (must_report now started g w) (map fst kis)
     in (rs @ new, w'\<lparr>lastDump := (\<lambda>k. if k \<in> set new then Some now else lastDump w' k)\<rparr>))"
  using assms
proof (induction kis arbitrary: rs w')
  case (Cons ki kis)
  obtain k item where ki: "ki = (k, item)" by fastforce
  have item: "actors g k = Some item" and last: "lastDump w' k = lastDump w k"
    using Cons.prems(2,3) ki by auto
  have one: "scan_one now started ki (rs, w') =
      (if must_report now started g w k then (rs @ [k], w'\<lparr>lastDump := (lastDump w')(k \<mapsto> now)\<rparr>) else (rs, w'))"
    using item last Cons.prems(4,5)
    by (auto simp: ki scan_one_def must_report_def Let_def split: option.splits)
  have fresh: "k \<notin> fst ` set kis" using Cons.prems(1) ki by simp
  show ?case
  proof (cases "must_report now started g w k")
    case True
    let ?w = "w'\<lparr>lastDump := (lastDump w')(k \<mapsto> now)\<rparr>"
    have "lastDump ?w j = lastDump w j" if "(j, i) \<in> set kis" for j i
    proof -
      have "j \<noteq> k" using that fresh by force
      then show ?thesis using that Cons.prems(3) by auto
    qed
    then have "fold (scan_one now started) kis (rs @ [k], ?w) =
      (let new = filter (must_report now started g w) (map fst kis)
       in ((rs @ [k]) @ new, ?w\<lparr>lastDump := (\<lambda>j. if j \<in> set new then Some now else lastDump ?w j)\<rparr>))"
      using Cons.prems by (intro Cons.IH) auto
    moreover have "(\<lambda>j. if j \<in> S then Some now else lastDump ?w j)
        = (\<lambda>j. if j \<in> insert k S then Some now else lastDump w' j)" for S
      by (auto simp: fun_eq_iff)
    ultimately show ?thesis using True one ki by (simp add: Let_def)
  next
    case False
    then show ?thesis using one ki Cons by (auto simp: Let_def)
  qed
qed (simp add: Let_def)

text \<open>a scan of the watchdog reports exactly the inspected actors whose handler has been
  running for at least the threshold and that were not reported within the cooldown, each once,
  and remembers the time of the report, so that reports of one actor are at least the cooldown
  apart.\<close>

theorem watchdog_scan_exact:
  assumes "ranges order (actors g)"
  shows "let (reports, w') = scan now started order g w
         in distinct reports
            \<and> (\<forall>k. k \<in> set reports \<longleftrightarrow> must_report now started g w k)
            \<and> (\<forall>k. lastDump w' k = (if k \<in> set reports then Some now else lastDump w k))"
proof -
  have ks: "map fst (items order (actors g)) = order" by (simp add: items_def comp_def)
  have "scan now started order g w =
    (let new = filter (must_report now started g w) order
     in ([] @ new, w\<lparr>lastDump := (\<lambda>k. if k \<in> set new then Some now else lastDump w k)\<rparr>))"
    unfolding scan_def using set_items [OF assms] assms
    by (subst scan_fold [where g = g and w = w]) (auto simp: ks ranges_def Let_def)
  moreover have "k \<in> set order" if "must_report now started g w k" for k
    using that assms by (auto simp: must_report_def ranges_def)
  ultimately show ?thesis using assms by (auto simp: Let_def ranges_def)
qed

theorem watchdog_scan_exact_witness:
  "let cfg = (\<lambda>a. config_zero\<lparr>Id := 1\<rparr>); g = AddActor cfg 1 (NewGroup 1 True);
       (reports, w') = scan 1000 (\<lambda>_. Some 10) [1] g (newWatchdog 500)
   in 1 \<in> set reports \<and> lastDump w' 1 = Some 1000"
proof -
  let ?g = "AddActor (\<lambda>a. config_zero\<lparr>Id := 1\<rparr>) 1 (NewGroup 1 True)"
  have acts: "actors ?g = [1 \<mapsto> \<lparr>IActor = 1, item_count = 0\<rparr>]"
    by (simp add: AddActor_def NewGroup_def GetActorId_def)
  then have "ranges [1] (actors ?g)" by (simp add: ranges_def)
  moreover have "must_report 1000 (\<lambda>_. Some 10) ?g (newWatchdog 500) 1"
    unfolding must_report_def acts by (simp add: newWatchdog_def)
  ultimately show ?thesis
    using watchdog_scan_exact [of "[1]" ?g 1000 "\<lambda>_. Some 10" "newWatchdog 500"]
    by (auto simp: Let_def split: prod.splits)
qed

end
