(* ===== verification/ZWorld.thy ===== *)
theory ZWorld
  imports ZGroup ZSender ZBreaker
begin

text \<open>
  The state of one process: its actors (\<open>zactor/base.go\<close>), its group, the message heap and the
  pool of asynchronous tasks (\<open>zactor/handlemsg.go\<close>), with the operations that put commands into
  a mailbox or tasks into a worker pool. Objects are addresses into explicit heaps, so that the
  sharing of messages between goroutines is visible.

  Code outside of the repository is a field of the record \<open>env\<close>, an argument of every operation
  that uses it: the business functions (\<open>e_call\<close>, a function value applied to its arguments,
  \<open>None\<close> for a panic), the fast path of an actor that declares one (\<open>e_fast\<close>), the choices of the object pools (\<open>zpool\<close>), whether the worker pool (\<open>ants\<close>)
  accepts a task, whether a closed mailbox (\<open>zqueue\<close>) still accepts commands, the identifier source
  (\<open>zid\<close>), the old contents of a pooled byte buffer, the capacity Go's \<open>append\<close> chooses, the message bus, the tracing hooks and the listeners the event system (\<open>zpub\<close>) calls.
  Closures that the framework itself creates are the constructors of \<open>gofn\<close>.
\<close>

section \<open>Data\<close>

text \<open>A business message (\<open>ziface.IMessage\<close>); \<open>MarshalToVT n\<close> are the bytes written at the front of
  a buffer of length \<open>n\<close>, \<open>None\<close> an error.\<close>

record IMessage =
  GetMsgId :: i32
  SizeVT :: nat
  MarshalToVT :: "nat \<Rightarrow> byte list option"
  MarshalVT :: "byte list option"
  UnmarshalVT :: "byte list \<Rightarrow> bool"

type_synonym tref = nat
type_synonym val = "nat option"

datatype gofn = UserFn fnref | SendRemote mref ActorConfig
  | TunePool int | SetRate int int | SetMaxRPC u32 | RebuildPool int

record asyncTask =
  t_actor :: "aref option"
  t_msg :: "mref option"
  fMsg :: "fnref option"
  fSimple :: "gofn option"
  callBackFunc :: "fnref option"
  t_result :: val
  flowWork :: "fnref option"
  flowThen :: "fnref option"
  flowVal :: val
  flowErr :: val
  validators :: "fnref list"

definition empty_task :: asyncTask where
  "empty_task = \<lparr>t_actor = None, t_msg = None, fMsg = None, fSimple = None, callBackFunc = None,
     t_result = None, flowWork = None, flowThen = None, flowVal = None, flowErr = None, validators = []\<rparr>"

type_synonym cmd = "(gofn, tref) ActorCmd"

definition cmd_zero :: cmd where
  "cmd_zero = \<lparr>TickNow = 0, Msg = None, Ctx = None, TickFn = None, Fn = None, Any = None, Type = CmdOther 0\<rparr>"

record HandleRegistry =
  msgIdList :: "i32 \<rightharpoonup> i32"
  h_handlers :: "i32 \<rightharpoonup> fnref"

record Dispatcher =
  d_handlers :: "i32 \<rightharpoonup> fnref"

text \<open>An \<open>ants\<close> pool: its capacity and which of the two dispatch functions it was created with
  (\<open>True\<close> for that of \<open>NewActor\<close>, which knows the flow tasks).\<close>

record workerPool =
  wp_flow :: bool
  wp_size :: int
  wp_released :: bool

text \<open>\<open>ISender\<close> is nil until \<open>Init\<close>; the operations below are those of initialised actors.
  \<open>iActor\<close> may override the three message methods (\<open>None\<close>: the method of \<open>Actor\<close>). The
  commands of the batch that \<open>Run\<close> has dequeued and not handled yet are \<open>a_batch\<close>.\<close>

record Actor =
  a_config :: ActorConfig
  a_dispatcher :: Dispatcher
  a_handle :: HandleRegistry
  a_sender :: ActorMsgSender
  ovHandleMessage :: "fnref option"
  ovHandleClientMessage :: "fnref option"
  ovHandleRespMessage :: "fnref option"
  toClientFastPath :: "fnref option"
  tickFns :: "string \<rightharpoonup> TickFnItem"
  tickEnabled :: bool
  mailBoxQueue :: "cmd list"
  mailClosed :: bool
  a_batch :: "cmd list"
  a_pool :: workerPool
  closeCh :: bool
  closed_once :: bool
  mailCount :: i64
  processingStart :: i64
  tickPending :: bool
  circuitBreakers :: "u64 \<rightharpoonup> circuitBreaker"
  subs :: "string list"

record world =
  w_heap :: mheap
  w_actors :: "aref \<Rightarrow> Actor"
  w_nact :: nat
  w_group :: Group
  w_task :: "tref \<Rightarrow> asyncTask"
  w_tpool :: "tref list"
  w_tnext :: tref
  w_submitted :: "(bool \<times> tref) list"
  w_zid :: nat
  w_bus :: "(string \<times> byte list) list"

datatype goarg = ANone | AMsg mref | AMsgOpt "mref option" | AVal val | AThen aref val val | ATick i64

datatype goret = RNone | RVal val | RWork val val | RBool bool | RReply "IMessage option"

fun ret_true :: "goret \<Rightarrow> bool" where
  "ret_true (RBool b) = b"
| "ret_true _ = False"

fun ret_val :: "goret \<Rightarrow> val" where
  "ret_val (RVal v) = v"
| "ret_val (RWork v e) = v"
| "ret_val _ = None"

fun ret_err :: "goret \<Rightarrow> val" where
  "ret_err (RWork v e) = e"
| "ret_err _ = None"

fun ret_reply :: "goret \<Rightarrow> IMessage option" where
  "ret_reply (RReply r) = r"
| "ret_reply _ = None"

record env =
  e_call :: "fnref \<Rightarrow> goarg \<Rightarrow> world \<Rightarrow> goret option \<times> world"
  e_fast :: "fnref \<Rightarrow> mref \<Rightarrow> world \<Rightarrow> bool \<times> world"
  e_msgpick :: pick
  e_taskpick :: pick
  e_invoke :: "aref \<Rightarrow> world \<Rightarrow> bool"
  e_newpool :: "int \<Rightarrow> bool"
  e_closedAccepts :: bool
  e_zid :: "nat \<Rightarrow> u64"
  e_trace :: bool
  e_genids :: "message \<Rightarrow> message"
  e_oldbuf :: "nat \<Rightarrow> byte list"
  e_grow :: "nat \<Rightarrow> nat"
  e_bus :: "(string \<Rightarrow> byte list \<Rightarrow> bool) option"
  e_listeners :: "string \<Rightarrow> aref list"

section \<open>Heap access\<close>

definition upd_actor :: "aref \<Rightarrow> (Actor \<Rightarrow> Actor) \<Rightarrow> world \<Rightarrow> world" where
  "upd_actor i f w = w\<lparr>w_actors := (w_actors w)(i := f (w_actors w i))\<rparr>"

definition upd_task :: "tref \<Rightarrow> (asyncTask \<Rightarrow> asyncTask) \<Rightarrow> world \<Rightarrow> world" where
  "upd_task t f w = w\<lparr>w_task := (w_task w)(t := f (w_task w t))\<rparr>"

definition hp :: "(mheap \<Rightarrow> mheap) \<Rightarrow> world \<Rightarrow> world" where
  "hp f w = w\<lparr>w_heap := f (w_heap w)\<rparr>"

abbreviation msg_of :: "world \<Rightarrow> mref \<Rightarrow> message" where
  "msg_of w a \<equiv> mobj (w_heap w) a"

abbreviation retain :: "mref \<Rightarrow> world \<Rightarrow> world" where
  "retain a w \<equiv> hp (Retain (Some a)) w"

abbreviation release :: "mref \<Rightarrow> world \<Rightarrow> world" where
  "release a w \<equiv> hp (Release (Some a)) w"

definition newMsg :: "env \<Rightarrow> world \<Rightarrow> mref \<times> world" where
  "newMsg env w = (let (a, h) = GetMessage (e_msgpick env) (w_heap w) in (a, w\<lparr>w_heap := h\<rparr>))"

definition actorId :: "world \<Rightarrow> aref \<Rightarrow> u64" where
  "actorId w i = GetActorId (a_config (w_actors w i))"

definition actor_SetReply :: "aref \<Rightarrow> mref \<Rightarrow> world \<Rightarrow> world" where
  "actor_SetReply i a w =
    (let (m, h) = SetReply a (a_sender (w_actors w i), w_heap w)
     in upd_actor i (\<lambda>x. x\<lparr>a_sender := m\<rparr>) (w\<lparr>w_heap := h\<rparr>))"

section \<open>The mailbox\<close>

definition Enqueue :: "env \<Rightarrow> aref \<Rightarrow> cmd \<Rightarrow> world \<Rightarrow> world" where
  "Enqueue env i c w =
    (if mailClosed (w_actors w i) \<and> \<not> e_closedAccepts env then w
     else upd_actor i (\<lambda>x. x\<lparr>mailBoxQueue := mailBoxQueue x @ [c]\<rparr>) w)"

definition Push :: "env \<Rightarrow> aref \<Rightarrow> cmd \<Rightarrow> world \<Rightarrow> world" where
  "Push env i c w =
    (if Type c \<noteq> CmdTypeMsg then Enqueue env i c w
     else (case Msg c of
        None \<Rightarrow> Enqueue env i c w
      | Some m \<Rightarrow>
         if \<not> IsResponse (msg_of w m) then Enqueue env i c w
         else if \<not> ToClient (msg_of w m) then release m (actor_SetReply i m w)
         else (case toClientFastPath (w_actors w i) of
            None \<Rightarrow> Enqueue env i c w
          | Some f \<Rightarrow>
             (let (handled, w) = e_fast env f m w
              in if handled then release m w else Enqueue env i c w))))"

section \<open>Asynchronous tasks\<close>

definition getAsyncTask :: "env \<Rightarrow> world \<Rightarrow> tref \<times> world" where
  "getAsyncTask env w =
    (case e_taskpick env (w_tpool w) of
       Some t \<Rightarrow> (t, w\<lparr>w_tpool := remove1 t (w_tpool w)\<rparr>)
     | None \<Rightarrow> (w_tnext w, w\<lparr>w_task := (w_task w)(w_tnext w := empty_task), w_tnext := Suc (w_tnext w)\<rparr>))"

definition putAsyncTask :: "tref \<Rightarrow> world \<Rightarrow> world" where
  "putAsyncTask t w =
    (let w = upd_task t (\<lambda>k. k\<lparr>t_actor := None, t_msg := None, fMsg := None, fSimple := None,
               callBackFunc := None, t_result := None, flowWork := None, flowThen := None,
               flowVal := None, flowErr := None, validators := []\<rparr>) w
     in w\<lparr>w_tpool := t # w_tpool w\<rparr>)"

text \<open>\<open>workerPool.Invoke\<close>: a worker will run the pool's function on the task.\<close>

definition Invoke :: "env \<Rightarrow> aref \<Rightarrow> tref \<Rightarrow> world \<Rightarrow> bool \<times> world" where
  "Invoke env i t w =
    (if e_invoke env i w
     then (True, w\<lparr>w_submitted := w_submitted w @ [(wp_flow (a_pool (w_actors w i)), t)]\<rparr>)
     else (False, w))"

definition AsyncRunResult :: "env \<Rightarrow> aref \<Rightarrow> gofn \<Rightarrow> fnref option \<Rightarrow> fnref list \<Rightarrow> world \<Rightarrow> bool \<times> world" where
  "AsyncRunResult env i f cb vs w =
    (let (task, w) = getAsyncTask env w;
         w = upd_task task (\<lambda>k. k\<lparr>t_actor := Some i\<rparr>) w;
         w = upd_task task (\<lambda>k. k\<lparr>fSimple := Some f\<rparr>) w;
         w = upd_task task (\<lambda>k. k\<lparr>callBackFunc := cb\<rparr>) w;
         w = (if length vs > 0 then upd_task task (\<lambda>k. k\<lparr>validators := validators k @ vs\<rparr>) w else w);
         (ok, w) = Invoke env i task w
     in if \<not> ok then (False, putAsyncTask task w) else (True, w))"

text \<open>The loop over the validators: \<open>None\<close> for a panic.\<close>

fun run_validators :: "env \<Rightarrow> fnref list \<Rightarrow> world \<Rightarrow> bool option \<times> world" where
  "run_validators env [] w = (Some True, w)"
| "run_validators env (v # vs) w =
    (let (r, w) = e_call env v ANone w
     in case r of
          None \<Rightarrow> (None, w)
        | Some ret \<Rightarrow> if ret_true ret then run_validators env vs w else (Some False, w))"

text \<open>The result \<open>None\<close> is a panic of a validator, which leaves the operation with the retained
  message.\<close>

definition AsyncRunWithMsgResult ::
  "env \<Rightarrow> aref \<Rightarrow> mref \<Rightarrow> fnref \<Rightarrow> fnref option \<Rightarrow> fnref list \<Rightarrow> world \<Rightarrow> bool option \<times> world" where
  "AsyncRunWithMsgResult env i msg f cb vs w =
    (let w = retain msg w;
         (v, w) = run_validators env vs w
     in case v of
          None \<Rightarrow> (None, w)
        | Some False \<Rightarrow> (Some False, release msg w)
        | Some True \<Rightarrow>
           (let (task, w) = getAsyncTask env w;
                w = upd_task task (\<lambda>k. k\<lparr>t_actor := Some i\<rparr>) w;
                w = upd_task task (\<lambda>k. k\<lparr>t_msg := Some msg\<rparr>) w;
                w = upd_task task (\<lambda>k. k\<lparr>fMsg := Some f\<rparr>) w;
                w = upd_task task (\<lambda>k. k\<lparr>callBackFunc := cb\<rparr>) w;
                w = (if length vs > 0 then upd_task task (\<lambda>k. k\<lparr>validators := validators k @ vs\<rparr>) w else w);
                (ok, w) = Invoke env i task w
            in if \<not> ok then (Some False, putAsyncTask task (release msg w)) else (Some True, w)))"

definition StartAsyncThen ::
  "env \<Rightarrow> aref option \<Rightarrow> mref option \<Rightarrow> fnref option \<Rightarrow> fnref option \<Rightarrow> world \<Rightarrow> bool \<times> world" where
  "StartAsyncThen env a msg work thn w =
    (case (a, work) of
       (Some i, Some f) \<Rightarrow>
         (let (task, w) = getAsyncTask env w;
              w = upd_task task (\<lambda>k. k\<lparr>t_actor := Some i\<rparr>) w;
              w = upd_task task (\<lambda>k. k\<lparr>t_msg := msg\<rparr>) w;
              w = hp (Retain msg) w;
              w = upd_task task (\<lambda>k. k\<lparr>flowWork := Some f\<rparr>) w;
              w = upd_task task (\<lambda>k. k\<lparr>flowThen := thn\<rparr>) w;
              (ok, w) = Invoke env i task w
          in if \<not> ok then (False, putAsyncTask task (hp (Release msg) w)) else (True, w))
     | _ \<Rightarrow> (False, w))"

end
