(* ===== verification/ZSend.thy ===== *)
theory ZSend
  imports ZWorld
begin

text \<open>
  \<open>zactor/helper.go\<close>: sending messages, replies, RPC calls and broadcasts. The clock is an
  argument. \<open>CallActor\<close> blocks in \<open>GetReply\<close>, so it is split there: \<open>CallActor_begin\<close> runs to the
  wait, \<open>CallActor_wait\<close> is one wake-up of it, \<open>CallActor_finish\<close> the code after it.
\<close>

section \<open>Envelopes\<close>

definition MarshalVTToMsg :: "IMessage \<Rightarrow> mref \<Rightarrow> world \<Rightarrow> bool \<times> world" where
  "MarshalVTToMsg proto m w =
    (let size = SizeVT proto
     in if size = 0 then (True, hp (upd_msg m (\<lambda>x. x\<lparr>Data := []\<rparr>)) w)
        else (let w = (if DataCap (msg_of w m) \<ge> size then w else hp (upd_msg m (\<lambda>x. x\<lparr>DataCap := size\<rparr>)) w)
              in case MarshalToVT proto size of
                   None \<Rightarrow> (False, w)
                 | Some bs \<Rightarrow> (True, hp (upd_msg m (\<lambda>x. x\<lparr>Data := bs\<rparr>)) w)))"

definition UnmarshalVTFromMsg :: "message option \<Rightarrow> IMessage option \<Rightarrow> bool" where
  "UnmarshalVTFromMsg m proto =
    (case (m, proto) of
       (Some m, Some p) \<Rightarrow> if length (Data m) = 0 then True else UnmarshalVT p (Data m)
     | _ \<Rightarrow> True)"

definition set_msg :: "mref \<Rightarrow> (message \<Rightarrow> message) \<Rightarrow> world \<Rightarrow> world" where
  "set_msg m f w = hp (upd_msg m f) w"

text \<open>The trace identifiers of an outgoing message.\<close>

definition nextZid :: "env \<Rightarrow> world \<Rightarrow> u64 \<times> world" where
  "nextZid env w = (e_zid env (w_zid w), w\<lparr>w_zid := Suc (w_zid w)\<rparr>)"

definition stamp_trace :: "env \<Rightarrow> aref \<Rightarrow> mref \<Rightarrow> world \<Rightarrow> world" where
  "stamp_trace env i m w =
    (if e_trace env then set_msg m (e_genids env) w
     else (let (z, w) = nextZid env w
           in set_msg m (\<lambda>x. x\<lparr>TraceIdHi := z, SpanId := actorId w i\<rparr>) w))"

section \<open>Delivery\<close>

definition sendRemote :: "env \<Rightarrow> string \<Rightarrow> byte list \<Rightarrow> world \<Rightarrow> bool \<times> world" where
  "sendRemote env topic dat w =
    (case e_bus env of
       None \<Rightarrow> (False, w)
     | Some accept \<Rightarrow> if accept topic dat then (True, w\<lparr>w_bus := w_bus w @ [(topic, dat)]\<rparr>) else (False, w))"

text \<open>The closure that \<open>SendMsg\<close> runs on a worker.\<close>

definition run_SendRemote :: "env \<Rightarrow> mref \<Rightarrow> ActorConfig \<Rightarrow> world \<Rightarrow> world" where
  "run_SendRemote env msg modelActor w =
    (case MarshalPooled (msg_of w msg) (e_oldbuf env (Size (msg_of w msg))) of
       Inl e \<Rightarrow> release msg w
     | Inr mBuf \<Rightarrow>
        (let (ok, w) = sendRemote env (GetTopic modelActor) mBuf w
         in release msg w))"

definition SendMsg :: "env \<Rightarrow> aref \<Rightarrow> mref \<Rightarrow> world \<Rightarrow> world" where
  "SendMsg env i msg w =
    (let actorID = TarActor (msg_of w msg)
     in if actorID \<le> 0 then release msg w
        else (let w = set_msg msg (\<lambda>x. x\<lparr>SpanId := actorId w i\<rparr>) w
              in case GetActorById actorID (w_group w) of
                   Some actor \<Rightarrow>
                     (let w = retain msg w;
                          w = Push env actor (cmd_zero\<lparr>Type := CmdTypeMsg, Msg := Some msg\<rparr>) w
                      in release msg w)
                 | None \<Rightarrow>
                    (case GetOtherActorById actorID (w_group w) of
                       Some modelActor \<Rightarrow>
                         (let w = retain msg w;
                              (ok, w) = AsyncRunResult env i (SendRemote msg modelActor) None [] w
                          in release msg w)
                     | None \<Rightarrow> release msg w)))"

section \<open>Sending\<close>

definition SendActor :: "env \<Rightarrow> aref \<Rightarrow> u64 \<Rightarrow> IMessage \<Rightarrow> world \<Rightarrow> world" where
  "SendActor env i tar msg w =
    (let (m, w) = newMsg env w;
         (ok, w) = MarshalVTToMsg msg m w
     in if \<not> ok then release m w
        else (let w = set_msg m (\<lambda>x. x\<lparr>MsgId := GetMsgId msg, TarActor := tar, SrcActor := actorId w i\<rparr>) w;
                  w = stamp_trace env i m w;
                  w = SendMsg env i m (retain m w)
              in release m w))"

text \<open>The placeholder that \<open>SendActorReply\<close> stores when it has no reply to send.\<close>

definition reply_placeholder :: "env \<Rightarrow> aref \<Rightarrow> u64 \<Rightarrow> world \<Rightarrow> world" where
  "reply_placeholder env i rpcId w =
    (let (p, w) = newMsg env w;
         w = set_msg p (\<lambda>x. x\<lparr>RpcId := rpcId, IsResponse := True, Data := []\<rparr>) w;
         w = actor_SetReply i p w
     in release p w)"

definition SendActorReply :: "env \<Rightarrow> aref \<Rightarrow> mref \<Rightarrow> IMessage option \<Rightarrow> world \<Rightarrow> world" where
  "SendActorReply env i msg reply w =
    (if RpcId (msg_of w msg) = 0 then w
     else (case reply of
        None \<Rightarrow> reply_placeholder env i (RpcId (msg_of w msg)) w
      | Some reply \<Rightarrow>
         (let (m, w) = newMsg env w;
              (ok, w) = MarshalVTToMsg reply m w
          in if \<not> ok then release m (reply_placeholder env i (RpcId (msg_of w msg)) w)
             else (let req = msg_of w msg;
                       w = set_msg m (\<lambda>x. x\<lparr>MsgId := GetMsgId reply, TarActor := SrcActor req,
                             SrcActor := actorId w i, IsResponse := True, RpcId := RpcId req,
                             TraceIdHi := TraceIdHi req, TraceIdLo := TraceIdLo req,
                             SpanId := actorId w i, SeqId := SeqId req\<rparr>) w;
                       w = SendMsg env i m (retain m w)
                   in release m w))))"

definition SendToClientByUserId :: "env \<Rightarrow> aref \<Rightarrow> u64 \<Rightarrow> u64 \<Rightarrow> IMessage \<Rightarrow> world \<Rightarrow> world" where
  "SendToClientByUserId env i actorID userId clientMsg w =
    (if actorID = 0 then w
     else (let (m, w) = newMsg env w;
               (ok, w) = MarshalVTToMsg clientMsg m w
           in if \<not> ok then release m w
              else (let w = set_msg m (\<lambda>x. x\<lparr>MsgId := GetMsgId clientMsg, IsResponse := True, ToClient := True,
                          TarActor := actorID, SrcActor := actorId w i\<rparr>) w;
                        w = stamp_trace env i m w;
                        w = SendMsg env i m (retain m w)
                    in release m w)))"

definition SendToClient :: "env \<Rightarrow> aref \<Rightarrow> mref \<Rightarrow> IMessage \<Rightarrow> world \<Rightarrow> world" where
  "SendToClient env i msg clientMsg w =
    (let req = msg_of w msg; actorID = SrcActor req
     in if actorID = 0 then w
        else (let (m, w) = newMsg env w;
                  (ok, w) = MarshalVTToMsg clientMsg m w
              in if \<not> ok then release m w
                 else (let w = set_msg m (\<lambda>x. x\<lparr>MsgId := GetMsgId clientMsg, IsResponse := True,
                             ToClient := True, TarActor := actorID, SeqId := SeqId req,
                             SrcActor := actorId w i, TraceIdHi := TraceIdHi req, TraceIdLo := TraceIdLo req,
                             SpanId := actorId w i, SessionId := SessionId req\<rparr>) w;
                           w = SendMsg env i m (retain m w)
                       in release m w)))"

text \<open>The visit order of the recipients' map is that of the argument list.\<close>

definition batch_send_one :: "env \<Rightarrow> aref \<Rightarrow> mref option \<Rightarrow> i32 \<Rightarrow> byte list \<Rightarrow> u64 \<Rightarrow> i64 \<Rightarrow> world \<Rightarrow> world" where
  "batch_send_one env i origin mid body actorID sid w =
    (let (m, w) = newMsg env w;
         w = set_msg m (\<lambda>x. x\<lparr>MsgId := mid, Data := body, DataCap := e_grow env (length body), IsResponse := True,
               ToClient := True, TarActor := actorID, SrcActor := actorId w i, SessionId := sid, SeqId := 0\<rparr>) w;
         w = (case origin of
                Some orig \<Rightarrow> set_msg m (\<lambda>x. x\<lparr>TraceIdHi := TraceIdHi (msg_of w orig), TraceIdLo := TraceIdLo (msg_of w orig)\<rparr>) w
              | None \<Rightarrow> if e_trace env then set_msg m (e_genids env) w
                  else (let (z, w) = nextZid env w in set_msg m (\<lambda>x. x\<lparr>TraceIdHi := z\<rparr>) w));
         w = set_msg m (\<lambda>x. x\<lparr>SpanId := actorId w i\<rparr>) w;
         w = SendMsg env i m (retain m w)
     in release m w)"

definition BatchSendToClients ::
  "env \<Rightarrow> aref \<Rightarrow> mref option \<Rightarrow> (u64 \<times> i64 list) list \<Rightarrow> IMessage \<Rightarrow> world \<Rightarrow> world" where
  "BatchSendToClients env i origin actorUserMap clientMsg w =
    (if length actorUserMap = 0 then w
     else (case MarshalVT clientMsg of
        None \<Rightarrow> w
      | Some body \<Rightarrow>
         fold (\<lambda>(actorID, sessions) w.
             if actorID \<le> 0 \<or> length sessions = 0 then w
             else fold (batch_send_one env i origin (GetMsgId clientMsg) body actorID) sessions w)
           actorUserMap w))"

text \<open>\<open>pubsub.go\<close>: a listener of the event system.\<close>

definition OnChange :: "env \<Rightarrow> mref \<Rightarrow> aref \<Rightarrow> world \<Rightarrow> world" where
  "OnChange env msg c w =
    (let w = retain msg w in Push env c (cmd_zero\<lparr>Type := CmdTypeMsg, Msg := Some msg\<rparr>) w)"

definition Broadcast :: "env \<Rightarrow> aref \<Rightarrow> string \<Rightarrow> IMessage \<Rightarrow> world \<Rightarrow> bool \<times> world" where
  "Broadcast env i topic msg w =
    (let (m, w) = newMsg env w;
         (ok, w) = MarshalVTToMsg msg m w
     in if \<not> ok then (False, release m w)
        else (let w = set_msg m (\<lambda>x. x\<lparr>MsgId := GetMsgId msg, SrcActor := actorId w i\<rparr>) w;
                  w = stamp_trace env i m w
              in if isSingle (w_group w)
                 then (True, release m (fold (OnChange env m) (e_listeners env topic) w))
                 else (case MarshalPooled (msg_of w m) (e_oldbuf env (Size (msg_of w m))) of
                      Inl e \<Rightarrow> (False, release m w)
                    | Inr mBuf \<Rightarrow> (let (ok, w) = sendRemote env topic mBuf w in (ok, release m w)))))"

section \<open>RPC calls\<close>

datatype RpcErrCode = ErrCode_Success | ErrorCode_RpcTimeOut | ErrorCode_Serialize
  | ErrorCode_DeSerialize | ErrorCode_RpcErr

record RpcReply =
  Code :: RpcErrCode
  ReplyMsg :: string
  ReplyData :: "IMessage option"

definition getCircuitBreaker :: "aref \<Rightarrow> u64 \<Rightarrow> world \<Rightarrow> circuitBreaker \<times> world" where
  "getCircuitBreaker i tar w =
    (case circuitBreakers (w_actors w i) tar of
       Some cb \<Rightarrow> (cb, w)
     | None \<Rightarrow> (newCircuitBreaker,
         upd_actor i (\<lambda>x. x\<lparr>circuitBreakers := (circuitBreakers x)(tar \<mapsto> newCircuitBreaker)\<rparr>) w))"

definition set_breaker :: "aref \<Rightarrow> u64 \<Rightarrow> circuitBreaker \<Rightarrow> world \<Rightarrow> world" where
  "set_breaker i tar cb w = upd_actor i (\<lambda>x. x\<lparr>circuitBreakers := (circuitBreakers x)(tar \<mapsto> cb)\<rparr>) w"

text \<open>A call that waits: its target, its identifier and the request message it still holds.\<close>

record pending_call =
  pc_target :: u64
  pc_rpcId :: u64
  pc_msg :: mref

datatype call_state = CallDone RpcReply | CallWaiting pending_call | CallReplied pending_call "mref option"

definition failed_reply :: "RpcErrCode \<Rightarrow> string \<Rightarrow> RpcReply" where
  "failed_reply c s = \<lparr>Code = c, ReplyMsg = s, ReplyData = None\<rparr>"

definition of_reply_result :: "pending_call \<Rightarrow> reply_result \<Rightarrow> call_state" where
  "of_reply_result pc r = (case r of Returned d \<Rightarrow> CallReplied pc d | Blocked \<Rightarrow> CallWaiting pc)"

definition CallActor_begin ::
  "env \<Rightarrow> i64 \<Rightarrow> bool \<Rightarrow> aref \<Rightarrow> u64 \<Rightarrow> IMessage \<Rightarrow> int \<Rightarrow> world \<Rightarrow> call_state \<times> world" where
  "CallActor_begin env now ctxDone i tar request timeout w =
    (let (cb, w) = getCircuitBreaker i tar w;
         (ok, cb) = allow now cb;
         w = set_breaker i tar cb w
     in if \<not> ok then (CallDone (failed_reply ErrorCode_RpcErr ''circuit breaker open''), w)
        else (let (m, w) = newMsg env w;
                  (ok, w) = MarshalVTToMsg request m w
              in if \<not> ok then (CallDone (failed_reply ErrorCode_Serialize ''Serialize err''), release m w)
                 else (let (r, s) = AddSender now (a_sender (w_actors w i));
                           w = upd_actor i (\<lambda>x. x\<lparr>a_sender := s\<rparr>) w
                       in case r of
                            Inl e \<Rightarrow> (CallDone (failed_reply ErrorCode_RpcErr ''rpc id err''), release m w)
                          | Inr rpcId \<Rightarrow>
                             (let w = set_msg m (\<lambda>x. x\<lparr>MsgId := GetMsgId request, TarActor := tar,
                                        SrcActor := actorId w i, RpcId := rpcId\<rparr>) w;
                                  w = stamp_trace env i m w;
                                  w = SendMsg env i m (retain m w);
                                  pc = \<lparr>pc_target = tar, pc_rpcId = rpcId, pc_msg = m\<rparr>;
                                  (rr, s, h) = GetReply_enter ctxDone now rpcId timeout (a_sender (w_actors w i), w_heap w)
                              in (of_reply_result pc rr,
                                  upd_actor i (\<lambda>x. x\<lparr>a_sender := s\<rparr>) (w\<lparr>w_heap := h\<rparr>))))))"

definition CallActor_wait :: "i64 \<Rightarrow> aref \<Rightarrow> wake_event \<Rightarrow> pending_call \<Rightarrow> world \<Rightarrow> call_state \<times> world" where
  "CallActor_wait now i ev pc w =
    (let (rr, s, h) = GetReply_wake now (pc_rpcId pc) ev (a_sender (w_actors w i), w_heap w)
     in (of_reply_result pc rr, upd_actor i (\<lambda>x. x\<lparr>a_sender := s\<rparr>) (w\<lparr>w_heap := h\<rparr>)))"

definition CallActor_finish ::
  "i64 \<Rightarrow> aref \<Rightarrow> pending_call \<Rightarrow> mref option \<Rightarrow> IMessage \<Rightarrow> world \<Rightarrow> RpcReply \<times> world" where
  "CallActor_finish now i pc dat reply w =
    (let (cb, w) = getCircuitBreaker i (pc_target pc) w
     in case dat of
          None \<Rightarrow>
            (failed_reply ErrorCode_RpcTimeOut ''timeout'',
             release (pc_msg pc) (set_breaker i (pc_target pc) (recordFailure now cb) w))
        | Some d \<Rightarrow>
            (let w = set_breaker i (pc_target pc) (recordSuccess cb) w;
                 res = (if UnmarshalVT reply (Data (msg_of w d))
                        then \<lparr>Code = ErrCode_Success, ReplyMsg = ''ok'', ReplyData = Some reply\<rparr>
                        else failed_reply ErrorCode_DeSerialize ''DeSerialize err'')
             in (res, release (pc_msg pc) (release d w))))"

end
