(* ===== verification/ZActor.thy ===== *)
theory ZActor
  imports ZSend
begin

text \<open>
  \<open>zactor/base.go\<close>, \<open>handlemsg.go\<close>, \<open>handler.go\<close>, \<open>dispatcher.go\<close>, \<open>hotupdate.go\<close>, \<open>flow.go\<close>: what
  an actor does with its commands. The goroutine of \<open>Run\<close> dequeues a batch (\<open>Run_dequeue\<close>) and
  handles its commands one by one (\<open>Run_one\<close>); a worker runs one submitted task (\<open>worker_run\<close>).
  A panic of business code ends in a deferred \<open>Recover\<close>. Metrics, logs and spans are not modelled.
\<close>

section \<open>Construction and life cycle\<close>

definition nil_sender :: ActorMsgSender where
  "nil_sender = \<lparr>slots = [], cursor = 0, sender_timeout = 0, indexMask = 0, poolSize = 0,
     abandonedRecycleDelay = 0, waitingForceRecycleTTL = 0, watchdogTick = 0\<rparr>"

definition NewHandleRegistry :: HandleRegistry where
  "NewHandleRegistry = \<lparr>msgIdList = Map.empty, h_handlers = Map.empty\<rparr>"

definition NewDispatcher :: Dispatcher where
  "NewDispatcher = \<lparr>d_handlers = Map.empty\<rparr>"

text \<open>\<open>None\<close> when the worker pool cannot be created.\<close>

definition NewActor :: "env \<Rightarrow> FrameworkTuning option \<Rightarrow> ActorConfig \<Rightarrow> Actor option" where
  "NewActor env tuningValue actorConfig =
    (let tuning = GetFrameworkTuning tuningValue;
         psize = uint (WorkSize actorConfig);
         psize = (if psize \<le> 0 then ActorWorkSizeDefault tuning else psize)
     in if \<not> e_newpool env psize then None
        else Some \<lparr>a_config = actorConfig, a_dispatcher = NewDispatcher, a_handle = NewHandleRegistry,
               a_sender = nil_sender, ovHandleMessage = None, ovHandleClientMessage = None,
               ovHandleRespMessage = None, toClientFastPath = None, tickFns = Map.empty,
               tickEnabled = False, mailBoxQueue = [], mailClosed = False, a_batch = [],
               a_pool = \<lparr>wp_flow = True, wp_size = psize, wp_released = False\<rparr>, closeCh = False,
               closed_once = False, mailCount = 0, processingStart = 0, tickPending = False,
               circuitBreakers = Map.empty, subs = []\<rparr>)"

text \<open>\<open>subscribeRemoteBus\<close>: the topics whose subscription \<open>ok\<close> succeeded.\<close>

definition subscribeRemoteBus :: "env \<Rightarrow> (string \<Rightarrow> bool) \<Rightarrow> aref \<Rightarrow> world \<Rightarrow> world" where
  "subscribeRemoteBus env ok i w =
    (case e_bus env of
       None \<Rightarrow> w
     | Some _ \<Rightarrow>
        (let cfg = a_config (w_actors w i)
         in upd_actor i (\<lambda>x. x\<lparr>subs := subs x @ filter ok [GetTopic cfg, GetNameTopic cfg, getBroadcastTopic]\<rparr>) w))"

definition Init :: "env \<Rightarrow> bool \<Rightarrow> (string \<Rightarrow> bool) \<Rightarrow> aref \<Rightarrow> world \<Rightarrow> (sender_error + bool) \<times> world" where
  "Init env ctxNil ok i w =
    (if ctxNil then (Inr False, w)
     else (case NewSenderWithObserver (uint (MaxRPCPending (a_config (w_actors w i)))) of
        Inl e \<Rightarrow> (Inl e, w)
      | Inr s \<Rightarrow>
         (Inr True, subscribeRemoteBus env ok i (upd_actor i (\<lambda>x. x\<lparr>a_sender := s\<rparr>) w))))"

definition Close :: "aref \<Rightarrow> world \<Rightarrow> world" where
  "Close i w =
    (if closed_once (w_actors w i) then w
     else upd_actor i (\<lambda>x. x\<lparr>closed_once := True, subs := [], closeCh := True, mailClosed := True,
            a_pool := (a_pool x)\<lparr>wp_released := True\<rparr>\<rparr>) w)"

definition MarkTickPending :: "aref \<Rightarrow> world \<Rightarrow> bool \<times> world" where
  "MarkTickPending i w =
    (if \<not> tickPending (w_actors w i) then (True, upd_actor i (\<lambda>x. x\<lparr>tickPending := True\<rparr>) w)
     else (False, w))"

section \<open>Ticks\<close>

definition registerTickFn :: "aref \<Rightarrow> TickFnItem option \<Rightarrow> world \<Rightarrow> world" where
  "registerTickFn i f w =
    (case f of
       None \<Rightarrow> w
     | Some f \<Rightarrow>
        (case tickFns (w_actors w i) (TickName f) of
           Some _ \<Rightarrow> w
         | None \<Rightarrow> upd_actor i (\<lambda>x. x\<lparr>tickFns := (tickFns x)(TickName f \<mapsto> f), tickEnabled := True\<rparr>) w))"

definition HasTickFns :: "aref \<Rightarrow> world \<Rightarrow> bool" where
  "HasTickFns i w = tickEnabled (w_actors w i)"

definition RegisterTickFn :: "env \<Rightarrow> aref \<Rightarrow> string \<Rightarrow> int \<Rightarrow> fnref \<Rightarrow> world \<Rightarrow> world" where
  "RegisterTickFn env i name ivl f w =
    Push env i (cmd_zero\<lparr>Type := CmdTypeTickFn, TickFn := Some (NewTickFnItem name ivl f)\<rparr>) w"

text \<open>One visit of \<open>Update\<close>'s loop over the map; the visit order is the argument of \<open>Update\<close>, and
  a panic of a callback ends the loop (\<open>None\<close>).\<close>

definition Update_one :: "env \<Rightarrow> aref \<Rightarrow> i64 \<Rightarrow> string \<Rightarrow> world \<Rightarrow> unit option \<times> world" where
  "Update_one env i nowTs name w =
    (case tickFns (w_actors w i) name of
       None \<Rightarrow> (Some (), w)
     | Some v \<Rightarrow>
        if Interval v > 0 \<and> sint nowTs < LastTime v then (Some (), w)
        else (let w = (if Interval v > 0
                       then upd_actor i (\<lambda>x. x\<lparr>tickFns := (tickFns x)(name \<mapsto>
                              v\<lparr>LastTime := sint nowTs + Milliseconds (Interval v)\<rparr>)\<rparr>) w
                       else w);
                  (r, w) = e_call env (TickDo v) (ATick nowTs) w
              in (case r of None \<Rightarrow> None | Some _ \<Rightarrow> Some (), w)))"

fun Update :: "env \<Rightarrow> aref \<Rightarrow> i64 \<Rightarrow> string list \<Rightarrow> world \<Rightarrow> world" where
  "Update env i nowTs [] w = w"
| "Update env i nowTs (name # names) w =
    (let (r, w) = Update_one env i nowTs name w
     in case r of None \<Rightarrow> w | Some _ \<Rightarrow> Update env i nowTs names w)"

text \<open>One visit of the ticker of \<open>group.go\<close>.\<close>

definition tick_one :: "env \<Rightarrow> i64 \<Rightarrow> aref \<Rightarrow> world \<Rightarrow> world" where
  "tick_one env nowTs i w =
    (if \<not> HasTickFns i w then w
     else (let (marked, w) = MarkTickPending i w
           in if marked then Push env i (cmd_zero\<lparr>Type := CmdTypeTick, TickNow := sint nowTs\<rparr>) w else w))"

definition tick :: "env \<Rightarrow> i64 \<Rightarrow> u64 list \<Rightarrow> world \<Rightarrow> world" where
  "tick env nowTs order w =
    fold (\<lambda>(k, item) w. tick_one env nowTs (IActor item) w) (items order (actors (w_group w))) w"

section \<open>Handlers\<close>

definition AddMsgId :: "i32 \<Rightarrow> HandleRegistry \<Rightarrow> HandleRegistry" where
  "AddMsgId mid h = h\<lparr>msgIdList := (msgIdList h)(mid \<mapsto> 1)\<rparr>"

definition RegisterHandle :: "i32 \<Rightarrow> fnref \<Rightarrow> HandleRegistry \<Rightarrow> HandleRegistry" where
  "RegisterHandle mid handle h =
    (case h_handlers h mid of
       Some _ \<Rightarrow> h
     | None \<Rightarrow> h\<lparr>h_handlers := (h_handlers h)(mid \<mapsto> handle), msgIdList := (msgIdList h)(mid \<mapsto> 1)\<rparr>)"

definition GetClientHandle :: "i32 \<Rightarrow> HandleRegistry \<Rightarrow> fnref option" where
  "GetClientHandle mid h = (case h_handlers h mid of Some entry \<Rightarrow> Some entry | None \<Rightarrow> None)"

definition Dispatcher_Register :: "i32 \<Rightarrow> fnref \<Rightarrow> Dispatcher \<Rightarrow> Dispatcher" where
  "Dispatcher_Register mid handler d = d\<lparr>d_handlers := (d_handlers d)(mid \<mapsto> handler)\<rparr>"

definition RegisterBatch :: "(i32 \<times> fnref) list \<Rightarrow> Dispatcher \<Rightarrow> Dispatcher" where
  "RegisterBatch handlers d = fold (\<lambda>(mid, handler). Dispatcher_Register mid handler) handlers d"

text \<open>The handlers of the registry and of the dispatcher; \<open>False\<close> is a panic, recovered by the
  caller.\<close>

definition Registry_HandleClientMessage :: "env \<Rightarrow> aref \<Rightarrow> mref \<Rightarrow> world \<Rightarrow> bool \<times> world" where
  "Registry_HandleClientMessage env i msg w =
    (case h_handlers (a_handle (w_actors w i)) (MsgId (msg_of w msg)) of
       None \<Rightarrow> (True, w)
     | Some handle \<Rightarrow> (let (r, w) = e_call env handle (AMsg msg) w in (r \<noteq> None, w)))"

definition Dispatch :: "env \<Rightarrow> aref \<Rightarrow> mref \<Rightarrow> world \<Rightarrow> bool \<times> world" where
  "Dispatch env i msg w =
    (case d_handlers (a_dispatcher (w_actors w i)) (MsgId (msg_of w msg)) of
       None \<Rightarrow> (True, w)
     | Some handler \<Rightarrow>
        (let (r, w) = e_call env handler (AMsg msg) w
         in case r of
              None \<Rightarrow> (False, w)
            | Some ret \<Rightarrow>
               (case ret_reply ret of
                  None \<Rightarrow> (True, w)
                | Some reply \<Rightarrow> (True, SendActorReply env i msg (Some reply) w))))"

text \<open>Calls through \<open>iActor\<close>.\<close>

definition via :: "env \<Rightarrow> fnref option \<Rightarrow> mref \<Rightarrow> (world \<Rightarrow> bool \<times> world) \<Rightarrow> world \<Rightarrow> bool \<times> world" where
  "via env ov msg own w =
    (case ov of Some f \<Rightarrow> (let (r, w) = e_call env f (AMsg msg) w in (r \<noteq> None, w)) | None \<Rightarrow> own w)"

definition HandleClientMessage :: "env \<Rightarrow> aref \<Rightarrow> mref \<Rightarrow> world \<Rightarrow> bool \<times> world" where
  "HandleClientMessage env i msg w = Registry_HandleClientMessage env i msg w"

definition HandleMessage :: "env \<Rightarrow> aref \<Rightarrow> mref \<Rightarrow> world \<Rightarrow> bool \<times> world" where
  "HandleMessage env i msg w =
    (if FromClient (msg_of w msg)
     then via env (ovHandleClientMessage (w_actors w i)) msg (HandleClientMessage env i msg) w
     else Dispatch env i msg w)"

definition HandleRespMessage :: "env \<Rightarrow> aref \<Rightarrow> mref \<Rightarrow> world \<Rightarrow> bool \<times> world" where
  "HandleRespMessage env i msg w =
    (if IsResponse (msg_of w msg) then (True, actor_SetReply i msg w) else (True, w))"

definition handleMessage :: "env \<Rightarrow> aref \<Rightarrow> mref \<Rightarrow> world \<Rightarrow> bool \<times> world" where
  "handleMessage env i msg w =
    (if IsResponse (msg_of w msg) then
       (if \<not> ToClient (msg_of w msg) then (True, actor_SetReply i msg w)
        else via env (ovHandleRespMessage (w_actors w i)) msg (HandleRespMessage env i msg) w)
     else via env (ovHandleMessage (w_actors w i)) msg (HandleMessage env i msg) w)"

section \<open>Closures and tasks\<close>

text \<open>A call of a function value without arguments (\<open>None\<close>: panic); the closures of
  \<open>hotupdate.go\<close> run here, on the actor's goroutine.\<close>

definition run_gofn :: "env \<Rightarrow> aref \<Rightarrow> gofn \<Rightarrow> world \<Rightarrow> goret option \<times> world" where
  "run_gofn env i fn w =
    (case fn of
       UserFn f \<Rightarrow> e_call env f ANone w
     | SendRemote msg cfg \<Rightarrow> (Some (RVal None), run_SendRemote env msg cfg w)
     | TunePool newSize \<Rightarrow>
        (Some RNone,
         if newSize \<le> 0 then w
         else upd_actor i (\<lambda>x. x\<lparr>a_pool := (a_pool x)\<lparr>wp_size := newSize\<rparr>\<rparr>) w)
     | SetRate rate burst \<Rightarrow>
        (Some RNone, upd_actor i (\<lambda>x. x\<lparr>a_config := (a_config x)\<lparr>Rate := rate, Burst := burst\<rparr>\<rparr>) w)
     | SetMaxRPC newSize \<Rightarrow>
        (Some RNone,
         if newSize \<le> 0 then w
         else upd_actor i (\<lambda>x. x\<lparr>a_config := (a_config x)\<lparr>MaxRPCPending := newSize\<rparr>\<rparr>) w)
     | RebuildPool n \<Rightarrow>
        (Some RNone,
         if \<not> e_newpool env n then w
         else upd_actor i (\<lambda>x. x\<lparr>a_pool := \<lparr>wp_flow = False, wp_size = n, wp_released = False\<rparr>\<rparr>) w))"

definition safeUpdate :: "env \<Rightarrow> aref \<Rightarrow> gofn option \<Rightarrow> world \<Rightarrow> world" where
  "safeUpdate env i fn w =
    (case fn of None \<Rightarrow> w | Some f \<Rightarrow> Push env i (cmd_zero\<lparr>Type := CmdTypeSafeFn, Fn := Some f\<rparr>) w)"

definition safeExecute :: "env \<Rightarrow> aref \<Rightarrow> gofn option \<Rightarrow> world \<Rightarrow> world" where
  "safeExecute env i fn w = (case fn of None \<Rightarrow> w | Some f \<Rightarrow> snd (run_gofn env i f w))"

definition UpdateWorkerPoolSize :: "env \<Rightarrow> aref \<Rightarrow> int \<Rightarrow> world \<Rightarrow> world" where
  "UpdateWorkerPoolSize env i newSize w = safeUpdate env i (Some (TunePool newSize)) w"

definition UpdateRateLimit :: "env \<Rightarrow> aref \<Rightarrow> int \<Rightarrow> int \<Rightarrow> world \<Rightarrow> world" where
  "UpdateRateLimit env i rate burst w = safeUpdate env i (Some (SetRate rate burst)) w"

definition UpdateMaxRPCPending :: "env \<Rightarrow> aref \<Rightarrow> u32 \<Rightarrow> world \<Rightarrow> world" where
  "UpdateMaxRPCPending env i newSize w = safeUpdate env i (Some (SetMaxRPC newSize)) w"

definition RebuildWorkerPool :: "env \<Rightarrow> aref \<Rightarrow> int \<Rightarrow> world \<Rightarrow> world" where
  "RebuildWorkerPool env i n w = safeUpdate env i (Some (RebuildPool n)) w"

definition runWithMsg :: "env \<Rightarrow> aref \<Rightarrow> mref \<Rightarrow> fnref \<Rightarrow> tref \<Rightarrow> world \<Rightarrow> world" where
  "runWithMsg env i msg f t w =
    (let (r, w) = e_call env f (AMsg msg) w
     in case r of
          None \<Rightarrow> w
        | Some v \<Rightarrow>
           (let w = upd_task t (\<lambda>k. k\<lparr>t_result := ret_val v\<rparr>) w
            in if callBackFunc (w_task w t) \<noteq> None
               then Push env i (cmd_zero\<lparr>Type := CmdTypeAsync, Any := Some t\<rparr>) w
               else putAsyncTask t (release msg w)))"

text \<open>A call of a nil \<open>fSimple\<close> panics.\<close>

definition runSimple :: "env \<Rightarrow> aref \<Rightarrow> tref \<Rightarrow> world \<Rightarrow> world" where
  "runSimple env i t w =
    (case fSimple (w_task w t) of
       None \<Rightarrow> w
     | Some f \<Rightarrow>
        (let (r, w) = run_gofn env i f w
         in case r of
              None \<Rightarrow> w
            | Some v \<Rightarrow>
               (let w = upd_task t (\<lambda>k. k\<lparr>t_result := ret_val v\<rparr>) w
                in if callBackFunc (w_task w t) \<noteq> None
                   then Push env i (cmd_zero\<lparr>Type := CmdTypeAsync, Any := Some t\<rparr>) w
                   else putAsyncTask t w)))"

definition runFlow :: "env \<Rightarrow> aref \<Rightarrow> fnref \<Rightarrow> tref \<Rightarrow> world \<Rightarrow> world" where
  "runFlow env i f t w =
    (let msg = t_msg (w_task w t);
         (r, w) = e_call env f (AMsgOpt msg) w
     in case r of
          None \<Rightarrow> putAsyncTask t (hp (Release msg) w)
        | Some v \<Rightarrow>
           (let w = upd_task t (\<lambda>k. k\<lparr>flowVal := ret_val v, flowErr := ret_err v\<rparr>) w
            in if flowThen (w_task w t) \<noteq> None
               then Push env i (cmd_zero\<lparr>Type := CmdTypeAsync, Any := Some t\<rparr>) w
               else putAsyncTask t (hp (Release msg) w)))"

text \<open>The function of the worker pool: that of \<open>NewActor\<close> and, without its first branch, that of
  \<open>RebuildWorkerPool\<close>. A task without an actor panics in the deferred function, on the worker's
  goroutine, and is dropped.\<close>

definition worker_run :: "env \<Rightarrow> bool \<Rightarrow> tref \<Rightarrow> world \<Rightarrow> world" where
  "worker_run env flow t w =
    (case t_actor (w_task w t) of
       None \<Rightarrow> w
     | Some i \<Rightarrow>
        (case flowWork (w_task w t) of
           Some f \<Rightarrow>
             if flow then runFlow env i f t w
             else (case (t_msg (w_task w t), fMsg (w_task w t)) of
                (Some msg, Some g) \<Rightarrow> runWithMsg env i msg g t w
              | _ \<Rightarrow> runSimple env i t w)
         | None \<Rightarrow>
            (case (t_msg (w_task w t), fMsg (w_task w t)) of
               (Some msg, Some g) \<Rightarrow> runWithMsg env i msg g t w
             | _ \<Rightarrow> runSimple env i t w)))"

definition runCallbackOnActor :: "env \<Rightarrow> tref \<Rightarrow> world \<Rightarrow> world" where
  "runCallbackOnActor env t w =
    (case t_actor (w_task w t) of
       None \<Rightarrow> putAsyncTask t w
     | Some a \<Rightarrow>
        (let msg = t_msg (w_task w t)
         in if flowWork (w_task w t) \<noteq> None then
              (case flowThen (w_task w t) of
                 None \<Rightarrow> hp (Release msg) (putAsyncTask t w)
               | Some thn \<Rightarrow>
                  (let (r, w) = e_call env thn (AThen a (flowVal (w_task w t)) (flowErr (w_task w t))) w
                   in case r of
                        None \<Rightarrow> hp (Release msg) w
                      | Some _ \<Rightarrow> hp (Release msg) (putAsyncTask t w)))
            else
              (let (v, w) = run_validators env (validators (w_task w t)) w
               in case v of
                    None \<Rightarrow> hp (Release msg) w
                  | Some False \<Rightarrow> hp (Release msg) (putAsyncTask t w)
                  | Some True \<Rightarrow>
                     (case callBackFunc (w_task w t) of
                        None \<Rightarrow> hp (Release msg) w
                      | Some cb \<Rightarrow>
                         (let (r, w) = e_call env cb (AVal (t_result (w_task w t))) w
                          in case r of
                               None \<Rightarrow> hp (Release msg) w
                             | Some _ \<Rightarrow> hp (Release msg) (putAsyncTask t w))))))"

section \<open>The main loop\<close>

text \<open>\<open>order\<close> is the visit order of the tick functions, \<open>start\<close> the clock at the start (the deferred
  function of \<open>SafeHandleMessage\<close> resets it).\<close>

definition SafeHandleMessage :: "env \<Rightarrow> aref \<Rightarrow> string list \<Rightarrow> cmd \<Rightarrow> i64 \<Rightarrow> i64 \<Rightarrow> world \<Rightarrow> world" where
  "SafeHandleMessage env i order msg start nowTs w =
    (let w = upd_actor i (\<lambda>x. x\<lparr>processingStart := start\<rparr>) w;
         w = (case Type msg of
                CmdTypeTick \<Rightarrow>
                  Update env i nowTs order (upd_actor i (\<lambda>x. x\<lparr>tickPending := False\<rparr>) w)
              | CmdTypeMsg \<Rightarrow> (case Msg msg of Some m \<Rightarrow> snd (handleMessage env i m w) | None \<Rightarrow> w)
              | CmdTypeClient \<Rightarrow> (case Msg msg of Some m \<Rightarrow> snd (handleMessage env i m w) | None \<Rightarrow> w)
              | CmdTypeSafeFn \<Rightarrow> safeExecute env i (Fn msg) w
              | CmdTypeTickFn \<Rightarrow> registerTickFn i (TickFn msg) w
              | CmdTypeAsync \<Rightarrow> (case Any msg of Some t \<Rightarrow> runCallbackOnActor env t w | None \<Rightarrow> w)
              | CmdOther _ \<Rightarrow> w)
     in upd_actor i (\<lambda>x. x\<lparr>processingStart := 0\<rparr>) w)"

text \<open>\<open>DequeueBatch\<close> returns the \<open>n\<close> oldest commands; \<open>n\<close> is chosen by the batcher and the queue.
  The result is whether \<open>Run\<close> returns.\<close>

definition Run_dequeue :: "bool \<Rightarrow> aref \<Rightarrow> nat \<Rightarrow> world \<Rightarrow> bool \<times> world" where
  "Run_dequeue shouldExit i n w =
    (let msgs = take n (mailBoxQueue (w_actors w i));
         w = upd_actor i (\<lambda>x. x\<lparr>mailBoxQueue := drop n (mailBoxQueue x), a_batch := msgs\<rparr>) w
     in if shouldExit \<and> length msgs = 0 then (True, w)
        else if length msgs = 0 then (False, upd_actor i (\<lambda>x. x\<lparr>mailCount := 0\<rparr>) w)
        else (False, w))"

definition Run_one :: "env \<Rightarrow> aref \<Rightarrow> string list \<Rightarrow> i64 \<Rightarrow> i64 \<Rightarrow> world \<Rightarrow> world" where
  "Run_one env i order start nowTs w =
    (case a_batch (w_actors w i) of
       [] \<Rightarrow> w
     | c # rest \<Rightarrow>
        (let w = upd_actor i (\<lambda>x. x\<lparr>a_batch := rest\<rparr>) w;
             w = SafeHandleMessage env i order c start nowTs w
         in hp (\<lambda>h. snd (ActorCmd_Release c h)) w))"

section \<open>Receiving\<close>

definition receiveRemote :: "env \<Rightarrow> aref \<Rightarrow> byte list \<Rightarrow> world \<Rightarrow> world" where
  "receiveRemote env i dat w =
    (let (m, w) = newMsg env w;
         (err, msg) = Unmarshal (msg_of w m) dat;
         w = set_msg m (\<lambda>_. msg) w
     in case err of
          Some e \<Rightarrow> release m w
        | None \<Rightarrow> Push env i (cmd_zero\<lparr>Type := CmdTypeMsg, Msg := Some m\<rparr>) w)"

definition SelectActor ::
  "(string \<Rightarrow> ActorConfig) option \<Rightarrow> u64 list \<Rightarrow> u32 \<Rightarrow> world \<Rightarrow> ActorConfig \<times> world" where
  "SelectActor findPoll order actorType w =
    (case findPoll of
       None \<Rightarrow>
         (case FindPoolActorByType (\<lambda>i. a_config (w_actors w i)) order actorType (w_group w) of
            (Inl e, g) \<Rightarrow> (config_zero, w\<lparr>w_group := g\<rparr>)
          | (Inr cfg, g) \<Rightarrow> (cfg, w\<lparr>w_group := g\<rparr>))
     | Some fp \<Rightarrow> (fp (''/servers/'' @ fmt_d (unat actorType)), w))"

end
