(* ===== verification/ZRefs.thy ===== *)
theory ZRefs
  imports ZActor "HOL-Library.Multiset"
begin

text \<open>
  Reference counting over the whole process. \<open>held\<close> collects every reference to a message that the
  framework stores: in mailboxes and dequeued batches, in the channels of RPC slots, in
  asynchronous tasks. The invariant \<open>winv e S T\<close> relates them to the counters, where \<open>S\<close> are the
  references in local variables of running code and \<open>T\<close> the tasks it works on. With \<open>e = False\<close>
  counters are at least the number of references (no message is recycled while someone holds it);
  with \<open>e = True\<close> they are equal (nothing leaks). What the business functions, called through the
  environment, must respect is \<open>env_ok\<close>.
\<close>

section \<open>Stored references\<close>

definition opt_list :: "'a option \<Rightarrow> 'a list" where
  "opt_list p = (case p of None \<Rightarrow> [] | Some x \<Rightarrow> [x])"

lemma opt_list_simps [simp]: "opt_list None = []" "opt_list (Some x) = [x]"
  by (simp_all add: opt_list_def)

definition queue_msgs :: "cmd list \<Rightarrow> mref list" where
  "queue_msgs cs = concat (map (\<lambda>c. opt_list (Msg c)) cs)"

definition queue_tasks :: "cmd list \<Rightarrow> tref list" where
  "queue_tasks cs = concat (map (\<lambda>c. opt_list (Any c)) cs)"

lemma queue_simps [simp]:
  "queue_msgs [] = []" "queue_msgs (c # cs) = opt_list (Msg c) @ queue_msgs cs"
  "queue_msgs (xs @ ys) = queue_msgs xs @ queue_msgs ys"
  "queue_tasks [] = []" "queue_tasks (c # cs) = opt_list (Any c) @ queue_tasks cs"
  "queue_tasks (xs @ ys) = queue_tasks xs @ queue_tasks ys"
  by (simp_all add: queue_msgs_def queue_tasks_def)

definition slot_msgs :: "rpcSlot \<Rightarrow> mref list" where
  "slot_msgs s = (case ch s of None \<Rightarrow> [] | Some buf \<Rightarrow> buf)"

definition chan_msgs :: "ActorMsgSender \<Rightarrow> mref multiset" where
  "chan_msgs m = (\<Sum>s\<leftarrow>slots m. mset (slot_msgs s))"

definition act_queue :: "Actor \<Rightarrow> cmd list" where
  "act_queue x = a_batch x @ mailBoxQueue x"

definition act_msgs :: "Actor \<Rightarrow> mref multiset" where
  "act_msgs x = chan_msgs (a_sender x) + mset (queue_msgs (act_queue x))"

definition task_msgs :: "asyncTask \<Rightarrow> mref multiset" where
  "task_msgs k = mset (opt_list (t_msg k)) + (case fSimple k of Some (SendRemote a _) \<Rightarrow> {#a#} | _ \<Rightarrow> {#})"

definition flying :: "world \<Rightarrow> tref multiset" where
  "flying w = mset (map snd (w_submitted w)) + (\<Sum>i<w_nact w. mset (queue_tasks (act_queue (w_actors w i))))"

text \<open>\<open>T\<close> are the tasks of running code. A task that is dropped without being put back is garbage:
  what it refers to is not counted.\<close>

definition acts_held :: "world \<Rightarrow> mref multiset" where
  "acts_held w = (\<Sum>i<w_nact w. act_msgs (w_actors w i))"

definition tasks_held :: "tref multiset \<Rightarrow> world \<Rightarrow> mref multiset" where
  "tasks_held R w = (\<Sum>t\<in>#R. task_msgs (w_task w t))"

definition held :: "tref multiset \<Rightarrow> world \<Rightarrow> mref multiset" where
  "held T w = acts_held w + tasks_held (T + flying w) w"

lemma sum_fun_upd:
  fixes g :: "'b \<Rightarrow> 'c::comm_monoid_add"
  assumes "i < (n::nat)"
  shows "(\<Sum>j<n. g ((f(i := y)) j)) + g (f i) = (\<Sum>j<n. g (f j)) + g y"
proof -
  have split: "(\<Sum>j<n. h j) = h i + (\<Sum>j\<in>{..<n} - {i}. h j)" for h :: "nat \<Rightarrow> 'c"
    using assms by (intro sum.remove) auto
  have "(\<Sum>j\<in>{..<n} - {i}. g ((f(i := y)) j)) = (\<Sum>j\<in>{..<n} - {i}. g (f j))"
    by (intro sum.cong) auto
  then show ?thesis
    using split [of "\<lambda>j. g ((f(i := y)) j)"] split [of "\<lambda>j. g (f j)"] by (simp add: ac_simps)
qed

lemma acts_held_upd_actor:
  "i < w_nact w \<Longrightarrow> acts_held (upd_actor i f w) + act_msgs (w_actors w i) = acts_held w + act_msgs (f (w_actors w i))"
  using sum_fun_upd [of i "w_nact w" act_msgs "w_actors w" "f (w_actors w i)"]
  by (simp add: acts_held_def upd_actor_def ac_simps)

lemma tasks_held_simps [simp]:
  "tasks_held {#} w = {#}" "tasks_held (add_mset t R) w = task_msgs (w_task w t) + tasks_held R w"
  "tasks_held (R + R') w = tasks_held R w + tasks_held R' w"
  by (simp_all add: tasks_held_def)

lemma tasks_held_cong: "(\<And>t. t \<in># R \<Longrightarrow> w_task w' t = w_task w t) \<Longrightarrow> tasks_held R w' = tasks_held R w"
  by (induction R) simp_all

lemma flying_upd_actor:
  "i < w_nact w \<Longrightarrow> flying (upd_actor i f w) + mset (queue_tasks (act_queue (w_actors w i)))
     = flying w + mset (queue_tasks (act_queue (f (w_actors w i))))"
  using sum_fun_upd [of i "w_nact w" "\<lambda>x. mset (queue_tasks (act_queue x))" "w_actors w" "f (w_actors w i)"]
  by (simp add: flying_def upd_actor_def ac_simps)

lemma world_simps [simp]:
  "w_heap (upd_actor i f w) = w_heap w" "w_heap (upd_task t g w) = w_heap w" "w_heap (hp k w) = k (w_heap w)"
  "w_nact (upd_actor i f w) = w_nact w" "w_nact (upd_task t g w) = w_nact w" "w_nact (hp k w) = w_nact w"
  "w_tnext (upd_actor i f w) = w_tnext w" "w_tnext (upd_task t g w) = w_tnext w" "w_tnext (hp k w) = w_tnext w"
  "w_tpool (upd_actor i f w) = w_tpool w" "w_tpool (upd_task t g w) = w_tpool w" "w_tpool (hp k w) = w_tpool w"
  "w_group (upd_actor i f w) = w_group w" "w_group (upd_task t g w) = w_group w" "w_group (hp k w) = w_group w"
  "w_submitted (upd_actor i f w) = w_submitted w" "w_submitted (upd_task t g w) = w_submitted w"
  "w_submitted (hp k w) = w_submitted w"
  "w_task (upd_actor i f w) = w_task w" "w_task (hp k w) = w_task w"
  "w_actors (upd_task t g w) = w_actors w" "w_actors (hp k w) = w_actors w"
  "w_actors (upd_actor i f w) = (w_actors w)(i := f (w_actors w i))"
  "w_task (upd_task t g w) = (w_task w)(t := g (w_task w t))"
  by (simp_all add: upd_actor_def upd_task_def hp_def)

lemma flying_cong:
  "w_nact w' = w_nact w \<Longrightarrow> w_actors w' = w_actors w \<Longrightarrow> w_submitted w' = w_submitted w \<Longrightarrow> flying w' = flying w"
  by (simp add: flying_def)

lemma held_cong:
  "w_nact w' = w_nact w \<Longrightarrow> w_actors w' = w_actors w \<Longrightarrow> w_submitted w' = w_submitted w \<Longrightarrow>
   w_task w' = w_task w \<Longrightarrow> held T w' = held T w"
  by (simp add: held_def acts_held_def flying_def tasks_held_def)

lemma held_hp [simp]: "held T (hp k w) = held T w"
  by (rule held_cong) simp_all

lemma flying_hp [simp]: "flying (hp k w) = flying w"
  by (rule flying_cong) simp_all

lemma flying_upd_task [simp]: "flying (upd_task t g w) = flying w"
  by (rule flying_cong) simp_all

lemma held_heap_update [simp]: "held T (w\<lparr>w_heap := h\<rparr>) = held T w"
  by (rule held_cong) simp_all

lemma flying_heap_update [simp]: "flying (w\<lparr>w_heap := h\<rparr>) = flying w"
  by (rule flying_cong) simp_all

section \<open>The invariant\<close>

definition below :: "bool \<Rightarrow> 'a multiset \<Rightarrow> 'a multiset \<Rightarrow> bool" where
  "below e A B \<longleftrightarrow> A \<subseteq># B \<and> (e \<longrightarrow> A = B)"

lemma below_refl [simp]: "below e A A"
  by (simp add: below_def)

lemma below_trans: "below e A B \<Longrightarrow> below e B C \<Longrightarrow> below e A C"
  by (auto simp: below_def)

lemma below_add [simp]: "below e (add_mset a A) (add_mset a B) \<longleftrightarrow> below e A B"
  by (auto simp: below_def)

definition heap_refs :: "mheap \<Rightarrow> mref \<Rightarrow> nat" where
  "heap_refs h a = (if a < mnext h then refs h a else 0)"

definition refs_inv :: "bool \<Rightarrow> mref multiset \<Rightarrow> mheap \<Rightarrow> bool" where
  "refs_inv e R h \<longleftrightarrow> pool_inv h \<and> (\<forall>a. count R a \<le> heap_refs h a \<and> (e \<longrightarrow> count R a = heap_refs h a))"

definition cmd_ok :: "bool \<Rightarrow> cmd \<Rightarrow> bool" where
  "cmd_ok e c \<longleftrightarrow> (\<forall>a cfg. Fn c \<noteq> Some (SendRemote a cfg))
     \<and> (e \<longrightarrow> (\<forall>n. Fn c \<noteq> Some (RebuildPool n)) \<and> (Any c \<noteq> None \<longrightarrow> Type c = CmdTypeAsync))"

definition task_ok :: "bool \<Rightarrow> world \<Rightarrow> asyncTask \<Rightarrow> bool" where
  "task_ok e w k \<longleftrightarrow> (\<forall>i. t_actor k = Some i \<longrightarrow> i < w_nact w)
     \<and> (\<forall>a cfg. fSimple k = Some (SendRemote a cfg) \<longrightarrow>
          t_msg k = None \<and> callBackFunc k = None \<and> flowWork k = None)
     \<and> (e \<longrightarrow> (\<forall>n. fSimple k \<noteq> Some (RebuildPool n)))"

text \<open>Exactness needs every task in use to have one of the three shapes the code creates.\<close>

definition task_shape :: "asyncTask \<Rightarrow> bool" where
  "task_shape k \<longleftrightarrow> t_actor k \<noteq> None
     \<and> (flowWork k \<noteq> None \<and> fSimple k = None
        \<or> flowWork k = None \<and> t_msg k \<noteq> None \<and> fMsg k \<noteq> None \<and> fSimple k = None
        \<or> flowWork k = None \<and> t_msg k = None \<and> fSimple k \<noteq> None)"

definition tasks_inv :: "bool \<Rightarrow> tref multiset \<Rightarrow> world \<Rightarrow> bool" where
  "tasks_inv e R w \<longleftrightarrow>
     (\<forall>t. count R t \<le> of_bool (t < w_tnext w) \<and> (e \<longrightarrow> count R t = of_bool (t < w_tnext w)))
     \<and> (\<forall>t \<in> set (w_tpool w). w_task w t = empty_task)
     \<and> (\<forall>t < w_tnext w. task_ok e w (w_task w t))"

definition acts_inv :: "bool \<Rightarrow> world \<Rightarrow> bool" where
  "acts_inv e w \<longleftrightarrow>
     (\<forall>i < w_nact w. sender_ok (a_sender (w_actors w i))
        \<and> (\<forall>c \<in> set (act_queue (w_actors w i)). cmd_ok e c)
        \<and> (e \<longrightarrow> wp_flow (a_pool (w_actors w i))))
     \<and> (\<forall>k it. actors (w_group w) k = Some it \<longrightarrow> IActor it < w_nact w)
     \<and> (e \<longrightarrow> (\<forall>(fl, t) \<in> set (w_submitted w). fl))
     \<and> (e \<longrightarrow> (\<forall>t \<in># flying w. task_shape (w_task w t)))
     \<and> (e \<longrightarrow> (\<forall>i < w_nact w. \<forall>t \<in> set (queue_tasks (act_queue (w_actors w i))).
          flowWork (w_task w t) = None \<longrightarrow> callBackFunc (w_task w t) \<noteq> None))"

definition winv :: "bool \<Rightarrow> mref multiset \<Rightarrow> tref multiset \<Rightarrow> world \<Rightarrow> bool" where
  "winv e S T w \<longleftrightarrow> refs_inv e (S + held T w) (w_heap w)
     \<and> tasks_inv e (T + mset (w_tpool w) + flying w) w \<and> acts_inv e w"

section \<open>Counters\<close>

lemma refs_inv_mono:
  assumes "refs_inv e R h" and "below e R' R"
  shows "refs_inv e R' h"
  using assms unfolding refs_inv_def below_def
  by (metis mset_subset_eq_count order_trans)

lemma refs_inv_live:
  assumes "refs_inv e R h" and "a \<in># R"
  shows "a < mnext h \<and> 0 < refs h a \<and> live h a"
proof -
  have "0 < count R a" using assms(2) by simp
  moreover have "count R a \<le> heap_refs h a" and p: "pool_inv h" using assms(1) by (auto simp: refs_inv_def)
  ultimately have "0 < heap_refs h a" by linarith
  then have "a < mnext h" "0 < refs h a" by (simp_all add: heap_refs_def split: if_splits)
  then show ?thesis using pooled_iff_refs [OF p, of a] by (simp add: live_def)
qed

lemma refs_inv_Release:
  assumes inv: "refs_inv e R h" and R: "below e (add_mset a R') R"
  shows "refs_inv e R' (Release (Some a) h)"
proof -
  have inv': "refs_inv e (add_mset a R') h" using refs_inv_mono [OF inv R] .
  then have a: "a < mnext h" "pool_inv h" using refs_inv_live [OF inv', of a] by (simp_all add: refs_inv_def)
  have "refs (Release (Some a) h) b = (if b = a then refs h a - 1 else refs h b)" for b
    using refs_Release [OF a(2,1)] Release_other [of b a h] by (auto simp: refs_def)
  then have hr: "heap_refs (Release (Some a) h) b = (if b = a then refs h a - 1 else heap_refs h b)" for b
    using a by (simp add: heap_refs_def)
  have cnt: "count (add_mset a R') b \<le> heap_refs h b \<and> (e \<longrightarrow> count (add_mset a R') b = heap_refs h b)" for b
    using inv' by (simp add: refs_inv_def)
  have "count R' b \<le> heap_refs (Release (Some a) h) b \<and> (e \<longrightarrow> count R' b = heap_refs (Release (Some a) h) b)" for b
  proof (cases "b = a")
    case True
    have "heap_refs h a = refs h a" using a by (simp add: heap_refs_def)
    then show ?thesis using cnt [of a] True unfolding hr by auto
  next
    case False
    then show ?thesis using cnt [of b] unfolding hr by auto
  qed
  then show ?thesis using Release_inv [OF a(2,1)] by (simp add: refs_inv_def)
qed

lemma refs_Retain:
  "refs h a < 2 ^ 31 - 1 \<Longrightarrow> 0 < refs h a \<Longrightarrow> refs (Retain (Some a) h) b = (if b = a then refs h a + 1 else refs h b)"
  by (auto simp: refs_def pool_simps sint_inc)

lemma mnext_Retain [simp]: "mnext (Retain p h) = mnext h"
  by (simp add: pool_simps split: option.split)

lemma refs_inv_Retain:
  assumes inv: "refs_inv e R h" and a: "a \<in># R" and room: "refs h a < 2 ^ 31 - 1"
    and R: "below e R' (add_mset a R)"
  shows "refs_inv e R' (Retain (Some a) h)"
proof -
  note l = refs_inv_live [OF inv a]
  have hr: "heap_refs (Retain (Some a) h) b = (if b = a then heap_refs h a + 1 else heap_refs h b)" for b
    using refs_Retain [OF room] l by (simp add: heap_refs_def)
  have "pool_inv (Retain (Some a) h)"
    using inv l room by (intro Retain_inv) (auto simp: refs_inv_def refs_def)
  then have "refs_inv e (add_mset a R) (Retain (Some a) h)" using inv by (auto simp: refs_inv_def hr)
  then show ?thesis using R by (rule refs_inv_mono)
qed

lemma refs_inv_GetMessage:
  assumes inv: "refs_inv e R h" and pick: "pick_ok pick" and g: "GetMessage pick h = (a, h')"
  shows "refs_inv e (add_mset a R) h'" and "refs h' a = 1" and "a \<notin># R"
proof -
  have p: "pool_inv h" using inv by (simp add: refs_inv_def)
  show a: "a \<notin># R" using GetMessage_spec [OF p pick g] refs_inv_live [OF inv] by blast
  have fr: "refs h' a = 1" "live h' a"
    "\<And>b. b \<noteq> a \<Longrightarrow> mobj h' b = mobj h b" "\<And>b. b \<noteq> a \<Longrightarrow> live h' b \<longleftrightarrow> live h b"
    using GetMessage_spec [OF p pick g] by auto
  show "refs h' a = 1" by (rule fr)
  have p': "pool_inv h'" using GetMessage_inv [OF p pick] g by simp
  have hr: "heap_refs x b = (if live x b then refs x b else 0)" if "pool_inv x" for x b
    using pooled_iff_refs [OF that, of b] by (auto simp: heap_refs_def live_def)
  have "heap_refs h' b = (if b = a then 1 else heap_refs h b)" for b
    using fr hr [OF p] hr [OF p'] by (auto simp: refs_def)
  moreover have "count R a = 0" using a by (simp add: not_in_iff)
  ultimately show "refs_inv e (add_mset a R) h'"
    using inv p' by (auto simp: refs_inv_def)
qed

lemma refs_inv_write:
  assumes "refs_inv e R h" and "a \<in># R" and "\<And>m. RefCount (f m) = RefCount m"
  shows "refs_inv e R (upd_msg a f h)"
proof -
  have l: "live h a" using refs_inv_live [OF assms(1,2)] by simp
  have "refs (upd_msg a f h) b = refs h b" for b by (simp add: refs_def upd_msg_def assms(3))
  moreover have "mnext (upd_msg a f h) = mnext h" by (simp add: upd_msg_def)
  moreover have "pool_inv (upd_msg a f h)"
    using assms(1,3) l by (auto simp: pool_inv_def live_def upd_msg_def refs_inv_def)
  ultimately have "heap_refs (upd_msg a f h) = heap_refs h" and "pool_inv (upd_msg a f h)"
    by (auto simp: heap_refs_def)
  then show ?thesis using assms(1) by (simp add: refs_inv_def)
qed

lemma refs_write [simp]: "(\<And>m. RefCount (f m) = RefCount m) \<Longrightarrow> refs (upd_msg a f h) b = refs h b"
  by (simp add: refs_def upd_msg_def)

section \<open>The environment\<close>

fun arg_msgs :: "goarg \<Rightarrow> mref list" where
  "arg_msgs (AMsg a) = [a]"
| "arg_msgs (AMsgOpt p) = opt_list p"
| "arg_msgs _ = []"

definition frame :: "tref multiset \<Rightarrow> world \<Rightarrow> world \<Rightarrow> bool" where
  "frame T w w' \<longleftrightarrow> w_nact w \<le> w_nact w' \<and> (\<forall>t \<in># T. w_task w' t = w_task w t)"

text \<open>What the business functions must respect: they leave the invariant as they find it, for
  whatever references and tasks their callers hold, and do not touch those tasks (they are private
  to the package); the tracing hook only writes trace identifiers; the pools hand out what was put
  into them. For the exact count, nothing
  fails: no panic, the worker pool and the mailboxes accept what they are given.\<close>

definition env_ok :: "bool \<Rightarrow> env \<Rightarrow> bool" where
  "env_ok e env \<longleftrightarrow> pick_ok (e_msgpick env) \<and> pick_ok (e_taskpick env)
     \<and> (\<forall>m. RefCount (e_genids env m) = RefCount m \<and> IsResponse (e_genids env m) = IsResponse m)
     \<and> (\<forall>f arg S T w. winv e S T w \<longrightarrow> set (arg_msgs arg) \<subseteq> set_mset (S + held T w) \<longrightarrow>
          winv e S T (snd (e_call env f arg w)) \<and> frame T w (snd (e_call env f arg w))
          \<and> (e \<longrightarrow> fst (e_call env f arg w) \<noteq> None))
     \<and> (\<forall>f a S T w. winv e S T w \<longrightarrow> a \<in># S + held T w \<longrightarrow>
          winv e S T (snd (e_fast env f a w)) \<and> frame T w (snd (e_fast env f a w)))
     \<and> (e \<longrightarrow> (\<forall>i w. e_invoke env i w) \<and> e_closedAccepts env)"

lemma env_call:
  assumes "env_ok e env" and "winv e S T w" and "set (arg_msgs arg) \<subseteq> set_mset (S + held T w)"
    and "e_call env f arg w = (r, w')"
  shows "winv e S T w'" and "frame T w w'" and "e \<Longrightarrow> r \<noteq> None"
  using assms(2-) assms(1) [unfolded env_ok_def]
  by (metis fst_conv snd_conv)+

lemma env_fast:
  assumes "env_ok e env" and "winv e S T w" and "a \<in># S + held T w" and "e_fast env f a w = (r, w')"
  shows "winv e S T w'" and "frame T w w'"
  using assms(2-) assms(1) [unfolded env_ok_def] by (metis snd_conv)+

lemma env_picks:
  assumes "env_ok e env"
  shows "pick_ok (e_msgpick env)" and "pick_ok (e_taskpick env)" and "RefCount (e_genids env m) = RefCount m"
    and "IsResponse (e_genids env m) = IsResponse m" and "e \<Longrightarrow> e_invoke env i w" and "e \<Longrightarrow> e_closedAccepts env"
  using assms by (simp_all add: env_ok_def)

lemma frame_refl [simp]: "frame T w w"
  by (simp add: frame_def)

lemma frame_trans: "frame T w w' \<Longrightarrow> frame T w' w'' \<Longrightarrow> frame T w w''"
  by (auto simp: frame_def)

section \<open>Changes that move no reference\<close>

lemma winvD:
  assumes "winv e S T w"
  shows "refs_inv e (S + held T w) (w_heap w)" and "tasks_inv e (T + mset (w_tpool w) + flying w) w"
    and "acts_inv e w"
  using assms by (simp_all add: winv_def)

lemma winv_sender: "winv e S T w \<Longrightarrow> i < w_nact w \<Longrightarrow> sender_ok (a_sender (w_actors w i))"
  by (simp add: winv_def acts_inv_def)

lemma winv_live: "winv e S T w \<Longrightarrow> a \<in># S + held T w \<Longrightarrow> a < mnext (w_heap w) \<and> 0 < refs (w_heap w) a"
  using refs_inv_live by (fastforce simp: winv_def)

lemma winv_task:
  assumes "winv e S T w" and "t \<in># T"
  shows "t < w_tnext w" and "t \<notin> set (w_tpool w)" and "t \<notin># flying w" and "task_ok e w (w_task w t)"
proof -
  have c: "count T t + count (mset (w_tpool w)) t + count (flying w) t \<le> of_bool (t < w_tnext w)"
    using winvD(2) [OF assms(1)] by (simp add: tasks_inv_def)
  have pos: "0 < count T t" using assms(2) by simp
  show lt: "t < w_tnext w" by (rule ccontr) (use c pos in simp)
  have "count T t + count (mset (w_tpool w)) t + count (flying w) t \<le> 1" using c lt by simp
  then have "count (mset (w_tpool w)) t = 0" "count (flying w) t = 0" using pos by linarith+
  then show "t \<notin> set (w_tpool w)" "t \<notin># flying w" by (simp_all add: not_in_iff)
  show "task_ok e w (w_task w t)" using winvD(2) [OF assms(1)] lt by (simp add: tasks_inv_def)
qed

lemma winv_heap:
  assumes "winv e S T w" and "refs_inv e (S' + held T w) h"
  shows "winv e S' T (w\<lparr>w_heap := h\<rparr>)"
  using assms by (simp add: winv_def tasks_inv_def acts_inv_def task_ok_def)

lemma hp_heap: "hp k w = w\<lparr>w_heap := k (w_heap w)\<rparr>"
  by (simp add: hp_def)

lemma winv_release:
  assumes "winv e (add_mset a S) T w"
  shows "winv e S T (release a w)"
  unfolding hp_heap using assms
  by (intro winv_heap [OF assms]) (rule refs_inv_Release [OF winvD(1) [OF assms]], simp)

lemma winv_release_opt:
  assumes "winv e (mset (opt_list p) + S) T w"
  shows "winv e S T (hp (Release p) w)"
proof (cases p)
  case None
  then show ?thesis using assms by (simp add: hp_def Release_def)
next
  case (Some a)
  then show ?thesis using assms winv_release by simp
qed

lemma winv_retain:
  assumes "winv e S T w" and "a \<in># S + held T w" and "refs (w_heap w) a < 2 ^ 31 - 1"
  shows "winv e (add_mset a S) T (retain a w)"
  unfolding hp_heap using assms
  by (intro winv_heap [OF assms(1)]) (rule refs_inv_Retain [OF winvD(1) [OF assms(1)]], simp_all)

lemma winv_set_msg:
  assumes "winv e S T w" and "a \<in># S + held T w" and "\<And>m. RefCount (f m) = RefCount m"
  shows "winv e S T (set_msg a f w)"
  unfolding set_msg_def hp_heap using assms
  by (intro winv_heap [OF assms(1)] refs_inv_write [OF winvD(1) [OF assms(1)]]) auto

lemma winv_newMsg:
  assumes "winv e S T w" and "env_ok e env" and "newMsg env w = (a, w')"
  shows "winv e (add_mset a S) T w'" and "refs (w_heap w') a = 1" and "frame T w w'" and "w_nact w' = w_nact w"
    and "w_group w' = w_group w" and "w_actors w' = w_actors w" and "held T w' = held T w"
    and "a \<notin># S + held T w"
proof -
  obtain h where g: "GetMessage (e_msgpick env) (w_heap w) = (a, h)" and w': "w' = w\<lparr>w_heap := h\<rparr>"
    using assms(3) by (auto simp: newMsg_def split: prod.splits)
  note r = refs_inv_GetMessage [OF winvD(1) [OF assms(1)] env_picks(1) [OF assms(2)] g]
  show "winv e (add_mset a S) T w'" unfolding w' using r by (intro winv_heap [OF assms(1)]) simp
  show "refs (w_heap w') a = 1" "a \<notin># S + held T w" using r w' by simp_all
  show "frame T w w'" "w_nact w' = w_nact w" "w_group w' = w_group w" "w_actors w' = w_actors w" "held T w' = held T w"
    by (simp_all add: w' frame_def)
qed

text \<open>A change of an actor that keeps its queue, its channels and its pool's kind.\<close>

lemma act_queue_simps [simp]:
  "act_queue (x\<lparr>a_sender := m\<rparr>) = act_queue x" "act_queue (x\<lparr>a_config := cfg\<rparr>) = act_queue x"
  "act_queue (x\<lparr>tickFns := tf\<rparr>) = act_queue x" "act_queue (x\<lparr>tickEnabled := b\<rparr>) = act_queue x"
  "act_queue (x\<lparr>tickPending := b\<rparr>) = act_queue x" "act_queue (x\<lparr>processingStart := v\<rparr>) = act_queue x"
  "act_queue (x\<lparr>mailCount := n\<rparr>) = act_queue x" "act_queue (x\<lparr>circuitBreakers := cbs\<rparr>) = act_queue x"
  "act_queue (x\<lparr>a_pool := p\<rparr>) = act_queue x"
  by (simp_all add: act_queue_def)

lemma winv_upd_actor:
  assumes w: "winv e S T w" and i: "i < w_nact w"
    and q: "act_queue (f (w_actors w i)) = act_queue (w_actors w i)"
    and s: "sender_ok (a_sender (f (w_actors w i)))"
    and c: "refs_inv e (S' + held T (upd_actor i f w)) (w_heap w)"
    and p: "e \<Longrightarrow> wp_flow (a_pool (f (w_actors w i)))"
  shows "winv e S' T (upd_actor i f w)"
proof -
  have fl: "flying (upd_actor i f w) = flying w"
    using flying_upd_actor [OF i, of f] q by simp
  have "tasks_inv e (T + mset (w_tpool w) + flying w) (upd_actor i f w)"
    using winvD(2) [OF w] by (simp add: tasks_inv_def task_ok_def)
  moreover have "acts_inv e (upd_actor i f w)"
    using winvD(3) [OF w] q s p by (auto simp: acts_inv_def fl)
  ultimately show ?thesis using c by (simp add: winv_def fl)
qed

lemma winv_upd_actor_same:
  assumes "winv e S T w" and "i < w_nact w"
    and "act_queue (f (w_actors w i)) = act_queue (w_actors w i)"
    and "a_sender (f (w_actors w i)) = a_sender (w_actors w i)"
    and "e \<Longrightarrow> wp_flow (a_pool (w_actors w i)) \<Longrightarrow> wp_flow (a_pool (f (w_actors w i)))"
  shows "winv e S T (upd_actor i f w)" and "held T (upd_actor i f w) = held T w"
proof -
  show h: "held T (upd_actor i f w) = held T w"
    using acts_held_upd_actor [OF assms(2), of f] flying_upd_actor [OF assms(2), of f] assms(3,4)
    by (simp add: act_msgs_def held_def tasks_held_def)
  have "wp_flow (a_pool (w_actors w i))" if e using that assms(1,2) by (simp add: winv_def acts_inv_def)
  then show "winv e S T (upd_actor i f w)"
    using assms winv_sender [OF assms(1,2)] winvD(1) [OF assms(1)]
    by (intro winv_upd_actor [OF assms(1,2)]) (auto simp: h)
qed

end
