(* ===== verification/ZRefsOps.thy ===== *)
theory ZRefsOps
  imports ZRefs
begin

text \<open>
  Every operation of the actor layer keeps the reference invariant of \<open>ZRefs\<close>: reply channels, the
  task pool, \<open>Push\<close>, the sends, the RPC calls, the handlers, the workers. A message handed over
  (to \<open>Push\<close>, to \<open>SendMsg\<close>) moves out of the caller's references \<open>S\<close>.
\<close>

section \<open>Reply channels\<close>

lemma sum_list_update_mset:
  fixes g :: "'a \<Rightarrow> 'b multiset"
  assumes "k < length xs"
  shows "(\<Sum>x\<leftarrow>xs[k := y]. g x) + g (xs ! k) = (\<Sum>x\<leftarrow>xs. g x) + g y"
  using assms
proof (induction xs arbitrary: k)
  case (Cons x xs)
  then show ?case by (cases k) (auto simp: ac_simps)
qed simp

lemma chan_upd_slot:
  assumes "unat idx < length (slots m)"
  shows "chan_msgs (upd_slot idx f m) + mset (slot_msgs (slot_at m idx))
    = chan_msgs m + mset (slot_msgs (f (slot_at m idx)))"
  using sum_list_update_mset [OF assms, of "\<lambda>s. mset (slot_msgs s)" "f (slot_at m idx)"]
  by (simp add: chan_msgs_def upd_slot_def slot_at_def)

lemma chan_put:
  assumes "unat idx < length (slots m)" and "slot_msgs (slot_at m idx) = []"
    and "slot_msgs (f (slot_at m idx)) = [a]"
  shows "chan_msgs (upd_slot idx f m) = add_mset a (chan_msgs m)"
  using chan_upd_slot [OF assms(1), of f] assms(2,3) by simp

lemma chan_take:
  assumes "unat idx < length (slots m)" and "slot_msgs (slot_at m idx) = a # xs"
    and "slot_msgs (f (slot_at m idx)) = xs"
  shows "chan_msgs m = add_mset a (chan_msgs (upd_slot idx f m))"
proof -
  have "chan_msgs m + mset xs = add_mset a (chan_msgs (upd_slot idx f m)) + mset xs"
    using chan_upd_slot [OF assms(1), of f] assms(2,3) by simp
  then show ?thesis by simp
qed

lemma chan_keep:
  assumes "unat idx < length (slots m)" and "slot_msgs (f (slot_at m idx)) = slot_msgs (slot_at m idx)"
  shows "chan_msgs (upd_slot idx f m) = chan_msgs m"
  using chan_upd_slot [OF assms(1), of f] assms(2) by simp

lemma slot_msgs_simps [simp]:
  "slot_msgs (s\<lparr>ch := c\<rparr>) = (case c of None \<Rightarrow> [] | Some b \<Rightarrow> b)"
  "slot_msgs (s\<lparr>version := v\<rparr>) = slot_msgs s" "slot_msgs (s\<lparr>slot_state := st\<rparr>) = slot_msgs s"
  "slot_msgs (s\<lparr>timestamp := ts\<rparr>) = slot_msgs s"
  by (simp_all add: slot_msgs_def)

lemma SetReply_outcome:
  assumes "sender_ok m"
  shows "SetReply a (m, h) = (m, h)
    \<or> SetReply a (m, h) = (m, Release (Some a) (Retain (Some a) h))
    \<or> snd (SetReply a (m, h)) = Retain (Some a) h \<and> chan_msgs (fst (SetReply a (m, h))) = add_mset a (chan_msgs m)"
proof -
  let ?idx = "RpcId (mobj h a) AND indexMask m"
  have len: "unat ?idx < length (slots m)" by (rule sender_ok_idx [OF assms])
  have "chan_msgs (upd_slot ?idx (\<lambda>s. s\<lparr>ch := Some [a]\<rparr>) m) = add_mset a (chan_msgs m)"
    if "ch (slot_at m ?idx) = Some []"
    using that by (intro chan_put [OF len]) (simp_all add: slot_msgs_def)
  then show ?thesis by (auto simp: SetReply_def Let_def split: option.split)
qed

lemma SetReply_balanced:
  assumes ok: "sender_ok m" and inv: "refs_inv e (R + chan_msgs m) h"
    and a: "a \<in># R" and room: "refs h a < 2 ^ 31 - 1" and r: "SetReply a (m, h) = (m', h')"
  shows "refs_inv e (R + chan_msgs m') h' \<and> sender_ok m'"
proof -
  have "sender_ok m'" using SetReply_evolves [OF ok, of a h] r by simp
  moreover have ret: "refs_inv e (add_mset a (R + chan_msgs m)) (Retain (Some a) h)"
    using a by (intro refs_inv_Retain [OF inv _ room]) simp_all
  moreover have "refs_inv e (R + chan_msgs m) (Release (Some a) (Retain (Some a) h))"
    by (rule refs_inv_Release [OF ret]) simp
  ultimately show ?thesis using SetReply_outcome [OF ok, of a h] inv r by auto
qed

lemma held_split:
  assumes "i < w_nact w"
  obtains rest where "held T w = rest + act_msgs (w_actors w i)"
    "\<And>f. act_queue (f (w_actors w i)) = act_queue (w_actors w i) \<Longrightarrow>
       held T (upd_actor i f w) = rest + act_msgs (f (w_actors w i))"
proof -
  let ?rest = "(\<Sum>j\<in>{..<w_nact w} - {i}. act_msgs (w_actors w j))"
  have a: "acts_held w = ?rest + act_msgs (w_actors w i)"
    using assms sum.remove [of "{..<w_nact w}" i "\<lambda>j. act_msgs (w_actors w j)"]
    by (simp add: acts_held_def ac_simps)
  have upd: "acts_held (upd_actor i f w) = ?rest + act_msgs (f (w_actors w i))" for f
  proof -
    have "acts_held (upd_actor i f w) + act_msgs (w_actors w i)
        = (?rest + act_msgs (f (w_actors w i))) + act_msgs (w_actors w i)"
      using acts_held_upd_actor [OF assms, of f] unfolding a by (simp add: ac_simps)
    then show ?thesis by (metis add_right_cancel)
  qed
  show ?thesis
  proof (rule that [of "?rest + tasks_held (T + flying w) w"])
    show "held T w = ?rest + tasks_held (T + flying w) w + act_msgs (w_actors w i)"
      by (simp add: held_def a ac_simps)
    fix f :: "Actor \<Rightarrow> Actor"
    assume "act_queue (f (w_actors w i)) = act_queue (w_actors w i)"
    then have "flying (upd_actor i f w) = flying w" using flying_upd_actor [OF assms, of f] by simp
    then show "held T (upd_actor i f w) = ?rest + tasks_held (T + flying w) w + act_msgs (f (w_actors w i))"
      by (simp add: held_def upd tasks_held_def ac_simps)
  qed
qed

text \<open>What an operation on an actor's sender has to show for the whole state: \<open>rest\<close> are the
  references outside of the actor's channels.\<close>

lemma winv_sender_op:
  assumes w: "winv e S T w" and i: "i < w_nact w" and ok: "sender_ok m'"
    and op: "\<And>rest. S \<subseteq># rest \<Longrightarrow>
       refs_inv e (rest + chan_msgs (a_sender (w_actors w i))) (w_heap w) \<Longrightarrow>
       refs_inv e (out + (rest + chan_msgs m')) h'"
  shows "winv e (out + S) T (upd_actor i (\<lambda>x. x\<lparr>a_sender := m'\<rparr>) (w\<lparr>w_heap := h'\<rparr>))"
proof -
  let ?f = "\<lambda>x. x\<lparr>a_sender := m'\<rparr>"
  obtain rest where r: "held T w = rest + act_msgs (w_actors w i)"
    "\<And>f. act_queue (f (w_actors w i)) = act_queue (w_actors w i) \<Longrightarrow>
       held T (upd_actor i f w) = rest + act_msgs (f (w_actors w i))"
    using held_split [OF i] by blast
  let ?R = "S + rest + mset (queue_msgs (act_queue (w_actors w i)))"
  have "refs_inv e (?R + chan_msgs (a_sender (w_actors w i))) (w_heap w)"
    using winvD(1) [OF w] r(1) by (simp add: act_msgs_def ac_simps)
  then have "refs_inv e (out + (?R + chan_msgs m')) h'"
    by (rule op [rotated]) (simp add: add.assoc)
  then have new: "refs_inv e (out + S + held T (upd_actor i ?f w)) h'"
    by (simp add: r(2) act_msgs_def ac_simps)
  have fl: "flying (upd_actor i ?f w) = flying w"
    using flying_upd_actor [OF i, of ?f] by simp
  have "acts_inv e (upd_actor i ?f w)"
    using winvD(3) [OF w] ok by (auto simp: acts_inv_def fl)
  moreover have "tasks_inv e (T + mset (w_tpool w) + flying w) (upd_actor i ?f w)"
    using winvD(2) [OF w] by (simp add: tasks_inv_def task_ok_def)
  moreover have "upd_actor i ?f (w\<lparr>w_heap := h'\<rparr>) = (upd_actor i ?f w)\<lparr>w_heap := h'\<rparr>"
    by (simp add: upd_actor_def)
  ultimately show ?thesis using new
    by (simp add: winv_def fl tasks_inv_def acts_inv_def task_ok_def)
qed

lemma winv_SetReply:
  assumes w: "winv e S T w" and i: "i < w_nact w" and a: "a \<in># S" and room: "refs (w_heap w) a < 2 ^ 31 - 1"
  shows "winv e S T (actor_SetReply i a w)"
proof -
  obtain m' h' where r: "SetReply a (a_sender (w_actors w i), w_heap w) = (m', h')" by fastforce
  note ok = winv_sender [OF w i]
  have "sender_ok m'" using SetReply_evolves [OF ok, of a "w_heap w"] r by simp
  then have "winv e ({#} + S) T (upd_actor i (\<lambda>x. x\<lparr>a_sender := m'\<rparr>) (w\<lparr>w_heap := h'\<rparr>))"
  proof (rule winv_sender_op [OF w i])
    fix rest
    assume "S \<subseteq># rest" and inv: "refs_inv e (rest + chan_msgs (a_sender (w_actors w i))) (w_heap w)"
    then have "a \<in># rest" using a by (meson mset_subset_eqD)
    from SetReply_balanced [OF ok inv this room r]
    show "refs_inv e ({#} + (rest + chan_msgs m')) h'" by simp
  qed
  then show ?thesis by (simp add: actor_SetReply_def r Let_def)
qed

lemma SetReply_frame [simp]:
  "w_nact (actor_SetReply i a w) = w_nact w" "w_task (actor_SetReply i a w) = w_task w"
  "w_group (actor_SetReply i a w) = w_group w"
  by (simp_all add: actor_SetReply_def Let_def split: prod.split)

section \<open>The mailbox\<close>

lemma winv_enqueue:
  assumes w: "winv e (mset (opt_list (Msg c)) + S) (mset (opt_list (Any c)) + T) w"
    and i: "i < w_nact w" and c: "cmd_ok e c"
    and t: "\<And>t. e \<Longrightarrow> Any c = Some t \<Longrightarrow> task_shape (w_task w t)
        \<and> (flowWork (w_task w t) = None \<longrightarrow> callBackFunc (w_task w t) \<noteq> None)"
  shows "winv e S T (upd_actor i (\<lambda>x. x\<lparr>mailBoxQueue := mailBoxQueue x @ [c]\<rparr>) w)"
proof -
  let ?f = "\<lambda>x. x\<lparr>mailBoxQueue := mailBoxQueue x @ [c]\<rparr>"
  have q: "act_queue (?f x) = act_queue x @ [c]" "a_sender (?f x) = a_sender x" "a_pool (?f x) = a_pool x" for x
    by (simp_all add: act_queue_def)
  have ah: "acts_held (upd_actor i ?f w) = mset (opt_list (Msg c)) + acts_held w"
    using acts_held_upd_actor [OF i, of ?f] unfolding act_msgs_def q by (simp add: ac_simps)
  have fl: "flying (upd_actor i ?f w) = mset (opt_list (Any c)) + flying w"
    using flying_upd_actor [OF i, of ?f] unfolding q by (simp add: ac_simps)
  have "held T (upd_actor i ?f w) = mset (opt_list (Msg c)) + held (mset (opt_list (Any c)) + T) w"
    by (simp add: held_def ah fl tasks_held_def ac_simps)
  then have "refs_inv e (S + held T (upd_actor i ?f w)) (w_heap w)"
    using winvD(1) [OF w] by (simp add: ac_simps)
  moreover have "tasks_inv e (T + mset (w_tpool w) + flying (upd_actor i ?f w)) (upd_actor i ?f w)"
    using winvD(2) [OF w] by (simp add: fl tasks_inv_def task_ok_def ac_simps)
  moreover have "acts_inv e (upd_actor i ?f w)"
    using winvD(3) [OF w] c t unfolding acts_inv_def fl
    by (auto simp: q opt_list_def split: option.splits)
  ultimately show ?thesis by (simp add: winv_def)
qed

lemma winv_drop:
  assumes "winv False S T w" and "S' \<subseteq># S" and "T' \<subseteq># T"
  shows "winv False S' T' w"
proof -
  have "held T' w \<subseteq># held T w"
    using assms(3) by (auto simp: held_def subset_mset.le_iff_add)
  then have "refs_inv False (S' + held T' w) (w_heap w)"
    using assms(2) by (intro refs_inv_mono [OF winvD(1) [OF assms(1)]])
      (simp add: below_def subset_mset.add_mono)
  moreover have "count (T' + mset (w_tpool w) + flying w) t \<le> count (T + mset (w_tpool w) + flying w) t" for t
    using assms(3) by (simp add: mset_subset_eq_count)
  then have "tasks_inv False (T' + mset (w_tpool w) + flying w) w"
    using winvD(2) [OF assms(1)] unfolding tasks_inv_def by (meson order_trans)
  ultimately show ?thesis using winvD(3) [OF assms(1)] by (simp add: winv_def)
qed

lemma winv_Enqueue:
  assumes env: "env_ok e env"
    and w: "winv e (mset (opt_list (Msg c)) + S) (mset (opt_list (Any c)) + T) w"
    and i: "i < w_nact w" and c: "cmd_ok e c"
    and t: "\<And>t. e \<Longrightarrow> Any c = Some t \<Longrightarrow> task_shape (w_task w t)
        \<and> (flowWork (w_task w t) = None \<longrightarrow> callBackFunc (w_task w t) \<noteq> None)"
  shows "winv e S T (Enqueue env i c w)"
proof (cases "mailClosed (w_actors w i) \<and> \<not> e_closedAccepts env")
  case True
  then have "\<not> e" using env_picks(6) [OF env] by blast
  then show ?thesis using w True by (auto simp: Enqueue_def intro: winv_drop)
next
  case False
  then show ?thesis unfolding Enqueue_def using winv_enqueue [OF w i c t] by (simp only: if_False)
qed

text \<open>\<open>Push\<close> takes over the command's message and task.\<close>

lemma winv_Push:
  assumes env: "env_ok e env"
    and w: "winv e (mset (opt_list (Msg c)) + S) (mset (opt_list (Any c)) + T) w"
    and i: "i < w_nact w" and c: "cmd_ok e c" and room: "\<And>a. Msg c = Some a \<Longrightarrow> refs (w_heap w) a < 2 ^ 31 - 1"
    and t: "\<And>t. e \<Longrightarrow> Any c = Some t \<Longrightarrow> task_shape (w_task w t)
        \<and> (flowWork (w_task w t) = None \<longrightarrow> callBackFunc (w_task w t) \<noteq> None)"
  shows "winv e S T (Push env i c w)"
proof (cases "Type c = CmdTypeMsg \<and> Msg c \<noteq> None \<and> IsResponse (msg_of w (the (Msg c)))")
  case False
  then have "Push env i c w = Enqueue env i c w" by (auto simp: Push_def split: option.split)
  then show ?thesis using winv_Enqueue [OF env w i c t] by simp
next
  case True
  then obtain a where a: "Type c = CmdTypeMsg" "Msg c = Some a" "IsResponse (msg_of w a)" by auto
  have any: "e \<Longrightarrow> Any c = None" using c a(1) by (auto simp: cmd_ok_def)
  have wa: "winv e (add_mset a S) (mset (opt_list (Any c)) + T) w" using w a(2) by simp
  have lose: "winv e S' (mset (opt_list (Any c)) + T) v \<Longrightarrow> winv e S' T v" for S' v
    using any by (cases e) (auto intro: winv_drop)
  show ?thesis
  proof (cases "ToClient (msg_of w a)")
    case False
    have "winv e (add_mset a S) (mset (opt_list (Any c)) + T) (actor_SetReply i a w)"
      using room [OF a(2)] by (intro winv_SetReply [OF wa i]) simp_all
    then show ?thesis using a False by (auto simp: Push_def intro: winv_release lose)
  next
    case client: True
    show ?thesis
    proof (cases "toClientFastPath (w_actors w i)")
      case None
      then show ?thesis using a client winv_Enqueue [OF env w i c t] by (simp add: Push_def)
    next
      case (Some f)
      obtain handled w1 where f: "e_fast env f a w = (handled, w1)" by fastforce
      have live: "a \<in># add_mset a S + held (mset (opt_list (Any c)) + T) w" by simp
      note w1 = env_fast [OF env wa live f]
      show ?thesis
      proof (cases handled)
        case True
        then show ?thesis using a client Some f w1(1) by (auto simp: Push_def intro: winv_release lose)
      next
        case False
        have "i < w_nact w1" using w1(2) i by (simp add: frame_def)
        moreover have "w_task w1 t = w_task w t" if "Any c = Some t" for t
          using w1(2) that by (simp add: frame_def)
        ultimately show ?thesis
          using a client Some f False w1(1) c t by (auto simp: Push_def intro!: winv_Enqueue [OF env])
      qed
    qed
  qed
qed

section \<open>The task pool\<close>

lemma task_msgs_empty [simp]: "task_msgs empty_task = {#}"
  by (simp add: task_msgs_def empty_task_def)

lemma task_ok_empty [simp]: "task_ok e w empty_task"
  by (simp add: task_ok_def empty_task_def)

lemma task_ok_cong: "w_nact w' = w_nact w \<Longrightarrow> task_ok e w' k = task_ok e w k"
  by (simp add: task_ok_def)

lemma mailbox_flying:
  assumes "i < w_nact w" and "t \<in> set (queue_tasks (act_queue (w_actors w i)))"
  shows "t \<in># flying w"
proof -
  have "mset (queue_tasks (act_queue (w_actors w i))) \<subseteq># flying w"
    using sum.remove [of "{..<w_nact w}" i "\<lambda>i. mset (queue_tasks (act_queue (w_actors w i)))"] assms(1)
    by (simp add: flying_def)
  then show ?thesis using assms(2) mset_subset_eqD by fastforce
qed

lemma tasks_inv_cong:
  "tasks_inv e R w \<Longrightarrow> w_tnext w' = w_tnext w \<Longrightarrow> set (w_tpool w') \<subseteq> set (w_tpool w) \<Longrightarrow>
   w_task w' = w_task w \<Longrightarrow> w_nact w' = w_nact w \<Longrightarrow> tasks_inv e R w'"
  by (auto simp: tasks_inv_def task_ok_def)

lemma acts_inv_cong:
  "acts_inv e w \<Longrightarrow> w_actors w' = w_actors w \<Longrightarrow> w_group w' = w_group w \<Longrightarrow> w_task w' = w_task w \<Longrightarrow>
   w_nact w' = w_nact w \<Longrightarrow> w_submitted w' = w_submitted w \<Longrightarrow> acts_inv e w'"
  unfolding acts_inv_def flying_def by simp

text \<open>A change of a task that running code works on; what its fields hold moves from or to \<open>S\<close>.\<close>

lemma winv_task_once:
  assumes "winv e S (add_mset t T) w"
  shows "t \<notin># T"
proof -
  have "count (add_mset t T + mset (w_tpool w) + flying w) t \<le> of_bool (t < w_tnext w)"
    using winvD(2) [OF assms] unfolding tasks_inv_def by blast
  then have "count T t = 0" by (cases "t < w_tnext w") auto
  then show ?thesis by (simp add: not_in_iff)
qed

lemma winv_upd_task:
  assumes w: "winv e S T w" and t: "t \<in># T" and ok: "task_ok e w (f (w_task w t))"
    and S': "S' + task_msgs (f (w_task w t)) = S + task_msgs (w_task w t)"
  shows "winv e S' T (upd_task t f w)"
proof -
  note in_T = winv_task [OF w t]
  obtain T' where T': "T = add_mset t T'" using t by (meson multi_member_split)
  have "t \<notin># T'" using winv_task_once w T' by blast
  then have "tasks_held (T' + flying w) (upd_task t f w) = tasks_held (T' + flying w) w"
    using in_T(3) by (intro tasks_held_cong) auto
  then have h: "S' + held T (upd_task t f w) = S + held T w"
    using S' by (simp add: held_def T' acts_held_def)
  have "tasks_inv e (T + mset (w_tpool w) + flying w) (upd_task t f w)"
    using winvD(2) [OF w] in_T(2) ok by (auto simp: tasks_inv_def task_ok_cong [of "upd_task t f w" w])
  moreover have "acts_inv e (upd_task t f w)"
    using winvD(3) [OF w] in_T(3) mailbox_flying [of _ w t] by (auto simp: acts_inv_def)
  ultimately show ?thesis using winvD(1) [OF w] h by (simp add: winv_def)
qed

lemma put_eq: "putAsyncTask t w = (upd_task t (\<lambda>_. empty_task) w)\<lparr>w_tpool := t # w_tpool w\<rparr>"
  by (cases "w_task w t") (simp add: putAsyncTask_def empty_task_def Let_def upd_task_def)

lemma winv_putAsyncTask:
  assumes w: "winv e S (add_mset t T) w"
  shows "winv e (S + task_msgs (w_task w t)) T (putAsyncTask t w)"
proof -
  let ?w = "upd_task t (\<lambda>_. empty_task) w"
  have w1: "winv e (S + task_msgs (w_task w t)) (add_mset t T) ?w"
    by (rule winv_upd_task [OF w]) simp_all
  have fl: "flying (putAsyncTask t w) = flying ?w" by (simp add: put_eq flying_def)
  then have "held T (putAsyncTask t w) = held (add_mset t T) ?w"
    by (simp add: put_eq held_def acts_held_def tasks_held_def)
  note hf = this fl
  have "tasks_inv e (T + mset (t # w_tpool w) + flying ?w) (putAsyncTask t w)"
    using winvD(2) [OF w1] by (auto simp: tasks_inv_def put_eq task_ok_def)
  moreover have "acts_inv e (putAsyncTask t w)"
    using acts_inv_cong [OF winvD(3) [OF w1], of "putAsyncTask t w"] by (simp add: put_eq)
  moreover have "w_heap (putAsyncTask t w) = w_heap ?w" "w_tpool (putAsyncTask t w) = t # w_tpool w"
    by (simp_all add: put_eq)
  ultimately show ?thesis using winvD(1) [OF w1] by (simp add: winv_def hf)
qed

lemma winv_Invoke:
  assumes w: "winv e S (add_mset t T) w" and i: "i < w_nact w" and sh: "e \<Longrightarrow> task_shape (w_task w t)"
    and inv: "Invoke env i t w = (True, w')"
  shows "winv e S T w'"
proof -
  let ?fl = "wp_flow (a_pool (w_actors w i))"
  have w': "w' = w\<lparr>w_submitted := w_submitted w @ [(?fl, t)]\<rparr>"
    using inv by (auto simp: Invoke_def split: if_splits)
  have fl: "flying w' = add_mset t (flying w)" by (simp add: w' flying_def)
  have h: "held T w' = held (add_mset t T) w"
    unfolding held_def fl by (simp add: w' acts_held_def tasks_held_def)
  have "tasks_inv e (T + mset (w_tpool w') + flying w') w'"
    using winvD(2) [OF w] unfolding tasks_inv_def fl task_ok_def by (simp add: w')
  moreover have "acts_inv e w'"
    using winvD(3) [OF w] i sh unfolding acts_inv_def fl by (auto simp: w')
  ultimately show ?thesis using winvD(1) [OF w] h by (simp add: winv_def w')
qed

lemma winv_getAsyncTask:
  assumes w: "winv e S T w" and env: "env_ok e env" and g: "getAsyncTask env w = (t, w')"
  shows "winv e S (add_mset t T) w'" and "w_task w' t = empty_task" and "w_heap w' = w_heap w"
    and "held (add_mset t T) w' = held T w" and "w_nact w' = w_nact w" and "w_actors w' = w_actors w" and "t \<notin># T"
    and "w_group w' = w_group w" and "\<And>u. u \<in># T \<Longrightarrow> w_task w' u = w_task w u"
proof -
  have cnt: "count (T + mset (w_tpool w) + flying w) u \<le> of_bool (u < w_tnext w)"
    "e \<Longrightarrow> count (T + mset (w_tpool w) + flying w) u = of_bool (u < w_tnext w)" for u
    using winvD(2) [OF w] by (simp_all add: tasks_inv_def)
  have main: "winv e S (add_mset t T) w' \<and> w_task w' t = empty_task \<and> held (add_mset t T) w' = held T w \<and> t \<notin># T
      \<and> (\<forall>u \<in># T. w_task w' u = w_task w u)"
  proof (cases "e_taskpick env (w_tpool w)")
    case (Some u)
    then have u: "u = t" and w': "w' = w\<lparr>w_tpool := remove1 t (w_tpool w)\<rparr>"
      using g by (auto simp: getAsyncTask_def)
    have t: "t \<in> set (w_tpool w)" using env_picks(2) [OF env] Some u by (auto simp: pick_ok_def)
    have pool: "add_mset t (mset (remove1 t (w_tpool w))) = mset (w_tpool w)" using t by simp
    have fl: "flying w' = flying w" by (simp add: w' flying_def)
    have e_t: "w_task w t = empty_task" using winvD(2) [OF w] t by (simp add: tasks_inv_def)
    have h: "held (add_mset t T) w' = held T w"
      unfolding held_def fl using e_t by (simp add: w' acts_held_def tasks_held_def)
    have eq: "add_mset t T + mset (w_tpool w') + flying w' = T + mset (w_tpool w) + flying w"
      unfolding fl using pool by (simp add: w')
    have "tasks_inv e (add_mset t T + mset (w_tpool w') + flying w') w'"
      unfolding eq by (rule tasks_inv_cong [OF winvD(2) [OF w]]) (simp_all add: w' set_remove1_subset)
    moreover have "acts_inv e w'" by (rule acts_inv_cong [OF winvD(3) [OF w]]) (simp_all add: w')
    moreover have "w_task w t = empty_task" using winvD(2) [OF w] t by (simp add: tasks_inv_def)
    moreover have "t \<notin># T" using winv_task(2) [OF w, of t] t by blast
    moreover have "refs_inv e (S + held (add_mset t T) w') (w_heap w')" using winvD(1) [OF w] h by (simp add: w')
    ultimately show ?thesis using h by (simp add: winv_def) (simp add: w')
  next
    case None
    then have t: "t = w_tnext w"
      and w': "w' = w\<lparr>w_task := (w_task w)(t := empty_task), w_tnext := Suc t\<rparr>"
      using g by (auto simp: getAsyncTask_def)
    have "count (T + mset (w_tpool w) + flying w) t = 0" using cnt(1) [of t] t by simp
    then have new: "count T t = 0" "t \<notin> set (w_tpool w)" "t \<notin># flying w"
      by (simp_all add: not_in_iff)
    have fl: "flying w' = flying w" by (simp add: flying_def w')
    have "tasks_held (T + flying w) w' = tasks_held (T + flying w) w"
      using new by (intro tasks_held_cong) (auto simp: w' count_eq_zero_iff)
    moreover have "w_task w' t = empty_task" by (simp add: w')
    ultimately have h: "held (add_mset t T) w' = held T w"
      unfolding held_def fl by (simp add: acts_held_def) (simp add: w')
    have "count (add_mset t T + mset (w_tpool w) + flying w) u \<le> of_bool (u < Suc t)
        \<and> (e \<longrightarrow> count (add_mset t T + mset (w_tpool w) + flying w) u = of_bool (u < Suc t))" for u
      using cnt(1) [of u] cnt(2) [of u] new t
      by (cases "u = t") (auto simp: not_in_iff less_Suc_eq)
    moreover have "\<forall>u \<in> set (w_tpool w). w_task w' u = empty_task"
      using winvD(2) [OF w] by (auto simp: tasks_inv_def w')
    moreover have "\<forall>u < Suc t. task_ok e w' (w_task w' u)"
      using winvD(2) [OF w] t by (auto simp: tasks_inv_def w' less_Suc_eq task_ok_def empty_task_def)
    moreover have "w_tpool w' = w_tpool w" "w_tnext w' = Suc t" by (simp_all add: w')
    ultimately have "tasks_inv e (add_mset t T + mset (w_tpool w') + flying w') w'"
      unfolding tasks_inv_def fl by presburger
    moreover have "acts_inv e w'"
    proof -
      have "w_task w' u = w_task w u" if "u \<in># flying w" for u using that new(3) by (auto simp: w')
      then show ?thesis using winvD(3) [OF w] mailbox_flying [of _ w]
        unfolding acts_inv_def fl by (simp add: w')
    qed
    moreover have "\<forall>u \<in># T. w_task w' u = w_task w u" using new(1) by (auto simp: w' count_eq_zero_iff)
    moreover have "refs_inv e (S + held (add_mset t T) w') (w_heap w')" using winvD(1) [OF w] h by (simp add: w')
    moreover have "w_task w' t = empty_task" by (simp add: w')
    ultimately show ?thesis using h new(1) by (simp add: winv_def not_in_iff)
  qed
  then show "winv e S (add_mset t T) w'" "w_task w' t = empty_task" "held (add_mset t T) w' = held T w" "t \<notin># T"
    "\<And>u. u \<in># T \<Longrightarrow> w_task w' u = w_task w u"
    by simp_all
  show "w_heap w' = w_heap w" "w_nact w' = w_nact w" "w_actors w' = w_actors w" "w_group w' = w_group w"
    using g by (auto simp: getAsyncTask_def split: option.splits)
qed

text \<open>Submitting a task: on success its references stay with it, otherwise they return to the
  caller.\<close>

lemma winv_submit:
  assumes w: "winv e S (add_mset t T) w" and i: "i < w_nact w" and env: "env_ok e env"
    and sh: "e \<Longrightarrow> task_shape (w_task w t)" and inv: "Invoke env i t w = (ok, w')"
  shows "ok \<Longrightarrow> winv e S T w'" and "\<not> ok \<Longrightarrow> \<not> e \<and> w' = w"
proof -
  assume ok
  then show "winv e S T w'" using winv_Invoke [OF w i sh] inv by simp
next
  assume "\<not> ok"
  then show "\<not> e \<and> w' = w" using inv env_picks(5) [OF env, of i w] by (auto simp: Invoke_def split: if_splits)
qed

lemma Invoke_frame [simp]:
  assumes "Invoke env i t w = (ok, w')"
  shows "w_nact w' = w_nact w" "w_heap w' = w_heap w" "w_task w' = w_task w" "w_group w' = w_group w"
  using assms by (auto simp: Invoke_def split: if_splits)

text \<open>A simple task takes over the references its closure captures; if the pool rejects it, they
  are lost.\<close>

definition fn_msgs :: "gofn \<Rightarrow> mref multiset" where
  "fn_msgs f = (case f of SendRemote a _ \<Rightarrow> {#a#} | _ \<Rightarrow> {#})"

definition simple_task :: "aref \<Rightarrow> gofn \<Rightarrow> fnref option \<Rightarrow> fnref list \<Rightarrow> asyncTask \<Rightarrow> asyncTask" where
  "simple_task i f cb vs k = k\<lparr>t_actor := Some i, fSimple := Some f, callBackFunc := cb,
     validators := (if length vs > 0 then validators k @ vs else validators k)\<rparr>"

lemma AsyncRunResult_eq:
  assumes "getAsyncTask env w = (t, w1)" and "Invoke env i t (upd_task t (simple_task i f cb vs) w1) = (ok, w3)"
  shows "AsyncRunResult env i f cb vs w = (if \<not> ok then (False, putAsyncTask t w3) else (True, w3))"
proof -
  have "(let v = upd_task t (\<lambda>k. k\<lparr>t_actor := Some i\<rparr>) w1; v = upd_task t (\<lambda>k. k\<lparr>fSimple := Some f\<rparr>) v;
      v = upd_task t (\<lambda>k. k\<lparr>callBackFunc := cb\<rparr>) v
      in if length vs > 0 then upd_task t (\<lambda>k. k\<lparr>validators := validators k @ vs\<rparr>) v else v)
      = upd_task t (simple_task i f cb vs) w1"
    by (simp add: upd_task_def Let_def simple_task_def)
  then show ?thesis using assms by (simp add: AsyncRunResult_def Let_def)
qed

text \<open>A task is set up with the references \<open>R\<close> and submitted.\<close>

lemma winv_submit_task:
  assumes w: "winv e (R + S) T w" and i: "i < w_nact w" and env: "env_ok e env"
    and g: "getAsyncTask env w = (t, w1)" and inv: "Invoke env i t (upd_task t k w1) = (ok, w3)"
    and k: "task_msgs (k empty_task) = R" "task_ok e w1 (k empty_task)" "task_shape (k empty_task)"
  shows "ok \<Longrightarrow> winv e S T w3" and "\<not> ok \<Longrightarrow> \<not> e \<and> winv e (R + S) T (putAsyncTask t w3)"
    and "frame T w w3" and "frame T w (putAsyncTask t w3)" and "w_nact w3 = w_nact w" and "w_heap w3 = w_heap w"
proof -
  note w1 = winv_getAsyncTask [OF w env g]
  let ?w2 = "upd_task t k w1"
  have w2: "winv e S (add_mset t T) ?w2"
    using w1(1,2) k by (intro winv_upd_task [OF w1(1)]) (auto simp: ac_simps)
  have i2: "i < w_nact ?w2" using i w1(5) by simp
  have sh: "task_shape (w_task ?w2 t)" using k(3) w1(2) by simp
  show "winv e S T w3" if ok using winv_submit(1) [OF w2 i2 env sh inv that] .
  show "\<not> e \<and> winv e (R + S) T (putAsyncTask t w3)" if "\<not> ok"
    using winv_submit(2) [OF w2 i2 env sh inv that] winv_putAsyncTask [OF w2] k(1) w1(2)
    by (auto simp: ac_simps)
  have "u \<noteq> t" if "u \<in># T" for u using that w1(7) by blast
  then show "frame T w w3" "frame T w (putAsyncTask t w3)" "w_nact w3 = w_nact w" "w_heap w3 = w_heap w"
    using w1(3,5,9) Invoke_frame [OF inv] by (simp_all add: frame_def put_eq)
qed

lemma winv_AsyncRunResult:
  assumes w: "winv e (fn_msgs f + S) T w" and i: "i < w_nact w" and env: "env_ok e env"
    and f: "\<And>a cfg. f = SendRemote a cfg \<Longrightarrow> cb = None" "\<And>n. e \<Longrightarrow> f \<noteq> RebuildPool n"
  shows "winv e S T (snd (AsyncRunResult env i f cb vs w))"
    and "frame T w (snd (AsyncRunResult env i f cb vs w))"
proof -
  obtain t w1 where g: "getAsyncTask env w = (t, w1)" by fastforce
  let ?k = "simple_task i f cb vs"
  obtain ok w3 where inv: "Invoke env i t (upd_task t ?k w1) = (ok, w3)" by fastforce
  have "w_nact w1 = w_nact w" using winv_getAsyncTask(5) [OF w env g] .
  then have k: "task_msgs (?k empty_task) = fn_msgs f" "task_ok e w1 (?k empty_task)" "task_shape (?k empty_task)"
    using i f
    by (auto simp: task_msgs_def fn_msgs_def empty_task_def task_ok_def task_shape_def simple_task_def
        split: gofn.split)
  note sub = winv_submit_task [OF w i env g inv k]
  show "winv e S T (snd (AsyncRunResult env i f cb vs w))"
    using sub(1,2) by (cases ok) (auto simp: AsyncRunResult_eq [OF g inv] intro: winv_drop)
  show "frame T w (snd (AsyncRunResult env i f cb vs w))"
    using sub(3,4) by (simp add: AsyncRunResult_eq [OF g inv])
qed

section \<open>Sending\<close>

lemma frame_nact: "frame T w w' \<Longrightarrow> i < w_nact w \<Longrightarrow> i < w_nact w'"
  by (simp add: frame_def)

lemma frame_cong: "w_nact w' = w_nact w \<Longrightarrow> w_task w' = w_task w \<Longrightarrow> frame T w w'"
  by (simp add: frame_def)

lemma frame_Enqueue [simp]: "frame T w (Enqueue env i c w)"
  by (simp add: Enqueue_def frame_def)

lemma frame_hp [simp]: "frame T w (hp k w')  \<longleftrightarrow> frame T w w'"
  by (simp add: frame_def)

lemma frame_set_msg [simp]: "frame T w (set_msg a f w')  \<longleftrightarrow> frame T w w'"
  by (simp add: set_msg_def)

lemma frame_SetReply [simp]: "frame T w (actor_SetReply i a w') \<longleftrightarrow> frame T w w'"
  by (simp add: frame_def)

lemma frame_Push:
  assumes env: "env_ok e env" and w: "winv e S T w" and m: "\<And>a. Msg c = Some a \<Longrightarrow> a \<in># S"
  shows "frame T w (Push env i c w)"
proof -
  have "frame T w w'" if "Msg c = Some a" "e_fast env f a w = (r, w')" for a f r w'
    using env_fast(2) [OF env w _ that(2)] m [OF that(1)] by simp
  then show ?thesis
    by (auto simp: Push_def split: option.splits prod.splits intro: frame_trans [OF _ frame_Enqueue])
qed

lemma cmd_ok_msg [simp]: "cmd_ok e (cmd_zero\<lparr>Type := ty, Msg := p\<rparr>)"
  by (simp add: cmd_ok_def cmd_zero_def)

text \<open>\<open>SendMsg\<close> consumes one reference of its caller.\<close>

lemma winv_SendMsg:
  assumes w: "winv e (add_mset a S) T w" and i: "i < w_nact w" and env: "env_ok e env"
    and room: "refs (w_heap w) a < 2 ^ 31 - 2"
  shows "winv e S T (SendMsg env i a w) \<and> frame T w (SendMsg env i a w)"
proof -
  let ?w1 = "set_msg a (\<lambda>x. x\<lparr>SpanId := actorId w i\<rparr>) w"
  let ?w2 = "retain a ?w1"
  have w1: "winv e (add_mset a S) T ?w1" by (rule winv_set_msg [OF w]) simp_all
  have r1: "refs (w_heap ?w1) a = refs (w_heap w) a" by (simp add: set_msg_def)
  have w2: "winv e (add_mset a (add_mset a S)) T ?w2"
    using room r1 by (intro winv_retain [OF w1]) simp_all
  have r2: "refs (w_heap ?w2) a < 2 ^ 31 - 1"
    using refs_Retain [of "w_heap ?w1" a a] winv_live [OF w1, of a] room r1 by simp
  have n2: "w_nact ?w2 = w_nact w" "frame T w ?w2" by (simp_all add: set_msg_def)
  have grp: "w_group ?w1 = w_group w" by (simp add: set_msg_def)
  show ?thesis
  proof (cases "TarActor (msg_of w a) \<le> 0")
    case True
    then show ?thesis using winv_release [OF w] by (simp add: SendMsg_def Let_def)
  next
    case False
    show ?thesis
    proof (cases "GetActorById (TarActor (msg_of w a)) (w_group w)")
      case (Some j)
      have j: "j < w_nact ?w2"
        using Some winvD(3) [OF w] n2(1) by (auto simp: GetActorById_def acts_inv_def split: option.splits)
      let ?c = "cmd_zero\<lparr>Type := CmdTypeMsg, Msg := Some a\<rparr>"
      have c: "Msg ?c = Some a" "Any ?c = None" by (simp_all add: cmd_zero_def)
      have "winv e (add_mset a S) T (Push env j ?c ?w2)"
        using w2 j r2 by (intro winv_Push [OF env]) (simp_all add: c)
      moreover have "frame T w (Push env j ?c ?w2)"
        by (rule frame_trans [OF n2(2)], rule frame_Push [OF env w2]) (simp add: c)
      ultimately show ?thesis using Some False grp
        by (simp add: SendMsg_def Let_def winv_release)
    next
      case None
      show ?thesis
      proof (cases "GetOtherActorById (TarActor (msg_of w a)) (w_group w)")
        case None2: None
        then show ?thesis using None False grp winv_release [OF w1] by (simp add: SendMsg_def Let_def)
      next
        case (Some cfg)
        let ?w3 = "snd (AsyncRunResult env i (SendRemote a cfg) None [] ?w2)"
        have "winv e (add_mset a S) T ?w3"
          using w2 i n2(1) by (intro winv_AsyncRunResult(1) [OF _ _ env]) (simp_all add: fn_msgs_def)
        moreover have "frame T w ?w3"
          using w2 i n2(1)
          by (intro frame_trans [OF n2(2)] winv_AsyncRunResult(2) [OF _ _ env]) (simp_all add: fn_msgs_def)
        ultimately show ?thesis using Some None False grp
          by (simp add: SendMsg_def Let_def winv_release case_prod_beta)
      qed
    qed
  qed
qed

lemma MarshalVTToMsg_ok:
  assumes w: "winv e S T w" and m: "m \<in># S" and r: "MarshalVTToMsg p m w = (ok, w')"
  shows "winv e S T w'" and "refs (w_heap w') = refs (w_heap w)" and "frame T w w'" and "w_nact w' = w_nact w"
    and "w_actors w' = w_actors w" and "held T w' = held T w"
proof -
  have set_ok: "winv e S T (hp (upd_msg m f) w)" if "\<And>x. RefCount (f x) = RefCount x" "winv e S T w" for f w
    using winv_set_msg [OF that(2) _ that(1), of m] m by (simp add: set_msg_def)
  show "winv e S T w'" using r w unfolding MarshalVTToMsg_def Let_def
    by (auto split: if_splits option.splits intro!: set_ok)
  show "refs (w_heap w') = refs (w_heap w)" using r unfolding MarshalVTToMsg_def Let_def
    by (auto split: if_splits option.splits)
  show "frame T w w'" "w_nact w' = w_nact w" "w_actors w' = w_actors w" "held T w' = held T w"
    using r unfolding MarshalVTToMsg_def Let_def by (auto split: if_splits option.splits)
qed

text \<open>The common shape of the sends: take a message, marshal into it, fill the envelope, hand it to
  \<open>SendMsg\<close> with a second reference, drop the first.\<close>

lemma winv_send_fresh:
  assumes w: "winv e (add_mset m S) T w" and i: "i < w_nact w" and env: "env_ok e env"
    and r: "refs (w_heap w) m = 1"
  shows "winv e S T (release m (SendMsg env i m (retain m w)))"
    and "frame T w (release m (SendMsg env i m (retain m w)))"
proof -
  have w1: "winv e (add_mset m (add_mset m S)) T (retain m w)"
    using r by (intro winv_retain [OF w]) simp_all
  have "refs (w_heap (retain m w)) m = 2" using refs_Retain [of "w_heap w" m m] r by simp
  then have "refs (w_heap (retain m w)) m < 2 ^ 31 - 2" by simp
  from winv_SendMsg [OF w1 _ env this, of i] i
  show "winv e S T (release m (SendMsg env i m (retain m w)))"
    "frame T w (release m (SendMsg env i m (retain m w)))"
    by (auto intro: winv_release simp: frame_def)
qed

lemma stamp_trace_ok:
  assumes "winv e S T w" and "m \<in># S" and "env_ok e env"
  shows "winv e S T (stamp_trace env i m w)" and "refs (w_heap (stamp_trace env i m w)) = refs (w_heap w)"
    and "frame T w (stamp_trace env i m w)" and "w_nact (stamp_trace env i m w) = w_nact w"
    and "w_actors (stamp_trace env i m w) = w_actors w"
proof -
  let ?w = "w\<lparr>w_zid := Suc (w_zid w)\<rparr>"
  have "held T ?w = held T w" "flying ?w = flying w" by (simp_all add: held_def acts_held_def tasks_held_def flying_def)
  then have z: "winv e S T ?w"
    using assms(1) by (simp add: winv_def tasks_inv_def acts_inv_def task_ok_def)
  have "winv e S T (set_msg m (e_genids env) w)"
    using assms env_picks(3) by (intro winv_set_msg) auto
  moreover have "winv e S T (set_msg m (\<lambda>x. x\<lparr>TraceIdHi := v, SpanId := u\<rparr>) ?w)" for u v
    using z assms(2) by (intro winv_set_msg) auto
  ultimately show "winv e S T (stamp_trace env i m w)"
    by (simp add: stamp_trace_def nextZid_def)
  show "refs (w_heap (stamp_trace env i m w)) = refs (w_heap w)"
    using env_picks(3) [OF assms(3)] by (auto simp: stamp_trace_def nextZid_def set_msg_def)
  show "frame T w (stamp_trace env i m w)" "w_nact (stamp_trace env i m w) = w_nact w"
    "w_actors (stamp_trace env i m w) = w_actors w"
    by (simp_all add: stamp_trace_def nextZid_def set_msg_def frame_def)
qed

section \<open>The message operations\<close>

text \<open>The contract of an operation that business code may call on its actor: it keeps the
  invariant for whatever its caller holds, and leaves the caller's tasks alone.\<close>

locale message_op =
  fixes run :: "env \<Rightarrow> aref \<Rightarrow> world \<Rightarrow> world"
  assumes keep: "env_ok e env \<Longrightarrow> winv e S T w \<Longrightarrow> i < w_nact w \<Longrightarrow>
    winv e S T (run env i w) \<and> frame T w (run env i w)"
begin

lemma repeated:
  assumes "env_ok e env" and "winv e S T w" and "i < w_nact w"
  shows "winv e S T (((run env i) ^^ n) w) \<and> frame T w (((run env i) ^^ n) w)"
proof (induction n)
  case (Suc n)
  then show ?case
    using keep [OF assms(1), of S T "((run env i) ^^ n) w" i] assms(3) frame_nact frame_trans by auto
qed (simp add: assms)

end

text \<open>Filling the envelope and sending.\<close>

lemma winv_fill_send:
  assumes w: "winv e (add_mset m S) T w" and i: "i < w_nact w" and env: "env_ok e env"
    and r: "refs (w_heap w) m = 1" and f: "\<And>x. RefCount (f x) = RefCount x"
  shows "winv e S T (release m (SendMsg env i m (retain m (set_msg m f w))))
       \<and> frame T w (release m (SendMsg env i m (retain m (set_msg m f w))))"
    and "winv e S T (release m (SendMsg env i m (retain m (stamp_trace env i m (set_msg m f w)))))
       \<and> frame T w (release m (SendMsg env i m (retain m (stamp_trace env i m (set_msg m f w)))))"
proof -
  let ?w1 = "set_msg m f w"
  have w1: "winv e (add_mset m S) T ?w1" by (rule winv_set_msg [OF w _ f]) simp
  have r1: "refs (w_heap ?w1) m = 1" using r f by (simp add: set_msg_def)
  have i1: "i < w_nact ?w1" "frame T w ?w1" using i by (simp_all add: set_msg_def)
  show "winv e S T (release m (SendMsg env i m (retain m ?w1)))
      \<and> frame T w (release m (SendMsg env i m (retain m ?w1)))"
    using winv_send_fresh [OF w1 i1(1) env r1] frame_trans [OF i1(2)] by blast
  have m: "m \<in># add_mset m S" by simp
  note s = stamp_trace_ok [OF w1 m env, of i]
  have "refs (w_heap (stamp_trace env i m ?w1)) m = 1" using s(2) r1 by simp
  moreover have "i < w_nact (stamp_trace env i m ?w1)" using s(4) i1 by simp
  ultimately show "winv e S T (release m (SendMsg env i m (retain m (stamp_trace env i m ?w1))))
      \<and> frame T w (release m (SendMsg env i m (retain m (stamp_trace env i m ?w1))))"
    using winv_send_fresh [OF s(1) _ env] frame_trans [OF frame_trans [OF i1(2) s(3)]] by blast
qed

text \<open>A fresh message, marshalled into.\<close>

lemma winv_fresh:
  assumes w: "winv e S T w" and env: "env_ok e env" and n: "newMsg env w = (m, w1)"
    and mm: "MarshalVTToMsg p m w1 = (ok, w2)"
  shows "winv e (add_mset m S) T w2" and "refs (w_heap w2) m = 1" and "frame T w w2"
    and "w_nact w2 = w_nact w" and "w_actors w2 = w_actors w" and "held T w2 = held T w" and "m \<notin># S + held T w"
    and "winv e S T (release m w2)"
proof -
  note w1 = winv_newMsg [OF w env n]
  have m: "m \<in># add_mset m S" by simp
  note w2 = MarshalVTToMsg_ok [OF w1(1) m mm]
  show "winv e (add_mset m S) T w2" "refs (w_heap w2) m = 1" "frame T w w2" "w_nact w2 = w_nact w"
    "w_actors w2 = w_actors w" "held T w2 = held T w" "m \<notin># S + held T w"
    using w1 w2 frame_trans by auto
  then show "winv e S T (release m w2)" by (simp add: winv_release)
qed

interpretation send_actor: message_op "\<lambda>env i. SendActor env i tar msg" for tar msg
proof unfold_locales
  fix e env S T w i
  assume env: "env_ok e env" and w: "winv e S T w" and i: "i < w_nact w"
  obtain m w1 where n: "newMsg env w = (m, w1)" by fastforce
  obtain ok w2 where mm: "MarshalVTToMsg msg m w1 = (ok, w2)" by fastforce
  note w2 = winv_fresh [OF w env n mm]
  have "i < w_nact w2" using i w2(4) by simp
  from winv_fill_send(2) [OF w2(1) this env w2(2)] w2(3,8)
  show "winv e S T (SendActor env i tar msg w) \<and> frame T w (SendActor env i tar msg w)"
    by (auto simp: SendActor_def n mm Let_def intro: frame_trans)
qed

interpretation to_user: message_op "\<lambda>env i. SendToClientByUserId env i tar uid msg" for tar uid msg
proof unfold_locales
  fix e env S T w i
  assume env: "env_ok e env" and w: "winv e S T w" and i: "i < w_nact w"
  obtain m w1 where n: "newMsg env w = (m, w1)" by fastforce
  obtain ok w2 where mm: "MarshalVTToMsg msg m w1 = (ok, w2)" by fastforce
  note w2 = winv_fresh [OF w env n mm]
  have "i < w_nact w2" using i w2(4) by simp
  from winv_fill_send(2) [OF w2(1) this env w2(2)] w2(3,8) w
  show "winv e S T (SendToClientByUserId env i tar uid msg w)
      \<and> frame T w (SendToClientByUserId env i tar uid msg w)"
    by (auto simp: SendToClientByUserId_def n mm Let_def intro: frame_trans)
qed

interpretation to_client: message_op "\<lambda>env i. SendToClient env i req msg" for req msg
proof unfold_locales
  fix e env S T w i
  assume env: "env_ok e env" and w: "winv e S T w" and i: "i < w_nact w"
  obtain m w1 where n: "newMsg env w = (m, w1)" by fastforce
  obtain ok w2 where mm: "MarshalVTToMsg msg m w1 = (ok, w2)" by fastforce
  note w2 = winv_fresh [OF w env n mm]
  have "i < w_nact w2" using i w2(4) by simp
  from winv_fill_send(1) [OF w2(1) this env w2(2)] w2(3,8) w
  show "winv e S T (SendToClient env i req msg w) \<and> frame T w (SendToClient env i req msg w)"
    by (auto simp: SendToClient_def n mm Let_def intro: frame_trans)
qed

lemma winv_placeholder:
  assumes env: "env_ok e env" and w: "winv e S T w" and i: "i < w_nact w"
  shows "winv e S T (reply_placeholder env i rid w) \<and> frame T w (reply_placeholder env i rid w)"
proof -
  obtain p w1 where n: "newMsg env w = (p, w1)" by fastforce
  note w1 = winv_newMsg [OF w env n]
  let ?f = "\<lambda>x. x\<lparr>RpcId := rid, IsResponse := True, Data := []\<rparr>"
  have w2: "winv e (add_mset p S) T (set_msg p ?f w1)" by (rule winv_set_msg [OF w1(1)]) simp_all
  have "winv e (add_mset p S) T (actor_SetReply i p (set_msg p ?f w1))"
    using w1(2,4) i by (intro winv_SetReply [OF w2]) (simp_all add: set_msg_def)
  then show ?thesis using w1(3) by (simp add: reply_placeholder_def n Let_def winv_release)
qed

interpretation actor_reply: message_op "\<lambda>env i. SendActorReply env i req reply" for req reply
proof unfold_locales
  fix e env S T w i
  assume env: "env_ok e env" and w: "winv e S T w" and i: "i < w_nact w"
  show "winv e S T (SendActorReply env i req reply w) \<and> frame T w (SendActorReply env i req reply w)"
  proof (cases reply)
    case None
    then show ?thesis using winv_placeholder [OF env w i] w by (simp add: SendActorReply_def)
  next
    case (Some p)
    obtain m w1 where n: "newMsg env w = (m, w1)" by fastforce
    obtain ok w2 where mm: "MarshalVTToMsg p m w1 = (ok, w2)" by fastforce
    note w2 = winv_fresh [OF w env n mm]
    have i2: "i < w_nact w2" using i w2(4) by simp
    note ph = winv_placeholder [OF env w2(1) i2]
    note fs = winv_fill_send(1) [OF w2(1) i2 env w2(2)]
    show ?thesis using w ph fs w2(3) Some
      by (auto simp: SendActorReply_def n mm Let_def winv_release intro: frame_trans)
  qed
qed

section \<open>Batches, broadcasts and the bus\<close>

lemma winv_batch_send_one:
  assumes env: "env_ok e env" and w: "winv e S T w" and i: "i < w_nact w"
  shows "winv e S T (batch_send_one env i orig mid body tar sid w)
       \<and> frame T w (batch_send_one env i orig mid body tar sid w)"
proof -
  obtain m w1 where n: "newMsg env w = (m, w1)" by fastforce
  note w1 = winv_newMsg [OF w env n]
  define w2 where "w2 = set_msg m (\<lambda>x. x\<lparr>MsgId := mid, Data := body, DataCap := e_grow env (length body),
    IsResponse := True, ToClient := True, TarActor := tar, SrcActor := actorId w1 i, SessionId := sid, SeqId := 0\<rparr>) w1"
  define w3 where "w3 = (case orig of
      Some o' \<Rightarrow> set_msg m (\<lambda>x. x\<lparr>TraceIdHi := TraceIdHi (msg_of w2 o'), TraceIdLo := TraceIdLo (msg_of w2 o')\<rparr>) w2
    | None \<Rightarrow> if e_trace env then set_msg m (e_genids env) w2
        else (let (z, w) = nextZid env w2 in set_msg m (\<lambda>x. x\<lparr>TraceIdHi := z\<rparr>) w))"
  have w2: "winv e (add_mset m S) T w2" unfolding w2_def by (rule winv_set_msg [OF w1(1)]) simp_all
  have z: "winv e (add_mset m S) T (w2\<lparr>w_zid := Suc (w_zid w2)\<rparr>)"
    using w2 by (simp add: winv_def tasks_inv_def acts_inv_def task_ok_def held_def acts_held_def tasks_held_def flying_def)
  have w3: "winv e (add_mset m S) T w3"
    unfolding w3_def nextZid_def using env_picks(3) [OF env]
    by (auto split: option.split intro!: winv_set_msg [OF w2] winv_set_msg [OF z])
  have r3: "refs (w_heap w3) m = 1" "w_nact w3 = w_nact w" "frame T w w3"
    using w1 env_picks(3) [OF env]
    by (auto simp: w3_def w2_def nextZid_def set_msg_def frame_def split: option.split)
  have "batch_send_one env i orig mid body tar sid w
      = release m (SendMsg env i m (retain m (set_msg m (\<lambda>x. x\<lparr>SpanId := actorId w3 i\<rparr>) w3)))"
    by (simp only: batch_send_one_def n w2_def [symmetric] w3_def Let_def prod.case)
  then show ?thesis
    using winv_fill_send(1) [OF w3 _ env r3(1), of i] r3(2,3) i by (auto intro: frame_trans)
qed

lemma winv_fold:
  assumes step: "\<And>x w. x \<in> set xs \<Longrightarrow> winv e S T w \<Longrightarrow> i < w_nact w \<Longrightarrow> winv e S T (f x w) \<and> frame T w (f x w)"
    and "winv e S T w" and "i < w_nact w"
  shows "winv e S T (fold f xs w) \<and> frame T w (fold f xs w)"
  using assms
proof (induction xs arbitrary: w)
  case (Cons x xs)
  have x: "winv e S T (f x w)" "frame T w (f x w)" using Cons.prems by simp_all
  have "winv e S T (fold f xs (f x w)) \<and> frame T (f x w) (fold f xs (f x w))"
    using Cons.prems(1) x frame_nact [OF x(2) Cons.prems(3)] by (intro Cons.IH) auto
  then show ?case using x(2) by (auto intro: frame_trans)
qed simp

interpretation batch: message_op "\<lambda>env i. BatchSendToClients env i orig rcpts msg" for orig rcpts msg
proof unfold_locales
  fix e env S T w i
  assume env: "env_ok e env" and w: "winv e S T w" and i: "i < w_nact w"
  have inner: "winv e S T (fold (batch_send_one env i orig mid body tar) sessions v)
      \<and> frame T v (fold (batch_send_one env i orig mid body tar) sessions v)"
    if "winv e S T v" "i < w_nact v" for mid body tar sessions v
    using winv_batch_send_one [OF env] that by (intro winv_fold [of _ e S T i]) blast+
  have "winv e S T (fold (\<lambda>(tar, sessions) w. if tar \<le> 0 \<or> length sessions = 0 then w
             else fold (batch_send_one env i orig (GetMsgId msg) body tar) sessions w) rcpts w)
      \<and> frame T w (fold (\<lambda>(tar, sessions) w. if tar \<le> 0 \<or> length sessions = 0 then w
             else fold (batch_send_one env i orig (GetMsgId msg) body tar) sessions w) rcpts w)" for body
    using w i inner by (intro winv_fold [of _ e S T i]) auto
  then show "winv e S T (BatchSendToClients env i orig rcpts msg w)
      \<and> frame T w (BatchSendToClients env i orig rcpts msg w)"
    using w by (auto simp: BatchSendToClients_def split: option.split)
qed

text \<open>A message that is no response is enqueued.\<close>

lemma Push_request:
  "\<not> IsResponse (msg_of w m) \<Longrightarrow> Push env c (cmd_zero\<lparr>Type := ty, Msg := Some m\<rparr>) w
     = Enqueue env c (cmd_zero\<lparr>Type := ty, Msg := Some m\<rparr>) w"
  by (simp add: Push_def cmd_zero_def)

lemma Enqueue_heap [simp]: "w_heap (Enqueue env i c w) = w_heap w" "w_nact (Enqueue env i c w) = w_nact w"
  "w_group (Enqueue env i c w) = w_group w"
  by (simp_all add: Enqueue_def)

lemma IsResponse_Retain [simp]: "IsResponse (mobj (Retain p h) b) = IsResponse (mobj h b)"
  by (simp add: pool_simps split: option.split)

lemma winv_publish:
  assumes env: "env_ok e env" and "winv e (add_mset m S) T w" and "\<not> IsResponse (msg_of w m)"
    and "set cs \<subseteq> {..<w_nact w}" and "refs (w_heap w) m + length cs < 2 ^ 31 - 1"
  shows "winv e (add_mset m S) T (fold (OnChange env m) cs w) \<and> frame T w (fold (OnChange env m) cs w)"
  using assms(2-)
proof (induction cs arbitrary: w)
  case (Cons c cs)
  let ?c = "cmd_zero\<lparr>Type := CmdTypeMsg, Msg := Some m\<rparr>"
  let ?w = "OnChange env m c w"
  have live: "0 < refs (w_heap w) m" using winv_live [OF Cons.prems(1), of m] by simp
  have w1: "winv e (add_mset m (add_mset m S)) T (retain m w)"
    using Cons.prems by (intro winv_retain) auto
  have eq: "?w = Enqueue env c ?c (retain m w)"
    using Cons.prems(2) by (simp add: OnChange_def Push_request)
  have "winv e (add_mset m S) T ?w" unfolding eq
    using w1 Cons.prems(3) by (intro winv_Enqueue [OF env]) (auto simp: cmd_zero_def cmd_ok_def)
  moreover have fr: "frame T w ?w" unfolding eq by (rule frame_trans [OF _ frame_Enqueue]) simp
  moreover have "refs (w_heap ?w) m + length cs < 2 ^ 31 - 1"
    unfolding eq using refs_Retain [of "w_heap w" m m] live Cons.prems(4) by simp
  moreover have "\<not> IsResponse (msg_of ?w m)" "set cs \<subseteq> {..<w_nact ?w}"
    using Cons.prems(2,3) by (auto simp: eq)
  ultimately show ?case using Cons.IH [of ?w] by (auto intro: frame_trans)
qed simp

lemma winv_Broadcast:
  assumes env: "env_ok e env" and w: "winv e S T w" and i: "i < w_nact w"
    and ls: "set (e_listeners env topic) \<subseteq> {..<w_nact w}" "length (e_listeners env topic) < 2 ^ 31 - 2"
  shows "winv e S T (snd (Broadcast env i topic msg w)) \<and> frame T w (snd (Broadcast env i topic msg w))"
proof -
  obtain m w1 where n: "newMsg env w = (m, w1)" by fastforce
  obtain ok w2 where mm: "MarshalVTToMsg msg m w1 = (ok, w2)" by fastforce
  note w2 = winv_fresh [OF w env n mm]
  define w3 where "w3 = set_msg m (\<lambda>x. x\<lparr>MsgId := GetMsgId msg, SrcActor := actorId w2 i\<rparr>) w2"
  define w4 where "w4 = stamp_trace env i m w3"
  have w3: "winv e (add_mset m S) T w3" unfolding w3_def by (rule winv_set_msg [OF w2(1)]) simp_all
  have m: "m \<in># add_mset m S" by simp
  note s = stamp_trace_ok [OF w3 m env, of i, folded w4_def]
  have fr: "frame T w w4" using frame_trans [OF w2(3), of w3] frame_trans [OF _ s(3)] by (simp add: w3_def)
  have r4: "refs (w_heap w4) m = 1" "w_nact w4 = w_nact w"
    using s(2,4) w2(2,4) by (simp_all add: w3_def set_msg_def)
  have "\<not> IsResponse (msg_of w1 m)"
    using n by (auto simp: newMsg_def GetMessage_def upd_msg_def PoolReset_def Let_def split: prod.splits)
  then have "\<not> IsResponse (msg_of w2 m)"
    using mm unfolding MarshalVTToMsg_def Let_def by (auto simp: upd_msg_def split: if_splits option.splits)
  then have "\<not> IsResponse (msg_of w4 m)"
    using env_picks(4) [OF env] by (simp add: w4_def w3_def stamp_trace_def nextZid_def set_msg_def upd_msg_def)
  then have pub: "winv e (add_mset m S) T (fold (OnChange env m) (e_listeners env topic) w4)
      \<and> frame T w4 (fold (OnChange env m) (e_listeners env topic) w4)"
    using ls r4 by (intro winv_publish [OF env s(1)]) auto
  have bus: "winv e (add_mset m S) T (w4\<lparr>w_bus := b\<rparr>)" "frame T w4 (w4\<lparr>w_bus := b\<rparr>)" for b
    using s(1) by (simp_all add: winv_def tasks_inv_def acts_inv_def task_ok_def held_def acts_held_def tasks_held_def flying_def frame_def)
  have "Broadcast env i topic msg w = (if \<not> ok then (False, release m w2) else
      if isSingle (w_group w4) then (True, release m (fold (OnChange env m) (e_listeners env topic) w4))
      else (case MarshalPooled (msg_of w4 m) (e_oldbuf env (Size (msg_of w4 m))) of
              Inl e \<Rightarrow> (False, release m w4)
            | Inr mBuf \<Rightarrow> (let (ok, w) = sendRemote env topic mBuf w4 in (ok, release m w))))"
    by (simp only: Broadcast_def n mm Let_def prod.case w3_def [symmetric] w4_def [symmetric])
  then show ?thesis using w2(3,8) pub bus s(1) fr
    by (auto simp: sendRemote_def winv_release split: sum.split option.split intro: frame_trans)
qed

lemma RefCount_Unmarshal: "Unmarshal m buf = (err, m') \<Longrightarrow> RefCount m' = RefCount m"
  by (auto simp: Unmarshal_cases read_header_def split: if_splits)

interpretation receive: message_op "\<lambda>env i. receiveRemote env i dat" for dat
proof unfold_locales
  fix e env S T w i
  assume env: "env_ok e env" and w: "winv e S T w" and i: "i < w_nact w"
  obtain m w1 where n: "newMsg env w = (m, w1)" by fastforce
  note w1 = winv_newMsg [OF w env n]
  obtain err msg where u: "Unmarshal (msg_of w1 m) dat = (err, msg)" by fastforce
  have eq: "set_msg m (\<lambda>_. msg) w1 = set_msg m (\<lambda>x. msg\<lparr>RefCount := RefCount x\<rparr>) w1"
    using RefCount_Unmarshal [OF u] by (cases msg) (simp add: set_msg_def hp_def upd_msg_def)
  let ?w2 = "set_msg m (\<lambda>_. msg) w1"
  have w2: "winv e (add_mset m S) T ?w2" unfolding eq by (rule winv_set_msg [OF w1(1)]) simp_all
  have r2: "refs (w_heap ?w2) m = 1" "w_nact ?w2 = w_nact w" "frame T w ?w2"
    using w1 unfolding eq by (simp_all add: set_msg_def)
  let ?c = "cmd_zero\<lparr>Type := CmdTypeMsg, Msg := Some m\<rparr>"
  have c: "Msg ?c = Some m" "Any ?c = None" by (simp_all add: cmd_zero_def)
  have "winv e S T (Push env i ?c ?w2)" using w2 r2 i by (intro winv_Push [OF env]) (simp_all add: c)
  moreover have "frame T w (Push env i ?c ?w2)"
    by (rule frame_trans [OF r2(3)], rule frame_Push [OF env w2]) (simp add: c)
  ultimately show "winv e S T (receiveRemote env i dat w) \<and> frame T w (receiveRemote env i dat w)"
    using winv_release [OF w2] r2(3) by (simp add: receiveRemote_def n u Let_def split: option.split)
qed

end
