(* ===== verification/ZRefsRun.thy ===== *)
theory ZRefsRun
  imports ZRefsOps
begin

text \<open>
  The running parts keep the reference invariant: asynchronous tasks and their workers, handlers and
  callbacks on the actor's goroutine, the main loop, RPC calls and the RPC watchdog. At the end, the
  executions of a process as interleavings of these steps.
\<close>

section \<open>Submitting tasks\<close>

lemma put_hp: "putAsyncTask t (hp k w) = hp k (putAsyncTask t w)"
  by (simp add: put_eq hp_def upd_task_def)

lemma put_upd: "putAsyncTask t (upd_task t f w) = putAsyncTask t w"
  by (simp add: put_eq upd_task_def)

lemma winv_validators:
  assumes "env_ok e env" and "winv e S T w" and "run_validators env vs w = (r, w')"
  shows "winv e S T w' \<and> frame T w w' \<and> (e \<longrightarrow> r \<noteq> None)"
  using assms(2,3)
proof (induction vs arbitrary: w)
  case (Cons v vs)
  obtain x w1 where c: "e_call env v ANone w = (x, w1)" by fastforce
  have arg: "set (arg_msgs ANone) \<subseteq> set_mset (S + held T w)" by simp
  note w1 = env_call [OF assms(1) Cons.prems(1) arg c]
  show ?case using Cons.IH [OF w1(1)] w1 Cons.prems(2) c
    by (auto split: option.splits if_splits intro: frame_trans)
qed auto

definition msg_task :: "aref \<Rightarrow> mref \<Rightarrow> fnref \<Rightarrow> fnref option \<Rightarrow> fnref list \<Rightarrow> asyncTask \<Rightarrow> asyncTask" where
  "msg_task i a f cb vs k = k\<lparr>t_actor := Some i, t_msg := Some a, fMsg := Some f, callBackFunc := cb,
     validators := (if length vs > 0 then validators k @ vs else validators k)\<rparr>"

definition flow_task :: "aref \<Rightarrow> mref option \<Rightarrow> fnref \<Rightarrow> fnref option \<Rightarrow> asyncTask \<Rightarrow> asyncTask" where
  "flow_task i p f thn k = k\<lparr>t_actor := Some i, t_msg := p, flowWork := Some f, flowThen := thn\<rparr>"

text \<open>The branch of \<open>AsyncRunWithMsgResult\<close> after its checks.\<close>

lemma winv_msg_submit:
  assumes w: "winv e (add_mset a S) T w" and i: "i < w_nact w" and env: "env_ok e env"
    and g: "getAsyncTask env w = (t, w1)" and inv: "Invoke env i t (upd_task t (msg_task i a f cb vs) w1) = (ok, w3)"
  shows "ok \<Longrightarrow> winv e S T w3" and "\<not> ok \<Longrightarrow> winv e S T (putAsyncTask t (release a w3))"
    and "frame T w w3" and "frame T w (putAsyncTask t (release a w3))"
proof -
  have n: "w_nact w1 = w_nact w" using winv_getAsyncTask(5) [OF w env g] .
  have k: "task_msgs (msg_task i a f cb vs empty_task) = {#a#}" "task_ok e w1 (msg_task i a f cb vs empty_task)"
    "task_shape (msg_task i a f cb vs empty_task)"
    using i n by (auto simp: msg_task_def task_msgs_def empty_task_def task_ok_def task_shape_def)
  have w': "winv e ({#a#} + S) T w" using w by simp
  note sub = winv_submit_task [OF w' i env g inv k]
  show "ok \<Longrightarrow> winv e S T w3" by (rule sub)
  show "winv e S T (putAsyncTask t (release a w3))" if "\<not> ok"
    unfolding put_hp using sub(2) [OF that, THEN conjunct2] by (intro winv_release) simp
  show "frame T w w3" "frame T w (putAsyncTask t (release a w3))" using sub(3,4) by (simp_all add: put_hp)
qed

lemma winv_AsyncRunWithMsg:
  assumes env: "env_ok e env" and w: "winv e S T w" and i: "i < w_nact w" and a: "a \<in># S + held T w"
    and room: "refs (w_heap w) a < 2 ^ 31 - 1"
  shows "winv e S T (snd (AsyncRunWithMsgResult env i a f cb vs w))
       \<and> frame T w (snd (AsyncRunWithMsgResult env i a f cb vs w))"
proof -
  have w1: "winv e (add_mset a S) T (retain a w)" by (rule winv_retain [OF w a room])
  obtain v w2 where v: "run_validators env vs (retain a w) = (v, w2)" by fastforce
  have w2: "winv e (add_mset a S) T w2" "frame T (retain a w) w2" "e \<longrightarrow> v \<noteq> None"
    using winv_validators [OF env w1 v] by auto
  have fr: "frame T w w2" using frame_trans [OF _ w2(2), of w] by simp
  have i2: "i < w_nact w2" using frame_nact [OF fr i] .
  consider "v = None" | "v = Some False" | "v = Some True" by (metis (full_types) not_None_eq)
  then show ?thesis
  proof cases
    case 1
    then have "winv e S T w2" using w2(1,3) by (cases e) (auto intro: winv_drop)
    then show ?thesis using 1 fr v by (simp add: AsyncRunWithMsgResult_def)
  next
    case 2
    then show ?thesis using fr v winv_release [OF w2(1)] by (simp add: AsyncRunWithMsgResult_def)
  next
    case 3
    obtain t w3 where g: "getAsyncTask env w2 = (t, w3)" by fastforce
    obtain ok w4 where inv: "Invoke env i t (upd_task t (msg_task i a f cb vs) w3) = (ok, w4)" by fastforce
    have "(let w = upd_task t (\<lambda>k. k\<lparr>t_actor := Some i\<rparr>) w3; w = upd_task t (\<lambda>k. k\<lparr>t_msg := Some a\<rparr>) w;
        w = upd_task t (\<lambda>k. k\<lparr>fMsg := Some f\<rparr>) w; w = upd_task t (\<lambda>k. k\<lparr>callBackFunc := cb\<rparr>) w
        in if length vs > 0 then upd_task t (\<lambda>k. k\<lparr>validators := validators k @ vs\<rparr>) w else w)
        = upd_task t (msg_task i a f cb vs) w3"
      by (simp add: upd_task_def Let_def msg_task_def)
    then have "AsyncRunWithMsgResult env i a f cb vs w
        = (if \<not> ok then (Some False, putAsyncTask t (release a w4)) else (Some True, w4))"
      using 3 v g inv by (simp add: AsyncRunWithMsgResult_def Let_def)
    then show ?thesis using winv_msg_submit [OF w2(1) i2 env g inv] fr by (auto intro: frame_trans)
  qed
qed

lemma winv_StartAsyncThen:
  assumes env: "env_ok e env" and w: "winv e S T w" and i: "\<And>j. b = Some j \<Longrightarrow> j < w_nact w"
    and a: "\<And>a. p = Some a \<Longrightarrow> a \<in># S + held T w \<and> refs (w_heap w) a < 2 ^ 31 - 1"
  shows "winv e S T (snd (StartAsyncThen env b p f thn w)) \<and> frame T w (snd (StartAsyncThen env b p f thn w))"
proof (cases "b = None \<or> f = None")
  case True
  then show ?thesis using w by (auto simp: StartAsyncThen_def split: option.split)
next
  case False
  then obtain j g where jg: "b = Some j" "f = Some g" by auto
  have j: "j < w_nact w" using i jg by simp
  obtain t w1 where get: "getAsyncTask env w = (t, w1)" by fastforce
  let ?w0 = "hp (Retain p) w"
  have w0: "winv e (mset (opt_list p) + S) T ?w0"
    using a w winv_retain [OF w] by (cases p) (auto simp: hp_def Retain_def)
  have get0: "getAsyncTask env ?w0 = (t, hp (Retain p) w1)"
    using get by (auto simp: getAsyncTask_def hp_def split: option.splits)
  obtain ok w3 where inv: "Invoke env j t (upd_task t (flow_task j p g thn) (hp (Retain p) w1)) = (ok, w3)" by fastforce
  have n: "w_nact (hp (Retain p) w1) = w_nact ?w0" using winv_getAsyncTask(5) [OF w0 env get0] .
  have k: "task_msgs (flow_task j p g thn empty_task) = mset (opt_list p)"
    "task_ok e (hp (Retain p) w1) (flow_task j p g thn empty_task)" "task_shape (flow_task j p g thn empty_task)"
    using j n by (auto simp: flow_task_def task_msgs_def empty_task_def task_ok_def task_shape_def)
  have j0: "j < w_nact ?w0" using j by simp
  note sub = winv_submit_task [OF w0 j0 env get0 inv k]
  have "upd_task t (\<lambda>k. k\<lparr>flowThen := thn\<rparr>) (upd_task t (\<lambda>k. k\<lparr>flowWork := Some g\<rparr>) (hp (Retain p)
      (upd_task t (\<lambda>k. k\<lparr>t_msg := p\<rparr>) (upd_task t (\<lambda>k. k\<lparr>t_actor := Some j\<rparr>) w1))))
      = upd_task t (flow_task j p g thn) (hp (Retain p) w1)"
    by (simp add: upd_task_def hp_def flow_task_def)
  then have "StartAsyncThen env b p f thn w
      = (if \<not> ok then (False, putAsyncTask t (hp (Release p) w3)) else (True, w3))"
    using jg get inv by (simp add: StartAsyncThen_def Let_def)
  moreover have "winv e S T (putAsyncTask t (hp (Release p) w3))" if "\<not> ok"
    unfolding put_hp by (rule winv_release_opt [OF sub(2) [OF that, THEN conjunct2]])
  moreover have "frame T w w3" "frame T w (putAsyncTask t w3)" using sub(3,4) by (simp_all add: frame_def)
  ultimately show ?thesis using sub(1) by (simp add: put_hp)
qed

section \<open>Workers\<close>

text \<open>The messages of a task that running code works on are held.\<close>

lemma task_msgs_held: "t \<in># T \<Longrightarrow> task_msgs (w_task w t) \<subseteq># held T w"
proof -
  assume "t \<in># T"
  then obtain T' where "T = add_mset t T'" by (meson multi_member_split)
  then show ?thesis by (simp add: held_def)
qed

lemma task_msg_held: "t \<in># T \<Longrightarrow> t_msg (w_task w t) = Some a \<Longrightarrow> a \<in># held T w"
  using task_msgs_held [of t T w] by (auto simp: task_msgs_def dest: mset_subset_eqD)

text \<open>Finishing a task: its message is released and it returns to the pool.\<close>

lemma winv_finish:
  assumes w: "winv e S (add_mset t T) w" and m: "task_msgs (w_task w t) = mset (opt_list p)"
  shows "winv e S T (putAsyncTask t (hp (Release p) w))" and "winv e S T (hp (Release p) (putAsyncTask t w))"
  using winv_putAsyncTask [OF w] m winv_release_opt [of e p S T "putAsyncTask t w"]
  by (simp_all add: put_hp add.commute)

lemma task_msgs_plain:
  assumes "winv e S (add_mset t T) w" and "flowWork (w_task w t) \<noteq> None \<or> t_msg (w_task w t) \<noteq> None"
  shows "task_msgs (w_task w t) = mset (opt_list (t_msg (w_task w t)))"
  using winv_task(4) [OF assms(1), of t] assms(2)
  by (auto simp: task_ok_def task_msgs_def split: option.split gofn.split)

text \<open>Storing a result does not change what a task holds.\<close>

lemma winv_result:
  assumes w: "winv e S (add_mset t T) w"
    and f: "\<And>k. t_actor (f k) = t_actor k \<and> t_msg (f k) = t_msg k \<and> fMsg (f k) = fMsg k
       \<and> fSimple (f k) = fSimple k \<and> callBackFunc (f k) = callBackFunc k \<and> flowWork (f k) = flowWork k"
  shows "winv e S (add_mset t T) (upd_task t f w)"
  using winv_task(4) [OF w, of t] f
  by (intro winv_upd_task [OF w]) (auto simp: task_ok_def task_msgs_def)

lemma task_shape_result:
  "t_actor k' = t_actor k \<Longrightarrow> t_msg k' = t_msg k \<Longrightarrow> fMsg k' = fMsg k \<Longrightarrow> fSimple k' = fSimple k \<Longrightarrow>
   flowWork k' = flowWork k \<Longrightarrow> task_shape k' = task_shape k"
  by (simp add: task_shape_def)

text \<open>Handing the task to the actor's mailbox.\<close>

lemma winv_push_task:
  assumes env: "env_ok e env" and w: "winv e S (add_mset t T) w" and i: "i < w_nact w"
    and sh: "e \<Longrightarrow> task_shape (w_task w t) \<and> (flowWork (w_task w t) = None \<longrightarrow> callBackFunc (w_task w t) \<noteq> None)"
  shows "winv e S T (Push env i (cmd_zero\<lparr>Type := CmdTypeAsync, Any := Some t\<rparr>) w)"
  using w sh by (intro winv_Push [OF env _ i]) (auto simp: cmd_zero_def cmd_ok_def)

lemma winv_runFlow:
  assumes env: "env_ok e env" and w: "winv e S (add_mset t T) w" and i: "i < w_nact w"
    and f: "flowWork (w_task w t) = Some f" and sh: "e \<Longrightarrow> task_shape (w_task w t)"
  shows "winv e S T (runFlow env i f t w)"
proof -
  let ?p = "t_msg (w_task w t)"
  obtain r w1 where c: "e_call env f (AMsgOpt ?p) w = (r, w1)" by fastforce
  have "set (arg_msgs (AMsgOpt ?p)) \<subseteq> set_mset (S + held (add_mset t T) w)"
    using task_msg_held [of t "add_mset t T" w] by (cases ?p) auto
  note w1 = env_call [OF env w this c]
  have same: "w_task w1 t = w_task w t" using w1(2) by (simp add: frame_def)
  have i1: "i < w_nact w1" by (rule frame_nact [OF w1(2) i])
  have tm: "task_msgs (w_task w1 t) = mset (opt_list ?p)"
    using task_msgs_plain [OF w1(1)] f same by simp
  note fin = winv_finish(1) [OF w1(1) tm]
  show ?thesis
  proof (cases r)
    case None
    then show ?thesis using c fin by (simp add: runFlow_def)
  next
    case (Some v)
    let ?f = "\<lambda>k. k\<lparr>flowVal := ret_val v, flowErr := ret_err v\<rparr>"
    let ?w2 = "upd_task t ?f w1"
    have w2: "winv e S (add_mset t T) ?w2" by (rule winv_result [OF w1(1)]) simp
    have "winv e S T (Push env i (cmd_zero\<lparr>Type := CmdTypeAsync, Any := Some t\<rparr>) ?w2)"
      using i1 sh same f by (intro winv_push_task [OF env w2]) (auto simp: task_shape_def)
    moreover have "winv e S T (putAsyncTask t (hp (Release ?p) ?w2))"
      using tm by (intro winv_finish(1) [OF w2]) (simp add: task_msgs_def)
    ultimately show ?thesis using c Some by (simp add: runFlow_def Let_def)
  qed
qed

lemma winv_runWithMsg:
  assumes env: "env_ok e env" and w: "winv e S (add_mset t T) w" and i: "i < w_nact w"
    and a: "t_msg (w_task w t) = Some a" and sh: "e \<Longrightarrow> task_shape (w_task w t)"
  shows "winv e S T (runWithMsg env i a f t w)"
proof -
  obtain r w1 where c: "e_call env f (AMsg a) w = (r, w1)" by fastforce
  have "set (arg_msgs (AMsg a)) \<subseteq> set_mset (S + held (add_mset t T) w)"
    using task_msg_held [of t "add_mset t T" w a] a by simp
  note w1 = env_call [OF env w this c]
  have same: "w_task w1 t = w_task w t" using w1(2) by (simp add: frame_def)
  have i1: "i < w_nact w1" by (rule frame_nact [OF w1(2) i])
  show ?thesis
  proof (cases r)
    case None
    then have "\<not> e" using w1(3) by blast
    then show ?thesis using c None w1(1) by (auto simp: runWithMsg_def intro: winv_drop)
  next
    case (Some v)
    let ?w2 = "upd_task t (\<lambda>k. k\<lparr>t_result := ret_val v\<rparr>) w1"
    have w2: "winv e S (add_mset t T) ?w2" by (rule winv_result [OF w1(1)]) simp
    have "winv e S T (Push env i (cmd_zero\<lparr>Type := CmdTypeAsync, Any := Some t\<rparr>) ?w2)"
      if "callBackFunc (w_task w t) \<noteq> None"
      using i1 sh same that by (intro winv_push_task [OF env w2]) (auto simp: task_shape_def)
    moreover have "winv e S T (putAsyncTask t (hp (Release (Some a)) ?w2))"
      using task_msgs_plain [OF w2] a same by (intro winv_finish(1) [OF w2]) simp
    ultimately show ?thesis using c Some same by (simp add: runWithMsg_def Let_def)
  qed
qed

text \<open>A closure other than that of \<open>SendMsg\<close>.\<close>

lemma winv_run_gofn:
  assumes env: "env_ok e env" and w: "winv e S T w" and i: "i < w_nact w"
    and f: "\<And>a cfg. f \<noteq> SendRemote a cfg" "\<And>n. e \<Longrightarrow> f \<noteq> RebuildPool n" and r: "run_gofn env i f w = (r, w')"
  shows "winv e S T w' \<and> frame T w w' \<and> (e \<longrightarrow> r \<noteq> None)"
proof -
  have upd: "winv e S T (upd_actor i k w)" if "act_queue (k (w_actors w i)) = act_queue (w_actors w i)"
    "a_sender (k (w_actors w i)) = a_sender (w_actors w i)"
    "e \<Longrightarrow> wp_flow (a_pool (w_actors w i)) \<Longrightarrow> wp_flow (a_pool (k (w_actors w i)))" for k
    using that by (intro winv_upd_actor_same(1) [OF w i]) auto
  have fr: "frame T w (upd_actor i k w)" for k by (simp add: frame_def)
  show ?thesis
  proof (cases f)
    case (UserFn g)
    then show ?thesis using r env_call [OF env w, of ANone g r w'] by (simp add: run_gofn_def)
  next
    case (SendRemote a cfg)
    then show ?thesis using f(1) by blast
  next
    case (TunePool n)
    then show ?thesis using r w fr upd by (auto simp: run_gofn_def)
  next
    case (SetRate x y)
    then show ?thesis using r w fr upd by (auto simp: run_gofn_def)
  next
    case (SetMaxRPC n)
    then show ?thesis using r w fr upd by (auto simp: run_gofn_def)
  next
    case (RebuildPool n)
    then have "\<not> e" using f(2) by blast
    then show ?thesis using r w fr upd RebuildPool by (auto simp: run_gofn_def)
  qed
qed

text \<open>A simple task: the closure of \<open>SendMsg\<close> releases the message it captured.\<close>

lemma winv_bus [simp]: "winv e S T (w\<lparr>w_bus := b\<rparr>) = winv e S T w"
  by (simp add: winv_def tasks_inv_def acts_inv_def task_ok_def held_def acts_held_def tasks_held_def flying_def)

lemma run_SendRemote_eq: "\<exists>b. run_SendRemote env a cfg w = release a (w\<lparr>w_bus := b\<rparr>)"
proof -
  have "\<exists>b. release a w = release a (w\<lparr>w_bus := b\<rparr>)" by (rule exI [of _ "w_bus w"]) simp
  then show ?thesis
    by (auto simp: run_SendRemote_def sendRemote_def split: sum.split option.split)
qed

lemma winv_runSimple_remote:
  assumes w: "winv e S (add_mset t T) w" and f: "fSimple (w_task w t) = Some (SendRemote a cfg)"
  shows "winv e S T (runSimple env i t w)"
proof -
  have k: "t_msg (w_task w t) = None" "callBackFunc (w_task w t) = None"
    using winv_task(4) [OF w, of t] f by (auto simp: task_ok_def)
  obtain b where b: "run_SendRemote env a cfg w = release a (w\<lparr>w_bus := b\<rparr>)" using run_SendRemote_eq by blast
  have "winv e (add_mset a S) T (putAsyncTask t (w\<lparr>w_bus := b\<rparr>))"
    using winv_putAsyncTask [of e S t T "w\<lparr>w_bus := b\<rparr>"] w k f by (simp add: task_msgs_def)
  moreover have "runSimple env i t w = release a (putAsyncTask t (w\<lparr>w_bus := b\<rparr>))"
    using f k b by (simp add: runSimple_def run_gofn_def put_hp put_upd)
  ultimately show ?thesis by (simp add: winv_release)
qed

lemma winv_runSimple:
  assumes env: "env_ok e env" and w: "winv e S (add_mset t T) w" and i: "i < w_nact w"
    and sh: "e \<Longrightarrow> task_shape (w_task w t) \<and> t_msg (w_task w t) = None \<and> fSimple (w_task w t) \<noteq> None"
  shows "winv e S T (runSimple env i t w)"
proof (cases "fSimple (w_task w t)")
  case None
  then show ?thesis using sh w by (cases e) (auto simp: runSimple_def intro: winv_drop)
next
  case f: (Some f)
  show ?thesis
  proof (cases "\<exists>a cfg. f = SendRemote a cfg")
    case True
    then show ?thesis using winv_runSimple_remote [OF w] f by blast
  next
    case False
    obtain r w1 where r: "run_gofn env i f w = (r, w1)" by fastforce
    have "winv e S (add_mset t T) w1 \<and> frame (add_mset t T) w w1 \<and> (e \<longrightarrow> r \<noteq> None)"
      using False winv_task(4) [OF w, of t] f
      by (intro winv_run_gofn [OF env w i _ _ r]) (auto simp: task_ok_def)
    then have w1: "winv e S (add_mset t T) w1" "frame (add_mset t T) w w1" "e \<Longrightarrow> r \<noteq> None" by auto
    have same: "w_task w1 t = w_task w t" using w1(2) by (simp add: frame_def)
    show ?thesis
    proof (cases r)
      case None
      then have "\<not> e" using w1(3) by blast
      then show ?thesis using f r None w1(1) by (auto simp: runSimple_def intro: winv_drop)
    next
      case (Some v)
      let ?w2 = "upd_task t (\<lambda>k. k\<lparr>t_result := ret_val v\<rparr>) w1"
      have w2: "winv e S (add_mset t T) ?w2" by (rule winv_result [OF w1(1)]) simp
      have "winv e S T (Push env i (cmd_zero\<lparr>Type := CmdTypeAsync, Any := Some t\<rparr>) ?w2)"
        if "callBackFunc (w_task w t) \<noteq> None"
        using frame_nact [OF w1(2) i] sh same that
        by (intro winv_push_task [OF env w2]) (auto simp: task_shape_def)
      moreover have "winv e S T (putAsyncTask t ?w2)"
      proof (cases e)
        case True
        then have "task_msgs (w_task ?w2 t) = {#}"
          using sh same f False by (auto simp: task_msgs_def split: gofn.split)
        then show ?thesis using winv_putAsyncTask [OF w2] by simp
      next
        case False
        then show ?thesis using winv_putAsyncTask [OF w2] by (auto intro: winv_drop)
      qed
      ultimately show ?thesis using f r Some same by (simp add: runSimple_def Let_def)
    qed
  qed
qed

lemma winv_worker_run:
  assumes env: "env_ok e env" and w: "winv e S (add_mset t T) w"
    and sh: "e \<Longrightarrow> flow \<and> task_shape (w_task w t)"
  shows "winv e S T (worker_run env flow t w)"
proof (cases "t_actor (w_task w t)")
  case None
  then show ?thesis using sh w by (cases e) (auto simp: worker_run_def task_shape_def intro: winv_drop)
next
  case a: (Some i)
  have i: "i < w_nact w" using winv_task(4) [OF w, of t] a by (simp add: task_ok_def)
  have msg: "winv e S T (runWithMsg env i m g t w)" if "t_msg (w_task w t) = Some m" for m g
    using winv_runWithMsg [OF env w i that] sh by blast
  have simple: "winv e S T (runSimple env i t w)"
    if "\<not> e \<or> flowWork (w_task w t) = None" "t_msg (w_task w t) = None \<or> fMsg (w_task w t) = None"
    using sh that by (intro winv_runSimple [OF env w i]) (auto simp: task_shape_def)
  have "winv e S T (runFlow env i f t w)" if "flowWork (w_task w t) = Some f" for f
    using winv_runFlow [OF env w i that] sh by blast
  then show ?thesis using a sh msg simple by (auto simp: worker_run_def split: option.split)
qed

section \<open>Callbacks\<close>

text \<open>A task dropped without being put back: what it held is in local variables now.\<close>

lemma winv_abandon:
  assumes w: "winv False S (add_mset t T) w"
  shows "winv False (S + task_msgs (w_task w t)) T w"
proof -
  have "refs_inv False (S + task_msgs (w_task w t) + held T w) (w_heap w)"
    using winvD(1) [OF w] by (simp add: held_def ac_simps)
  moreover have "winv False S T w" by (rule winv_drop [OF w]) simp_all
  ultimately show ?thesis by (simp add: winv_def)
qed

lemma winv_panic:
  assumes w: "winv False S (add_mset t T) w" and p: "t_msg (w_task w t) = p"
  shows "winv False S T (hp (Release p) w)"
proof (rule winv_release_opt)
  show "winv False (mset (opt_list p) + S) T w"
    by (rule winv_drop [OF winv_abandon [OF w]]) (simp_all add: task_msgs_def p)
qed

lemma winv_done:
  assumes w: "winv e S (add_mset t T) w" and p: "t_msg (w_task w t) = p"
    and sh: "e \<Longrightarrow> flowWork (w_task w t) = None \<longrightarrow> callBackFunc (w_task w t) \<noteq> None"
  shows "winv e S T (hp (Release p) (putAsyncTask t w))"
proof (cases "e \<or> flowWork (w_task w t) \<noteq> None \<or> p \<noteq> None")
  case True
  have "task_msgs (w_task w t) = mset (opt_list p)"
  proof (cases "flowWork (w_task w t) \<noteq> None \<or> p \<noteq> None")
    case True
    then show ?thesis using task_msgs_plain [OF w] p by simp
  next
    case False
    then have "callBackFunc (w_task w t) \<noteq> None" using True sh by simp
    then show ?thesis using winv_task(4) [OF w, of t] p
      by (auto simp: task_ok_def task_msgs_def split: option.split gofn.split)
  qed
  then show ?thesis by (rule winv_finish(2) [OF w])
next
  case False
  then show ?thesis using winv_putAsyncTask [OF w] by (auto simp: hp_def Release_def intro: winv_drop)
qed

lemma winv_runCallback:
  assumes env: "env_ok e env" and w: "winv e S (add_mset t T) w"
    and sh: "e \<Longrightarrow> t_actor (w_task w t) \<noteq> None \<and> (flowWork (w_task w t) = None \<longrightarrow> callBackFunc (w_task w t) \<noteq> None)"
  shows "winv e S T (runCallbackOnActor env t w)"
proof (cases "t_actor (w_task w t)")
  case None
  then show ?thesis using sh winv_putAsyncTask [OF w]
    by (cases e) (auto simp: runCallbackOnActor_def intro: winv_drop)
next
  case a: (Some a)
  let ?p = "t_msg (w_task w t)"
  have fin: "winv e S T (hp (Release ?p) (putAsyncTask t v))"
    if "winv e S (add_mset t T) v" "frame (add_mset t T) w v" for v
    using that sh by (intro winv_done [OF that(1)]) (simp_all add: frame_def)
  have pan: "winv e S T (hp (Release ?p) v)"
    if "winv e S (add_mset t T) v" "frame (add_mset t T) w v" "\<not> e" for v
    using that winv_panic [of S t T v ?p] by (simp add: frame_def)
  have call: "winv e S (add_mset t T) v' \<and> frame (add_mset t T) w v' \<and> (e \<longrightarrow> r \<noteq> None)"
    if "winv e S (add_mset t T) v" "frame (add_mset t T) w v" "arg_msgs arg = []" "e_call env f arg v = (r, v')"
    for f arg v r v'
    using env_call [OF env that(1) _ that(4)] that(2,3) by (auto intro: frame_trans)
  show ?thesis
  proof (cases "flowWork (w_task w t) = None")
    case False
    show ?thesis
    proof (cases "flowThen (w_task w t)")
      case None
      then show ?thesis using a False fin [OF w] by (simp add: runCallbackOnActor_def)
    next
      case (Some thn)
      obtain r v where r: "e_call env thn (AThen a (flowVal (w_task w t)) (flowErr (w_task w t))) w = (r, v)" by fastforce
      have v: "winv e S (add_mset t T) v" "frame (add_mset t T) w v" "e \<longrightarrow> r \<noteq> None"
        using call [OF w _ _ r] by simp_all
      show ?thesis using a False Some r v fin [OF v(1,2)] pan [OF v(1,2)]
        by (auto simp: runCallbackOnActor_def Let_def split: option.split)
    qed
  next
    case True
    obtain x v where x: "run_validators env (validators (w_task w t)) w = (x, v)" by fastforce
    have v: "winv e S (add_mset t T) v" "frame (add_mset t T) w v" "e \<longrightarrow> x \<noteq> None"
      using winv_validators [OF env w x] by auto
    have same: "w_task v t = w_task w t" using v(2) by (simp add: frame_def)
    have cb: "winv e S T (let (r, u) = e_call env cb (AVal (t_result (w_task v t))) v
        in case r of None \<Rightarrow> hp (Release ?p) u | Some _ \<Rightarrow> hp (Release ?p) (putAsyncTask t u))" for cb
    proof -
      obtain r u where r: "e_call env cb (AVal (t_result (w_task v t))) v = (r, u)" by fastforce
      note u = call [OF v(1,2) _ r]
      show ?thesis using r u fin [of u] pan [of u] by (auto split: option.split)
    qed
    have "runCallbackOnActor env t w = (case x of None \<Rightarrow> hp (Release ?p) v
        | Some False \<Rightarrow> hp (Release ?p) (putAsyncTask t v)
        | Some True \<Rightarrow> (case callBackFunc (w_task v t) of None \<Rightarrow> hp (Release ?p) v
            | Some cb \<Rightarrow> (let (r, u) = e_call env cb (AVal (t_result (w_task v t))) v
                in case r of None \<Rightarrow> hp (Release ?p) u | Some _ \<Rightarrow> hp (Release ?p) (putAsyncTask t u))))"
      using a True x by (simp add: runCallbackOnActor_def Let_def)
    then show ?thesis using v fin [OF v(1,2)] pan [OF v(1,2)] cb sh True same
      by (cases e) (auto split: option.split bool.split)
  qed
qed

section \<open>The actor's goroutine\<close>

lemma winv_upd_outside:
  assumes "winv e S T w" and "\<not> i < w_nact w"
  shows "winv e S T (upd_actor i f w)"
proof -
  have same: "w_actors (upd_actor i f w) j = w_actors w j" if "j < w_nact w" for j
    using that assms(2) by auto
  have fl: "flying (upd_actor i f w) = flying w"
    unfolding flying_def using same by (simp del: fun_upd_apply)
  have h: "held T (upd_actor i f w) = held T w"
    unfolding held_def acts_held_def fl tasks_held_def using same by (simp del: fun_upd_apply)
  have "acts_inv e (upd_actor i f w)"
    using winvD(3) [OF assms(1)] unfolding acts_inv_def fl using same by (auto simp del: fun_upd_apply)
  then show ?thesis using assms(1) unfolding winv_def h fl by (simp add: tasks_inv_def task_ok_def)
qed

lemma winv_actor_field:
  assumes "winv e S T w"
    and "\<And>x. act_queue (f x) = act_queue x" and "\<And>x. a_sender (f x) = a_sender x"
    and "\<And>x. wp_flow (a_pool (f x)) = wp_flow (a_pool x)"
  shows "winv e S T (upd_actor i f w)"
  using assms by (cases "i < w_nact w") (auto intro: winv_upd_actor_same(1) winv_upd_outside)

lemma frame_upd_actor [simp]: "frame T w (upd_actor i f w') \<longleftrightarrow> frame T w w'"
  by (simp add: frame_def)

lemma winv_Update_one:
  assumes env: "env_ok e env" and w: "winv e S T w" and i: "i < w_nact w"
    and r: "Update_one env i now name w = (r, w')"
  shows "winv e S T w' \<and> frame T w w'"
proof (cases "tickFns (w_actors w i) name")
  case None
  then show ?thesis using r w by (simp add: Update_one_def)
next
  case (Some v)
  let ?f = "\<lambda>x. x\<lparr>tickFns := (tickFns x)(name \<mapsto> v\<lparr>LastTime := sint now + Milliseconds (Interval v)\<rparr>)\<rparr>"
  define w1 where "w1 = (if Interval v > 0 then upd_actor i ?f w else w)"
  have w1: "winv e S T w1" "frame T w w1"
    using w i unfolding w1_def by (auto intro!: winv_actor_field)
  obtain x w2 where c: "e_call env (TickDo v) (ATick now) w1 = (x, w2)" by fastforce
  have "winv e S T w2" "frame T w1 w2" using env_call [OF env w1(1) _ c] by simp_all
  moreover have "Update_one env i now name w =
      (if Interval v > 0 \<and> sint now < LastTime v then (Some (), w)
       else (case x of None \<Rightarrow> None | Some _ \<Rightarrow> Some (), w2))"
    using Some c by (simp add: Update_one_def w1_def [symmetric])
  ultimately show ?thesis using r w w1(2) by (auto split: if_splits intro: frame_trans)
qed

lemma winv_Update:
  assumes env: "env_ok e env" and "winv e S T w" and "i < w_nact w"
  shows "winv e S T (Update env i now names w) \<and> frame T w (Update env i now names w)"
  using assms(2,3)
proof (induction names arbitrary: w)
  case (Cons name names)
  obtain r w1 where r: "Update_one env i now name w = (r, w1)" by fastforce
  have w1: "winv e S T w1" "frame T w w1" using winv_Update_one [OF env Cons.prems r] by simp_all
  have "winv e S T (Update env i now names w1) \<and> frame T w1 (Update env i now names w1)"
    using Cons.IH [OF w1(1) frame_nact [OF w1(2) Cons.prems(2)]] .
  then show ?case using w1 r by (auto split: option.split intro: frame_trans)
qed simp

lemma winv_registerTickFn:
  "winv e S T w \<Longrightarrow> winv e S T (registerTickFn i f w)"
  by (auto simp: registerTickFn_def split: option.split intro!: winv_actor_field)

lemma winv_msg_call:
  assumes "env_ok e env" and "winv e S T w" and "m \<in># S"
  shows "winv e S T (snd (let (r, w) = e_call env f (AMsg m) w in (r \<noteq> None, w)))"
  using env_call(1) [OF assms(1,2), of "AMsg m" f "fst (e_call env f (AMsg m) w)" "snd (e_call env f (AMsg m) w)"] assms(3)
  by (simp add: case_prod_beta)

lemma winv_via:
  assumes "env_ok e env" and "winv e S T w" and "m \<in># S" and "winv e S T (snd (own w))"
  shows "winv e S T (snd (via env ov m own w))"
  using winv_msg_call [OF assms(1-3)] assms(4) by (simp add: via_def split: option.split)

lemma winv_Dispatch:
  assumes env: "env_ok e env" and w: "winv e S T w" and m: "m \<in># S" and i: "i < w_nact w"
  shows "winv e S T (snd (Dispatch env i m w))"
proof (cases "d_handlers (a_dispatcher (w_actors w i)) (MsgId (msg_of w m))")
  case None
  then show ?thesis using w by (simp add: Dispatch_def)
next
  case (Some f)
  obtain r w1 where c: "e_call env f (AMsg m) w = (r, w1)" by fastforce
  have w1: "winv e S T w1" "frame T w w1" using env_call [OF env w _ c] m by simp_all
  have "winv e S T (SendActorReply env i m p w1)" for p
    using actor_reply.keep [OF env w1(1) frame_nact [OF w1(2) i]] by blast
  then show ?thesis using Some c w1(1) by (auto simp: Dispatch_def split: option.split)
qed

lemma winv_handleMessage:
  assumes env: "env_ok e env" and w: "winv e S T w" and m: "m \<in># S" and i: "i < w_nact w"
    and room: "refs (w_heap w) m < 2 ^ 31 - 1"
  shows "winv e S T (snd (handleMessage env i m w))"
proof -
  have "winv e S T (snd (Registry_HandleClientMessage env i m w))"
    using w winv_msg_call [OF env w m] by (simp add: Registry_HandleClientMessage_def split: option.split)
  then have "winv e S T (snd (HandleMessage env i m w))"
    using winv_Dispatch [OF env w m i] winv_via [OF env w m]
    by (simp add: HandleMessage_def HandleClientMessage_def)
  moreover have "winv e S T (snd (HandleRespMessage env i m w))"
    using winv_SetReply [OF w i m room] w by (simp add: HandleRespMessage_def)
  ultimately show ?thesis using winv_via [OF env w m] winv_SetReply [OF w i m room]
    by (simp add: handleMessage_def)
qed

lemma winv_safeExecute:
  assumes "env_ok e env" and "winv e S T w" and "i < w_nact w" and "cmd_ok e c"
  shows "winv e S T (safeExecute env i (Fn c) w)"
proof (cases "Fn c")
  case (Some f)
  obtain r w1 where r: "run_gofn env i f w = (r, w1)" by fastforce
  have "winv e S T w1" using winv_run_gofn [OF assms(1-3) _ _ r] assms(4) Some by (auto simp: cmd_ok_def)
  then show ?thesis using Some r by (simp add: safeExecute_def)
qed (simp add: safeExecute_def assms)

text \<open>Handling a command: its task is used up, its message stays with the caller.\<close>

lemma winv_SafeHandleMessage:
  assumes env: "env_ok e env"
    and w: "winv e (mset (opt_list (Msg c)) + S) (mset (opt_list (Any c)) + T) w"
    and i: "i < w_nact w" and c: "cmd_ok e c" and room: "\<And>a. Msg c = Some a \<Longrightarrow> refs (w_heap w) a < 2 ^ 31 - 1"
    and t: "\<And>t. e \<Longrightarrow> Any c = Some t \<Longrightarrow> task_shape (w_task w t)
        \<and> (flowWork (w_task w t) = None \<longrightarrow> callBackFunc (w_task w t) \<noteq> None)"
  shows "winv e (mset (opt_list (Msg c)) + S) T (SafeHandleMessage env i order c start now w)"
proof -
  let ?S = "mset (opt_list (Msg c)) + S"
  let ?w1 = "upd_actor i (\<lambda>x. x\<lparr>processingStart := start\<rparr>) w"
  have w1: "winv e ?S (mset (opt_list (Any c)) + T) ?w1" by (rule winv_actor_field [OF w]) simp_all
  have lose: "winv e ?S T v" if "winv e ?S (mset (opt_list (Any c)) + T) v" "Type c \<noteq> CmdTypeAsync \<or> Any c = None" for v
    using that c by (cases e) (auto simp: cmd_ok_def intro: winv_drop)
  have msg: "winv e ?S T (snd (handleMessage env i m ?w1))" if "Msg c = Some m" "Type c \<noteq> CmdTypeAsync" for m
    using that room i by (intro lose winv_handleMessage [OF env w1]) auto
  have async: "winv e ?S T (runCallbackOnActor env u ?w1)" if "Any c = Some u" for u
    using w1 that t by (intro winv_runCallback [OF env]) (auto simp: task_shape_def)
  define w2 where "w2 = (case Type c of
      CmdTypeTick \<Rightarrow> Update env i now order (upd_actor i (\<lambda>x. x\<lparr>tickPending := False\<rparr>) ?w1)
    | CmdTypeMsg \<Rightarrow> (case Msg c of Some m \<Rightarrow> snd (handleMessage env i m ?w1) | None \<Rightarrow> ?w1)
    | CmdTypeClient \<Rightarrow> (case Msg c of Some m \<Rightarrow> snd (handleMessage env i m ?w1) | None \<Rightarrow> ?w1)
    | CmdTypeSafeFn \<Rightarrow> safeExecute env i (Fn c) ?w1
    | CmdTypeTickFn \<Rightarrow> registerTickFn i (TickFn c) ?w1
    | CmdTypeAsync \<Rightarrow> (case Any c of Some t \<Rightarrow> runCallbackOnActor env t ?w1 | None \<Rightarrow> ?w1)
    | CmdOther _ \<Rightarrow> ?w1)"
  have i1: "i < w_nact ?w1" using i by simp
  have upd: "winv e ?S (mset (opt_list (Any c)) + T)
      (Update env i now order (upd_actor i (\<lambda>x. x\<lparr>tickPending := False\<rparr>) ?w1))"
    using i by (intro winv_Update [OF env, THEN conjunct1] winv_actor_field [OF w1]) simp_all
  have w2: "winv e ?S T w2"
    unfolding w2_def
    using msg async lose [OF w1] lose [OF upd] lose [OF winv_safeExecute [OF env w1 i1 c]]
      lose [OF winv_registerTickFn [OF w1]]
    by (auto split: CmdType.split option.split)
  have eq: "SafeHandleMessage env i order c start now w = upd_actor i (\<lambda>x. x\<lparr>processingStart := 0\<rparr>) w2"
    by (simp add: SafeHandleMessage_def w2_def Let_def)
  show ?thesis unfolding eq by (intro winv_actor_field [OF w2]) simp_all
qed

lemma winv_Run_dequeue:
  assumes w: "winv e S T w" and b: "a_batch (w_actors w i) = []"
  shows "winv e S T (snd (Run_dequeue ex i n w))"
proof -
  let ?f = "\<lambda>x. x\<lparr>mailBoxQueue := drop n (mailBoxQueue x), a_batch := take n (mailBoxQueue (w_actors w i))\<rparr>"
  have "winv e S T (upd_actor i ?f w)"
  proof (cases "i < w_nact w")
    case True
    then show ?thesis using b by (intro winv_upd_actor_same(1) [OF w]) (simp_all add: act_queue_def)
  qed (rule winv_upd_outside [OF w])
  moreover from this have "winv e S T (upd_actor i (\<lambda>x. x\<lparr>mailCount := 0\<rparr>) (upd_actor i ?f w))"
    by (rule winv_actor_field) simp_all
  ultimately show ?thesis by (simp add: Run_dequeue_def Let_def)
qed

text \<open>Taking the next command out of the batch.\<close>

lemma winv_take:
  assumes w: "winv e S T w" and i: "i < w_nact w" and b: "a_batch (w_actors w i) = c # rest"
  shows "winv e (mset (opt_list (Msg c)) + S) (mset (opt_list (Any c)) + T) (upd_actor i (\<lambda>x. x\<lparr>a_batch := rest\<rparr>) w)"
    and "cmd_ok e c"
    and "e \<Longrightarrow> Any c = Some t \<Longrightarrow> task_shape (w_task w t)
        \<and> (flowWork (w_task w t) = None \<longrightarrow> callBackFunc (w_task w t) \<noteq> None)"
proof -
  let ?f = "\<lambda>x. x\<lparr>a_batch := rest\<rparr>"
  let ?v = "upd_actor i ?f w"
  have q: "act_queue (w_actors w i) = c # act_queue (?f (w_actors w i))" by (simp add: act_queue_def b)
  note acts = winvD(3) [OF w, unfolded acts_inv_def]
  show c: "cmd_ok e c" using acts i q by simp
  show "task_shape (w_task w t) \<and> (flowWork (w_task w t) = None \<longrightarrow> callBackFunc (w_task w t) \<noteq> None)"
    if e "Any c = Some t" for t
  proof -
    have "t \<in> set (queue_tasks (act_queue (w_actors w i)))" using q that(2) by simp
    then show ?thesis using acts i that(1) mailbox_flying [OF i] by blast
  qed
  have ah: "acts_held w = mset (opt_list (Msg c)) + acts_held ?v"
    using acts_held_upd_actor [OF i, of ?f] unfolding act_msgs_def q by (simp add: ac_simps)
  have fl: "flying w = mset (opt_list (Any c)) + flying ?v"
    using flying_upd_actor [OF i, of ?f] unfolding q by (simp add: ac_simps)
  have eq: "mset (opt_list (Msg c)) + S + held (mset (opt_list (Any c)) + T) ?v = S + held T w"
    by (simp add: held_def ah fl tasks_held_def ac_simps)
  have "refs_inv e (mset (opt_list (Msg c)) + S + held (mset (opt_list (Any c)) + T) ?v) (w_heap w)"
    unfolding eq by (rule winvD(1) [OF w])
  moreover have "tasks_inv e (mset (opt_list (Any c)) + T + mset (w_tpool w) + flying ?v) ?v"
    using winvD(2) [OF w] by (simp add: fl tasks_inv_def task_ok_def ac_simps)
  moreover have "acts_inv e ?v"
  proof -
    have sub: "set (act_queue (w_actors ?v j)) \<subseteq> set (act_queue (w_actors w j))"
      "set (queue_tasks (act_queue (w_actors ?v j))) \<subseteq> set (queue_tasks (act_queue (w_actors w j)))"
      "a_sender (w_actors ?v j) = a_sender (w_actors w j)" "a_pool (w_actors ?v j) = a_pool (w_actors w j)" for j
      using q by (auto simp: act_queue_def)
    have "t \<in># flying w" if "t \<in># flying ?v" for t using that fl by simp
    then show ?thesis using acts sub unfolding acts_inv_def
      by (simp del: fun_upd_apply world_simps(23) add: subset_iff)
  qed
  ultimately show "winv e (mset (opt_list (Msg c)) + S) (mset (opt_list (Any c)) + T) ?v"
    by (simp add: winv_def)
qed

lemma winv_Run_one:
  assumes env: "env_ok e env" and w: "winv e S T w" and i: "i < w_nact w"
    and room: "\<And>c a. c \<in> set (a_batch (w_actors w i)) \<Longrightarrow> Msg c = Some a \<Longrightarrow> refs (w_heap w) a < 2 ^ 31 - 1"
  shows "winv e S T (Run_one env i order start now w)"
proof (cases "a_batch (w_actors w i)")
  case Nil
  then show ?thesis using w by (simp add: Run_one_def)
next
  case (Cons c rest)
  note tk = winv_take [OF w i Cons]
  let ?w1 = "upd_actor i (\<lambda>x. x\<lparr>a_batch := rest\<rparr>) w"
  let ?w2 = "SafeHandleMessage env i order c start now ?w1"
  have "winv e (mset (opt_list (Msg c)) + S) T ?w2"
    using tk(2,3) i room [of c] Cons by (intro winv_SafeHandleMessage [OF env tk(1)]) auto
  from winv_release_opt [OF this]
  show ?thesis using Cons
    by (cases "Msg c") (simp_all add: Run_one_def Let_def ActorCmd_Release_def hp_def Release_def)
qed

end
