(* ===== verification/ZExec.thy ===== *)
theory ZExec
  imports ZRefsRun
begin

text \<open>
  Executions of a process: every interleaving of the operations of the actor layer, at the
  granularity of the operations (the RPC call is split where it waits). The properties of the
  whole process are stated here: no message is recycled while it is held, and without faults
  nothing leaks.
\<close>

section \<open>The sender's references\<close>

lemma AddSender_loop_balanced:
  "sender_ok m \<Longrightarrow> AddSender_loop now start k i m = (r, m') \<Longrightarrow> sender_ok m' \<and> chan_msgs m' = chan_msgs m"
proof (induction now start k i m rule: AddSender_loop.induct)
  case (2 now start k i m)
  let ?idx = "(start + i) AND indexMask m"
  have len: "unat ?idx < length (slots m)" by (rule sender_ok_idx [OF 2(3)])
  have upd: "sender_ok (upd_slot ?idx f m) \<and> chan_msgs (upd_slot ?idx f m) = chan_msgs m"
    if "slot_state (slot_at m ?idx) = SlotFree" "ch (f (slot_at m ?idx)) = ch (slot_at m ?idx)" for f
    using sender_ok_slot [OF 2(3), of "start + i"] that
    by (intro conjI upd_sender_ok [OF 2(3)] chan_keep [OF len])
      (auto simp: slot_ok_def slot_msgs_def split: option.splits)
  show ?case
  proof (cases "slot_state (slot_at m ?idx) = SlotFree")
    case True
    show ?thesis using 2(1) [OF refl True refl refl refl refl refl] 2(4) len True upd [OF True]
      by (auto simp: Let_def split: if_splits)
  next
    case False
    then show ?thesis using 2(2) [OF refl False 2(3)] 2(4) by (simp add: Let_def)
  qed
qed simp

lemma AddSender_balanced:
  assumes "sender_ok m" and "AddSender now m = (r, m')"
  shows "sender_ok m' \<and> chan_msgs m' = chan_msgs m"
proof -
  have "sender_ok (m\<lparr>cursor := c\<rparr>)" "chan_msgs (m\<lparr>cursor := c\<rparr>) = chan_msgs m" for c
    using assms(1) by (simp_all add: sender_ok_def pool_shape_def chan_msgs_def)
  then show ?thesis using AddSender_loop_balanced assms(2) unfolding AddSender_def Let_def by metis
qed

text \<open>What an operation on the channels releases or hands to its caller, it takes out of them.\<close>

lemma take_balanced:
  assumes ok: "sender_ok m" and b: "ch (slot_at m (rid AND indexMask m)) = Some (a # rest)"
  shows "chan_msgs m = add_mset a (chan_msgs (upd_slot (rid AND indexMask m) (\<lambda>s. s\<lparr>ch := Some rest\<rparr>) m))"
    and "chan_msgs m = add_mset a (chan_msgs (reply_success (rid AND indexMask m)
          (upd_slot (rid AND indexMask m) (\<lambda>s. s\<lparr>ch := Some rest\<rparr>) m)))"
proof -
  let ?idx = "rid AND indexMask m"
  let ?m = "upd_slot ?idx (\<lambda>s. s\<lparr>ch := Some rest\<rparr>) m"
  have len: "unat ?idx < length (slots m)" by (rule sender_ok_idx [OF ok])
  show t: "chan_msgs m = add_mset a (chan_msgs ?m)"
    by (rule chan_take [OF len]) (simp_all add: slot_msgs_def b)
  have "chan_msgs (reply_success ?idx ?m) = chan_msgs ?m"
    unfolding reply_success_def using len by (intro chan_keep) simp_all
  then show "chan_msgs m = add_mset a (chan_msgs (reply_success ?idx ?m))" using t by simp
qed

lemma abandon_chan:
  assumes "sender_ok m"
  shows "chan_msgs (abandon now (rid AND indexMask m) m) = chan_msgs m"
  using sender_ok_idx [OF assms, of rid] by (auto simp: abandon_def intro!: chan_keep)

definition reply_refs :: "reply_result \<Rightarrow> mref multiset" where
  "reply_refs r = (case r of Returned (Some a) \<Rightarrow> {#a#} | _ \<Rightarrow> {#})"

lemma GetReply_enter_balanced:
  assumes ok: "sender_ok m" and inv: "refs_inv e (R + chan_msgs m) h"
    and r: "GetReply_enter d now rid tmo (m, h) = (rr, m', h')"
  shows "refs_inv e (reply_refs rr + (R + chan_msgs m')) h'"
proof -
  let ?idx = "rid AND indexMask m"
  have keep: "chan_msgs (upd_slot ?idx (\<lambda>s. s\<lparr>slot_state := st\<rparr>) m) = chan_msgs m" for st
    using sender_ok_idx [OF ok, of rid] by (intro chan_keep) simp_all
  note tk = take_balanced [OF ok, of rid]
  show ?thesis using r inv abandon_chan [OF ok] keep tk
    by (auto simp: GetReply_enter_def Let_def reply_refs_def split: if_splits option.splits list.splits
        intro: refs_inv_Release)
qed

lemma GetReply_wake_balanced:
  assumes ok: "sender_ok m" and inv: "refs_inv e (R + chan_msgs m) h"
    and r: "GetReply_wake now rid ev (m, h) = (rr, m', h')"
  shows "refs_inv e (reply_refs rr + (R + chan_msgs m')) h'"
  using r inv abandon_chan [OF ok] take_balanced [OF ok, of rid]
  by (auto simp: GetReply_wake_def Let_def reply_refs_def
      split: if_splits option.splits list.splits wake_event.splits intro: refs_inv_Release)

lemma checkSlot_balanced:
  assumes ok: "sender_ok m" and i: "i < length (slots m)" and inv: "refs_inv e (R + chan_msgs m) h"
    and r: "checkSlot now (word_of_nat i) (m, h) = (m', h')"
  shows "sender_ok m' \<and> length (slots m') = length (slots m) \<and> refs_inv e (R + chan_msgs m') h'"
proof -
  let ?idx = "word_of_nat i :: u64"
  let ?s = "slot_at m ?idx"
  have len: "unat ?idx < length (slots m)" using index_word(2) [OF ok i] i by simp
  obtain rid where rid: "?idx = rid AND indexMask m" using index_word(1) [OF ok i] by blast
  have sok: "slot_ok ?s" using sender_ok_slot [OF ok, of rid] rid by simp
  have "sender_ok (upd_slot ?idx recycled m)"
    using sok by (intro upd_sender_ok [OF ok]) (auto simp: slot_ok_def recycled_def tl_short split: option.splits)
  moreover have "refs_inv e (R + chan_msgs (upd_slot ?idx recycled m)) (snd (recycleSlot ?idx (m, h)))"
  proof (cases "slot_msgs ?s")
    case Nil
    then have "chan_msgs (upd_slot ?idx recycled m) = chan_msgs m"
      by (intro chan_keep [OF len]) (auto simp: slot_msgs_def recycled_def split: option.splits)
    moreover have "snd (recycleSlot ?idx (m, h)) = h"
      using Nil len by (auto simp: recycleSlot_def Let_def slot_msgs_def split: option.splits list.splits)
    ultimately show ?thesis using inv by simp
  next
    case (Cons a rest)
    then have "chan_msgs m = add_mset a (chan_msgs (upd_slot ?idx recycled m))"
      by (intro chan_take [OF len Cons]) (auto simp: slot_msgs_def recycled_def split: option.splits)
    moreover have "snd (recycleSlot ?idx (m, h)) = Release (Some a) h"
      using Cons len by (auto simp: recycleSlot_def Let_def slot_msgs_def split: option.splits list.splits)
    ultimately show ?thesis using refs_inv_Release [OF inv, of a "R + chan_msgs (upd_slot ?idx recycled m)"]
      by simp
  qed
  moreover have "checkSlot now ?idx (m, h) = (m, h) \<or> checkSlot now ?idx (m, h) = recycleSlot ?idx (m, h)"
    by (simp add: checkSlot_def Let_def)
  then have "m' = m \<and> h' = h \<or> m' = upd_slot ?idx recycled m \<and> h' = snd (recycleSlot ?idx (m, h))"
    using recycleSlot_eq [OF len, of h] r by (metis fst_conv snd_conv)
  ultimately show ?thesis using ok inv by auto
qed

lemma watchdog_balanced:
  assumes "sender_ok m" and "refs_inv e (R + chan_msgs m) h"
    and r: "watchdog_tick now sh (m, h) = (sh', m', h')"
  shows "sender_ok m' \<and> refs_inv e (R + chan_msgs m') h'"
proof -
  obtain ns where ns: "snd (watchdog_tick now sh (m, h)) = fold (\<lambda>i mh. checkSlot now (word_of_nat i) mh) ns (m, h)"
    "\<forall>i \<in> set ns. i < length (slots m)"
    using watchdog_tick_fold [OF assms(1)] by blast
  have "sender_ok (fst (fold (\<lambda>i mh. checkSlot now (word_of_nat i) mh) ns (m, h)))
      \<and> refs_inv e (R + chan_msgs (fst (fold (\<lambda>i mh. checkSlot now (word_of_nat i) mh) ns (m, h))))
          (snd (fold (\<lambda>i mh. checkSlot now (word_of_nat i) mh) ns (m, h)))"
    using assms(1,2) ns(2)
  proof (induction ns arbitrary: m h)
    case (Cons i ns)
    obtain m1 h1 where c: "checkSlot now (word_of_nat i) (m, h) = (m1, h1)" by fastforce
    have "sender_ok m1 \<and> length (slots m1) = length (slots m) \<and> refs_inv e (R + chan_msgs m1) h1"
      using Cons.prems(3) by (intro checkSlot_balanced [OF Cons.prems(1) _ Cons.prems(2) c]) simp
    then show ?case using Cons.IH [of m1 h1] Cons.prems(3) by (simp add: c)
  qed simp
  moreover have "fold (\<lambda>i mh. checkSlot now (word_of_nat i) mh) ns (m, h) = (m', h')" using ns(1) r by simp
  ultimately show ?thesis by simp
qed

section \<open>RPC calls\<close>

definition call_refs :: "call_state \<Rightarrow> mref multiset" where
  "call_refs c = (case c of CallDone _ \<Rightarrow> {#} | CallWaiting pc \<Rightarrow> {#pc_msg pc#}
     | CallReplied pc d \<Rightarrow> add_mset (pc_msg pc) (mset (opt_list d)))"

lemma call_refs_result: "call_refs (of_reply_result pc rr) = add_mset (pc_msg pc) (reply_refs rr)"
  by (auto simp: call_refs_def of_reply_result_def reply_refs_def split: reply_result.split option.split)

lemma winv_breaker:
  assumes "winv e S T w"
  shows "winv e S T (snd (getCircuitBreaker i tar w))" and "winv e S T (set_breaker i tar cb w)"
    and "w_nact (snd (getCircuitBreaker i tar w)) = w_nact w" and "w_nact (set_breaker i tar cb w) = w_nact w"
    and "w_heap (snd (getCircuitBreaker i tar w)) = w_heap w" and "w_heap (set_breaker i tar cb w) = w_heap w"
  using assms
  by (auto simp: getCircuitBreaker_def set_breaker_def split: option.split intro!: winv_actor_field)

lemma winv_AddSender:
  assumes w: "winv e S T w" and i: "i < w_nact w" and a: "AddSender now (a_sender (w_actors w i)) = (r, s)"
  shows "winv e S T (upd_actor i (\<lambda>x. x\<lparr>a_sender := s\<rparr>) w)"
proof -
  have ok: "sender_ok s" "chan_msgs s = chan_msgs (a_sender (w_actors w i))"
    using AddSender_balanced [OF winv_sender [OF w i] a] by simp_all
  have "winv e ({#} + S) T (upd_actor i (\<lambda>x. x\<lparr>a_sender := s\<rparr>) (w\<lparr>w_heap := w_heap w\<rparr>))"
    using ok by (intro winv_sender_op [OF w i]) simp_all
  then show ?thesis by simp
qed

lemma winv_GetReply:
  assumes w: "winv e S T w" and i: "i < w_nact w"
    and r: "GetReply_enter d now rid tmo (a_sender (w_actors w i), w_heap w) = (rr, s, h)
      \<or> GetReply_wake now rid ev (a_sender (w_actors w i), w_heap w) = (rr, s, h)"
  shows "winv e (reply_refs rr + S) T (upd_actor i (\<lambda>x. x\<lparr>a_sender := s\<rparr>) (w\<lparr>w_heap := h\<rparr>))"
proof (rule winv_sender_op [OF w i])
  note ok = winv_sender [OF w i]
  show "sender_ok s"
    using GetReply_enter_evolves [OF ok] GetReply_wake_evolves [OF ok] r by (metis fst_conv snd_conv)
  show "refs_inv e (reply_refs rr + (rest + chan_msgs s)) h"
    if "refs_inv e (rest + chan_msgs (a_sender (w_actors w i))) (w_heap w)" for rest
    using GetReply_enter_balanced [OF ok that] GetReply_wake_balanced [OF ok that] r by blast
qed

lemma winv_CallActor_begin:
  assumes env: "env_ok e env" and w: "winv e S T w" and i: "i < w_nact w"
    and r: "CallActor_begin env now d i tar req tmo w = (c, w')"
  shows "winv e (call_refs c + S) T w'"
proof -
  obtain cb w1 where g: "getCircuitBreaker i tar w = (cb, w1)" by fastforce
  obtain ok cb' where al: "allow now cb = (ok, cb')" by fastforce
  define w2 where "w2 = set_breaker i tar cb' w1"
  have w2: "winv e S T w2" "w_nact w2 = w_nact w"
    using winv_breaker [OF w, of i tar] winv_breaker(2,4) g by (auto simp: w2_def)
  obtain m w3 where n: "newMsg env w2 = (m, w3)" by fastforce
  obtain ok' w4 where mm: "MarshalVTToMsg req m w3 = (ok', w4)" by fastforce
  note w4 = winv_fresh [OF w2(1) env n mm]
  have i4: "i < w_nact w4" using w4(4) w2(2) i by simp
  obtain ar s where ad: "AddSender now (a_sender (w_actors w4 i)) = (ar, s)" by fastforce
  define w5 where "w5 = upd_actor i (\<lambda>x. x\<lparr>a_sender := s\<rparr>) w4"
  have w5: "winv e (add_mset m S) T w5" unfolding w5_def by (rule winv_AddSender [OF w4(1) i4 ad])
  have early: ?thesis if "\<not> ok \<or> \<not> ok' \<or> (\<exists>x. ar = Inl x)"
  proof -
    have "c = CallDone x \<Longrightarrow> call_refs c = {#}" for x by (simp add: call_refs_def)
    then show ?thesis
      using r that w2(1) w4(8) winv_release [OF w5]
      unfolding CallActor_begin_def g al n mm ad w2_def [symmetric] w5_def [symmetric] Let_def prod.case
      by (auto simp: ad w5_def [symmetric] split: if_splits)
  qed
  show ?thesis
  proof (cases "\<not> ok \<or> \<not> ok' \<or> (\<exists>x. ar = Inl x)")
    case True
    then show ?thesis by (rule early)
  next
    case False
    then obtain rid where rid: "ok" "ok'" "ar = Inr rid" by (cases ar) auto
    define w6 where "w6 = set_msg m (\<lambda>x. x\<lparr>MsgId := GetMsgId req, TarActor := tar,
                                        SrcActor := actorId w5 i, RpcId := rid\<rparr>) w5"
    define w7 where "w7 = stamp_trace env i m w6"
    define w8 where "w8 = SendMsg env i m (retain m w7)"
    have w6: "winv e (add_mset m S) T w6" unfolding w6_def by (rule winv_set_msg [OF w5]) simp_all
    have m: "m \<in># add_mset m S" by simp
    note w7 = stamp_trace_ok [OF w6 m env, of i, folded w7_def]
    have r7: "refs (w_heap w7) m = 1" "w_nact w7 = w_nact w4"
      using w7(2,4) w4(2) by (simp_all add: w6_def w5_def set_msg_def)
    have wr: "winv e (add_mset m (add_mset m S)) T (retain m w7)"
      using r7(1) by (intro winv_retain [OF w7(1)]) simp_all
    have "refs (w_heap (retain m w7)) m = 2" using refs_Retain [of "w_heap w7" m m] r7(1) by simp
    then have w8: "winv e (add_mset m S) T w8" "frame T (retain m w7) w8"
      using winv_SendMsg [OF wr _ env, of i] i4 r7(2) by (simp_all add: w8_def)
    have i8: "i < w_nact w8" using frame_nact [OF w8(2), of i] i4 r7(2) by simp
    obtain rr s' h' where gr: "GetReply_enter d now rid tmo (a_sender (w_actors w8 i), w_heap w8) = (rr, s', h')"
      by (metis prod_cases3)
    have "c = of_reply_result \<lparr>pc_target = tar, pc_rpcId = rid, pc_msg = m\<rparr> rr"
      "w' = upd_actor i (\<lambda>x. x\<lparr>a_sender := s'\<rparr>) (w8\<lparr>w_heap := h'\<rparr>)"
      using r rid unfolding CallActor_begin_def g al n mm ad w2_def [symmetric] Let_def prod.case
      by (simp_all add: ad w5_def [symmetric] w6_def [symmetric] w7_def [symmetric] w8_def [symmetric] gr)
    then show ?thesis using winv_GetReply [OF w8(1) i8 disjI1 [OF gr]] by (simp add: call_refs_result)
  qed
qed

lemma winv_CallActor_wait:
  assumes w: "winv e (add_mset (pc_msg pc) S) T w" and i: "i < w_nact w"
    and r: "CallActor_wait now i ev pc w = (c, w')"
  shows "winv e (call_refs c + S) T w'"
proof -
  obtain rr s h where g: "GetReply_wake now (pc_rpcId pc) ev (a_sender (w_actors w i), w_heap w) = (rr, s, h)"
    by (metis prod_cases3)
  then have "c = of_reply_result pc rr" "w' = upd_actor i (\<lambda>x. x\<lparr>a_sender := s\<rparr>) (w\<lparr>w_heap := h\<rparr>)"
    using r by (simp_all add: CallActor_wait_def)
  then show ?thesis using winv_GetReply [OF w i disjI2 [OF g]] by (simp add: call_refs_result)
qed

lemma winv_CallActor_finish:
  assumes w: "winv e (add_mset (pc_msg pc) (mset (opt_list d)) + S) T w"
  shows "winv e S T (snd (CallActor_finish now i pc d reply w))"
proof -
  let ?g = "getCircuitBreaker i (pc_target pc) w"
  have g: "winv e (add_mset (pc_msg pc) (mset (opt_list d)) + S) T (set_breaker i tar cb (snd ?g))" for tar cb
    by (intro winv_breaker(2) winv_breaker(1) w)
  show ?thesis
  proof (cases d)
    case None
    then show ?thesis using g by (simp add: CallActor_finish_def case_prod_beta winv_release)
  next
    case (Some a)
    have "winv e (add_mset a (add_mset (pc_msg pc) S)) T (set_breaker i tar cb (snd ?g))" for tar cb
      using g Some by (simp add: add_mset_commute)
    then show ?thesis using Some
      by (simp add: CallActor_finish_def case_prod_beta Let_def winv_release)
  qed
qed

lemma winv_rpc_watchdog:
  assumes w: "winv e S T w" and i: "i < w_nact w"
    and r: "watchdog_tick now sh (a_sender (w_actors w i), w_heap w) = (sh', s, h)"
  shows "winv e S T (upd_actor i (\<lambda>x. x\<lparr>a_sender := s\<rparr>) (w\<lparr>w_heap := h\<rparr>))"
proof -
  obtain rest where "held T w = rest + act_msgs (w_actors w i)" using held_split [OF i] by blast
  then have "refs_inv e (S + rest + mset (queue_msgs (act_queue (w_actors w i)))
      + chan_msgs (a_sender (w_actors w i))) (w_heap w)"
    using winvD(1) [OF w] by (simp add: act_msgs_def ac_simps)
  note b = watchdog_balanced [OF winv_sender [OF w i] _ r]
  have "sender_ok s" using b [OF \<open>refs_inv e _ (w_heap w)\<close>] by simp
  then have "winv e ({#} + S) T (upd_actor i (\<lambda>x. x\<lparr>a_sender := s\<rparr>) (w\<lparr>w_heap := h\<rparr>))"
    using b by (intro winv_sender_op [OF w i]) auto
  then show ?thesis by simp
qed

section \<open>Ticks and hot updates\<close>

lemma winv_Push_plain:
  assumes env: "env_ok e env" and w: "winv e S T w" and i: "i < w_nact w" and c: "cmd_ok e c"
    and "Msg c = None" and "Any c = None"
  shows "winv e S T (Push env i c w) \<and> frame T w (Push env i c w)"
  using assms by (intro conjI winv_Push [OF env] frame_Push [OF env w]) auto

lemma winv_tick_one:
  assumes env: "env_ok e env" and w: "winv e S T w" and i: "i < w_nact w"
  shows "winv e S T (tick_one env now i w) \<and> frame T w (tick_one env now i w)"
proof -
  let ?w = "upd_actor i (\<lambda>x. x\<lparr>tickPending := True\<rparr>) w"
  have "winv e S T ?w" by (rule winv_actor_field [OF w]) simp_all
  from winv_Push_plain [OF env this, of i "cmd_zero\<lparr>Type := CmdTypeTick, TickNow := sint now\<rparr>"] i
  show ?thesis using w
    by (auto simp: tick_one_def MarkTickPending_def cmd_ok_def cmd_zero_def frame_def)
qed

lemma winv_tick:
  assumes env: "env_ok e env" and w: "winv e S T w" and o: "ranges order (actors (w_group w))"
  shows "winv e S T (tick env now order w)"
proof -
  have lt: "IActor it < w_nact w" if "(k, it) \<in> set (items order (actors (w_group w)))" for k it
    using that o winvD(3) [OF w] unfolding items_def ranges_def acts_inv_def by fastforce
  show ?thesis
  proof (cases "items order (actors (w_group w))")
    case Nil
    then show ?thesis using w by (simp add: tick_def)
  next
    case (Cons x xs)
    then have n: "w_nact w - 1 < w_nact w" using lt [of "fst x" "snd x"] by simp
    have "winv e S T (tick_one env now (IActor it) v) \<and> frame T v (tick_one env now (IActor it) v)"
      if "(k, it) \<in> set (items order (actors (w_group w)))" "winv e S T v" "w_nact w - 1 < w_nact v" for k it v
      using winv_tick_one [OF env that(2)] lt [OF that(1)] that(3) by simp
    then show ?thesis unfolding tick_def
      by (intro winv_fold [of _ e S T "w_nact w - 1", THEN conjunct1] w n) auto
  qed
qed

lemma winv_safeUpdate:
  assumes "env_ok e env" and "winv e S T w" and "i < w_nact w"
    and "\<And>a cfg. f \<noteq> SendRemote a cfg" and "\<And>n. e \<Longrightarrow> f \<noteq> RebuildPool n"
  shows "winv e S T (safeUpdate env i (Some f) w)"
  using winv_Push_plain [OF assms(1-3), of "cmd_zero\<lparr>Type := CmdTypeSafeFn, Fn := Some f\<rparr>"] assms(4,5)
  by (simp add: safeUpdate_def cmd_ok_def cmd_zero_def)

section \<open>Executions\<close>

text \<open>RPC calls in progress, each on a goroutine of its own.\<close>

type_synonym calls = "(aref \<times> call_state) list"

definition calls_held :: "calls \<Rightarrow> mref multiset" where
  "calls_held cs = (\<Sum>(i, c)\<leftarrow>cs. call_refs c)"

definition add_call :: "aref \<Rightarrow> call_state \<Rightarrow> calls \<Rightarrow> calls" where
  "add_call i c cs = (case c of CallDone _ \<Rightarrow> cs | _ \<Rightarrow> (i, c) # cs)"

lemma calls_held_simps [simp]:
  "calls_held [] = {#}" "calls_held ((i, c) # cs) = call_refs c + calls_held cs"
  "calls_held (xs @ ys) = calls_held xs + calls_held ys"
  "calls_held (add_call i c cs) = call_refs c + calls_held cs"
  by (simp_all add: calls_held_def add_call_def call_refs_def split: call_state.split)

text \<open>A message that a goroutine holds can still be retained.\<close>

definition usable :: "calls \<Rightarrow> world \<Rightarrow> mref \<Rightarrow> bool" where
  "usable cs w a \<longleftrightarrow> a \<in># calls_held cs + held {#} w \<and> refs (w_heap w) a < 2 ^ 31 - 1"

text \<open>The steps, on any actor and with any arguments; \<open>e\<close> excludes the hot update that rebuilds
  the worker pool (which loses tasks). The mailbox is dequeued when the last batch is finished. No
  counter is near \<open>2^31\<close>.\<close>

inductive exec_step :: "bool \<Rightarrow> env \<Rightarrow> calls \<times> world \<Rightarrow> calls \<times> world \<Rightarrow> bool" for e env where
  send: "i < w_nact w \<Longrightarrow> exec_step e env (cs, w) (cs, SendActor env i tar msg w)"
| reply: "i < w_nact w \<Longrightarrow> exec_step e env (cs, w) (cs, SendActorReply env i req r w)"
| user: "i < w_nact w \<Longrightarrow> exec_step e env (cs, w) (cs, SendToClientByUserId env i tar uid msg w)"
| client: "i < w_nact w \<Longrightarrow> exec_step e env (cs, w) (cs, SendToClient env i req msg w)"
| batch: "i < w_nact w \<Longrightarrow> exec_step e env (cs, w) (cs, BatchSendToClients env i orig rcpts msg w)"
| receive: "i < w_nact w \<Longrightarrow> exec_step e env (cs, w) (cs, receiveRemote env i dat w)"
| broadcast: "i < w_nact w \<Longrightarrow> set (e_listeners env topic) \<subseteq> {..<w_nact w} \<Longrightarrow>
    length (e_listeners env topic) < 2 ^ 31 - 2 \<Longrightarrow>
    exec_step e env (cs, w) (cs, snd (Broadcast env i topic msg w))"
| async: "i < w_nact w \<Longrightarrow> exec_step e env (cs, w) (cs, snd (AsyncRunResult env i (UserFn f) cb vs w))"
| async_msg: "i < w_nact w \<Longrightarrow> usable cs w a \<Longrightarrow>
    exec_step e env (cs, w) (cs, snd (AsyncRunWithMsgResult env i a f cb vs w))"
| async_then: "(\<And>j. b = Some j \<Longrightarrow> j < w_nact w) \<Longrightarrow> (\<And>a. p = Some a \<Longrightarrow> usable cs w a) \<Longrightarrow>
    exec_step e env (cs, w) (cs, snd (StartAsyncThen env b p wk thn w))"
| worker: "w_submitted w = xs @ (fl, t) # ys \<Longrightarrow>
    exec_step e env (cs, w) (cs, worker_run env fl t (w\<lparr>w_submitted := xs @ ys\<rparr>))"
| dequeue: "a_batch (w_actors w i) = [] \<Longrightarrow> exec_step e env (cs, w) (cs, snd (Run_dequeue ex i n w))"
| run: "i < w_nact w \<Longrightarrow>
    (\<And>c a. c \<in> set (a_batch (w_actors w i)) \<Longrightarrow> Msg c = Some a \<Longrightarrow> refs (w_heap w) a < 2 ^ 31 - 1) \<Longrightarrow>
    exec_step e env (cs, w) (cs, Run_one env i order start now w)"
| tick: "ranges order (actors (w_group w)) \<Longrightarrow> exec_step e env (cs, w) (cs, tick env now order w)"
| tick_fn: "i < w_nact w \<Longrightarrow> exec_step e env (cs, w) (cs, RegisterTickFn env i name ivl f w)"
| pool_size: "i < w_nact w \<Longrightarrow> exec_step e env (cs, w) (cs, UpdateWorkerPoolSize env i k w)"
| rate: "i < w_nact w \<Longrightarrow> exec_step e env (cs, w) (cs, UpdateRateLimit env i r b w)"
| max_rpc: "i < w_nact w \<Longrightarrow> exec_step e env (cs, w) (cs, UpdateMaxRPCPending env i m w)"
| rebuild: "\<not> e \<Longrightarrow> i < w_nact w \<Longrightarrow> exec_step e env (cs, w) (cs, RebuildWorkerPool env i k w)"
| call: "i < w_nact w \<Longrightarrow> CallActor_begin env now d i tar req tmo w = (c, w') \<Longrightarrow>
    exec_step e env (cs, w) (add_call i c cs, w')"
| wake: "i < w_nact w \<Longrightarrow> CallActor_wait now i ev pc w = (c, w') \<Longrightarrow>
    exec_step e env (xs @ (i, CallWaiting pc) # ys, w) (add_call i c (xs @ ys), w')"
| finish: "exec_step e env (xs @ (i, CallReplied pc d) # ys, w)
    (xs @ ys, snd (CallActor_finish now i pc d rp w))"
| rpc_watchdog: "i < w_nact w \<Longrightarrow>
    watchdog_tick now sh (a_sender (w_actors w i), w_heap w) = (sh', s, h) \<Longrightarrow>
    exec_step e env (cs, w) (cs, upd_actor i (\<lambda>x. x\<lparr>a_sender := s\<rparr>) (w\<lparr>w_heap := h\<rparr>))"
| close: "exec_step e env (cs, w) (cs, Close i w)"
| business: "exec_step e env (cs, w) (cs, snd (e_call env f ANone w))"
| group: "(\<And>k it. actors g k = Some it \<Longrightarrow> IActor it < w_nact w) \<Longrightarrow>
    exec_step e env (cs, w) (cs, w\<lparr>w_group := g\<rparr>)"

text \<open>A process that has created and initialised its actors.\<close>

definition fresh_actor :: "Actor \<Rightarrow> bool" where
  "fresh_actor x \<longleftrightarrow> a_batch x = [] \<and> mailBoxQueue x = [] \<and> wp_flow (a_pool x)
     \<and> (\<exists>n. NewSenderWithObserver n = Inr (a_sender x))"

definition booted :: "world \<Rightarrow> bool" where
  "booted w \<longleftrightarrow> w_heap w = empty_heap \<and> w_tpool w = [] \<and> w_tnext w = 0 \<and> w_submitted w = []
     \<and> (\<forall>i < w_nact w. fresh_actor (w_actors w i))
     \<and> (\<forall>k it. actors (w_group w) k = Some it \<longrightarrow> IActor it < w_nact w)"

inductive exec_reach :: "bool \<Rightarrow> env \<Rightarrow> calls \<times> world \<Rightarrow> bool" for e env where
  start: "booted w \<Longrightarrow> exec_reach e env ([], w)"
| step: "exec_reach e env st \<Longrightarrow> exec_step e env st st' \<Longrightarrow> exec_reach e env st'"

section \<open>The invariant in every execution\<close>

lemma new_sender_chan:
  assumes "NewSenderWithObserver n = Inr m"
  shows "sender_ok m" and "chan_msgs m = {#}"
proof -
  show "sender_ok m" using NewSender_ok [of n m] assms by (simp add: NewSender_def)
  have "\<exists>k. slots m = replicate k newSlot"
    using assms by (auto simp: NewSenderWithObserver_def Let_def split: if_splits)
  moreover have "sum_list (replicate k ({#} :: mref multiset)) = {#}" for k by (induction k) simp_all
  ultimately show "chan_msgs m = {#}" by (auto simp: chan_msgs_def slot_msgs_def newSlot_def)
qed

lemma booted_winv:
  assumes "booted w"
  shows "winv e {#} {#} w"
proof -
  have q: "act_queue (w_actors w i) = []" "chan_msgs (a_sender (w_actors w i)) = {#}"
    "sender_ok (a_sender (w_actors w i))" "wp_flow (a_pool (w_actors w i))" if "i < w_nact w" for i
    using assms that new_sender_chan by (auto simp: booted_def fresh_actor_def act_queue_def)
  have fl: "flying w = {#}" using assms q by (simp add: flying_def booted_def)
  have "held {#} w = {#}" using q by (simp add: held_def fl acts_held_def act_msgs_def)
  then show ?thesis using assms q fl
    by (auto simp: winv_def refs_inv_def tasks_inv_def acts_inv_def booted_def pool_inv_def empty_heap_def heap_refs_def)
qed

lemma winv_take_submitted:
  assumes w: "winv e S T w" and s: "w_submitted w = xs @ (fl, t) # ys"
  shows "winv e S (add_mset t T) (w\<lparr>w_submitted := xs @ ys\<rparr>)" and "e \<Longrightarrow> fl \<and> task_shape (w_task w t)"
proof -
  let ?w = "w\<lparr>w_submitted := xs @ ys\<rparr>"
  have f: "flying w = add_mset t (flying ?w)" by (simp add: flying_def s)
  have h: "held (add_mset t T) ?w = held T w"
    unfolding held_def f by (simp add: acts_held_def tasks_held_def)
  show "fl \<and> task_shape (w_task w t)" if e
    using winvD(3) [OF w] that unfolding acts_inv_def f by (simp add: s)
  have "tasks_inv e (add_mset t T + mset (w_tpool ?w) + flying ?w) ?w"
    using winvD(2) [OF w] unfolding f tasks_inv_def task_ok_def by simp
  moreover have "acts_inv e ?w"
    using winvD(3) [OF w] unfolding acts_inv_def f by (auto simp: s)
  ultimately show "winv e S (add_mset t T) ?w" using winvD(1) [OF w] h by (simp add: winv_def)
qed

lemma winv_worker:
  assumes "env_ok e env" and "winv e S T w" and "w_submitted w = xs @ (fl, t) # ys"
  shows "winv e S T (worker_run env fl t (w\<lparr>w_submitted := xs @ ys\<rparr>))"
  using winv_take_submitted [OF assms(2,3)] by (intro winv_worker_run [OF assms(1)]) simp_all

lemma winv_Close: "winv e S T w \<Longrightarrow> winv e S T (Close i w)"
  by (auto simp: Close_def act_queue_def intro!: winv_actor_field)

lemma winv_group:
  assumes "winv e S T w" and "\<And>k it. actors g k = Some it \<Longrightarrow> IActor it < w_nact w"
  shows "winv e S T (w\<lparr>w_group := g\<rparr>)"
proof -
  have "flying (w\<lparr>w_group := g\<rparr>) = flying w" "held T (w\<lparr>w_group := g\<rparr>) = held T w"
    by (simp_all add: flying_def held_def acts_held_def tasks_held_def)
  then show ?thesis using assms by (simp add: winv_def tasks_inv_def acts_inv_def task_ok_def)
qed

text \<open>\<open>S\<close> are references of goroutines outside of the actor layer.\<close>

lemma exec_step_inv:
  assumes env: "env_ok e env" and st: "exec_step e env st st'"
    and w: "winv e (calls_held (fst st) + S) {#} (snd st)"
  shows "winv e (calls_held (fst st') + S) {#} (snd st')"
  using st w
proof (cases rule: exec_step.cases)
  case (async i w cs f cb vs)
  then show ?thesis using w winv_AsyncRunResult(1) [of e "UserFn f" _ _ w i env cb] env by (simp add: fn_msgs_def)
next
  case (tick_fn i w cs name ivl f)
  then show ?thesis using w winv_Push_plain [OF env, of _ _ w i]
    by (simp add: RegisterTickFn_def cmd_ok_def cmd_zero_def)
next
  case (call i w now d tar req tmo c w' cs)
  then show ?thesis using w winv_CallActor_begin [OF env] by (simp add: add.assoc)
next
  case (wake i w now ev pc c w' xs ys)
  then show ?thesis using w winv_CallActor_wait [of e pc "calls_held (xs @ ys) + S" "{#}" w i now ev c w']
    by (simp add: call_refs_def add.assoc)
next
  case (finish xs i pc d ys w now rp)
  then show ?thesis using w winv_CallActor_finish [of e pc d "calls_held (xs @ ys) + S" "{#}" w]
    by (simp add: call_refs_def ac_simps)
next
  case (rebuild i w cs k)
  then show ?thesis using w winv_safeUpdate [OF env, of _ _ w i "RebuildPool k"] by (simp add: RebuildWorkerPool_def)
next
  case (business cs w f)
  then show ?thesis using w env_call(1) [OF env, of _ _ w ANone f] by (metis arg_msgs.simps(3) empty_subsetI fst_conv list.set(1) prod.collapse snd_conv)
qed (auto simp: usable_def UpdateWorkerPoolSize_def UpdateRateLimit_def UpdateMaxRPCPending_def RebuildWorkerPool_def
      intro: send_actor.keep [OF env, THEN conjunct1] actor_reply.keep [OF env, THEN conjunct1]
      to_user.keep [OF env, THEN conjunct1] to_client.keep [OF env, THEN conjunct1]
      batch.keep [OF env, THEN conjunct1] receive.keep [OF env, THEN conjunct1]
      winv_Broadcast [OF env, THEN conjunct1] winv_AsyncRunWithMsg [OF env, THEN conjunct1]
      winv_StartAsyncThen [OF env, THEN conjunct1] winv_worker [OF env] winv_Run_dequeue winv_Run_one [OF env]
      winv_tick [OF env] winv_safeUpdate [OF env] winv_rpc_watchdog winv_Close winv_group)

lemma exec_reach_inv:
  assumes "env_ok e env" and "exec_reach e env st"
  shows "winv e (calls_held (fst st)) {#} (snd st)"
  using assms(2)
proof induction
  case (step st st')
  then show ?case using exec_step_inv [OF assms(1), of st st' "{#}"] by simp
qed (simp add: booted_winv)

section \<open>Local delivery\<close>

lemma upd_msg_upd_msg [simp]: "upd_msg a f (upd_msg a g h) = upd_msg a (\<lambda>m. f (g m)) h"
  by (simp add: upd_msg_def)

lemma upd_msg_id: "f (mobj h a) = mobj h a \<Longrightarrow> upd_msg a f h = h"
  by (simp add: upd_msg_def fun_upd_idem)

text \<open>A reference retained and released again, with a change of other fields in between.\<close>

lemma Release_Retain:
  assumes "RefCount (mobj h a) \<noteq> 0" and "0 \<le> sint (RefCount (mobj h a))"
    and "\<And>m. RefCount (f m) = RefCount m" and "\<And>m r. f (m\<lparr>RefCount := r\<rparr>) = (f m)\<lparr>RefCount := r\<rparr>"
  shows "Release (Some a) (upd_msg a f (Retain (Some a) h)) = upd_msg a f h"
proof -
  have eq: "(f (mobj h a))\<lparr>RefCount := RefCount (mobj h a)\<rparr> = f (mobj h a)"
    by (simp flip: assms(3) [of "mobj h a"])
  show ?thesis using assms
    by (simp add: Release_def Retain_def Let_def) (simp add: upd_msg_def eq)
qed

lemma hp_Enqueue: "hp k (Enqueue env j c w) = Enqueue env j c (hp k w)"
  by (simp add: Enqueue_def hp_def upd_actor_def)

lemma hp_hp: "hp k (hp l w) = hp (\<lambda>h. k (l h)) w"
  by (simp add: hp_def)

lemma SendMsg_local:
  assumes "TarActor (msg_of w m) \<noteq> 0" and "GetActorById (TarActor (msg_of w m)) (w_group w) = Some j"
    and "\<not> IsResponse (msg_of w m)" and "RefCount (msg_of w m) \<noteq> 0" and "0 \<le> sint (RefCount (msg_of w m))"
  shows "SendMsg env i m w = Enqueue env j (cmd_zero\<lparr>Type := CmdTypeMsg, Msg := Some m\<rparr>)
    (set_msg m (\<lambda>x. x\<lparr>SpanId := actorId w i\<rparr>) w)"
proof -
  let ?w = "set_msg m (\<lambda>x. x\<lparr>SpanId := actorId w i\<rparr>) w"
  have "Release (Some m) (upd_msg m (\<lambda>x. x) (Retain (Some m) (w_heap ?w))) = upd_msg m (\<lambda>x. x) (w_heap ?w)"
    using assms(4,5) by (intro Release_Retain) (simp_all add: set_msg_def upd_msg_def)
  then have rr: "release m (retain m ?w) = ?w" by (simp add: upd_msg_id hp_def)
  have "\<not> IsResponse (msg_of (retain m ?w) m)" using assms(3) by (simp add: set_msg_def upd_msg_def)
  then have "release m (Push env j (cmd_zero\<lparr>Type := CmdTypeMsg, Msg := Some m\<rparr>) (retain m ?w))
      = Enqueue env j (cmd_zero\<lparr>Type := CmdTypeMsg, Msg := Some m\<rparr>) ?w"
    by (simp add: Push_request hp_Enqueue rr)
  moreover have "w_group ?w = w_group w" by (simp add: set_msg_def)
  ultimately show ?thesis using assms(1,2) by (simp add: SendMsg_def Let_def)
qed

lemma SendActor_local:
  assumes "pool_inv (w_heap w)" and "pick_ok (e_msgpick env)" and "\<not> e_trace env"
    and "tar \<noteq> 0" and "GetActorById tar (w_group w) = Some j"
    and "\<not> mailClosed (w_actors w j) \<or> e_closedAccepts env"
    and "0 < SizeVT msg" and "MarshalToVT msg (SizeVT msg) = Some bs"
    and "w' = SendActor env i tar msg w"
  shows "\<exists>m. \<not> live (w_heap w) m
    \<and> mailBoxQueue (w_actors w' j) = mailBoxQueue (w_actors w j) @ [cmd_zero\<lparr>Type := CmdTypeMsg, Msg := Some m\<rparr>]
    \<and> MsgId (msg_of w' m) = GetMsgId msg \<and> TarActor (msg_of w' m) = tar
    \<and> SrcActor (msg_of w' m) = actorId w i \<and> Data (msg_of w' m) = bs \<and> RpcId (msg_of w' m) = 0
    \<and> \<not> IsResponse (msg_of w' m) \<and> refs (w_heap w') m = 1 \<and> live (w_heap w') m
    \<and> (\<forall>k. k \<noteq> j \<longrightarrow> w_actors w' k = w_actors w k)"
proof -
  obtain m h where g: "GetMessage (e_msgpick env) (w_heap w) = (m, h)" by fastforce
  note sp = GetMessage_spec [OF assms(1,2) g]
  define x where "x = mobj h m"
  have x_eq: "x = msg_zero\<lparr>RefCount := 1, DataCap := DataCap x\<rparr>" using sp unfolding x_def by blast
  have x: "RefCount x = 1" "RpcId x = 0" "\<not> IsResponse x" by (subst x_eq, simp add: msg_zero_def)+
  define y where "y = x\<lparr>DataCap := (if DataCap x \<ge> SizeVT msg then DataCap x else SizeVT msg), Data := bs,
     MsgId := GetMsgId msg, TarActor := tar, SrcActor := actorId w i, TraceIdHi := e_zid env (w_zid w),
     SpanId := actorId w i\<rparr>"
  define w4 where "w4 = w\<lparr>w_heap := upd_msg m (\<lambda>_. y) h, w_zid := Suc (w_zid w)\<rparr>"
  have "stamp_trace env i m (set_msg m (\<lambda>z. z\<lparr>MsgId := GetMsgId msg, TarActor := tar, SrcActor := actorId w2 i\<rparr>) w2) = w4
      \<and> ok" if "MarshalVTToMsg msg m (w\<lparr>w_heap := h\<rparr>) = (ok, w2)" for ok w2
    using that assms(3,7,8) unfolding MarshalVTToMsg_def Let_def
    by (auto simp: w4_def y_def x_def stamp_trace_def nextZid_def set_msg_def hp_def upd_msg_def actorId_def split: if_splits)
  then have send: "SendActor env i tar msg w = release m (SendMsg env i m (retain m w4))"
    by (auto simp: SendActor_def newMsg_def g Let_def split: prod.split)
  have y: "RefCount y = 1" "\<not> IsResponse y" "TarActor y = tar" using x by (simp_all add: y_def)
  have "SendMsg env i m (retain m w4) = Enqueue env j (cmd_zero\<lparr>Type := CmdTypeMsg, Msg := Some m\<rparr>)
      (set_msg m (\<lambda>x. x\<lparr>SpanId := actorId (retain m w4) i\<rparr>) (retain m w4))"
    using assms(4,5) y by (intro SendMsg_local) (simp_all add: w4_def Retain_def upd_msg_def)
  moreover have "release m (set_msg m (\<lambda>x. x\<lparr>SpanId := actorId (retain m w4) i\<rparr>) (retain m w4)) = w4"
  proof -
    have "Release (Some m) (upd_msg m (\<lambda>z. z\<lparr>SpanId := actorId w i\<rparr>) (Retain (Some m) (w_heap w4)))
        = upd_msg m (\<lambda>z. z\<lparr>SpanId := actorId w i\<rparr>) (w_heap w4)"
      using y by (intro Release_Retain) (simp_all add: w4_def upd_msg_def)
    also have "\<dots> = w_heap w4" by (rule upd_msg_id) (simp add: w4_def upd_msg_def y_def)
    finally show ?thesis by (simp add: set_msg_def hp_def actorId_def) (simp add: w4_def)
  qed
  ultimately have w': "w' = Enqueue env j (cmd_zero\<lparr>Type := CmdTypeMsg, Msg := Some m\<rparr>) w4"
    using send assms(9) by (simp add: hp_Enqueue)
  have "live h m" "\<not> live (w_heap w) m" using sp by simp_all
  then show ?thesis using assms(6) x
    by (intro exI [of _ m]) (auto simp: w' Enqueue_def w4_def upd_actor_def upd_msg_def y_def live_def refs_def)
qed

section \<open>A concrete process\<close>

text \<open>Business code that does nothing, pools that allocate, a bus that accepts everything.\<close>

definition calm_env :: env where
  "calm_env = \<lparr>e_call = (\<lambda>f arg w. (Some RNone, w)), e_fast = (\<lambda>f a w. (False, w)),
     e_msgpick = (\<lambda>_. None), e_taskpick = (\<lambda>_. None), e_invoke = (\<lambda>i w. True), e_newpool = (\<lambda>n. True),
     e_closedAccepts = True, e_zid = word_of_nat, e_trace = False, e_genids = (\<lambda>m. m),
     e_oldbuf = (\<lambda>n. replicate n 0), e_grow = (\<lambda>n. n), e_bus = Some (\<lambda>topic dat. True),
     e_listeners = (\<lambda>topic. [])\<rparr>"

definition one_actor :: world where
  "one_actor =
    (let cfg = config_zero\<lparr>Id := 7, MaxRPCPending := 1\<rparr>
     in \<lparr>w_heap = empty_heap,
         w_actors = (\<lambda>_. (the (NewActor calm_env None cfg))\<lparr>a_sender := projr (NewSenderWithObserver 1)\<rparr>),
         w_nact = 1, w_group = AddActor (\<lambda>_. cfg) 0 (NewGroup 1 True), w_task = (\<lambda>_. empty_task),
         w_tpool = [], w_tnext = 0, w_submitted = [], w_zid = 0, w_bus = []\<rparr>)"

definition hello :: IMessage where
  "hello = \<lparr>GetMsgId = 3, SizeVT = 2, MarshalToVT = (\<lambda>n. Some [8, 1]), MarshalVT = Some [8, 1], UnmarshalVT = (\<lambda>_. True)\<rparr>"

lemma calm_env_ok: "env_ok e calm_env"
  by (simp add: env_ok_def calm_env_def pick_ok_def)

lemma one_actor_booted: "booted one_actor"
proof -
  have "\<exists>m. NewSenderWithObserver 1 = Inr m" by (simp add: NewSenderWithObserver_def nextPowerOfTwo_def VersionShift_def Let_def)
  then have "NewSenderWithObserver 1 = Inr (projr (NewSenderWithObserver 1))" by force
  then show ?thesis
    by (auto simp: booted_def one_actor_def Let_def fresh_actor_def NewActor_def calm_env_def AddActor_def
        NewGroup_def split: if_splits)
qed

lemma one_actor_sends: "exec_reach e calm_env ([], SendActor calm_env 0 7 hello one_actor)"
  by (intro exec_reach.step [OF exec_reach.start [OF one_actor_booted]] exec_step.send) (simp add: one_actor_def Let_def)

lemma one_actor_facts:
  "pool_inv (w_heap one_actor)" "pick_ok (e_msgpick calm_env)" "\<not> e_trace calm_env" "(7 :: u64) \<noteq> 0"
  "GetActorById 7 (w_group one_actor) = Some 0" "\<not> mailClosed (w_actors one_actor 0) \<or> e_closedAccepts calm_env"
  "0 < SizeVT hello" "MarshalToVT hello (SizeVT hello) = Some [8, 1]"
  "mailBoxQueue (w_actors one_actor 0) = []" "w_nact one_actor = 1"
  by (simp_all add: one_actor_def calm_env_def hello_def pool_inv_empty pick_ok_def Let_def GetActorById_def
      AddActor_def NewGroup_def GetActorId_def NewActor_def)

lemma one_actor_held: "\<exists>m. m \<in># held {#} (SendActor calm_env 0 7 hello one_actor)"
proof -
  let ?w = "SendActor calm_env 0 7 hello one_actor"
  have "frame {#} one_actor ?w"
    using send_actor.keep [OF calm_env_ok booted_winv [OF one_actor_booted], of 0 True] one_actor_facts(10) by simp
  then have n: "0 < w_nact ?w" using one_actor_facts(10) by (simp add: frame_def)
  obtain m where "mailBoxQueue (w_actors ?w 0) = mailBoxQueue (w_actors one_actor 0)
       @ [cmd_zero\<lparr>Type := CmdTypeMsg, Msg := Some m\<rparr>]"
    using SendActor_local [OF one_actor_facts(1-8) refl, of 0] by blast
  then have "m \<in># act_msgs (w_actors ?w 0)" by (simp add: act_msgs_def act_queue_def)
  moreover have "act_msgs (w_actors ?w 0) \<subseteq># acts_held ?w"
    using n sum.remove [of "{..<w_nact ?w}" 0 "\<lambda>j. act_msgs (w_actors ?w j)"] by (simp add: acts_held_def)
  ultimately show ?thesis by (auto simp: held_def dest: mset_subset_eqD)
qed

section \<open>Properties\<close>

text \<open>Claim C1: In every execution of a process whose business code respects the reference
  protocol, a message that is still referenced anywhere - in a mailbox, a dequeued batch, the channel
  of an RPC slot, an asynchronous task or an RPC call in progress - is not in the pool, and its
  counter is at least the number of these references: no interleaving, panic or rejected submission
  recycles a message that someone will still read.\<close>

theorem held_message_not_recycled:
  assumes "env_ok False env" and "exec_reach False env (cs, w)" and "a \<in># calls_held cs + held {#} w"
  shows "live (w_heap w) a \<and> count (calls_held cs + held {#} w) a \<le> refs (w_heap w) a"
proof -
  have w: "winv False (calls_held cs) {#} w" using exec_reach_inv [OF assms(1,2)] by simp
  note l = refs_inv_live [OF winvD(1) [OF w] assms(3)]
  then have "heap_refs (w_heap w) a = refs (w_heap w) a" by (simp add: heap_refs_def)
  then show ?thesis using winvD(1) [OF w] l unfolding refs_inv_def by metis
qed

theorem held_message_not_recycled_witness:
  "\<exists>m. live (w_heap (SendActor calm_env 0 7 hello one_actor)) m
     \<and> count (calls_held [] + held {#} (SendActor calm_env 0 7 hello one_actor)) m
       \<le> refs (w_heap (SendActor calm_env 0 7 hello one_actor)) m"
proof -
  obtain m where "m \<in># held {#} (SendActor calm_env 0 7 hello one_actor)" using one_actor_held by blast
  then have "m \<in># calls_held [] + held {#} (SendActor calm_env 0 7 hello one_actor)" by simp
  from held_message_not_recycled [OF calm_env_ok one_actor_sends this] show ?thesis by blast
qed

text \<open>Claim C6: In every fault-free execution (no panic, no rejected task, no closed mailbox, no
  rebuilt worker pool) nothing leaks: the counter of every message in use is exactly the number of
  references to it, a message without references is back in the pool, and every asynchronous task is
  either in the pool or in exactly one queue.\<close>

theorem process_leaks_nothing:
  assumes "env_ok True env" and "exec_reach True env (cs, w)"
  shows "(\<forall>a. live (w_heap w) a \<longrightarrow> refs (w_heap w) a = count (calls_held cs + held {#} w) a)
    \<and> (\<forall>a < mnext (w_heap w). a \<notin># calls_held cs + held {#} w \<longrightarrow> a \<in> set (mpool (w_heap w)))
    \<and> (\<forall>t < w_tnext w. count (flying w) t + count (mset (w_tpool w)) t = 1)"
proof -
  have w: "winv True (calls_held cs) {#} w" using exec_reach_inv [OF assms] by simp
  have c: "count (calls_held cs + held {#} w) a = heap_refs (w_heap w) a" "pool_inv (w_heap w)" for a
    using winvD(1) [OF w] by (simp_all add: refs_inv_def)
  have r: "heap_refs (w_heap w) a = refs (w_heap w) a" if "a < mnext (w_heap w)" for a
    using that by (simp add: heap_refs_def)
  have "a \<in> set (mpool (w_heap w))" if "a < mnext (w_heap w)" "a \<notin># calls_held cs + held {#} w" for a
    using c(1) [of a] that pooled_iff_refs [OF c(2), of a] r by (simp add: not_in_iff)
  moreover have "count (flying w) t + count (mset (w_tpool w)) t = 1" if "t < w_tnext w" for t
    using winvD(2) [OF w] that unfolding tasks_inv_def by (simp add: add.commute)
  moreover have "refs (w_heap w) a = count (calls_held cs + held {#} w) a" if "live (w_heap w) a" for a
    using c(1) [of a] r that by (simp add: live_def)
  ultimately show ?thesis by blast
qed

theorem process_leaks_nothing_witness:
  "\<exists>a. live (w_heap (SendActor calm_env 0 7 hello one_actor)) a
     \<and> refs (w_heap (SendActor calm_env 0 7 hello one_actor)) a
       = count (calls_held [] + held {#} (SendActor calm_env 0 7 hello one_actor)) a"
proof -
  have "winv True {#} {#} (SendActor calm_env 0 7 hello one_actor)"
    using exec_reach_inv [OF calm_env_ok one_actor_sends] by simp
  from refs_inv_live [OF winvD(1) [OF this]] one_actor_held
  obtain a where "live (w_heap (SendActor calm_env 0 7 hello one_actor)) a" by auto
  then show ?thesis using process_leaks_nothing [OF calm_env_ok one_actor_sends] by blast
qed

text \<open>Claim C29: The recycling of asynchronous tasks is safe in every execution, panics included: a
  task in the pool is empty and is in no mailbox and no worker queue, the pool holds no task twice,
  and no task is queued twice.\<close>

theorem async_task_pool_safe:
  assumes "env_ok False env" and "exec_reach False env (cs, w)"
  shows "distinct (w_tpool w)
    \<and> (\<forall>t \<in> set (w_tpool w). w_task w t = empty_task \<and> t \<notin># flying w)
    \<and> (\<forall>t. count (flying w) t \<le> 1)"
proof -
  have w: "winv False (calls_held cs) {#} w" using exec_reach_inv [OF assms] by simp
  have c: "count (mset (w_tpool w)) t + count (flying w) t \<le> 1" for t
  proof -
    have "count ({#} + mset (w_tpool w) + flying w) t \<le> of_bool (t < w_tnext w)"
      using winvD(2) [OF w] unfolding tasks_inv_def by blast
    also have "\<dots> \<le> (1 :: nat)" by simp
    finally show ?thesis by (simp only: count_union count_empty add_0)
  qed
  have "distinct (w_tpool w)"
    unfolding distinct_count_atmost_1
  proof
    fix t
    show "count (mset (w_tpool w)) t = (if t \<in> set (w_tpool w) then 1 else 0)"
    proof (cases "t \<in> set (w_tpool w)")
      case True
      then have "1 \<le> count (mset (w_tpool w)) t" by (simp add: count_greater_eq_one_iff del: count_mset)
      then have "count (mset (w_tpool w)) t = 1" using c [of t] by linarith
      then show ?thesis using True by simp
    qed (simp add: not_in_iff [symmetric])
  qed
  moreover have "t \<notin># flying w" if "t \<in> set (w_tpool w)" for t
  proof -
    have "1 \<le> count (mset (w_tpool w)) t" using that by (simp add: count_greater_eq_one_iff del: count_mset)
    then have "count (flying w) t = 0" using c [of t] by linarith
    then show ?thesis by (simp add: not_in_iff)
  qed
  moreover have "w_task w t = empty_task" if "t \<in> set (w_tpool w)" for t
    using winvD(2) [OF w] that by (simp add: tasks_inv_def)
  moreover have "count (flying w) t \<le> 1" for t using c [of t] by linarith
  ultimately show ?thesis by blast
qed

theorem async_task_pool_safe_witness:
  "distinct (w_tpool (SendActor calm_env 0 7 hello one_actor))"
  using async_task_pool_safe [OF calm_env_ok one_actor_sends] by blast

text \<open>Claim C28: Sending to an actor of the same process (its mailbox open, no tracing hook
  installed) appends exactly one command to that actor's mailbox. The command refers to a message
  taken from the pool for it, with the type, target, sender and marshalled payload of the call, not
  marked as a response and held by the mailbox alone; no other actor is touched.\<close>

theorem SendActor_delivers:
  assumes "pool_inv (w_heap w)" and "pick_ok (e_msgpick env)" and "\<not> e_trace env"
    and "tar \<noteq> 0" and "GetActorById tar (w_group w) = Some j"
    and "\<not> mailClosed (w_actors w j) \<or> e_closedAccepts env"
    and "0 < SizeVT msg" and "MarshalToVT msg (SizeVT msg) = Some bs"
    and "w' = SendActor env i tar msg w"
  shows "\<exists>m. \<not> live (w_heap w) m
    \<and> mailBoxQueue (w_actors w' j) = mailBoxQueue (w_actors w j) @ [cmd_zero\<lparr>Type := CmdTypeMsg, Msg := Some m\<rparr>]
    \<and> MsgId (msg_of w' m) = GetMsgId msg \<and> TarActor (msg_of w' m) = tar
    \<and> SrcActor (msg_of w' m) = actorId w i \<and> Data (msg_of w' m) = bs \<and> RpcId (msg_of w' m) = 0
    \<and> \<not> IsResponse (msg_of w' m) \<and> refs (w_heap w') m = 1 \<and> live (w_heap w') m
    \<and> (\<forall>k. k \<noteq> j \<longrightarrow> w_actors w' k = w_actors w k)"
  by (rule SendActor_local [OF assms])

theorem SendActor_delivers_witness:
  "\<exists>m. mailBoxQueue (w_actors (SendActor calm_env 0 7 hello one_actor) 0) = [cmd_zero\<lparr>Type := CmdTypeMsg, Msg := Some m\<rparr>]
     \<and> Data (msg_of (SendActor calm_env 0 7 hello one_actor) m) = [8, 1]"
  using SendActor_delivers [OF one_actor_facts(1-8) refl, of 0] one_actor_facts(9) by auto

section \<open>Failures\<close>

text \<open>Nothing is delivered to anyone: only the sender of actor \<open>i\<close> and the heap may change.\<close>

definition quiet :: "aref \<Rightarrow> world \<Rightarrow> world \<Rightarrow> bool" where
  "quiet i w w' \<longleftrightarrow> (\<forall>j. j \<noteq> i \<longrightarrow> w_actors w' j = w_actors w j)
     \<and> mailBoxQueue (w_actors w' i) = mailBoxQueue (w_actors w i)
     \<and> w_bus w' = w_bus w \<and> w_submitted w' = w_submitted w"

lemma quiet_refl [simp]: "quiet i w w"
  by (simp add: quiet_def)

lemma quiet_trans: "quiet i u v \<Longrightarrow> quiet i v w \<Longrightarrow> quiet i u w"
  by (simp add: quiet_def)

lemma quiet_hp [simp]: "quiet i w (hp k v) = quiet i w v"
  by (simp add: quiet_def hp_def)

lemma quiet_set_msg [simp]: "quiet i w (set_msg a f v) = quiet i w v"
  by (simp add: set_msg_def)

lemma quiet_newMsg: "newMsg env w = (m, w') \<Longrightarrow> quiet i w w'"
  by (auto simp: newMsg_def quiet_def split: prod.splits)

lemma quiet_SetReply: "quiet i w (actor_SetReply i a w)"
  by (auto simp: actor_SetReply_def quiet_def Let_def upd_actor_def split: prod.split)

lemma quiet_Marshal: "MarshalVTToMsg p m w = (ok, w') \<Longrightarrow> quiet i w w'"
  unfolding MarshalVTToMsg_def Let_def by (auto split: if_splits option.splits)

lemma quiet_placeholder: "quiet i w (reply_placeholder env i r w)"
proof -
  obtain p w1 where n: "newMsg env w = (p, w1)" by fastforce
  have "quiet i w (set_msg p f w1)" for f using quiet_newMsg [OF n] by simp
  then show ?thesis by (auto simp: reply_placeholder_def n Let_def intro: quiet_trans [OF _ quiet_SetReply])
qed

text \<open>A failed reply does not reach the caller. When the reply is nil or cannot be
  marshalled, \<open>SendActorReply\<close> stores its error placeholder in the replying actor's own table of
  pending calls: no other actor changes, no mailbox receives anything and nothing is sent to the bus,
  so the caller in another actor still waits until its timeout.\<close>

theorem reply_failure_not_delivered:
  assumes "reply = None \<or> reply = Some p \<and> 0 < SizeVT p \<and> MarshalToVT p (SizeVT p) = None"
    and "w' = SendActorReply env i req reply w"
  shows "(\<forall>j. j \<noteq> i \<longrightarrow> w_actors w' j = w_actors w j)
    \<and> mailBoxQueue (w_actors w' i) = mailBoxQueue (w_actors w i)
    \<and> w_bus w' = w_bus w \<and> w_submitted w' = w_submitted w"
proof -
  obtain m w1 where n: "newMsg env w = (m, w1)" by fastforce
  obtain ok w2 where mm: "MarshalVTToMsg p m w1 = (ok, w2)" by fastforce
  have "quiet i w w2" using quiet_trans [OF quiet_newMsg [OF n] quiet_Marshal [OF mm]] .
  then have "quiet i w (reply_placeholder env i r w2)" for r by (rule quiet_trans [OF _ quiet_placeholder])
  moreover have "\<not> ok" if "0 < SizeVT p" "MarshalToVT p (SizeVT p) = None"
    using mm that by (auto simp: MarshalVTToMsg_def Let_def split: if_splits)
  ultimately have "quiet i w (SendActorReply env i req reply w)"
    using assms(1) quiet_placeholder [of i w env] by (auto simp: SendActorReply_def n mm Let_def)
  then show ?thesis using assms(2) by (simp add: quiet_def)
qed

theorem reply_failure_not_delivered_witness:
  "mailBoxQueue (w_actors (SendActorReply calm_env 0 0 None one_actor) 0) = []"
  using reply_failure_not_delivered [OF disjI1 [OF refl] refl, where env = calm_env and i = 0 and req = 0 and w = one_actor]
    one_actor_facts(9) by simp

text \<open>A remote send that the worker pool rejects leaks its message: the counter after
  \<open>SendMsg\<close> is the counter before, although \<open>SendMsg\<close> was given one reference to consume and the
  message is stored nowhere (no mailbox, no worker queue, not the bus).\<close>

theorem rejected_remote_send_leaks:
  assumes "TarActor (msg_of w m) \<noteq> 0" and "GetActorById (TarActor (msg_of w m)) (w_group w) = None"
    and "GetOtherActorById (TarActor (msg_of w m)) (w_group w) = Some cfg"
    and "\<And>v. \<not> e_invoke env i v" and "0 < refs (w_heap w) m"
    and "w' = SendMsg env i m w"
  shows "refs (w_heap w') m = refs (w_heap w) m
    \<and> w_actors w' = w_actors w \<and> w_bus w' = w_bus w \<and> w_submitted w' = w_submitted w"
proof -
  let ?w1 = "set_msg m (\<lambda>x. x\<lparr>SpanId := actorId w i\<rparr>) w"
  let ?w2 = "retain m ?w1"
  obtain t v where g: "getAsyncTask env ?w2 = (t, v)" by fastforce
  let ?v = "upd_task t (simple_task i (SendRemote m cfg) None []) v"
  have "Invoke env i t ?v = (False, ?v)" using assms(4) by (simp add: Invoke_def)
  from AsyncRunResult_eq [OF g this]
  have r: "AsyncRunResult env i (SendRemote m cfg) None [] ?w2 = (False, putAsyncTask t ?v)" by simp
  let ?w3 = "putAsyncTask t ?v"
  have f: "w_heap v = w_heap ?w2" "w_actors v = w_actors ?w2" "w_bus v = w_bus ?w2" "w_submitted v = w_submitted ?w2"
    using g by (auto simp: getAsyncTask_def split: option.splits)
  have a: "w_heap ?w3 = w_heap ?w2" "w_actors ?w3 = w_actors w" "w_bus ?w3 = w_bus w" "w_submitted ?w3 = w_submitted w"
    using f by (simp_all add: put_eq upd_task_def) (simp_all add: set_msg_def hp_def)
  have pos: "RefCount (msg_of ?w1 m) \<noteq> 0" "0 \<le> sint (RefCount (msg_of ?w1 m))"
    using assms(5) by (auto simp: refs_def set_msg_def upd_msg_def)
  have "Release (Some m) (upd_msg m (\<lambda>x. x) (Retain (Some m) (w_heap ?w1))) = upd_msg m (\<lambda>x. x) (w_heap ?w1)"
    using pos by (intro Release_Retain) simp_all
  then have h: "w_heap (release m ?w3) = w_heap ?w1" using a(1) by (simp add: upd_msg_id)
  have "w_group ?w1 = w_group w" by (simp add: set_msg_def)
  then have "w' = release m ?w3" using assms(1-3,6) r by (simp add: SendMsg_def Let_def)
  moreover have "refs (w_heap ?w1) m = refs (w_heap w) m" by (simp add: set_msg_def)
  ultimately show ?thesis using h a by (simp add: hp_def)
qed

definition remote_peer :: world where
  "remote_peer = one_actor\<lparr>w_group := (NewGroup 1 False)\<lparr>otherActors := [9 \<mapsto> config_zero\<lparr>Id := 9\<rparr>]\<rparr>,
     w_heap := \<lparr>mobj = (\<lambda>_. msg_zero\<lparr>TarActor := 9, RefCount := 1\<rparr>), mpool = [], mnext = 1, mDoubleRelease = 0\<rparr>\<rparr>"

theorem rejected_remote_send_leaks_witness:
  "refs (w_heap (SendMsg (calm_env\<lparr>e_invoke := \<lambda>i w. False\<rparr>) 0 0 remote_peer)) 0 = 1
   \<and> w_submitted (SendMsg (calm_env\<lparr>e_invoke := \<lambda>i w. False\<rparr>) 0 0 remote_peer) = []"
proof -
  have "TarActor (msg_of remote_peer 0) \<noteq> 0" "GetActorById (TarActor (msg_of remote_peer 0)) (w_group remote_peer) = None"
    "GetOtherActorById (TarActor (msg_of remote_peer 0)) (w_group remote_peer) = Some (config_zero\<lparr>Id := 9\<rparr>)"
    "\<And>v. \<not> e_invoke (calm_env\<lparr>e_invoke := \<lambda>i w. False\<rparr>) 0 v" "0 < refs (w_heap remote_peer) 0"
    by (simp_all add: remote_peer_def GetActorById_def GetOtherActorById_def NewGroup_def refs_def)
  from rejected_remote_send_leaks [OF this refl]
  show ?thesis by (simp add: remote_peer_def one_actor_def refs_def Let_def)
qed

end
