(* ===== verification/ZGateMetrics.thy ===== *)
theory ZGateMetrics
  imports ZFloat ZSender
begin

text \<open>
  The bookkeeping of the gateway: \<open>zgate/session.go\<close> (which actor serves an authenticated user),
  \<open>zgate/rtt_tracker.go\<close> (round-trip times in a ring of slots) and \<open>zgate/metrics.go\<close> (statistics
  of the samples). The tracker is used by several goroutines without a lock, so the loads and stores
  of \<open>Record\<close> and \<open>Complete\<close> are definitions of their own.
\<close>

unbundle bit_operations_syntax

section \<open>Sessions\<close>

record SessionManager =
  info :: "i64 \<rightharpoonup> (i32 \<rightharpoonup> i32)"

definition NewSessionManager :: SessionManager where
  "NewSessionManager = \<lparr>info = Map.empty\<rparr>"

definition GetSessionActorId :: "i64 \<Rightarrow> i32 \<Rightarrow> SessionManager \<Rightarrow> i32" where
  "GetSessionActorId authId actorType m =
    (case info m authId of
       None \<Rightarrow> 0
     | Some info1 \<Rightarrow> (case info1 actorType of Some actorId \<Rightarrow> actorId | None \<Rightarrow> 0))"

definition SetSession_one :: "i64 \<Rightarrow> i32 \<times> i32 \<Rightarrow> SessionManager \<Rightarrow> SessionManager" where
  "SetSession_one authId kv m =
    (let (k, v) = kv in m\<lparr>info := (info m)(authId \<mapsto> (the (info m authId))(k \<mapsto> v))\<rparr>)"

text \<open>The map argument is an association list in its visit order; \<open>False\<close> is the error.\<close>

definition SetSessionActorId :: "i64 \<Rightarrow> (i32 \<times> i32) list \<Rightarrow> SessionManager \<Rightarrow> bool \<times> SessionManager" where
  "SetSessionActorId authId minfo m =
    (if length minfo = 0 then (False, m)
     else (let m = (case info m authId of None \<Rightarrow> m\<lparr>info := (info m)(authId \<mapsto> Map.empty)\<rparr> | Some _ \<Rightarrow> m);
               m = fold (SetSession_one authId) minfo m
           in (True, m)))"

definition DelSessionActorId :: "i64 \<Rightarrow> SessionManager \<Rightarrow> SessionManager" where
  "DelSessionActorId authId m = m\<lparr>info := (info m)(authId := None)\<rparr>"

definition GetAllActor :: "i64 \<Rightarrow> SessionManager \<Rightarrow> (i32 \<rightharpoonup> i32) option" where
  "GetAllActor authId m = info m authId"

section \<open>The round-trip tracker\<close>

record AtomicSlot =
  sendTime :: i64
  reqKey :: u64

record LockFreeRTTTracker =
  rtt_buffer :: "AtomicSlot list"
  rtt_mask :: u32
  rtt_samples :: "i64 list"
  sampleIdx :: u32
  maxSamples :: u32

definition gate_nextPowerOfTwo :: "int \<Rightarrow> int" where
  "gate_nextPowerOfTwo n =
    (if n \<le> 1 then 2
     else (let n = n - 1;
               n = n OR drop_bit 1 n;
               n = n OR drop_bit 2 n;
               n = n OR drop_bit 4 n;
               n = n OR drop_bit 8 n;
               n = n OR drop_bit 16 n
           in n + 1))"

definition NewLockFreeRTTTracker :: "u32 \<Rightarrow> u32 \<Rightarrow> LockFreeRTTTracker" where
  "NewLockFreeRTTTracker bufferSize maxSmp =
    (let size = gate_nextPowerOfTwo (uint bufferSize)
     in \<lparr>rtt_buffer = replicate (nat size) \<lparr>sendTime = 0, reqKey = 0\<rparr>, rtt_mask = word_of_int (size - 1),
         rtt_samples = replicate (unat maxSmp) 0, sampleIdx = 0, maxSamples = maxSmp\<rparr>)"

definition EncodeReqKey :: "u64 \<Rightarrow> u32 \<Rightarrow> u64" where
  "EncodeReqKey sessionId seqId = push_bit 32 sessionId OR ucast seqId"

definition rtt_slot :: "u32 \<Rightarrow> LockFreeRTTTracker \<Rightarrow> AtomicSlot" where
  "rtt_slot idx t = rtt_buffer t ! unat idx"

text \<open>The two stores of \<open>Record\<close>.\<close>

definition Record_time :: "u32 \<Rightarrow> i64 \<Rightarrow> LockFreeRTTTracker \<Rightarrow> LockFreeRTTTracker" where
  "Record_time idx now t = t\<lparr>rtt_buffer := (rtt_buffer t)[unat idx := (rtt_slot idx t)\<lparr>sendTime := now\<rparr>]\<rparr>"

definition Record_key :: "u32 \<Rightarrow> u64 \<Rightarrow> LockFreeRTTTracker \<Rightarrow> LockFreeRTTTracker" where
  "Record_key idx key t = t\<lparr>rtt_buffer := (rtt_buffer t)[unat idx := (rtt_slot idx t)\<lparr>reqKey := key\<rparr>]\<rparr>"

definition Record :: "u64 \<Rightarrow> u32 \<Rightarrow> i64 \<Rightarrow> LockFreeRTTTracker \<Rightarrow> LockFreeRTTTracker" where
  "Record sessionId seqId now t =
    (let key = push_bit 32 sessionId OR ucast seqId;
         idx = seqId AND rtt_mask t;
         t = Record_time idx now t
     in Record_key idx key t)"

text \<open>\<open>Complete\<close> loads the key, the time and the key again; \<open>k1\<close>, \<open>start\<close> and \<open>k2\<close> are what
  the loads see.\<close>

definition Complete_loaded ::
  "u64 \<Rightarrow> u32 \<Rightarrow> i64 \<Rightarrow> u64 \<Rightarrow> i64 \<Rightarrow> u64 \<Rightarrow> LockFreeRTTTracker \<Rightarrow> i64 option \<times> LockFreeRTTTracker" where
  "Complete_loaded sessionId seqId now k1 start k2 t =
    (let key = push_bit 32 sessionId OR ucast seqId
     in if k1 \<noteq> key then (None, t)
        else if start = 0 then (None, t)
        else if k2 \<noteq> key then (None, t)
        else (let cost = now - start
              in if sint cost \<le> 0 \<or> sint cost > 10 * 1000000000 then (None, t)
                 else (let idxVal = sampleIdx t;
                           t = t\<lparr>sampleIdx := sampleIdx t + 1\<rparr>;
                           t = (if idxVal < maxSamples t
                                then t\<lparr>rtt_samples := (rtt_samples t)[unat idxVal := cost]\<rparr> else t)
                       in (Some cost, t))))"

definition Complete :: "u64 \<Rightarrow> u32 \<Rightarrow> i64 \<Rightarrow> LockFreeRTTTracker \<Rightarrow> i64 option \<times> LockFreeRTTTracker" where
  "Complete sessionId seqId now t =
    (let slot = rtt_slot (seqId AND rtt_mask t) t
     in Complete_loaded sessionId seqId now (reqKey slot) (sendTime slot) (reqKey slot) t)"

definition GetAndResetSamples :: "LockFreeRTTTracker \<Rightarrow> i64 list \<times> LockFreeRTTTracker" where
  "GetAndResetSamples t =
    (let count = sampleIdx t;
         t = t\<lparr>sampleIdx := 0\<rparr>;
         count = (if count > maxSamples t then maxSamples t else count)
     in (map (\<lambda>i. rtt_samples t ! i) [0..<unat count], t))"

section \<open>Statistics\<close>

record LatencyStats =
  MinRTT :: i64
  MaxRTT :: i64
  AvgRTT :: i64
  P50 :: i64
  P90 :: i64
  P99 :: i64
  CountRTT :: nat

definition stats_zero :: LatencyStats where
  "stats_zero = \<lparr>MinRTT = 0, MaxRTT = 0, AvgRTT = 0, P50 = 0, P90 = 0, P99 = 0, CountRTT = 0\<rparr>"

text \<open>\<open>int(float64(count) * p)\<close> for a constant \<open>p\<close>.\<close>

definition percentile_index :: "nat \<Rightarrow> rat \<Rightarrow> int" where
  "percentile_index count p = trunc (fmul (f64_round (of_nat count)) (f64_round p))"

text \<open>The result is \<open>None\<close> where indexing would panic. \<open>slices.Sort\<close> sorts by value; Go's
  integer division truncates.\<close>

definition CalculateStats :: "i64 list \<Rightarrow> LatencyStats option" where
  "CalculateStats samples =
    (let count = length samples
     in if count = 0 then Some stats_zero
        else (let samples = sort_key sint samples;
                  sum = fold (\<lambda>v sum. sum + v) samples 0;
                  avg = (if sint sum \<ge> 0 then word_of_int (sint sum div int count)
                         else - word_of_int ((- sint sum) div int count));
                  i50 = percentile_index count (1 / 2);
                  i90 = percentile_index count (9 / 10);
                  p99Idx = percentile_index count (99 / 100);
                  p99Idx = (if p99Idx \<ge> int count then int count - 1 else p99Idx)
              in if i50 < 0 \<or> i50 \<ge> int count \<or> i90 < 0 \<or> i90 \<ge> int count \<or> p99Idx < 0 then None
                 else Some \<lparr>MinRTT = samples ! 0, MaxRTT = samples ! (count - 1), AvgRTT = avg,
                        P50 = samples ! nat i50, P90 = samples ! nat i90, P99 = samples ! nat p99Idx,
                        CountRTT = count\<rparr>))"

section \<open>Session lookups\<close>

lemma SetSession_fold:
  "info m authId = Some f \<Longrightarrow> info (fold (SetSession_one authId) kvs m) = (info m)(authId \<mapsto> f ++ map_of (rev kvs))"
proof (induction kvs arbitrary: m f)
  case (Cons kv kvs)
  obtain k v where kv: "kv = (k, v)" by fastforce
  have one: "info (SetSession_one authId kv m) = (info m)(authId \<mapsto> f(k \<mapsto> v))"
    using Cons.prems by (simp add: SetSession_one_def kv)
  then have "info (SetSession_one authId kv m) authId = Some (f(k \<mapsto> v))" by simp
  note ih = Cons.IH [OF this]
  have eq: "f(k \<mapsto> v) ++ map_of (rev kvs) = f ++ map_of (rev (kv # kvs))"
    unfolding kv by (rule ext) (auto simp: map_add_def split: option.split)
  show ?case unfolding fold.simps comp_apply ih one eq by simp
qed (simp add: fun_upd_idem)

lemma SetSession_info:
  assumes "minfo \<noteq> []"
  shows "info (snd (SetSessionActorId authId minfo m))
    = (info m)(authId \<mapsto> (case info m authId of None \<Rightarrow> Map.empty | Some f \<Rightarrow> f) ++ map_of (rev minfo))"
proof (cases "info m authId")
  case None
  then show ?thesis using assms SetSession_fold [of "m\<lparr>info := (info m)(authId \<mapsto> Map.empty)\<rparr>" authId Map.empty minfo]
    by (simp add: SetSessionActorId_def)
next
  case (Some f)
  then show ?thesis using assms SetSession_fold [OF Some, of minfo] by (simp add: SetSessionActorId_def)
qed

text \<open>What a lookup returns after an update, for every user and actor type.\<close>

lemma session_lookup:
  assumes "minfo \<noteq> []" and "distinct (map fst minfo)"
  shows "GetSessionActorId u ty (snd (SetSessionActorId authId minfo m))
    = (if u = authId then (case map_of minfo ty of Some i \<Rightarrow> i | None \<Rightarrow> GetSessionActorId u ty m)
       else GetSessionActorId u ty m)"
    and "GetSessionActorId u ty (DelSessionActorId authId m) = (if u = authId then 0 else GetSessionActorId u ty m)"
proof -
  have "map_of (rev minfo) = map_of minfo"
    using assms(2) by (subst map_of_inject_set) (simp_all flip: rev_map)
  then show "GetSessionActorId u ty (snd (SetSessionActorId authId minfo m))
    = (if u = authId then (case map_of minfo ty of Some i \<Rightarrow> i | None \<Rightarrow> GetSessionActorId u ty m)
       else GetSessionActorId u ty m)"
    using SetSession_info [OF assms(1), of authId m]
    by (auto simp: GetSessionActorId_def map_add_def split: option.split)
  show "GetSessionActorId u ty (DelSessionActorId authId m) = (if u = authId then 0 else GetSessionActorId u ty m)"
    by (simp add: GetSessionActorId_def DelSessionActorId_def)
qed

section \<open>Round-trip times\<close>

lemma gate_pow:
  assumes "0 \<le> n" and "n \<le> 2 ^ 32"
  shows "\<exists>k \<le> 32. gate_nextPowerOfTwo n = 2 ^ k"
proof (cases "n \<le> 1")
  case True
  then show ?thesis by (intro exI [of _ 1]) (simp add: gate_nextPowerOfTwo_def)
next
  case False
  then obtain k where k: "nextPowerOfTwo n = 2 ^ k" "\<forall>j. n \<le> 2 ^ j \<longrightarrow> k \<le> j"
    using nextPowerOfTwo_pow [of n] assms by auto
  then have "k \<le> 32" using assms(2) by blast
  then show ?thesis using k(1) False by (auto simp: gate_nextPowerOfTwo_def nextPowerOfTwo_def Let_def)
qed

text \<open>The slots are as many as the mask addresses.\<close>

definition rtt_ok :: "LockFreeRTTTracker \<Rightarrow> bool" where
  "rtt_ok t \<longleftrightarrow> (\<exists>k \<le> 32. length (rtt_buffer t) = 2 ^ k \<and> rtt_mask t = mask k)
     \<and> length (rtt_samples t) = unat (maxSamples t)"

lemma New_rtt_ok: "rtt_ok (NewLockFreeRTTTracker b ms)"
proof -
  have "uint b \<le> 2 ^ 32" using unsigned_less [of b, where ?'a = int] by simp
  then obtain k where k: "k \<le> 32" "gate_nextPowerOfTwo (uint b) = 2 ^ k" using gate_pow [of "uint b"] by auto
  have "nat (2 ^ k) = 2 ^ k" by (simp add: nat_power_eq)
  then show ?thesis using k by (auto simp: rtt_ok_def NewLockFreeRTTTracker_def Let_def mask_eq_exp_minus_1)
qed

lemma rtt_index: "rtt_ok t \<Longrightarrow> unat (q AND rtt_mask t) < length (rtt_buffer t)"
proof -
  assume "rtt_ok t"
  then obtain k where k: "k \<le> 32" "length (rtt_buffer t) = 2 ^ k" "rtt_mask t = mask k" by (auto simp: rtt_ok_def)
  have "unat (take_bit k q) < 2 ^ k" by (simp add: unsigned_take_bit_eq take_bit_nat_less_exp)
  then show ?thesis using k by (simp flip: take_bit_eq_mask)
qed

lemma Record_frame [simp]:
  "rtt_mask (Record s q now t) = rtt_mask t" "rtt_ok (Record s q now t) = rtt_ok t"
  by (simp_all add: Record_def Record_time_def Record_key_def Let_def rtt_ok_def)

lemma Record_slot:
  assumes "rtt_ok t" and "idx = p AND rtt_mask t"
  shows "rtt_slot idx (Record s q now t)
    = (if idx = q AND rtt_mask t then \<lparr>sendTime = now, reqKey = EncodeReqKey s q\<rparr> else rtt_slot idx t)"
  using rtt_index [OF assms(1), of q] rtt_index [OF assms(1), of p] assms(2)
  by (cases "rtt_buffer t ! unat (q AND rtt_mask t)")
    (auto simp: Record_def Record_time_def Record_key_def Let_def rtt_slot_def EncodeReqKey_def nth_list_update unat_inj_iff)

text \<open>Requests with the same key: the same sequence number, and sessions that agree in their low 32
  bits.\<close>

lemma EncodeReqKey_eq: "EncodeReqKey s q = EncodeReqKey s' q' \<longleftrightarrow> take_bit 32 s = take_bit 32 s' \<and> q = q'"
proof -
  have bit_k: "bit (EncodeReqKey s q) n = (n < 64 \<and> (if n < 32 then bit q n else bit s (n - 32)))" for s :: u64 and q :: u32 and n
    by (auto simp: EncodeReqKey_def bit_simps dest: bit_imp_le_length)
  show ?thesis
  proof
    assume eq: "EncodeReqKey s q = EncodeReqKey s' q'"
    have "bit q n = bit q' n" if "n < 32" for n
      using arg_cong [OF eq, of "\<lambda>w. bit w n"] that by (simp add: bit_k)
    moreover have "bit s n = bit s' n" if "n < 32" for n
      using arg_cong [OF eq, of "\<lambda>w. bit w (n + 32)"] that by (simp add: bit_k)
    ultimately show "take_bit 32 s = take_bit 32 s' \<and> q = q'"
      by (auto intro!: bit_word_eqI simp: bit_take_bit_iff)
  next
    assume eq: "take_bit 32 s = take_bit 32 s' \<and> q = q'"
    have "bit s n = bit s' n" if "n < 32" for n
    proof -
      have "bit (take_bit 32 s) n = bit (take_bit 32 s') n" using eq by simp
      then show ?thesis using that by (simp add: bit_take_bit_iff)
    qed
    then show "EncodeReqKey s q = EncodeReqKey s' q'"
      using eq by (intro bit_word_eqI) (auto simp: bit_k)
  qed
qed

text \<open>A history of recorded requests (session, sequence number, time), and the last of them that
  used the slot of a sequence number.\<close>

definition rtt_run :: "u32 \<Rightarrow> u32 \<Rightarrow> (u64 \<times> u32 \<times> i64) list \<Rightarrow> LockFreeRTTTracker" where
  "rtt_run b ms rs = fold (\<lambda>(s, q, tm). Record s q tm) rs (NewLockFreeRTTTracker b ms)"

definition last_record :: "u32 \<Rightarrow> u32 \<Rightarrow> (u64 \<times> u32 \<times> i64) list \<Rightarrow> (u64 \<times> u32 \<times> i64) option" where
  "last_record msk q rs = (let fs = filter (\<lambda>(s, q', tm). q' AND msk = q AND msk) rs in if fs = [] then None else Some (last fs))"

lemma last_record_snoc:
  "last_record msk q (rs @ [(s, q', tm)])
    = (if q' AND msk = q AND msk then Some (s, q', tm) else last_record msk q rs)"
  by (simp add: last_record_def)

lemma rtt_run_slot:
  "rtt_ok (rtt_run b ms rs) \<and> rtt_mask (rtt_run b ms rs) = rtt_mask (NewLockFreeRTTTracker b ms)
   \<and> rtt_slot (q AND rtt_mask (rtt_run b ms rs)) (rtt_run b ms rs)
     = (case last_record (rtt_mask (rtt_run b ms rs)) q rs of
          None \<Rightarrow> \<lparr>sendTime = 0, reqKey = 0\<rparr>
        | Some (s, q', tm) \<Rightarrow> \<lparr>sendTime = tm, reqKey = EncodeReqKey s q'\<rparr>)"
proof (induction rs rule: rev_induct)
  case Nil
  have "unat (q AND rtt_mask (NewLockFreeRTTTracker b ms)) < length (rtt_buffer (NewLockFreeRTTTracker b ms))"
    by (rule rtt_index [OF New_rtt_ok])
  then have "rtt_slot (q AND rtt_mask (NewLockFreeRTTTracker b ms)) (NewLockFreeRTTTracker b ms) = \<lparr>sendTime = 0, reqKey = 0\<rparr>"
    by (simp add: rtt_slot_def NewLockFreeRTTTracker_def Let_def)
  then show ?case by (simp add: rtt_run_def last_record_def New_rtt_ok)
next
  case (snoc r rs)
  obtain s q' tm where r: "r = (s, q', tm)" by (cases r) auto
  let ?t = "rtt_run b ms rs"
  have run: "rtt_run b ms (rs @ [r]) = Record s q' tm ?t" by (simp add: rtt_run_def r)
  have ok: "rtt_ok ?t" using snoc.IH by simp
  show ?case unfolding run using snoc.IH Record_slot [OF ok refl, of q s q' tm]
    by (auto simp: r last_record_snoc split: option.splits)
qed

text \<open>After any sequence of recorded requests, a response is given a round-trip time
  exactly when the last request recorded in the slot of its sequence number has that sequence number
  and a session that agrees in the low 32 bits; the result is the time since that record, positive
  and at most ten seconds. A request overwritten by a later one of the same slot is not measured.\<close>

theorem rtt_complete_exact:
  "fst (Complete s q now (rtt_run b ms rs)) = Some c \<longleftrightarrow>
   (\<exists>s' tm. last_record (rtt_mask (rtt_run b ms rs)) q rs = Some (s', q, tm)
      \<and> take_bit 32 s' = take_bit 32 s \<and> tm \<noteq> 0 \<and> c = now - tm \<and> 0 < sint c \<and> sint c \<le> 10000000000)"
proof -
  let ?t = "rtt_run b ms rs"
  have loaded: "fst (Complete_loaded s q now k st k ?t) = Some c
      \<longleftrightarrow> k = EncodeReqKey s q \<and> st \<noteq> 0 \<and> c = now - st \<and> 0 < sint c \<and> sint c \<le> 10000000000" for k st
    by (auto simp: Complete_loaded_def EncodeReqKey_def Let_def)
  have sl: "rtt_slot (q AND rtt_mask ?t) ?t = (case last_record (rtt_mask ?t) q rs of
          None \<Rightarrow> \<lparr>sendTime = 0, reqKey = 0\<rparr> | Some (s, q', tm) \<Rightarrow> \<lparr>sendTime = tm, reqKey = EncodeReqKey s q'\<rparr>)"
    using rtt_run_slot by blast
  show ?thesis
  proof (cases "last_record (rtt_mask ?t) q rs")
    case None
    then show ?thesis by (simp add: Complete_def Let_def loaded sl)
  next
    case (Some r)
    then show ?thesis by (cases r) (auto simp: Complete_def Let_def loaded sl EncodeReqKey_eq)
  qed
qed

text \<open>The second check of \<open>Complete\<close> does not detect every overwritten slot: between the two
  stores of \<open>Record\<close> the old key is paired with the new time. The response to the old request is
  then measured from the time of the new one.\<close>

lemma rtt_torn_record:
  "let t = Record 1 1 5000 (NewLockFreeRTTTracker 4 8); t' = Record_time 1 9000 t;
       sl = rtt_slot 1 t'
   in fst (Complete_loaded 1 1 9001 (reqKey sl) (sendTime sl) (reqKey sl) t') = Some 1"
  by code_simp

section \<open>Percentiles\<close>

lemma f64_round_below:
  assumes "0 \<le> x"
  shows "f64_round x \<le> x + x / 2 ^ 53 + 1 / 2 ^ 53"
proof -
  define d where "d = (2 :: rat) powi (- 1075)"
  have "d \<le> 2 powi (- 53)" unfolding d_def by (rule powi2_mono) simp
  also have "(2 :: rat) powi (- 53) = 1 / 2 ^ 53" by (simp add: power_int_def power_divide)
  finally show ?thesis using f64_round_error [OF assms, folded d_def] by linarith
qed

lemma percentile_bounds:
  assumes n: "0 < n" "n < 2 ^ 53" and p: "0 \<le> p" "p \<le> 99 / 100"
  shows "0 \<le> percentile_index n p \<and> percentile_index n p < int n"
proof -
  have fn: "f64_round (of_nat n) = of_nat n" using f64_round_of_int [of "int n"] n(2) by simp
  define x where "x = of_nat n * f64_round p"
  have "f64_round p \<le> 995 / 1000" using f64_round_below [OF p(1)] p(2) by simp
  then have le: "x \<le> of_nat n * (995 / 1000)" unfolding x_def by (intro mult_left_mono) simp_all
  have x: "0 \<le> x" using f64_round_nonneg [OF p(1)] by (simp add: x_def)
  have "1 \<le> (of_nat n :: rat)" using n(1) by simp
  then have "f64_round x < of_nat n" using f64_round_below [OF x] le by simp
  then have "\<lfloor>f64_round x\<rfloor> < int n" by (simp add: floor_less_iff)
  then show ?thesis using f64_round_nonneg [OF x]
    by (simp add: percentile_index_def fmul_def fn trunc_def x_def)
qed

lemma percentile_mono:
  assumes "0 \<le> p" and "p \<le> q"
  shows "percentile_index n p \<le> percentile_index n q"
proof -
  have nn: "0 \<le> f64_round (of_nat n)" "0 \<le> f64_round p" by (rule f64_round_nonneg; use assms in simp)+
  have "f64_round (of_nat n) * f64_round p \<le> f64_round (of_nat n) * f64_round q"
    using f64_round_mono [OF assms(2)] nn by (intro mult_left_mono)
  then have le: "fmul (f64_round (of_nat n)) (f64_round p) \<le> fmul (f64_round (of_nat n)) (f64_round q)"
    by (simp add: fmul_def f64_round_mono)
  have "0 \<le> fmul (f64_round (of_nat n)) (f64_round p)" using nn by (simp add: fmul_def f64_round_nonneg)
  then show ?thesis using le by (auto simp: percentile_index_def trunc_def intro: floor_mono)
qed

text \<open>\<open>CalculateStats\<close> never indexes out of range (for fewer than \<open>2^53\<close> samples): for every
  non-empty list of samples it returns the smallest and the largest sample, and percentiles that are
  samples themselves and are ordered between them.\<close>

theorem CalculateStats_ordered:
  assumes "samples \<noteq> []" and "length samples < 2 ^ 53"
  shows "\<exists>st. CalculateStats samples = Some st \<and> CountRTT st = length samples
    \<and> MinRTT st \<in> set samples \<and> MaxRTT st \<in> set samples
    \<and> P50 st \<in> set samples \<and> P90 st \<in> set samples \<and> P99 st \<in> set samples
    \<and> sint (MinRTT st) = Min (sint ` set samples) \<and> sint (MaxRTT st) = Max (sint ` set samples)
    \<and> sint (MinRTT st) \<le> sint (P50 st) \<and> sint (P50 st) \<le> sint (P90 st)
    \<and> sint (P90 st) \<le> sint (P99 st) \<and> sint (P99 st) \<le> sint (MaxRTT st)"
proof -
  let ?n = "length samples" and ?s = "sort_key sint samples"
  have n: "0 < ?n" using assms(1) by simp
  define i50 where "i50 = nat (percentile_index ?n (1 / 2))"
  define i90 where "i90 = nat (percentile_index ?n (9 / 10))"
  define i99 where "i99 = nat (percentile_index ?n (99 / 100))"
  note b = percentile_bounds [OF n assms(2)]
  have b50: "0 \<le> percentile_index ?n (1 / 2) \<and> percentile_index ?n (1 / 2) < int ?n" by (rule b) simp_all
  have b90: "0 \<le> percentile_index ?n (9 / 10) \<and> percentile_index ?n (9 / 10) < int ?n" by (rule b) simp_all
  have b99: "0 \<le> percentile_index ?n (99 / 100) \<and> percentile_index ?n (99 / 100) < int ?n" by (rule b) simp_all
  have i: "i50 \<le> i90" "i90 \<le> i99" "i99 < ?n"
    using percentile_mono [of "1 / 2" "9 / 10" ?n] percentile_mono [of "9 / 10" "99 / 100" ?n] b99 b50
    by (simp_all add: i50_def i90_def i99_def nat_mono)
  have mem: "?s ! k \<in> set samples" if "k < ?n" for k using nth_mem [of k ?s] that by simp
  have ord: "sint (?s ! j) \<le> sint (?s ! k)" if "j \<le> k" "k < ?n" for j k
    using sorted_nth_mono [of "map sint ?s" j k] that by simp
  have bounds: "sint (?s ! 0) \<le> sint v \<and> sint v \<le> sint (?s ! (?n - 1))" if "v \<in> set samples" for v
  proof -
    have "v \<in> set ?s" using that by simp
    then obtain k where "k < length ?s" "v = ?s ! k" by (metis in_set_conv_nth)
    then show ?thesis using ord [of 0 k] ord [of k "?n - 1"] by simp
  qed
  have mn: "sint (?s ! 0) = Min (sint ` set samples)"
    using bounds mem [of 0] n by (intro Min_eqI [symmetric]) auto
  have mx: "sint (?s ! (?n - 1)) = Max (sint ` set samples)"
    using bounds mem [of "?n - 1"] n by (intro Max_eqI [symmetric]) auto
  let ?avg = "let sum = fold (\<lambda>v sum. sum + v) ?s 0
    in if sint sum \<ge> 0 then word_of_int (sint sum div int ?n) else - word_of_int ((- sint sum) div int ?n)"
  have "CalculateStats samples = Some \<lparr>MinRTT = ?s ! 0, MaxRTT = ?s ! (?n - 1), AvgRTT = ?avg,
      P50 = ?s ! i50, P90 = ?s ! i90, P99 = ?s ! i99, CountRTT = ?n\<rparr>"
    using assms(1) b50 b90 b99 unfolding CalculateStats_def Let_def
    by (simp add: i50_def i90_def i99_def not_le not_less)
  then show ?thesis using mn mx mem [of 0] mem [of "?n - 1"] mem [of i50] mem [of i90] mem [of i99] i n
      ord [of 0 i50] ord [of i50 i90] ord [of i90 i99] ord [of i99 "?n - 1"]
    by simp
qed

theorem CalculateStats_ordered_witness:
  "\<exists>st. CalculateStats [30, 10, 20] = Some st \<and> P50 st \<in> {30, 10, 20} \<and> sint (MinRTT st) = 10"
  using CalculateStats_ordered [of "[30, 10, 20]"] by auto

end
