(* ===== verification/ZGate.thy ===== *)
theory ZGate
  imports ZExec ZRoute ZGateMetrics
begin

text \<open>
  \<open>zgate/gate.go\<close>: the gateway actor. It turns packets of client connections into messages for
  its own mailbox (\<open>OnRead\<close>), routes them to itself, to another actor of the process or to a remote
  actor (\<open>gateHandler\<close>), and hands responses to their connection (\<open>sendClient\<close>). The network
  servers and channels belong to another repository: what the gateway asks of them is the record
  \<open>genv\<close>, and the messages given to channels are logged in \<open>s_outbox\<close>. TLS set-up by certificate
  files, logging and the memory statistics of \<open>ReportMetrics\<close> are not modelled.
\<close>

section \<open>State\<close>

datatype ConnProtocol = TCP | WebSocket | KCP | OtherProtocol int

datatype strategy = SFirst | SRoundRobin RoundRobinStrategy | SRendezvous RendezvousHashStrategy | SUser fnref

record ServerMetrics =
  FirstPacketTime :: i64
  recvCount :: i64
  sentCount :: i64
  recvCountTotal :: i64
  sentCountTotal :: i64
  OnlineUsers :: i32
  RTTTracker :: LockFreeRTTTracker
  GlobalTotalRTT :: i64
  GlobalCountRTT :: i64

text \<open>\<open>s_actor\<close> is the embedded actor; \<open>s_router\<close> is whether the local router is set.\<close>

record Server =
  s_actor :: aref
  s_sessions :: SessionManager
  tlsConfig :: "nat option"
  connType :: ConnProtocol
  channelCloseCall :: "fnref option"
  s_metrics :: ServerMetrics
  s_router :: bool
  localRecvCount :: i64
  localSentCount :: i64
  httpAddr :: string
  httpServer :: bool
  remoteStrategy :: "strategy option"
  noRouteHandler :: "fnref option"
  traceInjectGateRecv :: "fnref option"
  payloadEncrypt :: "fnref option"
  netServerHook :: "fnref list option"
  useReactorMode :: bool
  useSharedSendWorkerMode :: bool
  gateMonitorLogEnabled :: bool
  s_outbox :: "(u64 \<times> mref) list"

text \<open>The network layer and the hooks: the identifier of the channel of a session, whether its
  limiter admits a packet, the limiters set, the trace hook, the no-route hook (reply and whether it
  was handled), a user's strategy; whether a discoverer is set.\<close>

record genv =
  g_chan :: "u64 \<Rightarrow> u64 option"
  g_allow :: "u64 \<Rightarrow> bool"
  g_inject :: "fnref \<Rightarrow> message \<Rightarrow> message"
  g_noRoute :: "fnref \<Rightarrow> mref \<Rightarrow> world \<Rightarrow> (mref option \<times> bool) \<times> world"
  g_pick :: "fnref \<Rightarrow> message \<Rightarrow> ActorConfig list \<Rightarrow> int"
  g_discoverer :: bool

type_synonym gstate = "Server \<times> world"

text \<open>A packet (\<open>baseziface.IWireMessage\<close>).\<close>

record wire_msg =
  wire_MsgId :: i32
  wire_SeqId :: u32
  wire_Data :: "byte list"

section \<open>Construction and settings\<close>

definition NewServer :: "FrameworkTuning option \<Rightarrow> aref \<Rightarrow> ConnProtocol \<Rightarrow> Server" where
  "NewServer tuningValue i ct =
    (let tuning = GetFrameworkTuning tuningValue
     in \<lparr>s_actor = i, s_sessions = NewSessionManager, tlsConfig = None, connType = ct, channelCloseCall = None,
         s_metrics = \<lparr>FirstPacketTime = 0, recvCount = 0, sentCount = 0, recvCountTotal = 0, sentCountTotal = 0,
           OnlineUsers = 0, RTTTracker = NewLockFreeRTTTracker (RTTBufferSize tuning) (RTTMaxSamples tuning),
           GlobalTotalRTT = 0, GlobalCountRTT = 0\<rparr>,
         s_router = True, localRecvCount = 0, localSentCount = 0, httpAddr = [], httpServer = False,
         remoteStrategy = Some SFirst, noRouteHandler = None, traceInjectGateRecv = None, payloadEncrypt = None,
         netServerHook = None, useReactorMode = False, useSharedSendWorkerMode = False,
         gateMonitorLogEnabled = True, s_outbox = []\<rparr>)"

definition SetGateMonitorLogEnabled :: "bool \<Rightarrow> Server \<Rightarrow> Server" where
  "SetGateMonitorLogEnabled enabled s = s\<lparr>gateMonitorLogEnabled := enabled\<rparr>"

definition SetRemoteRouteStrategy :: "strategy option \<Rightarrow> Server \<Rightarrow> Server" where
  "SetRemoteRouteStrategy strat s =
    (case strat of None \<Rightarrow> s\<lparr>remoteStrategy := Some SFirst\<rparr> | Some _ \<Rightarrow> s\<lparr>remoteStrategy := strat\<rparr>)"

definition SetHTTPAddr :: "string \<Rightarrow> Server \<Rightarrow> Server" where
  "SetHTTPAddr addr s = s\<lparr>httpAddr := addr\<rparr>"

definition SetTLSConfig :: "nat option \<Rightarrow> Server \<Rightarrow> Server" where
  "SetTLSConfig cfg s = s\<lparr>tlsConfig := cfg\<rparr>"

definition SetEncrypt :: "fnref option \<Rightarrow> Server \<Rightarrow> Server" where
  "SetEncrypt enc s = s\<lparr>payloadEncrypt := enc\<rparr>"

text \<open>The composed closure is the list of the registered functions, in calling order.\<close>

definition WithNetServerHook :: "fnref option \<Rightarrow> Server \<Rightarrow> Server" where
  "WithNetServerHook fn s =
    (case fn of
       None \<Rightarrow> s
     | Some f \<Rightarrow> s\<lparr>netServerHook := Some ((case netServerHook s of None \<Rightarrow> [] | Some prev \<Rightarrow> prev) @ [f])\<rparr>)"

definition SetReactorMode :: "bool \<Rightarrow> Server \<Rightarrow> Server" where
  "SetReactorMode enabled s = s\<lparr>useReactorMode := enabled\<rparr>"

definition SetSharedSendWorkerMode :: "bool \<Rightarrow> Server \<Rightarrow> Server" where
  "SetSharedSendWorkerMode enabled s = s\<lparr>useSharedSendWorkerMode := enabled\<rparr>"

definition OnNoRoute :: "fnref option \<Rightarrow> Server \<Rightarrow> Server" where
  "OnNoRoute fn s = s\<lparr>noRouteHandler := fn\<rparr>"

definition SetTraceHook :: "fnref option \<Rightarrow> Server \<Rightarrow> Server" where
  "SetTraceHook injectGateRecv s = s\<lparr>traceInjectGateRecv := injectGateRecv\<rparr>"

definition OnChannelClose :: "fnref option \<Rightarrow> Server \<Rightarrow> Server" where
  "OnChannelClose call s = s\<lparr>channelCloseCall := call\<rparr>"

text \<open>What \<open>NewNetServer\<close> does to the network server, in order; \<open>None\<close> is the panic for an unknown
  protocol. The arguments are whether the created server has the optional interfaces
  (\<open>SetSharedSendWorkerMode\<close>, \<open>metricServer\<close>, \<open>sessionStatsAttachable\<close>).\<close>

datatype net_event = NetNew ConnProtocol string | NetSharedSend bool | NetTLS nat | NetEncrypt fnref | NetHook fnref
  | NetMetrics | NetChannelMetrics | NetSessionStats | NetReactorMetrics
  | NetServe | NetServeReactor | NetClose | HttpRun string | HttpShutdown | InitServer

definition attachNetMetrics :: "bool \<Rightarrow> bool \<Rightarrow> ConnProtocol \<Rightarrow> net_event list" where
  "attachNetMetrics metricServer sessionStats ct =
    (if metricServer then [NetMetrics, NetChannelMetrics] else [])
    @ (if sessionStats then [NetSessionStats] else [])
    @ (if ct = TCP then [NetReactorMetrics] else [])"

definition NewNetServer :: "bool \<Rightarrow> bool \<Rightarrow> bool \<Rightarrow> ConnProtocol \<Rightarrow> string \<Rightarrow> Server \<Rightarrow> net_event list option" where
  "NewNetServer sharedSend metricServer sessionStats ct addr s =
    (case ct of
       OtherProtocol _ \<Rightarrow> None
     | _ \<Rightarrow> Some ([NetNew ct addr]
         @ (if sharedSend then [NetSharedSend (useSharedSendWorkerMode s)] else [])
         @ (case tlsConfig s of Some c \<Rightarrow> [NetTLS c] | None \<Rightarrow> [])
         @ (case payloadEncrypt s of Some f \<Rightarrow> [NetEncrypt f] | None \<Rightarrow> [])
         @ (case netServerHook s of Some fs \<Rightarrow> map NetHook fs | None \<Rightarrow> [])
         @ attachNetMetrics metricServer sessionStats ct))"

text \<open>\<open>RunServer\<close>: \<open>hasServer\<close> and \<open>tcpServer\<close> describe \<open>s.server\<close>, \<open>reactorOS\<close> is whether the
  operating system is Linux or Darwin.\<close>

definition RunServer :: "bool \<Rightarrow> bool \<Rightarrow> bool \<Rightarrow> Server \<Rightarrow> net_event list" where
  "RunServer hasServer tcpServer reactorOS s =
    (if hasServer then
       (if useReactorMode s \<and> connType s = TCP \<and> tlsConfig s = None then
          (if tcpServer then (if reactorOS then [NetServeReactor] else [NetServe]) else [NetServe])
        else [NetServe])
     else [])
    @ (if httpAddr s \<noteq> [] then [HttpRun (httpAddr s)] else [])
    @ [InitServer]"

section \<open>Connections\<close>

definition upd_metrics :: "(ServerMetrics \<Rightarrow> ServerMetrics) \<Rightarrow> Server \<Rightarrow> Server" where
  "upd_metrics f s = s\<lparr>s_metrics := f (s_metrics s)\<rparr>"

text \<open>The result of \<open>OnAccept\<close> is whether the connection is kept, and the rate and burst of the
  limiter it is given.\<close>

definition OnAccept :: "u64 option \<Rightarrow> gstate \<Rightarrow> (bool \<times> (int \<times> int) option) \<times> gstate" where
  "OnAccept channel sw =
    (let (s, w) = sw
     in case channel of
          None \<Rightarrow> ((False, None), (s, w))
        | Some c \<Rightarrow>
           (let s = upd_metrics (\<lambda>m. m\<lparr>OnlineUsers := OnlineUsers m + 1\<rparr>) s;
                cfg = a_config (w_actors w (s_actor s));
                lim = (if IsLimiter cfg then Some (Rate cfg, Burst cfg) else None)
            in ((True, lim), (s, w))))"

definition channelClose :: "env \<Rightarrow> gstate \<Rightarrow> gstate" where
  "channelClose env sw =
    (let (s, w) = sw;
         s = upd_metrics (\<lambda>m. m\<lparr>OnlineUsers := OnlineUsers m - 1\<rparr>) s
     in case channelCloseCall s of
          None \<Rightarrow> (s, w)
        | Some f \<Rightarrow> (s, snd (e_call env f ANone w)))"

definition GenCliMsg :: "genv \<Rightarrow> env \<Rightarrow> Server \<Rightarrow> u64 \<Rightarrow> wire_msg \<Rightarrow> world \<Rightarrow> cmd \<times> world" where
  "GenCliMsg genv env s channelId netMessage w =
    (let (m, w) = newMsg env w;
         dat = wire_Data netMessage;
         w = set_msg m (\<lambda>x. x\<lparr>MsgId := wire_MsgId netMessage, SeqId := wire_SeqId netMessage, Data := dat,
               DataCap := (if length dat \<le> DataCap x then DataCap x else e_grow env (length dat)),
               SessionId := channelId, FromClient := True, SrcActor := actorId w (s_actor s)\<rparr>) w;
         w = (case traceInjectGateRecv s of
                Some f \<Rightarrow> set_msg m (g_inject genv f) w
              | None \<Rightarrow> (let (z, w) = nextZid env w
                         in set_msg m (\<lambda>x. x\<lparr>TraceIdHi := z, SpanId := actorId w (s_actor s)\<rparr>) w))
     in (cmd_zero\<lparr>Type := CmdTypeClient, Msg := Some m\<rparr>, w))"

text \<open>The batched counters: every hundredth packet is added to the metrics.\<close>

definition count_recv :: "Server \<Rightarrow> Server" where
  "count_recv s =
    (let n = localRecvCount s + 1; s = s\<lparr>localRecvCount := n\<rparr>
     in if sint n mod 100 = 0
        then upd_metrics (\<lambda>m. m\<lparr>recvCount := recvCount m + 100, recvCountTotal := recvCountTotal m + 100\<rparr>) s
        else s)"

definition count_sent :: "Server \<Rightarrow> Server" where
  "count_sent s =
    (let n = localSentCount s + 1; s = s\<lparr>localSentCount := n\<rparr>
     in if sint n mod 100 = 0
        then upd_metrics (\<lambda>m. m\<lparr>sentCount := sentCount m + 100, sentCountTotal := sentCountTotal m + 100\<rparr>) s
        else s)"

definition OnRead :: "genv \<Rightarrow> env \<Rightarrow> i64 \<Rightarrow> u64 option \<Rightarrow> wire_msg \<Rightarrow> gstate \<Rightarrow> gstate" where
  "OnRead genv env now channel netMessage sw =
    (let (s, w) = sw
     in case channel of
          None \<Rightarrow> (s, w)
        | Some c \<Rightarrow>
           if \<not> g_allow genv c then (s, w)
           else (let (msg, w) = GenCliMsg genv env s c netMessage w;
                     w = Push env (s_actor s) msg w;
                     s = count_recv s;
                     s = (if FirstPacketTime (s_metrics s) = 0 then upd_metrics (\<lambda>m. m\<lparr>FirstPacketTime := now\<rparr>) s else s);
                     s = (if wire_SeqId netMessage > 0
                          then upd_metrics (\<lambda>m. m\<lparr>RTTTracker := Record c (wire_SeqId netMessage) now (RTTTracker m)\<rparr>) s
                          else s)
                 in (s, w)))"

section \<open>Responses to clients\<close>

definition RecordRTT :: "i64 \<Rightarrow> ServerMetrics \<Rightarrow> ServerMetrics" where
  "RecordRTT cost m =
    m\<lparr>GlobalTotalRTT := GlobalTotalRTT m + cost, GlobalCountRTT := GlobalCountRTT m + 1\<rparr>"

definition sendClient :: "genv \<Rightarrow> i64 \<Rightarrow> mref \<Rightarrow> gstate \<Rightarrow> gstate" where
  "sendClient genv now msg sw =
    (let (s, w) = sw
     in if SessionId (msg_of w msg) > 0 then
          (case g_chan genv (SessionId (msg_of w msg)) of
             None \<Rightarrow> (s, w)
           | Some c \<Rightarrow>
              (let w = retain msg w;
                   s = s\<lparr>s_outbox := s_outbox s @ [(c, msg)]\<rparr>;
                   s = count_sent s;
                   s = (if SeqId (msg_of w msg) > 0
                        then (let (rtt, t) = Complete c (SeqId (msg_of w msg)) now (RTTTracker (s_metrics s));
                                  s = upd_metrics (\<lambda>m. m\<lparr>RTTTracker := t\<rparr>) s
                              in case rtt of None \<Rightarrow> s | Some d \<Rightarrow> upd_metrics (RecordRTT d) s)
                        else s)
               in (s, w)))
        else (s, w))"

definition gate_HandleRespMessage :: "genv \<Rightarrow> i64 \<Rightarrow> mref \<Rightarrow> gstate \<Rightarrow> gstate" where
  "gate_HandleRespMessage genv now msg sw =
    (if ToClient (msg_of (snd sw) msg) then sendClient genv now msg sw else sw)"

definition HandleToClientFastPath :: "genv \<Rightarrow> i64 \<Rightarrow> mref option \<Rightarrow> gstate \<Rightarrow> bool \<times> gstate" where
  "HandleToClientFastPath genv now msg sw =
    (case msg of
       None \<Rightarrow> (False, sw)
     | Some m \<Rightarrow> if \<not> ToClient (msg_of (snd sw) m) then (False, sw) else (True, sendClient genv now m sw))"

section \<open>Routing\<close>

definition remote_pick :: "genv \<Rightarrow> message \<Rightarrow> ActorConfig list \<Rightarrow> Server \<Rightarrow> int \<times> Server" where
  "remote_pick genv m candidates s =
    (case remoteStrategy s of
       None \<Rightarrow> (FirstCandidateStrategy_PickOne (Some m) candidates, s)
     | Some SFirst \<Rightarrow> (FirstCandidateStrategy_PickOne (Some m) candidates, s)
     | Some (SRoundRobin r) \<Rightarrow>
        (let (k, r) = RoundRobinStrategy_PickOne r (Some m) candidates
         in (k, s\<lparr>remoteStrategy := Some (SRoundRobin r)\<rparr>))
     | Some (SRendezvous r) \<Rightarrow> (RendezvousHashStrategy_PickOne r (Some m) candidates, s)
     | Some (SUser f) \<Rightarrow> (g_pick genv f m candidates, s))"

text \<open>The candidate of the \<open>i\<close>-th attempt: the preferred one, then the others in order.\<close>

definition remote_target :: "ActorConfig list \<Rightarrow> nat \<Rightarrow> nat \<Rightarrow> ActorConfig" where
  "remote_target candidates pickIdx i =
    (if i = 0 then candidates ! pickIdx
     else (let origIdx = i - 1;
               origIdx = (if origIdx \<ge> pickIdx then origIdx + 1 else origIdx)
           in candidates ! origIdx))"

text \<open>The loop over the attempts; \<open>encoded\<close> is the reused buffer, \<open>accept\<close> the bus.\<close>

fun remote_attempts ::
  "(string \<Rightarrow> byte list \<Rightarrow> bool) \<Rightarrow> mref \<Rightarrow> byte list \<Rightarrow> ActorConfig list \<Rightarrow> world \<Rightarrow> bool \<times> world" where
  "remote_attempts accept msg encoded [] w = (False, w)"
| "remote_attempts accept msg encoded (target # rest) w =
    (let w = set_msg msg (\<lambda>x. x\<lparr>TarActor := Id target\<rparr>) w;
         topic = GetTopic target;
         need = Size (msg_of w msg);
         encoded = (if length encoded < need then replicate need 0 else encoded);
         encoded = take need encoded
     in case MarshalTo (msg_of w msg) encoded of
          (Inl e, encoded) \<Rightarrow> (False, w)
        | (Inr n, encoded) \<Rightarrow>
           if accept topic (take n encoded)
           then (True, w\<lparr>w_bus := w_bus w @ [(topic, take n encoded)]\<rparr>)
           else remote_attempts accept msg encoded rest w)"

text \<open>The group of this repository implements the fast view; \<open>order\<close> is the visit order of its map.
  The other branch, for a group without it, is \<open>remote_scan\<close>.\<close>

definition remote_scan :: "i32 \<Rightarrow> ActorConfig list \<Rightarrow> ActorConfig list" where
  "remote_scan mid configs =
    fold (\<lambda>cfg candidates. if length (SupportedMsgIDs cfg) = 0 then candidates
            else if mid \<in> set (SupportedMsgIDs cfg) then candidates @ [cfg] else candidates) configs []"

definition routeToRemoteActor :: "genv \<Rightarrow> env \<Rightarrow> u64 list \<Rightarrow> mref \<Rightarrow> gstate \<Rightarrow> bool \<times> gstate" where
  "routeToRemoteActor genv env order msg sw =
    (let (s, w) = sw
     in if \<not> g_discoverer genv then (False, (s, w))
        else (let (candidates, g) = LookupOtherActorConfigsByMsgIDView order (MsgId (msg_of w msg)) (w_group w);
                  w = w\<lparr>w_group := g\<rparr>
              in if length candidates = 0 then (False, (s, w))
                 else (case e_bus env of
                    None \<Rightarrow> (False, (s, w))
                  | Some accept \<Rightarrow>
                     (let (pickIdx, s) = remote_pick genv (msg_of w msg) candidates s;
                          pickIdx = (if pickIdx < 0 \<or> pickIdx \<ge> int (length candidates) then 0 else pickIdx);
                          (ok, w) = remote_attempts accept msg []
                                      (map (remote_target candidates (nat pickIdx)) [0..<length candidates]) w
                      in (ok, (s, w))))))"

definition sendNoRouteError :: "genv \<Rightarrow> i64 \<Rightarrow> mref option \<Rightarrow> gstate \<Rightarrow> gstate" where
  "sendNoRouteError genv now orig sw =
    (let (s, w) = sw
     in case orig of
          None \<Rightarrow> (s, w)
        | Some m \<Rightarrow>
           (case noRouteHandler s of
              None \<Rightarrow> (s, w)
            | Some f \<Rightarrow>
               (let ((reply, handled), w) = g_noRoute genv f m w
                in if handled then (case reply of Some r \<Rightarrow> sendClient genv now r (s, w) | None \<Rightarrow> (s, w))
                   else (s, w))))"

text \<open>\<open>False\<close> is a panic of a handler registered with the gateway, as in \<open>ZActor\<close>.\<close>

definition gateHandler :: "genv \<Rightarrow> env \<Rightarrow> i64 \<Rightarrow> u64 list \<Rightarrow> mref \<Rightarrow> gstate \<Rightarrow> bool \<times> gstate" where
  "gateHandler genv env now order msg sw =
    (let (s, w) = sw; i = s_actor s
     in if msgIdList (a_handle (w_actors w i)) (MsgId (msg_of w msg)) \<noteq> None
        then (let (ok, w) = Registry_HandleClientMessage env i msg w in (ok, (s, w)))
        else (let local = (if s_router s
                           then (case RouteLocal (Some (w_group w)) (Some (msg_of w msg)) of
                                   Inr target \<Rightarrow> if actorId w target \<noteq> actorId w i then Some target else None
                                 | Inl e \<Rightarrow> None)
                           else None)
              in case local of
                   Some target \<Rightarrow>
                     (True, (s, Push env target (cmd_zero\<lparr>Type := CmdTypeClient, Msg := Some msg\<rparr>) (retain msg w)))
                 | None \<Rightarrow>
                    (let (ok, sw) = (if g_discoverer genv then routeToRemoteActor genv env order msg (s, w)
                                     else (False, (s, w)))
                     in if ok then (True, sw) else (True, sendNoRouteError genv now (Some msg) sw))))"

definition gate_HandleClientMessage :: "genv \<Rightarrow> env \<Rightarrow> i64 \<Rightarrow> u64 list \<Rightarrow> mref \<Rightarrow> gstate \<Rightarrow> bool \<times> gstate" where
  "gate_HandleClientMessage genv env now order msg sw =
    (case g_chan genv (SessionId (msg_of (snd sw) msg)) of
       None \<Rightarrow> (True, sw)
     | Some c \<Rightarrow> gateHandler genv env now order msg sw)"

section \<open>Closing and reporting\<close>

text \<open>Go's \<open>%\<close> truncates; the counters are positive in the two branches.\<close>

definition gate_Close :: "bool \<Rightarrow> gstate \<Rightarrow> net_event list \<times> gstate" where
  "gate_Close hasServer sw =
    (let (s, w) = sw;
         r = localRecvCount s; s = s\<lparr>localRecvCount := 0\<rparr>;
         s = (if sint r > 0
              then upd_metrics (\<lambda>m. m\<lparr>recvCount := recvCount m + word_of_int (sint r mod 100),
                     recvCountTotal := recvCountTotal m + word_of_int (sint r mod 100)\<rparr>) s else s);
         n = localSentCount s; s = s\<lparr>localSentCount := 0\<rparr>;
         s = (if sint n > 0
              then upd_metrics (\<lambda>m. m\<lparr>sentCount := sentCount m + word_of_int (sint n mod 100),
                     sentCountTotal := sentCountTotal m + word_of_int (sint n mod 100)\<rparr>) s else s)
     in ((if httpServer s then [HttpShutdown] else []) @ (if hasServer then [NetClose] else []),
         (s, Close (s_actor s) w)))"

text \<open>One tick of \<open>ReportMetrics\<close>: the deltas of the period and the samples, \<open>None\<close> when the gateway
  is idle or the clock has not advanced (\<open>elapsed\<close>) and nothing is reported.\<close>

definition ReportMetrics_tick :: "bool \<Rightarrow> Server \<Rightarrow> (i64 \<times> i64 \<times> i32 \<times> i64 list) option \<times> Server" where
  "ReportMetrics_tick elapsed s =
    (let deltaRecv = recvCount (s_metrics s);
         s = upd_metrics (\<lambda>m. m\<lparr>recvCount := 0\<rparr>) s;
         deltaSent = sentCount (s_metrics s);
         s = upd_metrics (\<lambda>m. m\<lparr>sentCount := 0\<rparr>) s;
         deltaTotal = deltaRecv + deltaSent;
         onlineCount = OnlineUsers (s_metrics s)
     in if onlineCount = 0 \<and> deltaTotal = 0
        then (None, upd_metrics (\<lambda>m. m\<lparr>RTTTracker := snd (GetAndResetSamples (RTTTracker m))\<rparr>) s)
        else if \<not> elapsed then (None, s)
        else (let (rawSamples, t) = GetAndResetSamples (RTTTracker (s_metrics s))
              in (Some (deltaRecv, deltaSent, onlineCount, rawSamples), upd_metrics (\<lambda>m. m\<lparr>RTTTracker := t\<rparr>) s)))"

section \<open>The order of the remote attempts\<close>

lemma remote_order:
  assumes "p < length cs"
  shows "map (remote_target cs p) [0..<length cs] = cs ! p # take p cs @ drop (Suc p) cs"
proof (rule nth_equalityI)
  show "length (map (remote_target cs p) [0..<length cs]) = length (cs ! p # take p cs @ drop (Suc p) cs)"
    using assms by simp
  fix i assume "i < length (map (remote_target cs p) [0..<length cs])"
  then show "map (remote_target cs p) [0..<length cs] ! i = (cs ! p # take p cs @ drop (Suc p) cs) ! i"
    using assms by (auto simp: remote_target_def Let_def nth_Cons nth_append split: nat.split)
qed

text \<open>The bytes sent to a candidate.\<close>

definition wire_to :: "message \<Rightarrow> ActorConfig \<Rightarrow> byte list" where
  "wire_to m c = wire_image (m\<lparr>TarActor := Id c\<rparr>)"

lemma wire_to_TarActor [simp]: "wire_to (m\<lparr>TarActor := t\<rparr>) c = wire_to m c"
  by (simp add: wire_to_def)

lemma remote_attempts_find:
  assumes "length (Data (msg_of w msg)) < 2 ^ 32"
  shows "(case find (\<lambda>c. accept (GetTopic c) (wire_to (msg_of w msg) c)) cs of
      None \<Rightarrow> fst (remote_attempts accept msg encoded cs w) = False
        \<and> w_bus (snd (remote_attempts accept msg encoded cs w)) = w_bus w
    | Some c \<Rightarrow> fst (remote_attempts accept msg encoded cs w) = True
        \<and> w_bus (snd (remote_attempts accept msg encoded cs w)) = w_bus w @ [(GetTopic c, wire_to (msg_of w msg) c)])
    \<and> w_actors (snd (remote_attempts accept msg encoded cs w)) = w_actors w"
  using assms
proof (induction cs arbitrary: w encoded)
  case (Cons c cs)
  let ?w = "set_msg msg (\<lambda>x. x\<lparr>TarActor := Id c\<rparr>) w"
  let ?m = "msg_of w msg"
  have m: "msg_of ?w msg = ?m\<lparr>TarActor := Id c\<rparr>" by (simp add: set_msg_def upd_msg_def)
  have b: "w_bus ?w = w_bus w" "w_actors ?w = w_actors w" by (simp_all add: set_msg_def hp_def)
  let ?buf = "take (Size (msg_of ?w msg)) (if length encoded < Size (msg_of ?w msg) then replicate (Size (msg_of ?w msg)) 0 else encoded)"
  have len: "length ?buf = Size (msg_of ?w msg)" by simp
  have mt: "MarshalTo (msg_of ?w msg) ?buf = (Inr (Size (msg_of ?w msg)), wire_to ?m c)"
    using MarshalTo_image [of "msg_of ?w msg" ?buf] len Cons.prems by (simp add: m wire_to_def)
  have w: "take (Size (msg_of ?w msg)) (wire_to ?m c) = wire_to ?m c" by (simp add: m wire_to_def)
  have step: "remote_attempts accept msg encoded (c # cs) w
      = (if accept (GetTopic c) (wire_to ?m c) then (True, ?w\<lparr>w_bus := w_bus ?w @ [(GetTopic c, wire_to ?m c)]\<rparr>)
         else remote_attempts accept msg (wire_to ?m c) cs ?w)"
    unfolding remote_attempts.simps Let_def mt prod.case sum.case w ..
  have "length (Data (msg_of ?w msg)) < 2 ^ 32" using Cons.prems by (simp add: m)
  from Cons.IH [OF this, of "wire_to ?m c"] show ?case
    unfolding step by (auto simp: m b split: option.splits)
qed simp

section \<open>Where a client message goes\<close>

text \<open>The specification: the first actor registered for the message identifier, unless that is the
  gateway; otherwise the first remote candidate that the bus accepts, the strategy's choice before
  the others; otherwise nobody.\<close>

datatype route = ToActor aref | ToRemote ActorConfig | NoRoute

definition preferred :: "genv \<Rightarrow> message \<Rightarrow> ActorConfig list \<Rightarrow> Server \<Rightarrow> nat" where
  "preferred genv m cs s =
    (let k = fst (remote_pick genv m cs s) in if k < 0 \<or> k \<ge> int (length cs) then 0 else nat k)"

definition route_of :: "genv \<Rightarrow> env \<Rightarrow> u64 list \<Rightarrow> mref \<Rightarrow> Server \<Rightarrow> world \<Rightarrow> route" where
  "route_of genv env order msg s w =
    (let m = msg_of w msg; locals = LookupActorsByMsgIDView (MsgId m) (w_group w);
         cs = fst (LookupOtherActorConfigsByMsgIDView order (MsgId m) (w_group w)); p = preferred genv m cs s
     in if s_router s \<and> locals \<noteq> [] \<and> actorId w (hd locals) \<noteq> actorId w (s_actor s) then ToActor (hd locals)
        else (case e_bus env of
           None \<Rightarrow> NoRoute
         | Some accept \<Rightarrow>
            if \<not> g_discoverer genv \<or> cs = [] then NoRoute
            else (case find (\<lambda>c. accept (GetTopic c) (wire_to m c)) (cs ! p # take p cs @ drop (Suc p) cs) of
                    Some c \<Rightarrow> ToRemote c | None \<Rightarrow> NoRoute)))"

lemma routeToRemoteActor_route:
  assumes len: "length (Data (msg_of w msg)) < 2 ^ 32" and g: "g_discoverer genv"
    and r: "routeToRemoteActor genv env order msg (s, w) = (ok, (s', w'))"
    and cs: "cs = fst (LookupOtherActorConfigsByMsgIDView order (MsgId (msg_of w msg)) (w_group w))"
    and p: "p = preferred genv (msg_of w msg) cs s"
  shows "w_actors w' = w_actors w
    \<and> (case e_bus env of
         None \<Rightarrow> \<not> ok \<and> w_bus w' = w_bus w
       | Some accept \<Rightarrow>
          if cs = [] then \<not> ok \<and> w_bus w' = w_bus w
          else (case find (\<lambda>c. accept (GetTopic c) (wire_to (msg_of w msg) c)) (cs ! p # take p cs @ drop (Suc p) cs) of
                  None \<Rightarrow> \<not> ok \<and> w_bus w' = w_bus w
                | Some c \<Rightarrow> ok \<and> w_bus w' = w_bus w @ [(GetTopic c, wire_to (msg_of w msg) c)]))
    \<and> noRouteHandler s' = noRouteHandler s"
proof -
  obtain gr where l: "LookupOtherActorConfigsByMsgIDView order (MsgId (msg_of w msg)) (w_group w) = (cs, gr)"
    using cs by (metis prod.collapse)
  let ?w = "w\<lparr>w_group := gr\<rparr>"
  show ?thesis
  proof (cases "cs = [] \<or> e_bus env = None")
    case True
    then have "ok = False \<and> s' = s \<and> w' = ?w" using r g l by (cases "cs = []") (auto simp: routeToRemoteActor_def Let_def)
    then show ?thesis using True by (auto split: option.splits)
  next
    case False
    then obtain accept where a: "e_bus env = Some accept" and ne: "cs \<noteq> []" by auto
    obtain k s1 where k: "remote_pick genv (msg_of w msg) cs s = (k, s1)" by fastforce
    have nr: "noRouteHandler s1 = noRouteHandler s"
      using k by (auto simp: remote_pick_def split: option.splits strategy.splits prod.splits)
    have pk: "(if k < 0 \<or> k \<ge> int (length cs) then 0 else k) = int p" "p < length cs"
      using p k ne by (auto simp: preferred_def Let_def nat_less_iff)
    define ord where "ord = cs ! p # take p cs @ drop (Suc p) cs"
    have "(ok, (s', w')) = (let (ok, w) = remote_attempts accept msg [] (map (remote_target cs p) [0..<length cs]) ?w
        in (ok, (s1, w)))"
      using r g l a ne k pk(1) by (simp add: routeToRemoteActor_def Let_def case_prod_beta cong: if_cong)
    then have eqs: "s' = s1" "ok = fst (remote_attempts accept msg [] ord ?w)" "w' = snd (remote_attempts accept msg [] ord ?w)"
      unfolding remote_order [OF pk(2)] ord_def [symmetric] by (auto split: prod.splits)
    have "length (Data (msg_of ?w msg)) < 2 ^ 32" using len by simp
    from remote_attempts_find [OF this, where accept = accept and encoded = "[]" and cs = ord]
    show ?thesis unfolding ord_def [symmetric] using eqs a ne nr by (auto split: option.splits)
  qed
qed

text \<open>Claim C4: A message of a connected client that the gateway does not handle itself goes to
  exactly one destination, the one the specification \<open>route_of\<close> names: one command in the mailbox of
  the first actor registered for its identifier, or one publication on the topic of one remote actor
  with the message addressed to that actor, or nowhere; nothing else is delivered.\<close>

theorem gate_routes_once:
  assumes "g_chan genv (SessionId (msg_of w msg)) \<noteq> None"
    and "msgIdList (a_handle (w_actors w (s_actor s))) (MsgId (msg_of w msg)) = None"
    and "length (Data (msg_of w msg)) < 2 ^ 32" and "noRouteHandler s = None"
    and "\<And>j. mailClosed (w_actors w j) \<Longrightarrow> e_closedAccepts env"
    and "gate_HandleClientMessage genv env now order msg (s, w) = (ok, (s', w'))"
  shows "case route_of genv env order msg s w of
      ToActor t \<Rightarrow> mailBoxQueue (w_actors w' t) = mailBoxQueue (w_actors w t) @ [cmd_zero\<lparr>Type := CmdTypeClient, Msg := Some msg\<rparr>]
        \<and> (\<forall>j. j \<noteq> t \<longrightarrow> w_actors w' j = w_actors w j) \<and> w_bus w' = w_bus w
    | ToRemote c \<Rightarrow> w_bus w' = w_bus w @ [(GetTopic c, wire_to (msg_of w msg) c)] \<and> w_actors w' = w_actors w
    | NoRoute \<Rightarrow> w_bus w' = w_bus w \<and> w_actors w' = w_actors w"
proof -
  let ?m = "msg_of w msg"
  let ?locals = "LookupActorsByMsgIDView (MsgId ?m) (w_group w)"
  let ?local = "s_router s \<and> ?locals \<noteq> [] \<and> actorId w (hd ?locals) \<noteq> actorId w (s_actor s)"
  have h: "gateHandler genv env now order msg (s, w) = (ok, (s', w'))"
    using assms(1,6) by (auto simp: gate_HandleClientMessage_def)
  have loc: "(if s_router s then (case RouteLocal (Some (w_group w)) (Some ?m) of
        Inr target \<Rightarrow> if actorId w target \<noteq> actorId w (s_actor s) then Some target else None | Inl e \<Rightarrow> None)
      else None) = (if ?local then Some (hd ?locals) else None)"
    by (auto simp: RouteLocal_def Let_def hd_conv_nth)
  show ?thesis
  proof (cases ?local)
    case True
    have "Push env t (cmd_zero\<lparr>Type := CmdTypeClient, Msg := Some msg\<rparr>) v
        = upd_actor t (\<lambda>x. x\<lparr>mailBoxQueue := mailBoxQueue x @ [cmd_zero\<lparr>Type := CmdTypeClient, Msg := Some msg\<rparr>]\<rparr>) v"
      if "w_actors v = w_actors w" for t v
      using assms(5) that by (auto simp: Push_def Enqueue_def cmd_zero_def)
    then have "w' = upd_actor (hd ?locals) (\<lambda>x. x\<lparr>mailBoxQueue := mailBoxQueue x
        @ [cmd_zero\<lparr>Type := CmdTypeClient, Msg := Some msg\<rparr>]\<rparr>) (retain msg w)"
      using h assms(2) True loc by (simp add: gateHandler_def)
    then show ?thesis using True by (simp add: route_of_def Let_def upd_actor_def hp_def)
  next
    case False
    then have "(if ?local then Some (hd ?locals) else None) = None" by auto
    note none = loc [unfolded this]
    have h': "(let (ok, sw) = (if g_discoverer genv then routeToRemoteActor genv env order msg (s, w) else (False, (s, w)))
        in if ok then (True, sw) else (True, sendNoRouteError genv now (Some msg) sw)) = (ok, (s', w'))"
      using h assms(2) none by (simp add: gateHandler_def)
    show ?thesis
    proof (cases "g_discoverer genv")
      case disc: False
      then have "w' = w" using h' assms(4) by (simp add: sendNoRouteError_def)
      then show ?thesis using False disc by (auto simp: route_of_def Let_def split: option.split)
    next
      case True
      obtain ok1 s1 w1 where r: "routeToRemoteActor genv env order msg (s, w) = (ok1, (s1, w1))" by (metis prod_cases3)
      note rt = routeToRemoteActor_route [OF assms(3) True r refl refl]
      have "w' = w1" using h' True r rt assms(4) by (auto simp: sendNoRouteError_def split: if_splits)
      then show ?thesis using False True rt by (auto simp: route_of_def Let_def split: option.splits if_splits)
    qed
  qed
qed

section \<open>References\<close>

text \<open>The channels hold a reference to every message in the outbox.\<close>

definition outbox_refs :: "Server \<Rightarrow> mref multiset" where
  "outbox_refs s = mset (map snd (s_outbox s))"

lemma outbox_simps [simp]:
  "outbox_refs (upd_metrics f s) = outbox_refs s" "s_actor (upd_metrics f s) = s_actor s"
  "localRecvCount (upd_metrics f s) = localRecvCount s" "localSentCount (upd_metrics f s) = localSentCount s"
  "s_metrics (upd_metrics f s) = f (s_metrics s)" "s_outbox (upd_metrics f s) = s_outbox s"
  "noRouteHandler (upd_metrics f s) = noRouteHandler s"
  by (simp_all add: outbox_refs_def upd_metrics_def)

lemma count_simps [simp]:
  "outbox_refs (count_recv s) = outbox_refs s" "s_actor (count_recv s) = s_actor s"
  "outbox_refs (count_sent s) = outbox_refs s" "s_actor (count_sent s) = s_actor s"
  "s_outbox (count_recv s) = s_outbox s" "s_outbox (count_sent s) = s_outbox s"
  "localSentCount (count_recv s) = localSentCount s" "localRecvCount (count_sent s) = localRecvCount s"
  by (simp_all add: count_recv_def count_sent_def Let_def outbox_refs_def)

text \<open>What the hooks of the gateway must respect.\<close>

definition genv_ok :: "genv \<Rightarrow> bool" where
  "genv_ok genv \<longleftrightarrow> (\<forall>f m. RefCount (g_inject genv f m) = RefCount m)
     \<and> (\<forall>f a S T w r h w'. winv False S T w \<longrightarrow> a \<in># S + held T w \<longrightarrow> g_noRoute genv f a w = ((r, h), w') \<longrightarrow>
          winv False (mset (opt_list r) + S) T w' \<and> frame T w w'
          \<and> (\<forall>b. r = Some b \<longrightarrow> refs (w_heap w') b < 2 ^ 31 - 1))"

lemma winv_sendClient:
  assumes w: "winv e (outbox_refs s + S) T w" and m: "m \<in># outbox_refs s + S + held T w"
    and room: "refs (w_heap w) m < 2 ^ 31 - 1" and r: "sendClient genv now m (s, w) = (s', w')"
  shows "winv e (outbox_refs s' + S) T w'" and "frame T w w'" and "s_actor s' = s_actor s"
proof -
  have ret: "winv e (add_mset m (outbox_refs s + S)) T (retain m w)" by (rule winv_retain [OF w m room])
  have "s' = s \<and> w' = w \<or> outbox_refs s' = add_mset m (outbox_refs s) \<and> s_actor s' = s_actor s \<and> w' = retain m w"
    using r unfolding sendClient_def Let_def
    by (auto split: if_splits option.splits prod.splits) (auto simp: outbox_refs_def)
  then show "winv e (outbox_refs s' + S) T w'" "frame T w w'" "s_actor s' = s_actor s"
    using w ret by auto
qed

lemma winv_GenCliMsg:
  assumes env: "env_ok e env" and genv: "genv_ok genv" and w: "winv e S T w"
    and r: "GenCliMsg genv env s c nm w = (cmd, w')"
  shows "\<exists>m. cmd = cmd_zero\<lparr>Type := CmdTypeClient, Msg := Some m\<rparr> \<and> winv e (add_mset m S) T w'
    \<and> refs (w_heap w') m = 1" and "frame T w w'" and "w_nact w' = w_nact w"
proof -
  obtain m w1 where n: "newMsg env w = (m, w1)" by fastforce
  note w1 = winv_newMsg [OF w env n]
  define f where "f = (\<lambda>x :: message. x\<lparr>MsgId := wire_MsgId nm, SeqId := wire_SeqId nm, Data := wire_Data nm,
               DataCap := (if length (wire_Data nm) \<le> DataCap x then DataCap x else e_grow env (length (wire_Data nm))),
               SessionId := c, FromClient := True, SrcActor := actorId w1 (s_actor s)\<rparr>)"
  define w2 where "w2 = set_msg m f w1"
  have w2: "winv e (add_mset m S) T w2" unfolding w2_def by (rule winv_set_msg [OF w1(1)]) (simp_all add: f_def)
  have z: "winv e (add_mset m S) T (w2\<lparr>w_zid := Suc (w_zid w2)\<rparr>)"
    using w2 by (simp add: winv_def tasks_inv_def acts_inv_def task_ok_def held_def acts_held_def tasks_held_def flying_def)
  have inj: "RefCount (g_inject genv h x) = RefCount x" for h x using genv by (simp add: genv_ok_def)
  have "cmd = cmd_zero\<lparr>Type := CmdTypeClient, Msg := Some m\<rparr>"
    and w': "w' = (case traceInjectGateRecv s of
                Some h \<Rightarrow> set_msg m (g_inject genv h) w2
              | None \<Rightarrow> (let (z, w) = nextZid env w2
                         in set_msg m (\<lambda>x. x\<lparr>TraceIdHi := z, SpanId := actorId w (s_actor s)\<rparr>) w))"
    using r unfolding GenCliMsg_def n Let_def prod.case f_def [symmetric] w2_def [symmetric] by simp_all
  moreover have "winv e (add_mset m S) T w'"
    unfolding w' nextZid_def using inj by (auto split: option.split intro!: winv_set_msg [OF w2] winv_set_msg [OF z])
  moreover have "refs (w_heap w') m = 1" "frame T w w'" "w_nact w' = w_nact w"
    using w1 inj by (auto simp: w' w2_def f_def nextZid_def set_msg_def frame_def split: option.split)
  ultimately show "\<exists>m. cmd = cmd_zero\<lparr>Type := CmdTypeClient, Msg := Some m\<rparr> \<and> winv e (add_mset m S) T w'
    \<and> refs (w_heap w') m = 1" "frame T w w'" "w_nact w' = w_nact w" by blast+
qed

lemma OnRead_server:
  assumes "OnRead genv env now chn nm (s, w) = (s', w')"
  shows "s_actor s' = s_actor s" and "s_outbox s' = s_outbox s" and "localSentCount s' = localSentCount s"
  using assms by (auto simp: OnRead_def Let_def split: option.splits if_splits prod.splits)

lemma winv_OnRead:
  assumes env: "env_ok e env" and genv: "genv_ok genv" and w: "winv e S T w" and i: "s_actor s < w_nact w"
    and r: "OnRead genv env now chn nm (s, w) = (s', w')"
  shows "winv e S T w'" and "frame T w w'"
proof -
  have "winv e S T w' \<and> frame T w w'"
  proof (cases "\<exists>c. chn = Some c \<and> g_allow genv c")
    case False
    then have "w' = w" using r by (auto simp: OnRead_def split: option.splits)
    then show ?thesis using w by simp
  next
    case True
    then obtain c where c: "chn = Some c" "g_allow genv c" by blast
    obtain cmd w1 where g: "GenCliMsg genv env s c nm w = (cmd, w1)" by fastforce
    note gen = winv_GenCliMsg [OF env genv w g]
    obtain m where m: "cmd = cmd_zero\<lparr>Type := CmdTypeClient, Msg := Some m\<rparr>" "winv e (add_mset m S) T w1"
      "refs (w_heap w1) m = 1" using gen(1) by blast
    have cm: "Msg cmd = Some m" "Any cmd = None" "cmd_ok e cmd" using m(1) by (simp_all add: cmd_zero_def cmd_ok_def)
    have "winv e S T (Push env (s_actor s) cmd w1)"
      using m(2,3) i gen(3) cm by (intro winv_Push [OF env]) simp_all
    moreover have "frame T w (Push env (s_actor s) cmd w1)"
      by (rule frame_trans [OF gen(2)], rule frame_Push [OF env m(2)]) (simp add: cm)
    moreover have "w' = Push env (s_actor s) cmd w1" using r c g by (simp add: OnRead_def Let_def)
    ultimately show ?thesis by simp
  qed
  then show "winv e S T w'" "frame T w w'" by simp_all
qed

lemma winv_remote_attempts:
  assumes "winv e S T w" and "m \<in># S + held T w"
  shows "winv e S T (snd (remote_attempts accept m encoded cs w))
    \<and> frame T w (snd (remote_attempts accept m encoded cs w))"
  using assms
proof (induction cs arbitrary: w encoded)
  case (Cons c cs)
  let ?w = "set_msg m (\<lambda>x. x\<lparr>TarActor := Id c\<rparr>) w"
  have w: "winv e S T ?w" by (rule winv_set_msg [OF Cons.prems]) simp
  have h: "m \<in># S + held T ?w" using Cons.prems(2) by (simp add: set_msg_def)
  have b: "winv e S T (?w\<lparr>w_bus := b\<rparr>)" "frame T w (?w\<lparr>w_bus := b\<rparr>)" for b
    using w by (simp_all add: frame_def set_msg_def)
  have fr: "frame T w ?w" by simp
  note ih = Cons.IH [OF w h]
  show ?case using w fr b ih frame_trans [OF fr] by (auto simp: Let_def split: prod.split sum.split)
qed simp

lemma Lookup_actors [simp]:
  "actors (snd (LookupOtherActorConfigsByMsgIDView order k g)) = actors g"
  "msgRouteTable (snd (LookupOtherActorConfigsByMsgIDView order k g)) = msgRouteTable g"
  by (simp_all add: LookupOtherActorConfigsByMsgIDView_def Let_def)

lemma remote_pick_server [simp]:
  "s_outbox (snd (remote_pick genv m cs s)) = s_outbox s" "s_actor (snd (remote_pick genv m cs s)) = s_actor s"
  "localRecvCount (snd (remote_pick genv m cs s)) = localRecvCount s"
  "localSentCount (snd (remote_pick genv m cs s)) = localSentCount s"
  "s_metrics (snd (remote_pick genv m cs s)) = s_metrics s"
  "noRouteHandler (snd (remote_pick genv m cs s)) = noRouteHandler s"
  by (auto simp: remote_pick_def split: option.split strategy.split prod.split)

text \<open>Remote routing changes nothing of the server but the strategy's own state.\<close>

lemma routeToRemote_server:
  assumes "routeToRemoteActor genv env order m (s, w) = (ok, (s', w'))"
  shows "s_outbox s' = s_outbox s \<and> s_actor s' = s_actor s \<and> localRecvCount s' = localRecvCount s
    \<and> localSentCount s' = localSentCount s \<and> s_metrics s' = s_metrics s \<and> noRouteHandler s' = noRouteHandler s"
  using assms unfolding routeToRemoteActor_def Let_def case_prod_beta
  by (auto split: if_splits option.splits)

lemma winv_routeToRemote:
  assumes w: "winv e S T w" and m: "m \<in># S + held T w"
    and r: "routeToRemoteActor genv env order m (s, w) = (ok, (s', w'))"
  shows "winv e S T w' \<and> frame T w w'"
proof -
  let ?w = "w\<lparr>w_group := snd (LookupOtherActorConfigsByMsgIDView order (MsgId (msg_of w m)) (w_group w))\<rparr>"
  have w1: "winv e S T ?w" using winvD(3) [OF w] by (intro winv_group [OF w]) (auto simp: acts_inv_def)
  have h: "m \<in># S + held T ?w" using m by (simp add: held_def acts_held_def flying_def tasks_held_def)
  have fr: "frame T w ?w" by (simp add: frame_def)
  have "w' = w \<or> w' = ?w \<or> (\<exists>accept encoded cs. w' = snd (remote_attempts accept m encoded cs ?w))"
    using r unfolding routeToRemoteActor_def Let_def case_prod_beta
    by (auto split: if_splits option.splits)
  then show ?thesis using w w1 fr winv_remote_attempts [OF w1 h] frame_trans [OF fr] by auto
qed

lemma winv_sendNoRouteError:
  assumes genv: "genv_ok genv" and w: "winv False (outbox_refs s + S) T w" and m: "m \<in># outbox_refs s + S + held T w"
    and r: "sendNoRouteError genv now (Some m) (s, w) = (s', w')"
  shows "winv False (outbox_refs s' + S) T w' \<and> frame T w w' \<and> s_actor s' = s_actor s"
proof (cases "noRouteHandler s")
  case None
  then show ?thesis using r w by (simp add: sendNoRouteError_def)
next
  case (Some f)
  obtain p h w1 where n: "g_noRoute genv f m w = ((p, h), w1)" by (metis prod.collapse)
  have w1: "winv False (mset (opt_list p) + (outbox_refs s + S)) T w1" "frame T w w1"
    "\<And>b. p = Some b \<Longrightarrow> refs (w_heap w1) b < 2 ^ 31 - 1"
    using genv w m n unfolding genv_ok_def by blast+
  have keep: "winv False (outbox_refs s + S) T w1" by (rule winv_drop [OF w1(1)]) simp_all
  show ?thesis
  proof (cases "h \<and> p \<noteq> None")
    case False
    then have "s' = s \<and> w' = w1" using r Some n by (auto simp: sendNoRouteError_def split: if_splits option.splits)
    then show ?thesis using keep w1(2) by simp
  next
    case True
    then obtain b where b: "p = Some b" by blast
    have wb: "winv False (outbox_refs s + add_mset b S) T w1" using w1(1) b by simp
    have sc: "sendClient genv now b (s, w1) = (s', w')" using r Some n True b by (simp add: sendNoRouteError_def)
    have "b \<in># outbox_refs s + add_mset b S + held T w1" by simp
    note c = winv_sendClient [OF wb this w1(3) [OF b] sc]
    have "winv False (outbox_refs s' + S) T w'" by (rule winv_drop [OF c(1)]) simp_all
    then show ?thesis using c(2,3) w1(2) by (auto intro: frame_trans)
  qed
qed

definition routes_ok :: "world \<Rightarrow> bool" where
  "routes_ok w \<longleftrightarrow> (\<forall>k. set (LookupActorsByMsgIDView k (w_group w)) \<subseteq> {..<w_nact w})"

lemma winv_gateHandler:
  assumes env: "env_ok False env" and genv: "genv_ok genv" and w: "winv False (outbox_refs s + S) T w"
    and m: "m \<in># S" and i: "s_actor s < w_nact w" and room: "refs (w_heap w) m < 2 ^ 31 - 2"
    and routes: "routes_ok w" and r: "gateHandler genv env now order m (s, w) = (ok, (s', w'))"
  shows "winv False (outbox_refs s' + S) T w' \<and> s_actor s' = s_actor s"
proof (cases "msgIdList (a_handle (w_actors w (s_actor s))) (MsgId (msg_of w m)) = None")
  case False
  then have "s' = s \<and> w' = snd (Registry_HandleClientMessage env (s_actor s) m w)"
    using r by (auto simp: gateHandler_def Let_def case_prod_beta)
  moreover have "winv False (outbox_refs s + S) T (snd (Registry_HandleClientMessage env (s_actor s) m w))"
    using w winv_msg_call [OF env w] m by (simp add: Registry_HandleClientMessage_def split: option.split)
  ultimately show ?thesis by simp
next
  case True
  define loc where "loc = (if s_router s
                           then (case RouteLocal (Some (w_group w)) (Some (msg_of w m)) of
                                   Inr target \<Rightarrow> if actorId w target \<noteq> actorId w (s_actor s) then Some target else None
                                 | Inl e \<Rightarrow> None)
                           else None)"
  have r': "(case loc of
                   Some target \<Rightarrow>
                     (True, (s, Push env target (cmd_zero\<lparr>Type := CmdTypeClient, Msg := Some m\<rparr>) (retain m w)))
                 | None \<Rightarrow>
                    (let (ok, sw) = (if g_discoverer genv then routeToRemoteActor genv env order m (s, w)
                                     else (False, (s, w)))
                     in if ok then (True, sw) else (True, sendNoRouteError genv now (Some m) sw))) = (ok, (s', w'))"
    using r True unfolding gateHandler_def Let_def prod.case loc_def by simp
  show ?thesis
  proof (cases loc)
    case (Some t)
    have "t \<in> set (LookupActorsByMsgIDView (MsgId (msg_of w m)) (w_group w))"
      using Some by (auto simp: loc_def RouteLocal_def Let_def split: if_splits)
    then have t: "t < w_nact w" using routes by (auto simp: routes_ok_def)
    have ret: "winv False (add_mset m (outbox_refs s + S)) T (retain m w)"
      using m room by (intro winv_retain [OF w]) auto
    have "0 < refs (w_heap w) m" using winv_live [OF w, of m] m by simp
    then have "refs (w_heap (retain m w)) m < 2 ^ 31 - 1" using refs_Retain [of "w_heap w" m m] room by simp
    then have "winv False (outbox_refs s + S) T (Push env t (cmd_zero\<lparr>Type := CmdTypeClient, Msg := Some m\<rparr>) (retain m w))"
      using ret t by (intro winv_Push [OF env]) (auto simp: cmd_zero_def cmd_ok_def)
    then show ?thesis using r' Some by auto
  next
    case None
    obtain ok1 s1 w1 where r1: "(if g_discoverer genv then routeToRemoteActor genv env order m (s, w) else (False, (s, w)))
        = (ok1, (s1, w1))" by (metis prod_cases3)
    have held: "m \<in># outbox_refs s + S + held T w" using m by simp
    have w1: "winv False (outbox_refs s + S) T w1 \<and> outbox_refs s1 = outbox_refs s \<and> s_actor s1 = s_actor s"
    proof (cases "g_discoverer genv")
      case True
      then have "routeToRemoteActor genv env order m (s, w) = (ok1, (s1, w1))" using r1 by simp
      from winv_routeToRemote [OF w held this] routeToRemote_server [OF this]
      show ?thesis by (simp add: outbox_refs_def)
    next
      case False
      then show ?thesis using r1 w by simp
    qed
    then have w1': "winv False (outbox_refs s1 + S) T w1" "m \<in># outbox_refs s1 + S + held T w1" using m by auto
    have fin: "(if ok1 then (True, (s1, w1)) else (True, sendNoRouteError genv now (Some m) (s1, w1))) = (ok, (s', w'))"
      using r' unfolding None r1 by simp
    show ?thesis
    proof (cases ok1)
      case True
      then show ?thesis using fin w1 by auto
    next
      case False
      then have "sendNoRouteError genv now (Some m) (s1, w1) = (s', w')" using fin by simp
      from winv_sendNoRouteError [OF genv w1' this] w1 show ?thesis by simp
    qed
  qed
qed

section \<open>The gateway in a running process\<close>

text \<open>The main loop of the gateway's actor: \<open>handleMessage\<close> with the methods that \<open>Server\<close>
  overrides.\<close>

definition gate_handleMessage :: "genv \<Rightarrow> env \<Rightarrow> i64 \<Rightarrow> u64 list \<Rightarrow> mref \<Rightarrow> gstate \<Rightarrow> gstate" where
  "gate_handleMessage genv env now order msg sw =
    (let (s, w) = sw
     in if IsResponse (msg_of w msg) then
          (if \<not> ToClient (msg_of w msg) then (s, actor_SetReply (s_actor s) msg w)
           else gate_HandleRespMessage genv now msg (s, w))
        else if FromClient (msg_of w msg) then snd (gate_HandleClientMessage genv env now order msg (s, w))
        else (s, snd (Dispatch env (s_actor s) msg w)))"

definition gate_Run_one :: "genv \<Rightarrow> env \<Rightarrow> i64 \<Rightarrow> u64 list \<Rightarrow> gstate \<Rightarrow> gstate" where
  "gate_Run_one genv env now order sw =
    (let (s, w) = sw
     in case a_batch (w_actors w (s_actor s)) of
          [] \<Rightarrow> (s, w)
        | c # rest \<Rightarrow>
           (let w = upd_actor (s_actor s) (\<lambda>x. x\<lparr>a_batch := rest\<rparr>) w;
                (s, w) = (case Msg c of Some m \<Rightarrow> gate_handleMessage genv env now order m (s, w) | None \<Rightarrow> (s, w))
            in (s, hp (\<lambda>h. snd (ActorCmd_Release c h)) w)))"

text \<open>The counters of received packets are changed by \<open>OnRead\<close> and \<open>Close\<close> only.\<close>

definition same_recv :: "Server \<Rightarrow> Server \<Rightarrow> bool" where
  "same_recv s s' \<longleftrightarrow> s_actor s' = s_actor s \<and> localRecvCount s' = localRecvCount s
     \<and> recvCountTotal (s_metrics s') = recvCountTotal (s_metrics s)"

lemma same_recv_refl [simp]: "same_recv s s"
  by (simp add: same_recv_def)

lemma same_recv_trans: "same_recv a b \<Longrightarrow> same_recv b c \<Longrightarrow> same_recv a c"
  by (simp add: same_recv_def)

lemma same_recv_sendClient: "same_recv s (fst (sendClient genv now m (s, w)))"
  by (auto simp: same_recv_def sendClient_def Let_def count_sent_def RecordRTT_def upd_metrics_def
      split: option.split prod.split)

lemma same_recv_noRoute: "same_recv s (fst (sendNoRouteError genv now p (s, w)))"
  using same_recv_sendClient
  by (auto simp: sendNoRouteError_def split: option.split prod.split)

lemma same_recv_remote:
  "routeToRemoteActor genv env order m (s, w) = (ok, (s', w')) \<Longrightarrow> same_recv s s'"
  using routeToRemote_server by (simp add: same_recv_def)

lemma same_recv_handle: "same_recv s (fst (snd (gate_HandleClientMessage genv env now order m (s, w))))"
proof -
  obtain ok1 s1 w1 where r: "routeToRemoteActor genv env order m (s, w) = (ok1, (s1, w1))" by (metis prod_cases3)
  note s1 = same_recv_remote [OF r]
  have "same_recv s (fst (sendNoRouteError genv now (Some m) (s1, w1)))"
    by (rule same_recv_trans [OF s1 same_recv_noRoute])
  then show ?thesis using s1 same_recv_noRoute [of s genv now "Some m" w] r
    by (auto simp: gate_HandleClientMessage_def gateHandler_def Let_def case_prod_beta split: option.split)
qed

lemma same_recv_run: "same_recv s (fst (gate_Run_one genv env now order (s, w)))"
  using same_recv_handle same_recv_sendClient
  by (auto simp: gate_Run_one_def gate_handleMessage_def gate_HandleRespMessage_def Let_def case_prod_beta
      split: option.split list.split)

lemma winv_gate_handleMessage:
  assumes env: "env_ok False env" and genv: "genv_ok genv" and w: "winv False (outbox_refs s + S) T w"
    and m: "m \<in># S" and i: "s_actor s < w_nact w" and room: "refs (w_heap w) m < 2 ^ 31 - 2"
    and routes: "routes_ok w" and r: "gate_handleMessage genv env now order m (s, w) = (s', w')"
  shows "winv False (outbox_refs s' + S) T w'"
proof -
  have m': "m \<in># outbox_refs s + S" using m by simp
  have room': "refs (w_heap w) m < 2 ^ 31 - 1" using room by simp
  have set: "winv False (outbox_refs s + S) T (actor_SetReply (s_actor s) m w)" by (rule winv_SetReply [OF w i m' room'])
  have disp: "winv False (outbox_refs s + S) T (snd (Dispatch env (s_actor s) m w))" by (rule winv_Dispatch [OF env w m' i])
  have send: "winv False (outbox_refs s' + S) T w'" if "sendClient genv now m (s, w) = (s', w')"
    by (rule winv_sendClient(1) [OF w _ room' that]) (use m' in auto)
  have client: "winv False (outbox_refs s' + S) T w'"
    if "snd (gate_HandleClientMessage genv env now order m (s, w)) = (s', w')"
  proof (cases "g_chan genv (SessionId (msg_of w m))")
    case None
    then show ?thesis using that w by (simp add: gate_HandleClientMessage_def)
  next
    case (Some c)
    obtain ok sw where g: "gateHandler genv env now order m (s, w) = (ok, sw)" by (metis surj_pair)
    then have "sw = (s', w')" using that Some by (simp add: gate_HandleClientMessage_def)
    from winv_gateHandler [OF env genv w m i room routes g [unfolded this]] show ?thesis by simp
  qed
  show ?thesis using r set disp send client w
    by (auto simp: gate_handleMessage_def gate_HandleRespMessage_def split: if_splits)
qed

lemma winv_gate_Run_one:
  assumes env: "env_ok False env" and genv: "genv_ok genv" and w: "winv False (outbox_refs s + S) T w"
    and i: "s_actor s < w_nact w" and routes: "routes_ok w"
    and room: "\<And>c a. c \<in> set (a_batch (w_actors w (s_actor s))) \<Longrightarrow> Msg c = Some a \<Longrightarrow> refs (w_heap w) a < 2 ^ 31 - 2"
    and r: "gate_Run_one genv env now order (s, w) = (s', w')"
  shows "winv False (outbox_refs s' + S) T w'"
proof (cases "a_batch (w_actors w (s_actor s))")
  case Nil
  then show ?thesis using r w by (simp add: gate_Run_one_def)
next
  case (Cons c rest)
  let ?w1 = "upd_actor (s_actor s) (\<lambda>x. x\<lparr>a_batch := rest\<rparr>) w"
  have "winv False (mset (opt_list (Msg c)) + (outbox_refs s + S)) T ?w1"
    by (rule winv_drop [OF winv_take(1) [OF w i Cons]]) simp_all
  then have w1: "winv False (outbox_refs s + (mset (opt_list (Msg c)) + S)) T ?w1" by (simp add: ac_simps)
  obtain s2 w2 where h: "(case Msg c of Some m \<Rightarrow> gate_handleMessage genv env now order m (s, ?w1) | None \<Rightarrow> (s, ?w1)) = (s2, w2)"
    by fastforce
  have w2: "winv False (outbox_refs s2 + (mset (opt_list (Msg c)) + S)) T w2"
  proof (cases "Msg c")
    case None
    then show ?thesis using h w1 by auto
  next
    case (Some m)
    have rt: "routes_ok ?w1" using routes by (simp add: routes_ok_def)
    have rm: "refs (w_heap ?w1) m < 2 ^ 31 - 2" using room [of c m] Cons Some by simp
    have i1: "s_actor s < w_nact ?w1" using i by simp
    have mm: "m \<in># mset (opt_list (Msg c)) + S" using Some by simp
    show ?thesis using h Some winv_gate_handleMessage [OF env genv w1 mm i1 rm rt] by simp
  qed
  then have "winv False (outbox_refs s2 + S) T (hp (Release (Msg c)) w2)"
    by (intro winv_release_opt) (simp add: ac_simps)
  moreover have "s' = s2 \<and> w' = hp (Release (Msg c)) w2"
    using r Cons h by (cases "Msg c") (auto simp: gate_Run_one_def Let_def ActorCmd_Release_def hp_def Release_def)
  ultimately show ?thesis by simp
qed

text \<open>Executions of a process with a gateway: the steps of the actor layer, the gateway's own main
  loop, the callbacks of the network (accepted and closed connections, packets, hooks set by the application, the fast path of
  responses, a channel that has written a message and drops its reference) and the reports.
  \<open>n\<close> counts the packets that were admitted.\<close>

type_synonym gconf = "nat \<times> calls \<times> Server \<times> world"

definition admitted :: "genv \<Rightarrow> u64 option \<Rightarrow> bool" where
  "admitted genv chn = (case chn of None \<Rightarrow> False | Some c \<Rightarrow> g_allow genv c)"

inductive gate_step :: "genv \<Rightarrow> env \<Rightarrow> gconf \<Rightarrow> gconf \<Rightarrow> bool" for genv env where
  actors: "exec_step False env (cs, w) (cs', w') \<Longrightarrow> w_nact w \<le> w_nact w' \<Longrightarrow>
    gate_step genv env (n, cs, s, w) (n, cs', s, w')"
| packet: "n < 2 ^ 63 - 1 \<Longrightarrow> OnRead genv env now chn nm (s, w) = (s', w') \<Longrightarrow>
    gate_step genv env (n, cs, s, w) (n + of_bool (admitted genv chn), cs, s', w')"
| gate_run: "routes_ok w \<Longrightarrow>
    (\<And>c a. c \<in> set (a_batch (w_actors w (s_actor s))) \<Longrightarrow> Msg c = Some a \<Longrightarrow> refs (w_heap w) a < 2 ^ 31 - 2) \<Longrightarrow>
    gate_Run_one genv env now order (s, w) = (s', w') \<Longrightarrow> w_nact w \<le> w_nact w' \<Longrightarrow>
    gate_step genv env (n, cs, s, w) (n, cs, s', w')"
| fast_path: "usable cs w m \<Longrightarrow> HandleToClientFastPath genv now (Some m) (s, w) = (b, (s', w')) \<Longrightarrow>
    gate_step genv env (n, cs, s, w) (n, cs, s', w')"
| written: "s_outbox s = xs @ (c, m) # ys \<Longrightarrow>
    gate_step genv env (n, cs, s, w) (n, cs, s\<lparr>s_outbox := xs @ ys\<rparr>, release m w)"
| accept: "OnAccept chn (s, w) = (b, (s', w')) \<Longrightarrow> gate_step genv env (n, cs, s, w) (n, cs, s', w')"
| closed: "channelClose env (s, w) = (s', w') \<Longrightarrow> gate_step genv env (n, cs, s, w) (n, cs, s', w')"
| hooks: "s' \<in> {SetTraceHook h s, OnNoRoute h s, OnChannelClose h s, SetRemoteRouteStrategy strat s} \<Longrightarrow>
    gate_step genv env (n, cs, s, w) (n, cs, s', w)"
| report: "gate_step genv env (n, cs, s, w) (n, cs, snd (ReportMetrics_tick elapsed s), w)"

inductive gate_reach :: "genv \<Rightarrow> env \<Rightarrow> gconf \<Rightarrow> bool" for genv env where
  start: "booted w \<Longrightarrow> i < w_nact w \<Longrightarrow> gate_reach genv env (0, [], NewServer tuning i ct, w)"
| step: "gate_reach genv env st \<Longrightarrow> gate_step genv env st st' \<Longrightarrow> gate_reach genv env st'"

definition recv_inv :: "nat \<Rightarrow> Server \<Rightarrow> bool" where
  "recv_inv n s \<longleftrightarrow> n < 2 ^ 63 \<and> localRecvCount s = word_of_nat n
     \<and> recvCountTotal (s_metrics s) = word_of_nat (n - n mod 100)"

definition gate_inv :: "gconf \<Rightarrow> bool" where
  "gate_inv st = (case st of (n, cs, s, w) \<Rightarrow>
     winv False (calls_held cs + outbox_refs s) {#} w \<and> s_actor s < w_nact w \<and> recv_inv n s)"

lemma count_recv_inv:
  assumes "recv_inv n s" and "n < 2 ^ 63 - 1"
  shows "recv_inv (Suc n) (count_recv s)"
proof -
  have sn: "sint (word_of_nat (Suc n) :: i64) = int (Suc n)"
  proof -
    have u: "unat (word_of_nat (Suc n) :: i64) = Suc n"
      by (rule unat_word_of_nat_lt) (use assms(2) in simp)
    have "sint (word_of_nat (Suc n) :: i64) = int (unat (word_of_nat (Suc n) :: i64))"
      by (rule sint_eq_unat) (unfold u, use assms(2) in simp)
    then show ?thesis unfolding u .
  qed
  have c: "localRecvCount s + 1 = word_of_nat (Suc n)" using assms(1) by (simp add: recv_inv_def add.commute)
  have m: "(int (Suc n) mod 100 = 0) = (Suc n mod 100 = 0)" using of_nat_eq_iff [of "Suc n mod 100" 0, where ?'a = int]
    by (simp add: zmod_int)
  show ?thesis
  proof (cases "Suc n mod 100 = 0")
    case True
    have "n mod 100 = 99" using True by presburger
    then have "Suc n = n - n mod 100 + 100" using mod_less_eq_dividend [of n 100] by linarith
    then have "(word_of_nat (Suc n) :: i64) = word_of_nat (n - n mod 100) + 100" by (metis of_nat_add of_nat_numeral)
    then show ?thesis unfolding count_recv_def Let_def c sn m
      using True assms by (simp add: recv_inv_def upd_metrics_def del: of_nat_Suc)
  next
    case False
    then have "Suc n - Suc n mod 100 = n - n mod 100" by (auto simp: mod_Suc split: if_splits)
    then show ?thesis unfolding count_recv_def Let_def c sn m
      using False assms by (simp add: recv_inv_def del: of_nat_Suc)
  qed
qed

lemma same_recv_inv: "same_recv s s' \<Longrightarrow> recv_inv n s' = recv_inv n s"
  by (simp add: same_recv_def recv_inv_def)

lemma OnRead_recv:
  assumes "recv_inv n s" and "n < 2 ^ 63 - 1" and "OnRead genv env now chn nm (s, w) = (s', w')"
  shows "recv_inv (n + of_bool (admitted genv chn)) s'"
proof (cases "admitted genv chn")
  case False
  then have "s' = s" using assms(3) by (auto simp: OnRead_def admitted_def split: option.splits)
  then show ?thesis using assms(1) False by simp
next
  case True
  then have "same_recv (count_recv s) s'"
    using assms(3) by (auto simp: OnRead_def admitted_def Let_def same_recv_def upd_metrics_def split: option.splits prod.splits)
  then show ?thesis using count_recv_inv [OF assms(1,2)] same_recv_inv True by simp
qed

lemma new_server_recv: "recv_inv 0 (NewServer tuning i ct)"
  by (simp add: recv_inv_def NewServer_def Let_def)

lemma gate_step_inv:
  assumes env: "env_ok False env" and genv: "genv_ok genv" and st: "gate_step genv env st st'" and inv: "gate_inv st"
  shows "gate_inv st'"
  using st
proof (cases rule: gate_step.cases)
  case (actors cs w cs' w' n s)
  have "winv False (calls_held cs' + outbox_refs s) {#} w'"
    using exec_step_inv [OF env actors(3), of "outbox_refs s"] inv actors(1) by (simp add: gate_inv_def)
  then show ?thesis using actors inv by (simp add: gate_inv_def)
next
  case (packet n now chn nm s w s' w' cs)
  have w: "winv False (calls_held cs + outbox_refs s) {#} w" "s_actor s < w_nact w" "recv_inv n s"
    using inv packet(1) by (simp_all add: gate_inv_def)
  note o = OnRead_server [OF packet(4)]
  have "winv False (calls_held cs + outbox_refs s) {#} w'" "frame {#} w w'"
    using winv_OnRead [OF env genv w(1,2) packet(4)] by simp_all
  moreover have "outbox_refs s' = outbox_refs s" using o by (simp add: outbox_refs_def)
  ultimately show ?thesis using packet OnRead_recv [OF w(3) packet(3,4)] o(1) w(2)
    by (simp add: gate_inv_def frame_def)
next
  case (gate_run w s now order s' w' n cs)
  have w: "winv False (outbox_refs s + calls_held cs) {#} w" "s_actor s < w_nact w" "recv_inv n s"
    using inv gate_run(1) by (simp_all add: gate_inv_def add.commute)
  have "winv False (outbox_refs s' + calls_held cs) {#} w'"
    by (rule winv_gate_Run_one [OF env genv w(1,2) gate_run(3) gate_run(4) gate_run(5)])
  moreover have "same_recv s s'" using same_recv_run [of s genv env now order w] gate_run(5) by simp
  ultimately show ?thesis using gate_run w same_recv_inv [of s s' n]
    by (simp add: gate_inv_def add.commute same_recv_def)
next
  case (fast_path cs w m now s b s' w' n)
  have w: "winv False (outbox_refs s + calls_held cs) {#} w" "s_actor s < w_nact w" "recv_inv n s"
    using inv fast_path(1) by (simp_all add: gate_inv_def add.commute)
  show ?thesis
  proof (cases "ToClient (msg_of w m)")
    case False
    then have "s' = s \<and> w' = w" using fast_path(4) by (simp add: HandleToClientFastPath_def)
    then show ?thesis using inv fast_path by simp
  next
    case True
    then have sc: "sendClient genv now m (s, w) = (s', w')" using fast_path(4) by (simp add: HandleToClientFastPath_def)
    have h: "m \<in># outbox_refs s + calls_held cs + held {#} w" "refs (w_heap w) m < 2 ^ 31 - 1"
      using fast_path(3) by (auto simp: usable_def)
    note c = winv_sendClient [OF w(1) h sc]
    have "same_recv s s'" using same_recv_sendClient [of s genv now m w] sc by simp
    then show ?thesis using fast_path c w same_recv_inv [of s s' n]
      by (simp add: gate_inv_def add.commute frame_def)
  qed
next
  case (written s xs c m ys n cs w)
  have "outbox_refs s = add_mset m (outbox_refs (s\<lparr>s_outbox := xs @ ys\<rparr>))"
    using written(3) by (simp add: outbox_refs_def)
  then have "winv False (add_mset m (calls_held cs + outbox_refs (s\<lparr>s_outbox := xs @ ys\<rparr>))) {#} w"
    using inv written(1) by (simp add: gate_inv_def)
  from winv_release [OF this] show ?thesis using inv written by (simp add: gate_inv_def recv_inv_def)
next
  case (accept chn s w b s' w' n cs)
  then show ?thesis using inv
    by (auto simp: OnAccept_def gate_inv_def recv_inv_def Let_def upd_metrics_def outbox_refs_def split: option.splits)
next
  case (closed s w s' w' n cs)
  have w: "winv False (calls_held cs + outbox_refs s) {#} w" using inv closed(1) by (simp add: gate_inv_def)
  have call: "winv False (calls_held cs + outbox_refs s) {#} (snd (e_call env f ANone w))"
    "frame {#} w (snd (e_call env f ANone w))" for f
    using env_call [OF env w, of ANone f] by (metis arg_msgs.simps(3) empty_subsetI list.set(1) prod.collapse)+
  show ?thesis using inv closed call
    by (auto simp: channelClose_def gate_inv_def recv_inv_def Let_def upd_metrics_def outbox_refs_def frame_def
        split: option.splits intro: order_less_le_trans)
next
  case (hooks s' h s strat n cs w)
  then have "outbox_refs s' = outbox_refs s \<and> s_actor s' = s_actor s \<and> recv_inv n s' = recv_inv n s"
    by (cases strat) (auto simp: SetTraceHook_def OnNoRoute_def OnChannelClose_def SetRemoteRouteStrategy_def
        outbox_refs_def recv_inv_def)
  then show ?thesis using inv hooks by (simp add: gate_inv_def)
next
  case (report n cs s w elapsed)
  then show ?thesis using inv
    by (auto simp: ReportMetrics_tick_def gate_inv_def recv_inv_def Let_def upd_metrics_def outbox_refs_def
        split: prod.split)
qed

lemma gate_reach_inv:
  assumes "env_ok False env" and "genv_ok genv" and "gate_reach genv env st"
  shows "gate_inv st"
  using assms(3)
proof induction
  case (start w i tuning ct)
  then show ?case using booted_winv [of w False] new_server_recv [of tuning i ct]
    by (simp add: gate_inv_def outbox_refs_def) (simp add: NewServer_def Let_def)
next
  case (step st st')
  then show ?case using gate_step_inv [OF assms(1,2)] by blast
qed

section \<open>Properties of the gateway\<close>

text \<open>A gateway with one connected client, and a remote actor that supports message 5.\<close>

definition calm_genv :: genv where
  "calm_genv = \<lparr>g_chan = (\<lambda>sid. Some sid), g_allow = (\<lambda>_. True), g_inject = (\<lambda>f m. m\<lparr>ToClient := True\<rparr>),
     g_noRoute = (\<lambda>f m w. ((None, False), w)), g_pick = (\<lambda>f m cs. 0), g_discoverer = True\<rparr>"

lemma calm_genv_ok: "genv_ok calm_genv"
  by (auto simp: genv_ok_def calm_genv_def)

definition ping :: wire_msg where
  "ping = \<lparr>wire_MsgId = 5, wire_SeqId = 1, wire_Data = [1, 2, 3]\<rparr>"

definition remote_five :: ActorConfig where
  "remote_five = config_zero\<lparr>Id := 9, ActorType := 2, SupportedMsgIDs := [5]\<rparr>"

definition gate_world :: world where
  "gate_world = one_actor\<lparr>w_group := (NewGroup 1 False)\<lparr>otherActors := [9 \<mapsto> remote_five], otherActorsVersion := 1\<rparr>,
     w_heap := \<lparr>mobj = (\<lambda>_. msg_zero\<lparr>MsgId := 5, SessionId := 3, FromClient := True, RefCount := 1\<rparr>),
       mpool = [], mnext = 1, mDoubleRelease = 0\<rparr>\<rparr>"

lemma gate_reach_packet:
  "gate_reach calm_genv calm_env
     (1, [], OnRead calm_genv calm_env 5000 (Some 3) ping (NewServer None 0 TCP, one_actor))"
proof -
  obtain s w where r: "OnRead calm_genv calm_env 5000 (Some 3) ping (NewServer None 0 TCP, one_actor) = (s, w)" by fastforce
  have "gate_reach calm_genv calm_env (0, [], NewServer None 0 TCP, one_actor)"
    by (rule gate_reach.start [OF one_actor_booted]) (simp add: one_actor_facts)
  from gate_reach.step [OF this gate_step.packet [OF _ r]] show ?thesis
    unfolding r by (simp add: admitted_def) (simp add: calm_genv_def)
qed

text \<open>Claim C5: In every execution of a process with a gateway, a message handed to a client's
  channel and not yet written is not recycled, whatever the actors, the workers, the routing and the
  fast path of responses do meanwhile; its counter covers the channels' references together with all
  others.\<close>

theorem gate_outbox_live:
  assumes "env_ok False env" and "genv_ok genv" and "gate_reach genv env (n, cs, s, w)"
    and "(c, m) \<in> set (s_outbox s)"
  shows "live (w_heap w) m
    \<and> count (calls_held cs + outbox_refs s + held {#} w) m \<le> refs (w_heap w) m"
proof -
  have w: "winv False (calls_held cs + outbox_refs s) {#} w"
    using gate_reach_inv [OF assms(1-3)] by (simp add: gate_inv_def)
  have "m \<in># outbox_refs s" using assms(4) by (force simp: outbox_refs_def)
  then have m: "m \<in># calls_held cs + outbox_refs s + held {#} w" by simp
  note l = refs_inv_live [OF winvD(1) [OF w] m]
  then have "heap_refs (w_heap w) m = refs (w_heap w) m" by (simp add: heap_refs_def)
  then show ?thesis using winvD(1) [OF w] l unfolding refs_inv_def by metis
qed

lemma gate_reach_echo:
  "\<exists>s w. gate_reach calm_genv calm_env (1, [], s, w) \<and> (3, 0) \<in> set (s_outbox s)"
proof -
  let ?s0 = "SetTraceHook (Some 0) (NewServer None 0 TCP)"
  obtain s w where r: "OnRead calm_genv calm_env 5000 (Some 3) ping (?s0, one_actor) = (s, w)" by fastforce
  have "gate_reach calm_genv calm_env (0, [], NewServer None 0 TCP, one_actor)"
    by (rule gate_reach.start [OF one_actor_booted]) (simp add: one_actor_facts)
  then have "gate_reach calm_genv calm_env (0, [], ?s0, one_actor)"
    by (rule gate_reach.step) (simp add: gate_step.hooks [where h = "Some 0" and strat = None])
  from gate_reach.step [OF this gate_step.packet [OF _ r]]
  have p: "gate_reach calm_genv calm_env (1, [], s, w)" by (simp add: admitted_def) (simp add: calm_genv_def)
  have w: "winv False (calls_held [] + outbox_refs s) {#} w" "s_actor s < w_nact w"
    using gate_reach_inv [OF calm_env_ok calm_genv_ok p] by (simp_all add: gate_inv_def)
  have f: "mailBoxQueue (w_actors w 0) = [cmd_zero\<lparr>Type := CmdTypeClient, Msg := Some 0\<rparr>]"
    "ToClient (msg_of w 0)" "SessionId (msg_of w 0) = 3" "refs (w_heap w) 0 = 1" "s_actor s = 0"
    using r by (auto simp: OnRead_def calm_genv_def calm_env_def ping_def GenCliMsg_def newMsg_def GetMessage_def
        pool_get_def one_actor_def NewActor_def Let_def SetTraceHook_def NewServer_def set_msg_def hp_def upd_msg_def
        empty_heap_def PoolReset_def Push_def Enqueue_def cmd_zero_def upd_actor_def refs_def count_recv_def upd_metrics_def)
  have "0 \<in># act_msgs (w_actors w 0)" using f(1) by (simp add: act_msgs_def act_queue_def)
  moreover have "act_msgs (w_actors w 0) \<subseteq># acts_held w"
    using w(2) f(5) sum.remove [of "{..<w_nact w}" 0 "\<lambda>j. act_msgs (w_actors w j)"] by (simp add: acts_held_def)
  ultimately have "usable [] w 0" using f(4) by (auto simp: usable_def held_def dest: mset_subset_eqD)
  moreover obtain b s' w' where fp: "HandleToClientFastPath calm_genv 6000 (Some 0) (s, w) = (b, (s', w'))" by (metis prod_cases3)
  ultimately have "gate_reach calm_genv calm_env (1, [], s', w')"
    by (rule gate_reach.step [OF p gate_step.fast_path])
  moreover have "s_outbox s' = s_outbox s @ [(3, 0)]"
    using fp f(2,3) by (auto simp: HandleToClientFastPath_def sendClient_def calm_genv_def Let_def split: option.splits prod.splits if_splits)
  ultimately show ?thesis by auto
qed

theorem gate_outbox_live_witness:
  "\<exists>s w. (3, 0) \<in> set (s_outbox s) \<and> gate_reach calm_genv calm_env (1, [], s, w) \<and> live (w_heap w) 0"
  using gate_reach_echo gate_outbox_live [OF calm_env_ok calm_genv_ok] by blast

text \<open>The batched packet counters lose nothing: in every execution, closing the gateway
  leaves exactly the number of admitted packets in the total, although the counter is advanced only
  at every hundredth packet and the periodic report resets the per-period counter.\<close>

theorem gate_recv_total_exact:
  assumes "env_ok False env" and "genv_ok genv" and "gate_reach genv env (n, cs, s, w)"
  shows "recvCountTotal (s_metrics (fst (snd (gate_Close hasServer (s, w))))) = word_of_nat n"
proof -
  have inv: "n < 2 ^ 63" "localRecvCount s = word_of_nat n" "recvCountTotal (s_metrics s) = word_of_nat (n - n mod 100)"
    using gate_reach_inv [OF assms] by (simp_all add: gate_inv_def recv_inv_def)
  have u: "unat (word_of_nat n :: i64) = n" by (rule unat_word_of_nat_lt) (use inv(1) in simp)
  have sn: "sint (localRecvCount s) = int n"
    unfolding inv(2) using sint_eq_unat [of "word_of_nat n :: i64"] inv(1) by (simp only: u) simp
  have sum: "(word_of_nat (n - n mod 100) + word_of_int (int n mod 100) :: i64) = word_of_nat n"
  proof -
    have "(word_of_int (int n mod 100) :: i64) = word_of_nat (n mod 100)" by (metis of_int_of_nat_eq of_nat_mod of_nat_numeral)
    moreover have "n - n mod 100 + n mod 100 = n" by simp
    ultimately show ?thesis by (metis of_nat_add)
  qed
  have "recvCountTotal (s_metrics (fst (snd (gate_Close hasServer (s, w)))))
      = (if 0 < int n then word_of_nat (n - n mod 100) + word_of_int (int n mod 100) else word_of_nat (n - n mod 100))"
    unfolding gate_Close_def Let_def prod.case sn inv(3) [symmetric] by (simp add: upd_metrics_def)
  then show ?thesis using sum by (cases n) simp_all
qed

theorem gate_recv_total_exact_witness:
  "recvCountTotal (s_metrics (fst (snd (gate_Close True
     (OnRead calm_genv calm_env 5000 (Some 3) ping (NewServer None 0 TCP, one_actor)))))) = 1"
  using gate_recv_total_exact [OF calm_env_ok calm_genv_ok, of 1 "[]"] gate_reach_packet
  by (metis of_nat_1 prod.collapse)

lemma gate_world_remote:
  assumes order: "order = [9]" and s: "s = NewServer None 0 TCP"
  shows "route_of calm_genv calm_env order 0 s gate_world = ToRemote remote_five"
proof -
  have l: "fst (LookupOtherActorConfigsByMsgIDView [9] 5 (w_group gate_world)) = [remote_five]"
    by (simp add: LookupOtherActorConfigsByMsgIDView_def gate_world_def NewGroup_def other_table_def GetOtherActorConfigs_def
        items_def table_add_def remote_five_def list_at_def Let_def)
  have m: "MsgId (msg_of gate_world 0) = 5" by (simp add: gate_world_def)
  have v: "LookupActorsByMsgIDView 5 (w_group gate_world) = []"
    by (simp add: LookupView_list_at gate_world_def NewGroup_def)
  have p: "preferred calm_genv (msg_of gate_world 0) [remote_five] s = 0"
    by (simp add: preferred_def remote_pick_def s NewServer_def FirstCandidateStrategy_PickOne_def Let_def)
  have b: "e_bus calm_env = Some (\<lambda>topic dat. True)" by (simp add: calm_env_def)
  have g: "g_discoverer calm_genv" by (simp add: calm_genv_def)
  show ?thesis
    by (simp add: route_of_def Let_def order m l v p b g)
qed

theorem gate_routes_once_witness:
  "w_bus (snd (snd (gate_HandleClientMessage calm_genv calm_env 6000 [9] 0 (NewServer None 0 TCP, gate_world))))
     = [(GetTopic remote_five, wire_to (msg_of gate_world 0) remote_five)]"
proof -
  let ?s = "NewServer None 0 TCP"
  obtain ok s' w' where r: "gate_HandleClientMessage calm_genv calm_env 6000 [9] 0 (?s, gate_world) = (ok, (s', w'))"
    by (metis prod_cases3)
  have 1: "g_chan calm_genv (SessionId (msg_of gate_world 0)) \<noteq> None" by (simp add: calm_genv_def)
  have 2: "msgIdList (a_handle (w_actors gate_world (s_actor ?s))) (MsgId (msg_of gate_world 0)) = None"
    by (simp add: gate_world_def one_actor_def NewActor_def NewServer_def NewHandleRegistry_def calm_env_def Let_def)
  have 3: "length (Data (msg_of gate_world 0)) < 2 ^ 32" by (simp add: gate_world_def msg_zero_def)
  have 4: "noRouteHandler ?s = None" by (simp add: NewServer_def Let_def)
  have 5: "mailClosed (w_actors gate_world j) \<Longrightarrow> e_closedAccepts calm_env" for j
    by (simp add: calm_env_def)
  have 6: "w_bus gate_world = []" by (simp add: gate_world_def one_actor_def Let_def)
  have "w_bus w' = w_bus gate_world @ [(GetTopic remote_five, wire_to (msg_of gate_world 0) remote_five)]"
    using gate_routes_once [OF 1 2 3 4 5 r] gate_world_remote [OF refl refl] by simp
  then show ?thesis unfolding r by (simp add: 6)
qed

lemma remote_scan_filter: "remote_scan mid cs = filter (\<lambda>c. mid \<in> set (SupportedMsgIDs c)) cs"
proof -
  have "fold (\<lambda>cfg candidates. if length (SupportedMsgIDs cfg) = 0 then candidates
      else if mid \<in> set (SupportedMsgIDs cfg) then candidates @ [cfg] else candidates) cs acc
    = acc @ filter (\<lambda>c. mid \<in> set (SupportedMsgIDs c)) cs" for acc
    by (induction cs arbitrary: acc) auto
  then show ?thesis by (simp add: remote_scan_def)
qed

text \<open>The gateway finds the same remote candidates with the group's cached table as with the
  scan over all remote configurations that it falls back on when the group has no table: after every
  interleaving of discovery updates and lookups the two candidate lists have the same actors.\<close>

theorem cached_candidates_as_scanned:
  assumes "grp_reach g False" and "ranges order (otherActors g)" and "ranges order' (otherActors g)" and "mid \<noteq> 0"
  shows "set (fst (LookupOtherActorConfigsByMsgIDView order mid g)) = set (remote_scan mid (GetOtherActorConfigs order' g))"
proof -
  have "set (fst (LookupOtherActorConfigsByMsgIDView order mid g))
      = {c \<in> ran (otherActors g). mid \<in> set (SupportedMsgIDs c)}"
    using grp_reach_inv [OF assms(1)] other_table_set [OF assms(2)] assms(4)
    by (simp add: LookupOtherActorConfigsByMsgIDView_def Let_def remote_inv_def)
  then show ?thesis by (simp add: remote_scan_filter set_other_configs [OF assms(3)])
qed

theorem cached_candidates_as_scanned_witness:
  "let g = watch_bump (watch_write remote_five (NewGroup 1 False))
   in set (fst (LookupOtherActorConfigsByMsgIDView [9] 5 g)) = set (remote_scan 5 (GetOtherActorConfigs [9] g))"
proof -
  let ?g = "watch_write remote_five (NewGroup 1 False)"
  have "grp_reach ?g True" by (rule grp_reach.step [OF grp_reach.start write_cfg])
  then have r: "grp_reach (watch_bump ?g) False"
    by (rule grp_reach.step) (rule bump, simp add: watch_write_def NewGroup_def)
  have "ranges [9] (otherActors (watch_bump ?g))"
    by (simp add: ranges_def watch_bump_def watch_write_def NewGroup_def remote_five_def)
  then show ?thesis unfolding Let_def using cached_candidates_as_scanned [OF r, of "[9]" "[9]" 5] by simp
qed

end
