(* ===== verification/ZStr.thy ===== *)
theory ZStr
  imports ZBase "HOL-Library.Sublist"
begin

text \<open>
  The functions of Go's \<open>strings\<close> and \<open>strconv\<close> packages that the discovery, script and metrics
  packages use, on strings as lists of characters, with their laws.
\<close>

definition HasPrefix :: "string \<Rightarrow> string \<Rightarrow> bool" where
  "HasPrefix s p = prefix p s"

definition TrimPrefix :: "string \<Rightarrow> string \<Rightarrow> string" where
  "TrimPrefix s p = (if HasPrefix s p then drop (length p) s else s)"

text \<open>\<open>strings.Split\<close> with a separator of one character.\<close>

fun Split :: "char \<Rightarrow> string \<Rightarrow> string list" where
  "Split c [] = [[]]"
| "Split c (x # xs) = (if x = c then [] # Split c xs
     else (case Split c xs of p # ps \<Rightarrow> (x # p) # ps | [] \<Rightarrow> [[x]]))"

text \<open>The part after \<open>strings.LastIndex\<close>; \<open>None\<close> when the character does not occur.\<close>

definition after_last :: "char \<Rightarrow> string \<Rightarrow> string option" where
  "after_last c s = (if c \<in> set s then Some (rev (takeWhile (\<lambda>x. x \<noteq> c) (rev s))) else None)"

text \<open>\<open>strconv.ParseUint(s, 10, bits)\<close>: no sign, no separator, no other base; \<open>None\<close> is either error.\<close>

definition ParseUint :: "nat \<Rightarrow> string \<Rightarrow> nat option" where
  "ParseUint bits s =
    (if s \<noteq> [] \<and> list_all is_digit s \<and> parse_digits s < 2 ^ bits then Some (parse_digits s) else None)"

lemma TrimPrefix_append [simp]: "TrimPrefix (p @ s) p = s"
  by (simp add: TrimPrefix_def HasPrefix_def)

lemma Split_nonempty [simp]: "Split c s \<noteq> []"
  by (induction s) (auto split: list.split)

lemma Split_no_sep: "c \<notin> set s \<Longrightarrow> Split c s = [s]"
  by (induction s) auto

lemma Split_append: "c \<notin> set p \<Longrightarrow> Split c (p @ c # s) = p # Split c s"
  by (induction p) (auto split: list.split)

lemma after_last_append: "c \<notin> set s \<Longrightarrow> after_last c (p @ c # s) = Some s"
proof -
  assume "c \<notin> set s"
  then have "takeWhile (\<lambda>x. x \<noteq> c) (rev s @ c # rev p) = rev s"
    by (subst takeWhile_append2) (auto simp: in_set_conv_decomp)
  then show ?thesis by (simp add: after_last_def)
qed

lemma ParseUint_fmt_d: "n < 2 ^ bits \<Longrightarrow> ParseUint bits (fmt_d n) = Some n"
  by (simp add: ParseUint_def fmt_d_digits)

lemma not_digit_slash [simp]: "\<not> is_digit (CHR ''/'')"
  by (simp add: is_digit_def)

lemma slash_fmt_d [simp]: "CHR ''/'' \<notin> set (fmt_d n)"
  by (rule digit_run_no_sep [OF fmt_d_digits not_digit_slash])

lemma fmt_d_slash_inject:
  "fmt_d a @ CHR ''/'' # s = fmt_d b @ CHR ''/'' # t \<longleftrightarrow> a = b \<and> s = t"
  using digit_run_unique [OF fmt_d_digits fmt_d_digits, of a "CHR ''/''" s b t] by auto

end
