(* ===== verification/ZDiscovery.thy ===== *)
theory ZDiscovery
  imports ZGroup ZStr
begin

text \<open>
  \<open>zdiscovery/etcd.go\<close>, \<open>zdiscovery/noop.go\<close>: service discovery over etcd. The etcd client and the
  JSON codec belong to other modules. What the client answers is an argument of the operation that
  asks (a granted lease, whether a put or delete succeeds, the listed entries); what the operation
  asks of it is returned as a list of requests. The codec is the pair \<open>mj\<close> (serialise) and \<open>uj\<close>
  (parse), either of which may fail. The cache is replaced as a whole on every write; as the clones
  are never aliased, a Go map of slices is a map of lists here. Background goroutines, sleeps and
  logging are not modelled, the steps they perform are.
\<close>

datatype disc_error = ErrClientNil | ErrSerialize | ErrLease | ErrPut | ErrDelete | ErrLoad

datatype etcd_req = ReqGrant | ReqPut string string i64 | ReqDelete string | ReqRevoke i64 | ReqCancel

type_synonym actor_cache = "u32 \<rightharpoonup> ActorConfig list"
type_synonym marshal = "ActorServerRegister \<Rightarrow> string option"
type_synonym unmarshal = "string \<Rightarrow> ActorServerRegister option"

record EtcdDiscovery =
  disc_ch :: "ActorConfig list"
  cache :: "actor_cache option"
  sharedLeaseID :: i64
  registeredActors :: "(string \<rightharpoonup> ActorConfig) option"
  pollCounters :: "string \<rightharpoonup> u64"

section \<open>Keys\<close>

definition actor_key :: "u32 \<Rightarrow> u64 \<Rightarrow> string" where
  "actor_key t i = ''/servers/'' @ fmt_d (unat t) @ ''/'' @ fmt_d (unat i)"

definition config_key :: "ActorConfig \<Rightarrow> string" where
  "config_key c = actor_key (ActorType c) (Id c)"

definition reg_item :: "string \<Rightarrow> ActorConfig \<Rightarrow> ActorServerRegister" where
  "reg_item key c = \<lparr>Key = key, Count = 0, Weight = 0, RegConfig = c\<rparr>"

definition parseKeyToActorType :: "string \<Rightarrow> u32 option" where
  "parseKeyToActorType key =
    (if length key = 0 then None
     else (let key = TrimPrefix key ''/''
           in if \<not> HasPrefix key ''servers/'' then None
              else (case after_last (CHR ''/'') key of
                      None \<Rightarrow> None
                    | Some s \<Rightarrow> (case ParseUint 32 s of None \<Rightarrow> None | Some n \<Rightarrow> Some (word_of_nat n)))))"

section \<open>Leases\<close>

text \<open>\<open>createSharedLeaseLocked\<close>; the keep-alive goroutine it starts is a later step.\<close>

definition createSharedLeaseLocked :: "i64 option \<Rightarrow> EtcdDiscovery \<Rightarrow> disc_error option \<times> EtcdDiscovery" where
  "createSharedLeaseLocked grant d =
    (case grant of None \<Rightarrow> (Some ErrLease, d) | Some i \<Rightarrow> (None, d\<lparr>sharedLeaseID := i\<rparr>))"

text \<open>\<open>order\<close> is the visit order of the map of registered actors.\<close>

definition recreateLeaseAndReregister ::
  "marshal \<Rightarrow> i64 option \<Rightarrow> string list \<Rightarrow> EtcdDiscovery \<Rightarrow> disc_error option \<times> etcd_req list \<times> EtcdDiscovery" where
  "recreateLeaseAndReregister mj grant order d =
    (let oldLease = sharedLeaseID d
     in case createSharedLeaseLocked grant d of
          (Some e, d) \<Rightarrow> (Some e, [ReqGrant], d)
        | (None, d) \<Rightarrow>
           (let newLease = sharedLeaseID d;
                revoke = (if oldLease \<noteq> 0 then [ReqRevoke oldLease] else [])
            in case registeredActors d of
                 None \<Rightarrow> (None, ReqGrant # revoke, d)
               | Some reg \<Rightarrow>
                  (None, ReqGrant # concat (map (\<lambda>(key, c).
                      case mj (reg_item key c) of None \<Rightarrow> [] | Some val \<Rightarrow> [ReqPut key val newLease]) (items order reg))
                     @ revoke, d)))"

section \<open>The cache\<close>

definition load_one :: "unmarshal \<Rightarrow> string \<Rightarrow> actor_cache \<Rightarrow> actor_cache" where
  "load_one uj val newCache =
    (case uj val of
       None \<Rightarrow> newCache
     | Some item \<Rightarrow>
        (let c = RegConfig item in newCache(ActorType c \<mapsto> list_at newCache (ActorType c) @ [c])))"

definition loadAllToCache ::
  "unmarshal \<Rightarrow> (string \<times> string) list option \<Rightarrow> EtcdDiscovery \<Rightarrow> disc_error option \<times> EtcdDiscovery" where
  "loadAllToCache uj resp d =
    (case resp of
       None \<Rightarrow> (Some ErrLoad, d)
     | Some kvs \<Rightarrow> (None, d\<lparr>cache := Some (fold (\<lambda>(k, val). load_one uj val) kvs Map.empty)\<rparr>))"

text \<open>The non-blocking send on the channel of capacity 100.\<close>

definition send_ch :: "ActorConfig \<Rightarrow> EtcdDiscovery \<Rightarrow> EtcdDiscovery" where
  "send_ch c d = (if length (disc_ch d) < 100 then d\<lparr>disc_ch := disc_ch d @ [c]\<rparr> else d)"

fun replace_id :: "ActorConfig \<Rightarrow> ActorConfig list \<Rightarrow> ActorConfig list" where
  "replace_id c [] = []"
| "replace_id c (a # as) = (if Id a = Id c then c # as else a # replace_id c as)"

fun remove_id :: "u64 \<Rightarrow> ActorConfig list \<Rightarrow> ActorConfig list" where
  "remove_id i [] = []"
| "remove_id i (a # as) = (if Id a = i then as else a # remove_id i as)"

definition has_id :: "u64 \<Rightarrow> ActorConfig list \<Rightarrow> bool" where
  "has_id i as \<longleftrightarrow> list_ex (\<lambda>a. Id a = i) as"

text \<open>The cache part of \<open>handlePut\<close>, from the cache it has loaded to the one it stores.\<close>

definition put_cache :: "ActorConfig \<Rightarrow> actor_cache option \<Rightarrow> actor_cache" where
  "put_cache c old =
    (let m = (case old of None \<Rightarrow> Map.empty | Some m \<Rightarrow> m); actors = list_at m (ActorType c)
     in if has_id (Id c) actors then m(ActorType c \<mapsto> replace_id c actors)
        else m(ActorType c \<mapsto> actors @ [c]))"

definition handlePut :: "unmarshal \<Rightarrow> string \<Rightarrow> EtcdDiscovery \<Rightarrow> EtcdDiscovery" where
  "handlePut uj val d =
    (case uj val of
       None \<Rightarrow> d
     | Some item \<Rightarrow>
        (let c = RegConfig item; d = d\<lparr>cache := Some (put_cache c (cache d))\<rparr> in send_ch c d))"

text \<open>Which actor a delete event is about: from the previous value when the event carries one, else
  from the key.\<close>

definition deleted_actor :: "unmarshal \<Rightarrow> string \<Rightarrow> string option \<Rightarrow> u32 \<times> u64" where
  "deleted_actor uj key prevKv =
    (let (t, i) = (case prevKv of
           Some v \<Rightarrow> if length v > 0 then (case uj v of Some item \<Rightarrow> (ActorType (RegConfig item), Id (RegConfig item))
                                          | None \<Rightarrow> (0, 0)) else (0, 0)
         | None \<Rightarrow> (0, 0))
     in if i = 0 \<and> t = 0
        then (case Split (CHR ''/'') (TrimPrefix key ''/servers/'') of
                p # q # rest \<Rightarrow>
                  (case ParseUint 32 p of
                     None \<Rightarrow> (t, i)
                   | Some at \<Rightarrow> (case ParseUint 64 q of None \<Rightarrow> (t, i) | Some n \<Rightarrow> (word_of_nat at, word_of_nat n)))
              | _ \<Rightarrow> (t, i))
        else (t, i))"

definition remove_cache :: "u32 \<Rightarrow> u64 \<Rightarrow> actor_cache \<Rightarrow> actor_cache" where
  "remove_cache t i m =
    (if has_id i (list_at m t) then m(t \<mapsto> remove_id i (list_at m t)) else m)"

definition handleDelete :: "unmarshal \<Rightarrow> string \<Rightarrow> string option \<Rightarrow> EtcdDiscovery \<Rightarrow> EtcdDiscovery" where
  "handleDelete uj key prevKv d =
    (let (t, i) = deleted_actor uj key prevKv;
         d = (case cache d of None \<Rightarrow> d | Some m \<Rightarrow> d\<lparr>cache := Some (remove_cache t i m)\<rparr>)
     in if i \<noteq> 0 \<or> t \<noteq> 0 then send_ch (config_zero\<lparr>Id := i, ActorType := 0\<rparr>) d else d)"

text \<open>One event of the watch channel.\<close>

datatype watch_event = EvPut string string | EvDel string "string option"

definition watch_one :: "unmarshal \<Rightarrow> watch_event \<Rightarrow> EtcdDiscovery \<Rightarrow> EtcdDiscovery" where
  "watch_one uj ev d =
    (case ev of EvPut k val \<Rightarrow> handlePut uj val d | EvDel k prevKv \<Rightarrow> handleDelete uj k prevKv d)"

section \<open>Construction, registration\<close>

definition NewEtcdDiscovery ::
  "unmarshal \<Rightarrow> bool \<Rightarrow> i64 option \<Rightarrow> (string \<times> string) list option \<Rightarrow> disc_error + EtcdDiscovery" where
  "NewEtcdDiscovery uj cli grant resp =
    (if \<not> cli then Inl ErrClientNil
     else (let d = \<lparr>disc_ch = [], cache = None, sharedLeaseID = 0, registeredActors = None, pollCounters = Map.empty\<rparr>;
               (e, d) = createSharedLeaseLocked grant d;
               (e, d) = loadAllToCache uj resp d
           in Inr d))"

text \<open>The last part of \<open>Register\<close>, from the cache it has loaded: what it stores, if anything.\<close>

definition register_cache :: "ActorConfig \<Rightarrow> actor_cache option \<Rightarrow> actor_cache option" where
  "register_cache c old =
    (let m = (case old of None \<Rightarrow> Map.empty | Some m \<Rightarrow> m); actors = list_at m (ActorType c)
     in if has_id (Id c) actors then None else Some (m(ActorType c \<mapsto> actors @ [c])))"

definition Register_local :: "ActorConfig \<Rightarrow> EtcdDiscovery \<Rightarrow> EtcdDiscovery" where
  "Register_local c d =
    (let reg = (case registeredActors d of None \<Rightarrow> Map.empty | Some r \<Rightarrow> r);
         d = d\<lparr>registeredActors := Some (reg(config_key c \<mapsto> c))\<rparr>
     in case register_cache c (cache d) of None \<Rightarrow> d | Some m \<Rightarrow> d\<lparr>cache := Some m\<rparr>)"

definition Register ::
  "marshal \<Rightarrow> i64 option \<Rightarrow> bool \<Rightarrow> ActorConfig \<Rightarrow> EtcdDiscovery
     \<Rightarrow> disc_error option \<times> etcd_req list \<times> EtcdDiscovery" where
  "Register mj grant putOk c d =
    (let key = config_key c
     in case mj (reg_item key c) of
          None \<Rightarrow> (Some ErrSerialize, [], d)
        | Some val \<Rightarrow>
           (let needLease = (sharedLeaseID d = 0);
                reqs = (if needLease then [ReqGrant] else []);
                (e, d) = (if needLease then createSharedLeaseLocked grant d else (None, d))
            in case e of
                 Some e \<Rightarrow> (Some e, reqs, d)
               | None \<Rightarrow>
                  (let reqs = reqs @ [ReqPut key val (sharedLeaseID d)]
                   in if \<not> putOk then (Some ErrPut, reqs, d) else (None, reqs, Register_local c d))))"

definition Unregister_local :: "ActorConfig \<Rightarrow> EtcdDiscovery \<Rightarrow> EtcdDiscovery" where
  "Unregister_local c d =
    (let d = (case registeredActors d of None \<Rightarrow> d
              | Some r \<Rightarrow> d\<lparr>registeredActors := Some (r(config_key c := None))\<rparr>)
     in case cache d of None \<Rightarrow> d | Some m \<Rightarrow> d\<lparr>cache := Some (remove_cache (ActorType c) (Id c) m)\<rparr>)"

definition Unregister ::
  "bool \<Rightarrow> ActorConfig \<Rightarrow> EtcdDiscovery \<Rightarrow> disc_error option \<times> etcd_req list \<times> EtcdDiscovery" where
  "Unregister delOk c d =
    (if \<not> delOk then (Some ErrDelete, [ReqDelete (config_key c)], d)
     else (None, [ReqDelete (config_key c)], Unregister_local c d))"

text \<open>\<open>delOk\<close> tells which deletions succeed; errors are ignored.\<close>

fun unregister_all ::
  "(string \<Rightarrow> bool) \<Rightarrow> ActorConfig list \<Rightarrow> EtcdDiscovery \<Rightarrow> etcd_req list \<times> EtcdDiscovery" where
  "unregister_all delOk [] d = ([], d)"
| "unregister_all delOk (a # as) d =
    (let (e, reqs, d) = Unregister (delOk (config_key a)) a d;
         (reqs', d) = unregister_all delOk as d
     in (reqs @ reqs', d))"

definition CloseAll ::
  "(string \<Rightarrow> bool) \<Rightarrow> string list \<Rightarrow> EtcdDiscovery \<Rightarrow> etcd_req list \<times> EtcdDiscovery" where
  "CloseAll delOk order d =
    (let actors = (case registeredActors d of None \<Rightarrow> [] | Some r \<Rightarrow> map snd (items order r));
         (reqs, d) = unregister_all delOk actors d
     in if sharedLeaseID d \<noteq> 0
        then (reqs @ [ReqRevoke (sharedLeaseID d), ReqCancel], d\<lparr>sharedLeaseID := 0\<rparr>)
        else (reqs @ [ReqCancel], d))"

section \<open>Lookup\<close>

definition findActorsByType :: "u32 \<Rightarrow> EtcdDiscovery \<Rightarrow> ActorConfig list" where
  "findActorsByType actorType d = (case cache d of None \<Rightarrow> [] | Some m \<Rightarrow> list_at m actorType)"

definition findAllByPrefix :: "u32 list \<Rightarrow> string \<Rightarrow> EtcdDiscovery \<Rightarrow> ActorServerRegister list" where
  "findAllByPrefix order key d =
    (let parts = Split (CHR ''/'') (TrimPrefix key ''/'')
     in if length parts < 1 \<or> hd parts \<noteq> ''servers'' then []
        else (case cache d of
                None \<Rightarrow> []
              | Some m \<Rightarrow>
                 if length parts = 1
                 then concat (map (\<lambda>(t, as). map (\<lambda>c. reg_item (actor_key t (Id c)) c) as) (items order m))
                 else (case ParseUint 32 (parts ! 1) of
                         None \<Rightarrow> []
                       | Some n \<Rightarrow> map (\<lambda>c. reg_item (actor_key (ActorType c) (Id c)) c) (list_at m (word_of_nat n)))))"

text \<open>\<open>pick\<close> is the random choice, an index below the length it is given.\<close>

definition FindRandom :: "(nat \<Rightarrow> nat) \<Rightarrow> u32 list \<Rightarrow> string \<Rightarrow> EtcdDiscovery \<Rightarrow> ActorConfig" where
  "FindRandom pick order key d =
    (case parseKeyToActorType key of
       Some actorType \<Rightarrow>
         (let actors = findActorsByType actorType d
          in if length actors = 0 then config_zero else actors ! pick (length actors))
     | None \<Rightarrow>
         (let servers = findAllByPrefix order key d
          in if length servers = 0 then config_zero else RegConfig (servers ! pick (length servers))))"

text \<open>Go's conversion to \<open>int\<close> and its truncating remainder, then the index; \<open>None\<close> is a panic.\<close>

definition poll_index :: "u64 \<Rightarrow> nat \<Rightarrow> nat option" where
  "poll_index cnt n =
    (let k = sint (cnt - 1); r = (if k < 0 then - (- k mod int n) else k mod int n)
     in if r < 0 then None else Some (nat r))"

definition FindPoll :: "u32 list \<Rightarrow> string \<Rightarrow> EtcdDiscovery \<Rightarrow> ActorConfig option \<times> EtcdDiscovery" where
  "FindPoll order key d =
    (let cs = (case parseKeyToActorType key of
                 Some actorType \<Rightarrow> findActorsByType actorType d
               | None \<Rightarrow> map RegConfig (findAllByPrefix order key d));
         n = length cs
     in if n = 0 then (Some config_zero, d)
        else (let counter = (case pollCounters d key of None \<Rightarrow> 0 | Some v \<Rightarrow> v) + 1;
                  d = d\<lparr>pollCounters := (pollCounters d)(key \<mapsto> counter)\<rparr>
              in case poll_index counter n of None \<Rightarrow> (None, d) | Some i \<Rightarrow> (Some (cs ! i), d)))"

definition FindMod :: "u32 \<Rightarrow> u64 \<Rightarrow> EtcdDiscovery \<Rightarrow> ActorConfig" where
  "FindMod actorType userId d =
    (let actors = findActorsByType actorType d; n = length actors
     in if n = 0 then config_zero else actors ! unat (userId mod word_of_nat n))"

text \<open>The discoverer without a service: every lookup is empty, every registration succeeds.\<close>

definition Noop_Find :: "string \<Rightarrow> ActorConfig" where "Noop_Find key = config_zero"
definition Noop_FindMod :: "u32 \<Rightarrow> u64 \<Rightarrow> ActorConfig" where "Noop_FindMod t u = config_zero"
definition Noop_Register :: "ActorConfig \<Rightarrow> disc_error option" where "Noop_Register c = None"
definition Noop_FindAllByPrefix :: "string \<Rightarrow> ActorServerRegister list" where "Noop_FindAllByPrefix key = []"

section \<open>What the service stores\<close>

text \<open>The keys under \<open>/servers/\<close>, and what a watch event says about them. The code relies on every
  value being a registration stored under its own key; a delete event is about such a key, and the
  previous value it may carry is a registration under that key.\<close>

type_synonym kv = "string \<rightharpoonup> string"

definition registered :: "unmarshal \<Rightarrow> kv \<Rightarrow> ActorConfig set" where
  "registered uj kv = {c. \<exists>k v item. kv k = Some v \<and> uj v = Some item \<and> RegConfig item = c}"

definition keyed :: "unmarshal \<Rightarrow> kv \<Rightarrow> bool" where
  "keyed uj kv \<longleftrightarrow> (\<forall>k v. kv k = Some v \<longrightarrow> (\<exists>item. uj v = Some item \<and> k = config_key (RegConfig item)))"

definition kv_event :: "watch_event \<Rightarrow> kv \<Rightarrow> kv" where
  "kv_event ev kv = (case ev of EvPut k v \<Rightarrow> kv(k \<mapsto> v) | EvDel k prevKv \<Rightarrow> kv(k := None))"

definition event_ok :: "unmarshal \<Rightarrow> watch_event \<Rightarrow> bool" where
  "event_ok uj ev =
    (case ev of
       EvPut k v \<Rightarrow> (case uj v of None \<Rightarrow> False | Some item \<Rightarrow> k = config_key (RegConfig item))
     | EvDel k prevKv \<Rightarrow> (\<exists>t i. k = actor_key t i)
         \<and> (case prevKv of None \<Rightarrow> True
            | Some v \<Rightarrow> (case uj v of None \<Rightarrow> False | Some item \<Rightarrow> k = config_key (RegConfig item))))"

definition event_key :: "watch_event \<Rightarrow> string" where
  "event_key ev = (case ev of EvPut k v \<Rightarrow> k | EvDel k prevKv \<Rightarrow> k)"

text \<open>The cache holds exactly the registered actors, each under its type, once per identifier.\<close>

definition mirrors :: "unmarshal \<Rightarrow> actor_cache \<Rightarrow> kv \<Rightarrow> bool" where
  "mirrors uj m kv \<longleftrightarrow>
     (\<forall>t. set (list_at m t) = {c \<in> registered uj kv. ActorType c = t} \<and> distinct (map Id (list_at m t)))"

lemma actor_key_inject [simp]: "actor_key t i = actor_key t' i' \<longleftrightarrow> t = t' \<and> i = i'"
  by (simp add: actor_key_def fmt_d_slash_inject unat_inj_iff)

lemma config_key_eq: "config_key c = config_key c' \<longleftrightarrow> ActorType c = ActorType c' \<and> Id c = Id c'"
  by (simp add: config_key_def)

lemma registered_empty [simp]: "registered uj Map.empty = {}"
  by (simp add: registered_def)

lemma registered_put:
  assumes "keyed uj kv" and "uj v = Some item"
  shows "registered uj (kv(config_key (RegConfig item) \<mapsto> v))
    = insert (RegConfig item) {c \<in> registered uj kv. config_key c \<noteq> config_key (RegConfig item)}"
  using assms by (fastforce simp: registered_def keyed_def split: if_splits)

lemma registered_del:
  "keyed uj kv \<Longrightarrow> registered uj (kv(k := None)) = {c \<in> registered uj kv. config_key c \<noteq> k}"
  by (fastforce simp: registered_def keyed_def split: if_splits)

lemma keyed_event: "keyed uj kv \<Longrightarrow> event_ok uj ev \<Longrightarrow> keyed uj (kv_event ev kv)"
  by (auto simp: keyed_def event_ok_def kv_event_def split: watch_event.splits option.splits)

section \<open>The lists of the cache\<close>

lemma has_id_iff: "has_id i as \<longleftrightarrow> i \<in> Id ` set as"
  by (auto simp: has_id_def list_ex_iff)

lemma Id_replace_id [simp]: "map Id (replace_id c as) = map Id as"
  by (induction as) auto

lemma set_replace_id:
  "distinct (map Id as) \<Longrightarrow> has_id (Id c) as \<Longrightarrow> set (replace_id c as) = insert c {a \<in> set as. Id a \<noteq> Id c}"
proof (induction as)
  case (Cons a as)
  have "\<forall>x \<in> set as. Id x \<noteq> Id a" using Cons.prems(1) by (auto simp: image_iff)
  then show ?case using Cons by (cases "Id a = Id c") (auto simp: has_id_def)
qed (simp add: has_id_def)

lemma set_remove_id: "distinct (map Id as) \<Longrightarrow> set (remove_id i as) = {a \<in> set as. Id a \<noteq> i}"
proof (induction as)
  case (Cons a as)
  have "\<forall>x \<in> set as. Id x \<noteq> Id a" using Cons.prems by (auto simp: image_iff)
  then show ?case using Cons by (cases "Id a = i") auto
qed simp

lemma distinct_remove_id: "distinct (map Id as) \<Longrightarrow> distinct (map Id (remove_id i as))"
  by (induction as) (auto simp: set_remove_id)

lemma remove_id_absent: "\<not> has_id i as \<Longrightarrow> {a \<in> set as. Id a \<noteq> i} = set as"
  by (auto simp: has_id_iff)

lemma put_cache_at:
  "list_at (put_cache c (Some m)) t =
     (if t = ActorType c then (if has_id (Id c) (list_at m t) then replace_id c (list_at m t) else list_at m t @ [c])
      else list_at m t)"
  by (simp add: put_cache_def Let_def)

lemma remove_cache_at:
  "list_at (remove_cache t i m) t' =
     (if t' = t \<and> has_id i (list_at m t) then remove_id i (list_at m t) else list_at m t')"
  by (simp add: remove_cache_def)

section \<open>The cache follows the service\<close>

lemma mirrors_put:
  assumes "mirrors uj m kv" and "keyed uj kv" and "uj v = Some item"
  shows "mirrors uj (put_cache (RegConfig item) (Some m)) (kv(config_key (RegConfig item) \<mapsto> v))"
  unfolding mirrors_def
proof
  fix t
  let ?c = "RegConfig item" and ?as = "list_at m t"
  have as: "set ?as = {c \<in> registered uj kv. ActorType c = t}" "distinct (map Id ?as)"
    using assms(1) by (auto simp: mirrors_def)
  note r = registered_put [OF assms(2,3)]
  show "set (list_at (put_cache ?c (Some m)) t)
      = {c \<in> registered uj (kv(config_key ?c \<mapsto> v)). ActorType c = t}
    \<and> distinct (map Id (list_at (put_cache ?c (Some m)) t))"
  proof (cases "t = ActorType ?c")
    case False
    then show ?thesis using as by (auto simp: put_cache_at r config_key_eq)
  next
    case True
    show ?thesis
    proof (cases "has_id (Id ?c) ?as")
      case h: True
      have "set (replace_id ?c ?as) = insert ?c {a \<in> set ?as. Id a \<noteq> Id ?c}" by (rule set_replace_id [OF as(2) h])
      then show ?thesis using True h as by (auto simp: put_cache_at r config_key_eq)
    next
      case h: False
      then have "\<forall>x \<in> set ?as. Id x \<noteq> Id ?c" by (auto simp: has_id_iff image_iff)
      then show ?thesis using True h as by (auto simp: put_cache_at r config_key_eq)
    qed
  qed
qed

lemma mirrors_del:
  assumes "mirrors uj m kv" and "keyed uj kv"
  shows "mirrors uj (remove_cache t i m) (kv(actor_key t i := None))"
  unfolding mirrors_def
proof
  fix t'
  let ?as = "list_at m t'"
  have as: "set ?as = {c \<in> registered uj kv. ActorType c = t'}" "distinct (map Id ?as)"
    using assms(1) by (auto simp: mirrors_def)
  note r = registered_del [OF assms(2)]
  show "set (list_at (remove_cache t i m) t') = {c \<in> registered uj (kv(actor_key t i := None)). ActorType c = t'}
    \<and> distinct (map Id (list_at (remove_cache t i m) t'))"
  proof (cases "t' = t \<and> has_id i ?as")
    case True
    then show ?thesis using as set_remove_id [OF as(2), of i] distinct_remove_id [OF as(2), of i]
      by (auto simp: remove_cache_at r config_key_def)
  next
    case False
    then show ?thesis using as by (auto simp: remove_cache_at r config_key_def has_id_iff)
  qed
qed

lemma mirrors_empty: "mirrors uj Map.empty Map.empty"
  by (simp add: mirrors_def)

lemma deleted_actor_key: "deleted_actor uj (actor_key t i) None = (t, i)"
proof -
  have "TrimPrefix (actor_key t i) ''/servers/'' = fmt_d (unat t) @ CHR ''/'' # fmt_d (unat i)"
    unfolding actor_key_def TrimPrefix_append by simp
  then have "Split (CHR ''/'') (TrimPrefix (actor_key t i) ''/servers/'') = [fmt_d (unat t), fmt_d (unat i)]"
    by (simp add: Split_append Split_no_sep)
  moreover have "unat t < 2 ^ 32" "unat i < 2 ^ 64" using unsigned_less [of t] unsigned_less [of i] by simp_all
  then have "ParseUint 32 (fmt_d (unat t)) = Some (unat t)" "ParseUint 64 (fmt_d (unat i)) = Some (unat i)"
    by (simp_all only: ParseUint_fmt_d)
  ultimately show ?thesis by (simp add: deleted_actor_def)
qed

lemma deleted_actor_event:
  assumes "event_ok uj (EvDel k prevKv)"
  shows "\<exists>t i. k = actor_key t i \<and> deleted_actor uj k prevKv = (t, i)"
proof (cases "prevKv = None \<or> prevKv = Some []")
  case True
  then have "deleted_actor uj k prevKv = deleted_actor uj k None" by (auto simp: deleted_actor_def)
  then show ?thesis using assms deleted_actor_key by (auto simp: event_ok_def)
next
  case False
  then obtain v item where v: "prevKv = Some v" "v \<noteq> []" "uj v = Some item"
      "k = actor_key (ActorType (RegConfig item)) (Id (RegConfig item))"
    using assms by (auto simp: event_ok_def config_key_def split: option.splits)
  have n: "deleted_actor uj k None = (ActorType (RegConfig item), Id (RegConfig item))"
    unfolding v(4) by (rule deleted_actor_key)
  have "deleted_actor uj k prevKv = (if Id (RegConfig item) = 0 \<and> ActorType (RegConfig item) = 0
      then deleted_actor uj k None else (ActorType (RegConfig item), Id (RegConfig item)))"
    using v(1-3) by (auto simp: deleted_actor_def split: list.split option.split)
  then show ?thesis using n v(4) by (auto split: if_splits)
qed

lemma watch_one_mirrors:
  assumes "cache d = Some m" and "mirrors uj m kv" and "keyed uj kv" and "event_ok uj ev"
  shows "\<exists>m'. cache (watch_one uj ev d) = Some m' \<and> mirrors uj m' (kv_event ev kv)"
proof (cases ev)
  case (EvPut k v)
  then obtain item where "uj v = Some item" "k = config_key (RegConfig item)"
    using assms(4) by (auto simp: event_ok_def split: option.splits)
  then show ?thesis using assms(1) mirrors_put [OF assms(2,3)] EvPut
    by (simp add: watch_one_def handlePut_def kv_event_def send_ch_def Let_def)
next
  case (EvDel k prevKv)
  then obtain t i where "k = actor_key t i" "deleted_actor uj k prevKv = (t, i)"
    using deleted_actor_event assms(4) by blast
  then show ?thesis using assms(1) mirrors_del [OF assms(2,3)] EvDel
    by (simp add: watch_one_def handleDelete_def kv_event_def send_ch_def Let_def)
qed

lemma keyed_events: "keyed uj kv \<Longrightarrow> list_all (event_ok uj) evs \<Longrightarrow> keyed uj (fold kv_event evs kv)"
  by (induction evs arbitrary: kv) (auto simp: keyed_event)

lemma load_mirrors:
  assumes "distinct (map fst kvs)" and "keyed uj (map_of kvs)"
  shows "mirrors uj (fold (\<lambda>(k, v). load_one uj v) kvs Map.empty) (map_of kvs)"
  using assms
proof (induction kvs rule: rev_induct)
  case (snoc p kvs)
  obtain k v where p: "p = (k, v)" by fastforce
  have fresh: "map_of kvs k = None" using snoc.prems(1) p by (simp add: map_of_eq_None_iff)
  have m: "map_of (kvs @ [p]) = (map_of kvs)(k \<mapsto> v)"
    using fresh by (auto simp: p map_add_def fun_eq_iff split: option.split)
  have ky: "keyed uj (map_of kvs)"
    using snoc.prems(2) fresh unfolding m keyed_def by (metis fun_upd_apply option.distinct(1))
  obtain item where item: "uj v = Some item" "k = config_key (RegConfig item)"
    using snoc.prems(2) unfolding m keyed_def by (metis fun_upd_same)
  let ?m = "fold (\<lambda>(k, v). load_one uj v) kvs Map.empty"
  have IH: "mirrors uj ?m (map_of kvs)" using snoc ky by simp
  have "\<not> has_id (Id (RegConfig item)) (list_at ?m (ActorType (RegConfig item)))"
  proof
    assume "has_id (Id (RegConfig item)) (list_at ?m (ActorType (RegConfig item)))"
    then obtain c where "c \<in> registered uj (map_of kvs)" "config_key c = k"
      using IH by (auto simp: has_id_iff mirrors_def item(2) config_key_eq)
    then show False using fresh ky unfolding registered_def keyed_def by fastforce
  qed
  then have l: "load_one uj v ?m = put_cache (RegConfig item) (Some ?m)"
    by (simp add: load_one_def put_cache_def item(1) Let_def)
  have f: "fold (\<lambda>(k, v). load_one uj v) (kvs @ [p]) Map.empty = put_cache (RegConfig item) (Some ?m)"
    using l by (simp add: p)
  show ?case unfolding m f unfolding item(2) by (rule mirrors_put [OF IH ky item(1)])
qed (simp add: mirrors_empty)

lemma watch_mirrors:
  assumes "cache d = Some m" and "mirrors uj m kv" and "keyed uj kv" and "list_all (event_ok uj) evs"
  shows "\<exists>m'. cache (fold (watch_one uj) evs d) = Some m' \<and> mirrors uj m' (fold kv_event evs kv)"
  using assms
proof (induction evs arbitrary: d m kv)
  case (Cons ev evs)
  have ev: "event_ok uj ev" "list_all (event_ok uj) evs" using Cons.prems(4) by simp_all
  obtain m' where m': "cache (watch_one uj ev d) = Some m'" "mirrors uj m' (kv_event ev kv)"
    using watch_one_mirrors [OF Cons.prems(1-3) ev(1)] by blast
  show ?case using Cons.IH [OF m' keyed_event [OF Cons.prems(3) ev(1)] ev(2)] by simp
qed auto

text \<open>A cache loaded from the listing \<open>kvs\<close>, then updated by the watch.\<close>

definition watched :: "unmarshal \<Rightarrow> (string \<times> string) list \<Rightarrow> watch_event list \<Rightarrow> EtcdDiscovery \<Rightarrow> EtcdDiscovery" where
  "watched uj kvs evs d = fold (watch_one uj) evs (snd (loadAllToCache uj (Some kvs) d))"

lemma watched_mirrors:
  assumes "distinct (map fst kvs)" and "keyed uj (map_of kvs)" and "list_all (event_ok uj) evs"
  shows "\<exists>m. cache (watched uj kvs evs d) = Some m \<and> mirrors uj m (fold kv_event evs (map_of kvs))"
  unfolding watched_def
  by (rule watch_mirrors [OF _ load_mirrors [OF assms(1,2)] assms(2,3)]) (simp add: loadAllToCache_def)

lemma registered_iff:
  "keyed uj kv \<Longrightarrow> c \<in> registered uj kv \<longleftrightarrow>
     (\<exists>v item. kv (config_key c) = Some v \<and> uj v = Some item \<and> RegConfig item = c)"
  by (fastforce simp: registered_def keyed_def)

lemma kv_untouched: "\<forall>ev \<in> set evs. event_key ev \<noteq> k \<Longrightarrow> fold kv_event evs kv k = kv k"
  by (induction evs arbitrary: kv) (auto simp: kv_event_def event_key_def split: watch_event.splits)

text \<open>One registered actor, for the witnesses.\<close>

definition demo_actor :: ActorConfig where
  "demo_actor = config_zero\<lparr>Id := 7, Process := 2, ActorType := 3, SupportedMsgIDs := [5]\<rparr>"

definition demo_uj :: unmarshal where
  "demo_uj v = (if v = ''a'' then Some (reg_item (config_key demo_actor) demo_actor) else None)"

definition demo_mj :: marshal where
  "demo_mj item = Some ''a''"

definition demo_disc :: EtcdDiscovery where
  "demo_disc = \<lparr>disc_ch = [], cache = None, sharedLeaseID = 4, registeredActors = None, pollCounters = Map.empty\<rparr>"

lemma demo_uj_a [simp]: "demo_uj ''a'' = Some (reg_item (config_key demo_actor) demo_actor)"
  by (simp add: demo_uj_def)

lemma RegConfig_reg_item [simp]: "RegConfig (reg_item k c) = c"
  by (simp add: reg_item_def)

lemma demo_key: "config_key demo_actor = actor_key 3 7"
  by (simp add: config_key_def demo_actor_def)

lemma demo_keyed: "keyed demo_uj [config_key demo_actor \<mapsto> ''a'']" "keyed demo_uj Map.empty"
  by (simp_all add: keyed_def)

lemma demo_events: "event_ok demo_uj (EvPut (config_key demo_actor) ''a'')" "event_ok demo_uj (EvDel (config_key demo_actor) None)"
  by (auto simp: event_ok_def demo_key)

text \<open>Claim C8: After the cache has been loaded from a listing of the service and the watch has
  delivered any sequence of events, the cache holds, for every actor type, exactly the actors that
  the service then has registered, each once: the cache refines the key space of the service.\<close>

theorem cache_mirrors_store:
  assumes "distinct (map fst kvs)" and "keyed uj (map_of kvs)" and "list_all (event_ok uj) evs"
  shows "set (findActorsByType t (watched uj kvs evs d))
      = {c \<in> registered uj (fold kv_event evs (map_of kvs)). ActorType c = t}
    \<and> distinct (map Id (findActorsByType t (watched uj kvs evs d)))"
proof -
  obtain m where "cache (watched uj kvs evs d) = Some m" "mirrors uj m (fold kv_event evs (map_of kvs))"
    using watched_mirrors [OF assms] by blast
  then show ?thesis by (simp add: findActorsByType_def mirrors_def)
qed

theorem cache_mirrors_store_witness:
  "set (findActorsByType 3 (watched demo_uj [] [EvPut (config_key demo_actor) ''a''] demo_disc)) = {demo_actor}
   \<and> findActorsByType 3 (watched demo_uj [(config_key demo_actor, ''a'')] [EvDel (config_key demo_actor) None] demo_disc) = []"
proof
  have "registered demo_uj (fold kv_event [EvPut (config_key demo_actor) ''a''] (map_of [])) = {demo_actor}"
    by (auto simp: registered_def kv_event_def)
  moreover have "ActorType demo_actor = 3" by (simp add: demo_actor_def)
  ultimately show "set (findActorsByType 3 (watched demo_uj [] [EvPut (config_key demo_actor) ''a''] demo_disc)) = {demo_actor}"
    using cache_mirrors_store [of "[]" demo_uj "[EvPut (config_key demo_actor) ''a'']" 3 demo_disc] demo_keyed(2) demo_events(1) by auto
  have "registered demo_uj (fold kv_event [EvDel (config_key demo_actor) None] (map_of [(config_key demo_actor, ''a'')])) = {}"
    by (simp add: registered_def kv_event_def)
  then show "findActorsByType 3 (watched demo_uj [(config_key demo_actor, ''a'')] [EvDel (config_key demo_actor) None] demo_disc) = []"
    using cache_mirrors_store [of "[(config_key demo_actor, ''a'')]" demo_uj "[EvDel (config_key demo_actor) None]" 3 demo_disc]
      demo_keyed(1) demo_events(2) by auto
qed

text \<open>What happens between the listing and the start of the watch is lost: an actor whose
  key sees no later event stays in the cache, or out of it, as the listing had it, whatever the
  missed events did to it in the service.\<close>

theorem watch_gap_stale:
  assumes "distinct (map fst kvs)" and "keyed uj (map_of kvs)" and "list_all (event_ok uj) (missed @ evs)"
    and "\<forall>ev \<in> set evs. event_key ev \<noteq> config_key c"
  shows "(c \<in> set (findActorsByType (ActorType c) (watched uj kvs evs d)) \<longleftrightarrow> c \<in> registered uj (map_of kvs))
    \<and> (c \<in> registered uj (fold kv_event (missed @ evs) (map_of kvs)) \<longleftrightarrow> c \<in> registered uj (fold kv_event missed (map_of kvs)))"
proof (intro conjI)
  have ok: "list_all (event_ok uj) missed" "list_all (event_ok uj) evs" using assms(3) by simp_all
  obtain m where "cache (watched uj kvs evs d) = Some m" "mirrors uj m (fold kv_event evs (map_of kvs))"
    using watched_mirrors [OF assms(1,2) ok(2)] by metis
  then show "c \<in> set (findActorsByType (ActorType c) (watched uj kvs evs d)) \<longleftrightarrow> c \<in> registered uj (map_of kvs)"
    using registered_iff [OF keyed_events [OF assms(2) ok(2)]] registered_iff [OF assms(2)] kv_untouched [OF assms(4)]
    by (simp add: findActorsByType_def mirrors_def)
  show "c \<in> registered uj (fold kv_event (missed @ evs) (map_of kvs)) \<longleftrightarrow> c \<in> registered uj (fold kv_event missed (map_of kvs))"
    using registered_iff [OF keyed_events [OF assms(2,3)]] registered_iff [OF keyed_events [OF assms(2) ok(1)]]
      kv_untouched [OF assms(4)] by simp
qed

theorem watch_gap_stale_witness:
  "demo_actor \<in> set (findActorsByType (ActorType demo_actor) (watched demo_uj [(config_key demo_actor, ''a'')] [] demo_disc))
   \<and> demo_actor \<notin> registered demo_uj (fold kv_event ([EvDel (config_key demo_actor) None] @ []) (map_of [(config_key demo_actor, ''a'')]))"
proof -
  have "demo_actor \<in> registered demo_uj (map_of [(config_key demo_actor, ''a'')])" by (auto simp: registered_def)
  moreover have "demo_actor \<notin> registered demo_uj (fold kv_event [EvDel (config_key demo_actor) None] (map_of [(config_key demo_actor, ''a'')]))"
    by (simp add: registered_def kv_event_def)
  ultimately show ?thesis
    using watch_gap_stale [of "[(config_key demo_actor, ''a'')]" demo_uj "[EvDel (config_key demo_actor) None]" "[]" demo_actor demo_disc]
      demo_keyed(1) demo_events(2) by simp
qed

end
