(* ===== verification/ZDiscRun.thy ===== *)
theory ZDiscRun
  imports ZDiscovery ZRoute "HOL-Library.Multiset"
begin

text \<open>
  The discoverer at work: round-robin and modulo selection, the renewal of the lease, the races
  of its copy-on-write updates, and the propagation of registrations to the routing table of the
  group (\<open>zactor/group.go\<close>, theory \<open>ZGroup\<close>) over the change channel.
\<close>

section \<open>Keys and prefixes\<close>

lemma parse_type_key: "parseKeyToActorType (''/servers/'' @ fmt_d (unat t)) = Some t"
proof -
  have "unat t < 2 ^ 32" using unsigned_less [of t] by simp
  then have p: "ParseUint 32 (fmt_d (unat t)) = Some (unat t)" by (rule ParseUint_fmt_d)
  have "TrimPrefix (''/'' @ ''servers/'' @ fmt_d (unat t)) ''/'' = ''servers/'' @ fmt_d (unat t)"
    by (rule TrimPrefix_append)
  moreover have "after_last (CHR ''/'') (''servers'' @ CHR ''/'' # fmt_d (unat t)) = Some (fmt_d (unat t))"
    by (rule after_last_append) simp
  ultimately show ?thesis using p by (simp add: parseKeyToActorType_def HasPrefix_def)
qed

text \<open>A key below a type is not rejected: its last part is read as the type.\<close>

lemma parse_actor_key:
  "unat i < 2 ^ 32 \<Longrightarrow> parseKeyToActorType (actor_key t i) = Some (word_of_nat (unat i))"
proof -
  assume "unat i < 2 ^ 32"
  then have p: "ParseUint 32 (fmt_d (unat i)) = Some (unat i)" by (rule ParseUint_fmt_d)
  have "TrimPrefix (''/'' @ ''servers/'' @ fmt_d (unat t) @ ''/'' @ fmt_d (unat i)) ''/''
      = ''servers/'' @ fmt_d (unat t) @ ''/'' @ fmt_d (unat i)"
    by (rule TrimPrefix_append)
  moreover have "after_last (CHR ''/'') ((''servers/'' @ fmt_d (unat t)) @ CHR ''/'' # fmt_d (unat i)) = Some (fmt_d (unat i))"
    by (rule after_last_append) simp
  ultimately show ?thesis using p by (simp add: parseKeyToActorType_def HasPrefix_def actor_key_def)
qed

lemma parse_servers: "parseKeyToActorType ''/servers'' = None"
  by (simp add: parseKeyToActorType_def TrimPrefix_def HasPrefix_def)

lemma findAll_servers:
  assumes "cache d = Some m" and "mirrors uj m kv" and "ranges order m"
  shows "RegConfig ` set (findAllByPrefix order ''/servers'' d) = registered uj kv"
    and "\<forall>it \<in> set (findAllByPrefix order ''/servers'' d). Key it = config_key (RegConfig it)"
proof -
  have l: "findAllByPrefix order ''/servers'' d
      = concat (map (\<lambda>(t, as). map (\<lambda>c. reg_item (actor_key t (Id c)) c) as) (items order m))"
    using assms(1) by (simp add: findAllByPrefix_def TrimPrefix_def HasPrefix_def)
  have at: "t \<in> dom m \<Longrightarrow> set (the (m t)) = {c \<in> registered uj kv. ActorType c = t}" for t
    using assms(2) by (auto simp: mirrors_def list_at_def split: option.splits)
  have none: "t \<notin> dom m \<Longrightarrow> {c \<in> registered uj kv. ActorType c = t} = {}" for t
    using assms(2) unfolding mirrors_def list_at_def by (metis domIff empty_set option.simps(4))
  have "RegConfig ` set (findAllByPrefix order ''/servers'' d) = (\<Union>t \<in> dom m. set (the (m t)))"
    using assms(3) by (simp add: l items_def ranges_def image_UN image_image)
  also have "\<dots> = registered uj kv" using at none by fastforce
  finally show "RegConfig ` set (findAllByPrefix order ''/servers'' d) = registered uj kv" .
  show "\<forall>it \<in> set (findAllByPrefix order ''/servers'' d). Key it = config_key (RegConfig it)"
    using assms(3) at by (auto simp: l items_def ranges_def reg_item_def config_key_def)
qed

section \<open>Selection\<close>

lemma poll_index_small:
  assumes "v < 2 ^ 63" and "0 < n"
  shows "poll_index (word_of_nat v + 1) n = Some (v mod n)"
proof -
  have "unat (word_of_nat v :: u64) = v" by (rule unat_word_of_nat_lt) (use assms(1) in simp)
  then have "sint (word_of_nat v :: u64) = int v" using sint_eq_unat [of "word_of_nat v :: u64"] assms(1) by simp
  moreover have "int v mod int n = int (v mod n)" by (simp add: zmod_int)
  ultimately show ?thesis by (simp add: poll_index_def Let_def del: of_nat_mod)
qed

text \<open>Beyond \<open>2^63\<close> polls the conversion to \<open>int\<close> turns negative and the index panics.\<close>

lemma poll_index_panics: "poll_index 9223372036854775809 3 = None"
  by (simp add: poll_index_def Let_def)

text \<open>What the candidates for a key are, and a run of successive polls.\<close>

definition candidates :: "u32 list \<Rightarrow> string \<Rightarrow> EtcdDiscovery \<Rightarrow> ActorConfig list" where
  "candidates order key d =
    (case parseKeyToActorType key of
       Some actorType \<Rightarrow> findActorsByType actorType d
     | None \<Rightarrow> map RegConfig (findAllByPrefix order key d))"

definition polled :: "string \<Rightarrow> EtcdDiscovery \<Rightarrow> u64" where
  "polled key d = (case pollCounters d key of None \<Rightarrow> 0 | Some v \<Rightarrow> v)"

fun poll_run :: "nat \<Rightarrow> u32 list \<Rightarrow> string \<Rightarrow> EtcdDiscovery \<Rightarrow> ActorConfig option list" where
  "poll_run 0 order key d = []"
| "poll_run (Suc n) order key d = (let (c, d) = FindPoll order key d in c # poll_run n order key d)"

lemma lookups_counter [simp]:
  "findActorsByType t (d\<lparr>pollCounters := x\<rparr>) = findActorsByType t d"
  "findAllByPrefix order key (d\<lparr>pollCounters := x\<rparr>) = findAllByPrefix order key d"
proof -
  have c: "cache (d\<lparr>pollCounters := x\<rparr>) = cache d" by simp
  show "findActorsByType t (d\<lparr>pollCounters := x\<rparr>) = findActorsByType t d" unfolding findActorsByType_def c ..
  show "findAllByPrefix order key (d\<lparr>pollCounters := x\<rparr>) = findAllByPrefix order key d"
    unfolding findAllByPrefix_def c ..
qed

lemma candidates_counter [simp]: "candidates order key (d\<lparr>pollCounters := x\<rparr>) = candidates order key d"
  by (cases "parseKeyToActorType key") (simp_all add: candidates_def)

lemma FindPoll_next:
  assumes "candidates order key d \<noteq> []" and "polled key d = word_of_nat v" and "v < 2 ^ 63"
  shows "FindPoll order key d = (Some (candidates order key d ! (v mod length (candidates order key d))),
    d\<lparr>pollCounters := (pollCounters d)(key \<mapsto> word_of_nat v + 1)\<rparr>)"
proof -
  have "poll_index (word_of_nat v + 1) (length (candidates order key d)) = Some (v mod length (candidates order key d))"
    using poll_index_small assms by simp
  then show ?thesis using assms(1,2)
    unfolding FindPoll_def Let_def candidates_def [symmetric] polled_def [symmetric] by simp
qed

lemma poll_run_eq:
  assumes "candidates order key d \<noteq> []" and "polled key d = word_of_nat v" and "v + n \<le> 2 ^ 63"
  shows "poll_run n order key d
    = map (\<lambda>i. Some (candidates order key d ! ((v + i) mod length (candidates order key d)))) [0..<n]"
  using assms
proof (induction n arbitrary: v d)
  case (Suc n)
  let ?d = "d\<lparr>pollCounters := (pollCounters d)(key \<mapsto> word_of_nat v + 1)\<rparr>"
  have "v < 2 ^ 63" using Suc.prems(3) by simp
  note p = FindPoll_next [OF Suc.prems(1,2) this]
  have v: "polled key ?d = word_of_nat (Suc v)" by (simp add: polled_def add.commute)
  have "poll_run n order key ?d
      = map (\<lambda>i. Some (candidates order key d ! ((Suc v + i) mod length (candidates order key d)))) [0..<n]"
    using Suc.IH [OF _ v] Suc.prems by simp
  moreover have m: "map f [0..<Suc n] = f 0 # map (\<lambda>i. f (Suc i)) [0..<n]" for f :: "nat \<Rightarrow> ActorConfig option"
    by (simp add: upt_conv_Cons map_Suc_upt [symmetric] del: upt_Suc)
  ultimately show ?case unfolding m by (simp add: p)
qed simp

lemma mset_rotated:
  assumes "xs \<noteq> []"
  shows "mset (map (\<lambda>i. xs ! ((v + i) mod length xs)) [0..<length xs]) = mset xs"
proof -
  have "map (\<lambda>i. xs ! ((v + i) mod length xs)) [0..<length xs] = rotate v xs"
    by (rule nth_equalityI) (simp_all add: nth_rotate)
  moreover have "mset (rotate v xs) = mset xs"
    by (metis add.commute append_take_drop_id mset_append rotate_drop_take)
  ultimately show ?thesis by simp
qed

text \<open>Round-robin discovery is fair: with \<open>n\<close> candidates, any \<open>n\<close> successive polls of a
  key return each of them exactly once, as long as fewer than \<open>2^63\<close> polls were made of the key.\<close>

theorem FindPoll_fair:
  assumes "candidates order key d \<noteq> []" and "polled key d = word_of_nat v"
    and "v + length (candidates order key d) \<le> 2 ^ 63"
  shows "mset (poll_run (length (candidates order key d)) order key d) = mset (map Some (candidates order key d))"
  unfolding poll_run_eq [OF assms] using mset_rotated [of "map Some (candidates order key d)" v] assms(1)
  by (simp cong: map_cong)

theorem FindPoll_fair_witness:
  "mset (poll_run 1 [] ''/servers/3'' (watched demo_uj [(config_key demo_actor, ''a'')] [] demo_disc)) = {#Some demo_actor#}"
proof -
  let ?d = "watched demo_uj [(config_key demo_actor, ''a'')] [] demo_disc"
  have "parseKeyToActorType (''/servers/'' @ fmt_d (unat (3 :: u32))) = Some 3" by (rule parse_type_key)
  moreover have "fmt_d 3 = ''3''" by code_simp
  ultimately have p: "parseKeyToActorType ''/servers/3'' = Some 3" by simp
  have c: "candidates [] ''/servers/3'' ?d = [demo_actor]"
    by (simp add: candidates_def p findActorsByType_def watched_def loadAllToCache_def load_one_def list_at_def)
      (simp add: demo_actor_def)
  have "polled ''/servers/3'' ?d = word_of_nat 0" by (simp add: polled_def watched_def loadAllToCache_def demo_disc_def)
  then show ?thesis
    using FindPoll_fair [where order = "[]" and key = "''/servers/3''" and d = ?d and v = 0, unfolded c]
    by (simp del: poll_run.simps)
qed

text \<open>The same user is served by the same actor while the candidates stay.\<close>

lemma FindMod_cached:
  "findActorsByType t d = findActorsByType t d' \<Longrightarrow> FindMod t u d = FindMod t u d'"
  by (simp add: FindMod_def)

lemma FindMod_valid:
  assumes "findActorsByType t d \<noteq> []" and "length (findActorsByType t d) < 2 ^ 64"
  shows "FindMod t u d \<in> set (findActorsByType t d)"
proof -
  let ?n = "length (findActorsByType t d)"
  have "unat (word_of_nat ?n :: u64) = ?n" by (rule unat_word_of_nat_lt) (use assms(2) in simp)
  then have "unat (u mod word_of_nat ?n) < ?n" using assms(1) by (simp add: unat_mod_distrib)
  then show ?thesis using assms(1) by (simp add: FindMod_def Let_def)
qed

section \<open>Lease renewal\<close>

text \<open>What the requests do to the keys of the service and the leases they hang on, as etcd
  documents them: revoking a lease deletes its keys.\<close>

type_synonym lease_kv = "string \<rightharpoonup> string \<times> i64"

definition req_effect :: "etcd_req \<Rightarrow> lease_kv \<Rightarrow> lease_kv" where
  "req_effect r kv =
    (case r of
       ReqPut k v l \<Rightarrow> kv(k \<mapsto> (v, l))
     | ReqDelete k \<Rightarrow> kv(k := None)
     | ReqRevoke l \<Rightarrow> (\<lambda>k. case kv k of None \<Rightarrow> None | Some (v, l') \<Rightarrow> if l' = l then None else Some (v, l'))
     | ReqGrant \<Rightarrow> kv
     | ReqCancel \<Rightarrow> kv)"

definition renewal_puts :: "marshal \<Rightarrow> i64 \<Rightarrow> (string \<times> ActorConfig) list \<Rightarrow> etcd_req list" where
  "renewal_puts mj l kcs = map (\<lambda>(k, c). ReqPut k (the (mj (reg_item k c))) l) kcs"

lemma renewal_dom: "dom kv \<subseteq> dom (fold req_effect (take n (renewal_puts mj l kcs)) kv)"
proof (induction kcs arbitrary: kv n)
  case (Cons p kcs)
  show ?case
  proof (cases n)
    case (Suc m)
    have "dom kv \<subseteq> dom (req_effect (hd (renewal_puts mj l (p # kcs))) kv)"
      by (auto simp: renewal_puts_def req_effect_def split: prod.splits)
    also have "\<dots> \<subseteq> dom (fold req_effect (take m (renewal_puts mj l kcs)) (req_effect (hd (renewal_puts mj l (p # kcs))) kv))"
      by (rule Cons.IH)
    finally show ?thesis by (simp add: Suc renewal_puts_def)
  qed simp
qed (simp add: renewal_puts_def)

lemma renewal_final:
  "distinct (map fst kcs) \<Longrightarrow> fold req_effect (renewal_puts mj l kcs) kv k =
     (case map_of kcs k of None \<Rightarrow> kv k | Some c \<Rightarrow> Some (the (mj (reg_item k c)), l))"
proof (induction kcs arbitrary: kv)
  case (Cons p kcs)
  obtain k' c' where p: "p = (k', c')" by fastforce
  have "fst p \<notin> set (map fst kcs)" using Cons.prems by simp
  then have "map_of kcs k' = None" by (simp add: map_of_eq_None_iff p)
  then show ?case using Cons by (auto simp: p renewal_puts_def req_effect_def split: option.split)
qed (simp add: renewal_puts_def)

lemma recreate_requests:
  assumes "registeredActors d = Some reg" and "ranges order reg"
    and "\<And>key c. reg key = Some c \<Longrightarrow> mj (reg_item key c) \<noteq> None"
  shows "recreateLeaseAndReregister mj (Some newLease) order d
    = (None, ReqGrant # renewal_puts mj newLease (items order reg)
        @ (if sharedLeaseID d \<noteq> 0 then [ReqRevoke (sharedLeaseID d)] else []), d\<lparr>sharedLeaseID := newLease\<rparr>)"
proof -
  have "concat (map (\<lambda>(key, c). case mj (reg_item key c) of None \<Rightarrow> [] | Some val \<Rightarrow> [ReqPut key val newLease]) kcs)
      = renewal_puts mj newLease kcs" if "\<forall>(k, c) \<in> set kcs. reg k = Some c" for kcs
    using that by (induction kcs) (auto simp: renewal_puts_def dest: assms(3))
  moreover have "\<forall>(k, c) \<in> set (items order reg). reg k = Some c"
    using assms(2) by (auto simp: items_def ranges_def)
  ultimately show ?thesis using assms(1) 
    by (simp add: recreateLeaseAndReregister_def createSharedLeaseLocked_def Let_def cong: option.case_cong)
qed

lemma items_map_of: "ranges order m \<Longrightarrow> map_of (items order m) k = m k"
  by (auto simp: items_def ranges_def map_of_map_restrict restrict_map_def domIff)

lemma items_keys: "ranges order m \<Longrightarrow> distinct (map fst (items order m))"
  by (simp add: items_def ranges_def comp_def)



text \<open>The registered set is read before the puts: an actor unregistered in between comes back.\<close>

lemma renewal_revives:
  assumes "registeredActors d = Some reg" and "ranges order reg"
    and "\<And>key c. reg key = Some c \<Longrightarrow> mj (reg_item key c) \<noteq> None"
    and "newLease \<noteq> sharedLeaseID d" and "reg (config_key c) = Some c"
  shows "fold req_effect ([ReqGrant] @ fst (snd (Unregister True c d))
      @ tl (fst (snd (recreateLeaseAndReregister mj (Some newLease) order d)))) kv (config_key c)
    = Some (the (mj (reg_item (config_key c) c)), newLease)"
proof -
  have "fold req_effect (renewal_puts mj newLease (items order reg)) kv' (config_key c)
      = Some (the (mj (reg_item (config_key c) c)), newLease)" for kv'
    using assms(5) renewal_final [OF items_keys [OF assms(2)]] items_map_of [OF assms(2)] by simp
  moreover have "fst (snd (recreateLeaseAndReregister mj (Some newLease) order d)) = ReqGrant # renewal_puts mj newLease
      (items order reg) @ (if sharedLeaseID d \<noteq> 0 then [ReqRevoke (sharedLeaseID d)] else [])"
    using recreate_requests [where mj = mj, OF assms(1-3), of newLease] by simp
  ultimately show ?thesis using assms(4)
    by (simp add: Unregister_def) (simp add: req_effect_def)
qed

text \<open>The copy-on-write updates are not compare-and-swap: a put handled between the load and the
  store of a registration disappears from the cache.\<close>

lemma register_race_drops_put:
  assumes "uj v = Some item" and "cache d = Some m" and "register_cache c (cache d) = Some m'"
    and "\<not> has_id (Id (RegConfig item)) (list_at m (ActorType (RegConfig item)))" and "c \<noteq> RegConfig item"
  shows "RegConfig item \<in> set (findActorsByType (ActorType (RegConfig item)) (handlePut uj v d))"
    and "RegConfig item \<notin> set (findActorsByType (ActorType (RegConfig item)) ((handlePut uj v d)\<lparr>cache := Some m'\<rparr>))"
proof -
  show "RegConfig item \<in> set (findActorsByType (ActorType (RegConfig item)) (handlePut uj v d))"
    using assms(1,2,4) by (simp add: handlePut_def send_ch_def findActorsByType_def put_cache_def Let_def)
  have "RegConfig item \<notin> set (list_at m (ActorType (RegConfig item)))" using assms(4) by (auto simp: has_id_iff)
  then show "RegConfig item \<notin> set (findActorsByType (ActorType (RegConfig item)) ((handlePut uj v d)\<lparr>cache := Some m'\<rparr>))"
    using assms(2,3,5) by (auto simp: register_cache_def findActorsByType_def Let_def split: if_splits)
qed

section \<open>From the service to the routing table\<close>

text \<open>The channel and the table of remote actors agree, identifier by identifier, with what the
  service has registered: \<open>entry_at i\<close> is the effect of consuming a notification on the entry \<open>i\<close>.\<close>

definition entry_at :: "u64 \<Rightarrow> ActorConfig \<Rightarrow> ActorConfig option \<Rightarrow> ActorConfig option" where
  "entry_at i c x = (if Id c = 0 \<or> Id c \<noteq> i then x else if ActorType c = 0 then None else Some c)"

definition agrees :: "u64 \<Rightarrow> ActorConfig set \<Rightarrow> u64 \<Rightarrow> ActorConfig option \<Rightarrow> bool" where
  "agrees p R i x \<longleftrightarrow>
     (\<forall>c. x = Some c \<longrightarrow> c \<in> R \<and> Id c = i)
     \<and> (\<forall>c \<in> R. Id c = i \<and> (ucast (Process c) :: u64) \<noteq> p \<longrightarrow> x = Some c)"

text \<open>Identifiers are unique in the cluster, and neither they nor the types are zero.\<close>

definition ids_ok :: "ActorConfig set \<Rightarrow> bool" where
  "ids_ok R \<longleftrightarrow> inj_on Id R \<and> (\<forall>c \<in> R. Id c \<noteq> 0 \<and> ActorType c \<noteq> 0)"

lemma entry_at_event: "otherActors (watchActor_event c g) i = entry_at i c (otherActors g i)"
  by (auto simp: watchActor_event_def watch_bump_def watch_write_def entry_at_def)

lemma process_event [simp]: "process (watchActor_event c g) = process g"
  by (simp add: watchActor_event_def watch_bump_def watch_write_def)

text \<open>Executions: the watch of the discoverer, whose channel has room, and the group, before and
  after its start.\<close>

inductive disc_step :: "unmarshal \<Rightarrow> kv \<times> EtcdDiscovery \<times> Group option \<Rightarrow> kv \<times> EtcdDiscovery \<times> Group option \<Rightarrow> bool"
  for uj where
  event: "event_ok uj ev \<Longrightarrow> kv (event_key ev) \<noteq> None \<or> kv_event ev kv (event_key ev) \<noteq> None \<Longrightarrow>
    ids_ok (registered uj (kv_event ev kv)) \<Longrightarrow> length (disc_ch d) < 100 \<Longrightarrow>
    disc_step uj (kv, d, g) (kv_event ev kv, watch_one uj ev d, g)"
| run_group: "cache d = Some m \<Longrightarrow> ranges order m \<Longrightarrow>
    disc_step uj (kv, d, None) (kv, d, Some (watchActor_start True (findAllByPrefix order ''/servers'' d) (NewGroup p False)))"
| consume: "disc_ch d = c # rest \<Longrightarrow>
    disc_step uj (kv, d, Some g) (kv, d\<lparr>disc_ch := rest\<rparr>, Some (watchActor_event c g))"
| poll: "disc_step uj (kv, d, g) (kv, snd (FindPoll order key d), g)"

inductive disc_reach :: "unmarshal \<Rightarrow> kv \<times> EtcdDiscovery \<times> Group option \<Rightarrow> bool" for uj where
  start: "distinct (map fst kvs) \<Longrightarrow> keyed uj (map_of kvs) \<Longrightarrow> ids_ok (registered uj (map_of kvs)) \<Longrightarrow>
    NewEtcdDiscovery uj True grant (Some kvs) = Inr d \<Longrightarrow> disc_reach uj (map_of kvs, d, None)"
| step: "disc_reach uj st \<Longrightarrow> disc_step uj st st' \<Longrightarrow> disc_reach uj st'"

definition disc_inv :: "unmarshal \<Rightarrow> kv \<times> EtcdDiscovery \<times> Group option \<Rightarrow> bool" where
  "disc_inv uj st = (case st of (kv, d, g) \<Rightarrow>
     keyed uj kv \<and> ids_ok (registered uj kv) \<and> (\<exists>m. cache d = Some m \<and> mirrors uj m kv)
     \<and> (case g of
          None \<Rightarrow> (\<forall>p i x. agrees p (registered uj kv) i x \<longrightarrow>
                     agrees p (registered uj kv) i (fold (entry_at i) (disc_ch d) x))
        | Some g \<Rightarrow> (\<forall>i. agrees (process g) (registered uj kv) i (fold (entry_at i) (disc_ch d) (otherActors g i)))))"

text \<open>One event, seen from one entry of the table.\<close>

lemma agrees_event:
  assumes ok: "event_ok uj ev" and k: "keyed uj kv" and ex: "kv (event_key ev) \<noteq> None \<or> kv_event ev kv (event_key ev) \<noteq> None"
    and ids: "ids_ok (registered uj kv)" "ids_ok (registered uj (kv_event ev kv))" and room: "length (disc_ch d) < 100"
  shows "\<exists>c. disc_ch (watch_one uj ev d) = disc_ch d @ [c]
    \<and> (\<forall>p i x. i \<noteq> Id c \<longrightarrow> agrees p (registered uj (kv_event ev kv)) i x = agrees p (registered uj kv) i x)
    \<and> (\<forall>p x. agrees p (registered uj (kv_event ev kv)) (Id c) (entry_at (Id c) c x))"
proof (cases ev)
  case (EvPut key v)
  then obtain item where it: "uj v = Some item" "key = config_key (RegConfig item)"
    using ok by (auto simp: event_ok_def split: option.splits)
  let ?c = "RegConfig item"
  have R: "registered uj (kv_event ev kv) = insert ?c {c \<in> registered uj kv. config_key c \<noteq> config_key ?c}"
    using registered_put [OF k it(1)] by (simp add: EvPut kv_event_def it(2))
  have "disc_ch (watch_one uj ev d) = disc_ch d @ [?c]"
    using room by (simp add: EvPut watch_one_def handlePut_def it(1) send_ch_def Let_def)
  moreover have "agrees p (registered uj (kv_event ev kv)) i x = agrees p (registered uj kv) i x" if "i \<noteq> Id ?c" for p i x
    using that by (auto simp: R agrees_def config_key_eq)
  moreover have "agrees p (registered uj (kv_event ev kv)) (Id ?c) (entry_at (Id ?c) ?c x)" for p x
  proof -
    have "?c \<in> registered uj (kv_event ev kv)" by (simp add: R)
    then show ?thesis using ids(2) by (auto simp: agrees_def entry_at_def ids_ok_def dest: inj_onD)
  qed
  ultimately show ?thesis by blast
next
  case (EvDel key prevKv)
  obtain t j where tj: "key = actor_key t j" "deleted_actor uj key prevKv = (t, j)"
    using deleted_actor_event ok EvDel by blast
  obtain c0 where c0: "c0 \<in> registered uj kv" "ActorType c0 = t" "Id c0 = j"
  proof -
    obtain y where y: "kv key = Some y" using ex by (auto simp: EvDel event_key_def kv_event_def)
    then obtain item where it: "uj y = Some item" "key = config_key (RegConfig item)"
      using k unfolding keyed_def by blast
    have "RegConfig item \<in> registered uj kv" using y it(1) unfolding registered_def by blast
    moreover have "ActorType (RegConfig item) = t \<and> Id (RegConfig item) = j" using it(2) tj(1) by (simp add: config_key_def)
    ultimately show thesis using that by blast
  qed
  have nz: "j \<noteq> 0" "t \<noteq> 0" using ids(1) c0 by (auto simp: ids_ok_def)
  let ?c = "config_zero\<lparr>Id := j, ActorType := 0\<rparr>"
  have R: "registered uj (kv_event ev kv) = {c \<in> registered uj kv. config_key c \<noteq> actor_key t j}"
    using registered_del [OF k] by (simp add: EvDel kv_event_def tj(1))
  have gone: "\<forall>c \<in> registered uj (kv_event ev kv). Id c \<noteq> j"
  proof (intro ballI notI)
    fix c assume c: "c \<in> registered uj (kv_event ev kv)" "Id c = j"
    have "inj_on Id (registered uj kv)" using ids(1) by (simp add: ids_ok_def)
    then have "c = c0" by (rule inj_onD) (use c c0 in \<open>simp_all add: R\<close>)
    then show False using c(1) c0 by (simp add: R config_key_def)
  qed
  have "disc_ch (watch_one uj ev d) = disc_ch d @ [?c]"
    using room nz by (simp add: EvDel watch_one_def handleDelete_def tj(2) send_ch_def split: option.split)
  moreover have "agrees p (registered uj (kv_event ev kv)) i x = agrees p (registered uj kv) i x" if "i \<noteq> Id ?c" for p i x
    using that by (auto simp: R agrees_def config_key_def)
  moreover have "agrees p (registered uj (kv_event ev kv)) (Id ?c) (entry_at (Id ?c) ?c x)" for p x
    using gone nz by (auto simp: agrees_def entry_at_def)
  ultimately show ?thesis by blast
qed

text \<open>The load before the group watches.\<close>

lemma load_items_at:
  assumes "inj_on Id (RegConfig ` set its)" and "\<forall>x. otherActors g i = Some x \<longrightarrow> Id x = i"
  shows "otherActors (fold watch_load_item its g) i = Some c \<longleftrightarrow>
    (c \<in> RegConfig ` set its \<and> Id c = i \<and> (ucast (Process c) :: u64) \<noteq> process g)
    \<or> (otherActors g i = Some c \<and> (\<forall>c' \<in> RegConfig ` set its. Id c' = i \<longrightarrow> (ucast (Process c') :: u64) = process g))"
  using assms
proof (induction its arbitrary: g)
  case (Cons it its)
  have ij: "inj_on Id (RegConfig ` set its)" using Cons.prems(1) by (auto intro: inj_on_subset)
  have p: "process (watch_load_item it g) = process g" by (simp add: watch_load_item_def)
  have at: "otherActors (watch_load_item it g) i =
      (if Id (RegConfig it) = i \<and> (ucast (Process (RegConfig it)) :: u64) \<noteq> process g then Some (RegConfig it) else otherActors g i)"
    by (simp add: watch_load_item_def)
  have "\<forall>x. otherActors (watch_load_item it g) i = Some x \<longrightarrow> Id x = i" using Cons.prems(2) at by auto
  note IH = Cons.IH [OF ij this]
  have eq: "RegConfig x = RegConfig it" if "x \<in> set its" "Id (RegConfig x) = Id (RegConfig it)" for x
    using inj_onD [OF Cons.prems(1), of "RegConfig x" "RegConfig it"] that by auto
  show ?case unfolding fold_simps IH p at using eq by (auto simp: image_iff) metis+
qed simp

lemma process_load [simp]: "process (fold watch_load_item its g) = process g"
proof (induction its arbitrary: g)
  case (Cons it its)
  have "process (watch_load_item it g) = process g" by (simp add: watch_load_item_def)
  then show ?case using Cons by simp
qed simp

lemma start_agrees:
  assumes "cache d = Some m" and "mirrors uj m kv" and "ranges order m" and "ids_ok (registered uj kv)"
  shows "agrees p (registered uj kv) i
    (otherActors (watchActor_start True (findAllByPrefix order ''/servers'' d) (NewGroup p False)) i)"
proof -
  let ?its = "findAllByPrefix order ''/servers'' d"
  have R: "RegConfig ` set ?its = registered uj kv" by (rule findAll_servers(1) [OF assms(1-3)])
  have ij: "inj_on Id (RegConfig ` set ?its)" using assms(4) by (simp add: R ids_ok_def)
  have "otherActors (fold watch_load_item ?its (NewGroup p False)) i = Some c \<longleftrightarrow>
      c \<in> registered uj kv \<and> Id c = i \<and> (ucast (Process c) :: u64) \<noteq> p" for c
    using load_items_at [OF ij, of "NewGroup p False" i c] by (simp add: R NewGroup_def)
  then show ?thesis by (simp add: agrees_def watchActor_start_def watch_bump_def NewGroup_def)
qed

lemma disc_step_inv:
  assumes "disc_step uj st st'" and "disc_inv uj st"
  shows "disc_inv uj st'"
  using assms
proof cases
  case (event ev kv d g)
  note ev = event(3-6)
  have inv: "keyed uj kv" "ids_ok (registered uj kv)" "\<exists>m. cache d = Some m \<and> mirrors uj m kv"
    using assms(2) event(1) by (simp_all add: disc_inv_def)
  obtain c where c: "disc_ch (watch_one uj ev d) = disc_ch d @ [c]"
      "\<forall>p i x. i \<noteq> Id c \<longrightarrow> agrees p (registered uj (kv_event ev kv)) i x = agrees p (registered uj kv) i x"
      "\<forall>p x. agrees p (registered uj (kv_event ev kv)) (Id c) (entry_at (Id c) c x)"
    using agrees_event [OF ev(1) inv(1) ev(2) inv(2) ev(3,4)] by blast
  have snoc: "agrees p (registered uj (kv_event ev kv)) i (fold (entry_at i) (disc_ch d @ [c]) x)"
    if "agrees p (registered uj kv) i (fold (entry_at i) (disc_ch d) x)" for p i x
  proof (cases "i = Id c")
    case True
    then show ?thesis using c(3) by simp
  next
    case False
    then have "entry_at i c y = y" for y by (simp add: entry_at_def)
    then show ?thesis using that c(2) False by simp
  qed
  have m: "\<exists>m. cache (watch_one uj ev d) = Some m \<and> mirrors uj m (kv_event ev kv)"
    using watch_one_mirrors inv(1,3) ev(1) by metis
  show ?thesis
  proof (cases g)
    case None
    have "agrees p (registered uj (kv_event ev kv)) i (fold (entry_at i) (disc_ch d @ [c]) x)"
      if x: "agrees p (registered uj (kv_event ev kv)) i x" for p i x
    proof (cases "i = Id c")
      case True
      then show ?thesis using c(3) by simp
    next
      case False
      then have "agrees p (registered uj kv) i x" using x c(2) by simp
      then show ?thesis using assms(2) event(1) None by (intro snoc) (simp add: disc_inv_def)
    qed
    then show ?thesis using event(2) None keyed_event [OF inv(1) ev(1)] ev(3) m by (simp add: disc_inv_def c(1))
  next
    case (Some g')
    then show ?thesis using event(1,2) keyed_event [OF inv(1) ev(1)] ev(3) m assms(2) snoc
      by (simp add: disc_inv_def c(1))
  qed
next
  case (run_group d m order kv p)
  have inv: "mirrors uj m kv" "ids_ok (registered uj kv)"
    using assms(2) run_group(1,3) by (auto simp: disc_inv_def)
  have "process (watchActor_start True its (NewGroup p False)) = p" for its
    by (simp add: watchActor_start_def watch_bump_def NewGroup_def)
  then show ?thesis using assms(2) run_group(1,2) start_agrees [OF run_group(3) inv(1) run_group(4) inv(2)]
    by (simp add: disc_inv_def)
next
  case (consume d c rest kv g)
  then show ?thesis using assms(2) by (simp add: disc_inv_def entry_at_event)
next
  case (poll kv d g order key)
  have "cache (snd (FindPoll order key d)) = cache d \<and> disc_ch (snd (FindPoll order key d)) = disc_ch d"
    by (simp add: FindPoll_def Let_def split: option.split)
  then show ?thesis using assms(2) poll by (simp add: disc_inv_def split: option.splits)
qed

lemma disc_reach_inv: "disc_reach uj st \<Longrightarrow> disc_inv uj st"
proof (induction rule: disc_reach.induct)
  case (start kvs grant d)
  have "cache d = Some (fold (\<lambda>(k, v). load_one uj v) kvs Map.empty) \<and> disc_ch d = []"
    using start(4) by (auto simp: NewEtcdDiscovery_def createSharedLeaseLocked_def loadAllToCache_def Let_def split: option.splits)
  then show ?case using start(1-3) load_mirrors [OF start(1,2)] by (simp add: disc_inv_def)
qed (rule disc_step_inv)


lemma demo_ids: "ids_ok {demo_actor}" "ids_ok {}"
  by (simp_all add: ids_ok_def demo_actor_def)

lemma demo_disc_reach:
  "\<exists>d g. disc_reach demo_uj ([config_key demo_actor \<mapsto> ''a''], d, Some g) \<and> disc_ch d = [] \<and> process g = 1"
proof -
  define d where "d = \<lparr>disc_ch = [], cache = Some Map.empty, sharedLeaseID = 0, registeredActors = None, pollCounters = Map.empty\<rparr>"
  have d: "NewEtcdDiscovery demo_uj True None (Some []) = Inr d"
    by (simp add: NewEtcdDiscovery_def createSharedLeaseLocked_def loadAllToCache_def d_def Let_def)
  have f: "cache d = Some Map.empty" "disc_ch d = []" by (simp_all add: d_def)
  let ?ev = "EvPut (config_key demo_actor) ''a''" and ?g = "watchActor_start True (findAllByPrefix [] ''/servers'' d) (NewGroup 1 False)"
  have "disc_reach demo_uj (map_of [], d, None)"
    by (rule disc_reach.start [OF _ _ _ d]) (simp_all add: demo_keyed(2) demo_ids(2))
  then have "disc_reach demo_uj (map_of [], d, Some ?g)"
    by (rule disc_reach.step) (rule disc_step.run_group [OF f(1)], simp add: ranges_def)
  then have "disc_reach demo_uj (kv_event ?ev (map_of []), watch_one demo_uj ?ev d, Some ?g)"
  proof (rule disc_reach.step)
    have "registered demo_uj (kv_event ?ev (map_of [])) = {demo_actor}" by (auto simp: registered_def kv_event_def)
    then show "disc_step demo_uj (map_of [], d, Some ?g) (kv_event ?ev (map_of []), watch_one demo_uj ?ev d, Some ?g)"
      by (intro disc_step.event demo_events(1)) (simp_all add: demo_ids(1) f(2), simp add: kv_event_def event_key_def)
  qed
  moreover have "disc_ch (watch_one demo_uj ?ev d) = [demo_actor]"
    by (simp add: watch_one_def handlePut_def send_ch_def f(2) Let_def)
  ultimately have "disc_reach demo_uj (kv_event ?ev (map_of []), (watch_one demo_uj ?ev d)\<lparr>disc_ch := []\<rparr>, Some (watchActor_event demo_actor ?g))"
    using disc_reach.step disc_step.consume by blast
  moreover have "process (watchActor_event demo_actor ?g) = 1"
    by (simp add: watchActor_start_def watch_bump_def NewGroup_def)
  moreover have "kv_event ?ev (map_of []) = [config_key demo_actor \<mapsto> ''a'']" by (simp add: kv_event_def)
  ultimately show ?thesis by fastforce
qed


text \<open>When the channel is full the change is dropped: the cache knows it, the group never will.\<close>

lemma full_channel_drops:
  assumes "length (disc_ch d) \<ge> 100" and "uj v = Some item"
  shows "disc_ch (handlePut uj v d) = disc_ch d \<and> RegConfig item \<in> set (findActorsByType (ActorType (RegConfig item)) (handlePut uj v d))"
proof -
  have "RegConfig item \<in> set (list_at (put_cache (RegConfig item) (cache d)) (ActorType (RegConfig item)))"
  proof -
    have "c \<in> set (replace_id c as)" if "has_id (Id c) as" for c as
      using that by (induction as) (auto simp: has_id_def)
    then show ?thesis by (auto simp: put_cache_def Let_def)
  qed
  then show ?thesis using assms by (simp add: handlePut_def send_ch_def findActorsByType_def Let_def)
qed

end
