(* ===== verification/ZDiscLoop.thy ===== *)
theory ZDiscLoop
  imports ZDiscRun
begin

text \<open>
  The background goroutines of \<open>zdiscovery/etcd.go\<close>: \<open>watch\<close>, which follows the store and reloads it
  when the connection breaks, and \<open>runLeaseKeepalive\<close>, which replaces a lost lease. What etcd answers and
  when the context ends is a script, one entry per round of the loop; the pauses between rounds are
  left out. A script that is used up is a loop still waiting.
\<close>

section \<open>Watching\<close>

datatype watch_resp = WatchEvents "watch_event list" | WatchError

record watch_round =
  w_done_before :: bool
  w_responses :: "watch_resp list"
  w_done_after :: bool
  w_reload :: "(string \<times> string) list option"

text \<open>The responses of one connection, up to its first error.\<close>

fun watch_responses :: "unmarshal \<Rightarrow> watch_resp list \<Rightarrow> EtcdDiscovery \<Rightarrow> EtcdDiscovery" where
  "watch_responses uj [] d = d"
| "watch_responses uj (WatchError # rs) d = d"
| "watch_responses uj (WatchEvents evs # rs) d = watch_responses uj rs (fold (watch_one uj) evs d)"

text \<open>Whether the loop has ended, which closes the change channel, and the state.\<close>

fun watch_loop :: "unmarshal \<Rightarrow> watch_round list \<Rightarrow> EtcdDiscovery \<Rightarrow> bool \<times> EtcdDiscovery" where
  "watch_loop uj [] d = (False, d)"
| "watch_loop uj (r # rs) d =
    (if w_done_before r then (True, d)
     else (let d = watch_responses uj (w_responses r) d in
       if w_done_after r then (True, d)
       else (let (e, d) = loadAllToCache uj (w_reload r) d in watch_loop uj rs d)))"

lemma watch_responses_events:
  "watch_responses uj (map WatchEvents evss) d = fold (watch_one uj) (concat evss) d"
  by (induction evss arbitrary: d) simp_all

lemma watch_loop_append:
  assumes "\<forall>r \<in> set rs. \<not> w_done_before r \<and> \<not> w_done_after r"
  shows "\<exists>d'. watch_loop uj (rs @ rs') d = watch_loop uj rs' d'"
  using assms
proof (induction rs arbitrary: d)
  case (Cons r rs)
  then show ?case by (auto simp: Let_def case_prod_beta)
qed auto

text \<open>Claim C11: The discoverer recovers: however many connections broke and whatever was lost then, as soon as a
  reload succeeds and the next connection delivers the events that happen after it, the lookups
  return exactly the actors registered in the store.\<close>

theorem watch_recovers:
  assumes "\<forall>r \<in> set rs. \<not> w_done_before r \<and> \<not> w_done_after r"
    and "w_reload (last rs) = Some kvs" "rs \<noteq> []"
    and "\<not> w_done_before r" "w_done_after r" "w_responses r = map WatchEvents evss"
    and "distinct (map fst kvs)" "keyed uj (map_of kvs)" "list_all (event_ok uj) (concat evss)"
    and "watch_loop uj (rs @ [r]) d = (ended, d')"
  shows "ended \<and> set (findActorsByType t d') = {c \<in> registered uj (fold kv_event (concat evss) (map_of kvs)). ActorType c = t}"
proof -
  let ?l = "last rs"
  have rs: "rs @ [r] = butlast rs @ [?l, r]" using assms(3) by simp
  have "\<forall>r \<in> set (butlast rs). \<not> w_done_before r \<and> \<not> w_done_after r" using assms(1) in_set_butlastD by fastforce
  from watch_loop_append [OF this, of uj "[?l, r]" d] obtain d1 where d1: "watch_loop uj (rs @ [r]) d = watch_loop uj [?l, r] d1"
    unfolding rs by blast
  have l: "\<not> w_done_before ?l" "\<not> w_done_after ?l" using assms(1,3) by simp_all
  define d2 where "d2 = watch_responses uj (w_responses ?l) d1"
  have run: "watch_loop uj [?l, r] d1 = (True, watched uj kvs (concat evss) d2)"
    using l assms(2,4-6) by (simp add: d2_def watched_def watch_responses_events Let_def case_prod_beta)
  obtain m where m: "cache (watched uj kvs (concat evss) d2) = Some m"
      "mirrors uj m (fold kv_event (concat evss) (map_of kvs))"
    using watched_mirrors [OF assms(7-9)] by blast
  then show ?thesis using assms(10) d1 run by (auto simp: findActorsByType_def mirrors_def)
qed

text \<open>The first connection breaks before it delivers anything and the reload finds the store empty; the
  second delivers the registration.\<close>

theorem watch_recovers_witness:
  "set (findActorsByType 3 (snd (watch_loop demo_uj
     [\<lparr>w_done_before = False, w_responses = [WatchError], w_done_after = False, w_reload = Some []\<rparr>,
      \<lparr>w_done_before = False, w_responses = [WatchEvents [EvPut (config_key demo_actor) ''a'']], w_done_after = True, w_reload = None\<rparr>]
     demo_disc))) = {demo_actor}"
proof -
  let ?r1 = "\<lparr>w_done_before = False, w_responses = [WatchError], w_done_after = False, w_reload = Some []\<rparr>"
    and ?r2 = "\<lparr>w_done_before = False, w_responses = [WatchEvents [EvPut (config_key demo_actor) ''a'']], w_done_after = True, w_reload = None\<rparr>"
  obtain ended d' where run: "watch_loop demo_uj ([?r1] @ [?r2]) demo_disc = (ended, d')" by (metis prod.exhaust)
  have "registered demo_uj (fold kv_event (concat [[EvPut (config_key demo_actor) ''a'']]) (map_of [])) = {demo_actor}"
    by (auto simp: registered_def kv_event_def)
  moreover have "ActorType demo_actor = 3" by (simp add: demo_actor_def)
  moreover note watch_recovers [OF _ _ _ _ _ _ _ _ _ run, of "[]" "[[EvPut (config_key demo_actor) ''a'']]" 3]
  ultimately have "set (findActorsByType 3 d') = {demo_actor}" using demo_keyed(2) demo_events(1) by auto
  then show ?thesis using run by simp
qed

section \<open>Keeping the lease\<close>

record keepalive_round =
  k_done_before :: bool
  k_failed :: bool
  k_done_after :: bool
  k_grant :: "i64 option"
  k_order :: "string list"

datatype keepalive_end = Stopped | Replaced | Waiting

text \<open>\<open>Replaced\<close>: the lease has been replaced and a new goroutine keeps the new one.\<close>

fun runLeaseKeepalive :: "marshal \<Rightarrow> keepalive_round list \<Rightarrow> EtcdDiscovery \<Rightarrow> keepalive_end \<times> etcd_req list \<times> EtcdDiscovery" where
  "runLeaseKeepalive mj [] d = (Waiting, [], d)"
| "runLeaseKeepalive mj (r # rs) d =
    (if k_done_before r then (Stopped, [], d)
     else if sharedLeaseID d = 0 then (Stopped, [], d)
     else if k_failed r then runLeaseKeepalive mj rs d
     else if k_done_after r then (Stopped, [], d)
     else (case recreateLeaseAndReregister mj (k_grant r) (k_order r) d of
         (Some e, reqs, d) \<Rightarrow> (let (x, reqs', d) = runLeaseKeepalive mj rs d in (x, reqs @ reqs', d))
       | (None, reqs, d) \<Rightarrow> (Replaced, reqs, d)))"

lemma recreate_failed: "recreateLeaseAndReregister mj grant order d = (Some e, reqs, d') \<Longrightarrow> d' = d \<and> reqs = [ReqGrant]"
  by (auto simp: recreateLeaseAndReregister_def createSharedLeaseLocked_def Let_def split: option.splits)

lemma recreate_granted:
  "recreateLeaseAndReregister mj grant order d = (None, reqs, d') \<Longrightarrow> \<exists>i. grant = Some i \<and> d' = d\<lparr>sharedLeaseID := i\<rparr>"
  by (auto simp: recreateLeaseAndReregister_def createSharedLeaseLocked_def Let_def split: option.splits)

text \<open>A goroutine that keeps the lease ends in one of two ways: it hands over to exactly one successor after
  the first grant that succeeds, or it leaves the lease and the tables as they were; until then it
  only asks for grants, and a failed keep-alive never changes anything.\<close>

theorem keepalive_hands_over:
  "runLeaseKeepalive mj rs d = (x, reqs, d') \<Longrightarrow>
    (if x = Replaced then \<exists>r \<in> set rs. \<exists>i. k_grant r = Some i \<and> d' = d\<lparr>sharedLeaseID := i\<rparr>
     else d' = d \<and> set reqs \<subseteq> {ReqGrant})"
proof (induction rs arbitrary: reqs)
  case (Cons r rs)
  obtain e reqs1 d1 where rec: "recreateLeaseAndReregister mj (k_grant r) (k_order r) d = (e, reqs1, d1)" by (metis prod.exhaust)
  obtain y reqs2 d2 where rest: "runLeaseKeepalive mj rs d = (y, reqs2, d2)" by (metis prod.exhaust)
  show ?case
  proof (cases e)
    case None
    then show ?thesis using Cons rec rest recreate_granted [of mj "k_grant r" "k_order r" d reqs1 d1]
      by (auto split: if_splits)
  next
    case (Some err)
    then show ?thesis using Cons rec rest recreate_failed [of mj "k_grant r" "k_order r" d err reqs1 d1]
      by (auto split: if_splits)
  qed
qed simp

end
