(* ===== verification/ZScript.thy ===== *)
theory ZScript
  imports ZStr ZFloat
begin

text \<open>
  \<open>zscript\<close>: what the four script engines share. Go values passed to scripts (\<open>interface{}\<close>) are
  the datatype \<open>gval\<close>; the engine configuration, the execution context with its object pool
  (\<open>context.go\<close>, \<open>context_pool.go\<close>), and the statistics collector (\<open>stats.go\<close>), whose
  updates by concurrent calls are interleaved here load by load and compare-and-swap by
  compare-and-swap. Which pooled context \<open>Get\<close> returns is a parameter, as for messages.
\<close>

section \<open>Values\<close>

text \<open>The dynamic types the engines distinguish; floats are finite. A map is the list of its entries
  in the order in which \<open>range\<close> visits them. Any other type is \<open>GOther\<close>.\<close>

datatype gval = GNil | GBool bool | GString string | GBytes "byte list" | GFloat64 f64 | GFloat32 f64
  | GInt i64 | GInt8 "8 word" | GInt16 "16 word" | GInt32 i32 | GInt64 i64
  | GUint u64 | GUint8 "8 word" | GUint16 "16 word" | GUint32 u32 | GUint64 u64
  | GMap "(string \<times> gval) list" | GSlice "gval list" | GOther nat

type_synonym gmap = "string \<rightharpoonup> gval"

record CallParams =
  P_ActorID :: u64
  P_ActorType :: u32
  P_Owner :: gval
  P_TraceID :: u64
  P_MsgID :: i32
  P_AuthID :: i64
  P_MsgData :: gval
  P_Metadata :: "(string \<times> gval) list option"

datatype EngineType = EngineTypeLua | EngineTypeJS | EngineTypeStarlark | EngineTypeTengo

record EngineConfig =
  E_Type :: EngineType
  ScriptDir :: string
  Timeout :: int
  MaxMemory :: i64
  EnableInstructionCount :: bool
  MaxInstructions :: i64
  VMPoolSize :: int
  MaxVMUseCount :: int
  MaxVMAge :: int
  AllowRequireWithoutScriptDir :: bool

definition DefaultEngineConfig :: EngineConfig where
  "DefaultEngineConfig = \<lparr>E_Type = EngineTypeJS, ScriptDir = ''./scripts'', Timeout = 5000000000, MaxMemory = 0,
     EnableInstructionCount = False, MaxInstructions = 1000000, VMPoolSize = 100, MaxVMUseCount = 1000,
     MaxVMAge = 300000000000, AllowRequireWithoutScriptDir = False\<rparr>"

text \<open>The errors of the script subsystem; \<open>ErrScript\<close> and \<open>ErrEngine\<close> are the wrapped ones.\<close>

datatype script_error = ErrScriptNotFound | ErrScriptCompile | ErrScriptTimeout | ErrScriptPanic
  | ErrFunctionNotFound | ErrInvalidArgument | ErrEngineNotInitialized | ErrScript string | ErrEngine string
  | ErrValidation

section \<open>The execution context and its pool\<close>

record ScriptContext =
  ActorID :: u64
  C_ActorType :: u32
  C_MsgID :: i32
  C_AuthID :: i64
  MsgData :: gval
  Owner :: gval
  TraceID :: u64
  NowMillis :: i64
  Metadata :: "gmap option"

definition ctx_zero :: ScriptContext where
  "ctx_zero = \<lparr>ActorID = 0, C_ActorType = 0, C_MsgID = 0, C_AuthID = 0, MsgData = GNil, Owner = GNil,
     TraceID = 0, NowMillis = 0, Metadata = None\<rparr>"

definition ctx_init :: "i64 \<Rightarrow> u64 \<Rightarrow> u32 \<Rightarrow> ScriptContext \<Rightarrow> ScriptContext" where
  "ctx_init now actorID actorType c =
    c\<lparr>ActorID := actorID, C_ActorType := actorType, TraceID := 0, NowMillis := now, Metadata := None, Owner := GNil\<rparr>"

definition WithOwner :: "gval \<Rightarrow> ScriptContext \<Rightarrow> ScriptContext" where
  "WithOwner ownr c = c\<lparr>Owner := ownr\<rparr>"

definition WithMessage :: "i32 \<Rightarrow> i64 \<Rightarrow> gval \<Rightarrow> ScriptContext \<Rightarrow> ScriptContext" where
  "WithMessage msgID authID msgData c = c\<lparr>C_MsgID := msgID, C_AuthID := authID, MsgData := msgData\<rparr>"

definition WithTraceID :: "u64 \<Rightarrow> ScriptContext \<Rightarrow> ScriptContext" where
  "WithTraceID traceID c = c\<lparr>TraceID := traceID\<rparr>"

definition WithMetadata :: "string \<Rightarrow> gval \<Rightarrow> ScriptContext \<Rightarrow> ScriptContext" where
  "WithMetadata k v c =
    (let m = (case Metadata c of None \<Rightarrow> Map.empty | Some m \<Rightarrow> m) in c\<lparr>Metadata := Some (m(k \<mapsto> v))\<rparr>)"

definition ctx_reset :: "ScriptContext \<Rightarrow> ScriptContext" where
  "ctx_reset c = c\<lparr>ActorID := 0, C_ActorType := 0, C_MsgID := 0, C_AuthID := 0, MsgData := GNil, Owner := GNil,
     TraceID := 0, NowMillis := 0, Metadata := None\<rparr>"

text \<open>The pool: the contexts by address, those in the pool, the next fresh address.\<close>

record ctx_heap =
  ctx_at :: "nat \<Rightarrow> ScriptContext"
  ctx_pool :: "nat list"
  ctx_next :: nat

definition GetContext :: "pick \<Rightarrow> i64 \<Rightarrow> u64 \<Rightarrow> u32 \<Rightarrow> ctx_heap \<Rightarrow> nat \<times> ctx_heap" where
  "GetContext pk now actorID actorType h =
    (let (a, h) = (case pk (ctx_pool h) of
           Some a \<Rightarrow> (a, h\<lparr>ctx_pool := remove1 a (ctx_pool h)\<rparr>)
         | None \<Rightarrow> (ctx_next h, h\<lparr>ctx_at := (ctx_at h)(ctx_next h := ctx_zero), ctx_next := Suc (ctx_next h)\<rparr>))
     in (a, h\<lparr>ctx_at := (ctx_at h)(a := ctx_init now actorID actorType (ctx_at h a))\<rparr>))"

definition PutContext :: "nat \<Rightarrow> ctx_heap \<Rightarrow> ctx_heap" where
  "PutContext a h = h\<lparr>ctx_at := (ctx_at h)(a := ctx_reset (ctx_at h a)), ctx_pool := a # ctx_pool h\<rparr>"

text \<open>What an engine does to a fresh context before the script runs.\<close>

definition fill_context :: "CallParams \<Rightarrow> ScriptContext \<Rightarrow> ScriptContext" where
  "fill_context p c =
    (let c = WithMessage (P_MsgID p) (P_AuthID p) (P_MsgData p) (WithTraceID (P_TraceID p) (WithOwner (P_Owner p) c))
     in case P_Metadata p of None \<Rightarrow> c | Some kvs \<Rightarrow> fold (\<lambda>(k, v). WithMetadata k v) kvs c)"

section \<open>Statistics\<close>

text \<open>Go's integer division truncates towards zero.\<close>

definition go_div :: "i64 \<Rightarrow> i64 \<Rightarrow> i64" where
  "go_div a b = word_of_int (sgn (sint a) * sgn (sint b) * (\<bar>sint a\<bar> div \<bar>sint b\<bar>))"

record StatsCollector =
  engineType :: string
  callCount :: i64
  errorCount :: i64
  timeoutCount :: i64
  totalDuration :: i64
  maxDuration :: i64
  minDuration :: i64
  reloadCount :: i64
  lastReloadTime :: int

definition max_i64 :: i64 where "max_i64 = 9223372036854775807"

definition NewStatsCollector :: "string \<Rightarrow> StatsCollector" where
  "NewStatsCollector t = \<lparr>engineType = t, callCount = 0, errorCount = 0, timeoutCount = 0, totalDuration = 0,
     maxDuration = 0, minDuration = max_i64, reloadCount = 0, lastReloadTime = 0\<rparr>"

text \<open>The program counter of a call of \<open>RecordCall\<close> and its next atomic access: the compare-and-swap
  of a loop carries the value that was loaded, and goes back to the load when it fails.\<close>

datatype rc_pc = PcCount | PcTotal | PcErr | PcMaxLoad | PcMaxCas i64 | PcMinLoad | PcMinCas i64 | PcDone

fun RecordCall_step :: "i64 \<Rightarrow> bool \<Rightarrow> rc_pc \<Rightarrow> StatsCollector \<Rightarrow> rc_pc \<times> StatsCollector" where
  "RecordCall_step d e PcCount c = (PcTotal, c\<lparr>callCount := callCount c + 1\<rparr>)"
| "RecordCall_step d e PcTotal c = (PcErr, c\<lparr>totalDuration := totalDuration c + d\<rparr>)"
| "RecordCall_step d e PcErr c = (PcMaxLoad, if e then c\<lparr>errorCount := errorCount c + 1\<rparr> else c)"
| "RecordCall_step d e PcMaxLoad c = (if sint d \<le> sint (maxDuration c) then PcMinLoad else PcMaxCas (maxDuration c), c)"
| "RecordCall_step d e (PcMaxCas old) c =
    (if maxDuration c = old then (PcMinLoad, c\<lparr>maxDuration := d\<rparr>) else (PcMaxLoad, c))"
| "RecordCall_step d e PcMinLoad c = (if sint d \<ge> sint (minDuration c) then PcDone else PcMinCas (minDuration c), c)"
| "RecordCall_step d e (PcMinCas old) c =
    (if minDuration c = old then (PcDone, c\<lparr>minDuration := d\<rparr>) else (PcMinLoad, c))"
| "RecordCall_step d e PcDone c = (PcDone, c)"

text \<open>A call that nobody interleaves with.\<close>

definition RecordCall :: "i64 \<Rightarrow> bool \<Rightarrow> StatsCollector \<Rightarrow> StatsCollector" where
  "RecordCall d e c =
    (let c = c\<lparr>callCount := callCount c + 1, totalDuration := totalDuration c + d\<rparr>;
         c = (if e then c\<lparr>errorCount := errorCount c + 1\<rparr> else c);
         c = (if sint d \<le> sint (maxDuration c) then c else c\<lparr>maxDuration := d\<rparr>)
     in if sint d \<ge> sint (minDuration c) then c else c\<lparr>minDuration := d\<rparr>)"

definition RecordTimeout :: "StatsCollector \<Rightarrow> StatsCollector" where
  "RecordTimeout c = c\<lparr>timeoutCount := timeoutCount c + 1\<rparr>"

definition RecordReload :: "int \<Rightarrow> StatsCollector \<Rightarrow> StatsCollector" where
  "RecordReload now c = c\<lparr>reloadCount := reloadCount c + 1, lastReloadTime := now\<rparr>"

record EngineStats =
  S_EngineType :: string
  S_CallCount :: i64
  S_ErrorCount :: i64
  S_TimeoutCount :: i64
  S_TotalDuration :: i64
  S_AvgDuration :: i64
  S_MaxDuration :: i64
  S_MinDuration :: i64
  S_ReloadCount :: i64
  S_LastReloadTime :: int

definition GetStats :: "StatsCollector \<Rightarrow> EngineStats" where
  "GetStats c =
    \<lparr>S_EngineType = engineType c, S_CallCount = callCount c, S_ErrorCount = errorCount c,
     S_TimeoutCount = timeoutCount c, S_TotalDuration = totalDuration c,
     S_AvgDuration = (if sint (callCount c) > 0 then go_div (totalDuration c) (callCount c) else 0),
     S_MaxDuration = maxDuration c, S_MinDuration = (if minDuration c = max_i64 then 0 else minDuration c),
     S_ReloadCount = reloadCount c, S_LastReloadTime = lastReloadTime c\<rparr>"

definition Stats_Reset :: "StatsCollector \<Rightarrow> StatsCollector" where
  "Stats_Reset c = c\<lparr>callCount := 0, errorCount := 0, timeoutCount := 0, totalDuration := 0, maxDuration := 0,
     minDuration := max_i64, reloadCount := 0, lastReloadTime := 0\<rparr>"

section \<open>Concurrent calls\<close>

type_synonym rc_thread = "i64 \<times> bool \<times> rc_pc"

inductive rc_reach :: "(i64 \<times> bool) list \<Rightarrow> rc_thread list \<Rightarrow> StatsCollector \<Rightarrow> bool" for calls where
  start: "rc_reach calls (map (\<lambda>(d, e). (d, e, PcCount)) calls) (NewStatsCollector t)"
| step: "rc_reach calls ts c \<Longrightarrow> i < length ts \<Longrightarrow> ts ! i = (d, e, pc) \<Longrightarrow> RecordCall_step d e pc c = (pc', c') \<Longrightarrow>
    rc_reach calls (ts[i := (d, e, pc')]) c'"

fun rc_rank :: "rc_pc \<Rightarrow> nat" where
  "rc_rank PcCount = 0"
| "rc_rank PcTotal = 1"
| "rc_rank PcErr = 2"
| "rc_rank PcMaxLoad = 3"
| "rc_rank (PcMaxCas old) = 3"
| "rc_rank PcMinLoad = 4"
| "rc_rank (PcMinCas old) = 4"
| "rc_rank PcDone = 5"

text \<open>What each call has contributed to a counter.\<close>

definition tally :: "(rc_thread \<Rightarrow> i64) \<Rightarrow> rc_thread list \<Rightarrow> i64" where
  "tally f ts = sum_list (map f ts)"

definition rc_counted :: "rc_thread \<Rightarrow> i64" where
  "rc_counted t = (case t of (d, e, pc) \<Rightarrow> if rc_rank pc > 0 then 1 else 0)"
definition rc_total :: "rc_thread \<Rightarrow> i64" where
  "rc_total t = (case t of (d, e, pc) \<Rightarrow> if rc_rank pc > 1 then d else 0)"
definition rc_errors :: "rc_thread \<Rightarrow> i64" where
  "rc_errors t = (case t of (d, e, pc) \<Rightarrow> if rc_rank pc > 2 \<and> e then 1 else 0)"

definition rc_inv :: "(i64 \<times> bool) list \<Rightarrow> rc_thread list \<Rightarrow> StatsCollector \<Rightarrow> bool" where
  "rc_inv calls ts c \<longleftrightarrow>
     map (\<lambda>(d, e, pc). (d, e)) ts = calls
     \<and> callCount c = tally rc_counted ts \<and> totalDuration c = tally rc_total ts \<and> errorCount c = tally rc_errors ts
     \<and> maxDuration c \<in> insert 0 (fst ` set calls) \<and> minDuration c \<in> insert max_i64 (fst ` set calls)
     \<and> 0 \<le> sint (maxDuration c)
     \<and> (\<forall>(d, e, pc) \<in> set ts. (rc_rank pc > 3 \<longrightarrow> sint d \<le> sint (maxDuration c))
          \<and> (rc_rank pc > 4 \<longrightarrow> sint (minDuration c) \<le> sint d)
          \<and> (\<forall>old. pc = PcMaxCas old \<longrightarrow> sint old < sint d) \<and> (\<forall>old. pc = PcMinCas old \<longrightarrow> sint d < sint old))"

lemma tally_update:
  "i < length ts \<Longrightarrow> tally f (ts[i := t]) = tally f ts + f t - f (ts ! i)"
proof (induction ts arbitrary: i)
  case (Cons a ts)
  then show ?case by (cases i) (simp_all add: tally_def algebra_simps)
qed (simp add: tally_def)

lemma max_i64_top: "sint (d :: i64) \<le> sint max_i64"
  using sint_lt [of d] by (simp add: max_i64_def)

lemma rc_invD:
  assumes "rc_inv calls ts c" and "(d, e, pc) \<in> set ts"
  shows "rc_rank pc > 3 \<Longrightarrow> sint d \<le> sint (maxDuration c)" and "rc_rank pc > 4 \<Longrightarrow> sint (minDuration c) \<le> sint d"
    and "pc = PcMaxCas old \<Longrightarrow> sint old < sint d" and "pc = PcMinCas old \<Longrightarrow> sint d < sint old"
  using assms by (auto simp: rc_inv_def)

lemma rc_step_inv:
  assumes inv: "rc_inv calls ts c" and i: "i < length ts" "ts ! i = (d, e, pc)"
    and st: "RecordCall_step d e pc c = (pc', c')"
  shows "rc_inv calls (ts[i := (d, e, pc')]) c'"
proof -
  have mem: "(d, e, pc) \<in> set ts" using i nth_mem by fastforce
  have calls: "map (\<lambda>(d, e, pc). (d, e)) (ts[i := (d, e, pc')]) = calls"
  proof -
    have "calls = map (\<lambda>(d, e, pc). (d, e)) ts" using inv by (simp add: rc_inv_def)
    then show ?thesis using i by (simp add: map_update list_update_same_conv)
  qed
  have "calls = map (\<lambda>(d, e, pc). (d, e)) ts" using inv by (simp add: rc_inv_def)
  then have d: "d \<in> fst ` set calls" using mem by (simp add: image_image case_prod_beta') (metis fst_conv imageI)
  note t = tally_update [OF i(1), where t = "(d, e, pc')"]
  have was: "callCount c = tally rc_counted ts" "totalDuration c = tally rc_total ts" "errorCount c = tally rc_errors ts"
    using inv unfolding rc_inv_def by blast+
  have "callCount c' = callCount c + rc_counted (d, e, pc') - rc_counted (d, e, pc)"
    using st by (cases pc) (auto simp: rc_counted_def split: if_splits)
  moreover have "totalDuration c' = totalDuration c + rc_total (d, e, pc') - rc_total (d, e, pc)"
    using st by (cases pc) (auto simp: rc_total_def split: if_splits)
  moreover have "errorCount c' = errorCount c + rc_errors (d, e, pc') - rc_errors (d, e, pc)"
    using st by (cases pc) (auto simp: rc_errors_def split: if_splits)
  ultimately have tallies: "callCount c' = tally rc_counted (ts[i := (d, e, pc')])"
      "totalDuration c' = tally rc_total (ts[i := (d, e, pc')])" "errorCount c' = tally rc_errors (ts[i := (d, e, pc')])"
    by (simp_all only: was t i(2))
  have sub: "set (ts[i := (d, e, pc')]) \<subseteq> insert (d, e, pc') (set ts)" by (rule set_update_subset_insert)
  have max: "maxDuration c' = maxDuration c \<or> (pc = PcMaxCas (maxDuration c) \<and> maxDuration c' = d)"
    and min: "minDuration c' = minDuration c \<or> (pc = PcMinCas (minDuration c) \<and> minDuration c' = d)"
    using st by (cases pc; auto split: if_splits)+
  have up: "sint (maxDuration c) \<le> sint (maxDuration c')" using max rc_invD(3) [OF inv mem] by fastforce
  have down: "sint (minDuration c') \<le> sint (minDuration c)" using min rc_invD(4) [OF inv mem] by fastforce
  have own: "(rc_rank pc' > 3 \<longrightarrow> sint d \<le> sint (maxDuration c')) \<and> (rc_rank pc' > 4 \<longrightarrow> sint (minDuration c') \<le> sint d)
      \<and> (\<forall>old. pc' = PcMaxCas old \<longrightarrow> sint old < sint d) \<and> (\<forall>old. pc' = PcMinCas old \<longrightarrow> sint d < sint old)"
    using st rc_invD(1,2) [OF inv mem] by (cases pc) (auto split: if_splits)
  have others: "\<forall>(d, e, pc) \<in> set ts. (rc_rank pc > 3 \<longrightarrow> sint d \<le> sint (maxDuration c'))
        \<and> (rc_rank pc > 4 \<longrightarrow> sint (minDuration c') \<le> sint d)
        \<and> (\<forall>old. pc = PcMaxCas old \<longrightarrow> sint old < sint d) \<and> (\<forall>old. pc = PcMinCas old \<longrightarrow> sint d < sint old)"
    using inv up down unfolding rc_inv_def by fastforce
  have all: "\<forall>(d, e, pc) \<in> set (ts[i := (d, e, pc')]). (rc_rank pc > 3 \<longrightarrow> sint d \<le> sint (maxDuration c'))
        \<and> (rc_rank pc > 4 \<longrightarrow> sint (minDuration c') \<le> sint d)
        \<and> (\<forall>old. pc = PcMaxCas old \<longrightarrow> sint old < sint d) \<and> (\<forall>old. pc = PcMinCas old \<longrightarrow> sint d < sint old)"
    using sub own others by blast
  have bounds: "maxDuration c' \<in> insert 0 (fst ` set calls)" "minDuration c' \<in> insert max_i64 (fst ` set calls)"
      "0 \<le> sint (maxDuration c')"
  proof -
    have old: "maxDuration c \<in> insert 0 (fst ` set calls)" "minDuration c \<in> insert max_i64 (fst ` set calls)"
        "0 \<le> sint (maxDuration c)"
      using inv unfolding rc_inv_def by blast+
    show "maxDuration c' \<in> insert 0 (fst ` set calls)" using max d old(1) by (metis insertI2)
    show "minDuration c' \<in> insert max_i64 (fst ` set calls)" using min d old(2) by (metis insertI2)
    show "0 \<le> sint (maxDuration c')" using up old(3) by simp
  qed
  show ?thesis unfolding rc_inv_def using calls tallies bounds all by blast
qed

lemma rc_reach_inv: "rc_reach calls ts c \<Longrightarrow> rc_inv calls ts c"
proof (induction rule: rc_reach.induct)
  case (start t)
  have "map (\<lambda>(d, e, pc). (d, e)) (map (\<lambda>(d, e). (d, e, PcCount)) calls) = calls" by (induction calls) auto
  moreover have "tally f (map (\<lambda>(d, e). (d, e, PcCount)) calls) = 0" if "\<And>d e. f (d, e, PcCount) = 0" for f
    using that by (induction calls) (auto simp: tally_def)
  ultimately show ?case
    by (auto simp: rc_inv_def NewStatsCollector_def rc_counted_def rc_total_def rc_errors_def)
qed (rule rc_step_inv)

text \<open>A call that nobody interleaves with is \<open>RecordCall\<close>.\<close>

lemma RecordCall_alone:
  "((\<lambda>(pc, c). RecordCall_step d e pc c) ^^ 7) (PcCount, c) = (PcDone, RecordCall d e c)"
  by (simp add: numeral_eq_Suc RecordCall_def Let_def)

lemma sum_const_word: "(\<And>x. x \<in> set xs \<Longrightarrow> f x = (if P x then 1 else 0)) \<Longrightarrow>
    sum_list (map f xs) = word_of_nat (length (filter P xs))"
  by (induction xs) (auto simp: add.commute)

text \<open>Claim C22: The statistics survive concurrency: whatever the interleaving of the calls that
  record their duration, once all have finished the counters are the number of calls, of errors
  and the total duration, the maximum is the longest duration (or 0) and the minimum the
  shortest, although the extremes are kept with compare-and-swap loops.\<close>

theorem concurrent_stats_exact:
  assumes "rc_reach calls ts c" and "\<forall>t \<in> set ts. snd (snd t) = PcDone"
  shows "callCount c = word_of_nat (length calls) \<and> errorCount c = word_of_nat (length (filter snd calls))
    \<and> totalDuration c = sum_list (map fst calls)
    \<and> sint (maxDuration c) = Max (insert 0 (sint ` fst ` set calls))
    \<and> sint (minDuration c) = Min (insert (sint max_i64) (sint ` fst ` set calls))"
proof -
  have inv: "rc_inv calls ts c" by (rule rc_reach_inv [OF assms(1)])
  have calls: "calls = map (\<lambda>(d, e, pc). (d, e)) ts" using inv by (simp add: rc_inv_def)
  have pc: "pc = PcDone" if "(d, e, pc) \<in> set ts" for d e pc using assms(2) that by force
  have count: "tally rc_counted ts = word_of_nat (length (filter (\<lambda>_. True) ts))"
    unfolding tally_def by (rule sum_const_word) (auto simp: rc_counted_def dest: pc)
  have "tally rc_errors ts = word_of_nat (length (filter (\<lambda>(d, e, pc). e) ts))"
    unfolding tally_def by (rule sum_const_word) (auto simp: rc_errors_def dest: pc)
  moreover have "length (filter (\<lambda>(d, e, pc). e) ts) = length (filter snd calls)"
    unfolding calls filter_map comp_def length_map by (rule arg_cong [where f = length], rule filter_cong) auto
  ultimately have errors: "tally rc_errors ts = word_of_nat (length (filter snd calls))" by simp
  have total: "map rc_total ts = map fst calls" unfolding calls by (auto simp: rc_total_def dest: pc)
  have seen: "sint d \<le> sint (maxDuration c)" "sint (minDuration c) \<le> sint d" if "(d, e) \<in> set calls" for d e
  proof -
    have "(d, e) \<in> (\<lambda>(d, e, pc). (d, e)) ` set ts" using that unfolding calls by simp
    then obtain t where t: "(d, e) = (case t of (d, e, pc) \<Rightarrow> (d, e))" "t \<in> set ts" by (rule imageE)
    obtain p where "t = (d, e, p)" using t(1) by (cases t) simp
    then have "(d, e, PcDone) \<in> set ts" using pc t(2) by blast
    from rc_invD(1,2) [OF inv this] show "sint d \<le> sint (maxDuration c)" "sint (minDuration c) \<le> sint d" by simp_all
  qed
  have extremes: "maxDuration c \<in> insert 0 (fst ` set calls)" "minDuration c \<in> insert max_i64 (fst ` set calls)"
      "0 \<le> sint (maxDuration c)" "sint (minDuration c) \<le> sint max_i64"
    using inv max_i64_top unfolding rc_inv_def by blast+
  have "sint (maxDuration c) \<in> insert 0 (sint ` fst ` set calls)" using extremes(1) by auto
  then have longest: "Max (insert 0 (sint ` fst ` set calls)) = sint (maxDuration c)"
    using extremes(3) seen(1) by (intro Max_eqI) auto
  have "sint (minDuration c) \<in> insert (sint max_i64) (sint ` fst ` set calls)" using extremes(2) by auto
  then have shortest: "Min (insert (sint max_i64) (sint ` fst ` set calls)) = sint (minDuration c)"
    using extremes(4) seen(2) by (intro Min_eqI) auto
  have "callCount c = tally rc_counted ts" "errorCount c = tally rc_errors ts" "totalDuration c = tally rc_total ts"
    using inv unfolding rc_inv_def by blast+
  moreover have "length ts = length calls" by (simp add: calls)
  ultimately show ?thesis unfolding longest shortest by (simp add: count errors total tally_def [of rc_total])
qed

lemma rc_reach_alone:
  assumes "rc_reach [(d, e)] [(d, e, pc)] c"
  shows "rc_reach [(d, e)] [(d, e, fst (((\<lambda>(pc, c). RecordCall_step d e pc c) ^^ n) (pc, c)))]
    (snd (((\<lambda>(pc, c). RecordCall_step d e pc c) ^^ n) (pc, c)))"
proof (induction n)
  case (Suc n)
  obtain pc1 c1 where n: "((\<lambda>(pc, c). RecordCall_step d e pc c) ^^ n) (pc, c) = (pc1, c1)" by fastforce
  obtain pc2 c2 where st: "RecordCall_step d e pc1 c1 = (pc2, c2)" by fastforce
  have "rc_reach [(d, e)] ([(d, e, pc1)][0 := (d, e, pc2)]) c2"
    by (rule rc_reach.step [OF _ _ _ st]) (use Suc n in simp_all)
  then show ?case by (simp add: n st)
qed (use assms in simp)

theorem concurrent_stats_exact_witness:
  "callCount (RecordCall 9 True (NewStatsCollector ''lua'')) = 1
   \<and> sint (maxDuration (RecordCall 9 True (NewStatsCollector ''lua''))) = 9"
proof -
  have "rc_reach [(9, True)] [(9, True, PcCount)] (NewStatsCollector ''lua'')"
    using rc_reach.start [of "[(9, True)]" "''lua''"] by simp
  from rc_reach_alone [OF this, of 7]
  have "rc_reach [(9, True)] [(9, True, PcDone)] (RecordCall 9 True (NewStatsCollector ''lua''))"
    unfolding RecordCall_alone by simp
  from concurrent_stats_exact [OF this] show ?thesis by simp
qed

section \<open>Contexts do not leak\<close>

definition ctx_clean :: "ScriptContext \<Rightarrow> bool" where
  "ctx_clean c \<longleftrightarrow> C_MsgID c = 0 \<and> C_AuthID c = 0 \<and> MsgData c = GNil \<and> Owner c = GNil \<and> TraceID c = 0 \<and> Metadata c = None"

text \<open>Executions of the engines on the pool: \<open>held\<close> are the contexts of calls in progress, which only
  their call writes.\<close>

inductive ctx_reach :: "pick \<Rightarrow> nat list \<Rightarrow> ctx_heap \<Rightarrow> bool" for pk where
  start: "ctx_reach pk [] \<lparr>ctx_at = (\<lambda>_. ctx_zero), ctx_pool = [], ctx_next = 0\<rparr>"
| get: "ctx_reach pk held h \<Longrightarrow> GetContext pk now i t h = (a, h') \<Longrightarrow> ctx_reach pk (a # held) h'"
| use_ctx: "ctx_reach pk held h \<Longrightarrow> a \<in> set held \<Longrightarrow> ctx_reach pk held (h\<lparr>ctx_at := (ctx_at h)(a := c)\<rparr>)"
| put: "ctx_reach pk held h \<Longrightarrow> a \<in> set held \<Longrightarrow> ctx_reach pk (remove1 a held) (PutContext a h)"

definition ctx_inv :: "nat list \<Rightarrow> ctx_heap \<Rightarrow> bool" where
  "ctx_inv held h \<longleftrightarrow> distinct (held @ ctx_pool h) \<and> (\<forall>a \<in> set (held @ ctx_pool h). a < ctx_next h)
     \<and> (\<forall>a \<in> set (ctx_pool h). ctx_clean (ctx_at h a))"

lemma GetContext_cases:
  assumes "GetContext pk now i t h = (a, h')" and "pick_ok pk"
  shows "(a \<in> set (ctx_pool h) \<and> ctx_pool h' = remove1 a (ctx_pool h) \<and> ctx_next h' = ctx_next h
      \<and> ctx_at h' = (ctx_at h)(a := ctx_init now i t (ctx_at h a)))
    \<or> (a = ctx_next h \<and> ctx_pool h' = ctx_pool h \<and> ctx_next h' = Suc (ctx_next h)
      \<and> ctx_at h' = (ctx_at h)(a := ctx_init now i t ctx_zero))"
  using assms by (auto simp: GetContext_def Let_def pick_ok_def split: option.splits)

lemma ctx_reach_inv:
  assumes "ctx_reach pk held h" and "pick_ok pk"
  shows "ctx_inv held h"
  using assms(1)
proof induction
  case (get held h now i t a h')
  have inv: "distinct (held @ ctx_pool h)" "\<forall>b \<in> set (held @ ctx_pool h). b < ctx_next h"
      "\<forall>b \<in> set (ctx_pool h). ctx_clean (ctx_at h b)"
    using get.IH unfolding ctx_inv_def by blast+
  from GetContext_cases [OF get(2) assms(2)] show ?case
  proof
    assume g: "a \<in> set (ctx_pool h) \<and> ctx_pool h' = remove1 a (ctx_pool h) \<and> ctx_next h' = ctx_next h
      \<and> ctx_at h' = (ctx_at h)(a := ctx_init now i t (ctx_at h a))"
    then show ?thesis using inv by (auto simp: ctx_inv_def)
  next
    assume g: "a = ctx_next h \<and> ctx_pool h' = ctx_pool h \<and> ctx_next h' = Suc (ctx_next h)
      \<and> ctx_at h' = (ctx_at h)(a := ctx_init now i t ctx_zero)"
    have "a \<notin> set (held @ ctx_pool h)" using g inv(2) by blast
    then show ?thesis using g inv by (auto simp: ctx_inv_def less_Suc_eq)
  qed
next
  case (use_ctx held h a c)
  then show ?case by (auto simp: ctx_inv_def)
next
  case (put held h a)
  have "ctx_clean (ctx_reset c)" for c by (simp add: ctx_clean_def ctx_reset_def)
  then show ?case using put by (auto simp: ctx_inv_def PutContext_def)
qed (simp add: ctx_inv_def)

text \<open>Claim C14: A script never sees data of another call: in every interleaving of the engines, the
  context a call obtains from the pool is nobody else's, and after the call has filled it the
  script reads exactly the parameters of its own call, whatever earlier users left in the object.\<close>

theorem contexts_do_not_leak:
  assumes "ctx_reach pk held h" and "pick_ok pk"
    and "GetContext pk now (P_ActorID p) (P_ActorType p) h = (a, h')"
  shows "a \<notin> set held \<and> a \<notin> set (ctx_pool h')
    \<and> fill_context p (ctx_at h' a) = \<lparr>ActorID = P_ActorID p, C_ActorType = P_ActorType p, C_MsgID = P_MsgID p,
         C_AuthID = P_AuthID p, MsgData = P_MsgData p, Owner = P_Owner p, TraceID = P_TraceID p, NowMillis = now,
         Metadata = (case P_Metadata p of None \<Rightarrow> None
           | Some kvs \<Rightarrow> if kvs = [] then None else Some (map_of (rev kvs)))\<rparr>"
proof -
  have inv: "ctx_inv held h" by (rule ctx_reach_inv [OF assms(1,2)])
  note g = GetContext_cases [OF assms(3,2)]
  have a: "a \<notin> set held" "a \<notin> set (ctx_pool h')" using g inv by (auto simp: ctx_inv_def)
  have "Metadata (ctx_at h' a) = None" "ActorID (ctx_at h' a) = P_ActorID p" "C_ActorType (ctx_at h' a) = P_ActorType p"
      "NowMillis (ctx_at h' a) = now"
    using g by (auto simp: ctx_init_def)
  moreover have "fold (\<lambda>(k, v). WithMetadata k v) kvs c
      = (if kvs = [] then c else c\<lparr>Metadata := Some ((case Metadata c of None \<Rightarrow> Map.empty | Some m \<Rightarrow> m) ++ map_of (rev kvs))\<rparr>)" for kvs c
    by (induction kvs arbitrary: c) (auto simp: WithMetadata_def Let_def split: option.split)
  ultimately have "fill_context p (ctx_at h' a) = \<lparr>ActorID = P_ActorID p, C_ActorType = P_ActorType p, C_MsgID = P_MsgID p,
         C_AuthID = P_AuthID p, MsgData = P_MsgData p, Owner = P_Owner p, TraceID = P_TraceID p, NowMillis = now,
         Metadata = (case P_Metadata p of None \<Rightarrow> None
           | Some kvs \<Rightarrow> if kvs = [] then None else Some (map_of (rev kvs)))\<rparr>"
    by (cases "P_Metadata p") (simp_all add: fill_context_def WithOwner_def WithTraceID_def WithMessage_def Let_def)
  then show ?thesis using a by blast
qed

theorem contexts_do_not_leak_witness:
  "let p = \<lparr>P_ActorID = 1, P_ActorType = 2, P_Owner = GNil, P_TraceID = 0, P_MsgID = 7, P_AuthID = 9,
         P_MsgData = GString ''x'', P_Metadata = None\<rparr>;
       (a, h) = GetContext (\<lambda>_. None) 100 1 2 \<lparr>ctx_at = (\<lambda>_. ctx_zero), ctx_pool = [], ctx_next = 0\<rparr>
   in MsgData (fill_context p (ctx_at h a)) = GString ''x'' \<and> a \<notin> set (ctx_pool h)"
proof -
  let ?p = "\<lparr>P_ActorID = 1, P_ActorType = 2, P_Owner = GNil, P_TraceID = 0, P_MsgID = 7, P_AuthID = 9,
         P_MsgData = GString ''x'', P_Metadata = None\<rparr>"
  obtain a h where g: "GetContext (\<lambda>_. None) 100 1 2 \<lparr>ctx_at = (\<lambda>_. ctx_zero), ctx_pool = [], ctx_next = 0\<rparr> = (a, h)" by fastforce
  have "pick_ok (\<lambda>_. None)" by (simp add: pick_ok_def)
  from contexts_do_not_leak [OF ctx_reach.start this, of 100 ?p a h] show ?thesis by (simp add: g)
qed

end
