(* ===== verification/ZVal.thy ===== *)
theory ZVal
  imports ZScript
begin

text \<open>
  The values that cross the border between Go and the scripts: \<open>goToLua\<close>/\<open>luaToGo\<close>,
  \<open>goToTengo\<close>/\<open>tengoToGo\<close>, \<open>goToStarlark\<close>/\<open>starlarkToGo\<close>, and the lazy context objects of
  the three engines (\<open>zlua\<close>, \<open>ztengo\<close>, \<open>zstarlark\<close>, \<open>engine.go\<close>). A Go map is an association
  list with distinct keys whose order means nothing, as \<open>range\<close> visits a map in any order. The
  interpreters are other modules: their values are datatypes here, and what the code relies on
  but does not define (\<open>MaxN\<close> of a Lua table, \<open>Int64\<close> of a big Starlark integer) is a parameter.
\<close>

section \<open>Numbers and bytes as text\<close>

definition FormatInt :: "i64 \<Rightarrow> string" where
  "FormatInt v = (if sint v < 0 then CHR ''-'' # fmt_d (nat (- sint v)) else fmt_d (nat (sint v)))"

definition FormatUint :: "u64 \<Rightarrow> string" where "FormatUint v = fmt_d (unat v)"

definition bytes_str :: "byte list \<Rightarrow> string" where "bytes_str bs = map (\<lambda>b. char_of (unat b)) bs"

definition i2f :: "'a::len word \<Rightarrow> f64" where "i2f w = f64_round (of_int (sint w))"
definition u2f :: "'a::len word \<Rightarrow> f64" where "u2f w = f64_round (of_nat (unat w))"

lemma FormatInt_inj: "FormatInt v = FormatInt w \<longleftrightarrow> v = w"
proof -
  have no_minus: "CHR ''-'' \<notin> set (fmt_d n)" for n
    by (rule digit_run_no_sep [OF fmt_d_digits]) (simp add: is_digit_def)
  have minus: "fmt_d n \<noteq> CHR ''-'' # s" "CHR ''-'' # s \<noteq> fmt_d n" for n s
    using no_minus [of n] by (metis list.set_intros(1))+
  have "FormatInt v = FormatInt w \<longleftrightarrow> sint v = sint w"
    by (auto simp: FormatInt_def minus simp del: fmt_d.simps)
  then show ?thesis by (metis signed_word_eqI)
qed

section \<open>Lua\<close>

text \<open>A table is the list of its entries, none of them nil.\<close>

datatype lkey = KNum f64 | KStr string | KOther nat
datatype lval = LNil | LBool bool | LNumber f64 | LString string | LTable "(lkey \<times> lval) list" | LOther nat

text \<open>Raw assignment; nil removes the entry.\<close>

definition RawSet :: "lkey \<Rightarrow> lval \<Rightarrow> (lkey \<times> lval) list \<Rightarrow> (lkey \<times> lval) list" where
  "RawSet k v es = (if v = LNil then filter (\<lambda>e. fst e \<noteq> k) es
     else if k \<in> fst ` set es then map (\<lambda>e. if fst e = k then (k, v) else e) es else es @ [(k, v)])"

primrec goToLua :: "gval \<Rightarrow> lval" where
  "goToLua GNil = LNil"
| "goToLua (GBool b) = LBool b"
| "goToLua (GString s) = LString s"
| "goToLua (GBytes bs) = LString (bytes_str bs)"
| "goToLua (GFloat64 x) = LNumber x"
| "goToLua (GFloat32 x) = LNumber x"
| "goToLua (GInt v) = LNumber (i2f v)"
| "goToLua (GInt8 v) = LNumber (i2f v)"
| "goToLua (GInt16 v) = LNumber (i2f v)"
| "goToLua (GInt32 v) = LNumber (i2f v)"
| "goToLua (GInt64 v) =
    (if sint v > 9007199254740991 \<or> sint v < - 9007199254740991 then LString (FormatInt v) else LNumber (i2f v))"
| "goToLua (GUint v) = LNumber (u2f v)"
| "goToLua (GUint8 v) = LNumber (u2f v)"
| "goToLua (GUint16 v) = LNumber (u2f v)"
| "goToLua (GUint32 v) = LNumber (u2f v)"
| "goToLua (GUint64 v) = (if unat v > 9007199254740991 then LString (FormatUint v) else LNumber (u2f v))"
| "goToLua (GMap kvs) = LTable (fold (\<lambda>(k, v). RawSet (KStr k) v) (map (map_prod id goToLua) kvs) [])"
| "goToLua (GSlice vs) =
    LTable (fold (\<lambda>(i, v). RawSet (KNum (of_nat (Suc i))) v) (enumerate 0 (map goToLua vs)) [])"
| "goToLua (GOther n) = LNil"

definition isArray :: "((lkey \<times> 'a) list \<Rightarrow> nat) \<Rightarrow> (lkey \<times> 'a) list \<Rightarrow> bool" where
  "isArray maxn es \<longleftrightarrow>
    (let n = maxn es
     in n \<noteq> 0 \<and> list_all (\<lambda>i. map_of es (KNum (of_nat i)) \<noteq> None) [1..<Suc n]
        \<and> list_all (\<lambda>e. case fst e of KNum x \<Rightarrow> True | _ \<Rightarrow> False) es)"

definition luaTableToSlice :: "((lkey \<times> gval) list \<Rightarrow> nat) \<Rightarrow> (lkey \<times> gval) list \<Rightarrow> gval list" where
  "luaTableToSlice maxn es =
    map (\<lambda>i. case map_of es (KNum (of_nat i)) of None \<Rightarrow> GNil | Some v \<Rightarrow> v) [1..<Suc (maxn es)]"

definition luaTableToMap :: "(lkey \<times> gval) list \<Rightarrow> (string \<times> gval) list" where
  "luaTableToMap es = concat (map (\<lambda>(k, v). case k of KStr s \<Rightarrow> [(s, v)] | _ \<Rightarrow> []) es)"

text \<open>\<open>MaxN\<close> looks at the keys only, so it may be asked after the entries have been converted.\<close>

primrec luaToGo :: "((lkey \<times> gval) list \<Rightarrow> nat) \<Rightarrow> lval \<Rightarrow> gval" where
  "luaToGo maxn LNil = GNil"
| "luaToGo maxn (LBool b) = GBool b"
| "luaToGo maxn (LNumber x) = GFloat64 x"
| "luaToGo maxn (LString s) = GString s"
| "luaToGo maxn (LTable es) =
    (let es = map (map_prod id (luaToGo maxn)) es
     in if isArray maxn es then GSlice (luaTableToSlice maxn es) else GMap (luaTableToMap es))"
| "luaToGo maxn (LOther n) = GNil"

text \<open>What the code relies on: \<open>MaxN\<close> of a table whose numeric keys are \<open>1 \<dots> n\<close> is \<open>n\<close>.\<close>

definition maxn_ok :: "((lkey \<times> gval) list \<Rightarrow> nat) \<Rightarrow> bool" where
  "maxn_ok maxn \<longleftrightarrow> (\<forall>es n. {x. KNum x \<in> fst ` set es} = of_nat ` {1..n} \<longrightarrow> maxn es = n)"

section \<open>Tengo\<close>

datatype tval = TUndefined | TBool bool | TInt i64 | TFloat f64 | TString string | TBytes "byte list"
  | TMap "(string \<times> tval) list" | TArray "tval list" | TError string | TOther nat

text \<open>\<open>GOther\<close> that is a Tengo object is passed through, both ways; \<open>obj\<close> tells which are.\<close>

primrec goToTengo :: "(nat \<Rightarrow> bool) \<Rightarrow> gval \<Rightarrow> tval" where
  "goToTengo obj GNil = TUndefined"
| "goToTengo obj (GBool b) = TBool b"
| "goToTengo obj (GString s) = TString s"
| "goToTengo obj (GBytes bs) = TBytes bs"
| "goToTengo obj (GFloat64 x) = TFloat x"
| "goToTengo obj (GFloat32 x) = TFloat x"
| "goToTengo obj (GInt v) = TInt v"
| "goToTengo obj (GInt8 v) = TUndefined"
| "goToTengo obj (GInt16 v) = TUndefined"
| "goToTengo obj (GInt32 v) = TInt (scast v)"
| "goToTengo obj (GInt64 v) = TInt v"
| "goToTengo obj (GUint v) = TInt v"
| "goToTengo obj (GUint8 v) = TUndefined"
| "goToTengo obj (GUint16 v) = TUndefined"
| "goToTengo obj (GUint32 v) = TInt (ucast v)"
| "goToTengo obj (GUint64 v) = (if unat v > 9223372036854775807 then TString (FormatUint v) else TInt v)"
| "goToTengo obj (GMap kvs) = TMap (map (map_prod id (goToTengo obj)) kvs)"
| "goToTengo obj (GSlice vs) = TArray (map (goToTengo obj) vs)"
| "goToTengo obj (GOther n) = (if obj n then TOther n else TUndefined)"

primrec tengoToGo :: "tval \<Rightarrow> gval" where
  "tengoToGo TUndefined = GNil"
| "tengoToGo (TBool b) = GBool b"
| "tengoToGo (TInt v) = GInt64 v"
| "tengoToGo (TFloat x) = GFloat64 x"
| "tengoToGo (TString s) = GString s"
| "tengoToGo (TBytes bs) = GBytes bs"
| "tengoToGo (TArray vs) = GSlice (map tengoToGo vs)"
| "tengoToGo (TMap kvs) = GMap (map (map_prod id tengoToGo) kvs)"
| "tengoToGo (TError s) = GString s"
| "tengoToGo (TOther n) = GOther n"

section \<open>Starlark\<close>

datatype sval = SNone | SBool bool | SInt int | SFloat f64 | SString string
  | SDict "(sval \<times> sval) list" | SList "sval list" | STuple "sval list" | SSet "sval list" | SOther nat

primrec goToStarlark :: "gval \<Rightarrow> sval" where
  "goToStarlark GNil = SNone"
| "goToStarlark (GBool b) = SBool b"
| "goToStarlark (GString s) = SString s"
| "goToStarlark (GBytes bs) = SString (bytes_str bs)"
| "goToStarlark (GFloat64 x) = SFloat x"
| "goToStarlark (GFloat32 x) = SFloat x"
| "goToStarlark (GInt v) = SInt (sint v)"
| "goToStarlark (GInt8 v) = SInt (sint v)"
| "goToStarlark (GInt16 v) = SInt (sint v)"
| "goToStarlark (GInt32 v) = SInt (sint v)"
| "goToStarlark (GInt64 v) = SInt (sint v)"
| "goToStarlark (GUint v) = SInt (uint v)"
| "goToStarlark (GUint8 v) = SInt (uint v)"
| "goToStarlark (GUint16 v) = SInt (uint v)"
| "goToStarlark (GUint32 v) = SInt (uint v)"
| "goToStarlark (GUint64 v) = SInt (uint v)"
| "goToStarlark (GMap kvs) = SDict (map (map_prod SString id) (map (map_prod id goToStarlark) kvs))"
| "goToStarlark (GSlice vs) = SList (map goToStarlark vs)"
| "goToStarlark (GOther n) = SNone"

text \<open>\<open>int64_of\<close> is \<open>Int64\<close>, whose result is unspecified outside the range.\<close>

primrec starlarkToGo :: "(int \<Rightarrow> i64) \<Rightarrow> sval \<Rightarrow> gval" where
  "starlarkToGo int64_of SNone = GNil"
| "starlarkToGo int64_of (SBool b) = GBool b"
| "starlarkToGo int64_of (SInt i) = GInt64 (int64_of i)"
| "starlarkToGo int64_of (SFloat x) = GFloat64 x"
| "starlarkToGo int64_of (SString s) = GString s"
| "starlarkToGo int64_of (SList vs) = GSlice (map (starlarkToGo int64_of) vs)"
| "starlarkToGo int64_of (STuple vs) = GSlice (map (starlarkToGo int64_of) vs)"
| "starlarkToGo int64_of (SDict es) =
    GMap (concat (map (\<lambda>(k, v). case k of SString s \<Rightarrow> [(s, v)] | _ \<Rightarrow> []) (map (map_prod id (starlarkToGo int64_of)) es)))"
| "starlarkToGo int64_of (SSet vs) = GSlice (map (starlarkToGo int64_of) vs)"
| "starlarkToGo int64_of (SOther n) = GNil"

definition int64_ok :: "(int \<Rightarrow> i64) \<Rightarrow> bool" where
  "int64_ok int64_of \<longleftrightarrow> (\<forall>v. int64_of (sint v) = v)"

section \<open>The lazy contexts\<close>

text \<open>The metadata map is handed over with its entries in the order of a \<open>range\<close>; a nil map is empty.\<close>

definition meta_val :: "string list \<Rightarrow> gmap option \<Rightarrow> gval" where
  "meta_val order m = GMap (case m of None \<Rightarrow> []
     | Some m \<Rightarrow> concat (map (\<lambda>k. case m k of None \<Rightarrow> [] | Some v \<Rightarrow> [(k, v)]) order))"

text \<open>The Lua context remembers the bytes it has converted to a string.\<close>

definition lua_index :: "string list \<Rightarrow> string \<Rightarrow> ScriptContext \<Rightarrow> lval \<times> ScriptContext" where
  "lua_index order key c =
    (if key = ''ActorID'' then (LNumber (u2f (ActorID c)), c)
     else if key = ''ActorType'' then (LNumber (u2f (C_ActorType c)), c)
     else if key = ''MsgID'' then (LNumber (i2f (C_MsgID c)), c)
     else if key = ''AuthID'' then (LString (FormatInt (C_AuthID c)), c)
     else if key = ''TraceID'' then (LString (FormatUint (TraceID c)), c)
     else if key = ''NowMillis'' then (LNumber (i2f (NowMillis c)), c)
     else if key = ''Owner'' then (goToLua (Owner c), c)
     else if key = ''MsgData'' then
       (case MsgData c of
          GBytes b \<Rightarrow> (let s = bytes_str b in (LString s, c\<lparr>MsgData := GString s\<rparr>))
        | v \<Rightarrow> (goToLua v, c))
     else if key = ''Metadata'' then (goToLua (meta_val order (Metadata c)), c)
     else (LNil, c))"

text \<open>Starlark answers \<open>Get\<close> of an unknown name with not found; \<open>int(uint64)\<close> wraps.\<close>

definition starlark_Get :: "string list \<Rightarrow> string \<Rightarrow> ScriptContext \<Rightarrow> sval option" where
  "starlark_Get order name c =
    (if name = ''ActorID'' then Some (SInt (sint (ActorID c)))
     else if name = ''ActorType'' then Some (SInt (uint (C_ActorType c)))
     else if name = ''MsgID'' then Some (SInt (sint (C_MsgID c)))
     else if name = ''AuthID'' then Some (SInt (sint (C_AuthID c)))
     else if name = ''TraceID'' then Some (SInt (uint (TraceID c)))
     else if name = ''NowMillis'' then Some (SInt (sint (NowMillis c)))
     else if name = ''Owner'' then Some (if Owner c \<noteq> GNil then goToStarlark (Owner c) else SNone)
     else if name = ''MsgData'' then Some (if MsgData c \<noteq> GNil then goToStarlark (MsgData c) else SNone)
     else if name = ''Metadata'' then
       Some (if Metadata c \<noteq> None then goToStarlark (meta_val order (Metadata c)) else SNone)
     else None)"

definition AttrNames :: "string list" where
  "AttrNames = [''ActorID'', ''ActorType'', ''MsgID'', ''AuthID'', ''TraceID'', ''NowMillis'', ''Owner'', ''MsgData'', ''Metadata'']"

definition tengo_IndexGet :: "(nat \<Rightarrow> bool) \<Rightarrow> string list \<Rightarrow> tval \<Rightarrow> ScriptContext \<Rightarrow> tval" where
  "tengo_IndexGet obj order index c =
    (case index of
       TString key \<Rightarrow>
         (if key = ''ActorID'' then TInt (ActorID c)
          else if key = ''ActorType'' then TInt (ucast (C_ActorType c))
          else if key = ''MsgID'' then TInt (scast (C_MsgID c))
          else if key = ''AuthID'' then TInt (C_AuthID c)
          else if key = ''TraceID'' then
            (if TraceID c \<le> drop_bit 1 (- 1) then TInt (TraceID c) else TString (FormatUint (TraceID c)))
          else if key = ''NowMillis'' then TInt (NowMillis c)
          else if key = ''Owner'' then (if Owner c \<noteq> GNil then goToTengo obj (Owner c) else TUndefined)
          else if key = ''MsgData'' then (if MsgData c \<noteq> GNil then goToTengo obj (MsgData c) else TUndefined)
          else if key = ''Metadata'' then
            (if Metadata c \<noteq> None then goToTengo obj (meta_val order (Metadata c)) else TUndefined)
          else TUndefined)
     | _ \<Rightarrow> TUndefined)"

section \<open>Round trips\<close>

text \<open>The value as the number or text it stands for.\<close>

primrec plain :: "gval \<Rightarrow> gval" where
  "plain GNil = GNil"
| "plain (GBool b) = GBool b"
| "plain (GString s) = GString s"
| "plain (GBytes bs) = GString (bytes_str bs)"
| "plain (GFloat64 x) = GFloat64 x"
| "plain (GFloat32 x) = GFloat64 x"
| "plain (GInt v) = GFloat64 (of_int (sint v))"
| "plain (GInt8 v) = GFloat64 (of_int (sint v))"
| "plain (GInt16 v) = GFloat64 (of_int (sint v))"
| "plain (GInt32 v) = GFloat64 (of_int (sint v))"
| "plain (GInt64 v) = GFloat64 (of_int (sint v))"
| "plain (GUint v) = GFloat64 (of_int (uint v))"
| "plain (GUint8 v) = GFloat64 (of_int (uint v))"
| "plain (GUint16 v) = GFloat64 (of_int (uint v))"
| "plain (GUint32 v) = GFloat64 (of_int (uint v))"
| "plain (GUint64 v) = GFloat64 (of_int (uint v))"
| "plain (GMap kvs) = GMap (map (map_prod id plain) kvs)"
| "plain (GSlice vs) = GSlice (map plain vs)"
| "plain (GOther n) = GOther n"

text \<open>Values every engine can represent: integers below 2\<open>^53\<close> of the widths Tengo knows, no nil and no
  empty slice inside a container.\<close>

definition small :: "int \<Rightarrow> bool" where "small i \<longleftrightarrow> \<bar>i\<bar> \<le> 9007199254740991"

primrec portable :: "gval \<Rightarrow> bool" where
  "portable GNil = True"
| "portable (GBool b) = True"
| "portable (GString s) = True"
| "portable (GBytes bs) = True"
| "portable (GFloat64 x) = True"
| "portable (GFloat32 x) = True"
| "portable (GInt v) = small (sint v)"
| "portable (GInt8 v) = False"
| "portable (GInt16 v) = False"
| "portable (GInt32 v) = True"
| "portable (GInt64 v) = small (sint v)"
| "portable (GUint v) = small (uint v)"
| "portable (GUint8 v) = False"
| "portable (GUint16 v) = False"
| "portable (GUint32 v) = True"
| "portable (GUint64 v) = small (uint v)"
| "portable (GMap kvs) \<longleftrightarrow> distinct (map fst kvs) \<and> list_all (\<lambda>kv. snd kv \<noteq> GNil) kvs
    \<and> list_all snd (map (map_prod id portable) kvs)"
| "portable (GSlice vs) \<longleftrightarrow> vs \<noteq> [] \<and> list_all (\<lambda>v. v \<noteq> GNil) vs \<and> list_all id (map portable vs)"
| "portable (GOther n) = False"

lemma small_exact: "small i \<Longrightarrow> f64_round (of_int i) = of_int i"
  by (rule f64_round_of_int) (simp add: small_def)

lemma small_i32: "small (sint (w :: i32))"
proof -
  have "- 2147483648 \<le> sint w" "sint w < 2147483648" using sint_range_size [of w] by (simp_all add: word_size)
  then show ?thesis unfolding small_def by arith
qed

lemma small_u32: "small (uint (w :: u32))"
proof -
  have "uint w < 4294967296" "0 \<le> uint w" using unsigned_less [of w, where 'a = int] by simp_all
  then show ?thesis unfolding small_def by arith
qed

lemma int_unat_uint: "(of_nat (unat w) :: rat) = of_int (uint w)"
  unfolding uint_nat by (rule of_int_of_nat_eq [symmetric])

lemma i2f_exact: "small (sint w) \<Longrightarrow> i2f w = of_int (sint w)"
  unfolding i2f_def by (rule small_exact)

lemma u2f_exact: "small (uint w) \<Longrightarrow> u2f w = of_int (uint w)"
  unfolding u2f_def int_unat_uint by (rule small_exact)

lemma small_wrap: "small i \<Longrightarrow> signed_take_bit 63 i = i"
  by (rule signed_take_bit_int_eq_self) (simp_all add: small_def)

lemma uint_as_sint: "small (uint (w :: u64)) \<Longrightarrow> sint w = uint w"
  using small_wrap [of "uint w"] by (simp add: sint_uint)

lemma int64_of_small:
  assumes "int64_ok int64_of" and "small i"
  shows "sint (int64_of i) = i"
proof -
  have "sint (word_of_int i :: i64) = i" using small_wrap [OF assms(2)] by (simp add: signed_of_int)
  then show ?thesis using assms(1) unfolding int64_ok_def by metis
qed

subsection \<open>Tables\<close>

lemma fold_RawSet:
  assumes "distinct (map fst (acc @ es))" and "\<forall>e \<in> set es. snd e \<noteq> LNil"
  shows "fold (\<lambda>(k, v). RawSet k v) es acc = acc @ es"
  using assms
proof (induction es arbitrary: acc)
  case (Cons e es)
  obtain k v where e: "e = (k, v)" by fastforce
  have "RawSet k v acc = acc @ [e]" using Cons.prems e by (auto simp: RawSet_def)
  then show ?case using Cons.IH [of "acc @ [e]"] Cons.prems e by simp
qed simp

lemma fold_RawSet_map:
  assumes "distinct (map fst es)" and "inj key" and "\<forall>e \<in> set es. snd e \<noteq> LNil"
  shows "fold (\<lambda>(k, v). RawSet (key k) v) es [] = map (map_prod key id) es"
proof -
  have "fold (\<lambda>(k, v). RawSet (key k) v) es [] = fold (\<lambda>(k, v). RawSet k v) (map (map_prod key id) es) []"
    by (simp add: fold_map comp_def case_prod_beta')
  also have "\<dots> = [] @ map (map_prod key id) es"
  proof (rule fold_RawSet)
    have "map fst (map (map_prod key id) es) = map key (map fst es)" by simp
    then show "distinct (map fst ([] @ map (map_prod key id) es))"
      using assms(1,2) by (metis append_Nil distinct_map inj_on_subset subset_UNIV)
  qed (use assms(3) in auto)
  finally show ?thesis by simp
qed

definition array_keys :: "nat \<Rightarrow> lkey list" where
  "array_keys n = map (\<lambda>i. KNum (of_nat i)) [1..<Suc n]"

lemma array_keys_simps [simp]: "length (array_keys n) = n" "distinct (array_keys n)"
  by (simp_all add: array_keys_def distinct_map inj_on_def)

lemma array_keys_nth: "i < n \<Longrightarrow> array_keys n ! i = KNum (of_nat (Suc i))"
  by (simp add: array_keys_def del: upt_Suc)

lemma enumerate_zip: "map (map_prod (\<lambda>i. KNum (of_nat (Suc i))) id) (enumerate 0 vs) = zip (array_keys (length vs)) vs"
  by (rule nth_equalityI) (auto simp: nth_enumerate_eq array_keys_nth)

lemma map_of_array:
  assumes "i < length vs"
  shows "map_of (zip (array_keys (length vs)) vs) (KNum (of_nat (Suc i))) = Some (vs ! i)"
  using map_of_zip_nth [of "array_keys (length vs)" vs i] assms by (simp add: array_keys_nth)

lemma maxn_array:
  assumes "maxn_ok maxn"
  shows "maxn (zip (array_keys (length vs)) vs) = length vs"
proof -
  have "{x. KNum x \<in> fst ` set (zip (array_keys (length vs)) vs)} = of_nat ` {1..length vs}"
    unfolding set_map [symmetric] map_fst_zip [of "array_keys (length vs)" vs, simplified]
    by (auto simp: array_keys_def simp del: upt_Suc)
  then show ?thesis using assms unfolding maxn_ok_def by blast
qed

lemma isArray_array:
  assumes "maxn_ok maxn" and "vs \<noteq> []"
  shows "isArray maxn (zip (array_keys (length vs)) vs)"
proof -
  have "map_of (zip (array_keys (length vs)) vs) (KNum (of_nat i)) \<noteq> None" if "1 \<le> i" "i \<le> length vs" for i
  proof -
    have "Suc (i - 1) = i" "i - 1 < length vs" using that by simp_all
    then show ?thesis using map_of_array [of "i - 1" vs] by (metis option.simps(3))
  qed
  moreover have "list_all (\<lambda>e. case fst e of KNum x \<Rightarrow> True | _ \<Rightarrow> False) (zip (array_keys (length vs)) vs)"
    by (auto simp: list_all_iff array_keys_def dest!: set_zip_leftD simp del: upt_Suc)
  ultimately show ?thesis
    using assms by (auto simp: isArray_def Let_def maxn_array list_all_iff simp del: upt_Suc)
qed

lemma slice_array:
  assumes "maxn_ok maxn"
  shows "luaTableToSlice maxn (zip (array_keys (length vs)) vs) = vs"
  by (rule nth_equalityI) (simp_all add: luaTableToSlice_def maxn_array [OF assms] map_of_array del: upt_Suc of_nat_Suc)

lemma not_isArray_strings:
  assumes "maxn_ok maxn"
  shows "\<not> isArray maxn (map (map_prod KStr id) kvs)"
proof -
  have "{x. KNum x \<in> fst ` set (map (map_prod KStr id) kvs)} = of_nat ` {1..0::nat}" by auto
  then have "maxn (map (map_prod KStr id) kvs) = 0" using assms unfolding maxn_ok_def by blast
  then show ?thesis by (simp add: isArray_def)
qed

lemma luaTableToMap_strings: "luaTableToMap (map (map_prod KStr id) kvs) = kvs"
  by (induction kvs) (auto simp: luaTableToMap_def)

subsection \<open>The theorems\<close>

lemma small_unat:
  assumes "small (uint w)"
  shows "(unat w > 9007199254740991) = False" and "(unat w > 9223372036854775807) = False"
proof -
  have "int (unat w) \<le> 9007199254740991" using assms unfolding small_def uint_nat by simp
  then show "(unat w > 9007199254740991) = False" "(unat w > 9223372036854775807) = False"
    unfolding eq_False by linarith+
qed

lemma snds_self: "snd p \<in> Basic_BNFs.snds p"
  by (cases p) simp

lemma sint_of_i32: "sint (scast (w :: i32) :: i64) = sint w"
  by (rule sint_up_scast) (simp add: is_up)

lemma sint_of_u32: "sint (ucast (w :: u32) :: u64) = uint w"
proof -
  have "uint (ucast w :: u64) = uint w" by (rule uint_up_ucast) (simp add: is_up)
  then show ?thesis using uint_as_sint [of "ucast w"] small_u32 [of w] by simp
qed

lemma goToLua_nil: "portable v \<Longrightarrow> goToLua v = LNil \<longleftrightarrow> v = GNil"
  by (cases v) auto

lemma portable_elems:
  "portable (GMap kvs) \<Longrightarrow> kv \<in> set kvs \<Longrightarrow> portable (snd kv) \<and> snd kv \<noteq> GNil"
  "portable (GSlice vs) \<Longrightarrow> v \<in> set vs \<Longrightarrow> portable v \<and> v \<noteq> GNil"
  by (auto simp: list_all_iff)

lemma luaToGo_map:
  assumes "maxn_ok maxn" and p: "portable (GMap kvs)"
  shows "luaToGo maxn (goToLua (GMap kvs)) = GMap (map (map_prod id (\<lambda>v. luaToGo maxn (goToLua v))) kvs)"
proof -
  let ?es = "map (map_prod id goToLua) kvs"
  have "\<forall>e \<in> set ?es. snd e \<noteq> LNil" using portable_elems(1) [OF p] goToLua_nil by fastforce
  moreover have "distinct (map fst ?es)" using p by (simp add: comp_def)
  ultimately have "goToLua (GMap kvs) = LTable (map (map_prod KStr id) ?es)"
    using fold_RawSet_map [of ?es KStr] by (simp add: inj_def)
  moreover have "map (map_prod id (luaToGo maxn)) (map (map_prod KStr id) ?es)
      = map (map_prod KStr id) (map (map_prod id (\<lambda>v. luaToGo maxn (goToLua v))) kvs)"
    by (simp add: map_prod_def case_prod_beta')
  ultimately show ?thesis
    using not_isArray_strings [OF assms(1)] luaTableToMap_strings by (simp only: luaToGo.simps Let_def if_False)
qed

lemma luaToGo_slice:
  assumes "maxn_ok maxn" and p: "portable (GSlice vs)"
  shows "luaToGo maxn (goToLua (GSlice vs)) = GSlice (map (\<lambda>v. luaToGo maxn (goToLua v)) vs)"
proof -
  let ?ls = "map goToLua vs" and ?gs = "map (\<lambda>v. luaToGo maxn (goToLua v)) vs"
  have "\<forall>e \<in> set (enumerate 0 ?ls). snd e \<noteq> LNil"
    using portable_elems(2) [OF p] goToLua_nil by (fastforce simp: in_set_enumerate_eq)
  then have "fold (\<lambda>(k, v). RawSet (KNum (of_nat (Suc k))) v) (enumerate 0 ?ls) [] = zip (array_keys (length ?ls)) ?ls"
    unfolding enumerate_zip [symmetric] by (rule fold_RawSet_map [rotated 2]) (simp_all add: inj_def)
  then have "goToLua (GSlice vs) = LTable (zip (array_keys (length vs)) ?ls)" by simp
  moreover have "map (map_prod id (luaToGo maxn)) (zip (array_keys (length vs)) ?ls) = zip (array_keys (length ?gs)) ?gs"
    by (simp add: zip_map2 comp_def map_prod_def case_prod_beta')
  moreover have "isArray maxn (zip (array_keys (length ?gs)) ?gs)"
    by (rule isArray_array [OF assms(1)]) (use p in simp)
  ultimately show ?thesis
    using slice_array [OF assms(1), of ?gs] by (simp only: luaToGo.simps Let_def if_True)
qed

lemma lua_survives:
  assumes "maxn_ok maxn"
  shows "portable v \<Longrightarrow> plain (luaToGo maxn (goToLua v)) = plain v"
proof (induction v)
  case (GMap kvs)
  have "plain (luaToGo maxn (goToLua (snd kv))) = plain (snd kv)" if "kv \<in> set kvs" for kv
    by (rule GMap.IH [OF that snds_self]) (use portable_elems(1) [OF GMap.prems that] in simp)
  then show ?case unfolding luaToGo_map [OF assms GMap.prems] by (simp add: map_prod_def case_prod_beta')
next
  case (GSlice vs)
  have "plain (luaToGo maxn (goToLua v)) = plain v" if "v \<in> set vs" for v
    using GSlice.IH that portable_elems(2) [OF GSlice.prems that] by blast
  then show ?case unfolding luaToGo_slice [OF assms GSlice.prems] by simp
next
  case (GInt64 v)
  then show ?case by (auto simp: i2f_exact small_def)
next
  case (GUint64 v)
  then have "goToLua (GUint64 v) = LNumber (u2f v)" using small_unat [of v] by (simp only: goToLua.simps portable.simps if_False)
  then show ?case using GUint64 by (simp only: luaToGo.simps plain.simps portable.simps u2f_exact)
qed (simp_all add: i2f_exact u2f_exact small_i32 small_u32)

lemma tengo_survives: "portable v \<Longrightarrow> plain (tengoToGo (goToTengo obj v)) = plain v"
proof (induction v)
  case (GMap kvs)
  have "plain (tengoToGo (goToTengo obj (snd kv))) = plain (snd kv)" if "kv \<in> set kvs" for kv
    by (rule GMap.IH [OF that snds_self]) (use portable_elems(1) [OF GMap.prems that] in simp)
  then show ?case by (simp add: map_prod_def case_prod_beta')
next
  case (GSlice vs)
  then show ?case using portable_elems(2) [OF GSlice.prems] by simp
next
  case (GUint64 v)
  then have "goToTengo obj (GUint64 v) = TInt v" using small_unat [of v] by (simp only: goToTengo.simps portable.simps if_False)
  then show ?case using GUint64 by (simp only: tengoToGo.simps plain.simps portable.simps uint_as_sint)
qed (simp_all add: uint_as_sint sint_of_i32 sint_of_u32)

lemma starlark_survives:
  assumes "int64_ok int64_of"
  shows "portable v \<Longrightarrow> plain (starlarkToGo int64_of (goToStarlark v)) = plain v"
proof (induction v)
  case (GMap kvs)
  have ih: "plain (starlarkToGo int64_of (goToStarlark (snd kv))) = plain (snd kv)" if "kv \<in> set kvs" for kv
    by (rule GMap.IH [OF that snds_self]) (use portable_elems(1) [OF GMap.prems that] in simp)
  have "starlarkToGo int64_of (goToStarlark (GMap kvs))
      = GMap (map (map_prod id (\<lambda>v. starlarkToGo int64_of (goToStarlark v))) kvs)"
    by (induction kvs) auto
  then show ?case using ih by (simp add: map_prod_def case_prod_beta')
next
  case (GSlice vs)
  then show ?case using portable_elems(2) [OF GSlice.prems] by simp
qed (simp_all add: int64_of_small [OF assms] small_i32 small_u32)

text \<open>Claim C15: A value that every engine can represent survives the trip through any of them: what
  a Lua, Tengo or Starlark script receives and hands back unchanged is, number for number and text
  for text, the value Go passed in, containers included.\<close>

theorem values_survive_scripts:
  assumes "portable v" and "maxn_ok maxn" and "int64_ok int64_of"
  shows "plain (luaToGo maxn (goToLua v)) = plain v
    \<and> plain (tengoToGo (goToTengo obj v)) = plain v
    \<and> plain (starlarkToGo int64_of (goToStarlark v)) = plain v"
  using lua_survives [OF assms(2,1)] tengo_survives [OF assms(1)] starlark_survives [OF assms(3,1)] by blast

lemma maxn_ok_exists: "\<exists>maxn. maxn_ok maxn"
proof -
  define maxn :: "(lkey \<times> gval) list \<Rightarrow> nat" where
    "maxn es = card {x. KNum x \<in> fst ` set es}" for es
  have "card ((of_nat :: nat \<Rightarrow> f64) ` {1..n}) = n" for n by (simp add: card_image inj_on_def)
  then have "maxn_ok maxn" unfolding maxn_ok_def maxn_def by metis
  then show ?thesis by blast
qed

theorem values_survive_scripts_witness:
  "portable (GMap [(''hp'', GInt 7), (''bag'', GSlice [GString ''sword''])])
   \<and> plain (tengoToGo (goToTengo (\<lambda>_. False) (GMap [(''hp'', GInt 7), (''bag'', GSlice [GString ''sword''])])))
     = GMap [(''hp'', GFloat64 7), (''bag'', GSlice [GString ''sword''])]"
proof -
  let ?v = "GMap [(''hp'', GInt 7), (''bag'', GSlice [GString ''sword''])]"
  have p: "portable ?v" by (simp add: small_def)
  obtain maxn where m: "maxn_ok maxn" using maxn_ok_exists by blast
  have i: "int64_ok word_of_int" by (simp add: int64_ok_def)
  show ?thesis using p values_survive_scripts [OF p m i, of "\<lambda>_. False"] by simp
qed

text \<open>Lua loses no 64-bit identifier: an \<open>int64\<close> or \<open>uint64\<close> comes back as that number
  exactly or as its decimal text, so distinct ones stay distinct.\<close>

theorem lua_int64_exact:
  "(luaToGo maxn (goToLua (GInt64 v)) = luaToGo maxn (goToLua (GInt64 w)) \<longleftrightarrow> v = w)
   \<and> (luaToGo maxn (goToLua (GUint64 v)) = luaToGo maxn (goToLua (GUint64 w)) \<longleftrightarrow> v = w)"
proof -
  have i: "luaToGo maxn (goToLua (GInt64 v)) =
      (if small (sint v) then GFloat64 (of_int (sint v)) else GString (FormatInt v))" for v
    by (auto simp: small_def i2f_exact)
  have u: "luaToGo maxn (goToLua (GUint64 v)) =
      (if small (uint v) then GFloat64 (of_int (uint v)) else GString (FormatUint v))" for v
  proof (cases "small (uint v)")
    case True
    then have "goToLua (GUint64 v) = LNumber (u2f v)" using small_unat [of v] by (simp only: goToLua.simps if_False)
    then show ?thesis using True by (simp only: luaToGo.simps u2f_exact if_True)
  next
    case False
    then have "\<not> int (unat v) \<le> 9007199254740991" unfolding small_def uint_nat by linarith
    then have "9007199254740991 < unat v" by linarith
    then have "goToLua (GUint64 v) = LString (FormatUint v)" by (simp only: goToLua.simps if_True)
    then show ?thesis using False by (simp only: luaToGo.simps if_False)
  qed
  have "luaToGo maxn (goToLua (GInt64 v)) = luaToGo maxn (goToLua (GInt64 w)) \<longleftrightarrow> v = w"
    unfolding i by (auto simp: FormatInt_inj intro: signed_word_eqI)
  moreover have "luaToGo maxn (goToLua (GUint64 v)) = luaToGo maxn (goToLua (GUint64 w)) \<longleftrightarrow> v = w"
    unfolding u by (auto simp: FormatUint_def intro: unsigned_word_eqI)
  ultimately show ?thesis by blast
qed

text \<open>A plain \<open>int\<close> has no such guard: 2\<open>^53\<close> and 2\<open>^53 + 1\<close> arrive as the same number.\<close>

lemma lua_int_collides: "goToLua (GInt 9007199254740992) = goToLua (GInt 9007199254740993)"
proof -
  have "i2f (9007199254740992 :: i64) = i2f (9007199254740993 :: i64)" by code_simp
  then show ?thesis by simp
qed

text \<open>A slice with a hole comes back as a map without entries.\<close>

lemma lua_slice_hole:
  assumes "maxn [(KNum 1, GFloat64 1), (KNum 3, GFloat64 1)] = 3"
  shows "luaToGo maxn (goToLua (GSlice [GFloat64 1, GNil, GFloat64 1])) = GMap []"
  using assms by (simp add: RawSet_def isArray_def luaTableToMap_def numeral_3_eq_3 enumerate_eq_zip)

text \<open>Tengo wraps what Go hands over as \<open>uint\<close>, but not as \<open>uint64\<close>.\<close>

lemma tengo_uint_wraps:
  "goToTengo obj (GUint (- 1)) = TInt (- 1)"
  "goToTengo obj (GUint64 (- 1)) = TString (FormatUint (- 1))"
  by (simp_all add: unsigned_minus_1_eq_mask mask_eq_exp_minus_1)

section \<open>Well-formed values\<close>

text \<open>Tables without nil and without two entries under a key; Go maps with distinct keys.\<close>

primrec wf_lval :: "lval \<Rightarrow> bool" where
  "wf_lval LNil = True"
| "wf_lval (LBool b) = True"
| "wf_lval (LNumber x) = True"
| "wf_lval (LString s) = True"
| "wf_lval (LTable es) \<longleftrightarrow> distinct (map fst es) \<and> list_all (\<lambda>e. snd e \<noteq> LNil) es
    \<and> list_all snd (map (map_prod id wf_lval) es)"
| "wf_lval (LOther n) = True"

primrec wf_gval :: "gval \<Rightarrow> bool" where
  "wf_gval GNil = True" | "wf_gval (GBool b) = True" | "wf_gval (GString s) = True" | "wf_gval (GBytes bs) = True"
| "wf_gval (GFloat64 x) = True" | "wf_gval (GFloat32 x) = True" | "wf_gval (GInt v) = True" | "wf_gval (GInt8 v1) = True"
| "wf_gval (GInt16 v2) = True" | "wf_gval (GInt32 v3) = True" | "wf_gval (GInt64 v) = True" | "wf_gval (GUint v) = True"
| "wf_gval (GUint8 v1) = True" | "wf_gval (GUint16 v2) = True" | "wf_gval (GUint32 v3) = True" | "wf_gval (GUint64 v) = True"
| "wf_gval (GMap kvs) \<longleftrightarrow> distinct (map fst kvs) \<and> list_all snd (map (map_prod id wf_gval) kvs)"
| "wf_gval (GSlice vs) \<longleftrightarrow> list_all id (map wf_gval vs)"
| "wf_gval (GOther n) = True"

definition wf_table :: "(lkey \<times> lval) list \<Rightarrow> bool" where
  "wf_table es \<longleftrightarrow> distinct (map fst es) \<and> (\<forall>e \<in> set es. snd e \<noteq> LNil \<and> wf_lval (snd e))"

lemma wf_LTable: "wf_lval (LTable es) \<longleftrightarrow> wf_table es"
  by (auto simp: wf_table_def list_all_iff)

lemma wf_RawSet:
  assumes "wf_table es" and "wf_lval v"
  shows "wf_table (RawSet k v es)"
proof (cases "v = LNil")
  case True
  then show ?thesis using assms(1) by (auto simp: wf_table_def RawSet_def distinct_map_filter)
next
  case False
  have keys: "map fst (map (\<lambda>e. if fst e = k then (k, v) else e) es) = map fst es" by (induction es) auto
  have "distinct (map fst (map (\<lambda>e. if fst e = k then (k, v) else e) es))"
    unfolding keys using assms(1) by (simp add: wf_table_def)
  then have "wf_table (map (\<lambda>e. if fst e = k then (k, v) else e) es)"
    unfolding wf_table_def using assms False by (auto simp: wf_table_def)
  then show ?thesis using assms False by (auto simp: wf_table_def RawSet_def)
qed

lemma wf_fold_RawSet:
  "\<forall>e \<in> set es. wf_lval (snd e) \<Longrightarrow> wf_table acc \<Longrightarrow> wf_table (fold (\<lambda>(i, v). RawSet (key i) v) es acc)"
proof (induction es arbitrary: acc)
  case (Cons e es)
  then show ?case using wf_RawSet [of acc "snd e" "key (fst e)"] by (cases e) simp
qed simp

lemma wf_goToLua: "wf_lval (goToLua v)"
proof (induction v)
  case (GMap kvs)
  have "wf_lval (goToLua (snd kv))" if "kv \<in> set kvs" for kv by (rule GMap.IH [OF that snds_self])
  then have "wf_table (fold (\<lambda>(k, v). RawSet (KStr k) v) (map (map_prod id goToLua) kvs) [])"
    by (intro wf_fold_RawSet) (auto simp: wf_table_def)
  then show ?case by (simp only: goToLua.simps wf_LTable)
next
  case (GSlice vs)
  have "wf_table (fold (\<lambda>(i, v). RawSet (KNum (of_nat (Suc i))) v) (enumerate 0 (map goToLua vs)) [])"
    by (intro wf_fold_RawSet) (use GSlice.IH in \<open>auto simp: wf_table_def in_set_enumerate_eq\<close>)
  then show ?case by (simp only: goToLua.simps wf_LTable)
qed simp_all

lemma wf_luaTableToMap:
  assumes "distinct (map fst es)" and "\<forall>e \<in> set es. wf_gval (snd e)"
  shows "wf_gval (GMap (luaTableToMap es))"
proof -
  have "distinct (map fst (luaTableToMap es)) \<and> (\<forall>kv \<in> set (luaTableToMap es). KStr (fst kv) \<in> fst ` set es)
      \<and> (\<forall>kv \<in> set (luaTableToMap es). wf_gval (snd kv))"
    using assms
  proof (induction es)
    case (Cons e es)
    obtain k v where e: "e = (k, v)" by fastforce
    have m: "luaTableToMap ((k, v) # es) = (case k of KStr s \<Rightarrow> [(s, v)] | _ \<Rightarrow> []) @ luaTableToMap es"
      by (simp add: luaTableToMap_def)
    have ih: "distinct (map fst (luaTableToMap es))" "\<forall>kv \<in> set (luaTableToMap es). KStr (fst kv) \<in> fst ` set es"
        "\<forall>kv \<in> set (luaTableToMap es). wf_gval (snd kv)"
      using Cons.IH Cons.prems by simp_all
    have k: "k \<notin> fst ` set es" "wf_gval v" using Cons.prems e by auto
    have new: "s \<notin> fst ` set (luaTableToMap es)" if "k = KStr s" for s
    proof
      assume "s \<in> fst ` set (luaTableToMap es)"
      then obtain kv where "kv \<in> set (luaTableToMap es)" "fst kv = s" by blast
      then show False using ih(2) k(1) that by blast
    qed
    show ?case
    proof (cases "\<exists>s. k = KStr s")
      case True
      then obtain s where s: "k = KStr s" by blast
      have "luaTableToMap (e # es) = (s, v) # luaTableToMap es" unfolding e m by (simp add: s)
      then show ?thesis using ih k new [OF s] by (simp add: e s)
    next
      case False
      then have "luaTableToMap (e # es) = luaTableToMap es" unfolding e m by (cases k) simp_all
      then show ?thesis using ih by simp
    qed
  qed (simp add: luaTableToMap_def)
  then show ?thesis by (simp add: list_all_iff)
qed

lemma wf_luaToGo: "wf_lval l \<Longrightarrow> wf_gval (luaToGo maxn l)"
proof (induction l)
  case (LTable es)
  let ?es = "map (map_prod id (luaToGo maxn)) es"
  have t: "distinct (map fst es)" "\<forall>e \<in> set es. wf_lval (snd e)" using LTable.prems by (simp_all add: list_all_iff)
  have "wf_gval (luaToGo maxn (snd e))" if "e \<in> set es" for e
    by (rule LTable.IH [OF that snds_self]) (use t(2) that in blast)
  then have wf: "\<forall>e \<in> set ?es. wf_gval (snd e)" by auto
  have d: "distinct (map fst ?es)" using t(1) by (simp add: comp_def)
  have "wf_gval x" if "map_of ?es k = Some x" for k x
    using wf map_of_SomeD [OF that] by (metis snd_conv)
  then have "wf_gval (case map_of ?es k of None \<Rightarrow> GNil | Some v \<Rightarrow> v)" for k
    by (simp split: option.split)
  then have "wf_gval (GSlice (luaTableToSlice maxn ?es))" by (simp add: luaTableToSlice_def list_all_iff)
  then show ?case using wf_luaTableToMap [OF d wf] by (simp only: luaToGo.simps Let_def split: if_split) blast
qed simp_all



end
