(* ===== verification/ZLua.thy ===== *)
theory ZLua
  imports ZVal
begin

text \<open>
  \<open>zlua/engine.go\<close>: the Lua engine around its pool of virtual machines. A compiled script is a value
  of type \<open>'p\<close>. The interpreter (gopher-lua) is a parameter: whether a script runs in a fresh VM
  (\<open>ok\<close>), and \<open>exec\<close>, the outcome of calling a function in a VM. What the engine keeps about a VM
  is its generation, use count, birth and, as ghost state, the scripts that were run in it and the
  context bound to the global \<open>ctx\<close>. \<open>pk\<close> is the choice of the VM pool, which may also miss.
  Background cleanup, logging and sleeping between attempts are not modelled.
\<close>

datatype 'p load_result = ReadFailed | CompileFailed | Compiled 'p

type_synonym 'p programs = "string \<rightharpoonup> 'p"

record 'p vmWrapper =
  vm_gen :: i64
  useCount :: i32
  bornTime :: int
  vm_loaded :: "'p programs"
  vm_ctx :: "nat option"

record 'p lua_engine =
  programs :: "'p programs"
  globalGen :: i64
  closed :: bool
  vmPool :: "'p vmWrapper list"
  vmCreated :: i64
  vmDestroyed :: i64
  maxVMUseCount :: int
  maxVMAge :: int
  timeout :: int
  stats :: StatsCollector

type_synonym 'p vm_pick = "'p vmWrapper list \<Rightarrow> nat option"

definition remove_at :: "nat \<Rightarrow> 'a list \<Rightarrow> 'a list" where
  "remove_at i xs = take i xs @ drop (Suc i) xs"

definition NewLuaEngine :: "EngineConfig option \<Rightarrow> 'p lua_engine" where
  "NewLuaEngine config =
    (let config = (case config of None \<Rightarrow> DefaultEngineConfig\<lparr>E_Type := EngineTypeLua\<rparr> | Some c \<Rightarrow> c)
     in \<lparr>programs = Map.empty, globalGen = 1, closed = False, vmPool = [], vmCreated = 0, vmDestroyed = 0,
         maxVMUseCount = (if MaxVMUseCount config \<le> 0 then 500 else MaxVMUseCount config),
         maxVMAge = (if MaxVMAge config = 0 then 1800000000000 else MaxVMAge config),
         timeout = Timeout config, stats = NewStatsCollector ''lua''\<rparr>)"

section \<open>Virtual machines\<close>

text \<open>The generation is read first (\<open>g\<close>), the scripts afterwards; \<open>order\<close> is the visit order of the
  map of scripts.\<close>

definition createVM :: "(string \<Rightarrow> bool) \<Rightarrow> string list \<Rightarrow> int \<Rightarrow> i64 \<Rightarrow> 'p lua_engine \<Rightarrow> 'p vmWrapper option \<times> 'p lua_engine" where
  "createVM ok order now g e =
    (if list_all ok order
     then (Some \<lparr>vm_gen = g, useCount = 0, bornTime = now, vm_loaded = programs e, vm_ctx = None\<rparr>,
           e\<lparr>vmCreated := vmCreated e + 1\<rparr>)
     else (None, e))"

fun create_attempts :: "(string \<Rightarrow> bool) list \<Rightarrow> string list \<Rightarrow> int \<Rightarrow> 'p lua_engine \<Rightarrow> 'p vmWrapper option \<times> 'p lua_engine" where
  "create_attempts [] order now e = (None, e)"
| "create_attempts (ok # oks) order now e =
    (case createVM ok order now (globalGen e) e of
       (Some vm, e) \<Rightarrow> (Some vm, e)
     | (None, e) \<Rightarrow> create_attempts oks order now e)"

definition safeCreateVM :: "(nat \<Rightarrow> string \<Rightarrow> bool) \<Rightarrow> string list \<Rightarrow> int \<Rightarrow> 'p lua_engine \<Rightarrow> 'p vmWrapper option \<times> 'p lua_engine" where
  "safeCreateVM ok order now e =
    (if closed e then (None, e) else create_attempts (map ok [0, 1, 2]) order now e)"

definition vm_get :: "'p vm_pick \<Rightarrow> (nat \<Rightarrow> string \<Rightarrow> bool) \<Rightarrow> string list \<Rightarrow> int \<Rightarrow> 'p lua_engine \<Rightarrow> 'p vmWrapper option \<times> 'p lua_engine" where
  "vm_get pk ok order now e =
    (case pk (vmPool e) of
       Some i \<Rightarrow> (if i < length (vmPool e) then (Some (vmPool e ! i), e\<lparr>vmPool := remove_at i (vmPool e)\<rparr>)
                 else safeCreateVM ok order now e)
     | None \<Rightarrow> safeCreateVM ok order now e)"

text \<open>\<open>injectContext\<close>, and the use count taken before.\<close>

definition begin_use :: "nat \<Rightarrow> 'p vmWrapper \<Rightarrow> 'p vmWrapper" where
  "begin_use a vm = vm\<lparr>useCount := useCount vm + 1, vm_ctx := Some a\<rparr>"

text \<open>The deferred end of a call: destroy the VM or put it back.\<close>

definition retire :: "bool \<Rightarrow> int \<Rightarrow> 'p vmWrapper \<Rightarrow> 'p lua_engine \<Rightarrow> bool" where
  "retire failed now vm e \<longleftrightarrow> failed \<or> vm_gen vm \<noteq> globalGen e
     \<or> sint (useCount vm) > sint (word_of_int (maxVMUseCount e) :: i32) \<or> now - bornTime vm > maxVMAge e"

definition finish_use :: "bool \<Rightarrow> int \<Rightarrow> 'p vmWrapper \<Rightarrow> 'p lua_engine \<Rightarrow> 'p lua_engine" where
  "finish_use failed now vm e =
    (if retire failed now vm e then e\<lparr>vmDestroyed := vmDestroyed e + 1\<rparr>
     else e\<lparr>vmPool := vm\<lparr>vm_ctx := None\<rparr> # vmPool e\<rparr>)"

section \<open>Loading\<close>

fun compile_all :: "(string \<Rightarrow> 'p load_result) \<Rightarrow> string list \<Rightarrow> 'p programs \<Rightarrow> script_error + 'p programs" where
  "compile_all src [] ps = Inr ps"
| "compile_all src (p # paths) ps =
    (case src p of
       ReadFailed \<Rightarrow> Inl (ErrScript ''read failed'')
     | CompileFailed \<Rightarrow> Inl (ErrScript ''compile failed'')
     | Compiled c \<Rightarrow> compile_all src paths (ps(p \<mapsto> c)))"

text \<open>The two atomic writes under \<open>writeMu\<close>.\<close>

definition store_programs :: "'p programs \<Rightarrow> 'p lua_engine \<Rightarrow> 'p lua_engine" where
  "store_programs new e = e\<lparr>programs := programs e ++ new\<rparr>"

definition bump_gen :: "'p lua_engine \<Rightarrow> 'p lua_engine" where
  "bump_gen e = e\<lparr>globalGen := globalGen e + 1\<rparr>"

definition loadScriptsInternal :: "(string \<Rightarrow> 'p load_result) \<Rightarrow> string list \<Rightarrow> 'p lua_engine \<Rightarrow> script_error option \<times> 'p lua_engine" where
  "loadScriptsInternal src paths e =
    (if paths = [] then (None, e)
     else (case compile_all src paths Map.empty of
             Inl err \<Rightarrow> (Some err, e)
           | Inr new \<Rightarrow> (None, bump_gen (store_programs new e))))"

definition LoadScript :: "(string \<Rightarrow> 'p load_result) \<Rightarrow> string \<Rightarrow> 'p lua_engine \<Rightarrow> script_error option \<times> 'p lua_engine" where
  "LoadScript src path e = loadScriptsInternal src [path] e"

definition LoadScripts :: "(string \<Rightarrow> 'p load_result) \<Rightarrow> string list \<Rightarrow> 'p lua_engine \<Rightarrow> script_error option \<times> 'p lua_engine" where
  "LoadScripts src paths e = loadScriptsInternal src paths e"

definition ReloadScript :: "int \<Rightarrow> (string \<Rightarrow> 'p load_result) \<Rightarrow> string \<Rightarrow> 'p lua_engine \<Rightarrow> script_error option \<times> 'p lua_engine" where
  "ReloadScript now src path e = loadScriptsInternal src [path] (e\<lparr>stats := RecordReload now (stats e)\<rparr>)"

definition ReloadAllScripts :: "int \<Rightarrow> string list \<Rightarrow> (string \<Rightarrow> 'p load_result) \<Rightarrow> 'p lua_engine \<Rightarrow> script_error option \<times> 'p lua_engine" where
  "ReloadAllScripts now order src e = loadScriptsInternal src order (e\<lparr>stats := RecordReload now (stats e)\<rparr>)"

definition Lua_Close :: "'p lua_engine \<Rightarrow> 'p lua_engine" where
  "Lua_Close e = (if closed e then e else (bump_gen (e\<lparr>closed := True\<rparr>))\<lparr>programs := Map.empty\<rparr>)"

section \<open>Calling\<close>

text \<open>What the interpreter does with a call, and the result \<open>Call\<close> makes of it.\<close>

datatype run_result = RunOk lval | RunErr string | RunPanic

type_synonym 'p interp = "'p vmWrapper \<Rightarrow> ScriptContext \<Rightarrow> string \<Rightarrow> lval list \<Rightarrow> run_result \<times> ScriptContext"

datatype call_result = CallOk gval | CallErr script_error

definition Lua_Call ::
  "((lkey \<times> gval) list \<Rightarrow> nat) \<Rightarrow> 'p interp \<Rightarrow> pick \<Rightarrow> 'p vm_pick \<Rightarrow> (nat \<Rightarrow> string \<Rightarrow> bool) \<Rightarrow> string list \<Rightarrow> int \<Rightarrow> i64 \<Rightarrow> i64
     \<Rightarrow> bool \<Rightarrow> CallParams option \<Rightarrow> string \<Rightarrow> gval list \<Rightarrow> 'p lua_engine \<times> ctx_heap \<Rightarrow> call_result \<times> 'p lua_engine \<times> ctx_heap" where
  "Lua_Call maxn exec cpk pk ok order now millis dur callCtx params function args = (\<lambda>(e, h).
    if closed e then (CallErr (ErrScript ''engine closed''), e, h)
    else if \<not> callCtx then (CallErr ErrValidation, e, h)
    else (case params of
      None \<Rightarrow> (CallErr ErrValidation, e, h)
    | Some p \<Rightarrow>
       (let (a, h) = GetContext cpk millis (P_ActorID p) (P_ActorType p) h;
            h = h\<lparr>ctx_at := (ctx_at h)(a := fill_context p (ctx_at h a))\<rparr>;
            (w, e) = vm_get pk ok order now e
        in case w of
             None \<Rightarrow> (CallErr (ErrScript ''failed to obtain valid VM''),
                      e\<lparr>stats := RecordCall dur False (stats e)\<rparr>, PutContext a h)
           | Some vm \<Rightarrow>
              (let vm = begin_use a vm;
                   (r, c) = exec vm (ctx_at h a) function (map goToLua args);
                   h = h\<lparr>ctx_at := (ctx_at h)(a := c)\<rparr>;
                   (res, failed, timed) = (case r of
                      RunOk v \<Rightarrow> (CallOk (luaToGo maxn v), False, False)
                    | RunErr s \<Rightarrow> (if s = ''context deadline exceeded'' then (CallErr ErrScriptTimeout, True, True)
                                  else (CallErr (ErrScript ''lua execution failed''), True, False))
                    | RunPanic \<Rightarrow> (CallErr (ErrScript ''panic''), True, False));
                   e = (if timed then e\<lparr>stats := RecordTimeout (stats e)\<rparr> else e);
                   e = finish_use failed (now + sint dur) vm e
               in (res, e\<lparr>stats := RecordCall dur failed (stats e)\<rparr>, PutContext a h)))))"

text \<open>\<open>GetStats\<close>: the statistics and the counters \<open>vm_created\<close>, \<open>vm_destroyed\<close>, \<open>vm_active\<close>. The
  files that can still be examined are listed; \<open>stat\<close> tells size and time.\<close>

definition Lua_GetStats :: "(string \<Rightarrow> (i64 \<times> int) option) \<Rightarrow> string list \<Rightarrow> 'p lua_engine
    \<Rightarrow> EngineStats \<times> i64 \<times> i64 \<times> i64 \<times> (string \<times> i64 \<times> int) list" where
  "Lua_GetStats stat order e =
    (GetStats (stats e), vmCreated e, vmDestroyed e, vmCreated e - vmDestroyed e,
     concat (map (\<lambda>path. case stat path of None \<Rightarrow> [] | Some (sz, t) \<Rightarrow> [(path, sz, t)]) order))"

section \<open>Interleavings\<close>

text \<open>The atomic steps of concurrent calls and loads. A state is the engine, the generations read by
  VMs under construction, the VMs in use, the scripts that a load in progress has replaced (between
  its two writes; \<open>writeMu\<close> admits one load at a time), and the number of VMs the pool has dropped.\<close>

record 'p lua_world =
  eng :: "'p lua_engine"
  creating :: "i64 list"
  inUse :: "'p vmWrapper list"
  pending :: "'p programs option"
  dropped :: nat

datatype 'p lua_label = Store "'p programs" | Bump | BeginCreate | EndCreate nat bool int | Take nat nat
  | Finish nat bool int | Drop nat | CloseEngine

fun lua_step :: "'p lua_label \<Rightarrow> 'p lua_world \<Rightarrow> 'p lua_world option" where
  "lua_step (Store new) s =
    (if pending s \<noteq> None then None
     else Some (s\<lparr>eng := store_programs new (eng s), pending := Some (programs (eng s))\<rparr>))"
| "lua_step Bump s =
    (if pending s = None \<or> sint (globalGen (eng s)) \<ge> 2 ^ 63 - 2 then None
     else Some (s\<lparr>eng := bump_gen (eng s), pending := None\<rparr>))"
| "lua_step BeginCreate s =
    (if closed (eng s) then None else Some (s\<lparr>creating := globalGen (eng s) # creating s\<rparr>))"
| "lua_step (EndCreate i good now) s =
    (if i \<ge> length (creating s) then None
     else (case createVM (\<lambda>_. good) [''preload''] now (creating s ! i) (eng s) of
             (None, e) \<Rightarrow> Some (s\<lparr>eng := e, creating := remove_at i (creating s)\<rparr>)
           | (Some vm, e) \<Rightarrow> Some (s\<lparr>eng := e, creating := remove_at i (creating s), inUse := vm # inUse s\<rparr>)))"
| "lua_step (Take i a) s =
    (if i \<ge> length (vmPool (eng s)) then None
     else Some (s\<lparr>eng := (eng s)\<lparr>vmPool := remove_at i (vmPool (eng s))\<rparr>,
                   inUse := begin_use a (vmPool (eng s) ! i) # inUse s\<rparr>))"
| "lua_step (Finish i failed now) s =
    (if i \<ge> length (inUse s) then None
     else Some (s\<lparr>eng := finish_use failed now (inUse s ! i) (eng s), inUse := remove_at i (inUse s)\<rparr>))"
| "lua_step (Drop i) s =
    (if i \<ge> length (vmPool (eng s)) then None
     else Some (s\<lparr>eng := (eng s)\<lparr>vmPool := remove_at i (vmPool (eng s))\<rparr>, dropped := Suc (dropped s)\<rparr>))"
| "lua_step CloseEngine s =
    (if sint (globalGen (eng s)) \<ge> 2 ^ 63 - 2 then None else Some (s\<lparr>eng := Lua_Close (eng s)\<rparr>))"

fun lua_steps :: "'p lua_label list \<Rightarrow> 'p lua_world \<Rightarrow> 'p lua_world option" where
  "lua_steps [] s = Some s"
| "lua_steps (l # ls) s = (case lua_step l s of None \<Rightarrow> None | Some s \<Rightarrow> lua_steps ls s)"

definition lua_init :: "EngineConfig option \<Rightarrow> 'p lua_world" where
  "lua_init config = \<lparr>eng = NewLuaEngine config, creating = [], inUse = [], pending = None, dropped = 0\<rparr>"

text \<open>The invariant: no generation is ahead of the engine's; until the engine is closed, a VM of the
  current generation holds the current scripts (or those a load in progress is replacing); no VM in
  the pool holds a context; every VM that was created is destroyed, pooled, in use or dropped.\<close>

definition vm_fresh :: "'p lua_world \<Rightarrow> 'p vmWrapper \<Rightarrow> bool" where
  "vm_fresh s vm \<longleftrightarrow> vm_gen vm = globalGen (eng s) \<longrightarrow>
     vm_loaded vm = programs (eng s) \<or> pending s = Some (vm_loaded vm)"

definition lua_inv :: "'p lua_world \<Rightarrow> bool" where
  "lua_inv s \<longleftrightarrow>
     (\<forall>g \<in> set (creating s). sint g \<le> sint (globalGen (eng s)))
     \<and> (\<forall>vm \<in> set (vmPool (eng s)) \<union> set (inUse s). sint (vm_gen vm) \<le> sint (globalGen (eng s)))
     \<and> (\<not> closed (eng s) \<longrightarrow> (\<forall>vm \<in> set (vmPool (eng s)) \<union> set (inUse s). vm_fresh s vm))
     \<and> (\<forall>vm \<in> set (vmPool (eng s)). vm_ctx vm = None)
     \<and> vmCreated (eng s) = vmDestroyed (eng s)
         + word_of_nat (length (vmPool (eng s)) + length (inUse s) + dropped s)"

lemma set_remove_at: "set (remove_at i xs) \<subseteq> set xs"
  unfolding remove_at_def by (auto dest: in_set_takeD in_set_dropD)

lemma length_remove_at: "i < length xs \<Longrightarrow> Suc (length (remove_at i xs)) = length xs"
  by (simp add: remove_at_def)

lemma count_remove_at:
  assumes "i < length xs"
  shows "length (filter P xs) = length (filter P (remove_at i xs)) + (if P (xs ! i) then 1 else 0)"
proof -
  have "length (filter P xs) = length (filter P (take i xs @ xs ! i # drop (Suc i) xs))"
    by (simp only: id_take_nth_drop [OF assms, symmetric])
  then show ?thesis by (simp add: remove_at_def)
qed

lemma sint_Suc:
  assumes "sint (g :: i64) < 2 ^ 63 - 2"
  shows "sint (g + 1) = sint g + 1"
proof -
  have "- (2 ^ 63) \<le> sint g" using sint_ge [of g] by simp
  then have "signed_take_bit 63 (sint g + 1) = sint g + 1" using assms by (intro signed_take_bit_int_eq_self) simp_all
  moreover have "sint (word_of_int (sint g + 1) :: i64) = signed_take_bit 63 (sint g + 1)"
    using sint_sbintrunc' [of "sint g + 1", where 'a = 64] by simp
  moreover have "word_of_int (sint g + 1) = g + 1" by simp
  ultimately show ?thesis by (simp only:)
qed

lemma lua_invD:
  assumes "lua_inv s"
  shows "g \<in> set (creating s) \<Longrightarrow> sint g \<le> sint (globalGen (eng s))"
    and "vm \<in> set (vmPool (eng s)) \<union> set (inUse s) \<Longrightarrow> sint (vm_gen vm) \<le> sint (globalGen (eng s))"
    and "\<not> closed (eng s) \<Longrightarrow> vm \<in> set (vmPool (eng s)) \<union> set (inUse s) \<Longrightarrow> vm_fresh s vm"
    and "vm \<in> set (vmPool (eng s)) \<Longrightarrow> vm_ctx vm = None"
    and "vmCreated (eng s) = vmDestroyed (eng s) + word_of_nat (length (vmPool (eng s)) + length (inUse s) + dropped s)"
  using assms unfolding lua_inv_def by blast+

text \<open>Steps that touch neither generation nor scripts keep the invariant when they keep the VMs.\<close>

lemma lua_inv_frame:
  assumes inv: "lua_inv s"
    and same: "globalGen (eng s') = globalGen (eng s)" "programs (eng s') = programs (eng s)"
      "closed (eng s') = closed (eng s)" "pending s' = pending s"
    and cr: "set (creating s') \<subseteq> insert (globalGen (eng s)) (set (creating s))"
    and vms: "\<And>vm. vm \<in> set (vmPool (eng s')) \<union> set (inUse s') \<Longrightarrow>
        (\<exists>vm0 \<in> set (vmPool (eng s)) \<union> set (inUse s). vm_gen vm = vm_gen vm0 \<and> vm_loaded vm = vm_loaded vm0)
        \<or> (vm_gen vm \<in> set (creating s) \<and> vm_loaded vm = programs (eng s))"
    and none: "\<And>vm. vm \<in> set (vmPool (eng s')) \<Longrightarrow> vm_ctx vm = None"
    and bal: "vmCreated (eng s') = vmDestroyed (eng s')
        + word_of_nat (length (vmPool (eng s')) + length (inUse s') + dropped s')"
  shows "lua_inv s'"
proof -
  have "sint g \<le> sint (globalGen (eng s'))" if "g \<in> set (creating s')" for g
    using that cr lua_invD(1) [OF inv] same(1) by fastforce
  moreover have "sint (vm_gen vm) \<le> sint (globalGen (eng s'))" if "vm \<in> set (vmPool (eng s')) \<union> set (inUse s')" for vm
    using vms [OF that] lua_invD(1,2) [OF inv] same(1) by metis
  moreover have "vm_fresh s' vm" if "\<not> closed (eng s')" "vm \<in> set (vmPool (eng s')) \<union> set (inUse s')" for vm
    using vms [OF that(2)]
  proof
    assume "\<exists>vm0 \<in> set (vmPool (eng s)) \<union> set (inUse s). vm_gen vm = vm_gen vm0 \<and> vm_loaded vm = vm_loaded vm0"
    then obtain vm0 where v: "vm0 \<in> set (vmPool (eng s)) \<union> set (inUse s)" "vm_gen vm = vm_gen vm0" "vm_loaded vm = vm_loaded vm0"
      by blast
    have "vm_fresh s vm0" using lua_invD(3) [OF inv _ v(1)] that(1) same(3) by simp
    then show ?thesis unfolding vm_fresh_def v(2,3) same .
  qed (simp add: vm_fresh_def same)
  ultimately show ?thesis using none bal unfolding lua_inv_def by blast
qed

lemma lua_inv_Store:
  assumes inv: "lua_inv s" and st: "lua_step (Store new) s = Some s'"
  shows "lua_inv s'"
proof -
  have p: "pending s = None" and s': "s' = s\<lparr>eng := store_programs new (eng s), pending := Some (programs (eng s))\<rparr>"
    using st by (auto split: if_splits)
  have "vm_fresh s' vm" if "vm_fresh s vm" for vm
    using that p by (auto simp: vm_fresh_def s' store_programs_def)
  then show ?thesis using inv unfolding lua_inv_def by (simp add: s' store_programs_def)
qed

lemma lua_inv_grow:
  assumes inv: "lua_inv s" and g: "sint (globalGen (eng s)) < sint (globalGen (eng s'))"
    and same: "vmPool (eng s') = vmPool (eng s)" "inUse s' = inUse s" "creating s' = creating s" "dropped s' = dropped s"
      "vmCreated (eng s') = vmCreated (eng s)" "vmDestroyed (eng s') = vmDestroyed (eng s)"
  shows "lua_inv s'"
proof -
  have old: "sint (vm_gen vm) < sint (globalGen (eng s'))" if "vm \<in> set (vmPool (eng s)) \<union> set (inUse s)" for vm
    using lua_invD(2) [OF inv that] g by simp
  moreover have "vm_fresh s' vm" if "vm \<in> set (vmPool (eng s)) \<union> set (inUse s)" for vm
    using old [OF that] by (auto simp: vm_fresh_def)
  moreover have "sint h \<le> sint (globalGen (eng s'))" if "h \<in> set (creating s)" for h
    using lua_invD(1) [OF inv that] g by simp
  ultimately show ?thesis using lua_invD(4,5) [OF inv] unfolding lua_inv_def same by (metis less_imp_le)
qed

lemma lua_inv_Finish:
  assumes inv: "lua_inv s" and st: "lua_step (Finish i failed now) s = Some s'"
  shows "lua_inv s'"
proof -
  have i: "i < length (inUse s)"
    and s': "s' = s\<lparr>eng := finish_use failed now (inUse s ! i) (eng s), inUse := remove_at i (inUse s)\<rparr>"
    using st by (auto split: if_splits)
  have mem: "inUse s ! i \<in> set (inUse s)" using i by simp
  have len: "length (inUse s) = Suc (length (remove_at i (inUse s)))" using length_remove_at [OF i] by simp
  show ?thesis
  proof (rule lua_inv_frame [OF inv])
    fix vm assume "vm \<in> set (vmPool (eng s')) \<union> set (inUse s')"
    then consider "vm \<in> set (vmPool (eng s)) \<union> set (inUse s)" | "vm = (inUse s ! i)\<lparr>vm_ctx := None\<rparr>"
      using set_remove_at [of i "inUse s"] by (fastforce simp: s' finish_use_def split: if_splits)
    then show "(\<exists>vm0 \<in> set (vmPool (eng s)) \<union> set (inUse s). vm_gen vm = vm_gen vm0 \<and> vm_loaded vm = vm_loaded vm0)
        \<or> (vm_gen vm \<in> set (creating s) \<and> vm_loaded vm = programs (eng s))"
      using mem by cases (blast, fastforce)
  next
    fix vm assume "vm \<in> set (vmPool (eng s'))"
    then show "vm_ctx vm = None"
      using lua_invD(4) [OF inv] by (auto simp: s' finish_use_def split: if_splits)
  next
    show "vmCreated (eng s') = vmDestroyed (eng s') + word_of_nat (length (vmPool (eng s')) + length (inUse s') + dropped s')"
      using lua_invD(5) [OF inv] unfolding len by (simp add: s' finish_use_def)
  qed (simp_all add: s' finish_use_def subset_insertI)
qed

lemma lua_inv_Take:
  assumes inv: "lua_inv s" and st: "lua_step (Take i a) s = Some s'"
  shows "lua_inv s'"
proof -
  have i: "i < length (vmPool (eng s))"
    and s': "s' = s\<lparr>eng := (eng s)\<lparr>vmPool := remove_at i (vmPool (eng s))\<rparr>, inUse := begin_use a (vmPool (eng s) ! i) # inUse s\<rparr>"
    using st by (auto split: if_splits)
  have mem: "vmPool (eng s) ! i \<in> set (vmPool (eng s))" using i by simp
  have len: "length (vmPool (eng s)) = Suc (length (remove_at i (vmPool (eng s))))" using length_remove_at [OF i] by simp
  show ?thesis
  proof (rule lua_inv_frame [OF inv])
    fix vm assume "vm \<in> set (vmPool (eng s')) \<union> set (inUse s')"
    then consider "vm \<in> set (vmPool (eng s)) \<union> set (inUse s)" | "vm = begin_use a (vmPool (eng s) ! i)"
      using set_remove_at [of i "vmPool (eng s)"] by (fastforce simp: s')
    then show "(\<exists>vm0 \<in> set (vmPool (eng s)) \<union> set (inUse s). vm_gen vm = vm_gen vm0 \<and> vm_loaded vm = vm_loaded vm0)
        \<or> (vm_gen vm \<in> set (creating s) \<and> vm_loaded vm = programs (eng s))"
      using mem by cases (blast, fastforce simp: begin_use_def)
  next
    fix vm assume "vm \<in> set (vmPool (eng s'))"
    then show "vm_ctx vm = None"
      using lua_invD(4) [OF inv] set_remove_at [of i "vmPool (eng s)"] by (auto simp: s')
  next
    show "vmCreated (eng s') = vmDestroyed (eng s') + word_of_nat (length (vmPool (eng s')) + length (inUse s') + dropped s')"
      using lua_invD(5) [OF inv] unfolding len by (simp add: s')
  qed (simp_all add: s' subset_insertI)
qed

lemma lua_inv_Drop:
  assumes inv: "lua_inv s" and st: "lua_step (Drop i) s = Some s'"
  shows "lua_inv s'"
proof -
  have i: "i < length (vmPool (eng s))"
    and s': "s' = s\<lparr>eng := (eng s)\<lparr>vmPool := remove_at i (vmPool (eng s))\<rparr>, dropped := Suc (dropped s)\<rparr>"
    using st by (auto split: if_splits)
  have len: "length (vmPool (eng s)) = Suc (length (remove_at i (vmPool (eng s))))" using length_remove_at [OF i] by simp
  show ?thesis
  proof (rule lua_inv_frame [OF inv])
    fix vm assume "vm \<in> set (vmPool (eng s')) \<union> set (inUse s')"
    then show "(\<exists>vm0 \<in> set (vmPool (eng s)) \<union> set (inUse s). vm_gen vm = vm_gen vm0 \<and> vm_loaded vm = vm_loaded vm0)
        \<or> (vm_gen vm \<in> set (creating s) \<and> vm_loaded vm = programs (eng s))"
      using set_remove_at [of i "vmPool (eng s)"] by (auto simp: s')
  next
    fix vm assume "vm \<in> set (vmPool (eng s'))"
    then show "vm_ctx vm = None"
      using lua_invD(4) [OF inv] set_remove_at [of i "vmPool (eng s)"] by (auto simp: s')
  next
    show "vmCreated (eng s') = vmDestroyed (eng s') + word_of_nat (length (vmPool (eng s')) + length (inUse s') + dropped s')"
      using lua_invD(5) [OF inv] unfolding len by (simp add: s')
  qed (simp_all add: s' subset_insertI)
qed

lemma lua_inv_EndCreate:
  assumes inv: "lua_inv s" and st: "lua_step (EndCreate i good now) s = Some s'"
  shows "lua_inv s'"
proof -
  have i: "i < length (creating s)" using st by (auto split: if_splits)
  have mem: "creating s ! i \<in> set (creating s)" using i by simp
  show ?thesis
  proof (cases good)
    case True
    define vm where "vm = \<lparr>vm_gen = creating s ! i, useCount = 0, bornTime = now, vm_loaded = programs (eng s), vm_ctx = None\<rparr>"
    have s': "s' = s\<lparr>eng := (eng s)\<lparr>vmCreated := vmCreated (eng s) + 1\<rparr>, creating := remove_at i (creating s), inUse := vm # inUse s\<rparr>"
      using st i True by (simp add: createVM_def vm_def)
    show ?thesis
    proof (rule lua_inv_frame [OF inv])
      fix v assume "v \<in> set (vmPool (eng s')) \<union> set (inUse s')"
      then show "(\<exists>vm0 \<in> set (vmPool (eng s)) \<union> set (inUse s). vm_gen v = vm_gen vm0 \<and> vm_loaded v = vm_loaded vm0)
        \<or> (vm_gen v \<in> set (creating s) \<and> vm_loaded v = programs (eng s))"
        using mem by (auto simp: s' vm_def)
    qed (use lua_invD(4,5) [OF inv] set_remove_at [of i "creating s"] in \<open>auto simp: s'\<close>)
  next
    case False
    then have s': "s' = s\<lparr>creating := remove_at i (creating s)\<rparr>" using st i by (simp add: createVM_def)
    show ?thesis
    proof (rule lua_inv_frame [OF inv])
      fix v assume "v \<in> set (vmPool (eng s')) \<union> set (inUse s')"
      then show "(\<exists>vm0 \<in> set (vmPool (eng s)) \<union> set (inUse s). vm_gen v = vm_gen vm0 \<and> vm_loaded v = vm_loaded vm0)
        \<or> (vm_gen v \<in> set (creating s) \<and> vm_loaded v = programs (eng s))"
        by (auto simp: s')
    qed (use lua_invD(4,5) [OF inv] set_remove_at [of i "creating s"] in \<open>auto simp: s'\<close>)
  qed
qed

lemma lua_inv_step:
  assumes inv: "lua_inv s" and st: "lua_step l s = Some s'"
  shows "lua_inv s'"
proof (cases l)
  case Bump
  have p: "pending s \<noteq> None" and b: "sint (globalGen (eng s)) < 2 ^ 63 - 2"
    and s': "s' = s\<lparr>eng := bump_gen (eng s), pending := None\<rparr>"
    using st Bump by (auto split: if_splits)
  show ?thesis by (rule lua_inv_grow [OF inv]) (simp_all add: s' bump_gen_def sint_Suc [OF b])
next
  case BeginCreate
  then have s': "s' = s\<lparr>creating := globalGen (eng s) # creating s\<rparr>" using st by (auto split: if_splits)
  show ?thesis by (rule lua_inv_frame [OF inv]) (use lua_invD(4,5) [OF inv] in \<open>auto simp: s'\<close>)
next
  case CloseEngine
  have b: "sint (globalGen (eng s)) < 2 ^ 63 - 2" and s': "s' = s\<lparr>eng := Lua_Close (eng s)\<rparr>"
    using st CloseEngine by (auto split: if_splits)
  show ?thesis
  proof (cases "closed (eng s)")
    case True
    then show ?thesis using inv by (simp add: s' Lua_Close_def)
  next
    case False
    then show ?thesis
      by (intro lua_inv_grow [OF inv]) (simp_all add: s' Lua_Close_def bump_gen_def sint_Suc [OF b])
  qed
qed (use lua_inv_Store lua_inv_Finish lua_inv_Take lua_inv_Drop lua_inv_EndCreate inv st in blast)+

lemma lua_inv_steps: "lua_inv s \<Longrightarrow> lua_steps ls s = Some s' \<Longrightarrow> lua_inv s'"
  by (induction ls arbitrary: s) (auto split: option.splits dest: lua_inv_step)

lemma lua_inv_init: "lua_inv (lua_init config)"
  by (simp add: lua_inv_def lua_init_def NewLuaEngine_def Let_def)

section \<open>Reloading\<close>

text \<open>VMs of an older generation, alive or under construction, and the calls that end on one.\<close>

definition stale :: "'p lua_world \<Rightarrow> nat" where
  "stale s = length (filter (\<lambda>vm. vm_gen vm \<noteq> globalGen (eng s)) (vmPool (eng s)))
     + length (filter (\<lambda>vm. vm_gen vm \<noteq> globalGen (eng s)) (inUse s))
     + length (filter (\<lambda>g. g \<noteq> globalGen (eng s)) (creating s))"

fun stale_calls :: "'p lua_label list \<Rightarrow> 'p lua_world \<Rightarrow> nat" where
  "stale_calls [] s = 0"
| "stale_calls (l # ls) s =
    (case l of Finish i failed now \<Rightarrow> (if vm_gen (inUse s ! i) \<noteq> globalGen (eng s) then 1 else 0) | _ \<Rightarrow> 0)
     + (case lua_step l s of None \<Rightarrow> 0 | Some s \<Rightarrow> stale_calls ls s)"

definition quiet :: "'p lua_label \<Rightarrow> bool" where
  "quiet l \<longleftrightarrow> (case l of Store _ \<Rightarrow> False | Bump \<Rightarrow> False | CloseEngine \<Rightarrow> False | _ \<Rightarrow> True)"

lemma quiet_frame:
  assumes "quiet l" and "lua_step l s = Some s'"
  shows "globalGen (eng s') = globalGen (eng s)" "programs (eng s') = programs (eng s)" "closed (eng s') = closed (eng s)"
    "pending s' = pending s"
  using assms by (cases l; force simp: quiet_def finish_use_def createVM_def split: if_splits prod.splits option.splits)+

lemma stale_step:
  assumes q: "quiet l" and st: "lua_step l s = Some s'"
  shows "(case l of Finish i failed now \<Rightarrow> (if vm_gen (inUse s ! i) \<noteq> globalGen (eng s) then 1 else 0) | _ \<Rightarrow> 0)
     + stale s' \<le> stale s"
proof (cases l)
  case (EndCreate i good now)
  then have i: "i < length (creating s)" using st by (auto split: if_splits)
  show ?thesis
    using st i count_remove_at [OF i, of "\<lambda>g. g \<noteq> globalGen (eng s)"]
    by (cases good) (auto simp: EndCreate createVM_def stale_def)
next
  case (Take i a)
  then have i: "i < length (vmPool (eng s))" using st by (auto split: if_splits)
  show ?thesis
    using st i count_remove_at [OF i, of "\<lambda>vm. vm_gen vm \<noteq> globalGen (eng s)"]
    by (auto simp: Take stale_def begin_use_def)
next
  case (Drop i)
  then have i: "i < length (vmPool (eng s))" using st by (auto split: if_splits)
  show ?thesis
    using st i count_remove_at [OF i, of "\<lambda>vm. vm_gen vm \<noteq> globalGen (eng s)"]
    by (auto simp: Drop stale_def)
next
  case (Finish i failed now)
  then have i: "i < length (inUse s)" using st by (auto split: if_splits)
  have "vm_gen (inUse s ! i) \<noteq> globalGen (eng s) \<Longrightarrow> retire failed now (inUse s ! i) (eng s)"
    by (simp add: retire_def)
  then show ?thesis
    using st i count_remove_at [OF i, of "\<lambda>vm. vm_gen vm \<noteq> globalGen (eng s)"]
    by (auto simp: Finish stale_def finish_use_def)
qed (use q st in \<open>auto simp: quiet_def stale_def split: if_splits\<close>)

lemma stale_steps:
  "list_all quiet ls \<Longrightarrow> lua_steps ls s = Some s' \<Longrightarrow>
    stale_calls ls s + stale s' \<le> stale s \<and> globalGen (eng s') = globalGen (eng s)
    \<and> programs (eng s') = programs (eng s) \<and> closed (eng s') = closed (eng s) \<and> pending s' = pending s"
proof (induction ls arbitrary: s)
  case (Cons l ls)
  obtain t where t: "lua_step l s = Some t" "lua_steps ls t = Some s'" using Cons.prems(2) by (auto split: option.splits)
  have q: "quiet l" "list_all quiet ls" using Cons.prems(1) by simp_all
  show ?case using Cons.IH [OF q(2) t(2)] stale_step [OF q(1) t(1)] quiet_frame [OF q(1) t(1)] t(1) by simp
qed simp

text \<open>Claim C12: A reload takes effect: in every interleaving of calls and loads, once a load has
  completed and until the next one, a VM of the current generation holds exactly the engine's
  current scripts, and at most as many calls end on an older VM as there were such VMs when the
  load completed, since each of them is destroyed after one call.\<close>

theorem reload_takes_effect:
  assumes "lua_steps ls (lua_init config) = Some s" and "\<not> closed (eng s)" and "pending s = None"
    and "list_all quiet ls'" and "lua_steps ls' s = Some s'"
  shows "(\<forall>vm \<in> set (vmPool (eng s')) \<union> set (inUse s').
      vm_gen vm = globalGen (eng s) \<longrightarrow> vm_loaded vm = programs (eng s)) \<and> stale_calls ls' s + stale s' \<le> stale s"
proof -
  have "lua_inv s'" using lua_inv_steps [OF lua_inv_steps [OF lua_inv_init assms(1)] assms(5)] .
  moreover note same = stale_steps [OF assms(4,5)]
  ultimately have "vm_fresh s' vm" if "vm \<in> set (vmPool (eng s')) \<union> set (inUse s')" for vm
    using lua_invD(3) that assms(2) by metis
  then show ?thesis using same assms(3) unfolding vm_fresh_def by auto
qed

definition demo_run :: "nat lua_label list" where
  "demo_run = [Store [''a'' \<mapsto> 1], Bump, BeginCreate, EndCreate 0 True 0, Store [''a'' \<mapsto> 2], Bump]"

theorem reload_takes_effect_witness:
  "\<exists>s s'. lua_steps demo_run (lua_init None) = Some s \<and> stale s = 1 \<and> lua_steps [Finish 0 False 1] s = Some s'
     \<and> stale_calls [Finish 0 False 1] s = 1 \<and> stale s' = 0"
proof -
  obtain s where s: "lua_steps demo_run (lua_init None) = Some s" "\<not> closed (eng s)" "pending s = None" "stale s = 1"
      "lua_step (Finish 0 False 1) s \<noteq> None" "stale_calls [Finish 0 False 1] s = 1"
    by (simp add: demo_run_def lua_init_def NewLuaEngine_def Let_def store_programs_def bump_gen_def createVM_def stale_def
        remove_at_def DefaultEngineConfig_def)
  obtain s' where s': "lua_steps [Finish 0 False 1] s = Some s'" using s(5) by auto
  have "stale s' = 0"
    using reload_takes_effect [OF s(1,2,3) _ s'] s(4,6) by (simp add: quiet_def)
  then show ?thesis using s s' by blast
qed

text \<open>The VM metrics are exact and the pool is clean: in every interleaving \<open>vm_active\<close> is
  the number of VMs in the pool, in use or silently dropped by the pool, and no VM in the pool still
  refers to the context of a call.\<close>

theorem vm_accounting:
  assumes "lua_steps ls (lua_init config) = Some s"
  shows "vmCreated (eng s) - vmDestroyed (eng s)
      = word_of_nat (length (vmPool (eng s)) + length (inUse s) + dropped s)
    \<and> vm_ctx ` set (vmPool (eng s)) \<subseteq> {None}"
proof -
  note inv = lua_inv_steps [OF lua_inv_init assms]
  show ?thesis using lua_invD(4,5) [OF inv] by (auto simp: algebra_simps)
qed

theorem vm_accounting_witness:
  "\<exists>s. lua_steps demo_run (lua_init None) = Some s \<and> vmCreated (eng s) - vmDestroyed (eng s) = 1"
proof -
  obtain s where s: "lua_steps demo_run (lua_init None) = Some s"
      "length (vmPool (eng s)) + length (inUse s) + dropped s = 1"
    by (simp add: demo_run_def lua_init_def NewLuaEngine_def Let_def store_programs_def bump_gen_def createVM_def
        remove_at_def DefaultEngineConfig_def)
  show ?thesis using vm_accounting [OF s(1)] s by auto
qed

section \<open>Loading is atomic\<close>

lemma compile_all_spec:
  "compile_all src paths ps =
    (if list_all (\<lambda>p. \<exists>c. src p = Compiled c) paths
     then Inr (\<lambda>p. if p \<in> set paths then (case src p of Compiled c \<Rightarrow> Some c | _ \<Rightarrow> None) else ps p)
     else Inl (case the (find (\<lambda>p. \<not> (\<exists>c. src p = Compiled c)) paths) of p \<Rightarrow>
         (if src p = ReadFailed then ErrScript ''read failed'' else ErrScript ''compile failed'')))"
  by (induction paths arbitrary: ps) (auto split: load_result.splits simp: fun_eq_iff)

text \<open>Loading a batch of scripts is atomic: it fails exactly when some file cannot be read
  or compiled, and then the engine is unchanged; otherwise exactly the named scripts are replaced and
  the generation advances.\<close>

theorem lua_load_atomic:
  assumes "paths \<noteq> []"
  shows "if list_all (\<lambda>p. \<exists>c. src p = Compiled c) paths
    then fst (LoadScripts src paths e) = None
       \<and> programs (snd (LoadScripts src paths e))
         = (\<lambda>p. if p \<in> set paths then (case src p of Compiled c \<Rightarrow> Some c | _ \<Rightarrow> None) else programs e p)
       \<and> globalGen (snd (LoadScripts src paths e)) = globalGen e + 1
    else fst (LoadScripts src paths e) \<noteq> None \<and> snd (LoadScripts src paths e) = e"
  using assms
  by (auto simp: LoadScripts_def loadScriptsInternal_def compile_all_spec store_programs_def bump_gen_def map_add_def
      fun_eq_iff list_all_iff split: option.splits load_result.splits)

theorem lua_load_atomic_witness:
  "snd (LoadScripts (\<lambda>p. if p = ''a'' then Compiled 1 else ReadFailed) [''a'', ''b''] (NewLuaEngine None))
    = (NewLuaEngine None :: nat lua_engine)"
  using lua_load_atomic [of "[''a'', ''b'']" "\<lambda>p. if p = ''a'' then Compiled (1 :: nat) else ReadFailed" "NewLuaEngine None"]
  by simp

section \<open>A whole call\<close>

lemma vm_get_stats [simp]:
  "vm_get pk ok order now e = (w, e') \<Longrightarrow> stats e' = stats e"
proof -
  have att: "create_attempts oks order now e = (w, e') \<Longrightarrow> stats e' = stats e" for oks w and e e' :: "'p lua_engine"
    by (induction oks arbitrary: e) (auto simp: createVM_def split: prod.splits option.splits if_splits)
  show "vm_get pk ok order now e = (w, e') \<Longrightarrow> stats e' = stats e"
    by (auto simp: vm_get_def safeCreateVM_def split: option.splits if_splits dest: att simp del: create_attempts.simps)
qed

lemma ctx_inv_put_back:
  assumes "ctx_inv [] h" and "pick_ok pk" and "GetContext pk now i t h = (a, h1)"
  shows "ctx_inv [] (PutContext a (h1\<lparr>ctx_at := (ctx_at h1)(a := c)\<rparr>))"
proof -
  have inv: "distinct (ctx_pool h)" "\<forall>b \<in> set (ctx_pool h). b < ctx_next h" "\<forall>b \<in> set (ctx_pool h). ctx_clean (ctx_at h b)"
    using assms(1) by (simp_all add: ctx_inv_def)
  have clean: "ctx_clean (ctx_reset c)" for c by (simp add: ctx_clean_def ctx_reset_def)
  from GetContext_cases [OF assms(3,2)] show ?thesis
  proof
    assume g: "a \<in> set (ctx_pool h) \<and> ctx_pool h1 = remove1 a (ctx_pool h) \<and> ctx_next h1 = ctx_next h
      \<and> ctx_at h1 = (ctx_at h)(a := ctx_init now i t (ctx_at h a))"
    then show ?thesis using inv clean by (auto simp: ctx_inv_def PutContext_def)
  next
    assume g: "a = ctx_next h \<and> ctx_pool h1 = ctx_pool h \<and> ctx_next h1 = Suc (ctx_next h)
      \<and> ctx_at h1 = (ctx_at h)(a := ctx_init now i t ctx_zero)"
    have "a \<notin> set (ctx_pool h)" using g inv(2) by blast
    then show ?thesis using g inv clean by (auto simp: ctx_inv_def PutContext_def less_Suc_eq)
  qed
qed

lemma RecordCall_counts [simp]:
  "callCount (RecordCall d e c) = callCount c + 1"
  "errorCount (RecordCall d e c) = errorCount c + (if e then 1 else 0)"
  "callCount (RecordTimeout c) = callCount c" "errorCount (RecordTimeout c) = errorCount c"
  by (simp_all add: RecordCall_def RecordTimeout_def Let_def)

lemma finish_use_stats [simp]: "stats (finish_use failed now vm e) = stats e"
  by (simp add: finish_use_def)

lemma Lua_Call_rejects:
  "closed e \<or> \<not> callCtx \<or> params = None \<Longrightarrow>
    Lua_Call maxn exec cpk pk ok order now millis dur callCtx params function args (e, h)
      = (CallErr (if closed e then ErrScript ''engine closed'' else ErrValidation), e, h)"
  by (cases "closed e"; cases callCtx; cases params) (simp_all add: Lua_Call_def)

text \<open>A Lua call cleans up after itself whatever the script does, a panic or a timeout
  included: the context goes back to its pool, reset; a call that passed validation is counted once,
  and as an error exactly when a VM was obtained and the script failed; a failed call never puts its
  VM back; a call that did not pass validation changes nothing.\<close>

theorem lua_call_cleans_up:
  assumes "ctx_inv [] h" and "pick_ok cpk"
    and "Lua_Call maxn exec cpk pk ok order now millis dur callCtx params function args (e, h) = (r, e', h')"
  shows "ctx_inv [] h'
    \<and> (if closed e \<or> \<not> callCtx \<or> params = None then e' = e \<and> h' = h \<and> (\<exists>err. r = CallErr err)
       else callCount (stats e') = callCount (stats e) + 1
         \<and> errorCount (stats e') = errorCount (stats e)
             + (if (\<exists>err. r = CallErr err) \<and> fst (vm_get pk ok order now e) \<noteq> None then 1 else 0)
         \<and> ((\<exists>err. r = CallErr err) \<longrightarrow> vmPool e' = vmPool (snd (vm_get pk ok order now e))))"
proof (cases "closed e \<or> \<not> callCtx \<or> params = None")
  case True
  then show ?thesis using assms(1,3) unfolding Lua_Call_rejects [OF True] by auto
next
  case False
  then obtain p where p: "params = Some p" "\<not> closed e" callCtx by auto
  obtain a h1 where g: "GetContext cpk millis (P_ActorID p) (P_ActorType p) h = (a, h1)" by fastforce
  note restored = ctx_inv_put_back [OF assms(1,2) g]
  obtain w e1 where w: "vm_get pk ok order now e = (w, e1)" by fastforce
  show ?thesis
  proof (cases w)
    case None
    then show ?thesis
      using assms(3) restored [of "fill_context p (ctx_at h1 a)"] p g w by (auto simp: Lua_Call_def)
  next
    case (Some vm)
    obtain o1 c where x: "exec (begin_use a vm) (fill_context p (ctx_at h1 a)) function (map goToLua args) = (o1, c)" by fastforce
    show ?thesis
      using assms(3) restored [of c] p g w Some x
      by (auto simp: Lua_Call_def Let_def finish_use_def retire_def split: run_result.splits if_splits)
  qed
qed

theorem lua_call_cleans_up_witness:
  "errorCount (stats (fst (snd (Lua_Call (\<lambda>_. 0) (\<lambda>vm c f args. (RunPanic, c)) (\<lambda>_. None) (\<lambda>_. None) (\<lambda>_ _. True) [] 0 0 5 True
      (Some \<lparr>P_ActorID = 1, P_ActorType = 2, P_Owner = GNil, P_TraceID = 0, P_MsgID = 7, P_AuthID = 9,
         P_MsgData = GNil, P_Metadata = None\<rparr>) ''f'' []
      (NewLuaEngine None :: nat lua_engine, \<lparr>ctx_at = (\<lambda>_. ctx_zero), ctx_pool = [], ctx_next = 0\<rparr>))))) = 1"
proof -
  let ?p = "\<lparr>P_ActorID = 1, P_ActorType = 2, P_Owner = GNil, P_TraceID = 0, P_MsgID = 7, P_AuthID = 9,
         P_MsgData = GNil, P_Metadata = None\<rparr>"
  let ?h = "\<lparr>ctx_at = (\<lambda>_. ctx_zero), ctx_pool = [], ctx_next = 0\<rparr>"
  let ?e = "NewLuaEngine None :: nat lua_engine"
  let ?call = "Lua_Call (\<lambda>_. 0) (\<lambda>vm c f args. (RunPanic, c)) (\<lambda>_. None) (\<lambda>_. None) (\<lambda>_ _. True) [] 0 0 5 True (Some ?p) ''f'' [] (?e, ?h)"
  obtain r e' h' where c: "?call = (r, e', h')" by (metis prod_cases3)
  have inv: "ctx_inv [] ?h" "pick_ok (\<lambda>_. None)" by (simp_all add: ctx_inv_def pick_ok_def)
  have e: "closed ?e = False" "errorCount (stats ?e) = 0"
    "fst (vm_get (\<lambda>_. None) (\<lambda>_ _. True) [] 0 ?e) \<noteq> None"
    by (simp_all add: NewLuaEngine_def Let_def NewStatsCollector_def vm_get_def safeCreateVM_def createVM_def)
  have r: "\<exists>err. r = CallErr err"
    using c by (auto simp: Lua_Call_def Let_def e vm_get_def safeCreateVM_def createVM_def split: prod.splits if_splits)
  show ?thesis using lua_call_cleans_up [OF inv c] e r by (simp add: c)
qed

end
