(* ===== verification/ZJs.thy ===== *)
theory ZJs
  imports ZLua
begin

text \<open>
  \<open>zjs/engine.go\<close>: the JavaScript engine: the pool of VMs, the shared context of a VM, loading and
  reloading, and \<open>require\<close> with its path sandbox. The interpreter (goja) is a parameter, as are the
  file system (\<open>src\<close> says what reading and compiling a path gives) and the working directory.
  \<open>filepath\<close> is modelled on slash-separated paths. Exported module objects are numbers.
  A module required by a running script changes \<open>modulePrograms\<close> in a step of its own.
\<close>

section \<open>Paths\<close>

fun join_path :: "string list \<Rightarrow> string" where
  "join_path [] = []"
| "join_path [c] = c"
| "join_path (c # cs) = c @ CHR ''/'' # join_path cs"

definition IsAbs :: "string \<Rightarrow> bool" where "IsAbs s \<longleftrightarrow> HasPrefix s ''/''"

text \<open>The components that remain: empty ones and dots vanish, \<open>..\<close> takes the last one away. At the
  root it vanishes, at the start of a relative path it stays. The stack is kept reversed.\<close>

fun clean_comps :: "bool \<Rightarrow> string list \<Rightarrow> string list \<Rightarrow> string list" where
  "clean_comps rooted st [] = rev st"
| "clean_comps rooted st (c # cs) =
    (if c = [] \<or> c = ''.'' then clean_comps rooted st cs
     else if c = ''..'' then
       (if st \<noteq> [] \<and> hd st \<noteq> ''..'' then clean_comps rooted (tl st) cs
        else if rooted then clean_comps rooted st cs else clean_comps rooted (c # st) cs)
     else clean_comps rooted (c # st) cs)"

definition comps :: "string \<Rightarrow> string list" where "comps s = clean_comps (IsAbs s) [] (Split (CHR ''/'') s)"

definition Clean :: "string \<Rightarrow> string" where
  "Clean s = (if IsAbs s then CHR ''/'' # join_path (comps s)
     else if comps s = [] then ''.'' else join_path (comps s))"

definition Join :: "string \<Rightarrow> string \<Rightarrow> string" where
  "Join a b = (if a = [] then (if b = [] then [] else Clean b)
     else if b = [] then Clean a else Clean (a @ CHR ''/'' # b))"

definition Abs :: "string option \<Rightarrow> string \<Rightarrow> string option" where
  "Abs cwd s = (if IsAbs s then Some (Clean s) else (case cwd of None \<Rightarrow> None | Some d \<Rightarrow> Some (Join d s)))"

fun strip_common :: "string list \<Rightarrow> string list \<Rightarrow> string list \<times> string list" where
  "strip_common (b # bs) (t # ts) = (if b = t then strip_common bs ts else (b # bs, t # ts))"
| "strip_common bs ts = (bs, ts)"

text \<open>\<open>Rel\<close>, between rooted paths.\<close>

definition Rel :: "string \<Rightarrow> string \<Rightarrow> string option" where
  "Rel base targ =
    (if IsAbs base \<and> IsAbs targ
     then (let (bs, ts) = strip_common (comps base) (comps targ); r = replicate (length bs) ''..'' @ ts
           in Some (if r = [] then ''.'' else join_path r))
     else None)"

section \<open>State\<close>

record 'p js_vm =
  j_gen :: i64
  j_useCount :: i32
  j_born :: int
  j_loaded :: "'p programs"
  sharedCtx :: ScriptContext
  moduleCache :: "string \<rightharpoonup> nat"
  j_module :: nat
  j_exports :: nat
  nextObj :: nat

record 'p js_engine =
  j_programs :: "'p programs"
  modulePrograms :: "'p programs"
  j_globalGen :: i64
  j_closed :: bool
  j_vmPool :: "'p js_vm list"
  scriptDirAbs :: string
  allowRequireWithoutScriptDir :: bool
  j_vmCreated :: i64
  j_vmDestroyed :: i64
  j_maxVMUseCount :: int
  j_maxVMAge :: int
  j_timeout :: int
  j_stats :: StatsCollector

definition NewJsEngine :: "string option \<Rightarrow> EngineConfig option \<Rightarrow> 'p js_engine" where
  "NewJsEngine cwd config =
    (let config = (case config of None \<Rightarrow> DefaultEngineConfig\<lparr>E_Type := EngineTypeJS\<rparr> | Some c \<Rightarrow> c)
     in \<lparr>j_programs = Map.empty, modulePrograms = Map.empty, j_globalGen = 1, j_closed = False, j_vmPool = [],
         scriptDirAbs = (if ScriptDir config \<noteq> []
            then (case Abs cwd (ScriptDir config) of None \<Rightarrow> [] | Some d \<Rightarrow> Clean d) else []),
         allowRequireWithoutScriptDir = AllowRequireWithoutScriptDir config, j_vmCreated = 0, j_vmDestroyed = 0,
         j_maxVMUseCount = (if MaxVMUseCount config \<le> 0 then 500 else MaxVMUseCount config),
         j_maxVMAge = (if MaxVMAge config = 0 then 1800000000000 else MaxVMAge config),
         j_timeout = Timeout config, j_stats = NewStatsCollector ''javascript''\<rparr>)"

section \<open>Require\<close>

definition isUnderScriptDir :: "'p js_engine \<Rightarrow> string \<Rightarrow> bool" where
  "isUnderScriptDir e absPath =
    (if scriptDirAbs e = [] then False
     else (case Rel (scriptDirAbs e) absPath of
             None \<Rightarrow> False
           | Some rel \<Rightarrow>
              (let rel = Clean rel in if rel = ''.'' then True else rel \<noteq> ''..'' \<and> \<not> HasPrefix rel ''../'')))"

definition resolveRequireAbsPath :: "string option \<Rightarrow> 'p js_engine \<Rightarrow> string \<Rightarrow> script_error + string" where
  "resolveRequireAbsPath cwd e rawPath =
    (if scriptDirAbs e = [] then
       (if \<not> allowRequireWithoutScriptDir e then Inl (ErrScript ''require: ScriptDir is empty'')
        else (case Abs cwd rawPath of Some a \<Rightarrow> Inr a | None \<Rightarrow> Inr rawPath))
     else
       (let abs1 = Clean (if IsAbs rawPath then rawPath else Join (scriptDirAbs e) rawPath);
            abs1 = (case Abs cwd abs1 of Some a \<Rightarrow> a | None \<Rightarrow> abs1)
        in if \<not> isUnderScriptDir e abs1 then Inl (ErrScript ''require: path outside ScriptDir'') else Inr abs1))"

text \<open>\<open>run\<close> executes a module in the VM: whether it succeeded, \<open>module.exports\<close> after it, the VM.
  When it fails, \<open>require\<close> throws at once.\<close>

definition js_require ::
  "string option \<Rightarrow> (string \<Rightarrow> 'p load_result) \<Rightarrow> ('p \<Rightarrow> 'p js_vm \<Rightarrow> bool \<times> nat \<times> 'p js_vm) \<Rightarrow> string option
     \<Rightarrow> 'p js_engine \<Rightarrow> 'p js_vm \<Rightarrow> (script_error + nat) \<times> 'p js_engine \<times> 'p js_vm" where
  "js_require cwd src run arg e vm =
    (case arg of
       None \<Rightarrow> (Inl (ErrScript ''require: missing path''), e, vm)
     | Some rawPath \<Rightarrow>
        (case resolveRequireAbsPath cwd e rawPath of
           Inl err \<Rightarrow> (Inl err, e, vm)
         | Inr path \<Rightarrow>
            (case moduleCache vm path of
               Some obj \<Rightarrow> (Inr obj, e, vm)
             | None \<Rightarrow>
                (case (case modulePrograms e path of
                         Some prog \<Rightarrow> Inr (prog, e)
                       | None \<Rightarrow> (case src path of
                            ReadFailed \<Rightarrow> Inl (ErrScript ''require: failed to read'')
                          | CompileFailed \<Rightarrow> Inl (ErrScript ''require: compile failed'')
                          | Compiled prog \<Rightarrow> Inr (prog, e\<lparr>modulePrograms := (modulePrograms e)(path \<mapsto> prog)\<rparr>))) of
                   Inl err \<Rightarrow> (Inl err, e, vm)
                 | Inr (prog, e) \<Rightarrow>
                    (let moduleObj = nextObj vm; exportsObj = Suc moduleObj;
                         oldModule = j_module vm; oldExports = j_exports vm;
                         vm = vm\<lparr>nextObj := moduleObj + 2, moduleCache := (moduleCache vm)(path \<mapsto> exportsObj),
                                 j_module := moduleObj, j_exports := exportsObj\<rparr>;
                         (good, finalExports, vm) = run prog vm
                     in if \<not> good then (Inl (ErrScript ''require: execution failed''), e, vm)
                        else (Inr finalExports, e,
                              vm\<lparr>j_module := oldModule, j_exports := oldExports,
                                 moduleCache := (moduleCache vm)(path \<mapsto> finalExports)\<rparr>))))))"

section \<open>Virtual machines\<close>

text \<open>\<open>setup\<close> says whether console and require could be registered, \<open>set_ctx\<close> whether binding the
  shared context worked. A VM is counted before that binding.\<close>

definition js_createVM ::
  "bool \<Rightarrow> (string \<Rightarrow> bool) \<Rightarrow> bool \<Rightarrow> string list \<Rightarrow> int \<Rightarrow> i64 \<Rightarrow> 'p js_engine \<Rightarrow> 'p js_vm option \<times> 'p js_engine" where
  "js_createVM set_up ok set_ctx order now g e =
    (if \<not> set_up \<or> \<not> list_all ok order then (None, e)
     else (let e' = e\<lparr>j_vmCreated := j_vmCreated e + 1\<rparr>
           in if \<not> set_ctx then (None, e')
              else (Some \<lparr>j_gen = g, j_useCount = 0, j_born = now, j_loaded = j_programs e, sharedCtx = ctx_zero,
                          moduleCache = Map.empty, j_module = 0, j_exports = 0, nextObj = 1\<rparr>, e')))"

fun js_create_attempts ::
  "(bool \<times> (string \<Rightarrow> bool) \<times> bool) list \<Rightarrow> string list \<Rightarrow> int \<Rightarrow> 'p js_engine \<Rightarrow> 'p js_vm option \<times> 'p js_engine" where
  "js_create_attempts [] order now e = (None, e)"
| "js_create_attempts ((set_up, ok, set_ctx) # oks) order now e =
    (case js_createVM set_up ok set_ctx order now (j_globalGen e) e of
       (Some vm, e) \<Rightarrow> (Some vm, e)
     | (None, e) \<Rightarrow> js_create_attempts oks order now e)"

definition js_safeCreateVM ::
  "(nat \<Rightarrow> bool \<times> (string \<Rightarrow> bool) \<times> bool) \<Rightarrow> string list \<Rightarrow> int \<Rightarrow> 'p js_engine \<Rightarrow> 'p js_vm option \<times> 'p js_engine" where
  "js_safeCreateVM ok order now e =
    (if j_closed e then (None, e) else js_create_attempts (map ok [0, 1, 2]) order now e)"

definition js_pool_get ::
  "('p js_vm list \<Rightarrow> nat option) \<Rightarrow> (nat \<Rightarrow> bool \<times> (string \<Rightarrow> bool) \<times> bool) \<Rightarrow> string list \<Rightarrow> int \<Rightarrow> 'p js_engine
     \<Rightarrow> 'p js_vm option \<times> 'p js_engine" where
  "js_pool_get pk ok order now e =
    (case pk (j_vmPool e) of
       Some i \<Rightarrow> (if i < length (j_vmPool e) then (Some (j_vmPool e ! i), e\<lparr>j_vmPool := remove_at i (j_vmPool e)\<rparr>)
                 else js_safeCreateVM ok order now e)
     | None \<Rightarrow> js_safeCreateVM ok order now e)"

text \<open>The shared context is overwritten field by field.\<close>

definition js_fill :: "i64 \<Rightarrow> CallParams \<Rightarrow> ScriptContext \<Rightarrow> ScriptContext" where
  "js_fill now p c =
    c\<lparr>ActorID := P_ActorID p, C_ActorType := P_ActorType p, C_MsgID := P_MsgID p, C_AuthID := P_AuthID p,
      TraceID := P_TraceID p, MsgData := P_MsgData p, NowMillis := now, Owner := P_Owner p,
      Metadata := (case P_Metadata p of
          None \<Rightarrow> None
        | Some kvs \<Rightarrow> Some (fold (\<lambda>(k, v) m. m(k \<mapsto> v)) kvs Map.empty))\<rparr>"

definition js_begin :: "i64 \<Rightarrow> CallParams \<Rightarrow> 'p js_vm \<Rightarrow> 'p js_vm" where
  "js_begin now p vm = vm\<lparr>j_useCount := j_useCount vm + 1, sharedCtx := js_fill now p (sharedCtx vm)\<rparr>"

definition js_retire :: "bool \<Rightarrow> int \<Rightarrow> 'p js_vm \<Rightarrow> 'p js_engine \<Rightarrow> bool" where
  "js_retire failed now vm e \<longleftrightarrow> failed \<or> j_gen vm \<noteq> j_globalGen e
     \<or> sint (j_useCount vm) > sint (word_of_int (j_maxVMUseCount e) :: i32) \<or> now - j_born vm > j_maxVMAge e"

definition js_finish :: "bool \<Rightarrow> int \<Rightarrow> 'p js_vm \<Rightarrow> 'p js_engine \<Rightarrow> 'p js_engine" where
  "js_finish failed now vm e =
    (if js_retire failed now vm e then e\<lparr>j_vmDestroyed := j_vmDestroyed e + 1\<rparr>
     else e\<lparr>j_vmPool := vm\<lparr>sharedCtx := (sharedCtx vm)\<lparr>MsgData := GNil, Metadata := None\<rparr>\<rparr> # j_vmPool e\<rparr>)"

text \<open>What calling the function in the VM does: return, fail, throw through Go, panic; the flag tells
  whether the timeout fired meanwhile.\<close>

datatype js_result = JsOk gval | JsErr | JsThrow | JsPanic

definition js_Call ::
  "('p js_vm \<Rightarrow> string \<Rightarrow> bool) \<Rightarrow> ('p js_vm \<Rightarrow> string \<Rightarrow> gval list \<Rightarrow> js_result \<times> bool \<times> 'p js_vm)
     \<Rightarrow> ('p js_vm list \<Rightarrow> nat option) \<Rightarrow> (nat \<Rightarrow> bool \<times> (string \<Rightarrow> bool) \<times> bool) \<Rightarrow> string list \<Rightarrow> int \<Rightarrow> i64 \<Rightarrow> i64
     \<Rightarrow> bool \<Rightarrow> CallParams option \<Rightarrow> string \<Rightarrow> gval list \<Rightarrow> 'p js_engine \<Rightarrow> call_result \<times> 'p js_engine" where
  "js_Call hasFn exec pk ok order now millis dur callCtx params function args e =
    (if j_closed e then (CallErr (ErrScript ''engine closed''), e)
     else if \<not> callCtx then (CallErr ErrValidation, e)
     else (case params of
       None \<Rightarrow> (CallErr ErrValidation, e)
     | Some p \<Rightarrow>
        (let (w, e) = js_pool_get pk ok order now e
         in case w of
              None \<Rightarrow> (CallErr (ErrScript ''no valid VM available''), e\<lparr>j_stats := RecordCall dur False (j_stats e)\<rparr>)
            | Some vm \<Rightarrow>
               (let vm = js_begin millis p vm
                in if \<not> hasFn vm function
                   then (let e = js_finish True (now + sint dur) vm e
                         in (CallErr ErrFunctionNotFound, e\<lparr>j_stats := RecordCall dur True (j_stats e)\<rparr>))
                   else
                     (let (r, fired, vm) = exec vm function args;
                          (res, isErr, timed) = (case r of
                             JsThrow \<Rightarrow> (CallErr (if fired then ErrScriptTimeout else ErrScript ''js exception''), True, False)
                           | JsPanic \<Rightarrow> (CallErr (ErrScript ''panic''), True, False)
                           | JsOk v \<Rightarrow> (if fired then (CallErr ErrScriptTimeout, False, True) else (CallOk v, False, False))
                           | JsErr \<Rightarrow> (if fired then (CallErr ErrScriptTimeout, False, True)
                                     else (CallErr (ErrScript ''js execution failed''), True, False)));
                          e = (if timed then e\<lparr>j_stats := RecordTimeout (j_stats e)\<rparr> else e);
                          e = js_finish (isErr \<or> timed) (now + sint dur) vm e
                      in (res, e\<lparr>j_stats := RecordCall dur isErr (j_stats e)\<rparr>))))))"

section \<open>Loading\<close>

text \<open>A plain load does not advance the generation; a successful one is recorded as a call.\<close>

definition js_loadScriptsInternal ::
  "i64 \<Rightarrow> (string \<Rightarrow> 'p load_result) \<Rightarrow> string list \<Rightarrow> bool \<Rightarrow> 'p js_engine \<Rightarrow> script_error option \<times> 'p js_engine" where
  "js_loadScriptsInternal dur src paths isReload e =
    (if paths = [] then (None, e)
     else (case compile_all src paths Map.empty of
             Inl err \<Rightarrow> (Some err, e)
           | Inr new \<Rightarrow>
              (let e = e\<lparr>j_programs := j_programs e ++ new\<rparr>;
                   e = (if isReload then e\<lparr>j_globalGen := j_globalGen e + 1\<rparr> else e)
               in (None, e\<lparr>j_stats := RecordCall dur False (j_stats e)\<rparr>))))"

definition js_LoadScript :: "i64 \<Rightarrow> (string \<Rightarrow> 'p load_result) \<Rightarrow> string \<Rightarrow> 'p js_engine \<Rightarrow> script_error option \<times> 'p js_engine" where
  "js_LoadScript dur src path e = js_loadScriptsInternal dur src [path] False e"

definition js_LoadScripts :: "i64 \<Rightarrow> (string \<Rightarrow> 'p load_result) \<Rightarrow> string list \<Rightarrow> 'p js_engine \<Rightarrow> script_error option \<times> 'p js_engine" where
  "js_LoadScripts dur src paths e = js_loadScriptsInternal dur src paths False e"

definition clearModuleProgram :: "string \<Rightarrow> 'p js_engine \<Rightarrow> 'p js_engine" where
  "clearModuleProgram path e = e\<lparr>modulePrograms := (modulePrograms e)(path := None)\<rparr>"

definition js_ReloadScript ::
  "int \<Rightarrow> i64 \<Rightarrow> string option \<Rightarrow> (string \<Rightarrow> 'p load_result) \<Rightarrow> string \<Rightarrow> 'p js_engine \<Rightarrow> script_error option \<times> 'p js_engine" where
  "js_ReloadScript now dur cwd src path e =
    (let e = e\<lparr>j_stats := RecordReload now (j_stats e)\<rparr>;
         e = (case Abs cwd path of None \<Rightarrow> e | Some absPath \<Rightarrow> clearModuleProgram absPath e)
     in js_loadScriptsInternal dur src [path] True e)"

definition js_ReloadAllScripts ::
  "int \<Rightarrow> i64 \<Rightarrow> string list \<Rightarrow> (string \<Rightarrow> 'p load_result) \<Rightarrow> 'p js_engine \<Rightarrow> script_error option \<times> 'p js_engine" where
  "js_ReloadAllScripts now dur order src e =
    js_loadScriptsInternal dur src order True
      (e\<lparr>j_stats := RecordReload now (j_stats e), modulePrograms := Map.empty\<rparr>)"

definition js_Close :: "'p js_engine \<Rightarrow> 'p js_engine" where
  "js_Close e = (if j_closed e then e
     else e\<lparr>j_closed := True, j_globalGen := j_globalGen e + 1, j_programs := Map.empty, modulePrograms := Map.empty\<rparr>)"

definition js_GetStats :: "(string \<Rightarrow> (i64 \<times> int) option) \<Rightarrow> string list \<Rightarrow> 'p js_engine
    \<Rightarrow> EngineStats \<times> i64 \<times> i64 \<times> i64 \<times> (string \<times> i64 \<times> int) list" where
  "js_GetStats stat order e =
    (GetStats (j_stats e), j_vmCreated e, j_vmDestroyed e, j_vmCreated e - j_vmDestroyed e,
     concat (map (\<lambda>path. case stat path of None \<Rightarrow> [] | Some (sz, t) \<Rightarrow> [(path, sz, t)]) order))"

section \<open>The sandbox\<close>

definition valid_comp :: "string \<Rightarrow> bool" where
  "valid_comp c \<longleftrightarrow> c \<noteq> [] \<and> c \<noteq> ''.'' \<and> c \<noteq> ''..'' \<and> CHR ''/'' \<notin> set c"

lemma Split_no_sep_elem: "c \<in> set (Split x s) \<Longrightarrow> x \<notin> set c"
proof (induction s arbitrary: c)
  case (Cons y s)
  obtain p ps where sp: "Split x s = p # ps" by (cases "Split x s") simp_all
  have "x \<notin> set p" "\<And>q. q \<in> set ps \<Longrightarrow> x \<notin> set q" using Cons.IH sp by simp_all
  then show ?case using Cons.prems sp by (cases "y = x") auto
qed simp

lemma Split_join: "cs \<noteq> [] \<Longrightarrow> \<forall>c \<in> set cs. CHR ''/'' \<notin> set c \<Longrightarrow> Split (CHR ''/'') (join_path cs) = cs"
proof (induction cs rule: join_path.induct)
  case (2 c)
  then show ?case using Split_no_sep [of "CHR ''/''" c] by simp
next
  case (3 c c2 cs)
  have "Split (CHR ''/'') (join_path (c2 # cs)) = c2 # cs" by (rule "3.IH") (use "3.prems" in simp_all)
  moreover have "CHR ''/'' \<notin> set c" using "3.prems"(2) by simp
  ultimately show ?case
    unfolding join_path.simps by (subst Split_append) (assumption, simp only:)
qed simp

lemma clean_comps_valid:
  "list_all valid_comp st \<Longrightarrow> \<forall>c \<in> set cs. CHR ''/'' \<notin> set c \<Longrightarrow> list_all valid_comp (clean_comps True st cs)"
proof (induction cs arbitrary: st)
  case (Cons c cs)
  have t: "list_all valid_comp (tl st)" using Cons.prems(1) by (cases st) simp_all
  have no: "\<forall>c \<in> set cs. CHR ''/'' \<notin> set c" "CHR ''/'' \<notin> set c" using Cons.prems(2) by simp_all
  have "list_all valid_comp (clean_comps True st cs)" by (rule Cons.IH [OF Cons.prems(1) no(1)])
  moreover have "list_all valid_comp (clean_comps True (tl st) cs)" by (rule Cons.IH [OF t no(1)])
  moreover have "list_all valid_comp (clean_comps True (c # st) cs)" if "c \<noteq> []" "c \<noteq> ''.''" "c \<noteq> ''..''"
    by (rule Cons.IH [OF _ no(1)]) (use that no(2) Cons.prems(1) in \<open>simp add: valid_comp_def\<close>)
  ultimately show ?case unfolding clean_comps.simps by presburger
qed simp

lemma comps_valid: "IsAbs s \<Longrightarrow> list_all valid_comp (comps s)"
  unfolding comps_def by (simp add: clean_comps_valid Split_no_sep_elem)

lemma clean_comps_id: "list_all valid_comp cs \<Longrightarrow> clean_comps rooted st cs = rev st @ cs"
  by (induction cs arbitrary: st) (auto simp: valid_comp_def)

lemma IsAbs_slash [simp]: "IsAbs (CHR ''/'' # s)"
  by (simp add: IsAbs_def HasPrefix_def)

lemma Split_slash [simp]: "Split c (c # s) = [] # Split c s"
  using Split_append [of c "[]" s] by simp

lemma comps_rooted:
  assumes "list_all valid_comp cs"
  shows "comps (CHR ''/'' # join_path cs) = cs"
proof (cases "cs = []")
  case False
  have "Split (CHR ''/'') (join_path cs) = cs"
    by (rule Split_join [OF False]) (use assms in \<open>auto simp: list_all_iff valid_comp_def\<close>)
  then show ?thesis using clean_comps_id [OF assms, of True "[]"] by (simp add: comps_def)
qed (simp add: comps_def)

lemma Clean_abs:
  assumes "IsAbs s"
  shows "Clean s = CHR ''/'' # join_path (comps s)" and "IsAbs (Clean s)" and "comps (Clean s) = comps s"
    and "Clean (Clean s) = Clean s"
proof -
  show c: "Clean s = CHR ''/'' # join_path (comps s)" using assms by (simp add: Clean_def)
  then show a: "IsAbs (Clean s)" by simp
  show cc: "comps (Clean s) = comps s" unfolding c by (rule comps_rooted [OF comps_valid [OF assms]])
  show "Clean (Clean s) = Clean s" using a cc c by (simp add: Clean_def)
qed

lemma strip_common_spec:
  "strip_common bs ts = (bs', ts') \<Longrightarrow> \<exists>p. bs = p @ bs' \<and> ts = p @ ts' \<and> (bs' = [] \<or> ts' = [] \<or> hd bs' \<noteq> hd ts')"
proof (induction bs ts rule: strip_common.induct)
  case (1 b bs t ts)
  show ?case
  proof (cases "b = t")
    case True
    then obtain p where "bs = p @ bs' \<and> ts = p @ ts' \<and> (bs' = [] \<or> ts' = [] \<or> hd bs' \<noteq> hd ts')"
      using 1 by auto
    then show ?thesis using True by (intro exI [of _ "b # p"]) simp
  next
    case False
    then show ?thesis using 1(2) by auto
  qed
qed auto

lemma strip_common_prefix:
  assumes "strip_common bs ts = (bs', ts')"
  shows "prefix bs ts \<longleftrightarrow> bs' = []"
proof -
  obtain p where p: "bs = p @ bs'" "ts = p @ ts'" "bs' = [] \<or> ts' = [] \<or> hd bs' \<noteq> hd ts'"
    using strip_common_spec [OF assms] by blast
  have "prefix bs' ts' \<longleftrightarrow> bs' = []" using p(3) by (cases bs'; cases ts') auto
  then show ?thesis using p(1,2) by simp
qed

lemma clean_comps_up:
  "list_all valid_comp ts \<Longrightarrow>
    clean_comps False (replicate k ''..'') (replicate n ''..'' @ ts) = replicate (k + n) ''..'' @ ts"
proof (induction n arbitrary: k)
  case (Suc n)
  have "clean_comps False (replicate k ''..'') (replicate (Suc n) ''..'' @ ts)
      = clean_comps False (replicate (Suc k) ''..'') (replicate n ''..'' @ ts)"
    by (cases k) simp_all
  then show ?case using Suc.IH [OF Suc.prems, of "Suc k"] by simp
qed (simp add: clean_comps_id)

lemma Clean_rel:
  assumes "list_all valid_comp ts" and "r = replicate n ''..'' @ ts" and "r \<noteq> []"
  shows "Clean (join_path r) = join_path r" and "Split (CHR ''/'') (join_path r) = r"
proof -
  have each: "c = ''..'' \<or> valid_comp c" if "c \<in> set r" for c
    using that assms(1) by (auto simp: assms(2) list_all_iff)
  have no: "\<forall>c \<in> set r. CHR ''/'' \<notin> set c" using each by (fastforce simp: valid_comp_def)
  have ne: "hd r \<noteq> []" using each [OF hd_in_set [OF assms(3)]] by (auto simp: valid_comp_def)
  show sp: "Split (CHR ''/'') (join_path r) = r" by (rule Split_join [OF assms(3) no])
  have "\<not> IsAbs (join_path r)"
  proof
    assume "IsAbs (join_path r)"
    then obtain t where "join_path r = CHR ''/'' # t" by (auto simp: IsAbs_def HasPrefix_def prefix_def)
    then have "hd r = []" using sp by (metis Split_slash list.sel(1))
    then show False using ne by simp
  qed
  moreover have "clean_comps False [] r = r" using clean_comps_up [OF assms(1), of 0 n] assms(2) by simp
  ultimately show "Clean (join_path r) = join_path r" using assms(3) by (simp add: Clean_def comps_def sp)
qed

lemma isUnderScriptDir_iff:
  assumes "scriptDirAbs e = Clean d" and "IsAbs d" and "IsAbs p"
  shows "isUnderScriptDir e p \<longleftrightarrow> prefix (comps d) (comps p)"
proof -
  obtain bs ts where st: "strip_common (comps d) (comps p) = (bs, ts)" by fastforce
  define r where "r = replicate (length bs) ''..'' @ ts"
  have ts: "list_all valid_comp ts"
    using comps_valid [OF assms(3)] strip_common_spec [OF st] by auto
  have rel: "Rel (scriptDirAbs e) p = Some (if r = [] then ''.'' else join_path r)"
    using Clean_abs(2,3) [OF assms(2)] assms(1,3) st by (simp add: Rel_def r_def)
  have ne: "scriptDirAbs e \<noteq> []" using Clean_abs(1) [OF assms(2)] assms(1) by simp
  show ?thesis
  proof (cases "r = []")
    case True
    then show ?thesis
      using strip_common_prefix [OF st] ne rel by (simp add: isUnderScriptDir_def r_def Clean_def comps_def IsAbs_def HasPrefix_def)
  next
    case False
    note c = Clean_rel [OF ts r_def False]
    have dot: "join_path r \<noteq> ''.''"
    proof
      assume "join_path r = ''.''"
      then have "r = [''.'']" using c(2) by simp
      then show False using ts by (cases bs) (simp_all add: r_def valid_comp_def)
    qed
    show ?thesis
    proof (cases bs)
      case Nil
      have hd: "hd r \<noteq> ''..''" using Nil False ts by (cases ts) (simp_all add: r_def valid_comp_def)
      have "join_path r \<noteq> ''..''" 
      proof
        assume "join_path r = ''..''"
        then have "r = [''..'']" using c(2) by simp
        then show False using hd by simp
      qed
      moreover have "\<not> HasPrefix (join_path r) ''../''"
      proof
        assume "HasPrefix (join_path r) ''../''"
        then obtain t where "join_path r = ''..'' @ CHR ''/'' # t" by (auto simp: HasPrefix_def prefix_def)
        moreover have "Split (CHR ''/'') (''..'' @ CHR ''/'' # t) = ''..'' # Split (CHR ''/'') t"
          by (rule Split_append) simp
        ultimately have "hd r = ''..''" using c(2) by (metis list.sel(1))
        then show False using hd by simp
      qed
      ultimately show ?thesis
        using strip_common_prefix [OF st] Nil ne rel False dot c(1) by (simp add: isUnderScriptDir_def)
    next
      case (Cons b bs')
      have "join_path r = ''..'' \<or> HasPrefix (join_path r) ''../''"
        by (cases "replicate (length bs') ''..'' @ ts") (simp_all add: r_def Cons HasPrefix_def)
      then show ?thesis
        using strip_common_prefix [OF st] Cons ne rel False dot c(1) by (auto simp: isUnderScriptDir_def)
    qed
  qed
qed

text \<open>The path \<open>require\<close> means: an absolute one, or one below the script directory.\<close>

definition require_target :: "string \<Rightarrow> string \<Rightarrow> string" where
  "require_target dir raw = (if IsAbs raw then Clean raw else if raw = [] then dir else Clean (dir @ CHR ''/'' # raw))"

lemma Abs_clean: "IsAbs s \<Longrightarrow> Abs cwd (Clean s) = Some (Clean s)"
  using Clean_abs(2,4) [of s] by (simp add: Abs_def)

lemma resolve_sandboxed:
  assumes dir: "scriptDirAbs e = Clean d" and d: "IsAbs d"
  shows "resolveRequireAbsPath cwd e raw =
    (if prefix (comps (scriptDirAbs e)) (comps (require_target (scriptDirAbs e) raw))
     then Inr (require_target (scriptDirAbs e) raw) else Inl (ErrScript ''require: path outside ScriptDir''))"
proof -
  define t where "t = require_target (scriptDirAbs e) raw"
  have ne: "scriptDirAbs e \<noteq> []" "IsAbs (scriptDirAbs e)" "Clean (scriptDirAbs e) = scriptDirAbs e"
      "comps (scriptDirAbs e) = comps d"
    using Clean_abs [OF d] dir by simp_all
  have app: "IsAbs (scriptDirAbs e @ s)" for s
    using ne(2) by (simp add: IsAbs_def HasPrefix_def)
  have t: "Clean (if IsAbs raw then raw else Join (scriptDirAbs e) raw) = t" "IsAbs t" "Clean t = t"
    using ne app Clean_abs by (simp_all add: t_def require_target_def Join_def)
  have "Abs cwd t = Some t" using t by (simp add: Abs_def)
  then show ?thesis
    using ne isUnderScriptDir_iff [OF dir d t(2)] t(1)
    by (simp add: resolveRequireAbsPath_def Let_def t_def [symmetric])
qed

lemma scriptDirAbs_rooted:
  assumes "IsAbs w" and "ScriptDir config \<noteq> []"
  shows "\<exists>d. IsAbs d \<and> scriptDirAbs (NewJsEngine (Some w) (Some config)) = Clean d"
proof (cases "IsAbs (ScriptDir config)")
  case True
  then have "scriptDirAbs (NewJsEngine (Some w) (Some config)) = Clean (ScriptDir config)"
    using assms(2) Clean_abs(4) [OF True] by (simp add: NewJsEngine_def Let_def Abs_def)
  then show ?thesis using True by blast
next
  case False
  let ?d = "w @ CHR ''/'' # ScriptDir config"
  have w: "w \<noteq> []" using assms(1) by (auto simp: IsAbs_def HasPrefix_def)
  have d: "IsAbs ?d" using assms(1) by (simp add: IsAbs_def HasPrefix_def)
  have "scriptDirAbs (NewJsEngine (Some w) (Some config)) = Clean (Join w (ScriptDir config))"
    using assms(2) False by (simp add: NewJsEngine_def Let_def Abs_def)
  then show ?thesis using w assms(2) Clean_abs(4) [OF d] d by (auto simp: Join_def)
qed

text \<open>Claim C13: \<open>require\<close> stays inside the script directory, and reaches everything in it: a path is
  accepted exactly when, with its dots resolved, it lies at or below the directory, and what is
  handed to the file system is that path, without any \<open>..\<close> left.\<close>

theorem require_sandboxed:
  assumes "IsAbs w" and "ScriptDir config \<noteq> []"
    and "scriptDirAbs e = scriptDirAbs (NewJsEngine (Some w) (Some config) :: 'p js_engine)"
  shows "(resolveRequireAbsPath cwd e raw = Inr p \<longleftrightarrow>
      p = require_target (scriptDirAbs e) raw \<and> prefix (comps (scriptDirAbs e)) (comps p))
    \<and> ''..'' \<notin> set (Split (CHR ''/'') (require_target (scriptDirAbs e) raw))"
proof -
  obtain d where d: "IsAbs d" "scriptDirAbs e = Clean d" using scriptDirAbs_rooted [OF assms(1,2)] assms(3) by auto
  have abs: "IsAbs (scriptDirAbs e)" "IsAbs (scriptDirAbs e @ s)" for s
    using Clean_abs(2) [OF d(1)] d(2) by (simp_all add: IsAbs_def HasPrefix_def)
  obtain q where q: "require_target (scriptDirAbs e) raw = Clean q" "IsAbs q"
    using abs d unfolding require_target_def by metis
  have cs: "list_all valid_comp (comps q)" by (rule comps_valid [OF q(2)])
  have "''..'' \<notin> set (Split (CHR ''/'') (Clean q))"
  proof (cases "comps q = []")
    case False
    have "Split (CHR ''/'') (join_path (comps q)) = comps q"
      by (rule Split_join [OF False]) (use cs in \<open>auto simp: list_all_iff valid_comp_def\<close>)
    then show ?thesis using cs by (auto simp: Clean_abs(1) [OF q(2)] list_all_iff valid_comp_def)
  qed (simp add: Clean_abs(1) [OF q(2)])
  then show ?thesis unfolding resolve_sandboxed [OF d(2,1)] q(1) by auto
qed

theorem require_sandboxed_witness:
  "resolveRequireAbsPath None (NewJsEngine (Some ''/srv'') None :: nat js_engine) ''a/../../../etc/passwd''
     \<noteq> Inr ''/etc/passwd''
   \<and> resolveRequireAbsPath None (NewJsEngine (Some ''/srv'') None :: nat js_engine) ''a/../b.js'' = Inr ''/srv/scripts/b.js''"
proof -
  let ?e = "NewJsEngine (Some ''/srv'') None :: nat js_engine"
  let ?c = "DefaultEngineConfig\<lparr>E_Type := EngineTypeJS\<rparr>"
  have e: "?e = NewJsEngine (Some ''/srv'') (Some ?c)" by (simp add: NewJsEngine_def)
  have w: "IsAbs ''/srv''" "ScriptDir ?c \<noteq> []" by (simp_all add: DefaultEngineConfig_def)
  have dir: "scriptDirAbs ?e = ''/srv/scripts''" by code_simp
  have t: "require_target ''/srv/scripts'' ''a/../b.js'' = ''/srv/scripts/b.js''"
    "prefix (comps ''/srv/scripts'') (comps ''/srv/scripts/b.js'')"
    "\<not> prefix (comps ''/srv/scripts'') (comps ''/etc/passwd'')" by code_simp+
  show ?thesis
    using require_sandboxed [OF w arg_cong [where f = scriptDirAbs, OF e], of None _ "''/etc/passwd''"]
      require_sandboxed [OF w arg_cong [where f = scriptDirAbs, OF e], of None "''a/../b.js''" "''/srv/scripts/b.js''"]
    by (simp only: dir t) simp
qed

section \<open>Modules run once\<close>

lemma resolve_same_config:
  "scriptDirAbs e' = scriptDirAbs e \<Longrightarrow> allowRequireWithoutScriptDir e' = allowRequireWithoutScriptDir e \<Longrightarrow>
    resolveRequireAbsPath cwd e' raw = resolveRequireAbsPath cwd e raw"
  by (simp add: resolveRequireAbsPath_def isUnderScriptDir_def cong: if_cong)

lemma js_require_cached:
  "resolveRequireAbsPath cwd e raw = Inr p \<Longrightarrow> moduleCache vm p = Some obj \<Longrightarrow>
    js_require cwd src run (Some raw) e vm = (Inr obj, e, vm)"
  by (simp add: js_require_def)

text \<open>A module is run once per VM: after a successful \<open>require\<close>, every \<open>require\<close> of a path that
  resolves to the same file returns the same exports and runs nothing, whatever the file system or
  the module would do now.\<close>

theorem require_runs_once:
  assumes "resolveRequireAbsPath cwd e raw = Inr p" and "resolveRequireAbsPath cwd e raw2 = Inr p"
    and "js_require cwd src run (Some raw) e vm = (Inr obj, e1, vm1)"
  shows "js_require cwd src2 run2 (Some raw2) e1 vm1 = (Inr obj, e1, vm1)"
proof -
  have "moduleCache vm1 p = Some obj \<and> scriptDirAbs e1 = scriptDirAbs e
      \<and> allowRequireWithoutScriptDir e1 = allowRequireWithoutScriptDir e"
    using assms(1,3)
    by (auto simp: js_require_def Let_def split: option.splits load_result.splits prod.splits sum.splits if_splits)
  then show ?thesis using js_require_cached resolve_same_config assms(2) by metis
qed

definition demo_js :: "nat js_engine" where
  "demo_js = (NewJsEngine (Some ''/srv'') None)\<lparr>modulePrograms := [''/srv/scripts/m.js'' \<mapsto> 1]\<rparr>"

definition demo_vm :: "nat js_vm" where
  "demo_vm = \<lparr>j_gen = 1, j_useCount = 0, j_born = 0, j_loaded = Map.empty, sharedCtx = ctx_zero,
     moduleCache = Map.empty, j_module = 0, j_exports = 0, nextObj = 1\<rparr>"

lemma demo_resolve:
  "resolveRequireAbsPath None demo_js ''m.js'' = Inr ''/srv/scripts/m.js''"
  "resolveRequireAbsPath None demo_js ''./m.js'' = Inr ''/srv/scripts/m.js''"
  by code_simp+

lemma demo_module: "moduleCache demo_vm p = None" "modulePrograms demo_js ''/srv/scripts/m.js'' = Some 1"
  by (simp_all add: demo_vm_def demo_js_def)

theorem require_runs_once_witness:
  "\<exists>obj e1 vm1. js_require None (\<lambda>_. ReadFailed) (\<lambda>p vm. (True, 7, vm)) (Some ''m.js'') demo_js demo_vm = (Inr obj, e1, vm1)
     \<and> js_require None (\<lambda>_. ReadFailed) (\<lambda>p vm. (False, 0, vm)) (Some ''./m.js'') e1 vm1 = (Inr obj, e1, vm1)"
proof -
  obtain e1 vm1 where r: "js_require None (\<lambda>_. ReadFailed) (\<lambda>p vm. (True, 7, vm)) (Some ''m.js'') demo_js demo_vm = (Inr 7, e1, vm1)"
    by (simp add: js_require_def demo_resolve demo_module Let_def)
  show ?thesis using require_runs_once [OF demo_resolve r] r by blast
qed

text \<open>A module that fails is remembered as loaded: the first \<open>require\<close> throws, but its unfinished
  exports stay in the module cache, so a script that catches the exception and requires the module
  again gets the empty exports object without an error.\<close>

theorem failed_module_stays_cached:
  assumes "resolveRequireAbsPath cwd e raw = Inr p" and "moduleCache vm p = None" and "modulePrograms e p = Some prog"
    and "\<And>vm. run prog vm = (False, 0, vm)"
  shows "\<exists>err vm1. js_require cwd src run (Some raw) e vm = (Inl err, e, vm1)
    \<and> js_require cwd src run (Some raw) e vm1 = (Inr (Suc (nextObj vm)), e, vm1) \<and> j_module vm1 = nextObj vm"
proof -
  let ?vm1 = "vm\<lparr>nextObj := nextObj vm + 2, moduleCache := (moduleCache vm)(p \<mapsto> Suc (nextObj vm)),
      j_module := nextObj vm, j_exports := Suc (nextObj vm)\<rparr>"
  have "js_require cwd src run (Some raw) e vm = (Inl (ErrScript ''require: execution failed''), e, ?vm1)"
    by (simp add: js_require_def assms Let_def)
  moreover have "js_require cwd src run (Some raw) e ?vm1 = (Inr (Suc (nextObj vm)), e, ?vm1)"
    by (rule js_require_cached [OF assms(1)]) simp
  ultimately show ?thesis by auto
qed

theorem failed_module_stays_cached_witness:
  "\<exists>err vm1. js_require None (\<lambda>_. ReadFailed) (\<lambda>p vm. (False, 0, vm)) (Some ''m.js'') demo_js demo_vm = (Inl err, demo_js, vm1)
     \<and> js_require None (\<lambda>_. ReadFailed) (\<lambda>p vm. (False, 0, vm)) (Some ''m.js'') demo_js vm1 = (Inr 2, demo_js, vm1)"
  using failed_module_stays_cached [OF demo_resolve(1) demo_module, of "\<lambda>p vm. (False, 0, vm)" "\<lambda>_. ReadFailed"]
  by (auto simp: demo_vm_def)

section \<open>Loading and calling\<close>

text \<open>A script loaded without a reload is not seen by the VMs that exist: \<open>LoadScript\<close> leaves the
  generation as it is, so a pooled VM that lacks the script passes the check at the end of a call and
  goes back to the pool, still without it.\<close>

theorem js_load_not_seen:
  assumes "src path = Compiled c" and "j_gen vm = j_globalGen e"
    and "\<not> js_retire False now vm e"
  shows "\<exists>e'. js_LoadScript dur src path e = (None, e') \<and> j_programs e' path = Some c
    \<and> (\<exists>vm' \<in> set (j_vmPool (js_finish False now vm e')). j_loaded vm' = j_loaded vm)"
proof -
  have "js_finish False now vm (snd (js_LoadScript dur src path e))
      = (snd (js_LoadScript dur src path e))\<lparr>j_vmPool :=
          vm\<lparr>sharedCtx := (sharedCtx vm)\<lparr>MsgData := GNil, Metadata := None\<rparr>\<rparr> # j_vmPool e\<rparr>"
    using assms by (simp add: js_finish_def js_retire_def js_LoadScript_def js_loadScriptsInternal_def Let_def)
  then show ?thesis
    using assms(1) by (simp add: js_LoadScript_def js_loadScriptsInternal_def Let_def map_add_def)
qed

theorem js_load_not_seen_witness:
  "\<exists>vm' \<in> set (j_vmPool (js_finish False 1 demo_vm (snd (js_LoadScript 0 (\<lambda>_. Compiled 5) ''new.js'' demo_js)))). j_loaded vm' ''new.js'' = None"
proof -
  have none: "j_loaded demo_vm ''new.js'' = None" by (simp add: demo_vm_def)
  have "\<not> js_retire False 1 demo_vm demo_js" "j_gen demo_vm = j_globalGen demo_js"
    by (simp_all add: js_retire_def demo_vm_def demo_js_def NewJsEngine_def DefaultEngineConfig_def Let_def)
  then obtain e' vm' where "js_LoadScript 0 (\<lambda>_. Compiled 5) ''new.js'' demo_js = (None, e')"
      "vm' \<in> set (j_vmPool (js_finish False 1 demo_vm e'))" "j_loaded vm' = j_loaded demo_vm"
    using js_load_not_seen [of "\<lambda>_. Compiled 5" "''new.js''" 5 demo_vm demo_js 1 0] by auto
  then show ?thesis using none by (metis snd_conv)
qed

text \<open>A reload retires every VM of the generation it replaces.\<close>

lemma js_reload_retires:
  assumes "js_loadScriptsInternal dur src paths True e = (None, e')" and "paths \<noteq> []" and "j_gen vm = j_globalGen e"
  shows "js_retire failed now vm e'"
proof -
  have "j_globalGen e' = j_globalGen e + 1"
    using assms(1,2) by (auto simp: js_loadScriptsInternal_def Let_def split: sum.splits)
  moreover have "(g :: i64) \<noteq> g + 1" for g by (metis add_cancel_right_right one_neq_zero)
  ultimately show ?thesis using assms(3) by (auto simp: js_retire_def)
qed

text \<open>The shared context shows the script its own call and nothing of earlier ones.\<close>

lemma js_fill_exact:
  "js_fill now p c = js_fill now p ctx_zero"
  by (simp add: js_fill_def ctx_zero_def)

text \<open>What stays in a pooled VM: the message is cleared, the owner is not.\<close>

lemma js_owner_retained:
  "\<not> js_retire failed t vm e \<Longrightarrow>
    \<exists>vm' \<in> set (j_vmPool (js_finish failed t vm e)). Owner (sharedCtx vm') = Owner (sharedCtx vm) \<and> MsgData (sharedCtx vm') = GNil"
  by (simp add: js_finish_def)

text \<open>A timeout is counted as a timeout but not as an error.\<close>

lemma js_timeout_not_error:
  assumes "\<not> j_closed e" and "js_pool_get pk ok order now e = (Some vm, e1)" and "hasFn (js_begin millis p vm) function"
    and "exec (js_begin millis p vm) function args = (JsErr, True, vm2)"
  shows "\<exists>e'. js_Call hasFn exec pk ok order now millis dur True (Some p) function args e = (CallErr ErrScriptTimeout, e')
    \<and> errorCount (j_stats e') = errorCount (j_stats e1) \<and> timeoutCount (j_stats e') = timeoutCount (j_stats e1) + 1
    \<and> j_vmPool e' = j_vmPool e1"
  using assms by (simp add: js_Call_def js_finish_def js_retire_def RecordCall_def RecordTimeout_def Let_def)

end
