(* ===== verification/ZStarlark.thy ===== *)
theory ZStarlark
  imports ZLua "HOL-Library.Char_ord" "HOL-Library.List_Lexorder"
begin

text \<open>
  \<open>zstarlark/engine.go\<close>: the Starlark engine: the index of functions rebuilt from the loaded modules,
  and the call with its step limit. The interpreter is a parameter: executing a file yields its
  globals, of which some are callable, an error or a Go panic; calling a function yields a value or
  an error message. Files and globals that are maps in Go are maps here, with the visit order of a
  \<open>range\<close> as an argument where a list is built from it.
\<close>

type_synonym 'f module = "string \<rightharpoonup> 'f option"

record 'f FunctionIndex =
  Funcs :: "string \<rightharpoonup> 'f"
  Modules :: "string \<rightharpoonup> 'f module"

record 'f star_engine =
  functionIndex :: "'f FunctionIndex"
  s_closed :: bool
  s_timeout :: int
  s_stats :: StatsCollector

definition empty_index :: "'f FunctionIndex" where
  "empty_index = \<lparr>Funcs = Map.empty, Modules = Map.empty\<rparr>"

definition NewStarEngine :: "EngineConfig option \<Rightarrow> 'f star_engine" where
  "NewStarEngine config =
    (let config = (case config of None \<Rightarrow> DefaultEngineConfig\<lparr>E_Type := EngineTypeStarlark\<rparr> | Some c \<Rightarrow> c)
     in \<lparr>functionIndex = empty_index, s_closed = False, s_timeout = Timeout config,
         s_stats = NewStatsCollector ''starlark''\<rparr>)"

section \<open>Loading\<close>

text \<open>Executing a file. A panic is recovered into a variable that the return values of the enclosing
  closure overwrite: the module is nil and there is no error.\<close>

datatype 'f exec_result = StarRead | StarFail | StarPanic | StarGlobals "'f module"

fun exec_files :: "(string \<Rightarrow> 'f exec_result) \<Rightarrow> string list \<Rightarrow> (string \<rightharpoonup> 'f module) \<Rightarrow> script_error + (string \<rightharpoonup> 'f module)" where
  "exec_files src [] ms = Inr ms"
| "exec_files src (p # paths) ms =
    (case src p of
       StarRead \<Rightarrow> Inl (ErrScript ''read failed'')
     | StarFail \<Rightarrow> Inl (ErrScript ''exec failed'')
     | StarPanic \<Rightarrow> exec_files src paths (ms(p \<mapsto> Map.empty))
     | StarGlobals g \<Rightarrow> exec_files src paths (ms(p \<mapsto> g)))"

text \<open>The callables of one module.\<close>

definition callables :: "'f module \<Rightarrow> string \<rightharpoonup> 'f" where
  "callables g = (\<lambda>n. case g n of Some (Some f) \<Rightarrow> Some f | _ \<Rightarrow> None)"

text \<open>The index is rebuilt over the sorted paths; later modules overwrite.\<close>

definition rebuild :: "string list \<Rightarrow> (string \<rightharpoonup> 'f module) \<Rightarrow> string \<rightharpoonup> 'f" where
  "rebuild order ms = foldl (\<lambda>fs path. fs ++ callables (case ms path of None \<Rightarrow> Map.empty | Some g \<Rightarrow> g)) Map.empty (sort order)"

text \<open>\<open>closedLater\<close> is the second check of the flag, under the lock.\<close>

definition star_loadScriptsInternal ::
  "bool \<Rightarrow> i64 \<Rightarrow> (string \<Rightarrow> 'f exec_result) \<Rightarrow> string list \<Rightarrow> string list \<Rightarrow> 'f star_engine \<Rightarrow> script_error option \<times> 'f star_engine" where
  "star_loadScriptsInternal closedLater dur src order paths e =
    (if paths = [] then (None, e)
     else if s_closed e then (Some (ErrEngine ''engine is closed''), e)
     else (let (err, e) = (case exec_files src paths Map.empty of
               Inl err \<Rightarrow> (Some err, e)
             | Inr new \<Rightarrow>
                (if closedLater then (Some (ErrEngine ''engine is closed''), e)
                 else (let final = Modules (functionIndex e) ++ new
                       in (None, e\<lparr>functionIndex := \<lparr>Funcs = rebuild order final, Modules = final\<rparr>\<rparr>))))
           in (err, e\<lparr>s_stats := RecordCall dur False (s_stats e)\<rparr>)))"

definition star_LoadScript :: "bool \<Rightarrow> i64 \<Rightarrow> (string \<Rightarrow> 'f exec_result) \<Rightarrow> string list \<Rightarrow> string \<Rightarrow> 'f star_engine
    \<Rightarrow> script_error option \<times> 'f star_engine" where
  "star_LoadScript cl dur src order path e = star_loadScriptsInternal cl dur src order [path] e"

definition star_LoadScripts :: "bool \<Rightarrow> i64 \<Rightarrow> (string \<Rightarrow> 'f exec_result) \<Rightarrow> string list \<Rightarrow> string list \<Rightarrow> 'f star_engine
    \<Rightarrow> script_error option \<times> 'f star_engine" where
  "star_LoadScripts cl dur src order paths e = star_loadScriptsInternal cl dur src order paths e"

definition star_ReloadScript :: "int \<Rightarrow> bool \<Rightarrow> i64 \<Rightarrow> (string \<Rightarrow> 'f exec_result) \<Rightarrow> string list \<Rightarrow> string \<Rightarrow> 'f star_engine
    \<Rightarrow> script_error option \<times> 'f star_engine" where
  "star_ReloadScript now cl dur src order path e =
    star_loadScriptsInternal cl dur src order [path] (e\<lparr>s_stats := RecordReload now (s_stats e)\<rparr>)"

definition star_ReloadAllScripts :: "int \<Rightarrow> bool \<Rightarrow> i64 \<Rightarrow> (string \<Rightarrow> 'f exec_result) \<Rightarrow> string list \<Rightarrow> string list \<Rightarrow> 'f star_engine
    \<Rightarrow> script_error option \<times> 'f star_engine" where
  "star_ReloadAllScripts now cl dur src order paths e =
    star_loadScriptsInternal cl dur src order paths (e\<lparr>s_stats := RecordReload now (s_stats e)\<rparr>)"

definition star_Close :: "'f star_engine \<Rightarrow> 'f star_engine" where
  "star_Close e = e\<lparr>s_closed := True, functionIndex := empty_index\<rparr>"

section \<open>Calling\<close>

text \<open>The step limit: ten thousand steps a millisecond, \<open>None\<close> for no limit. Durations are nanoseconds.\<close>

definition step_limit :: "int \<Rightarrow> u64 option" where
  "step_limit t =
    (if t > 0 then (let steps = word_of_int (t div 1000000) * 10000 in Some (if steps < 10000 then 10000 else steps))
     else if t < 0 then Some 50000000 else None)"

datatype star_result = StarOk sval | StarErr string

text \<open>The engine is also told whether the caller's context is already cancelled; the interpreter decides
  what that means.\<close>

definition star_Call ::
  "(int \<Rightarrow> i64) \<Rightarrow> ('f \<Rightarrow> u64 option \<Rightarrow> bool \<Rightarrow> ScriptContext \<Rightarrow> sval list \<Rightarrow> star_result) \<Rightarrow> pick \<Rightarrow> i64 \<Rightarrow> i64 \<Rightarrow> bool option
     \<Rightarrow> CallParams option \<Rightarrow> string \<Rightarrow> gval list \<Rightarrow> 'f star_engine \<times> ctx_heap \<Rightarrow> call_result \<times> 'f star_engine \<times> ctx_heap" where
  "star_Call int64_of exec cpk millis dur callCtx params function args = (\<lambda>(e, h).
    if s_closed e then (CallErr (ErrEngine ''engine is closed''), e, h)
    else (case callCtx of
      None \<Rightarrow> (CallErr ErrValidation, e, h)
    | Some cancelled \<Rightarrow>
      (case params of
         None \<Rightarrow> (CallErr ErrValidation, e, h)
       | Some p \<Rightarrow>
          (let (a, h) = GetContext cpk millis (P_ActorID p) (P_ActorType p) h;
               h = h\<lparr>ctx_at := (ctx_at h)(a := fill_context p (ctx_at h a))\<rparr>;
               (res, isErr, e) = (case Funcs (functionIndex e) function of
                  None \<Rightarrow> (CallErr ErrFunctionNotFound, False, e)
                | Some f \<Rightarrow>
                   (case exec f (step_limit (s_timeout e)) cancelled (ctx_at h a) (map goToStarlark args) of
                      StarOk v \<Rightarrow> (CallOk (starlarkToGo int64_of v), False, e)
                    | StarErr msg \<Rightarrow>
                       (if msg = ''maximum number of computation steps exceeded'' \<or> sublist ''computation cancelled'' msg
                        then (CallErr ErrScriptTimeout, False, e\<lparr>s_stats := RecordTimeout (s_stats e)\<rparr>)
                        else (CallErr (ErrScript ''starlark call failed''), True, e))))
           in (res, e\<lparr>s_stats := RecordCall dur isErr (s_stats e)\<rparr>, PutContext a h)))))"

definition star_GetStats :: "(string \<Rightarrow> (i64 \<times> int) option) \<Rightarrow> string list \<Rightarrow> string list \<Rightarrow> 'f star_engine
    \<Rightarrow> EngineStats \<times> (string \<times> i64 \<times> int) list \<times> nat \<times> nat" where
  "star_GetStats stat order names e =
    (GetStats (s_stats e),
     concat (map (\<lambda>path. case stat path of None \<Rightarrow> [] | Some (sz, t) \<Rightarrow> [(path, sz, t)]) order),
     length names, length order)"

section \<open>The index\<close>

definition index_ok :: "'f FunctionIndex \<Rightarrow> bool" where
  "index_ok i \<longleftrightarrow> finite (dom (Modules i)) \<and>
    (\<forall>n f. Funcs i n = Some f \<longleftrightarrow>
       (\<exists>p g. Modules i p = Some g \<and> callables g n = Some f
          \<and> (\<forall>q h. Modules i q = Some h \<longrightarrow> callables h n \<noteq> None \<longrightarrow> q \<le> p)))"

lemma foldl_last_wins:
  assumes "sorted ps"
  shows "foldl (\<lambda>fs p. fs ++ m p) Map.empty ps n = Some f \<longleftrightarrow>
    (\<exists>p \<in> set ps. m p n = Some f \<and> (\<forall>q \<in> set ps. m q n \<noteq> None \<longrightarrow> q \<le> p))"
  using assms
proof (induction ps rule: rev_induct)
  case (snoc a ps)
  have a: "\<forall>q \<in> set ps. q \<le> a" "sorted ps" using snoc.prems by (simp_all add: sorted_append)
  show ?case
  proof (cases "m a n")
    case None
    then show ?thesis using snoc.IH [OF a(2)] by (simp add: map_add_def)
  next
    case (Some g)
    have "(\<exists>p \<in> set (ps @ [a]). m p n = Some f \<and> (\<forall>q \<in> set (ps @ [a]). m q n \<noteq> None \<longrightarrow> q \<le> p)) \<longleftrightarrow> g = f"
    proof
      assume "\<exists>p \<in> set (ps @ [a]). m p n = Some f \<and> (\<forall>q \<in> set (ps @ [a]). m q n \<noteq> None \<longrightarrow> q \<le> p)"
      then obtain p where p: "p \<in> set (ps @ [a])" "m p n = Some f" "a \<le> p" using Some by auto
      then have "p = a" using a(1) by (auto dest: antisym)
      then show "g = f" using p(2) Some by simp
    qed (use Some a(1) in auto)
    then show ?thesis using Some by (simp add: map_add_def)
  qed
qed simp

lemma rebuild_ok:
  assumes "set order = dom ms"
  shows "index_ok \<lparr>Funcs = rebuild order ms, Modules = ms\<rparr>"
proof -
  let ?m = "\<lambda>p. callables (case ms p of None \<Rightarrow> Map.empty | Some g \<Rightarrow> g)"
  have "rebuild order ms n = Some f \<longleftrightarrow>
      (\<exists>p \<in> dom ms. ?m p n = Some f \<and> (\<forall>q \<in> dom ms. ?m q n \<noteq> None \<longrightarrow> q \<le> p))" for n f
    unfolding rebuild_def using foldl_last_wins [of "sort order" ?m n f] by (simp add: assms)
  moreover have "(\<exists>p \<in> dom ms. ?m p n = Some f \<and> (\<forall>q \<in> dom ms. ?m q n \<noteq> None \<longrightarrow> q \<le> p)) \<longleftrightarrow>
      (\<exists>p g. ms p = Some g \<and> callables g n = Some f \<and> (\<forall>q h. ms q = Some h \<longrightarrow> callables h n \<noteq> None \<longrightarrow> q \<le> p))" for n f
    by (auto simp: dom_def; force)
  moreover have "finite (dom ms)" unfolding assms [symmetric] by simp
  ultimately show ?thesis by (simp add: index_ok_def)
qed

text \<open>Executions: \<open>order\<close> visits each module of the merged map.\<close>

datatype 'f star_op = SLoad bool i64 "string \<Rightarrow> 'f exec_result" "string list" "string list" | SClose

definition star_op_ok :: "'f star_op \<Rightarrow> 'f star_engine \<Rightarrow> bool" where
  "star_op_ok opn e \<longleftrightarrow> (case opn of SClose \<Rightarrow> True
     | SLoad cl dur src order paths \<Rightarrow> set order = dom (Modules (functionIndex e)) \<union> set paths)"

fun star_do :: "'f star_op \<Rightarrow> 'f star_engine \<Rightarrow> 'f star_engine" where
  "star_do (SLoad cl dur src order paths) e = snd (star_LoadScripts cl dur src order paths e)"
| "star_do SClose e = star_Close e"

inductive star_reach :: "'f star_engine \<Rightarrow> bool" where
  start: "star_reach (NewStarEngine config)"
| step: "star_reach e \<Longrightarrow> star_op_ok opn e \<Longrightarrow> star_reach (star_do opn e)"

lemma exec_files_dom: "exec_files src paths ms = Inr new \<Longrightarrow> dom new = dom ms \<union> set paths"
  by (induction paths arbitrary: ms) (auto split: exec_result.splits)

lemma exec_files_ok:
  "exec_files src paths ms = Inr new \<Longrightarrow> p \<in> set paths \<Longrightarrow>
    new p = (case src p of StarGlobals g \<Rightarrow> Some g | _ \<Rightarrow> Some Map.empty)"
proof (induction paths arbitrary: ms)
  case (Cons q paths)
  have other: "exec_files src paths ms = Inr new \<Longrightarrow> p \<notin> set paths \<Longrightarrow> new p = ms p" for ms
    by (induction paths arbitrary: ms) (auto split: exec_result.splits)
  show ?case
  proof (cases "p \<in> set paths")
    case True
    then show ?thesis using Cons by (auto split: exec_result.splits)
  next
    case False
    then show ?thesis using Cons.prems by (auto split: exec_result.splits dest!: other)
  qed
qed simp

lemma star_reach_ok: "star_reach e \<Longrightarrow> index_ok (functionIndex e)"
proof (induction rule: star_reach.induct)
  case (start config)
  show ?case by (simp add: NewStarEngine_def Let_def empty_index_def index_ok_def)
next
  case (step e opn)
  show ?case
  proof (cases opn)
    case SClose
    then show ?thesis by (simp add: star_Close_def empty_index_def index_ok_def)
  next
    case (SLoad cl dur src order paths)
    have "index_ok \<lparr>Funcs = rebuild order (Modules (functionIndex e) ++ new), Modules = Modules (functionIndex e) ++ new\<rparr>"
      if "exec_files src paths Map.empty = Inr new" for new
      using step(2) exec_files_dom [OF that] by (intro rebuild_ok) (auto simp: SLoad star_op_ok_def)
    then show ?thesis
      using step.IH by (auto simp: SLoad star_LoadScripts_def star_loadScriptsInternal_def Let_def split: sum.split)
  qed
qed

text \<open>Which function a name means is determined by the loaded modules alone: after any
  sequence of loads and reloads a name is callable exactly when some module that is currently loaded
  defines a callable of that name, and then it is the one in the last such module by path; a function
  that a reload removed from its file is gone.\<close>

theorem starlark_index_exact:
  assumes "star_reach e"
  shows "Funcs (functionIndex e) n = Some f \<longleftrightarrow>
    (\<exists>p g. Modules (functionIndex e) p = Some g \<and> callables g n = Some f
       \<and> (\<forall>q h. Modules (functionIndex e) q = Some h \<longrightarrow> callables h n \<noteq> None \<longrightarrow> q \<le> p))"
  using star_reach_ok [OF assms] unfolding index_ok_def by blast

definition demo_src :: "string \<Rightarrow> nat exec_result" where
  "demo_src p = (if p = ''a'' then StarGlobals [''f'' \<mapsto> Some 1] else StarGlobals [''f'' \<mapsto> Some 2, ''x'' \<mapsto> None])"

theorem starlark_index_exact_witness:
  "Funcs (functionIndex (star_do (SLoad False 0 demo_src [''b'', ''a''] [''a'', ''b'']) (NewStarEngine None))) ''f'' = Some 2"
proof -
  let ?e = "star_do (SLoad False 0 demo_src [''b'', ''a''] [''a'', ''b'']) (NewStarEngine None)"
  have "star_op_ok (SLoad False 0 demo_src [''b'', ''a''] [''a'', ''b'']) (NewStarEngine None)"
    by (auto simp: star_op_ok_def NewStarEngine_def empty_index_def)
  then have r: "star_reach ?e" by (rule star_reach.step [OF star_reach.start])
  have m: "Modules (functionIndex ?e) = [''a'' \<mapsto> [''f'' \<mapsto> Some 1], ''b'' \<mapsto> [''f'' \<mapsto> Some 2, ''x'' \<mapsto> None]]"
    by (simp add: star_LoadScripts_def star_loadScriptsInternal_def NewStarEngine_def empty_index_def demo_src_def Let_def)
  have "''a'' \<le> ''b''" by code_simp
  then show ?thesis
    unfolding starlark_index_exact [OF r] m by (intro exI [of _ "''b''"]) (auto simp: callables_def split: if_splits)
qed

text \<open>A module whose top level panics is taken for an empty one: the load succeeds, the functions
  the module used to define are gone, and nothing reports it.\<close>

theorem starlark_panic_swallowed:
  assumes "star_reach e" and "\<not> s_closed e" and "src p = StarPanic" and "set order = insert p (dom (Modules (functionIndex e)))"
  shows "\<exists>e'. star_LoadScript False dur src order p e = (None, e') \<and> Modules (functionIndex e') p = Some Map.empty
    \<and> errorCount (s_stats e') = errorCount (s_stats e)
    \<and> (\<forall>n f. Funcs (functionIndex e') n = Some f \<longrightarrow> (\<exists>q g. q \<noteq> p \<and> Modules (functionIndex e) q = Some g \<and> callables g n = Some f))"
proof -
  let ?ms = "Modules (functionIndex e) ++ [p \<mapsto> Map.empty]"
  define e' where "e' = e\<lparr>functionIndex := \<lparr>Funcs = rebuild order ?ms, Modules = ?ms\<rparr>, s_stats := RecordCall dur False (s_stats e)\<rparr>"
  have l: "star_LoadScript False dur src order p e = (None, e')"
    using assms(2,3) by (simp add: star_LoadScript_def star_loadScriptsInternal_def Let_def e'_def)
  have ok: "index_ok (functionIndex e')" unfolding e'_def by (simp, rule rebuild_ok) (use assms(4) in auto)
  have "\<exists>q g. q \<noteq> p \<and> Modules (functionIndex e) q = Some g \<and> callables g n = Some f"
    if f: "Funcs (functionIndex e') n = Some f" for n f
  proof -
    obtain q g where q: "Modules (functionIndex e') q = Some g" "callables g n = Some f"
      using ok f unfolding index_ok_def by blast
    then have "q \<noteq> p" by (auto simp: e'_def callables_def)
    then show ?thesis using q by (auto simp: e'_def map_add_def)
  qed
  then show ?thesis using l by (auto simp: e'_def RecordCall_def Let_def)
qed

theorem starlark_panic_swallowed_witness:
  "fst (star_LoadScript False 0 (\<lambda>_. StarPanic) [''a''] ''a'' (NewStarEngine None :: nat star_engine)) = None"
proof -
  have e: "\<not> s_closed (NewStarEngine None :: nat star_engine)"
    "set [''a''] = insert ''a'' (dom (Modules (functionIndex (NewStarEngine None :: nat star_engine))))"
    by (simp_all add: NewStarEngine_def Let_def empty_index_def)
  show ?thesis
    using starlark_panic_swallowed [OF star_reach.start e(1) refl e(2), of 0] by auto
qed

text \<open>The step limit never falls below ten thousand steps and never wraps.\<close>

lemma step_limit_exact:
  assumes "0 < t" and "t < 2 ^ 63"
  shows "\<exists>s. step_limit t = Some s \<and> uint s = max 10000 (t div 1000000 * 10000)"
proof -
  define m where "m = t div 1000000"
  have m: "0 \<le> m" "m * 10000 < 2 ^ 64"
  proof -
    have "m * 1000000 \<le> t" unfolding m_def by (metis div_mult_mod_eq le_add_same_cancel1 pos_mod_sign zero_less_numeral)
    then show "m * 10000 < 2 ^ 64" "0 \<le> m" using assms unfolding m_def by (simp_all add: pos_imp_zdiv_nonneg_iff)
  qed
  define w where "w = (word_of_int m * 10000 :: u64)"
  have "w = word_of_int (m * 10000)" by (simp add: w_def)
  then have u: "uint w = m * 10000"
    using m by (simp only: unsigned_of_int) (simp add: take_bit_int_eq_self)
  have c: "w < 10000 \<longleftrightarrow> m * 10000 < 10000" unfolding word_less_def u by simp
  have "step_limit t = Some (if w < 10000 then 10000 else w)"
    using assms(1) by (simp add: step_limit_def w_def m_def)
  then show ?thesis using u c by (cases "w < 10000") (simp_all add: m_def)
qed

end
