(* ===== verification/ZTengo.thy ===== *)
theory ZTengo
  imports ZStarlark
begin

text \<open>
  \<open>ztengo/engine.go\<close>: the Tengo engine: the concatenated source, the whitelist of function names
  scanned from it, and the cache of compiled call stubs. Go's regular expressions are the scanners
  below. The compiler and interpreter are parameters: \<open>check\<close> compiles one file, \<open>compile\<close> the
  source of a stub (its errors tell whether a reference was unresolved), \<open>exec\<close> runs a stub.
  The stub cache is a concurrent map, so the steps of a call and of a load interleave at the end of
  the theory.
\<close>

section \<open>Scanning\<close>

definition ident_start :: "char \<Rightarrow> bool" where
  "ident_start c \<longleftrightarrow> (let n = of_char c :: nat in 97 \<le> n \<and> n \<le> 122 \<or> 65 \<le> n \<and> n \<le> 90 \<or> n = 95)"

definition word_char :: "char \<Rightarrow> bool" where
  "word_char c \<longleftrightarrow> ident_start c \<or> is_digit c"

definition space_char :: "char \<Rightarrow> bool" where
  "space_char c \<longleftrightarrow> (of_char c :: nat) \<in> {9, 10, 12, 13, 32}"

definition skip_ws :: "string \<Rightarrow> string" where "skip_ws s = dropWhile space_char s"

text \<open>An identifier at the head of the text, and the rest.\<close>

definition ident_at :: "string \<Rightarrow> (string \<times> string) option" where
  "ident_at s = (case s of [] \<Rightarrow> None
     | c # cs \<Rightarrow> if ident_start c then Some (takeWhile word_char s, dropWhile word_char s) else None)"

definition lit_at :: "string \<Rightarrow> string \<Rightarrow> string option" where
  "lit_at l s = (if HasPrefix s l then Some (drop (length l) s) else None)"

text \<open>\<open>funcDefPattern\<close>, \<open>assignPattern\<close>, \<open>globalMapPattern\<close>, \<open>globalArrayPattern\<close>, matched at a
  word boundary: the captured name and the rest of the text.\<close>

definition func_def_at :: "string \<Rightarrow> (string \<times> string) option" where
  "func_def_at s = (case lit_at ''func'' s of None \<Rightarrow> None | Some r \<Rightarrow>
     if r = skip_ws r then None
     else (case ident_at (skip_ws r) of None \<Rightarrow> None | Some (name, r) \<Rightarrow>
        (case lit_at ''('' (skip_ws r) of None \<Rightarrow> None | Some r \<Rightarrow> Some (name, r))))"

definition assign_at :: "string \<Rightarrow> string \<Rightarrow> (string \<times> string) option" where
  "assign_at value s = (case ident_at s of None \<Rightarrow> None | Some (name, r) \<Rightarrow>
     (case lit_at '':='' (skip_ws r) of None \<Rightarrow> None | Some r \<Rightarrow>
        (case lit_at value (skip_ws r) of None \<Rightarrow> None | Some r \<Rightarrow> Some (name, r))))"

definition assign_func_at :: "string \<Rightarrow> (string \<times> string) option" where
  "assign_func_at s = (case assign_at ''func'' s of None \<Rightarrow> None | Some (name, r) \<Rightarrow>
     (case lit_at ''('' (skip_ws r) of None \<Rightarrow> None | Some r \<Rightarrow> Some (name, r)))"

text \<open>\<open>FindAllStringSubmatch\<close>: leftmost, not overlapping. \<open>prev\<close> tells whether a word character
  precedes.\<close>

fun find_all :: "(string \<Rightarrow> (string \<times> string) option) \<Rightarrow> bool \<Rightarrow> string \<Rightarrow> string list" where
  "find_all f prev [] = []"
| "find_all f prev (c # cs) =
    (case (if prev then None else f (c # cs)) of
       Some (name, r) \<Rightarrow> name # find_all f False (drop (length (c # cs) - length r - 1) cs)
     | None \<Rightarrow> find_all f (word_char c) cs)"

definition extractFunctionNames :: "string \<Rightarrow> string set" where
  "extractFunctionNames code = set (find_all func_def_at False code) \<union> set (find_all assign_func_at False code)"

definition detectGlobalVariables :: "string \<Rightarrow> string set \<Rightarrow> string set" where
  "detectGlobalVariables code knownFuncs =
    (set (find_all (assign_at ''{'') False code) \<union> set (find_all (assign_at ''['') False code)) - knownFuncs"

definition is_identifier :: "string \<Rightarrow> bool" where
  "is_identifier s \<longleftrightarrow> s \<noteq> [] \<and> ident_start (hd s) \<and> list_all word_char s"

section \<open>The engine\<close>

record 'c tengo_engine =
  stubs :: "string \<rightharpoonup> 'c"
  validFunctions :: "string set"
  globalVariables :: "string set"
  sourceMap :: "string \<rightharpoonup> string"
  sourceCode :: string
  t_closed :: bool
  t_timeout :: int
  t_stats :: StatsCollector

definition NewTengoEngine :: "EngineConfig option \<Rightarrow> 'c tengo_engine" where
  "NewTengoEngine config =
    (let config = (case config of None \<Rightarrow> DefaultEngineConfig\<lparr>E_Type := EngineTypeTengo\<rparr> | Some c \<Rightarrow> c)
     in \<lparr>stubs = Map.empty, validFunctions = {}, globalVariables = {}, sourceMap = Map.empty, sourceCode = [],
         t_closed = False, t_timeout = Timeout config, t_stats = NewStatsCollector ''tengo''\<rparr>)"

definition full_code :: "string list \<Rightarrow> (string \<rightharpoonup> string) \<Rightarrow> string" where
  "full_code order sources =
    concat (map (\<lambda>k. (case sources k of None \<Rightarrow> [] | Some s \<Rightarrow> s) @ [CHR 0x0A]) (sort order))"

text \<open>The writes under the lock, in their order: the new state is stored, then the cache is emptied.\<close>

definition store_sources :: "string list \<Rightarrow> (string \<rightharpoonup> string) \<Rightarrow> 'c tengo_engine \<Rightarrow> 'c tengo_engine" where
  "store_sources order new e =
    (let finalSources = sourceMap e ++ new;
         fullCode = full_code order finalSources;
         validFuncs = extractFunctionNames fullCode
     in e\<lparr>validFunctions := validFuncs, globalVariables := detectGlobalVariables fullCode validFuncs,
          sourceMap := finalSources, sourceCode := fullCode\<rparr>)"

definition clear_stubs :: "'c tengo_engine \<Rightarrow> 'c tengo_engine" where
  "clear_stubs e = e\<lparr>stubs := Map.empty\<rparr>"

definition tengo_loadScriptsInternal ::
  "bool \<Rightarrow> i64 \<Rightarrow> (string \<Rightarrow> string load_result) \<Rightarrow> string list \<Rightarrow> string list \<Rightarrow> 'c tengo_engine
     \<Rightarrow> script_error option \<times> 'c tengo_engine" where
  "tengo_loadScriptsInternal closedLater dur src order paths e =
    (if paths = [] then (None, e)
     else if t_closed e then (Some (ErrEngine ''engine is closed''), e)
     else (let (err, e) = (case compile_all src paths Map.empty of
               Inl err \<Rightarrow> (Some err, e)
             | Inr new \<Rightarrow>
                (if closedLater then (Some (ErrEngine ''engine is closed''), e)
                 else (None, clear_stubs (store_sources order new e))))
           in (err, e\<lparr>t_stats := RecordCall dur False (t_stats e)\<rparr>)))"

definition tengo_LoadScript :: "bool \<Rightarrow> i64 \<Rightarrow> (string \<Rightarrow> string load_result) \<Rightarrow> string list \<Rightarrow> string \<Rightarrow> 'c tengo_engine
    \<Rightarrow> script_error option \<times> 'c tengo_engine" where
  "tengo_LoadScript cl dur src order path e = tengo_loadScriptsInternal cl dur src order [path] e"

definition tengo_LoadScripts :: "bool \<Rightarrow> i64 \<Rightarrow> (string \<Rightarrow> string load_result) \<Rightarrow> string list \<Rightarrow> string list \<Rightarrow> 'c tengo_engine
    \<Rightarrow> script_error option \<times> 'c tengo_engine" where
  "tengo_LoadScripts cl dur src order paths e = tengo_loadScriptsInternal cl dur src order paths e"

definition tengo_ReloadScript :: "int \<Rightarrow> bool \<Rightarrow> i64 \<Rightarrow> (string \<Rightarrow> string load_result) \<Rightarrow> string list \<Rightarrow> string \<Rightarrow> 'c tengo_engine
    \<Rightarrow> script_error option \<times> 'c tengo_engine" where
  "tengo_ReloadScript now cl dur src order path e =
    tengo_loadScriptsInternal cl dur src order [path] (e\<lparr>t_stats := RecordReload now (t_stats e)\<rparr>)"

definition tengo_ReloadAllScripts :: "int \<Rightarrow> bool \<Rightarrow> i64 \<Rightarrow> (string \<Rightarrow> string load_result) \<Rightarrow> string list \<Rightarrow> string list
    \<Rightarrow> 'c tengo_engine \<Rightarrow> script_error option \<times> 'c tengo_engine" where
  "tengo_ReloadAllScripts now cl dur src order paths e =
    tengo_loadScriptsInternal cl dur src order paths (e\<lparr>t_stats := RecordReload now (t_stats e)\<rparr>)"

definition tengo_Close :: "'c tengo_engine \<Rightarrow> 'c tengo_engine" where
  "tengo_Close e = clear_stubs (e\<lparr>t_closed := True, sourceMap := Map.empty, sourceCode := [], validFunctions := {},
     globalVariables := {}\<rparr>)"

section \<open>Stubs\<close>

definition isValidFunctionName :: "'c tengo_engine \<Rightarrow> string \<Rightarrow> bool" where
  "isValidFunctionName e function \<longleftrightarrow> is_identifier function \<and> function \<in> validFunctions e"

definition stub_key :: "string \<Rightarrow> nat \<Rightarrow> string" where
  "stub_key function argCount = function @ '':'' @ fmt_d argCount"

definition stub_source :: "string \<Rightarrow> string \<Rightarrow> nat \<Rightarrow> string" where
  "stub_source baseCode function argCount =
    baseCode @ [CHR 0x0A] @ ''__res := '' @ function @ ''(__ctx'' @ concat (map (\<lambda>i. '', __arg'' @ fmt_d i) [0..<argCount]) @ '')''"

datatype 'c compile_result = Unresolved | BadStub | GoodStub 'c

datatype stub_error = StubNotFound | StubUnresolved | StubCompile

definition store_stub :: "string \<Rightarrow> nat \<Rightarrow> 'c \<Rightarrow> 'c tengo_engine \<Rightarrow> 'c tengo_engine" where
  "store_stub function argCount c e = e\<lparr>stubs := (stubs e)(stub_key function argCount \<mapsto> c)\<rparr>"

definition getOrCompileStub ::
  "(string \<Rightarrow> 'c compile_result) \<Rightarrow> string \<Rightarrow> nat \<Rightarrow> 'c tengo_engine \<Rightarrow> (stub_error + 'c) \<times> 'c tengo_engine" where
  "getOrCompileStub compile function argCount e =
    (if \<not> isValidFunctionName e function then (Inl StubNotFound, e)
     else (case stubs e (stub_key function argCount) of
             Some c \<Rightarrow> (Inr c, e)
           | None \<Rightarrow>
              (if sourceCode e = [] then (Inl StubNotFound, e)
               else (case compile (stub_source (sourceCode e) function argCount) of
                       Unresolved \<Rightarrow> (Inl StubUnresolved, e)
                     | BadStub \<Rightarrow> (Inl StubCompile, e)
                     | GoodStub c \<Rightarrow> (Inr c, store_stub function argCount c e)))))"

text \<open>A run: the value of \<open>__res\<close> (absent when the variable does not exist), an interrupted run, or
  another failure; \<open>StubSet\<close> is a failure to set a variable, which the statistics do not count.\<close>

datatype tengo_result = TengoOk "tval option" | TengoInterrupted | TengoFail | StubSet

definition tengo_Call ::
  "(nat \<Rightarrow> bool) \<Rightarrow> (string \<Rightarrow> 'c compile_result) \<Rightarrow> ('c \<Rightarrow> ScriptContext \<Rightarrow> tval list \<Rightarrow> tengo_result) \<Rightarrow> pick \<Rightarrow> i64 \<Rightarrow> i64 \<Rightarrow> bool
     \<Rightarrow> CallParams option \<Rightarrow> string \<Rightarrow> gval list \<Rightarrow> 'c tengo_engine \<times> ctx_heap \<Rightarrow> call_result \<times> 'c tengo_engine \<times> ctx_heap" where
  "tengo_Call obj compile exec cpk millis dur callCtx params function args = (\<lambda>(e, h).
    if t_closed e then (CallErr (ErrEngine ''engine is closed''), e, h)
    else if \<not> callCtx then (CallErr ErrValidation, e, h)
    else (case params of
      None \<Rightarrow> (CallErr ErrValidation, e, h)
    | Some p \<Rightarrow>
       (let (a, h) = GetContext cpk millis (P_ActorID p) (P_ActorType p) h;
            h = h\<lparr>ctx_at := (ctx_at h)(a := fill_context p (ctx_at h a))\<rparr>;
            (stub, e) = getOrCompileStub compile function (length args) e;
            (res, isErr, e) = (case stub of
               Inl StubUnresolved \<Rightarrow> (CallErr ErrFunctionNotFound, True, e)
             | Inl _ \<Rightarrow> (CallErr (ErrScript ''prepare stub failed''), True, e)
             | Inr c \<Rightarrow>
                (case exec c (ctx_at h a) (map (goToTengo obj) args) of
                   StubSet \<Rightarrow> (CallErr (ErrScript ''set failed''), False, e)
                 | TengoInterrupted \<Rightarrow> (CallErr ErrScriptTimeout, True, e\<lparr>t_stats := RecordTimeout (t_stats e)\<rparr>)
                 | TengoFail \<Rightarrow> (CallErr (ErrScript ''run failed''), True, e)
                 | TengoOk None \<Rightarrow> (CallOk GNil, False, e)
                 | TengoOk (Some v) \<Rightarrow> (CallOk (tengoToGo v), False, e)))
        in (res, e\<lparr>t_stats := RecordCall dur isErr (t_stats e)\<rparr>, PutContext a h))))"

definition tengo_GetStats :: "(string \<Rightarrow> (i64 \<times> int) option) \<Rightarrow> string list \<Rightarrow> 'c tengo_engine
    \<Rightarrow> EngineStats \<times> (string \<times> i64 \<times> int) list \<times> nat \<times> nat \<times> nat \<times> nat" where
  "tengo_GetStats stat order e =
    (GetStats (t_stats e),
     concat (map (\<lambda>path. case stat path of None \<Rightarrow> [] | Some (sz, t) \<Rightarrow> [(path, sz, t)]) order),
     length order, card (validFunctions e), card (dom (stubs e)), card (globalVariables e))"

section \<open>The whitelist\<close>

lemma ident_at_identifier: "ident_at s = Some (name, r) \<Longrightarrow> is_identifier name"
proof (cases s)
  case (Cons c cs)
  assume "ident_at s = Some (name, r)"
  then have c: "ident_start c" "name = takeWhile word_char (c # cs)" by (auto simp: ident_at_def Cons split: if_splits)
  then have "name = c # takeWhile word_char cs" by (simp add: word_char_def)
  moreover have "list_all word_char (takeWhile word_char cs)" by (auto simp: list_all_iff dest: set_takeWhileD)
  ultimately show ?thesis using c(1) by (simp add: is_identifier_def word_char_def)
qed (simp add: ident_at_def)

lemma func_def_identifier: "func_def_at s = Some (name, r) \<Longrightarrow> is_identifier name"
  unfolding func_def_at_def by (auto split: option.splits if_splits dest: ident_at_identifier)

lemma assign_identifier: "assign_at v s = Some (name, r) \<Longrightarrow> is_identifier name"
  unfolding assign_at_def by (auto split: option.splits dest: ident_at_identifier)

lemma assign_func_identifier: "assign_func_at s = Some (name, r) \<Longrightarrow> is_identifier name"
  unfolding assign_func_at_def by (auto split: option.splits dest: assign_identifier)

lemma find_all_identifier:
  assumes "\<And>s name r. f s = Some (name, r) \<Longrightarrow> is_identifier name" and "name \<in> set (find_all f prev s)"
  shows "is_identifier name"
  using assms
proof (induction f prev s rule: find_all.induct)
  case (2 f prev c cs)
  show ?case
  proof (cases "if prev then None else f (c # cs)")
    case None
    then show ?thesis using "2.IH"(1) [OF None "2.prems"(1)] "2.prems"(2) by simp
  next
    case (Some nr)
    obtain n r where nr: "nr = (n, r)" by fastforce
    have "f (c # cs) = Some (n, r)" using Some nr by (auto split: if_splits)
    then have "is_identifier n" by (rule "2.prems"(1))
    then show ?thesis using "2.IH"(2) [OF Some nr [symmetric] "2.prems"(1)] "2.prems"(2) Some nr by auto
  qed
qed simp

lemma extract_identifiers: "f \<in> extractFunctionNames code \<Longrightarrow> is_identifier f"
  unfolding extractFunctionNames_def
  by (elim UnE) (erule find_all_identifier [rotated], erule func_def_identifier,
      erule find_all_identifier [rotated], erule assign_func_identifier)

section \<open>The cache\<close>

lemma stub_key_inject:
  assumes "is_identifier f" and "is_identifier g"
  shows "stub_key f m = stub_key g n \<longleftrightarrow> f = g \<and> m = n"
proof -
  have no: "CHR '':'' \<notin> set f" if "is_identifier f" for f
  proof
    assume "CHR '':'' \<in> set f"
    then have "word_char (CHR '':'')" using that by (auto simp: is_identifier_def list_all_iff)
    then show False by (simp add: word_char_def ident_start_def is_digit_def Let_def)
  qed
  have dig: "CHR '':'' \<notin> set (fmt_d n)" for n
    by (rule digit_run_no_sep [OF fmt_d_digits]) (simp add: is_digit_def)
  show ?thesis
    unfolding stub_key_def using append_Cons_eq_iff [OF no [OF assms(1)] dig, of m g "fmt_d n"] by simp
qed

text \<open>The invariant of the cache: the whitelist is that of the current source, and a cached stub is what
  compiling the current source gives.\<close>

definition cache_ok :: "(string \<Rightarrow> 'c compile_result) \<Rightarrow> 'c tengo_engine \<Rightarrow> bool" where
  "cache_ok compile e \<longleftrightarrow> validFunctions e = extractFunctionNames (sourceCode e)
     \<and> (\<forall>f n c. is_identifier f \<longrightarrow> stubs e (stub_key f n) = Some c \<longrightarrow>
          sourceCode e \<noteq> [] \<and> compile (stub_source (sourceCode e) f n) = GoodStub c)"

lemma extract_empty [simp]: "extractFunctionNames [] = {}"
  by (simp add: extractFunctionNames_def)

lemma cache_ok_new: "cache_ok compile (NewTengoEngine config)"
  by (simp add: cache_ok_def NewTengoEngine_def Let_def)

lemma cache_ok_close: "cache_ok compile (tengo_Close e)"
  by (simp add: cache_ok_def tengo_Close_def clear_stubs_def)

lemma cache_ok_stats: "cache_ok compile (e\<lparr>t_stats := s\<rparr>) \<longleftrightarrow> cache_ok compile e"
  by (simp add: cache_ok_def)

lemma cache_ok_load: "cache_ok compile e \<Longrightarrow> cache_ok compile (snd (tengo_loadScriptsInternal cl dur src order paths e))"
  by (auto simp: tengo_loadScriptsInternal_def Let_def cache_ok_stats split: sum.split)
    (simp add: cache_ok_def clear_stubs_def store_sources_def Let_def)

lemma cache_ok_stub:
  assumes "cache_ok compile e"
  shows "cache_ok compile (snd (getOrCompileStub compile f n e))"
proof -
  have "cache_ok compile (store_stub f n c e)"
    if "isValidFunctionName e f" "sourceCode e \<noteq> []" "compile (stub_source (sourceCode e) f n) = GoodStub c" for c
    using assms that
    by (auto simp: cache_ok_def store_stub_def isValidFunctionName_def stub_key_inject split: if_splits)
  then show ?thesis
    using assms by (auto simp: getOrCompileStub_def split: option.split compile_result.split)
qed

text \<open>Executions in which calls and loads do not overlap.\<close>

datatype tengo_op = TLoad bool i64 "string \<Rightarrow> string load_result" "string list" "string list" | TStub string nat | TClose

fun tengo_do :: "(string \<Rightarrow> 'c compile_result) \<Rightarrow> tengo_op \<Rightarrow> 'c tengo_engine \<Rightarrow> 'c tengo_engine" where
  "tengo_do compile (TLoad cl dur src order paths) e = snd (tengo_LoadScripts cl dur src order paths e)"
| "tengo_do compile (TStub f n) e = snd (getOrCompileStub compile f n e)"
| "tengo_do compile TClose e = tengo_Close e"

lemma cache_ok_run: "cache_ok compile (foldl (\<lambda>e opn. tengo_do compile opn e) (NewTengoEngine config) opns)"
proof (induction opns rule: rev_induct)
  case (snoc opn opns)
  then show ?case
    by (cases opn) (simp_all add: tengo_LoadScripts_def cache_ok_load cache_ok_stub cache_ok_close)
qed (simp add: cache_ok_new)

text \<open>Claim C25: The stub cache is transparent as long as calls and loads do not overlap: after any sequence
  of loads, calls and closes, asking for a stub gives what compiling the current source from scratch
  would give, and only names of functions of that source reach the compiler.\<close>

theorem stub_cache_transparent:
  assumes "e = foldl (\<lambda>e opn. tengo_do compile opn e) (NewTengoEngine config) opns"
  shows "fst (getOrCompileStub compile f n e) = fst (getOrCompileStub compile f n (clear_stubs e))
    \<and> (f \<notin> extractFunctionNames (sourceCode e) \<longrightarrow> getOrCompileStub compile f n e = (Inl StubNotFound, e))"
proof -
  have ok: "cache_ok compile e" unfolding assms by (rule cache_ok_run)
  have v: "isValidFunctionName (clear_stubs e) f = isValidFunctionName e f"
    "isValidFunctionName e f \<longleftrightarrow> f \<in> extractFunctionNames (sourceCode e)"
    using ok extract_identifiers by (auto simp: isValidFunctionName_def clear_stubs_def cache_ok_def)
  have cached: "sourceCode e \<noteq> [] \<and> compile (stub_source (sourceCode e) f n) = GoodStub c"
    if "isValidFunctionName e f" "stubs e (stub_key f n) = Some c" for c
    using ok that unfolding cache_ok_def isValidFunctionName_def by blast
  have "fst (getOrCompileStub compile f n e) = fst (getOrCompileStub compile f n (clear_stubs e))"
  proof (cases "isValidFunctionName e f")
    case True
    then show ?thesis
      using cached [OF True]
      by (cases "stubs e (stub_key f n)")
        (auto simp: getOrCompileStub_def v(1), auto simp: clear_stubs_def split: compile_result.split)
  qed (simp add: getOrCompileStub_def v(1))
  moreover have "f \<notin> extractFunctionNames (sourceCode e) \<longrightarrow> getOrCompileStub compile f n e = (Inl StubNotFound, e)"
    by (simp add: getOrCompileStub_def v(2))
  ultimately show ?thesis by blast
qed

definition demo_load :: tengo_op where
  "demo_load = TLoad False 0 (\<lambda>_. Compiled ''f := func(c) {}'') [''a''] [''a'']"

theorem stub_cache_transparent_witness:
  "fst (getOrCompileStub (\<lambda>s. GoodStub (length s)) ''f'' 0
     (foldl (\<lambda>e opn. tengo_do (\<lambda>s. GoodStub (length s)) opn e) (NewTengoEngine None) [demo_load, TStub ''f'' 0])) = Inr 34"
proof -
  let ?e = "foldl (\<lambda>e opn. tengo_do (\<lambda>s. GoodStub (length s)) opn e) (NewTengoEngine None) [demo_load, TStub ''f'' 0]"
  have "fst (getOrCompileStub (\<lambda>s. GoodStub (length s)) ''f'' 0 (clear_stubs ?e)) = Inr 34"
    by code_simp
  then show ?thesis using stub_cache_transparent [OF refl, of "\<lambda>s. GoodStub (length s)" "''f''" 0] by metis
qed

text \<open>A load that overlaps a call can be undone by it: when the call has read the old source and
  the load stores the new one and empties the cache before the call stores its stub, every later
  call of that function runs the old code, until the next load.\<close>

theorem tengo_stale_stub:
  assumes "isValidFunctionName e f" and "stubs e (stub_key f n) = None" and "sourceCode e \<noteq> []"
    and "compile (stub_source (sourceCode e) f n) = GoodStub old"
    and "isValidFunctionName (store_sources order new e) f"
  shows "getOrCompileStub compile f n e = (Inr old, store_stub f n old e)
    \<and> (let e' = store_stub f n old (clear_stubs (store_sources order new e))
       in sourceCode e' = full_code order (sourceMap e ++ new) \<and> getOrCompileStub compile f n e' = (Inr old, e'))"
proof -
  have "isValidFunctionName (store_stub f n old (clear_stubs (store_sources order new e))) f"
    using assms(5) by (simp add: isValidFunctionName_def store_stub_def clear_stubs_def)
  then show ?thesis
    using assms(1-4)
    by (simp add: getOrCompileStub_def Let_def)
      (simp add: store_stub_def clear_stubs_def store_sources_def Let_def)
qed

theorem tengo_stale_stub_witness:
  "let e = tengo_do (\<lambda>s. GoodStub (length s)) demo_load (NewTengoEngine None);
       e' = store_stub ''f'' 0 34 (clear_stubs (store_sources [''a''] [''a'' \<mapsto> ''f := func(c) { return 1 }''] e))
   in fst (getOrCompileStub (\<lambda>s. GoodStub (length s)) ''f'' 0 e') = Inr 34
      \<and> fst (getOrCompileStub (\<lambda>s. GoodStub (length s)) ''f'' 0 (clear_stubs e')) = Inr 44"
proof -
  let ?e = "tengo_do (\<lambda>s. GoodStub (length s)) demo_load (NewTengoEngine None)"
  let ?new = "[''a'' \<mapsto> ''f := func(c) { return 1 }'']"
  have e: "isValidFunctionName ?e ''f''" "stubs ?e (stub_key ''f'' 0) = None" "sourceCode ?e \<noteq> []"
    "(case GoodStub (length (stub_source (sourceCode ?e) ''f'' 0)) of GoodStub n \<Rightarrow> n | _ \<Rightarrow> 0) = 34"
    "isValidFunctionName (store_sources [''a''] ?new ?e) ''f''"
    by code_simp+
  have c: "GoodStub (length (stub_source (sourceCode ?e) ''f'' 0)) = GoodStub 34" using e(4) by simp
  have n: "fst (getOrCompileStub (\<lambda>s. GoodStub (length s)) ''f'' 0
      (clear_stubs (store_stub ''f'' 0 34 (clear_stubs (store_sources [''a''] ?new ?e))))) = Inr 44"
    by code_simp
  let ?e' = "store_stub ''f'' 0 34 (clear_stubs (store_sources [''a''] ?new ?e))"
  have "getOrCompileStub (\<lambda>s. GoodStub (length s)) ''f'' 0 ?e' = (Inr 34, ?e')"
    using tengo_stale_stub [where compile = "\<lambda>s. GoodStub (length s)", OF e(1-3) c e(5)] unfolding Let_def by blast
  then show ?thesis using n unfolding Let_def by (metis fst_conv)
qed

end
