(* ===== verification/ZEngine.thy ===== *)
theory ZEngine
  imports ZJs ZTengo ZGroup
begin

text \<open>
  \<open>zscript/interface.go\<close> and \<open>zscript/adapter\<close>: the contract of \<open>IScriptEngine\<close> as a locale, that the four
  engines meet it, and the adapters that put them into a group. Loads and calls are relations here:
  what an engine may answer and become, for some answers of its interpreter and file system.
\<close>

section \<open>The contract\<close>

text \<open>What a client may do with an engine, and the answers it got.\<close>

datatype engine_event = Loaded "script_error option" | Called call_result | Closing

inductive engine_run :: "('e \<Rightarrow> script_error option \<Rightarrow> 'e \<Rightarrow> bool) \<Rightarrow> ('e \<Rightarrow> call_result \<Rightarrow> 'e \<Rightarrow> bool) \<Rightarrow> ('e \<Rightarrow> 'e)
    \<Rightarrow> 'e \<Rightarrow> engine_event list \<Rightarrow> 'e \<Rightarrow> bool" for load call close where
  idle: "engine_run load call close e [] e"
| loads: "engine_run load call close e tr e1 \<Longrightarrow> load e1 err e2 \<Longrightarrow> engine_run load call close e (tr @ [Loaded err]) e2"
| calls: "engine_run load call close e tr e1 \<Longrightarrow> call e1 res e2 \<Longrightarrow> engine_run load call close e (tr @ [Called res]) e2"
| closes: "engine_run load call close e tr e1 \<Longrightarrow> engine_run load call close e (tr @ [Closing]) (close e1)"

definition refused :: "engine_event \<Rightarrow> bool" where
  "refused ev \<longleftrightarrow> (case ev of Called res \<Rightarrow> (\<exists>err. res = CallErr err) | _ \<Rightarrow> True)"

definition load_failed :: "engine_event \<Rightarrow> bool" where
  "load_failed ev \<longleftrightarrow> (case ev of Loaded err \<Rightarrow> err \<noteq> None | Called _ \<Rightarrow> True | Closing \<Rightarrow> False)"

locale script_engine =
  fixes load :: "'e \<Rightarrow> script_error option \<Rightarrow> 'e \<Rightarrow> bool"
    and call :: "'e \<Rightarrow> call_result \<Rightarrow> 'e \<Rightarrow> bool"
    and close :: "'e \<Rightarrow> 'e"
    and is_closed :: "'e \<Rightarrow> bool"
    and scripts :: "'e \<Rightarrow> string \<Rightarrow> 's option"
  assumes load_atomic: "load e (Some err) e' \<Longrightarrow> scripts e' = scripts e"
    and load_closed: "load e r e' \<Longrightarrow> is_closed e' = is_closed e"
    and call_scripts: "call e res e' \<Longrightarrow> scripts e' = scripts e"
    and call_closed: "call e res e' \<Longrightarrow> is_closed e' = is_closed e"
    and call_refused: "call e res e' \<Longrightarrow> is_closed e \<Longrightarrow> (\<exists>err. res = CallErr err) \<and> e' = e"
    and close_closed: "is_closed (close e)"
    and close_scripts: "\<not> is_closed e \<Longrightarrow> scripts (close e) = Map.empty"
begin

lemma closed_stays: "engine_run load call close e tr e' \<Longrightarrow> is_closed e \<Longrightarrow> is_closed e' \<and> list_all refused tr"
proof (induction rule: engine_run.induct)
  case (calls e tr e1 res e2)
  then show ?case using call_refused call_closed by (auto simp: refused_def)
qed (use load_closed close_closed in \<open>auto simp: refused_def\<close>)

lemma failures_keep_scripts:
  "engine_run load call close e tr e' \<Longrightarrow> list_all load_failed tr \<Longrightarrow> scripts e' = scripts e"
proof (induction rule: engine_run.induct)
  case (loads e tr e1 err e2)
  then show ?case using load_atomic by (cases err) (auto simp: load_failed_def)
qed (use call_scripts in \<open>auto simp: load_failed_def\<close>)

lemma contract:
  "engine_run load call close (close e) tr e' \<Longrightarrow> list_all refused tr"
  "engine_run load call close e tr e' \<Longrightarrow> list_all load_failed tr \<Longrightarrow> scripts e' = scripts e"
  using closed_stays close_closed failures_keep_scripts by blast+

end

section \<open>The four engines\<close>

text \<open>Every way of loading, every call. Contexts live beside the engine.\<close>

inductive lua_load :: "'p lua_engine \<times> ctx_heap \<Rightarrow> script_error option \<Rightarrow> 'p lua_engine \<times> ctx_heap \<Rightarrow> bool" where
  "LoadScripts src paths e = (r, e') \<Longrightarrow> lua_load (e, h) r (e', h)"
| "LoadScript src path e = (r, e') \<Longrightarrow> lua_load (e, h) r (e', h)"
| "ReloadScript now src path e = (r, e') \<Longrightarrow> lua_load (e, h) r (e', h)"
| "ReloadAllScripts now order src e = (r, e') \<Longrightarrow> lua_load (e, h) r (e', h)"

definition lua_call :: "'p lua_engine \<times> ctx_heap \<Rightarrow> call_result \<Rightarrow> 'p lua_engine \<times> ctx_heap \<Rightarrow> bool" where
  "lua_call s res s' \<longleftrightarrow> (\<exists>maxn exec cpk pk ok order now millis dur callCtx params fn args.
     Lua_Call maxn exec cpk pk ok order now millis dur callCtx params fn args s = (res, s'))"

inductive js_load :: "'p js_engine \<Rightarrow> script_error option \<Rightarrow> 'p js_engine \<Rightarrow> bool" where
  "js_LoadScripts dur src paths e = (r, e') \<Longrightarrow> js_load e r e'"
| "js_LoadScript dur src path e = (r, e') \<Longrightarrow> js_load e r e'"
| "js_ReloadScript now dur cwd src path e = (r, e') \<Longrightarrow> js_load e r e'"
| "js_ReloadAllScripts now dur order src e = (r, e') \<Longrightarrow> js_load e r e'"

definition js_call :: "'p js_engine \<Rightarrow> call_result \<Rightarrow> 'p js_engine \<Rightarrow> bool" where
  "js_call s res s' \<longleftrightarrow> (\<exists>hasFn exec pk ok order now millis dur callCtx params fn args.
     js_Call hasFn exec pk ok order now millis dur callCtx params fn args s = (res, s'))"

inductive star_load :: "'f star_engine \<times> ctx_heap \<Rightarrow> script_error option \<Rightarrow> 'f star_engine \<times> ctx_heap \<Rightarrow> bool" where
  "star_LoadScripts cl dur src order paths e = (r, e') \<Longrightarrow> star_load (e, h) r (e', h)"
| "star_LoadScript cl dur src order path e = (r, e') \<Longrightarrow> star_load (e, h) r (e', h)"
| "star_ReloadScript now cl dur src order path e = (r, e') \<Longrightarrow> star_load (e, h) r (e', h)"
| "star_ReloadAllScripts now cl dur src order paths e = (r, e') \<Longrightarrow> star_load (e, h) r (e', h)"

definition star_call :: "'f star_engine \<times> ctx_heap \<Rightarrow> call_result \<Rightarrow> 'f star_engine \<times> ctx_heap \<Rightarrow> bool" where
  "star_call s res s' \<longleftrightarrow> (\<exists>int64_of exec cpk millis dur callCtx params fn args.
     star_Call int64_of exec cpk millis dur callCtx params fn args s = (res, s'))"

inductive tengo_load :: "'c tengo_engine \<times> ctx_heap \<Rightarrow> script_error option \<Rightarrow> 'c tengo_engine \<times> ctx_heap \<Rightarrow> bool" where
  "tengo_LoadScripts cl dur src order paths e = (r, e') \<Longrightarrow> tengo_load (e, h) r (e', h)"
| "tengo_LoadScript cl dur src order path e = (r, e') \<Longrightarrow> tengo_load (e, h) r (e', h)"
| "tengo_ReloadScript now cl dur src order path e = (r, e') \<Longrightarrow> tengo_load (e, h) r (e', h)"
| "tengo_ReloadAllScripts now cl dur src order paths e = (r, e') \<Longrightarrow> tengo_load (e, h) r (e', h)"

definition tengo_call :: "'c tengo_engine \<times> ctx_heap \<Rightarrow> call_result \<Rightarrow> 'c tengo_engine \<times> ctx_heap \<Rightarrow> bool" where
  "tengo_call s res s' \<longleftrightarrow> (\<exists>obj compile exec cpk millis dur callCtx params fn args.
     tengo_Call obj compile exec cpk millis dur callCtx params fn args s = (res, s'))"

lemma lua_load_keeps:
  assumes "lua_load s r s'"
  shows "closed (fst s') = closed (fst s)" and "r \<noteq> None \<Longrightarrow> programs (fst s') = programs (fst s)"
  using assms
  by (induction rule: lua_load.induct; force simp: LoadScripts_def LoadScript_def ReloadScript_def ReloadAllScripts_def
      loadScriptsInternal_def bump_gen_def store_programs_def split: if_splits sum.splits)+

lemma create_attempts_keeps:
  "create_attempts oks order now e = (w, e') \<Longrightarrow> closed e' = closed e \<and> programs e' = programs e"
  by (induction oks arbitrary: e) (auto simp: createVM_def split: prod.splits option.splits if_splits)

lemma vm_get_keeps:
  "vm_get pk ok order now e = (w, e') \<Longrightarrow> closed e' = closed e \<and> programs e' = programs e"
  by (auto simp: vm_get_def safeCreateVM_def simp del: create_attempts.simps
      split: option.splits if_splits dest: create_attempts_keeps)

lemma finish_use_keeps [simp]:
  "closed (finish_use failed now vm e) = closed e" "programs (finish_use failed now vm e) = programs e"
  by (simp_all add: finish_use_def)

lemma lua_call_keeps:
  assumes "lua_call s res s'"
  shows "closed (fst s') = closed (fst s) \<and> programs (fst s') = programs (fst s)
    \<and> (closed (fst s) \<longrightarrow> (\<exists>err. res = CallErr err) \<and> s' = s)"
proof -
  obtain e h where s: "s = (e, h)" by fastforce
  obtain maxn exec cpk pk ok order now millis dur callCtx params fn args where
    c: "Lua_Call maxn exec cpk pk ok order now millis dur callCtx params fn args (e, h) = (res, s')"
    using assms unfolding lua_call_def s by blast
  show ?thesis
  proof (cases "closed e \<or> \<not> callCtx \<or> params = None")
    case True
    then show ?thesis using c unfolding Lua_Call_rejects [OF True] s by auto
  next
    case False
    then obtain p where p: "params = Some p" "\<not> closed e" callCtx by auto
    obtain a h1 where g: "GetContext cpk millis (P_ActorID p) (P_ActorType p) h = (a, h1)" by fastforce
    obtain w e1 where w: "vm_get pk ok order now e = (w, e1)" by fastforce
    note k = vm_get_keeps [OF w]
    show ?thesis
    proof (cases w)
      case None
      then show ?thesis using c p g w k by (auto simp: Lua_Call_def s)
    next
      case (Some vm)
      obtain o1 c1 where x: "exec (begin_use a vm) (fill_context p (ctx_at h1 a)) fn (map goToLua args) = (o1, c1)" by fastforce
      show ?thesis using c p g w k Some x by (auto simp: Lua_Call_def Let_def s split: run_result.splits if_splits)
    qed
  qed
qed

interpretation lua: script_engine lua_load lua_call "\<lambda>(e, h). (Lua_Close e, h)" "\<lambda>(e, h). closed e" "\<lambda>(e, h). programs e"
proof (unfold_locales, goal_cases)
  case (1 e err e')
  then show ?case using lua_load_keeps(2) [OF 1] by (auto simp: case_prod_beta)
next
  case (2 e r e')
  then show ?case using lua_load_keeps(1) [OF 2] by (auto simp: case_prod_beta)
next
  case (3 e res e')
  then show ?case using lua_call_keeps [OF 3] by (simp add: case_prod_beta)
next
  case (4 e res e')
  then show ?case using lua_call_keeps [OF 4] by (simp add: case_prod_beta)
next
  case (5 e res e')
  then show ?case using lua_call_keeps [OF 5(1)] by (simp add: case_prod_beta)
qed (auto simp: case_prod_beta Lua_Close_def bump_gen_def)

lemma js_load_keeps:
  assumes "js_load s r s'"
  shows "j_closed s' = j_closed s" and "r \<noteq> None \<Longrightarrow> j_programs s' = j_programs s"
  using assms
  by (induction rule: js_load.induct; force simp: js_LoadScripts_def js_LoadScript_def js_ReloadScript_def js_ReloadAllScripts_def
      js_loadScriptsInternal_def clearModuleProgram_def Let_def split: if_splits sum.splits option.splits)+

lemma js_attempts_keeps:
  "js_create_attempts oks order now e = (w, e') \<Longrightarrow> j_closed e' = j_closed e \<and> j_programs e' = j_programs e"
proof (induction oks arbitrary: e)
  case (Cons ok oks)
  obtain set_up good set_ctx where ok: "ok = (set_up, good, set_ctx)" by (metis prod_cases3)
  show ?case using Cons.prems Cons.IH
    by (auto simp: ok js_createVM_def Let_def split: prod.splits option.splits if_splits)
qed simp

lemma js_pool_get_keeps:
  "js_pool_get pk ok order now e = (w, e') \<Longrightarrow> j_closed e' = j_closed e \<and> j_programs e' = j_programs e"
  by (auto simp: js_pool_get_def js_safeCreateVM_def simp del: js_create_attempts.simps
      split: option.splits if_splits dest: js_attempts_keeps)

lemma js_finish_keeps [simp]:
  "j_closed (js_finish failed now vm e) = j_closed e" "j_programs (js_finish failed now vm e) = j_programs e"
  by (simp_all add: js_finish_def)

lemma js_call_keeps:
  assumes "js_call s res s'"
  shows "j_closed s' = j_closed s \<and> j_programs s' = j_programs s
    \<and> (j_closed s \<longrightarrow> (\<exists>err. res = CallErr err) \<and> s' = s)"
proof -
  obtain hasFn exec pk ok order now millis dur callCtx params fn args where
    c: "js_Call hasFn exec pk ok order now millis dur callCtx params fn args s = (res, s')"
    using assms unfolding js_call_def by blast
  obtain w e1 where w: "js_pool_get pk ok order now s = (w, e1)" by fastforce
  note k = js_pool_get_keeps [OF w]
  show ?thesis
  proof (cases "j_closed s \<or> \<not> callCtx \<or> params = None \<or> w = None")
    case True
    then show ?thesis using c w k by (auto simp: js_Call_def split: if_splits option.splits)
  next
    case False
    then obtain p vm where p: "params = Some p" "\<not> j_closed s" callCtx "w = Some vm" by auto
    obtain r fired vm2 where x: "exec (js_begin millis p vm) fn args = (r, fired, vm2)" by (metis prod_cases3)
    show ?thesis using c p w k x by (auto simp: js_Call_def Let_def split: js_result.splits if_splits)
  qed
qed

interpretation js: script_engine js_load js_call js_Close j_closed j_programs
proof (unfold_locales, goal_cases)
  case (1 e err e')
  then show ?case using js_load_keeps(2) [OF 1] by simp
next
  case (2 e r e')
  then show ?case by (rule js_load_keeps(1))
next
  case (3 e res e')
  then show ?case using js_call_keeps [OF 3] by simp
next
  case (4 e res e')
  then show ?case using js_call_keeps [OF 4] by simp
next
  case (5 e res e')
  then show ?case using js_call_keeps [OF 5(1)] by simp
qed (auto simp: js_Close_def)

lemma star_load_keeps:
  assumes "star_load s r s'"
  shows "s_closed (fst s') = s_closed (fst s)" and "r \<noteq> None \<Longrightarrow> functionIndex (fst s') = functionIndex (fst s)"
  using assms
  by (induction rule: star_load.induct; force simp: star_LoadScripts_def star_LoadScript_def star_ReloadScript_def
      star_ReloadAllScripts_def star_loadScriptsInternal_def Let_def split: if_splits sum.splits)+

lemma star_call_keeps:
  assumes "star_call s res s'"
  shows "s_closed (fst s') = s_closed (fst s) \<and> functionIndex (fst s') = functionIndex (fst s)
    \<and> (s_closed (fst s) \<longrightarrow> (\<exists>err. res = CallErr err) \<and> s' = s)"
proof -
  obtain e h where s: "s = (e, h)" by fastforce
  obtain int64_of exec cpk millis dur callCtx params fn args where
    c: "star_Call int64_of exec cpk millis dur callCtx params fn args (e, h) = (res, s')"
    using assms unfolding star_call_def s by blast
  show ?thesis
  proof (cases "s_closed e \<or> callCtx = None \<or> params = None")
    case True
    then show ?thesis using c by (auto simp: star_Call_def s split: if_splits option.splits)
  next
    case False
    then obtain p cancelled where p: "params = Some p" "\<not> s_closed e" "callCtx = Some cancelled" by auto
    obtain a h1 where g: "GetContext cpk millis (P_ActorID p) (P_ActorType p) h = (a, h1)" by fastforce
    show ?thesis using c p g
      by (auto simp: star_Call_def Let_def s split: option.splits star_result.splits if_splits)
  qed
qed

interpretation star: script_engine star_load star_call "\<lambda>(e, h). (star_Close e, h)" "\<lambda>(e, h). s_closed e"
    "\<lambda>(e, h). Modules (functionIndex e)"
proof (unfold_locales, goal_cases)
  case (1 e err e')
  then show ?case using star_load_keeps(2) [OF 1] by (auto simp: case_prod_beta)
next
  case (2 e r e')
  then show ?case using star_load_keeps(1) [OF 2] by (auto simp: case_prod_beta)
next
  case (3 e res e')
  then show ?case using star_call_keeps [OF 3] by (simp add: case_prod_beta)
next
  case (4 e res e')
  then show ?case using star_call_keeps [OF 4] by (simp add: case_prod_beta)
next
  case (5 e res e')
  then show ?case using star_call_keeps [OF 5(1)] by (simp add: case_prod_beta)
qed (auto simp: case_prod_beta star_Close_def empty_index_def)

lemma tengo_load_keeps:
  assumes "tengo_load s r s'"
  shows "t_closed (fst s') = t_closed (fst s)" and "r \<noteq> None \<Longrightarrow> sourceMap (fst s') = sourceMap (fst s)"
  using assms
  by (induction rule: tengo_load.induct; force simp: tengo_LoadScripts_def tengo_LoadScript_def tengo_ReloadScript_def
      tengo_ReloadAllScripts_def tengo_loadScriptsInternal_def clear_stubs_def store_sources_def Let_def split: if_splits sum.splits)+

lemma stub_keeps:
  "getOrCompileStub compile f n e = (r, e') \<Longrightarrow> t_closed e' = t_closed e \<and> sourceMap e' = sourceMap e"
  by (auto simp: getOrCompileStub_def store_stub_def split: if_splits option.splits compile_result.splits)

lemma tengo_call_keeps:
  assumes "tengo_call s res s'"
  shows "t_closed (fst s') = t_closed (fst s) \<and> sourceMap (fst s') = sourceMap (fst s)
    \<and> (t_closed (fst s) \<longrightarrow> (\<exists>err. res = CallErr err) \<and> s' = s)"
proof -
  obtain e h where s: "s = (e, h)" by fastforce
  obtain obj compile exec cpk millis dur callCtx params fn args where
    c: "tengo_Call obj compile exec cpk millis dur callCtx params fn args (e, h) = (res, s')"
    using assms unfolding tengo_call_def s by blast
  show ?thesis
  proof (cases "t_closed e \<or> \<not> callCtx \<or> params = None")
    case True
    then show ?thesis using c by (auto simp: tengo_Call_def s split: if_splits option.splits)
  next
    case False
    then obtain p where p: "params = Some p" "\<not> t_closed e" callCtx by auto
    obtain a h1 where g: "GetContext cpk millis (P_ActorID p) (P_ActorType p) h = (a, h1)" by fastforce
    obtain st e1 where w: "getOrCompileStub compile fn (length args) e = (st, e1)" by fastforce
    show ?thesis using c p g w stub_keeps [OF w]
      by (auto simp: tengo_Call_def Let_def s split: sum.splits stub_error.splits tengo_result.splits option.splits)
  qed
qed

interpretation tengo: script_engine tengo_load tengo_call "\<lambda>(e, h). (tengo_Close e, h)" "\<lambda>(e, h). t_closed e"
    "\<lambda>(e, h). sourceMap e"
proof (unfold_locales, goal_cases)
  case (1 e err e')
  then show ?case using tengo_load_keeps(2) [OF 1] by (auto simp: case_prod_beta)
next
  case (2 e r e')
  then show ?case using tengo_load_keeps(1) [OF 2] by (auto simp: case_prod_beta)
next
  case (3 e res e')
  then show ?case using tengo_call_keeps [OF 3] by (simp add: case_prod_beta)
next
  case (4 e res e')
  then show ?case using tengo_call_keeps [OF 4] by (simp add: case_prod_beta)
next
  case (5 e res e')
  then show ?case using tengo_call_keeps [OF 5(1)] by (simp add: case_prod_beta)
qed (auto simp: case_prod_beta tengo_Close_def clear_stubs_def)

text \<open>Claim C23: All four engines keep the contract of \<open>IScriptEngine.Close\<close>: once an engine has been closed,
  whatever loads, calls and closes follow and whatever scripts and interpreters do, no call
  succeeds.\<close>

theorem closed_engines_run_nothing:
  assumes "engine_run lua_load lua_call (\<lambda>(e, h). (Lua_Close e, h)) (Lua_Close e1, h1) tr1 s1"
    and "engine_run js_load js_call js_Close (js_Close e2) tr2 s2"
    and "engine_run star_load star_call (\<lambda>(e, h). (star_Close e, h)) (star_Close e3, h3) tr3 s3"
    and "engine_run tengo_load tengo_call (\<lambda>(e, h). (tengo_Close e, h)) (tengo_Close e4, h4) tr4 s4"
  shows "list_all refused (tr1 @ tr2 @ tr3 @ tr4)"
  using lua.contract(1) [of "(e1, h1)" tr1 s1] js.contract(1) [of e2 tr2 s2] star.contract(1) [of "(e3, h3)" tr3 s3]
    tengo.contract(1) [of "(e4, h4)" tr4 s4] assms by simp

theorem closed_engines_run_nothing_witness:
  "engine_run js_load js_call js_Close (js_Close demo_js)
     [Loaded None, Called (CallErr (ErrScript ''engine closed''))]
     (snd (js_LoadScript 0 (\<lambda>_. Compiled 1) ''a'' (js_Close demo_js)))
   \<and> refused (Called (CallErr (ErrScript ''engine closed'')))"
proof -
  let ?load = "js_LoadScript 0 (\<lambda>_. Compiled 1) ''a'' (js_Close demo_js)"
  have l: "js_load (js_Close demo_js) None (snd ?load)"
    by (rule js_load.intros(2) [of 0 "\<lambda>_. Compiled 1" "''a''"])
      (simp add: js_LoadScript_def js_loadScriptsInternal_def Let_def)
  have "j_closed (snd ?load)" using js_load_keeps(1) [OF l] js.close_closed by simp
  then have c: "js_call (snd ?load) (CallErr (ErrScript ''engine closed'')) (snd ?load)"
    by (auto simp: js_call_def js_Call_def)
  have r: "engine_run js_load js_call js_Close (js_Close demo_js)
      [Loaded None, Called (CallErr (ErrScript ''engine closed''))] (snd ?load)"
    using engine_run.calls [where call = js_call, OF engine_run.loads [where load = js_load, OF engine_run.idle l] c] by simp
  show ?thesis
    using closed_engines_run_nothing [OF engine_run.idle r engine_run.idle engine_run.idle] r by simp
qed

text \<open>Claim C24: Loading is all or nothing in all four engines: as long as every load fails, whatever
  calls happen in between, the loaded scripts stay exactly what they were.\<close>

theorem failed_loads_change_nothing:
  assumes "engine_run lua_load lua_call (\<lambda>(e, h). (Lua_Close e, h)) (e1, h1) tr1 (e1', h1')"
    and "engine_run js_load js_call js_Close e2 tr2 e2'"
    and "engine_run star_load star_call (\<lambda>(e, h). (star_Close e, h)) (e3, h3) tr3 (e3', h3')"
    and "engine_run tengo_load tengo_call (\<lambda>(e, h). (tengo_Close e, h)) (e4, h4) tr4 (e4', h4')"
    and "list_all load_failed (tr1 @ tr2 @ tr3 @ tr4)"
  shows "programs e1' = programs e1 \<and> j_programs e2' = j_programs e2
    \<and> Modules (functionIndex e3') = Modules (functionIndex e3) \<and> sourceMap e4' = sourceMap e4"
  using lua.contract(2) [OF assms(1)] js.contract(2) [OF assms(2)] star.contract(2) [OF assms(3)]
    tengo.contract(2) [OF assms(4)] assms(5) by simp

theorem failed_loads_change_nothing_witness:
  "\<exists>err. engine_run js_load js_call js_Close demo_js [Loaded (Some err)] demo_js
     \<and> j_programs demo_js = j_programs (NewJsEngine (Some ''/srv'') None :: nat js_engine)"
proof -
  have l: "js_load demo_js (Some (ErrScript ''read failed'')) demo_js"
    by (rule js_load.intros(2) [of 0 "\<lambda>_. ReadFailed" "''a''"]) (simp add: js_LoadScript_def js_loadScriptsInternal_def)
  have r: "engine_run js_load js_call js_Close demo_js [Loaded (Some (ErrScript ''read failed''))] demo_js"
    using engine_run.loads [where load = js_load, OF engine_run.idle l] by simp
  have "j_programs demo_js = j_programs demo_js"
    using failed_loads_change_nothing [OF engine_run.idle r engine_run.idle engine_run.idle] by (simp add: load_failed_def)
  then show ?thesis using r by (auto simp: demo_js_def)
qed

section \<open>Adapters\<close>

text \<open>The adapters' \<open>Call\<close> rejects parameters of another type.\<close>

definition adapter_Call :: "(CallParams option \<Rightarrow> 's \<Rightarrow> call_result \<times> 's) \<Rightarrow> CallParams option option \<Rightarrow> 's \<Rightarrow> call_result \<times> 's" where
  "adapter_Call call params s =
    (case params of None \<Rightarrow> (CallErr ErrInvalidArgument, s) | Some callParams \<Rightarrow> call callParams s)"

text \<open>The engines of a process; a group knows them by number.\<close>

record ('p, 'q, 'f, 'c) engines =
  luaEngine :: "'p lua_engine"
  jsEngine :: "'q js_engine"
  starlarkEngine :: "'f star_engine"
  tengoEngine :: "'c tengo_engine"

definition group_config :: "EngineType \<Rightarrow> string \<Rightarrow> int \<Rightarrow> EngineConfig" where
  "group_config t dir pool = \<lparr>E_Type = t, ScriptDir = dir, Timeout = 5000000000, MaxMemory = 0, EnableInstructionCount = False,
     MaxInstructions = 0, VMPoolSize = pool, MaxVMUseCount = 0, MaxVMAge = 0, AllowRequireWithoutScriptDir = False\<rparr>"

definition InitScriptEnginesForGroup :: "string option \<Rightarrow> Group \<Rightarrow> string \<Rightarrow> ('p, 'q, 'f, 'c) engines \<times> Group" where
  "InitScriptEnginesForGroup cwd g scriptBaseDir =
    (let g = SetScriptEngine ''lua'' (Some 0) g;
         g = SetScriptEngine ''javascript'' (Some 1) g;
         g = SetScriptEngine ''starlark'' (Some 2) g;
         g = SetScriptEngine ''tengo'' (Some 3) g
     in (\<lparr>luaEngine = NewLuaEngine (Some (group_config EngineTypeLua (scriptBaseDir @ ''/lua'') 100)),
          jsEngine = NewJsEngine cwd (Some (group_config EngineTypeJS (scriptBaseDir @ ''/js'') 100)),
          starlarkEngine = NewStarEngine (Some (group_config EngineTypeStarlark (scriptBaseDir @ ''/starlark'') 0)),
          tengoEngine = NewTengoEngine (Some (group_config EngineTypeTengo (scriptBaseDir @ ''/tengo'') 0))\<rparr>, g))"

definition close_engine :: "nat \<Rightarrow> ('p, 'q, 'f, 'c) engines \<Rightarrow> ('p, 'q, 'f, 'c) engines" where
  "close_engine i es =
    (if i = 0 then es\<lparr>luaEngine := Lua_Close (luaEngine es)\<rparr>
     else if i = 1 then es\<lparr>jsEngine := js_Close (jsEngine es)\<rparr>
     else if i = 2 then es\<lparr>starlarkEngine := star_Close (starlarkEngine es)\<rparr>
     else if i = 3 then es\<lparr>tengoEngine := tengo_Close (tengoEngine es)\<rparr>
     else es)"

definition CleanupScriptEngines :: "string list \<Rightarrow> Group \<Rightarrow> ('p, 'q, 'f, 'c) engines \<Rightarrow> ('p, 'q, 'f, 'c) engines \<times> Group" where
  "CleanupScriptEngines order g es = (let (ids, g) = CloseScriptEngines order g in (fold close_engine ids es, g))"

definition engine_closed :: "nat \<Rightarrow> ('p, 'q, 'f, 'c) engines \<Rightarrow> bool" where
  "engine_closed i es = (if i = 0 then closed (luaEngine es) else if i = 1 then j_closed (jsEngine es)
     else if i = 2 then s_closed (starlarkEngine es) else t_closed (tengoEngine es))"

lemma close_engine_closes: "i < 4 \<Longrightarrow> engine_closed i (close_engine i es)"
  by (auto simp: engine_closed_def close_engine_def Lua_Close_def bump_gen_def js_Close_def star_Close_def tengo_Close_def
      clear_stubs_def)

lemma close_engine_keeps: "engine_closed i es \<Longrightarrow> engine_closed i (close_engine j es)"
  by (auto simp: engine_closed_def close_engine_def Lua_Close_def bump_gen_def js_Close_def star_Close_def tengo_Close_def
      clear_stubs_def)

lemma fold_close_keeps: "engine_closed i es \<Longrightarrow> engine_closed i (fold close_engine ids es)"
  by (induction ids arbitrary: es) (simp_all add: close_engine_keeps)

lemma fold_close: "i \<in> set ids \<Longrightarrow> i < 4 \<Longrightarrow> engine_closed i (fold close_engine ids es)"
proof (induction ids arbitrary: es)
  case (Cons j ids)
  then show ?case using fold_close_keeps [OF close_engine_closes] by (cases "i = j") auto
qed simp

text \<open>Shutting a group down leaves no script engine usable: after the engines have been set up
  for a group and cleaned up, whatever the order of the map, all four are closed and the group no
  longer hands any out.\<close>

theorem cleanup_closes_all:
  assumes "InitScriptEnginesForGroup cwd g base = (es, g1)" and "set order = dom (scriptEngines g1)"
    and "CleanupScriptEngines order g1 es = (es', g2)"
  shows "closed (luaEngine es') \<and> j_closed (jsEngine es') \<and> s_closed (starlarkEngine es') \<and> t_closed (tengoEngine es')
    \<and> GetScriptEngine t g2 = None"
proof -
  have m: "scriptEngines g1 ''lua'' = Some 0" "scriptEngines g1 ''javascript'' = Some 1"
      "scriptEngines g1 ''starlark'' = Some 2" "scriptEngines g1 ''tengo'' = Some 3"
    using assms(1) by (auto simp: InitScriptEnginesForGroup_def SetScriptEngine_def Let_def)
  let ?ids = "map snd (items order (scriptEngines g1))"
  have mem: "i \<in> set ?ids" if "scriptEngines g1 k = Some i" for k i
  proof -
    have "k \<in> set order" using that assms(2) by blast
    then show ?thesis using that by (force simp: items_def)
  qed
  have "es' = fold close_engine ?ids es" "scriptEngines g2 = Map.empty"
    using assms(3) by (auto simp: CleanupScriptEngines_def CloseScriptEngines_def)
  moreover have "engine_closed 0 (fold close_engine ?ids es)" by (rule fold_close [OF mem [OF m(1)]]) simp
  moreover have "engine_closed 1 (fold close_engine ?ids es)" by (rule fold_close [OF mem [OF m(2)]]) simp
  moreover have "engine_closed 2 (fold close_engine ?ids es)" by (rule fold_close [OF mem [OF m(3)]]) simp
  moreover have "engine_closed 3 (fold close_engine ?ids es)" by (rule fold_close [OF mem [OF m(4)]]) simp
  ultimately show ?thesis by (simp add: engine_closed_def GetScriptEngine_def)
qed

theorem cleanup_closes_all_witness:
  "closed (luaEngine (fst (case InitScriptEnginesForGroup None (NewGroup 1 False) ''s'' of (es, g) \<Rightarrow>
     CleanupScriptEngines [''tengo'', ''lua'', ''javascript'', ''starlark''] g
       (es :: (nat, nat, nat, nat) engines))))"
proof -
  let ?o = "[''tengo'', ''lua'', ''javascript'', ''starlark'']"
  obtain es :: "(nat, nat, nat, nat) engines" and g where i: "InitScriptEnginesForGroup None (NewGroup 1 False) ''s'' = (es, g)"
    by fastforce
  obtain es' g2 where c: "CleanupScriptEngines ?o g es = (es', g2)" by fastforce
  have "set ?o = dom (scriptEngines g)"
    using i by (auto simp: InitScriptEnginesForGroup_def SetScriptEngine_def NewGroup_def Let_def split: if_splits)
  from cleanup_closes_all [OF i this c] show ?thesis by (simp add: i c)
qed

end
