(* ===== verification/ZTrace.thy ===== *)
theory ZTrace
  imports ZStr "HOL-Library.Char_ord"
begin

text \<open>
  \<open>ztrace/trace.go\<close>: parsing and printing of trace and span identifiers in the W3C \<open>traceparent\<close>
  form. A trace identifier is two 64 bit words, printed as 32 hexadecimal digits (big endian).
  Strings are lists of bytes shown as characters; the white space that \<open>strings.TrimSpace\<close>
  removes is the ASCII one (a header is ASCII text). The random source of new identifiers and
  the identifier generator \<open>zid.NextFast\<close> are parameters.
\<close>

type_synonym trace_id = "u64 \<times> u64"

section \<open>Hexadecimal text (encoding/hex) and parts of strings\<close>

definition hex_char :: "nat \<Rightarrow> char" where
  "hex_char d = char_of (if d < 10 then 48 + d else 87 + d)"

definition hex_val :: "char \<Rightarrow> nat option" where
  "hex_val c = (let n = of_char c :: nat in
     if 48 \<le> n \<and> n \<le> 57 then Some (n - 48)
     else if 97 \<le> n \<and> n \<le> 102 then Some (n - 87)
     else if 65 \<le> n \<and> n \<le> 70 then Some (n - 55) else None)"

definition EncodeToString :: "byte list \<Rightarrow> string" where
  "EncodeToString bs = concat (map (\<lambda>b. [hex_char (unat b div 16), hex_char (unat b mod 16)]) bs)"

fun DecodeString :: "string \<Rightarrow> byte list option" where
  "DecodeString [] = Some []"
| "DecodeString [c] = None"
| "DecodeString (c # d # s) = (case (hex_val c, hex_val d, DecodeString s) of
     (Some x, Some y, Some bs) \<Rightarrow> Some (word_of_nat (16 * x + y) # bs) | _ \<Rightarrow> None)"

definition is_space :: "char \<Rightarrow> bool" where
  "is_space c = (let n = of_char c :: nat in n = 32 \<or> (9 \<le> n \<and> n \<le> 13))"

definition TrimSpace :: "string \<Rightarrow> string" where
  "TrimSpace s = rev (dropWhile is_space (rev (dropWhile is_space s)))"

text \<open>\<open>strings.SplitN\<close> with a separator of one character: at most \<open>n\<close> parts, the last one unsplit.\<close>

fun SplitN :: "char \<Rightarrow> nat \<Rightarrow> string \<Rightarrow> string list" where
  "SplitN c 0 s = []"
| "SplitN c (Suc 0) s = [s]"
| "SplitN c (Suc n) s = (if c \<in> set s
     then takeWhile (\<lambda>x. x \<noteq> c) s # SplitN c n (tl (dropWhile (\<lambda>x. x \<noteq> c) s)) else [s])"

section \<open>Identifiers\<close>

definition hex16 :: "string \<Rightarrow> trace_id option" where
  "hex16 s = (case DecodeString s of
     Some buf \<Rightarrow> if length buf \<noteq> 16 then None else Some (be_word (take 8 buf), be_word (drop 8 buf))
   | None \<Rightarrow> None)"

definition hex8 :: "string \<Rightarrow> u64 option" where
  "hex8 s = (case DecodeString s of
     Some buf \<Rightarrow> if length buf \<noteq> 8 then None else Some (be_word buf)
   | None \<Rightarrow> None)"

definition ParseTraceparent :: "string \<Rightarrow> trace_id \<times> u64" where
  "ParseTraceparent s =
    (if s = [] then ((0, 0), 0)
     else (let parts = SplitN (CHR ''-'') 5 s in
       if length parts < 4 then ((0, 0), 0)
       else (let tidStr = TrimSpace (parts ! 1); sidStr = TrimSpace (parts ! 2) in
         if length tidStr \<noteq> 32 \<or> length sidStr \<noteq> 16 then ((0, 0), 0)
         else (case hex16 tidStr of
             None \<Rightarrow> ((0, 0), 0)
           | Some traceID \<Rightarrow> (case hex8 sidStr of
               None \<Rightarrow> ((0, 0), 0)
             | Some spanID \<Rightarrow> (traceID, spanID))))))"

definition TraceIDIsZero :: "trace_id \<Rightarrow> bool" where
  "TraceIDIsZero t = (fst t = 0 \<and> snd t = 0)"

definition TraceIDToHex :: "trace_id \<Rightarrow> string" where
  "TraceIDToHex t = (if TraceIDIsZero t then [] else EncodeToString (be_bytes 8 (fst t) @ be_bytes 8 (snd t)))"

definition SpanIDToHex :: "u64 \<Rightarrow> string" where
  "SpanIDToHex s = (if s = 0 then [] else EncodeToString (be_bytes 8 s))"

definition ParseTraceparentString :: "string \<Rightarrow> string \<times> string" where
  "ParseTraceparentString s = (let (traceID, spanID) = ParseTraceparent s in (TraceIDToHex traceID, SpanIDToHex spanID))"

definition TraceIDFromHex :: "string \<Rightarrow> trace_id" where
  "TraceIDFromHex s = (if length s \<noteq> 32 then (0, 0) else (case hex16 s of None \<Rightarrow> (0, 0) | Some t \<Rightarrow> t))"

definition SpanIDFromHex :: "string \<Rightarrow> u64" where
  "SpanIDFromHex s = (if length s \<noteq> 16 then 0 else (case hex8 s of None \<Rightarrow> 0 | Some t \<Rightarrow> t))"

text \<open>\<open>rand.Read\<close>: the sixteen bytes read, or \<open>None\<close> on an error.\<close>

definition GenerateTraceID :: "byte list option \<Rightarrow> trace_id" where
  "GenerateTraceID rnd = (case rnd of None \<Rightarrow> (0, 0) | Some buf \<Rightarrow> (be_word (take 8 buf), be_word (drop 8 buf)))"

definition ParseOrGenerate :: "byte list option \<Rightarrow> u64 \<Rightarrow> string \<Rightarrow> trace_id \<times> u64" where
  "ParseOrGenerate rnd NextFast traceparent = (let (traceID, spanID) = ParseTraceparent traceparent in
     if TraceIDIsZero traceID \<and> spanID = 0 then (GenerateTraceID rnd, NextFast) else (traceID, spanID))"

text \<open>A request is its \<open>traceparent\<close> header (empty when missing), or \<open>None\<close> for a nil request.\<close>

definition ExtractFromHTTPRequest :: "string option \<Rightarrow> trace_id \<times> u64" where
  "ExtractFromHTTPRequest r = (case r of None \<Rightarrow> ((0, 0), 0) | Some hdr \<Rightarrow> ParseTraceparent hdr)"

definition ExtractOrGenerateFromHTTPRequest :: "byte list option \<Rightarrow> u64 \<Rightarrow> string option \<Rightarrow> trace_id \<times> u64" where
  "ExtractOrGenerateFromHTTPRequest rnd NextFast r = (let (traceID, spanID) = ExtractFromHTTPRequest r in
     if TraceIDIsZero traceID \<and> spanID = 0 then (GenerateTraceID rnd, NextFast) else (traceID, spanID))"

definition LogFields :: "trace_id \<Rightarrow> u64 \<Rightarrow> (string \<times> string) list" where
  "LogFields traceID spanID =
    (if TraceIDIsZero traceID \<and> spanID = 0 then []
     else (let tidHex = TraceIDToHex traceID; sidHex = SpanIDToHex spanID in
       if sidHex = [] then [(''traceId'', tidHex)]
       else if tidHex = [] then [(''spanId'', sidHex)]
       else [(''traceId'', tidHex), (''spanId'', sidHex)]))"

section \<open>Laws of the hexadecimal text\<close>

lemma hex_val_char [simp]: "d < 16 \<Longrightarrow> hex_val (hex_char d) = Some d"
  by (simp add: hex_val_def hex_char_def Let_def)

lemma hex_byte: "word_of_nat (16 * (unat b div 16) + unat b mod 16) = (b :: byte)"
  by simp

lemma unat_byte_div: "unat (b :: byte) div 16 < 16"
  using unsigned_less [of b, where 'a = nat] by simp

lemma Decode_Encode [simp]: "DecodeString (EncodeToString bs) = Some bs"
  by (induction bs) (simp_all add: EncodeToString_def unat_byte_div)

lemma length_Encode [simp]: "length (EncodeToString bs) = 2 * length bs"
  by (induction bs) (simp_all add: EncodeToString_def)

lemma hex_char_plain: "d < 16 \<Longrightarrow> \<not> is_space (hex_char d) \<and> hex_char d \<noteq> CHR ''-''"
proof -
  assume d: "d < 16"
  have "(of_char (hex_char d) :: nat) = (if d < 10 then 48 + d else 87 + d)" using d by (simp add: hex_char_def)
  moreover have "(of_char (CHR ''-'') :: nat) = 45" by simp
  ultimately show ?thesis by (auto simp: is_space_def Let_def split: if_splits)
qed

lemma Encode_plain: "c \<in> set (EncodeToString bs) \<Longrightarrow> \<not> is_space c \<and> c \<noteq> CHR ''-''"
  using hex_char_plain unat_byte_div by (auto simp: EncodeToString_def)

lemma TrimSpace_plain: "(\<And>c. c \<in> set s \<Longrightarrow> \<not> is_space c) \<Longrightarrow> TrimSpace s = s"
proof -
  assume p: "\<And>c. c \<in> set s \<Longrightarrow> \<not> is_space c"
  have "dropWhile is_space xs = xs" if "set xs \<subseteq> set s" for xs
    using that p by (cases xs) auto
  then show ?thesis by (simp add: TrimSpace_def)
qed

lemma SplitN_part:
  assumes "c \<notin> set p" "0 < n"
  shows "SplitN c (Suc n) (p @ c # s) = p # SplitN c n s"
proof -
  have "takeWhile (\<lambda>x. x \<noteq> c) (p @ c # s) = p" "dropWhile (\<lambda>x. x \<noteq> c) (p @ c # s) = c # s"
    using assms(1) by (induction p) auto
  then show ?thesis using assms(2) by (cases n) auto
qed

lemma SplitN_traceparent:
  assumes "CHR ''-'' \<notin> set t" "CHR ''-'' \<notin> set u"
  shows "SplitN (CHR ''-'') 5 (''00-'' @ t @ ''-'' @ u @ ''-'' @ flags)
    = [''00'', t, u] @ SplitN (CHR ''-'') 2 flags"
proof -
  have "SplitN (CHR ''-'') 5 (''00-'' @ t @ ''-'' @ u @ ''-'' @ flags)
      = SplitN (CHR ''-'') (Suc 4) (''00'' @ CHR ''-'' # (t @ CHR ''-'' # (u @ CHR ''-'' # flags)))" by simp
  also have "\<dots> = ''00'' # SplitN (CHR ''-'') (Suc 3) (t @ CHR ''-'' # (u @ CHR ''-'' # flags))"
    by (subst SplitN_part) simp_all
  also have "\<dots> = [''00'', t] @ SplitN (CHR ''-'') (Suc 2) (u @ CHR ''-'' # flags)"
    using assms(1) by (subst SplitN_part) simp_all
  also have "\<dots> = [''00'', t, u] @ SplitN (CHR ''-'') 2 flags"
    using assms(2) by (subst SplitN_part) simp_all
  finally show ?thesis .
qed

lemma SplitN_nonempty: "0 < n \<Longrightarrow> SplitN c n s \<noteq> []"
  by (cases "(c, n, s)" rule: SplitN.cases) auto

lemma hex16_Encode [simp]: "hex16 (EncodeToString (be_bytes 8 a @ be_bytes 8 b)) = Some (a, b)"
  by (simp add: hex16_def be_word_be_bytes)

lemma hex8_Encode [simp]: "hex8 (EncodeToString (be_bytes 8 a)) = Some a"
  by (simp add: hex8_def be_word_be_bytes)

lemma no_dash_Encode [simp]: "CHR ''-'' \<notin> set (EncodeToString bs)"
  using Encode_plain by blast

lemma TrimSpace_Encode [simp]: "TrimSpace (EncodeToString bs) = EncodeToString bs"
  by (rule TrimSpace_plain) (use Encode_plain in blast)

section \<open>Round trips\<close>

text \<open>A header built from a trace and a span identifier, neither of them zero, parses back to both,
  whatever the flags are.\<close>

theorem traceparent_roundtrip:
  assumes "t \<noteq> (0, 0)" "s \<noteq> 0"
  shows "ParseTraceparent (''00-'' @ TraceIDToHex t @ ''-'' @ SpanIDToHex s @ ''-'' @ flags) = (t, s)"
proof -
  obtain a b where t: "t = (a, b)" by fastforce
  have z: "\<not> TraceIDIsZero t" using assms(1) by (auto simp: TraceIDIsZero_def t)
  let ?t = "EncodeToString (be_bytes 8 a @ be_bytes 8 b)" and ?u = "EncodeToString (be_bytes 8 s)"
  have hex: "TraceIDToHex t = ?t" "SpanIDToHex s = ?u"
    using z assms(2) by (simp_all add: TraceIDToHex_def SpanIDToHex_def t)
  note split = SplitN_traceparent [OF no_dash_Encode no_dash_Encode]
  have "0 < length (SplitN (CHR ''-'') 2 flags)" using SplitN_nonempty [of 2 "CHR ''-''" flags] by simp
  then show ?thesis
    unfolding hex ParseTraceparent_def split Let_def by (simp add: t)
qed

theorem traceparent_roundtrip_witness:
  "ParseTraceparent (''00-'' @ TraceIDToHex (1, 2) @ ''-'' @ SpanIDToHex 3 @ ''-'' @ ''01'') = ((1, 2), 3)"
  by (rule traceparent_roundtrip) simp_all

text \<open>The printed forms of identifiers, zero included, parse back to them.\<close>

theorem trace_hex_roundtrip:
  "TraceIDFromHex (TraceIDToHex t) = t \<and> SpanIDFromHex (SpanIDToHex s) = s"
  by (cases t) (simp add: TraceIDFromHex_def TraceIDToHex_def SpanIDFromHex_def SpanIDToHex_def TraceIDIsZero_def)

text \<open>A missing or malformed header gets a generated identifier; a valid one is kept.\<close>

theorem ParseOrGenerate_cases:
  "ParseOrGenerate rnd n hdr = (if ParseTraceparent hdr = ((0, 0), 0) then (GenerateTraceID rnd, n) else ParseTraceparent hdr)"
  by (cases "ParseTraceparent hdr") (auto simp: ParseOrGenerate_def TraceIDIsZero_def)

end
