(* ===== verification/ZText.thy ===== *)
theory ZText
  imports ZStr ZFloat "HOL-Library.Signed_Division"
begin

text \<open>
  The number formatting of \<open>zmetrics/metrics.go\<close> (\<open>formatInt\<close>, \<open>appendInt\<close>, \<open>appendFloat\<close>) and
  the label escaping of \<open>pool_observer.go\<close> and \<open>monitor_prom.go\<close>, which write the Prometheus
  text. A builder's text is a list of characters; doubles are finite and below \<open>2^63\<close> in
  magnitude, where the conversion to \<open>int64\<close> is defined. What the texts denote is given by
  reference definitions: the decimal text \<open>int_str\<close> of an integer, and the rational
  \<open>decimal_value\<close> of a text.
\<close>

section \<open>Integers\<close>

definition quot10 :: "i64 \<Rightarrow> i64" where "quot10 v = word_of_int (sint v sdiv 10)"
definition rem10 :: "i64 \<Rightarrow> i64" where "rem10 v = word_of_int (sint v smod 10)"

text \<open>The digits are written from the end of the buffer; \<open>None\<close> is an index out of range.\<close>

fun formatInt_loop :: "nat \<Rightarrow> i64 \<Rightarrow> byte list \<Rightarrow> (nat \<times> i64 \<times> byte list) option" where
  "formatInt_loop i v buf = (if sint v < 10 then Some (i, v, buf)
     else (case i of 0 \<Rightarrow> None
       | Suc j \<Rightarrow> formatInt_loop j (quot10 v) (buf[j := ucast (48 + rem10 v)])))"

declare formatInt_loop.simps [simp del]

definition formatInt :: "byte list \<Rightarrow> i64 \<Rightarrow> (byte list \<times> nat) option" where
  "formatInt buf v = (let neg = sint v < 0; v = (if neg then - v else v) in
     case formatInt_loop (length buf) v buf of
       Some (Suc j, v, buf) \<Rightarrow>
         (let buf = buf[j := ucast (48 + v)] in
          if neg then (case j of Suc k \<Rightarrow> Some (buf[k := 45], k) | 0 \<Rightarrow> None) else Some (buf, j))
     | _ \<Rightarrow> None)"

definition byte_char :: "byte \<Rightarrow> char" where "byte_char b = char_of (unat b)"

text \<open>\<open>appendInt\<close> formats into twenty bytes, which are always enough (\<open>formatInt_total\<close>).\<close>

definition appendInt :: "i64 \<Rightarrow> string" where
  "appendInt v = (case formatInt (replicate 20 0) v of
     Some (buf, n) \<Rightarrow> map byte_char (drop n buf) | None \<Rightarrow> [])"

section \<open>Floats\<close>

definition f64_to_i64 :: "f64 \<Rightarrow> i64" where "f64_to_i64 v = word_of_int (trunc v)"
definition i64_to_f64 :: "i64 \<Rightarrow> f64" where "i64_to_f64 w = f64_round (of_int (sint w))"

function trim_zeros :: "i64 \<Rightarrow> i64" where
  "trim_zeros v = (if sint v > 0 \<and> sint (rem10 v) = 0 then trim_zeros (quot10 v) else v)"
  by auto

text \<open>The digits after the point: zero padding, then the digits without their trailing zeros.\<close>

definition frac_text :: "i64 \<Rightarrow> string" where
  "frac_text fracPart =
    (let pad = concat (map (\<lambda>d. if sint fracPart < d then ''0'' else []) [100000, 10000, 1000, 100, 10]);
         fracPart = trim_zeros fracPart
     in pad @ (if sint fracPart > 0 then appendInt fracPart else []))"

definition appendFloat :: "f64 \<Rightarrow> string" where
  "appendFloat v =
    (if v = i64_to_f64 (f64_to_i64 v) then appendInt (f64_to_i64 v)
     else (let intPart = f64_to_i64 v;
               fracPart = f64_to_i64 (fmul (fsub v (i64_to_f64 intPart)) 1000000);
               fracPart = (if sint fracPart < 0 then - fracPart else fracPart)
           in appendInt intPart @ ''.'' @ frac_text fracPart))"

section \<open>Labels\<close>

text \<open>\<open>range\<close> over a string visits its code points; the two that are escaped are single bytes, so
  for valid UTF-8 the loop copies every other byte.\<close>

definition escape_char :: "char \<Rightarrow> string" where
  "escape_char c = (if c = CHR 0x5C then [CHR 0x5C, CHR 0x5C]
     else if c = CHR 0x22 then [CHR 0x5C, CHR 0x22] else [c])"

definition escapePromPoolLabel :: "string \<Rightarrow> string" where
  "escapePromPoolLabel s = (if CHR 0x22 \<notin> set s \<and> CHR 0x5C \<notin> set s then s else concat (map escape_char s))"

definition escapePromLabelValue :: "string \<Rightarrow> string" where
  "escapePromLabelValue s = (if CHR 0x22 \<notin> set s \<and> CHR 0x5C \<notin> set s then s else concat (map escape_char s))"

section \<open>What the texts denote\<close>

definition int_str :: "int \<Rightarrow> string" where
  "int_str z = (if z < 0 then ''-'' @ fmt_d (nat (- z)) else fmt_d (nat z))"

text \<open>\<open>strconv.ParseInt(s, 10, 64)\<close> without its range check; \<open>None\<close> when the text is no number.\<close>

definition ParseInt :: "string \<Rightarrow> int option" where
  "ParseInt s = (case s of [] \<Rightarrow> None
     | c # d \<Rightarrow> (let digits = (if c = CHR ''-'' then d else s) in
         if digits \<noteq> [] \<and> list_all is_digit digits
         then Some ((if c = CHR ''-'' then - 1 else 1) * int (parse_digits digits)) else None))"

definition unsigned_value :: "string \<Rightarrow> rat" where
  "unsigned_value s = (case Split (CHR ''.'') s of
     [i] \<Rightarrow> of_nat (parse_digits i)
   | i # f # _ \<Rightarrow> of_nat (parse_digits i) + of_nat (parse_digits f) / 10 ^ length f
   | [] \<Rightarrow> 0)"

definition decimal_value :: "string \<Rightarrow> rat" where
  "decimal_value s = (case s of c # d \<Rightarrow> if c = CHR ''-'' then - unsigned_value d else unsigned_value s | [] \<Rightarrow> 0)"

text \<open>Reading an escaped label up to its closing quote: the value and the rest.\<close>

fun unescape :: "string \<Rightarrow> (string \<times> string) option" where
  "unescape [] = None"
| "unescape (c # s) =
    (if c = CHR 0x22 then Some ([], s)
     else if c = CHR 0x5C then (case s of [] \<Rightarrow> None | d # t \<Rightarrow> map_option (apfst ((#) d)) (unescape t))
     else map_option (apfst ((#) c)) (unescape s))"

section \<open>Decimal text of integers\<close>

lemma sdiv_nonneg: "0 \<le> (x :: int) \<Longrightarrow> x sdiv 10 = x div 10" "0 \<le> (x :: int) \<Longrightarrow> x smod 10 = x mod 10"
  by (simp_all add: signed_divide_int_def signed_modulo_int_def minus_div_mult_eq_mod sgn_if)

lemma sint_word_of_int64: "- (2 ^ 63) \<le> x \<Longrightarrow> x < 2 ^ 63 \<Longrightarrow> sint (word_of_int x :: i64) = x"
  by (simp add: sint_sbintrunc' signed_take_bit_int_eq_self)

lemma sint_both_signs:
  assumes "0 \<le> k" "k < 2 ^ 53"
  shows "sint (word_of_int k :: i64) = k" and "sint (word_of_int (- k) :: i64) = - k"
  using assms by (intro sint_word_of_int64; simp)+

lemma sint64_bounds: "- (2 ^ 63) \<le> sint (v :: i64)" "sint v < 2 ^ 63"
  using sint_ge [of v] sint_lt [of v] by simp_all

lemma sint_quot10: "0 \<le> sint v \<Longrightarrow> sint (quot10 v) = sint v div 10"
  unfolding quot10_def using sint64_bounds [of v] by (subst sint_word_of_int64) (simp_all add: sdiv_nonneg)

lemma sint_rem10: "0 \<le> sint v \<Longrightarrow> sint (rem10 v) = sint v mod 10"
  unfolding rem10_def using pos_mod_bound [of 10 "sint v"] pos_mod_sign [of 10 "sint v"]
  by (subst sint_word_of_int64) (simp_all add: sdiv_nonneg)

termination trim_zeros
  by (relation "measure (nat \<circ> sint)") (auto simp: sint_quot10)

declare trim_zeros.simps [simp del]

lemma digit_byte:
  assumes "0 \<le> sint (v :: i64)" "sint v < 10"
  shows "byte_char (ucast (48 + v)) = digit_char (nat (sint v))"
proof -
  define n where "n = nat (sint v)"
  have n: "n < 10" and v: "v = word_of_nat n"
    using assms by (simp_all add: n_def)
  have "unat (ucast (48 + v) :: byte) = 48 + n"
    unfolding v using n by (simp add: unsigned_ucast_eq unat_word_ariths take_bit_eq_mod unsigned_of_nat)
  then show ?thesis by (simp add: byte_char_def digit_char_def flip: n_def)
qed

lemma length_fmt_d: "n < 10 ^ k \<Longrightarrow> 0 < k \<Longrightarrow> length (fmt_d n) \<le> k"
proof (induction n arbitrary: k rule: fmt_d.induct)
  case (1 n)
  show ?case
  proof (cases "n < 10")
    case False
    then obtain m where k: "k = Suc m" "0 < m" using 1(2) by (cases k; cases "k - 1") auto
    have "n div 10 < 10 ^ m" using 1(2) by (simp add: k less_mult_imp_div_less mult.commute)
    then show ?thesis using 1(1) [OF False] k False by (subst fmt_d.simps) simp
  qed (use 1(3) in \<open>subst fmt_d.simps, simp\<close>)
qed

lemma drop_update: "j < length buf \<Longrightarrow> drop j (buf[j := x]) = x # drop (Suc j) buf"
  by (simp flip: Cons_nth_drop_Suc)

lemma formatInt_loop_text:
  assumes "0 \<le> sint v" "length (fmt_d (nat (sint v))) \<le> i" "i \<le> length buf"
  shows "\<exists>j v' buf'. formatInt_loop i v buf = Some (Suc j, v', buf') \<and> length buf' = length buf
    \<and> i = j + length (fmt_d (nat (sint v)))
    \<and> map byte_char (drop j (buf'[j := ucast (48 + v')])) = fmt_d (nat (sint v)) @ map byte_char (drop i buf)"
  using assms
proof (induction i v buf rule: formatInt_loop.induct)
  case (1 i v buf)
  let ?n = "nat (sint v)"
  show ?case
  proof (cases "sint v < 10")
    case True
    then have f: "fmt_d ?n = [digit_char ?n]" by (subst fmt_d.simps) simp
    then obtain j where i: "i = Suc j" using 1(3) by (cases i) auto
    show ?thesis
      using True 1(2,4) by (simp add: formatInt_loop.simps [of "Suc j"] f i drop_update digit_byte)
  next
    case False
    then have f: "fmt_d ?n = fmt_d (?n div 10) @ [digit_char (?n mod 10)]" by (subst fmt_d.simps) simp
    then obtain j where i: "i = Suc j" using 1(3) by (cases i) auto
    have q: "nat (sint (quot10 v)) = ?n div 10" "0 \<le> sint (quot10 v)"
      using 1(2) by (simp_all add: sint_quot10 nat_div_distrib)
    have r: "byte_char (ucast (48 + rem10 v)) = digit_char (?n mod 10)"
      using 1(2) by (subst digit_byte) (simp_all add: sint_rem10 nat_mod_distrib)
    have "length (fmt_d (nat (sint (quot10 v)))) \<le> j" using 1(3) by (simp add: q f i)
    from 1(1) [OF False i q(2) this] 1(4) i obtain k v' buf' where
      k: "formatInt_loop j (quot10 v) (buf[j := ucast (48 + rem10 v)]) = Some (Suc k, v', buf')"
        "length buf' = length buf" "j = k + length (fmt_d (?n div 10))"
        "map byte_char (drop k (buf'[k := ucast (48 + v')]))
          = fmt_d (?n div 10) @ map byte_char (drop j (buf[j := ucast (48 + rem10 v)]))"
      by (auto simp: q)
    have "formatInt_loop i v buf = formatInt_loop j (quot10 v) (buf[j := ucast (48 + rem10 v)])"
      using False by (subst formatInt_loop.simps) (simp add: i)
    then show ?thesis using k 1(4) by (simp add: f i drop_update r)
  qed
qed

lemma formatInt_total: "\<exists>buf n. formatInt (replicate 20 0) v = Some (buf, n)"
  and appendInt_decimal_aux: "sint v \<noteq> - (2 ^ 63) \<Longrightarrow> appendInt v = int_str (sint v)"
proof -
  let ?buf = "replicate 20 0 :: byte list"
  have min: "formatInt ?buf (- (2 ^ 63)) = Some (replicate 18 0 @ [45, 48], 18)" by code_simp
  have fmt: "\<exists>buf n. formatInt ?buf v = Some (buf, n) \<and> map byte_char (drop n buf) = int_str (sint v)"
    if v: "sint v \<noteq> - (2 ^ 63)"
  proof -
    define w where "w = (if sint v < 0 then - v else v)"
    have w: "sint w = \<bar>sint v\<bar>"
      using v sint64_bounds [of v]
      by (auto simp: w_def sint_word_ariths signed_take_bit_int_eq_self)
    let ?f = "fmt_d (nat (sint w))"
    have "nat (sint w) < 10 ^ 19" using sint64_bounds [of w] by simp
    then have len: "length ?f \<le> 19" by (rule length_fmt_d) simp
    obtain j v' buf' where r: "formatInt_loop 20 w ?buf = Some (Suc j, v', buf')" "length buf' = 20"
        "20 = j + length ?f" "map byte_char (drop j (buf'[j := ucast (48 + v')])) = ?f"
      using formatInt_loop_text [of w 20 ?buf] len w by auto
    show ?thesis
    proof (cases "sint v < 0")
      case False
      then show ?thesis using r(1,4) w by (simp add: formatInt_def w_def int_str_def)
    next
      case True
      obtain k where k: "j = Suc k" using r(3) len by (cases j) auto
      have "drop k ((buf'[j := ucast (48 + v')])[k := 45]) = 45 # drop j (buf'[j := ucast (48 + v')])"
        using r(2,3) k by (subst drop_update) simp_all
      moreover have "byte_char 45 = CHR ''-''" by code_simp
      ultimately show ?thesis using True r(1,4) w k by (simp add: formatInt_def w_def int_str_def)
    qed
  qed
  show "\<exists>buf n. formatInt ?buf v = Some (buf, n)"
  proof (cases "sint v = - (2 ^ 63)")
    case True
    then have "v = - (2 ^ 63)" by (intro signed_word_eqI) simp
    then show ?thesis using min by blast
  qed (use fmt in blast)
  show "appendInt v = int_str (sint v)" if "sint v \<noteq> - (2 ^ 63)"
    using fmt [OF that] by (auto simp: appendInt_def)
qed

lemma formatInt_min_text: "appendInt (- (2 ^ 63)) = ''-0''"
  by code_simp

lemma ParseInt_int_str [simp]: "ParseInt (int_str z) = Some z"
proof (cases "z < 0")
  case True
  then show ?thesis by (simp add: int_str_def ParseInt_def fmt_d_digits)
next
  case False
  obtain c d where f: "fmt_d (nat z) = c # d" using fmt_d_nonempty by (cases "fmt_d (nat z)") auto
  have "is_digit c" using fmt_d_digits [of "nat z"] f by simp
  then have "c \<noteq> CHR ''-''" by (auto simp: is_digit_def)
  then show ?thesis using False fmt_d_digits [of "nat z"] parse_fmt_d [of "nat z"]
    by (simp add: int_str_def ParseInt_def f)
qed

text \<open>\<open>appendInt\<close> writes the decimal text of every integer but the least one, which reads back as the
  integer; the least one negates to itself and is written \<open>-0\<close>.\<close>

theorem appendInt_decimal:
  assumes "sint v \<noteq> - (2 ^ 63)"
  shows "appendInt v = int_str (sint v) \<and> ParseInt (appendInt v) = Some (sint v)"
  using appendInt_decimal_aux [OF assms] by simp

theorem appendInt_decimal_witness: "appendInt (- 17) = int_str (- 17) \<and> ParseInt (appendInt (- 17)) = Some (- 17)"
  using appendInt_decimal [of "- 17"] by simp

theorem formatInt_min_broken: "appendInt (- (2 ^ 63)) = ''-0''"
  by (rule formatInt_min_text)

section \<open>Escaping\<close>

lemma escape_eq: "escapePromPoolLabel s = concat (map escape_char s)"
proof -
  have "concat (map escape_char s) = s" if "CHR 0x22 \<notin> set s" "CHR 0x5C \<notin> set s"
    using that by (induction s) (auto simp: escape_char_def)
  then show ?thesis by (auto simp: escapePromPoolLabel_def)
qed

lemma escape_same: "escapePromLabelValue s = escapePromPoolLabel s"
  by (simp add: escapePromLabelValue_def escapePromPoolLabel_def)

lemma unescape_escape: "unescape (concat (map escape_char s) @ CHR 0x22 # rest) = Some (s, rest)"
  by (induction s) (simp_all add: escape_char_def)

text \<open>Whatever a label contains, a reader finds its end and its value again.\<close>

theorem label_roundtrip:
  "unescape (escapePromPoolLabel s @ CHR 0x22 # rest) = Some (s, rest)
   \<and> unescape (escapePromLabelValue s @ CHR 0x22 # rest) = Some (s, rest)"
  by (simp add: escape_same escape_eq unescape_escape)

section \<open>Decimal text of floats\<close>

lemma trunc_of_int [simp]: "trunc (of_int z) = z"
  by (simp add: trunc_def)

lemma f64_round_minus [simp]: "f64_round (- x) = - f64_round x"
  by (simp add: f64_round_def)

text \<open>The fraction of a double below \<open>2^53\<close> is a multiple of \<open>2^-53\<close> unless it is below one half.\<close>

lemma double_fraction:
  assumes "f64_round v = v" "0 < v" "v < 2 ^ 53" "of_int k \<le> v" "v < of_int k + 1"
  shows "v - of_int k \<le> 1 - 1 / 2 ^ 53"
proof (cases "v < 1 / 2")
  case True
  then have "(of_int k :: rat) < of_int 1" "(of_int (- 1) :: rat) < of_int k" using assms(2,4,5) by auto
  then have "k = 0" unfolding of_int_less_iff by linarith
  then show ?thesis using True by simp
next
  case False
  have lo: "- 1 \<le> flog2 v"
  proof -
    have "(2 :: rat) powi (- 1) < 2 powi (flog2 v + 1)" using False flog2_bounds(2) [OF assms(2)] by simp
    then show ?thesis using powi2_less by fastforce
  qed
  define e where "e = flog2 v - 52"
  have e: "- 53 \<le> e" using lo by (simp add: e_def)
  have "v = round_pos v" using assms(1,2) by (simp add: f64_round_def)
  then have "v = 2 powi e * of_int (round_even (v / 2 powi e))"
    using e by (simp add: round_pos_def quantum_def e_def)
  moreover obtain q :: int where "(2 :: rat) powi e = 2 powi (- 53) * of_int q" using powi2_multiple [OF e] by auto
  ultimately obtain N :: int where N: "v = 1 / 2 ^ 53 * of_int N"
    by (metis (no_types, lifting) mult.assoc of_int_mult power_int_minus_divide power_int_numeral)
  have "(of_int (N - k * 2 ^ 53) :: rat) = (v - of_int k) * 2 ^ 53" by (simp add: N field_simps)
  also have "\<dots> < 1 * 2 ^ 53" using assms(5) by (intro mult_strict_right_mono) simp_all
  finally have "(of_int (N - k * 2 ^ 53) :: rat) < of_int (2 ^ 53)" by simp
  then have "N - k * 2 ^ 53 \<le> 2 ^ 53 - 1" by (simp only: of_int_less_iff)
  then have "(of_int (N - k * 2 ^ 53) :: rat) \<le> of_int (2 ^ 53 - 1)" by (simp only: of_int_le_iff)
  then show ?thesis by (simp add: N field_simps)
qed

lemma floor_fraction:
  assumes "f64_round u = u" "0 \<le> u" "u < 2 ^ 53" "u \<noteq> of_int \<lfloor>u\<rfloor>"
  shows "0 \<le> u - of_int \<lfloor>u\<rfloor>" and "u - of_int \<lfloor>u\<rfloor> \<le> 1 - 1 / 2 ^ 53"
proof -
  show "0 \<le> u - of_int \<lfloor>u\<rfloor>" by simp
  have "u \<noteq> 0" using assms(4) by auto
  then have "0 < u" using assms(2) by simp
  moreover have "of_int \<lfloor>u\<rfloor> \<le> u" "u < of_int \<lfloor>u\<rfloor> + 1" by linarith+
  ultimately show "u - of_int \<lfloor>u\<rfloor> \<le> 1 - 1 / 2 ^ 53" by (intro double_fraction [OF assms(1) _ assms(3)])
qed

lemma fraction_digits:
  assumes "0 \<le> d" "d \<le> 1 - 1 / 2 ^ 53"
  defines "F \<equiv> trunc (fmul (f64_round d) 1000000)"
  shows "0 \<le> F" and "F < 1000000" and "\<bar>of_int F / 1000000 - d\<bar> < 11 / 10 ^ 7"
proof -
  let ?x = "f64_round d" and ?y = "fmul (f64_round d) 1000000"
  have one: "f64_round (1 - 1 / 2 ^ 53) = 1 - 1 / 2 ^ 53" by code_simp
  have top: "f64_round ((1 - 1 / 2 ^ 53) * 1000000) < 1000000" by code_simp
  have x: "0 \<le> ?x" "?x \<le> 1 - 1 / 2 ^ 53"
    using f64_round_nonneg [OF assms(1)] f64_round_mono [OF assms(2)] one by simp_all
  have y: "0 \<le> ?y" using x(1) by (simp add: fmul_def f64_round_nonneg)
  have "?y \<le> f64_round ((1 - 1 / 2 ^ 53) * 1000000)"
    unfolding fmul_def using x(2) by (intro f64_round_mono mult_right_mono) simp_all
  then have less: "?y < 1000000" using top by linarith
  show F: "0 \<le> F" using y by (simp add: F_def trunc_def)
  show "F < 1000000" using y less by (simp add: F_def trunc_def floor_less_iff)
  have F_y: "of_int F \<le> ?y" "?y < of_int F + 1" using y by (simp_all add: F_def trunc_def) linarith
  have tiny: "(2 :: rat) powi (- 1075) \<le> 1 / 2 ^ 40"
    using powi2_mono [of "- 1075" "- 40"] by (simp add: power_int_minus_divide)
  have e1: "\<bar>?x - d\<bar> \<le> d / 2 ^ 53 + 1 / 2 ^ 40" using f64_round_error [OF assms(1)] tiny by linarith
  have "\<bar>?y - ?x * 1000000\<bar> \<le> ?x * 1000000 / 2 ^ 53 + 1 / 2 ^ 40"
    unfolding fmul_def using f64_round_error [of "?x * 1000000"] x(1) tiny by linarith
  then have e2: "\<bar>?y - ?x * 1000000\<bar> \<le> 1 / 2 ^ 30" using x(2) by (simp add: field_simps)
  have "\<bar>?x - d\<bar> \<le> 1 / 2 ^ 39" using e1 assms(2) by (simp add: field_simps)
  moreover have "(1 / 2 ^ 39 :: rat) \<le> 1 / 10 ^ 9" "(1 / 2 ^ 30 :: rat) \<le> 1 / 10 ^ 3" by simp_all
  ultimately have "?x \<le> d + 1 / 10 ^ 9" "d \<le> ?x + 1 / 10 ^ 9" by linarith+
  moreover have "?y \<le> ?x * 1000000 + 1 / 10 ^ 3" "?x * 1000000 \<le> ?y + 1 / 10 ^ 3"
    using e2 \<open>(1 / 2 ^ 30 :: rat) \<le> 1 / 10 ^ 3\<close> by linarith+
  ultimately have "of_int F - d * 1000000 < 11 / 10" "d * 1000000 - of_int F < 11 / 10" using F_y by simp_all
  then show "\<bar>of_int F / 1000000 - d\<bar> < 11 / 10 ^ 7" unfolding abs_less_iff by (simp add: field_simps)
qed

lemma fmt_d_bound: "n < 10 ^ length (fmt_d n)"
proof (induction n rule: fmt_d.induct)
  case (1 n)
  show ?case
  proof (cases "n < 10")
    case False
    then have "n < 10 * 10 ^ length (fmt_d (n div 10))" using 1 by (metis less_mult_imp_div_less div_less_iff_less_mult mult.commute zero_less_numeral)
    then show ?thesis using False by (subst fmt_d.simps) simp
  qed (subst fmt_d.simps, simp)
qed

lemma length_fmt_d_eq:
  assumes "10 ^ k \<le> n" "n < 10 ^ Suc k"
  shows "length (fmt_d n) = Suc k"
proof -
  have "(10 :: nat) ^ k < 10 ^ length (fmt_d n)" using fmt_d_bound [of n] assms(1) by linarith
  then have "k < length (fmt_d n)" by (rule power_less_imp_less_exp [rotated]) simp
  then show ?thesis using length_fmt_d [OF assms(2)] by simp
qed

lemma length_fmt_d_shift: "0 < n \<Longrightarrow> length (fmt_d (n * 10 ^ k)) = length (fmt_d n) + k"
proof (induction k)
  case (Suc k)
  then have "\<not> n * 10 ^ Suc k < 10" by simp
  then have "fmt_d (n * 10 ^ Suc k) = fmt_d (n * 10 ^ Suc k div 10) @ [digit_char 0]" by (subst fmt_d.simps) simp
  moreover have "n * 10 ^ Suc k div 10 = n * 10 ^ k" by simp
  ultimately show ?case using Suc by simp
qed simp

lemma trim_zeros_shift:
  "0 < sint w \<Longrightarrow> 0 < sint (trim_zeros w) \<and> (\<exists>k. sint w = sint (trim_zeros w) * 10 ^ k)"
proof (induction w rule: trim_zeros.induct)
  case (1 w)
  show ?case
  proof (cases "sint (rem10 w) = 0")
    case True
    have w: "sint w = sint (quot10 w) * 10" using 1(2) True by (simp add: sint_quot10 sint_rem10) presburger
    then have "0 < sint (quot10 w)" using 1(2) by simp
    then obtain k where "0 < sint (trim_zeros (quot10 w))" "sint (quot10 w) = sint (trim_zeros (quot10 w)) * 10 ^ k"
      using 1 True by auto
    then show ?thesis using w 1(2) True by (subst (1 2) trim_zeros.simps) (auto intro!: exI [of _ "Suc k"])
  next
    case False
    then show ?thesis using 1(2) by (subst (1 2) trim_zeros.simps) (auto intro!: exI [of _ 0])
  qed
qed

lemma parse_zeros: "set xs \<subseteq> {CHR ''0''} \<Longrightarrow> parse_digits (xs @ s) = parse_digits s"
  by (induction xs) (simp_all add: parse_digits_def digit_val_def)

lemma frac_pad:
  assumes "0 < n" "n < 1000000"
  shows "length (concat (map (\<lambda>d. if int n < d then ''0'' else []) [100000, 10000, 1000, 100, 10])) + length (fmt_d n) = 6"
proof -
  consider "n < 10" | "10 \<le> n" "n < 100" | "100 \<le> n" "n < 1000" | "1000 \<le> n" "n < 10000"
    | "10000 \<le> n" "n < 100000" | "100000 \<le> n" by linarith
  then show ?thesis
    using assms length_fmt_d_eq [of 0 n] length_fmt_d_eq [of 1 n] length_fmt_d_eq [of 2 n] length_fmt_d_eq [of 3 n]
      length_fmt_d_eq [of 4 n] length_fmt_d_eq [of 5 n] by cases simp_all
qed

lemma digits_no_dot: "list_all is_digit s \<Longrightarrow> CHR ''.'' \<notin> set s"
  by (rule digit_run_no_sep) (simp_all add: is_digit_def)

lemma frac_text_value:
  assumes "0 \<le> sint w" "sint w < 1000000"
  shows "CHR ''.'' \<notin> set (frac_text w)"
    and "of_nat (parse_digits (frac_text w)) / 10 ^ length (frac_text w) = (of_int (sint w) / 1000000 :: rat)"
proof -
  let ?pad = "concat (map (\<lambda>d. if sint w < d then ''0'' else []) [100000, 10000, 1000, 100, 10])"
  have pad: "set ?pad \<subseteq> {CHR ''0''}" by auto
  let ?t = "trim_zeros w"
  show "CHR ''.'' \<notin> set (frac_text w)"
    using digits_no_dot [OF fmt_d_digits] pad by (auto simp: frac_text_def Let_def appendInt_decimal_aux int_str_def)
  show "of_nat (parse_digits (frac_text w)) / 10 ^ length (frac_text w) = (of_int (sint w) / 1000000 :: rat)"
  proof (cases "sint w = 0")
    case True
    then have "?t = w" by (subst trim_zeros.simps) simp
    then show ?thesis using True by (simp add: frac_text_def parse_digits_def digit_val_def)
  next
    case False
    then obtain k where t: "0 < sint ?t" "sint w = sint ?t * 10 ^ k" using assms(1) trim_zeros_shift [of w] by auto
    define n where "n = nat (sint w)"
    define m where "m = nat (sint ?t)"
    have nm: "n = m * 10 ^ k" "sint w = int n" "sint ?t = int m" "0 < m"
      using t by (simp_all add: n_def m_def nat_mult_distrib nat_power_eq)
    have written: "frac_text w = ?pad @ fmt_d m"
      using t(1) by (simp add: frac_text_def appendInt_decimal_aux int_str_def m_def)
    have "length ?pad + length (fmt_d n) = 6" using frac_pad [of n] assms nm by simp
    then have len: "length (frac_text w) + k = 6" unfolding written nm(1) length_fmt_d_shift [OF nm(4)] by simp
    then have ten: "(1000000 :: rat) = 10 ^ length (frac_text w) * 10 ^ k" by (simp flip: power_add)
    have "parse_digits (frac_text w) = m" unfolding written using parse_zeros [OF pad, of "fmt_d m"] by simp
    then show ?thesis unfolding ten nm(2) nm(1) by simp
  qed
qed

lemma appendFloat_int:
  assumes "\<bar>z\<bar> < 2 ^ 53"
  shows "appendFloat (of_int z) = int_str z"
proof -
  have "sint (word_of_int z :: i64) = z" using assms by (intro sint_word_of_int64) simp_all
  then show ?thesis using f64_round_of_int [OF assms] assms
    by (simp add: appendFloat_def f64_to_i64_def i64_to_f64_def appendInt_decimal_aux)
qed

lemma appendInt_both_signs:
  assumes "0 \<le> k" "k < 2 ^ 53"
  shows "appendInt (word_of_int k) = int_str k" and "appendInt (word_of_int (- k)) = int_str (- k)"
proof -
  have "k \<noteq> - (2 ^ 63)" "- k \<noteq> - (2 ^ 63)" using assms by auto
  then show "appendInt (word_of_int k) = int_str k" "appendInt (word_of_int (- k)) = int_str (- k)"
    using appendInt_decimal_aux [of "word_of_int k"] appendInt_decimal_aux [of "word_of_int (- k)"]
    unfolding sint_both_signs [OF assms] by blast+
qed

lemma appendFloat_frac:
  assumes "0 \<le> u" "u < 2 ^ 53" "u \<noteq> of_int \<lfloor>u\<rfloor>" "f64_round u = u"
  defines "F \<equiv> trunc (fmul (f64_round (u - of_int \<lfloor>u\<rfloor>)) 1000000)"
  shows "appendFloat u = int_str \<lfloor>u\<rfloor> @ ''.'' @ frac_text (word_of_int F)"
    and "appendFloat (- u) = int_str (- \<lfloor>u\<rfloor>) @ ''.'' @ frac_text (word_of_int F)"
proof -
  let ?k = "\<lfloor>u\<rfloor>"
  have k: "0 \<le> ?k" "?k < 2 ^ 53" using assms(1,2) by (simp_all add: floor_less_iff)
  note ints = sint_both_signs [OF k]
  have part: "f64_to_i64 u = word_of_int ?k" "f64_to_i64 (- u) = word_of_int (- ?k)"
    using assms(1) by (auto simp: f64_to_i64_def trunc_def ceiling_minus)
  have rt: "i64_to_f64 (word_of_int ?k) = of_int ?k" "i64_to_f64 (word_of_int (- ?k)) = - of_int ?k"
    unfolding i64_to_f64_def ints using k f64_round_of_int [of ?k] by simp_all
  note d = floor_fraction [OF assms(4,1,2,3)]
  have F: "0 \<le> F" "F < 1000000" using fraction_digits(1,2) [OF d] by (simp_all add: F_def)
  have F53: "F < 2 ^ 53" using F(2) by simp
  note Fw = sint_both_signs [OF F(1) F53]
  have digits: "f64_to_i64 (fmul (fsub u (of_int ?k)) 1000000) = word_of_int F"
    by (simp add: f64_to_i64_def fsub_def F_def)
  have "fmul (fsub (- u) (- of_int ?k)) 1000000 = - fmul (fsub u (of_int ?k)) 1000000"
    using f64_round_minus [of "u - of_int ?k"] by (simp add: fmul_def fsub_def)
  then have digits': "f64_to_i64 (fmul (fsub (- u) (- of_int ?k)) 1000000) = word_of_int (- F)"
    by (simp add: f64_to_i64_def fsub_def F_def trunc_def ceiling_minus floor_minus)
  note app = appendInt_both_signs [OF k]
  have sign: "(if sint (word_of_int F :: i64) < 0 then - word_of_int F else word_of_int F) = (word_of_int F :: i64)"
    "(if sint (word_of_int (- F) :: i64) < 0 then - word_of_int (- F) else word_of_int (- F)) = (word_of_int F :: i64)"
    unfolding Fw using F(1) by auto
  show "appendFloat u = int_str ?k @ ''.'' @ frac_text (word_of_int F)"
    unfolding appendFloat_def Let_def part rt digits sign app using assms(3) by simp
  show "appendFloat (- u) = int_str (- ?k) @ ''.'' @ frac_text (word_of_int F)"
    unfolding appendFloat_def Let_def part rt digits' sign app using assms(3) by simp
qed

lemma unsigned_value_text:
  assumes "0 \<le> k" "0 \<le> F" "F < 1000000"
  shows "unsigned_value (fmt_d (nat k) @ ''.'' @ frac_text (word_of_int F)) = of_int k + of_int F / 1000000"
proof -
  have "sint (word_of_int F :: i64) = F" using assms(2,3) by (intro sint_word_of_int64) simp_all
  note ft = frac_text_value [of "word_of_int F", unfolded this, OF assms(2,3)]
  have "Split (CHR ''.'') (fmt_d (nat k) @ CHR ''.'' # frac_text (word_of_int F)) = [fmt_d (nat k), frac_text (word_of_int F)]"
    by (simp add: Split_append [OF digits_no_dot [OF fmt_d_digits]] Split_no_sep [OF ft(1)])
  then show ?thesis using ft(2) assms(1) by (simp add: unsigned_value_def)
qed

lemma unsigned_value_int: "0 \<le> k \<Longrightarrow> unsigned_value (fmt_d (nat k)) = of_int k"
  by (simp add: unsigned_value_def Split_no_sep [OF digits_no_dot [OF fmt_d_digits]])

lemma decimal_value_int_str:
  "0 \<le> k \<Longrightarrow> decimal_value (int_str k @ s) = unsigned_value (fmt_d (nat k) @ s)"
  "0 < k \<Longrightarrow> decimal_value (int_str (- k) @ s) = - unsigned_value (fmt_d (nat k) @ s)"
proof -
  obtain c d where f: "fmt_d (nat k) = c # d" using fmt_d_nonempty by (cases "fmt_d (nat k)") auto
  have "is_digit c" using fmt_d_digits [of "nat k"] f by simp
  then have "c \<noteq> CHR ''-''" by (auto simp: is_digit_def)
  then show "0 \<le> k \<Longrightarrow> decimal_value (int_str k @ s) = unsigned_value (fmt_d (nat k) @ s)"
    by (simp add: decimal_value_def int_str_def f)
  show "0 < k \<Longrightarrow> decimal_value (int_str (- k) @ s) = - unsigned_value (fmt_d (nat k) @ s)"
    by (simp add: decimal_value_def int_str_def)
qed

lemma appendFloat_close_int:
  assumes "f64_round v = v" "\<bar>v\<bar> < 2 ^ 53" "v = of_int \<lfloor>v\<rfloor>"
  shows "if - 1 < v \<and> v < 0 then appendFloat v = appendFloat (- v)
    else \<bar>decimal_value (appendFloat v) - v\<bar> < 11 / 10 ^ 7"
proof -
  define z where "z = \<lfloor>v\<rfloor>"
  have v: "v = of_int z" using assms(3) by (simp add: z_def)
  have "of_int \<bar>z\<bar> < (of_int (2 ^ 53) :: rat)" using assms(2) by (simp add: v)
  then have z: "\<bar>z\<bar> < 2 ^ 53" by (simp only: of_int_less_iff)
  have "\<not> (- 1 < v \<and> v < 0)"
  proof -
    have "\<not> (of_int (- 1) < (of_int z :: rat) \<and> (of_int z :: rat) < of_int 0)" unfolding of_int_less_iff by linarith
    then show ?thesis by (simp add: v)
  qed
  moreover have "decimal_value (appendFloat v) = v"
    using decimal_value_int_str(1) [of z "[]"] decimal_value_int_str(2) [of "- z" "[]"]
      unsigned_value_int [of z] unsigned_value_int [of "- z"]
    by (cases "0 \<le> z") (simp_all add: v appendFloat_int [OF z])
  ultimately show ?thesis by auto
qed

lemma appendFloat_close_frac:
  assumes "f64_round v = v" "\<bar>v\<bar> < 2 ^ 53" "v \<noteq> of_int \<lfloor>v\<rfloor>"
  shows "if - 1 < v \<and> v < 0 then appendFloat v = appendFloat (- v)
    else \<bar>decimal_value (appendFloat v) - v\<bar> < 11 / 10 ^ 7"
proof -
  define u where "u = \<bar>v\<bar>"
  have u: "0 \<le> u" "u < 2 ^ 53" "f64_round u = u" using assms by (auto simp: u_def abs_if)
  have nz: "u \<noteq> of_int \<lfloor>u\<rfloor>"
  proof
    assume "u = of_int \<lfloor>u\<rfloor>"
    then have "v = of_int \<lfloor>u\<rfloor> \<or> v = of_int (- \<lfloor>u\<rfloor>)" by (auto simp: u_def abs_if split: if_splits)
    then show False using assms(3) by auto
  qed
  let ?k = "\<lfloor>u\<rfloor>" and ?d = "u - of_int \<lfloor>u\<rfloor>"
  define F where "F = trunc (fmul (f64_round ?d) 1000000)"
  note texts = appendFloat_frac [OF u(1,2) nz u(3), folded F_def]
  have k: "0 \<le> ?k" using u(1) by simp
  note d = floor_fraction [OF u(3,1,2) nz]
  note Fd = fraction_digits [OF d, folded F_def]
  note val = unsigned_value_text [OF k Fd(1,2)]
  show ?thesis
  proof (cases "0 \<le> v")
    case True
    then show ?thesis using Fd(3) val decimal_value_int_str(1) [OF k] texts(1)
      by (simp add: u_def) (simp add: field_simps)
  next
    case neg: False
    show ?thesis
    proof (cases "- 1 < v")
      case True
      then have "?k = 0" using neg by (simp add: u_def floor_eq_iff)
      then show ?thesis using True neg texts by (simp add: u_def)
    next
      case False
      then have "1 \<le> u" using neg by (simp add: u_def)
      then have pos: "0 < ?k" by (simp add: le_floor_iff int_one_le_iff_zero_less [symmetric])
      have "appendFloat v = int_str (- ?k) @ ''.'' @ frac_text (word_of_int F)" using texts(2) neg by (simp add: u_def)
      then have "decimal_value (appendFloat v) = - (of_int ?k + of_int F / 1000000)"
        using decimal_value_int_str(2) [OF pos] val by simp
      moreover have "v = - u" using neg by (simp add: u_def)
      ultimately have "\<bar>decimal_value (appendFloat v) - v\<bar> = \<bar>of_int F / 1000000 - ?d\<bar>" by linarith
      then show ?thesis using Fd(3) False by simp
    qed
  qed
qed

text \<open>Claim C39: \<open>appendFloat\<close> writes every double below \<open>2^53\<close> in magnitude, except those strictly between \<open>-1\<close>
  and \<open>0\<close>, as a decimal number that is exact for integers and otherwise off by little more than
  one millionth; between \<open>-1\<close> and \<open>0\<close> the sign is lost.\<close>

theorem appendFloat_close:
  assumes "f64_round v = v" "\<bar>v\<bar> < 2 ^ 53"
  shows "if - 1 < v \<and> v < 0 then appendFloat v = appendFloat (- v)
    else \<bar>decimal_value (appendFloat v) - v\<bar> < 11 / 10 ^ 7"
  using appendFloat_close_int [OF assms] appendFloat_close_frac [OF assms] by blast

theorem appendFloat_close_witness:
  "\<bar>decimal_value (appendFloat (5 / 4)) - 5 / 4\<bar> < 11 / 10 ^ 7 \<and> appendFloat (- 1 / 2) = appendFloat (1 / 2)"
proof -
  have r: "f64_round (5 / 4) = 5 / 4" "f64_round (- 1 / 2) = - 1 / 2" by code_simp+
  show ?thesis using appendFloat_close [OF r(1)] appendFloat_close [OF r(2)] by simp
qed

end
