(* ===== verification/ZHist.thy ===== *)
theory ZHist
  imports ZText "HOL-Library.Multiset"
begin

text \<open>
  The metrics of \<open>zmetrics/metrics.go\<close>: counters, gauges and the histogram with fixed bounds. The
  fields are updated with atomic additions, so concurrent observations interleave between the
  three additions of \<open>Observe\<close>; a run is the list of the additions in the order in which they
  take place. Observed values are finite and below \<open>9.2 * 10^12\<close> ms, where the sum fits \<open>int64\<close>.
\<close>

section \<open>Counters and gauges\<close>

text \<open>\<open>Counter.Inc\<close>, \<open>Add\<close> and \<open>Swap\<close>; a gauge has \<open>Set\<close>, \<open>Inc\<close>, \<open>Dec\<close> and \<open>Add\<close>.\<close>

type_synonym Counter = i64
type_synonym Gauge = i64

definition Counter_Inc :: "Counter \<Rightarrow> Counter" where "Counter_Inc c = c + 1"
definition Counter_Add :: "i64 \<Rightarrow> Counter \<Rightarrow> Counter" where "Counter_Add v c = c + v"
definition Counter_Swap :: "i64 \<Rightarrow> Counter \<Rightarrow> i64 \<times> Counter" where "Counter_Swap v c = (c, v)"
definition Gauge_Set :: "i64 \<Rightarrow> Gauge \<Rightarrow> Gauge" where "Gauge_Set v g = v"
definition Gauge_Inc :: "Gauge \<Rightarrow> Gauge" where "Gauge_Inc g = g + 1"
definition Gauge_Dec :: "Gauge \<Rightarrow> Gauge" where "Gauge_Dec g = g - 1"
definition Gauge_Add :: "i64 \<Rightarrow> Gauge \<Rightarrow> Gauge" where "Gauge_Add v g = g + v"

section \<open>The histogram\<close>

record Histogram =
  bounds :: "f64 list"
  buckets :: "i64 list"
  h_sum :: i64
  h_count :: i64

definition NewHistogram :: "f64 list \<Rightarrow> Histogram" where
  "NewHistogram bs = \<lparr>bounds = bs, buckets = replicate (length bs + 1) 0, h_sum = 0, h_count = 0\<rparr>"

definition DefaultLatencyBounds :: "f64 list" where
  "DefaultLatencyBounds = [1, 5, 10, 25, 50, 100, 250, 500, 1000, 5000]"

definition NewLatencyHistogram :: Histogram where
  "NewLatencyHistogram = NewHistogram DefaultLatencyBounds"

text \<open>\<open>sort.SearchFloat64s\<close>: binary search for the least index whose element is not below \<open>x\<close>.\<close>

function search_loop :: "f64 list \<Rightarrow> f64 \<Rightarrow> nat \<Rightarrow> nat \<Rightarrow> nat" where
  "search_loop a x i j = (if i < j then
     (let h = (i + j) div 2 in if \<not> a ! h \<ge> x then search_loop a x (h + 1) j else search_loop a x i h) else i)"
  by auto
termination by (relation "measure (\<lambda>(a, x, i, j). j - i)") auto

declare search_loop.simps [simp del]

definition SearchFloat64s :: "f64 list \<Rightarrow> f64 \<Rightarrow> nat" where
  "SearchFloat64s a x = search_loop a x 0 (length a)"

datatype hist_op = AddCount | AddSum i64 | AddBucket nat

fun hist_do :: "hist_op \<Rightarrow> Histogram \<Rightarrow> Histogram" where
  "hist_do AddCount h = h\<lparr>h_count := h_count h + 1\<rparr>"
| "hist_do (AddSum d) h = h\<lparr>h_sum := h_sum h + d\<rparr>"
| "hist_do (AddBucket i) h = h\<lparr>buckets := (buckets h)[i := buckets h ! i + 1]\<rparr>"

definition Observe_ops :: "f64 list \<Rightarrow> f64 \<Rightarrow> hist_op list" where
  "Observe_ops bs valueMs =
     (let idx = SearchFloat64s bs valueMs;
          idx = (if idx > length bs then length bs else idx)
      in [AddCount, AddSum (f64_to_i64 (fmul valueMs 1000000)), AddBucket idx])"

definition Observe :: "f64 \<Rightarrow> Histogram \<Rightarrow> Histogram" where
  "Observe valueMs h = fold hist_do (Observe_ops (bounds h) valueMs) h"

definition ObserveDuration :: "i64 \<Rightarrow> Histogram \<Rightarrow> Histogram" where
  "ObserveDuration d h = Observe (fdiv (i64_to_f64 d) 1000000) h"

fun cumulate :: "i64 \<Rightarrow> i64 list \<Rightarrow> i64 list" where
  "cumulate acc [] = []"
| "cumulate acc (b # bs) = (acc + b) # cumulate (acc + b) bs"

definition Snapshot :: "Histogram \<Rightarrow> f64 list \<times> i64 list \<times> f64 \<times> i64" where
  "Snapshot h = (bounds h, cumulate 0 (buckets h), fdiv (i64_to_f64 (h_sum h)) 1000000, h_count h)"

section \<open>Binary search\<close>

lemma search_loop_spec:
  assumes "sorted a" "j \<le> length a" "i \<le> j"
    "\<forall>k<i. a ! k < x" "\<forall>k. j \<le> k \<and> k < length a \<longrightarrow> x \<le> a ! k"
  shows "search_loop a x i j \<le> length a \<and> (\<forall>k<length a. k < search_loop a x i j \<longleftrightarrow> a ! k < x)"
  using assms
proof (induction a x i j rule: search_loop.induct)
  case (1 a x i j)
  show ?case
  proof (cases "i < j")
    case False
    then show ?thesis using 1 by (subst (1 2) search_loop.simps) (auto simp: not_less)
  next
    case True
    define h where "h = (i + j) div 2"
    have h: "i \<le> h" "h < j" "h < length a" using True 1 by (auto simp: h_def)
    show ?thesis
    proof (cases "a ! h \<ge> x")
      case False
      have "a ! k < x" if "k < h + 1" for k
        using sorted_nth_mono [OF 1(3), of k h] that h False by force
      then show ?thesis using 1(1) [OF True h_def False] 1(3-7) h True False
        by (subst (1 2) search_loop.simps) (simp flip: h_def)
    next
      case ge: True
      have "x \<le> a ! k" if "h \<le> k" "k < length a" for k
        using sorted_nth_mono [OF 1(3) that] ge by simp
      then show ?thesis using 1(2) [OF True h_def] 1(3-7) h True ge
        by (subst (1 2) search_loop.simps) (simp flip: h_def)
    qed
  qed
qed

lemma SearchFloat64s_spec:
  assumes "sorted a"
  shows "SearchFloat64s a x \<le> length a" and "k < length a \<Longrightarrow> k < SearchFloat64s a x \<longleftrightarrow> a ! k < x"
  using search_loop_spec [of a "length a" 0 x] assms by (auto simp: SearchFloat64s_def)

section \<open>Concurrent observations\<close>

definition op_sum :: "hist_op \<Rightarrow> i64" where
  "op_sum op = (case op of AddSum d \<Rightarrow> d | _ \<Rightarrow> 0)"

lemma hist_run:
  "h_count (fold hist_do ops h) = h_count h + of_nat (count (mset ops) AddCount)
   \<and> h_sum (fold hist_do ops h) = h_sum h + (\<Sum>op\<in>#mset ops. op_sum op)
   \<and> bounds (fold hist_do ops h) = bounds h \<and> length (buckets (fold hist_do ops h)) = length (buckets h)
   \<and> (\<forall>i<length (buckets h). buckets (fold hist_do ops h) ! i = buckets h ! i + of_nat (count (mset ops) (AddBucket i)))"
proof (induction ops arbitrary: h)
  case (Cons op ops)
  show ?case
    using Cons [of "hist_do op h"] by (cases op) (auto simp: op_sum_def nth_list_update)
qed simp

lemma cumulate_nth:
  "length (cumulate acc bs) = length bs \<and> (\<forall>i<length bs. cumulate acc bs ! i = acc + sum_list (take (Suc i) bs))"
proof (induction bs arbitrary: acc)
  case (Cons b bs)
  show ?case
  proof (intro conjI allI impI)
    fix i assume "i < length (b # bs)"
    then show "cumulate acc (b # bs) ! i = acc + sum_list (take (Suc i) (b # bs))"
      using Cons [of "acc + b"] by (cases i) (auto simp: add.assoc)
  qed (use Cons [of "acc + b"] in simp)
qed simp

lemma count_ops:
  "count (mset (concat (map (Observe_ops bs) vs))) AddCount = length vs"
  "sorted bs \<Longrightarrow> count (mset (concat (map (Observe_ops bs) vs))) (AddBucket i) = length (filter (\<lambda>v. SearchFloat64s bs v = i) vs)"
  "(\<Sum>op\<in>#mset (concat (map (Observe_ops bs) vs)). op_sum op) = (\<Sum>v\<leftarrow>vs. f64_to_i64 (fmul v 1000000))"
proof (induction vs)
  case (Cons v vs)
  {
    case 1
    then show ?case using Cons(1) by (simp add: Observe_ops_def Let_def)
  next
    case 2
    then show ?case using Cons(2) [OF 2] SearchFloat64s_spec(1) [OF 2, of v] by (simp add: Observe_ops_def Let_def)
  next
    case 3
    then show ?case using Cons(3) by (simp add: Observe_ops_def Let_def op_sum_def)
  }
qed (simp_all add: Observe_ops_def)

lemma sum_levels:
  "(\<Sum>j\<leftarrow>[0..<n]. of_nat (length (filter (\<lambda>v. f v = j) vs)) :: 'a::semiring_1) = of_nat (length (filter (\<lambda>v. f v < n) vs))"
proof (induction n)
  case (Suc n)
  have "length (filter (\<lambda>v. f v < Suc n) vs) = length (filter (\<lambda>v. f v < n) vs) + length (filter (\<lambda>v. f v = n) vs)"
    by (induction vs) auto
  then show ?case using Suc by simp
qed simp

lemma histogram_levels:
  assumes "sorted bs" and "mset ops = mset (concat (map (Observe_ops bs) vs))"
  defines "h \<equiv> fold hist_do ops (NewHistogram bs)"
  shows "h_count h = of_nat (length vs)"
    and "length (fst (snd (Snapshot h))) = length bs + 1"
    and "\<And>i. i < length bs \<Longrightarrow> fst (snd (Snapshot h)) ! i = of_nat (length (filter (\<lambda>v. v \<le> bs ! i) vs))"
    and "fst (snd (Snapshot h)) ! length bs = of_nat (length vs)"
    and "h_sum h = (\<Sum>v\<leftarrow>vs. f64_to_i64 (fmul v 1000000))"
proof -
  note run = hist_run [of ops "NewHistogram bs", folded h_def]
  have len: "length (buckets h) = length bs + 1" using run by (simp add: NewHistogram_def)
  show "h_count h = of_nat (length vs)" "h_sum h = (\<Sum>v\<leftarrow>vs. f64_to_i64 (fmul v 1000000))"
    using run unfolding assms(2) count_ops by (simp_all add: NewHistogram_def)
  show "length (fst (snd (Snapshot h))) = length bs + 1"
    using cumulate_nth [of 0 "buckets h"] len by (simp add: Snapshot_def)
  have bucket: "buckets h = map (\<lambda>j. of_nat (length (filter (\<lambda>v. SearchFloat64s bs v = j) vs))) [0..<length bs + 1]"
    using run len unfolding assms(2) count_ops(2) [OF assms(1)]
    by (intro nth_equalityI) (auto simp: NewHistogram_def nth_Cons' simp del: upt_Suc)
  have cum: "fst (snd (Snapshot h)) ! i = of_nat (length (filter (\<lambda>v. SearchFloat64s bs v < Suc i) vs))"
    if "i < length bs + 1" for i
  proof -
    have "take (Suc i) [0..<length bs + 1] = [0..<Suc i]" using that by (simp add: take_upt del: upt_Suc)
    then show ?thesis
      using cumulate_nth [of 0 "buckets h"] that len
      by (simp add: Snapshot_def bucket take_map sum_levels del: upt_Suc)
  qed
  show "fst (snd (Snapshot h)) ! i = of_nat (length (filter (\<lambda>v. v \<le> bs ! i) vs))" if "i < length bs" for i
  proof -
    have "SearchFloat64s bs v < Suc i \<longleftrightarrow> v \<le> bs ! i" for v
      using SearchFloat64s_spec(2) [OF assms(1) that, of v] by linarith
    then show ?thesis using cum [of i] that by simp
  qed
  have "SearchFloat64s bs v < Suc (length bs)" for v using SearchFloat64s_spec(1) [OF assms(1), of v] by simp
  then show "fst (snd (Snapshot h)) ! length bs = of_nat (length vs)" using cum [of "length bs"] by simp
qed

text \<open>Claim C20: Concurrent observations are counted exactly: in whatever order the additions of the observations
  take place, the histogram ends with the number of observations as its count, the number of
  observations not above each bound as that bound's cumulative count, all of them in the last
  bucket, and the sum of the durations in nanoseconds (modulo \<open>2^64\<close>).\<close>

theorem histogram_exact:
  assumes "sorted bs" and "mset ops = mset (concat (map (Observe_ops bs) vs))"
    and "fold hist_do ops (NewHistogram bs) = h" and "Snapshot h = (le, cumulative, total_ms, n)"
  shows "n = of_nat (length vs) \<and> h_sum h = (\<Sum>v\<leftarrow>vs. f64_to_i64 (fmul v 1000000))
    \<and> le = bs \<and> length cumulative = length bs + 1
    \<and> (\<forall>i < length bs. cumulative ! i = of_nat (length (filter (\<lambda>v. v \<le> bs ! i) vs)))
    \<and> cumulative ! length bs = of_nat (length vs)"
proof -
  have h: "n = h_count h" "le = bounds h" "cumulative = fst (snd (Snapshot h))"
    using assms(4) by (auto simp: Snapshot_def)
  have "bounds h = bs" using hist_run [of ops "NewHistogram bs"] unfolding assms(3) by (simp add: NewHistogram_def)
  then show ?thesis using histogram_levels [OF assms(1,2)] h by (simp add: assms(3))
qed

theorem histogram_exact_witness:
  "fst (snd (Snapshot (Observe 7 (Observe 2 (NewHistogram [1, 5]))))) ! 1 = 1"
proof -
  have ops: "fold hist_do (Observe_ops [1, 5] 2 @ Observe_ops [1, 5] 7) (NewHistogram [1, 5])
      = Observe 7 (Observe 2 (NewHistogram [1, 5]))"
    using hist_run [of "Observe_ops [1, 5] 2" "NewHistogram [1, 5]"] by (simp add: Observe_def NewHistogram_def)
  obtain b c t n where sn: "Snapshot (Observe 7 (Observe 2 (NewHistogram [1, 5]))) = (b, c, t, n)" by (metis prod.exhaust)
  show ?thesis using histogram_exact [OF _ _ ops sn, of "[2, 7]"] by (simp add: sn nth_Cons')
qed

end
