(* ===== verification/ZMetrics.thy ===== *)
theory ZMetrics
  imports ZHist "HOL-Library.Char_ord" "HOL-Library.List_Lexorder" "HOL-Library.Product_Lexorder"
begin

text \<open>
  The metric registry of \<open>zmetrics\<close> and its Prometheus text: \<open>Registry\<close> (\<open>metrics.go\<close>), the metrics
  per handler (\<open>handler.go\<close>) and per object pool (\<open>pool_observer.go\<close>). A Go map is the list of its
  entries with distinct keys; its iteration order is immaterial here, since every writer sorts.
  A pointer to a metric is the key under which it is registered, as no entry is ever removed or
  replaced. Every writer ends its lines with a newline byte, so a text is given as the list of its
  lines; \<open>unlines\<close> is the text itself.
\<close>

type_synonym 'v gomap = "(string \<times> 'v) list"

abbreviation nl :: char where "nl \<equiv> CHR 0x0A"

definition unlines :: "string list \<Rightarrow> string" where
  "unlines ls = concat (map (\<lambda>l. l @ [nl]) ls)"

definition sortedKeys :: "'v gomap \<Rightarrow> string list" where
  "sortedKeys m = sort (map fst m)"

section \<open>The registry\<close>

record 'm entry =
  metric :: 'm
  helptext :: string

record Registry =
  counters :: "Counter entry gomap"
  gauges :: "Gauge entry gomap"
  histograms :: "Histogram entry gomap"

definition empty_registry :: Registry where
  "empty_registry = \<lparr>counters = [], gauges = [], histograms = []\<rparr>"

text \<open>Registering returns the existing metric when there is one: the map does not change then.\<close>

definition get_or_add :: "string \<Rightarrow> string \<Rightarrow> 'm \<Rightarrow> 'm entry gomap \<Rightarrow> 'm entry gomap" where
  "get_or_add name hlp fresh m = (case map_of m name of
     Some e \<Rightarrow> m | None \<Rightarrow> (name, \<lparr>metric = fresh, helptext = hlp\<rparr>) # m)"

definition Registry_Counter :: "string \<Rightarrow> string \<Rightarrow> Registry \<Rightarrow> Registry" where
  "Registry_Counter name hlp r = r\<lparr>counters := get_or_add name hlp 0 (counters r)\<rparr>"

definition Registry_Gauge :: "string \<Rightarrow> string \<Rightarrow> Registry \<Rightarrow> Registry" where
  "Registry_Gauge name hlp r = r\<lparr>gauges := get_or_add name hlp 0 (gauges r)\<rparr>"

definition Registry_Histogram :: "string \<Rightarrow> string \<Rightarrow> f64 list \<Rightarrow> Registry \<Rightarrow> Registry" where
  "Registry_Histogram name hlp bs r = r\<lparr>histograms := get_or_add name hlp (NewHistogram bs) (histograms r)\<rparr>"

text \<open>An update of a registered metric through its pointer.\<close>

definition upd_metric :: "string \<Rightarrow> ('m \<Rightarrow> 'm) \<Rightarrow> 'm entry gomap \<Rightarrow> 'm entry gomap" where
  "upd_metric name f m = map (\<lambda>(k, e). (k, if k = name then e\<lparr>metric := f (metric e)\<rparr> else e)) m"

section \<open>The exposition of the registry\<close>

definition meta_lines :: "string \<Rightarrow> string \<Rightarrow> string \<Rightarrow> string list" where
  "meta_lines name typ hlp =
    (if hlp \<noteq> [] then [''# HELP '' @ name @ '' '' @ hlp] else []) @ [''# TYPE '' @ name @ '' '' @ typ]"

definition int_line :: "string \<Rightarrow> i64 \<Rightarrow> string" where
  "int_line series v = series @ '' '' @ appendInt v"

definition float_line :: "string \<Rightarrow> f64 \<Rightarrow> string" where
  "float_line series v = series @ '' '' @ appendFloat v"

definition counter_lines :: "string \<Rightarrow> Counter entry \<Rightarrow> string list" where
  "counter_lines name e = meta_lines name ''counter'' (helptext e) @ [int_line name (metric e)]"

definition gauge_lines :: "string \<Rightarrow> Gauge entry \<Rightarrow> string list" where
  "gauge_lines name e = meta_lines name ''gauge'' (helptext e) @ [int_line name (metric e)]"

definition quoted :: "string \<Rightarrow> string" where
  "quoted s = CHR 0x22 # s @ [CHR 0x22]"

definition histogram_lines :: "string \<Rightarrow> Histogram entry \<Rightarrow> string list" where
  "histogram_lines name e = (let (bs, cumulative, s, n) = Snapshot (metric e) in
     meta_lines name ''histogram'' (helptext e)
     @ map (\<lambda>(b, c). int_line (name @ ''_bucket{le='' @ quoted (appendFloat b) @ ''}'') c) (zip bs cumulative)
     @ [int_line (name @ ''_bucket{le='' @ quoted ''+Inf'' @ ''}'') (last cumulative),
        float_line (name @ ''_sum'') s, int_line (name @ ''_count'') n])"

definition section_lines :: "(string \<Rightarrow> 'e \<Rightarrow> string list) \<Rightarrow> 'e gomap \<Rightarrow> string list" where
  "section_lines f m = concat (map (\<lambda>name. case map_of m name of Some e \<Rightarrow> f name e | None \<Rightarrow> []) (sortedKeys m))"

section \<open>Handlers\<close>

record HandlerMetric =
  hm_total :: Counter
  hm_latency :: Histogram
  hm_slow :: Counter

definition HandlerSlowLogThreshold :: i64 where "HandlerSlowLogThreshold = 10000000"

definition HandlerMetric_RecordCall :: "i64 \<Rightarrow> HandlerMetric \<Rightarrow> HandlerMetric" where
  "HandlerMetric_RecordCall cost m =
    (let m = m\<lparr>hm_total := Counter_Inc (hm_total m)\<rparr>;
         m = m\<lparr>hm_latency := ObserveDuration cost (hm_latency m)\<rparr>
     in if sint cost > sint HandlerSlowLogThreshold then m\<lparr>hm_slow := Counter_Inc (hm_slow m)\<rparr> else m)"

type_synonym handlerKey = "u64 \<times> i32"

text \<open>\<open>handlerEntries\<close> with the metric each entry points to; \<open>handlerMap\<close> holds the same pointers.\<close>

record HandlerTable =
  handlerEntries :: "(handlerKey \<times> HandlerMetric \<times> string) list"
  handlerSorted :: bool

definition handler_label :: "u64 \<Rightarrow> u32 \<Rightarrow> i32 \<Rightarrow> string" where
  "handler_label actorId actorType msgId =
    ''{handler='' @ quoted (int_str (sint msgId)) @ '',actor_id='' @ quoted (fmt_d (unat actorId))
      @ '',actor_type='' @ quoted (fmt_d (unat actorType)) @ ''}''"

definition GetHandlerMetric :: "u64 \<Rightarrow> u32 \<Rightarrow> i32 \<Rightarrow> HandlerTable \<Rightarrow> HandlerTable" where
  "GetHandlerMetric actorId actorType msgId t = (let key = (actorId, msgId) in
     if key \<in> set (map fst (handlerEntries t)) then t
     else \<lparr>handlerEntries = handlerEntries t @ [(key, \<lparr>hm_total = 0, hm_latency = NewHistogram DefaultLatencyBounds,
              hm_slow = 0\<rparr>, handler_label actorId actorType msgId)],
           handlerSorted = False\<rparr>)"

definition handler_call :: "handlerKey \<Rightarrow> i64 \<Rightarrow> HandlerTable \<Rightarrow> HandlerTable" where
  "handler_call key cost t = t\<lparr>handlerEntries :=
     map (\<lambda>(k, m, l). (k, if k = key then HandlerMetric_RecordCall cost m else m, l)) (handlerEntries t)\<rparr>"

definition less_key :: "handlerKey \<Rightarrow> nat \<times> int" where
  "less_key k = (unat (fst k), sint (snd k))"

definition writeLabelsWithLE :: "string \<Rightarrow> f64 \<Rightarrow> string" where
  "writeLabelsWithLE baseLabel le = butlast baseLabel @ '',le='' @ quoted (appendFloat le) @ ''}''"

definition writeLabelsWithLEInf :: "string \<Rightarrow> string" where
  "writeLabelsWithLEInf baseLabel = butlast baseLabel @ '',le='' @ quoted ''+Inf'' @ ''}''"

definition handler_latency_lines :: "HandlerMetric \<Rightarrow> string \<Rightarrow> string list" where
  "handler_latency_lines m label = (let (bs, cumulative, s, n) = Snapshot (hm_latency m) in
     if n = 0 then []
     else map (\<lambda>(b, c). int_line (''zhenyi_handler_latency_ms_bucket'' @ writeLabelsWithLE label b) c) (zip bs cumulative)
       @ [int_line (''zhenyi_handler_latency_ms_bucket'' @ writeLabelsWithLEInf label) (last cumulative),
          float_line (''zhenyi_handler_latency_ms_sum'' @ label) s,
          int_line (''zhenyi_handler_latency_ms_count'' @ label) n])"

definition WriteHandlerPrometheus :: "HandlerTable \<Rightarrow> HandlerTable \<times> string list" where
  "WriteHandlerPrometheus t =
    (let t = (if handlerSorted t then t
              else t\<lparr>handlerEntries := sort_key (\<lambda>(k, _). less_key k) (handlerEntries t), handlerSorted := True\<rparr>);
         entries = handlerEntries t
     in (t, if entries = [] then []
            else meta_lines ''zhenyi_handler_total'' ''counter'' ''Per-handler call count''
              @ concat (map (\<lambda>(k, m, l). if hm_total m = 0 then [] else [int_line (''zhenyi_handler_total'' @ l) (hm_total m)]) entries)
              @ meta_lines ''zhenyi_handler_slow_total'' ''counter'' ''Per-handler slow call count (>10ms)''
              @ concat (map (\<lambda>(k, m, l). if hm_slow m = 0 then [] else [int_line (''zhenyi_handler_slow_total'' @ l) (hm_slow m)]) entries)
              @ meta_lines ''zhenyi_handler_latency_ms'' ''histogram'' ''Per-handler latency in ms''
              @ concat (map (\<lambda>(k, m, l). handler_latency_lines m l) entries)))"

section \<open>Object pools\<close>

record poolObEntry =
  getTotal :: i64
  putTotal :: i64
  newTotal :: i64
  putNilTotal :: i64
  outstanding :: i64

definition pool_name :: "string \<Rightarrow> string" where
  "pool_name name = (if name = [] then ''(unnamed)'' else name)"

text \<open>\<open>entry\<close> creates the entry on first use; \<open>f\<close> is what the caller does to it.\<close>

definition pool_entry :: "string \<Rightarrow> (poolObEntry \<Rightarrow> poolObEntry) \<Rightarrow> poolObEntry gomap \<Rightarrow> poolObEntry gomap" where
  "pool_entry name f m = (let name = pool_name name;
       m = (case map_of m name of Some _ \<Rightarrow> m | None \<Rightarrow> (name, \<lparr>getTotal = 0, putTotal = 0, newTotal = 0,
              putNilTotal = 0, outstanding = 0\<rparr>) # m)
     in map (\<lambda>(k, e). (k, if k = name then f e else e)) m)"

datatype pool_event = OnPoolCreate string | OnNew string | OnGet string | OnPut string | OnPutNil string

fun pool_observe :: "pool_event \<Rightarrow> poolObEntry gomap \<Rightarrow> poolObEntry gomap" where
  "pool_observe (OnPoolCreate name) m = pool_entry name (\<lambda>e. e) m"
| "pool_observe (OnNew name) m = pool_entry name (\<lambda>e. e\<lparr>newTotal := newTotal e + 1\<rparr>) m"
| "pool_observe (OnGet name) m = pool_entry name (\<lambda>e. e\<lparr>getTotal := getTotal e + 1, outstanding := outstanding e + 1\<rparr>) m"
| "pool_observe (OnPut name) m = pool_entry name (\<lambda>e. e\<lparr>putTotal := putTotal e + 1, outstanding := outstanding e - 1\<rparr>) m"
| "pool_observe (OnPutNil name) m = pool_entry name (\<lambda>e. e\<lparr>putNilTotal := putNilTotal e + 1\<rparr>) m"

definition pool_lines :: "string \<Rightarrow> poolObEntry \<Rightarrow> string list" where
  "pool_lines name e = (let lbl = escapePromPoolLabel name;
       writeLabeled = (\<lambda>mt v. int_line (mt @ ''{pool='' @ quoted lbl @ ''}'') v)
     in [writeLabeled ''zhenyi_zpool_get_total'' (getTotal e), writeLabeled ''zhenyi_zpool_put_total'' (putTotal e),
         writeLabeled ''zhenyi_zpool_new_total'' (newTotal e), writeLabeled ''zhenyi_zpool_put_nil_total'' (putNilTotal e),
         writeLabeled ''zhenyi_zpool_outstanding'' (outstanding e)])"

definition WritePoolPrometheus :: "poolObEntry gomap \<Rightarrow> string list" where
  "WritePoolPrometheus m = (if m = [] then []
     else meta_lines ''zhenyi_zpool_get_total'' ''counter'' ''zpool Get total''
       @ meta_lines ''zhenyi_zpool_put_total'' ''counter'' ''zpool Put total''
       @ meta_lines ''zhenyi_zpool_new_total'' ''counter'' ''zpool New (sync.Pool.New) total''
       @ meta_lines ''zhenyi_zpool_put_nil_total'' ''counter'' ''zpool Put(nil) total''
       @ meta_lines ''zhenyi_zpool_outstanding'' ''gauge'' ''zpool outstanding (Get-Put)''
       @ section_lines pool_lines m)"

section \<open>The whole text\<close>

definition registry_lines :: "Registry \<Rightarrow> string list" where
  "registry_lines r = section_lines counter_lines (counters r) @ section_lines gauge_lines (gauges r)
     @ section_lines histogram_lines (histograms r)"

section \<open>Reading the text back\<close>

text \<open>A scraper splits the text into lines, skips the comments and cuts each sample at its last space.\<close>

definition parse_line :: "string \<Rightarrow> (string \<times> string) option" where
  "parse_line l = (if HasPrefix l ''#'' then None
     else (case after_last (CHR '' '') l of
         Some v \<Rightarrow> Some (take (length l - length v - 1) l, v) | None \<Rightarrow> None))"

definition samples :: "string list \<Rightarrow> (string \<times> string) list" where
  "samples ls = List.map_filter parse_line ls"

definition scrape :: "string \<Rightarrow> (string \<times> string) list" where
  "scrape s = samples (Split nl s)"

named_theorems chars

definition plain_char :: "char \<Rightarrow> bool" where
  "plain_char c \<longleftrightarrow> c \<noteq> nl \<and> c \<noteq> CHR '' '' \<and> c \<noteq> CHR 0x7B \<and> c \<noteq> CHR ''#''"

lemma is_digit_plain: "is_digit c \<Longrightarrow> plain_char c"
  by (auto simp: is_digit_def plain_char_def)

lemma fmt_d_plain [chars]: "c \<in> set (fmt_d n) \<Longrightarrow> plain_char c"
  using fmt_d_digits [of n] is_digit_plain by (auto simp: list_all_iff)

lemma int_str_plain [chars]: "c \<in> set (int_str z) \<Longrightarrow> plain_char c"
  by (auto simp: int_str_def chars plain_char_def split: if_splits dest: fmt_d_plain)

lemma appendInt_plain [chars]: "c \<in> set (appendInt v) \<Longrightarrow> plain_char c"
proof (cases "sint v = - (2 ^ 63)")
  case True
  then have v: "v = - (2 ^ 63)" by (intro signed_word_eqI) simp
  show "c \<in> set (appendInt v) \<Longrightarrow> plain_char c"
    unfolding v formatInt_min_text by (auto simp: plain_char_def)
qed (use appendInt_decimal_aux int_str_plain in force)

lemma frac_text_plain [chars]: "c \<in> set (frac_text w) \<Longrightarrow> plain_char c"
  by (auto simp: frac_text_def Let_def plain_char_def split: if_splits dest: appendInt_plain)

lemma appendFloat_plain [chars]: "c \<in> set (appendFloat v) \<Longrightarrow> plain_char c"
  by (auto simp: appendFloat_def Let_def plain_char_def split: if_splits dest: appendInt_plain frac_text_plain)

lemma Split_unlines: "(\<And>l. l \<in> set ls \<Longrightarrow> nl \<notin> set l) \<Longrightarrow> Split nl (unlines ls) = ls @ [[]]"
proof (induction ls)
  case (Cons l ls)
  then have "Split nl (l @ nl # unlines ls) = l # Split nl (unlines ls)" by (intro Split_append) simp
  then show ?case using Cons by (simp add: unlines_def)
qed (simp add: unlines_def)

lemma scrape_unlines: "(\<And>l. l \<in> set ls \<Longrightarrow> nl \<notin> set l) \<Longrightarrow> scrape (unlines ls) = samples ls"
  by (simp add: scrape_def samples_def Split_unlines map_filter_simps parse_line_def HasPrefix_def after_last_def
      List.map_filter_def)

lemma parse_sample:
  assumes "s \<noteq> []" "hd s \<noteq> CHR ''#''" "CHR '' '' \<notin> set v"
  shows "parse_line (s @ '' '' @ v) = Some (s, v)"
proof -
  have "after_last (CHR '' '') (s @ CHR '' '' # v) = Some v" by (rule after_last_append [OF assms(3)])
  then show ?thesis using assms(1,2) by (cases s) (simp_all add: parse_line_def HasPrefix_def)
qed

lemma parse_meta [simp]: "parse_line (CHR ''#'' # l) = None"
  by (simp add: parse_line_def HasPrefix_def)

lemma parse_int_line: "s \<noteq> [] \<Longrightarrow> hd s \<noteq> CHR ''#'' \<Longrightarrow> parse_line (int_line s v) = Some (s, appendInt v)"
  unfolding int_line_def using appendInt_plain [of "CHR '' ''" v] by (intro parse_sample) (auto simp: plain_char_def)

lemma parse_float_line: "s \<noteq> [] \<Longrightarrow> hd s \<noteq> CHR ''#'' \<Longrightarrow> parse_line (float_line s v) = Some (s, appendFloat v)"
  unfolding float_line_def using appendFloat_plain [of "CHR '' ''" v] by (intro parse_sample) (auto simp: plain_char_def)

text \<open>The samples of one series.\<close>

definition at_series :: "string \<Rightarrow> string list \<Rightarrow> (string \<times> string) list" where
  "at_series name ls = filter (\<lambda>(s, v). s = name) (samples ls)"

lemma at_series_simps [simp]:
  "at_series name [] = []" "at_series name (ls @ ls') = at_series name ls @ at_series name ls'"
  by (simp_all add: at_series_def samples_def List.map_filter_def)

lemma at_series_Cons:
  "at_series name (l # ls) = (case parse_line l of
     Some (s, v) \<Rightarrow> if s = name then [(s, v)] else [] | None \<Rightarrow> []) @ at_series name ls"
  by (simp add: at_series_def samples_def List.map_filter_def split: option.splits)

lemma at_series_concat: "at_series name (concat lss) = concat (map (at_series name) lss)"
  by (induction lss) simp_all

lemma at_series_none: "(\<And>l. l \<in> set ls \<Longrightarrow> at_series name [l] = []) \<Longrightarrow> at_series name ls = []"
proof (induction ls)
  case (Cons l ls)
  have "at_series name (l # ls) = at_series name [l] @ at_series name ls" using at_series_simps(2) [of name "[l]" ls] by simp
  then show ?case using Cons by simp
qed simp

lemma at_meta [simp]: "at_series name (meta_lines n t h) = []"
  by (simp add: meta_lines_def at_series_Cons)

lemma at_int_line: "s \<noteq> [] \<Longrightarrow> hd s \<noteq> CHR ''#'' \<Longrightarrow> at_series name [int_line s v] = (if s = name then [(s, appendInt v)] else [])"
  by (simp add: at_series_Cons parse_int_line)

lemma at_float_line: "s \<noteq> [] \<Longrightarrow> hd s \<noteq> CHR ''#'' \<Longrightarrow> at_series name [float_line s v] = (if s = name then [(s, appendFloat v)] else [])"
  by (simp add: at_series_Cons parse_float_line)

text \<open>Metric names and help texts as Prometheus demands them.\<close>

definition name_ok :: "string \<Rightarrow> bool" where
  "name_ok n \<longleftrightarrow> n \<noteq> [] \<and> list_all plain_char n"

definition entries_ok :: "'m entry gomap \<Rightarrow> bool" where
  "entries_ok m \<longleftrightarrow> distinct (map fst m) \<and> (\<forall>(n, e) \<in> set m. name_ok n \<and> nl \<notin> set (helptext e))"

lemma name_okD: "name_ok n \<Longrightarrow> n \<noteq> [] \<and> hd n \<noteq> CHR ''#'' \<and> nl \<notin> set n \<and> CHR 0x7B \<notin> set n"
  by (cases n) (auto simp: name_ok_def plain_char_def list_all_iff)

lemma entries_okD: "entries_ok m \<Longrightarrow> map_of m n = Some e \<Longrightarrow> name_ok n \<and> nl \<notin> set (helptext e)"
  by (auto simp: entries_ok_def dest: map_of_SomeD)

lemma set_sortedKeys [simp]: "set (sortedKeys m) = dom (map_of m)"
  by (simp add: sortedKeys_def dom_map_of_conv_image_fst)

lemma distinct_sortedKeys: "entries_ok m \<Longrightarrow> distinct (sortedKeys m)"
  by (simp add: sortedKeys_def entries_ok_def)

lemma concat_single: "distinct ks \<Longrightarrow> concat (map (\<lambda>k. if k = name then [x] else []) ks) = (if name \<in> set ks then [x] else [])"
  by (induction ks) auto

lemma at_section:
  assumes "\<And>k e. map_of m k = Some e \<Longrightarrow> at_series name (f k e) = g k e"
  shows "at_series name (section_lines f m) = concat (map (\<lambda>k. g k (the (map_of m k))) (sortedKeys m))"
  unfolding section_lines_def at_series_concat map_map comp_def
  using assms by (intro arg_cong [where f = concat] map_cong refl) (auto split: option.splits)

lemma at_counters:
  assumes "entries_ok m"
  shows "at_series name (section_lines counter_lines m)
      = (case map_of m name of Some e \<Rightarrow> [(name, appendInt (metric e))] | None \<Rightarrow> [])"
    and "at_series name (section_lines gauge_lines m)
      = (case map_of m name of Some e \<Rightarrow> [(name, appendInt (metric e))] | None \<Rightarrow> [])"
proof -
  let ?g = "\<lambda>k e. if k = name then [(k, appendInt (metric e))] else []"
  have sum: "concat (map (\<lambda>k. ?g k (the (map_of m k))) (sortedKeys m))
      = (case map_of m name of Some e \<Rightarrow> [(name, appendInt (metric e))] | None \<Rightarrow> [])"
  proof -
    have single: "map (\<lambda>k. ?g k (the (map_of m k))) (sortedKeys m)
        = map (\<lambda>k. if k = name then [(name, appendInt (metric (the (map_of m name))))] else []) (sortedKeys m)"
      by (rule map_cong) auto
    show ?thesis unfolding single concat_single [OF distinct_sortedKeys [OF assms]] by (auto split: option.splits)
  qed
  have "at_series name (counter_lines k e) = ?g k e" "at_series name (gauge_lines k e) = ?g k e"
    if "map_of m k = Some e" for k e
    using name_okD entries_okD [OF assms that] by (simp_all add: counter_lines_def gauge_lines_def at_int_line)
  then show "at_series name (section_lines counter_lines m)
      = (case map_of m name of Some e \<Rightarrow> [(name, appendInt (metric e))] | None \<Rightarrow> [])"
    "at_series name (section_lines gauge_lines m)
      = (case map_of m name of Some e \<Rightarrow> [(name, appendInt (metric e))] | None \<Rightarrow> [])"
    using sum by (simp_all only: at_section [of m name _ ?g])
qed

text \<open>Lines whose series, if they have one, carries labels.\<close>

definition labelled :: "string \<Rightarrow> bool" where
  "labelled l \<longleftrightarrow> nl \<notin> set l \<and> (\<forall>s v. parse_line l = Some (s, v) \<longrightarrow> CHR 0x7B \<in> set s)"

lemma labelled_int: "s \<noteq> [] \<Longrightarrow> hd s \<noteq> CHR ''#'' \<Longrightarrow> nl \<notin> set s \<Longrightarrow> CHR 0x7B \<in> set s \<Longrightarrow> labelled (int_line s v)"
  using appendInt_plain [of nl v] by (auto simp: labelled_def parse_int_line) (auto simp: int_line_def plain_char_def)

lemma labelled_float: "s \<noteq> [] \<Longrightarrow> hd s \<noteq> CHR ''#'' \<Longrightarrow> nl \<notin> set s \<Longrightarrow> CHR 0x7B \<in> set s \<Longrightarrow> labelled (float_line s v)"
  using appendFloat_plain [of nl v] by (auto simp: labelled_def parse_float_line) (auto simp: float_line_def plain_char_def)

lemma labelled_meta: "nl \<notin> set n \<Longrightarrow> nl \<notin> set t \<Longrightarrow> nl \<notin> set h \<Longrightarrow> l \<in> set (meta_lines n t h) \<Longrightarrow> labelled l"
  by (auto simp: labelled_def meta_lines_def split: if_splits)

lemma at_labelled: "name_ok name \<Longrightarrow> labelled l \<Longrightarrow> at_series name [l] = []"
  using name_okD [of name] by (auto simp: labelled_def at_series_Cons split: option.splits)

lemma nl_quoted [simp]: "nl \<in> set (quoted s) \<longleftrightarrow> nl \<in> set s"
  by (auto simp: quoted_def)

lemma escape_nl [simp]: "nl \<in> set (escapePromPoolLabel s) \<longleftrightarrow> nl \<in> set s"
  by (auto simp: escape_eq escape_char_def split: if_splits)

lemma nl_numbers [simp]: "nl \<notin> set (appendInt v)" "nl \<notin> set (appendFloat x)" "nl \<notin> set (fmt_d n)" "nl \<notin> set (int_str z)"
  using appendInt_plain [of nl] appendFloat_plain [of nl] fmt_d_plain [of nl] int_str_plain [of nl] by (auto simp: plain_char_def)

lemma labelled_pool:
  assumes "l \<in> set (WritePoolPrometheus m)" "\<forall>(n, e) \<in> set m. nl \<notin> set n"
  shows "labelled l"
proof -
  have "labelled l" if "l \<in> set (pool_lines n e)" "nl \<notin> set n" for n e
    using that by (auto simp: pool_lines_def Let_def intro!: labelled_int)
  moreover have "\<exists>n e. l \<in> set (pool_lines n e) \<and> nl \<notin> set n" if "l \<in> set (section_lines pool_lines m)"
    using that assms(2) by (fastforce simp: section_lines_def split: option.splits dest: map_of_SomeD)
  ultimately show ?thesis
    using assms(1) by (auto simp: WritePoolPrometheus_def split: if_splits elim: labelled_meta [rotated 3])
qed

text \<open>The labels of a handler table are those of \<open>GetHandlerMetric\<close>, which also keeps its keys distinct.\<close>

definition table_ok :: "HandlerTable \<Rightarrow> bool" where
  "table_ok t \<longleftrightarrow> distinct (map fst (handlerEntries t))
     \<and> (\<forall>(k, m, l) \<in> set (handlerEntries t). \<exists>a ty i. l = handler_label a ty i)"

lemma table_ok_get: "table_ok t \<Longrightarrow> table_ok (GetHandlerMetric a ty i t)"
  by (auto simp: table_ok_def GetHandlerMetric_def Let_def)

lemma table_ok_call: "table_ok t \<Longrightarrow> table_ok (handler_call k d t)"
  by (auto simp: table_ok_def handler_call_def comp_def case_prod_beta)

lemma label_chars [simp]: "nl \<notin> set (handler_label a ty i)" "CHR 0x7B \<in> set (handler_label a ty i)"
  "nl \<notin> set (butlast (handler_label a ty i))" "CHR 0x7B \<in> set (butlast (handler_label a ty i))"
  by (auto simp: handler_label_def butlast_append dest: in_set_butlastD)

lemma labelled_latency:
  assumes "l = handler_label a ty i" "x \<in> set (handler_latency_lines m l)"
  shows "labelled x"
  using assms
  by (auto simp: handler_latency_lines_def Snapshot_def Let_def writeLabelsWithLE_def writeLabelsWithLEInf_def
      split: if_splits intro!: labelled_int labelled_float)

lemma labelled_handlers:
  assumes "l \<in> set (snd (WriteHandlerPrometheus t))" "table_ok t"
  shows "labelled l"
proof -
  define es where "es = (if handlerSorted t then handlerEntries t
    else sort_key (\<lambda>(k, _). less_key k) (handlerEntries t))"
  have es: "\<exists>a ty i. lb = handler_label a ty i" if "(k, m, lb) \<in> set es" for k m lb
    using that assms(2) by (auto simp: es_def table_ok_def split: if_splits)
  have "labelled (int_line (''zhenyi_handler_total'' @ lb) v) \<and> labelled (int_line (''zhenyi_handler_slow_total'' @ lb) v)"
    if "(k, m, lb) \<in> set es" for k m lb v
    using es [OF that] by (auto intro!: labelled_int)
  moreover have "labelled x" if "(k, m, lb) \<in> set es" "x \<in> set (handler_latency_lines m lb)" for k m lb x
    using es [OF that(1)] labelled_latency that(2) by blast
  ultimately show ?thesis
    using assms(1)
    by (auto simp: WriteHandlerPrometheus_def Let_def es_def split: if_splits elim: labelled_meta [rotated 3])
qed

lemma at_histograms:
  assumes "entries_ok m" "name_ok name" "\<And>h. h \<in> dom (map_of m) \<Longrightarrow> name \<noteq> h @ ''_sum'' \<and> name \<noteq> h @ ''_count''"
  shows "at_series name (section_lines histogram_lines m) = []"
proof -
  have "at_series name (histogram_lines k e) = []" if k: "map_of m k = Some e" for k e
  proof -
    have ok: "k @ x \<noteq> []" "hd (k @ x) \<noteq> CHR ''#''" for x using name_okD entries_okD [OF assms(1) k] by auto
    have other: "k @ ''_sum'' \<noteq> name" "k @ ''_count'' \<noteq> name" using assms(3) k by blast+
    have brace: "k @ ''_bucket{le='' @ x \<noteq> name" for x
      using name_okD [OF assms(2)] by auto
    have bucket: "at_series name [int_line (k @ ''_bucket{le='' @ x) c] = []" for x c
      by (subst at_int_line [OF ok]) (simp only: brace if_False)
    have "at_series name (map (\<lambda>(b, c). int_line (k @ ''_bucket{le='' @ quoted (appendFloat b) @ ''}'') c) bcs) = []" for bcs
      by (rule at_series_none) (auto simp only: set_map bucket split: prod.splits)
    moreover have "at_series name [float_line (k @ ''_sum'') x] = []" "at_series name [int_line (k @ ''_count'') c] = []" for x c
      by (simp_all only: at_float_line [OF ok] at_int_line [OF ok] other if_False)
    moreover have "at_series name [x, y, z] = at_series name [x] @ at_series name [y] @ at_series name [z]" for x y z
      using at_series_simps(2) [of name "[x]" "[y, z]"] at_series_simps(2) [of name "[y]" "[z]"] by simp
    ultimately show ?thesis unfolding histogram_lines_def Snapshot_def Let_def prod.case
      by (simp only: at_series_simps at_meta bucket append_Nil)
  qed
  then show ?thesis by (subst at_section [where g = "\<lambda>_ _. []"]) (simp_all add: concat_eq_Nil_conv)
qed

lemma meta_no_nl: "l \<in> set (meta_lines n t h) \<Longrightarrow> nl \<notin> set n \<Longrightarrow> nl \<notin> set t \<Longrightarrow> nl \<notin> set h \<Longrightarrow> nl \<notin> set l"
  by (auto simp: meta_lines_def split: if_splits)

lemma registry_no_nl:
  assumes "entries_ok (counters r)" "entries_ok (gauges r)" "entries_ok (histograms r)" "l \<in> set (registry_lines r)"
  shows "nl \<notin> set l"
proof -
  consider k e where "map_of (counters r) k = Some e" "l \<in> set (counter_lines k e)"
    | k e where "map_of (gauges r) k = Some e" "l \<in> set (gauge_lines k e)"
    | k e where "map_of (histograms r) k = Some e" "l \<in> set (histogram_lines k e)"
    using assms(4) by (auto simp: registry_lines_def section_lines_def split: option.splits)
  then show ?thesis
  proof cases
    case (1 k e)
    then show ?thesis using entries_okD [OF assms(1) 1(1)] name_okD [of k] meta_no_nl [of l k "''counter''" "helptext e"]
      by (auto simp: counter_lines_def int_line_def)
  next
    case (2 k e)
    then show ?thesis using entries_okD [OF assms(2) 2(1)] name_okD [of k] meta_no_nl [of l k "''gauge''" "helptext e"]
      by (auto simp: gauge_lines_def int_line_def)
  next
    case (3 k e)
    then show ?thesis using entries_okD [OF assms(3) 3(1)] name_okD [of k] meta_no_nl [of l k "''histogram''" "helptext e"]
      by (auto simp: histogram_lines_def int_line_def float_line_def Snapshot_def)
  qed
qed

end
