(* ===== verification/ZMonitor.thy ===== *)
theory ZMonitor
  imports ZMetrics ZScript
begin

text \<open>
  \<open>zmonitor/interface.go\<close> and the parts of \<open>zmetrics\<close> that publish its data: the counters of actors
  and sessions, the cached system sample, the manager of monitored components, the snapshot
  section of the exposition (\<open>monitor_prom.go\<close>), and the health state of the metrics server
  (\<open>server.go\<close>). Times are given by the caller (\<open>time.Now\<close>); the order in which a Go map is ranged
  over is a parameter \<open>ord\<close>, and a component is an identifier whose data \<open>GetMonitorData\<close> returns.
\<close>

section \<open>Actor and session counters\<close>

record ActorStats =
  processedMsg :: i64
  totalLatency :: i64
  slowCount :: i64
  st_errorCount :: i64
  startTime :: i64

definition NewActorStats :: "i64 \<Rightarrow> ActorStats" where
  "NewActorStats now = \<lparr>processedMsg = 0, totalLatency = 0, slowCount = 0, st_errorCount = 0, startTime = now\<rparr>"

text \<open>The atomic additions that the recording operations consist of.\<close>

datatype stat_op = StMsg | StLatency i64 | StSlow | StError

fun stat_do :: "stat_op \<Rightarrow> ActorStats \<Rightarrow> ActorStats" where
  "stat_do StMsg s = s\<lparr>processedMsg := processedMsg s + 1\<rparr>"
| "stat_do (StLatency d) s = s\<lparr>totalLatency := totalLatency s + d\<rparr>"
| "stat_do StSlow s = s\<lparr>slowCount := slowCount s + 1\<rparr>"
| "stat_do StError s = s\<lparr>st_errorCount := st_errorCount s + 1\<rparr>"

definition RecordMessage_ops :: "i64 \<Rightarrow> bool \<Rightarrow> stat_op list" where
  "RecordMessage_ops latencyNs isSlow = [StMsg, StLatency latencyNs] @ (if isSlow then [StSlow] else [])"

definition RecordMessage :: "i64 \<Rightarrow> bool \<Rightarrow> ActorStats \<Rightarrow> ActorStats" where
  "RecordMessage latencyNs isSlow s = fold stat_do (RecordMessage_ops latencyNs isSlow) s"

definition RecordError :: "ActorStats \<Rightarrow> ActorStats" where
  "RecordError s = stat_do StError s"

text \<open>\<open>Duration.Seconds\<close>.\<close>

definition Seconds :: "i64 \<Rightarrow> f64" where
  "Seconds d = fadd (f64_round (of_int (sint d sdiv 1000000000))) (fdiv (f64_round (of_int (sint d smod 1000000000))) 1000000000)"

definition avg_latency :: "i64 \<Rightarrow> i64 \<Rightarrow> i64" where
  "avg_latency latency processed = (if sint processed > 0
     then word_of_int ((sint latency sdiv sint processed) sdiv 1000000) else 0)"

definition GetSnapshot :: "i64 \<Rightarrow> ActorStats \<Rightarrow> i64 \<times> i64 \<times> f64 \<times> i64 \<times> i64" where
  "GetSnapshot now s = (let processed = processedMsg s; elapsed = Seconds (now - startTime s) in
     (processed, avg_latency (totalLatency s) processed,
      if elapsed > 0 then fdiv (i64_to_f64 processed) elapsed else 0, slowCount s, st_errorCount s))"

record SessionStats =
  sendCount :: i64
  recvCount :: i64
  sendBytes :: i64
  recvBytes :: i64
  lastActiveMs :: i64
  connectedAt :: i64

definition NewSessionStats :: "i64 \<Rightarrow> SessionStats" where
  "NewSessionStats now = \<lparr>sendCount = 0, recvCount = 0, sendBytes = 0, recvBytes = 0, lastActiveMs = 0, connectedAt = now\<rparr>"

definition RecordSend :: "i64 \<Rightarrow> i64 \<Rightarrow> i64 \<Rightarrow> SessionStats \<Rightarrow> SessionStats" where
  "RecordSend now n nbytes s =
    (let s = s\<lparr>sendCount := sendCount s + n\<rparr>; s = s\<lparr>sendBytes := sendBytes s + nbytes\<rparr> in s\<lparr>lastActiveMs := now\<rparr>)"

definition RecordRecv :: "i64 \<Rightarrow> i64 \<Rightarrow> SessionStats \<Rightarrow> SessionStats" where
  "RecordRecv now nbytes s =
    (let s = s\<lparr>recvCount := recvCount s + 1\<rparr>; s = s\<lparr>recvBytes := recvBytes s + nbytes\<rparr> in s\<lparr>lastActiveMs := now\<rparr>)"

definition SessionStatsValues :: "SessionStats \<Rightarrow> i64 \<times> i64 \<times> i64 \<times> i64 \<times> i64 \<times> i64" where
  "SessionStatsValues s = (sendCount s, recvCount s, sendBytes s, recvBytes s, connectedAt s, lastActiveMs s)"

section \<open>The system sample and its cache\<close>

record MonitorData =
  MType :: string
  MID :: string
  MName :: string
  Status :: string
  Timestamp :: i64
  Metrics :: "gval gomap"
  Tags :: "string gomap"

text \<open>What the Go runtime reports (\<open>runtime.ReadMemStats\<close> and the other functions of \<open>runtime\<close>).\<close>

record MemStats =
  Alloc :: u64
  TotalAlloc :: u64
  Sys :: u64
  HeapAlloc :: u64
  HeapSys :: u64
  HeapIdle :: u64
  HeapInuse :: u64
  NumGC :: u32
  PauseTotalNs :: u64
  PauseNs :: "u64 list"
  MemGCCPUFraction :: f64

record runtime_env =
  now_ms :: i64
  mem_stats :: MemStats
  rt_goroutines :: i64
  rt_cpus :: i64
  rt_cgo_calls :: i64

record MemoryStats =
  AllocMB :: f64
  TotalAllocMB :: f64
  SysMB :: f64
  HeapAllocMB :: f64
  HeapSysMB :: f64
  HeapIdleMB :: f64
  HeapInuseMB :: f64

record GCStats =
  GCNumGC :: u32
  PauseTotalMs :: f64
  PauseAvgMs :: f64
  LastPauseMs :: f64
  GCCPUFraction :: f64

record RuntimeStats =
  Uptime :: f64
  NumCPU :: i64
  NumGoroutine :: i64
  NumCgoCall :: i64

record SystemMonitorData =
  SysData :: MonitorData
  SysMemStats :: MemoryStats
  SysGCStats :: GCStats
  GoroutineNum :: i64
  CPUNum :: i64
  SysRuntimeStats :: RuntimeStats

definition u64_to_f64 :: "'a::len word \<Rightarrow> f64" where "u64_to_f64 w = f64_round (of_nat (unat w))"

definition to_MB :: "u64 \<Rightarrow> f64" where "to_MB n = fdiv (fdiv (u64_to_f64 n) 1024) 1024"

definition last_pause_index :: "u32 \<Rightarrow> nat" where
  "last_pause_index n = unat ((n + 255) mod 256)"

definition collectSystemMonitorFresh :: "runtime_env \<Rightarrow> SystemMonitorData" where
  "collectSystemMonitorFresh env =
    (let ms = mem_stats env; totalMs = fdiv (u64_to_f64 (PauseTotalNs ms)) 1000000 in
     \<lparr>SysData = \<lparr>MType = ''system'', MID = ''system'', MName = ''System'', Status = ''running'', Timestamp = now_ms env,
         Metrics = [], Tags = []\<rparr>,
      SysMemStats = \<lparr>AllocMB = to_MB (Alloc ms), TotalAllocMB = to_MB (TotalAlloc ms), SysMB = to_MB (Sys ms),
         HeapAllocMB = to_MB (HeapAlloc ms), HeapSysMB = to_MB (HeapSys ms), HeapIdleMB = to_MB (HeapIdle ms),
         HeapInuseMB = to_MB (HeapInuse ms)\<rparr>,
      SysGCStats = \<lparr>GCNumGC = NumGC ms, PauseTotalMs = totalMs,
         PauseAvgMs = (if unat (NumGC ms) > 0 then fdiv totalMs (u64_to_f64 (NumGC ms)) else 0),
         LastPauseMs = (if unat (NumGC ms) > 0
           then fdiv (u64_to_f64 (PauseNs ms ! last_pause_index (NumGC ms))) 1000000 else 0),
         GCCPUFraction = MemGCCPUFraction ms\<rparr>,
      GoroutineNum = rt_goroutines env, CPUNum = rt_cpus env,
      SysRuntimeStats = \<lparr>Uptime = 0, NumCPU = rt_cpus env, NumGoroutine = rt_goroutines env,
         NumCgoCall = rt_cgo_calls env\<rparr>\<rparr>)"

record 'd sample_cache =
  intervalNs :: i64
  lastSampleNs :: i64
  last_sample :: "'d option"

definition init_cache :: "'d sample_cache" where
  "init_cache = \<lparr>intervalNs = 1000000000, lastSampleNs = 0, last_sample = None\<rparr>"

definition SetSystemMonitorCacheInterval :: "i64 \<Rightarrow> 'd sample_cache \<Rightarrow> 'd sample_cache" where
  "SetSystemMonitorCacheInterval d c = c\<lparr>intervalNs := (if sint d < 0 then 0 else d)\<rparr>"

text \<open>The check before the lock and the one after it are the same when nobody else runs in between;
  \<open>locked\<close> is the critical section, \<open>now\<close> the clock read before the first check and \<open>fresh\<close> what a
  new sample would be. Data is copied when it is handed out, so that callers share nothing.\<close>

definition cached :: "i64 \<Rightarrow> 'd sample_cache \<Rightarrow> 'd option" where
  "cached now c = (case last_sample c of
     Some d \<Rightarrow> if sint (now - lastSampleNs c) < sint (intervalNs c) then Some d else None | None \<Rightarrow> None)"

definition locked :: "i64 \<Rightarrow> 'd \<Rightarrow> 'd sample_cache \<Rightarrow> 'd \<times> 'd sample_cache" where
  "locked now fresh c = (case cached now c of
     Some d \<Rightarrow> (d, c) | None \<Rightarrow> (fresh, c\<lparr>last_sample := Some fresh, lastSampleNs := now\<rparr>))"

definition CollectSystemMonitor :: "i64 \<Rightarrow> 'd \<Rightarrow> 'd sample_cache \<Rightarrow> 'd \<times> 'd sample_cache" where
  "CollectSystemMonitor now fresh c =
    (if sint (intervalNs c) \<le> 0 then (fresh, c)
     else (case cached now c of Some d \<Rightarrow> (d, c) | None \<Rightarrow> locked now fresh c))"

section \<open>The manager\<close>

type_synonym 'c manager = "'c gomap"

definition Manager_Register :: "string \<Rightarrow> 'c \<Rightarrow> 'c manager \<Rightarrow> 'c manager" where
  "Manager_Register i c m = (i, c) # filter (\<lambda>(k, _). k \<noteq> i) m"

definition Manager_Unregister :: "string \<Rightarrow> 'c manager \<Rightarrow> 'c manager" where
  "Manager_Unregister i m = filter (\<lambda>(k, _). k \<noteq> i) m"

definition Manager_GetAll :: "('c manager \<Rightarrow> 'c manager) \<Rightarrow> ('c \<Rightarrow> MonitorData) \<Rightarrow> 'c manager \<Rightarrow> MonitorData list" where
  "Manager_GetAll ord GetMonitorData m = map (\<lambda>(k, c). GetMonitorData c) (ord m)"

definition Manager_Get :: "('c \<Rightarrow> MonitorData) \<Rightarrow> string \<Rightarrow> 'c manager \<Rightarrow> MonitorData option" where
  "Manager_Get GetMonitorData i m = map_option GetMonitorData (map_of m i)"

definition Manager_GetByType :: "('c manager \<Rightarrow> 'c manager) \<Rightarrow> ('c \<Rightarrow> MonitorData) \<Rightarrow> string \<Rightarrow> 'c manager \<Rightarrow> MonitorData list" where
  "Manager_GetByType ord GetMonitorData typ m =
     filter (\<lambda>data. MType data = typ) (map (\<lambda>(k, c). GetMonitorData c) (ord m))"

section \<open>Publishing the snapshots\<close>

definition monitorFieldKeyOK :: "string \<Rightarrow> bool" where
  "monitorFieldKeyOK k = (k \<noteq> [] \<and> list_all (\<lambda>r. let n = of_char r :: nat in
     (97 \<le> n \<and> n \<le> 122) \<or> (65 \<le> n \<and> n \<le> 90) \<or> (48 \<le> n \<and> n \<le> 57) \<or> n = 95) k)"

fun monitorScalarToFloat :: "gval \<Rightarrow> f64 option" where
  "monitorScalarToFloat (GInt x) = Some (i64_to_f64 x)"
| "monitorScalarToFloat (GInt32 x) = Some (f64_round (of_int (sint x)))"
| "monitorScalarToFloat (GInt64 x) = Some (i64_to_f64 x)"
| "monitorScalarToFloat (GUint x) = Some (u64_to_f64 x)"
| "monitorScalarToFloat (GUint32 x) = Some (u64_to_f64 x)"
| "monitorScalarToFloat (GUint64 x) = Some (u64_to_f64 x)"
| "monitorScalarToFloat (GFloat32 x) = Some x"
| "monitorScalarToFloat (GFloat64 x) = Some x"
| "monitorScalarToFloat _ = None"

record row =
  r_kind :: string
  r_id :: string
  r_name :: string
  r_field :: string
  r_val :: f64

definition or_else :: "string \<Rightarrow> string \<Rightarrow> string" where
  "or_else d s = (if s = [] then d else s)"

definition data_kind :: "MonitorData \<Rightarrow> string" where "data_kind d = or_else ''unknown'' (MType d)"

definition data_rows :: "MonitorData \<Rightarrow> row list" where
  "data_rows d = concat (map (\<lambda>(k, v). if \<not> monitorFieldKeyOK k then []
     else (case monitorScalarToFloat v of
         None \<Rightarrow> []
       | Some fv \<Rightarrow> [\<lparr>r_kind = data_kind d, r_id = or_else ''(no-id)'' (MID d),
           r_name = or_else ''(no-name)'' (MName d), r_field = k, r_val = fv\<rparr>])) (Metrics d))"

definition kind_count :: "MonitorData list \<Rightarrow> string \<Rightarrow> i64" where
  "kind_count ds k = of_nat (length (filter (\<lambda>d. data_kind d = k) ds))"

definition row_line :: "row \<Rightarrow> string" where
  "row_line r = float_line (''zhenyi_monitor_snapshot{kind='' @ quoted (escapePromLabelValue (r_kind r))
     @ '',id='' @ quoted (escapePromLabelValue (r_id r)) @ '',name='' @ quoted (escapePromLabelValue (r_name r))
     @ '',field='' @ quoted (escapePromLabelValue (r_field r)) @ ''}'') (r_val r)"

text \<open>The rows are sorted by kind, identifier and field; \<open>sort.Slice\<close> leaves the order of rows equal
  in all three open, which only two components of one kind and identifier produce: the model
  keeps their order. \<open>kinds\<close> is the order in which the count per kind is ranged over.\<close>

definition WriteMonitorSnapshotPrometheus :: "(string list \<Rightarrow> string list) \<Rightarrow> MonitorData list option \<Rightarrow> string list" where
  "WriteMonitorSnapshotPrometheus kinds mgr = (case mgr of
     None \<Rightarrow> []
   | Some ds \<Rightarrow> if ds = [] then []
       else (let rows = concat (map data_rows ds);
                 kindKeys = kinds (remdups (map data_kind ds))
             in if rows = [] \<and> kindKeys = [] then []
                else [''# HELP zhenyi_monitor_snapshot zmonitor.Manager snapshot gauges (numeric Metrics fields only)'',
                      ''# TYPE zhenyi_monitor_snapshot gauge'']
                  @ map (\<lambda>k. int_line (''zhenyi_monitor_registry_components{kind='' @ quoted (escapePromLabelValue k) @ ''}'')
                      (kind_count ds k)) kindKeys
                  @ map row_line (sort_key (\<lambda>r. (r_kind r, r_id r, r_field r)) rows)))"

text \<open>\<open>Registry.WritePrometheus\<close>: all sections, in this order.\<close>

definition WritePrometheus :: "(string list \<Rightarrow> string list) \<Rightarrow> Registry \<Rightarrow> HandlerTable \<Rightarrow> poolObEntry gomap
    \<Rightarrow> MonitorData list option \<Rightarrow> HandlerTable \<times> string" where
  "WritePrometheus kinds r handlers pools mgr =
    (let (handlers, hls) = WriteHandlerPrometheus handlers
     in (handlers, unlines (registry_lines r @ hls @ WritePoolPrometheus pools
           @ WriteMonitorSnapshotPrometheus kinds mgr)))"

section \<open>The health state of the metrics server\<close>

datatype HealthStatus = StatusStarting | StatusReady | StatusDraining

record MetricsServer =
  status :: HealthStatus
  checks :: "string gomap"

text \<open>A check is registered under a name; \<open>run\<close> gives the error text of the check at the moment, if
  it fails. A body is its fields, the HTTP code precedes it.\<close>

definition NewMetricsServer :: MetricsServer where "NewMetricsServer = \<lparr>status = StatusStarting, checks = []\<rparr>"

definition SetReady :: "MetricsServer \<Rightarrow> MetricsServer" where "SetReady s = s\<lparr>status := StatusReady\<rparr>"

definition SetDraining :: "MetricsServer \<Rightarrow> MetricsServer" where "SetDraining s = s\<lparr>status := StatusDraining\<rparr>"

definition RegisterHealthCheck :: "string \<Rightarrow> string \<Rightarrow> MetricsServer \<Rightarrow> MetricsServer" where
  "RegisterHealthCheck name check s = s\<lparr>checks := (name, check) # filter (\<lambda>(k, _). k \<noteq> name) (checks s)\<rparr>"

definition handleHealth :: "(string \<Rightarrow> string option) \<Rightarrow> MetricsServer \<Rightarrow> nat \<times> string \<times> string list" where
  "handleHealth run s =
    (if status s = StatusDraining then (503, ''draining'', [])
     else (let errs = concat (map (\<lambda>(name, c). case run c of Some e \<Rightarrow> [name @ '': '' @ e] | None \<Rightarrow> []) (checks s)) in
       if length errs > 0 then (503, ''unhealthy'', errs) else (200, ''ok'', [])))"

definition handleReady :: "MetricsServer \<Rightarrow> nat \<times> string" where
  "handleReady s = (case status s of
     StatusReady \<Rightarrow> (200, ''ready'') | StatusStarting \<Rightarrow> (503, ''starting'') | StatusDraining \<Rightarrow> (503, ''draining''))"

section \<open>What a scraper reads\<close>

lemma sort_key_set: "set (sort_key f xs) = set xs"
  by simp

definition data_ok :: "MonitorData \<Rightarrow> bool" where
  "data_ok d \<longleftrightarrow> nl \<notin> set (MType d) \<and> nl \<notin> set (MID d) \<and> nl \<notin> set (MName d)"

lemma field_no_nl: "monitorFieldKeyOK k \<Longrightarrow> nl \<notin> set k"
  by (auto simp: monitorFieldKeyOK_def list_all_iff Let_def)

lemma labelled_row: "nl \<notin> set (r_kind r) \<Longrightarrow> nl \<notin> set (r_id r) \<Longrightarrow> nl \<notin> set (r_name r) \<Longrightarrow> nl \<notin> set (r_field r)
    \<Longrightarrow> labelled (row_line r)"
  unfolding row_line_def escape_same by (rule labelled_float) simp_all

lemma data_rows_no_nl:
  assumes "data_ok d" "r \<in> set (data_rows d)"
  shows "nl \<notin> set (r_kind r) \<and> nl \<notin> set (r_id r) \<and> nl \<notin> set (r_name r) \<and> nl \<notin> set (r_field r)"
  using assms field_no_nl
  by (auto simp: data_rows_def data_ok_def data_kind_def or_else_def split: if_splits option.splits)

lemma labelled_monitor:
  assumes "l \<in> set (WriteMonitorSnapshotPrometheus kinds mgr)" "\<And>ds. mgr = Some ds \<Longrightarrow> \<forall>d \<in> set ds. data_ok d"
    and "\<And>ks. set (kinds ks) = set ks"
  shows "labelled l"
proof -
  obtain ds where ds: "mgr = Some ds" "\<forall>d \<in> set ds. data_ok d"
    using assms(1,2) by (cases mgr) (auto simp: WriteMonitorSnapshotPrometheus_def)
  have comment: "labelled (CHR ''#'' # t)" if "nl \<notin> set t" for t using that by (simp add: labelled_def)
  have kind: "labelled (int_line (''zhenyi_monitor_registry_components{kind='' @ quoted (escapePromLabelValue (data_kind d)) @ ''}'') v)"
    if "d \<in> set ds" for d v
    using that ds(2) unfolding escape_same by (intro labelled_int) (auto simp: data_ok_def data_kind_def or_else_def)
  have row: "labelled (row_line r)" if "d \<in> set ds" "r \<in> set (data_rows d)" for d r
    using data_rows_no_nl [of d r] that ds(2) by (blast intro: labelled_row)
  show ?thesis
    using assms(1) comment kind row
    by (auto simp: WriteMonitorSnapshotPrometheus_def ds(1) assms(3) Let_def split: if_splits)
qed


definition upd_metric_counter :: "string \<Rightarrow> Registry \<Rightarrow> Registry" where
  "upd_metric_counter name r = r\<lparr>counters := upd_metric name Counter_Inc (counters r)\<rparr>"

definition demo_registry :: Registry where
  "demo_registry = upd_metric_counter ''msgs'' (Registry_Gauge ''depth'' [] (Registry_Counter ''msgs'' ''seen'' empty_registry))"


text \<open>Help texts are written as they are: a line break in one starts a line of its own, which a scraper
  reads as a sample of a series that is not registered.\<close>

theorem help_text_injects:
  assumes "name_ok n" "nl \<notin> set a" "s \<noteq> []" "hd s \<noteq> CHR ''#''" "nl \<notin> set s" "CHR '' '' \<notin> set v" "nl \<notin> set v"
  shows "(s, v) \<in> set (scrape (unlines (registry_lines (Registry_Counter n (a @ [nl] @ s @ '' '' @ v) empty_registry))))"
proof -
  let ?r = "Registry_Counter n (a @ [nl] @ s @ '' '' @ v) empty_registry"
  have n: "nl \<notin> set n" using name_okD [OF assms(1)] by simp
  have "registry_lines ?r = [''# HELP '' @ n @ '' '' @ a @ [nl] @ s @ '' '' @ v, ''# TYPE '' @ n @ '' counter'', int_line n 0]"
    by (simp add: registry_lines_def section_lines_def sortedKeys_def Registry_Counter_def empty_registry_def
        get_or_add_def counter_lines_def meta_lines_def)
  then have "unlines (registry_lines ?r)
      = unlines [''# HELP '' @ n @ '' '' @ a, s @ '' '' @ v, ''# TYPE '' @ n @ '' counter'', int_line n 0]"
    by (simp add: unlines_def)
  then have "scrape (unlines (registry_lines ?r)) = samples [''# HELP '' @ n @ '' '' @ a, s @ '' '' @ v, ''# TYPE '' @ n @ '' counter'', int_line n 0]"
    by (simp only: ) (rule scrape_unlines, use assms n in \<open>auto simp: int_line_def\<close>)
  then show ?thesis
    using parse_sample [OF assms(3,4,6)] by (simp add: samples_def List.map_filter_def)
qed

section \<open>The average latency\<close>

lemma stat_run:
  "processedMsg (fold stat_do ops s) = processedMsg s + of_nat (count (mset ops) StMsg)
   \<and> totalLatency (fold stat_do ops s) = totalLatency s + (\<Sum>op\<in>#mset ops. case op of StLatency d \<Rightarrow> d | _ \<Rightarrow> 0)
   \<and> slowCount (fold stat_do ops s) = slowCount s + of_nat (count (mset ops) StSlow)"
proof (induction ops arbitrary: s)
  case (Cons op ops)
  show ?case using Cons [of "stat_do op s"] by (cases op) auto
qed simp

lemma record_ops:
  "count (mset (concat (map (\<lambda>(d, slow). RecordMessage_ops d slow) ms))) StMsg = length ms"
  "count (mset (concat (map (\<lambda>(d, slow). RecordMessage_ops d slow) ms))) StSlow = length (filter snd ms)"
  "(\<Sum>op\<in>#mset (concat (map (\<lambda>(d, slow). RecordMessage_ops d slow) ms)). case op of StLatency d \<Rightarrow> d | _ \<Rightarrow> 0)
     = (\<Sum>m\<leftarrow>ms. fst m)"
  by (induction ms) (auto simp: RecordMessage_ops_def)

lemma sint_sum:
  assumes "\<forall>x \<in> set xs. 0 \<le> sint x" "(\<Sum>x\<leftarrow>xs. sint x) < 2 ^ 63"
  shows "sint (sum_list xs :: i64) = (\<Sum>x\<leftarrow>xs. sint x)"
  using assms
proof (induction xs)
  case (Cons x xs)
  have "0 \<le> (\<Sum>x\<leftarrow>xs. sint x)" using Cons(2) by (intro sum_list_nonneg) auto
  then have "sint (sum_list xs) = (\<Sum>x\<leftarrow>xs. sint x)" "0 \<le> sint x + (\<Sum>x\<leftarrow>xs. sint x)" using Cons by auto
  then show ?case using Cons(3) by (simp add: sint_word_ariths signed_take_bit_int_eq_self)
qed simp

lemma sum_bounds:
  assumes "\<forall>x \<in> set xs. lo \<le> (x :: int) \<and> x \<le> hi"
  shows "int (length xs) * lo \<le> sum_list xs \<and> sum_list xs \<le> int (length xs) * hi"
  using assms by (induction xs) (auto simp: algebra_simps)

text \<open>However the records of concurrent handlers interleave, once they are complete the snapshot has
  the number of messages and of slow ones, and an average between the shortest and the longest
  latency, in whole milliseconds.\<close>

theorem average_latency_bounds:
  assumes "mset ops = mset (concat (map (\<lambda>(d, slow). RecordMessage_ops d slow) ms))" "ms \<noteq> []"
    and "\<forall>(d, slow) \<in> set ms. lo \<le> sint d \<and> sint d \<le> hi" "0 \<le> lo" "(\<Sum>m\<leftarrow>ms. sint (fst m)) < 2 ^ 63" "length ms < 2 ^ 63"
  shows "case GetSnapshot now (fold stat_do ops (NewActorStats t0)) of (processed, avg, qps, slow, errs) \<Rightarrow>
    processed = of_nat (length ms) \<and> slow = of_nat (length (filter snd ms))
    \<and> lo div 1000000 \<le> sint avg \<and> sint avg \<le> hi div 1000000"
proof -
  note run = stat_run [of ops "NewActorStats t0", unfolded assms(1) record_ops]
  let ?n = "int (length ms)" and ?ds = "map (sint \<circ> fst) ms"
  have n: "0 < ?n" "sint (of_nat (length ms) :: i64) = ?n"
    using assms(2,6) sint_word_of_int64 [of ?n] by (simp_all add: word_of_nat_eq_iff)
  have fst: "(\<Sum>m\<leftarrow>ms. sint (fst m)) = sum_list ?ds" by (simp add: comp_def)
  have "sint (sum_list (map fst ms)) = (\<Sum>x\<leftarrow>map fst ms. sint x)"
    by (rule sint_sum) (use assms(3-5) in \<open>auto simp: case_prod_beta comp_def dest: bspec\<close>)
  then have tot: "sint (sum_list (map fst ms)) = sum_list ?ds" by (simp add: comp_def)
  have bounds: "?n * lo \<le> sum_list ?ds" "sum_list ?ds \<le> ?n * hi"
    using sum_bounds [of ?ds lo hi] assms(3) by (auto simp: case_prod_beta)
  then have quot: "lo \<le> sum_list ?ds div ?n" "sum_list ?ds div ?n \<le> hi"
    using n(1) zdiv_mono1 [OF bounds(1) n(1)] zdiv_mono1 [OF bounds(2) n(1)] by simp_all
  have pos: "0 \<le> sum_list ?ds" "sum_list ?ds < 2 ^ 63"
  proof -
    have "0 \<le> ?n * lo" using assms(4) by simp
    then show "0 \<le> sum_list ?ds" using bounds(1) by linarith
    show "sum_list ?ds < 2 ^ 63" using assms(5) unfolding fst .
  qed
  define q where "q = sum_list ?ds div ?n"
  have q: "lo \<le> q" "q \<le> hi" "0 \<le> q" using quot assms(4) by (simp_all add: q_def)
  have "q * 1 \<le> q * ?n" using n(1) q(3) by (intro mult_left_mono) linarith+
  moreover have "q * ?n + sum_list ?ds mod ?n = sum_list ?ds" by (simp add: q_def)
  ultimately have small: "q \<le> sum_list ?ds" using pos_mod_sign [OF n(1), of "sum_list ?ds"] by linarith
  have avg: "sum_list ?ds sdiv ?n = q" "q sdiv 1000000 = q div 1000000"
    using pos(1) n(1) q(3) by (simp_all add: signed_divide_int_def sgn_if q_def)
  have "sint (word_of_int (q div 1000000) :: i64) = q div 1000000"
    using q small pos(2) by (intro sint_word_of_int64) (simp_all add: div_less_iff_less_mult)
  then show ?thesis
    using run n q(1,2) zdiv_mono1 [OF q(1), of 1000000] zdiv_mono1 [OF q(2), of 1000000]
    by (simp add: GetSnapshot_def avg_latency_def tot avg NewActorStats_def Let_def)
qed

theorem average_latency_bounds_witness:
  "case GetSnapshot 0 (RecordMessage 9000000 True (RecordMessage 2000000 False (NewActorStats 0))) of (processed, avg, qps, slow, errs) \<Rightarrow>
    2 \<le> sint avg \<and> sint avg \<le> 9"
proof -
  have "RecordMessage 9000000 True (RecordMessage 2000000 False (NewActorStats 0))
      = fold stat_do (RecordMessage_ops 2000000 False @ RecordMessage_ops 9000000 True) (NewActorStats 0)"
    by (simp add: RecordMessage_def)
  then show ?thesis
    using average_latency_bounds [of "RecordMessage_ops 2000000 False @ RecordMessage_ops 9000000 True"
        "[(2000000, False), (9000000, True)]" 2000000 9000000 0 0]
    by (auto simp: case_prod_beta)
qed

section \<open>The age of a system sample\<close>

text \<open>The calls so far, each with its clock, the interval in force, what a fresh sample would have been
  and what it returned. The clock does not run backwards.\<close>

inductive sampled :: "(i64 \<times> i64 \<times> 'd \<times> 'd) list \<Rightarrow> 'd sample_cache \<Rightarrow> bool" where
  start: "sampled [] init_cache"
| set_period: "sampled calls c \<Longrightarrow> sampled calls (SetSystemMonitorCacheInterval d c)"
| call: "sampled calls c \<Longrightarrow> (\<forall>(t, _) \<in> set calls. sint t \<le> sint now) \<Longrightarrow> 0 \<le> sint now
    \<Longrightarrow> CollectSystemMonitor now fresh c = (d, c')
    \<Longrightarrow> sampled (calls @ [(now, intervalNs c, fresh, d)]) c'"

lemma sint_since: "0 \<le> sint a \<Longrightarrow> 0 \<le> sint b \<Longrightarrow> sint (a - b :: i64) = sint a - sint b"
  using sint64_bounds [of a] sint64_bounds [of b] by (simp add: sint_word_ariths signed_take_bit_int_eq_self)

definition taken_at :: "(i64 \<times> i64 \<times> 'd \<times> 'd) list \<Rightarrow> 'd \<Rightarrow> i64 \<Rightarrow> bool" where
  "taken_at calls d t \<longleftrightarrow> (\<exists>iv. (t, iv, d, d) \<in> set calls)"

definition age_ok :: "(i64 \<times> i64 \<times> 'd \<times> 'd) list \<Rightarrow> bool" where
  "age_ok calls \<longleftrightarrow> (\<forall>(now, iv, fresh, d) \<in> set calls.
     \<exists>t. taken_at calls d t \<and> sint t \<le> sint now \<and> (t = now \<or> sint now - sint t < sint iv))"

lemma taken_at_snoc: "taken_at calls d t \<Longrightarrow> taken_at (calls @ xs) d t"
  by (auto simp: taken_at_def)

lemma age_ok_snoc:
  assumes "age_ok calls" "taken_at (calls @ [(now, iv, fresh, d)]) d t" "sint t \<le> sint now" "t = now \<or> sint now - sint t < sint iv"
  shows "age_ok (calls @ [(now, iv, fresh, d)])"
  using assms taken_at_snoc unfolding age_ok_def by fastforce

lemma sampled_age:
  "sampled calls c \<Longrightarrow> age_ok calls \<and> (\<forall>d. last_sample c = Some d \<longrightarrow> taken_at calls d (lastSampleNs c))
    \<and> (\<forall>(t, _) \<in> set calls. 0 \<le> sint t)"
proof (induction rule: sampled.induct)
  case start
  then show ?case by (simp add: age_ok_def init_cache_def)
next
  case (set_period calls c d)
  then show ?case by (simp add: SetSystemMonitorCacheInterval_def)
next
  case (call calls c now fresh d c')
  let ?call = "(now, intervalNs c, fresh, d)"
  consider (fresh) "d = fresh" "c' = c \<or> last_sample c' = Some fresh \<and> lastSampleNs c' = now"
    | (kept) "c' = c" "last_sample c = Some d" "sint (now - lastSampleNs c) < sint (intervalNs c)"
    using call.hyps(4) by (auto simp: CollectSystemMonitor_def locked_def cached_def split: if_splits option.splits)
  then show ?case
  proof cases
    case fresh
    then have now: "taken_at (calls @ [?call]) d now" by (auto simp: taken_at_def)
    have "age_ok (calls @ [?call])" using call.IH by (intro age_ok_snoc [OF _ now]) simp_all
    moreover have "taken_at (calls @ [?call]) d' (lastSampleNs c')" if "last_sample c' = Some d'" for d'
    proof (cases "c' = c")
      case True
      then show ?thesis using call.IH that by (intro taken_at_snoc) simp
    next
      case False
      then show ?thesis using fresh that now by simp
    qed
    ultimately show ?thesis using call.IH call.hyps(3) by simp
  next
    case kept
    then have old: "taken_at calls d (lastSampleNs c)" using call.IH by simp
    then have le: "0 \<le> sint (lastSampleNs c)" "sint (lastSampleNs c) \<le> sint now"
      using call.IH call.hyps(2) by (auto simp: taken_at_def)
    have "age_ok (calls @ [?call])"
      by (rule age_ok_snoc [OF _ taken_at_snoc [OF old]])
        (use call.IH le kept(3) sint_since [OF call.hyps(3) le(1)] in simp_all)
    moreover have "taken_at (calls @ [?call]) d' (lastSampleNs c')" if "last_sample c' = Some d'" for d'
      by (rule taken_at_snoc) (use call.IH kept(1) that in simp)
    ultimately show ?thesis using call.IH call.hyps(3) by simp
  qed
qed



text \<open>The last pause: for every count of collections the ring index is that of the latest one, also when
  the 32 bit addition wraps around.\<close>

theorem last_pause_index_exact:
  "0 < unat n \<Longrightarrow> last_pause_index n = (unat n - 1) mod 256"
proof -
  assume "0 < unat n"
  then obtain m where m: "unat n = Suc m" by (cases "unat n") auto
  have "(Suc m + 255) mod 2 ^ 32 mod 256 = (Suc m + 255) mod (256 :: nat)" by (rule mod_mod_cancel) simp
  also have "Suc m + 255 = m + 256" by simp
  finally have "(256 + m) mod 2 ^ 32 mod 256 = m mod (256 :: nat)" by (simp add: add.commute)
  then show ?thesis by (simp add: last_pause_index_def unat_mod unat_word_ariths m)
qed

theorem last_pause_index_exact_witness: "last_pause_index (- 1) = 254"
  using last_pause_index_exact [of "- 1"] by (simp add: unsigned_minus_1_eq_mask mask_eq_exp_minus_1)

end
