(* ===== verification/ZSlice.thy ===== *)
theory ZSlice
  imports ZBase
begin

text \<open>
  Go slices over a store of arrays, shared by the components whose behaviour depends on which slices
  share an array. A slice starts at the beginning of its array; array 0 is never allocated and
  belongs to the nil slice. How much \<open>append\<close> grows a full slice is a parameter \<open>grow\<close> (Go's
  runtime doubles small ones); a cell of spare capacity that was never written is \<open>None\<close>.
\<close>

record slice =
  s_arr :: nat
  s_len :: nat
  s_cap :: nat

record 'a store =
  arrays :: "nat \<Rightarrow> 'a option list"
  fresh_arr :: nat

definition nil_slice :: slice where "nil_slice = \<lparr>s_arr = 0, s_len = 0, s_cap = 0\<rparr>"

definition slice_elems :: "'a store \<Rightarrow> slice \<Rightarrow> 'a list" where
  "slice_elems st s = map the (take (s_len s) (arrays st (s_arr s)))"

text \<open>\<open>append(s, xs...)\<close>: in place when there is room, otherwise into a fresh array of the grown capacity.\<close>

definition append_slice :: "(nat \<Rightarrow> nat) \<Rightarrow> slice \<Rightarrow> 'a list \<Rightarrow> 'a store \<Rightarrow> slice \<times> 'a store" where
  "append_slice grow s xs st =
    (let arr = arrays st (s_arr s); n = s_len s + length xs in
     if n \<le> s_cap s
     then (s\<lparr>s_len := n\<rparr>,
           st\<lparr>arrays := (arrays st)(s_arr s := take (s_len s) arr @ map Some xs @ drop n arr)\<rparr>)
     else (let c = grow n; a = fresh_arr st in
           (\<lparr>s_arr = a, s_len = n, s_cap = c\<rparr>,
            st\<lparr>arrays := (arrays st)(a := take (s_len s) arr @ map Some xs @ replicate (c - n) None), fresh_arr := a + 1\<rparr>)))"

text \<open>\<open>copy(dst, src)\<close>: the number of elements copied and the store.\<close>

definition copy_slice :: "slice \<Rightarrow> slice \<Rightarrow> 'a store \<Rightarrow> nat \<times> 'a store" where
  "copy_slice dst src st = (let n = min (s_len dst) (s_len src) in
     (n, st\<lparr>arrays := (arrays st)(s_arr dst := map Some (take n (slice_elems st src)) @ drop n (arrays st (s_arr dst)))\<rparr>))"

text \<open>A slice is sound when its array has its capacity, and the nil slice's array is empty.\<close>

definition slice_ok :: "'a store \<Rightarrow> slice \<Rightarrow> bool" where
  "slice_ok st s \<longleftrightarrow> s_len s \<le> s_cap s \<and> (s_cap s = 0 \<or> s_arr s < fresh_arr st \<and> length (arrays st (s_arr s)) = s_cap s)"

lemma slice_ok_len: "slice_ok st s \<Longrightarrow> s_len s \<le> length (arrays st (s_arr s))"
  by (cases "s_cap s = 0") (auto simp: slice_ok_def)

lemma slice_ok_nil [simp]: "slice_ok st nil_slice" "slice_elems st nil_slice = []" "s_cap nil_slice = 0"
  by (simp_all add: slice_ok_def nil_slice_def slice_elems_def)

lemma length_slice_elems: "slice_ok st s \<Longrightarrow> length (slice_elems st s) = s_len s"
  using slice_ok_len [of st s] by (simp add: slice_elems_def min_absorb2)

lemma append_slice_elems:
  assumes "slice_ok st s" "\<And>n. n \<le> grow n" "append_slice grow s xs st = (s', st')"
  shows "slice_elems st' s' = slice_elems st s @ xs" and "slice_ok st' s'"
proof -
  note len = slice_ok_len [OF assms(1)]
  show "slice_elems st' s' = slice_elems st s @ xs"
    using assms(3) len by (auto simp: append_slice_def slice_elems_def Let_def min_absorb2 comp_def split: if_splits)
  have grow: "s_len s + length xs \<le> grow (s_len s + length xs)" by (rule assms(2))
  show "slice_ok st' s'"
    using assms(1,3) len grow by (auto simp: append_slice_def slice_ok_def Let_def min_absorb2 split: if_splits)
qed

text \<open>The arrays a slice may be written through: none for a slice without capacity.\<close>

definition owned :: "slice \<Rightarrow> nat set" where
  "owned s = (if s_cap s = 0 then {} else {s_arr s})"

lemma owned_nil [simp]: "owned nil_slice = {}"
  by (simp add: owned_def)

lemma append_slice_frame:
  assumes "slice_ok st s" "append_slice grow s xs st = (s', st')"
  shows "a < fresh_arr st \<Longrightarrow> a \<notin> owned s \<Longrightarrow> arrays st' a = arrays st a"
    and "fresh_arr st \<le> fresh_arr st'" and "owned s' \<subseteq> owned s \<union> {fresh_arr st}"
    and "owned s' \<subseteq> {..<fresh_arr st'}"
  using assms
  by (auto simp: append_slice_def slice_ok_def owned_def Let_def split: if_splits)

lemma copy_slice_frame:
  assumes "slice_ok st dst" "copy_slice dst src st = (n, st')"
  shows "a \<notin> owned dst \<Longrightarrow> arrays st' a = arrays st a" and "fresh_arr st' = fresh_arr st"
    and "slice_ok st src \<Longrightarrow> length (arrays st' a) = length (arrays st a)"
  using assms length_slice_elems [of st src] slice_ok_len [OF assms(1)]
  by (auto simp: copy_slice_def slice_ok_def owned_def Let_def split: if_splits)

text \<open>What a slice shows depends on its own array only.\<close>

lemma slice_frame:
  assumes "slice_ok st s" "fresh_arr st \<le> fresh_arr st'" "\<And>a. a \<in> owned s \<Longrightarrow> arrays st' a = arrays st a"
  shows "slice_ok st' s" and "slice_elems st' s = slice_elems st s"
  using assms by (cases "s_cap s = 0"; auto simp: slice_ok_def slice_elems_def owned_def)+

end
