(* ===== verification/ZHttp.thy ===== *)
theory ZHttp
  imports ZStr ZSlice
begin

text \<open>
  \<open>zhttp/server_std.go\<close>: routes, middleware and route groups of the HTTP server. A group copies the
  slice header of its parent's middleware, so groups share backing arrays; the arrays are
  therefore an explicit store, and \<open>append\<close> writes in place while the capacity lasts. How much a
  full slice grows is a parameter \<open>grow\<close> (Go's runtime doubles small ones). Middleware and
  handlers are identifiers; \<open>mw\<close> is what a middleware does to a handler. The patterns of
  \<open>http.ServeMux\<close> are a parameter: which registered pattern serves a request path.
\<close>

section \<open>Paths and keys\<close>

definition normalizePath :: "string \<Rightarrow> string" where
  "normalizePath p = (if p = [] then ''/'' else if hd p \<noteq> CHR ''/'' then CHR ''/'' # p else p)"

definition routeKey :: "string \<Rightarrow> string \<Rightarrow> string" where
  "routeKey meth path = meth @ '' '' @ path"

definition splitRouteKey :: "string \<Rightarrow> string \<times> string" where
  "splitRouteKey key = (let i = length (takeWhile (\<lambda>c. c \<noteq> CHR '' '') key) in
     if i < length key then (take i key, drop (i + 1) key) else (key, ''/''))"

definition TrimSuffix_slash :: "string \<Rightarrow> string" where
  "TrimSuffix_slash p = (if p \<noteq> [] \<and> last p = CHR ''/'' then butlast p else p)"

section \<open>The server and its groups\<close>

record 'h route =
  rt_middlewares :: "nat list"
  rt_handler :: 'h

record 'h StdServer =
  middlewares :: slice
  routes :: "(string \<times> 'h route) list"
  heap :: "nat store"

record stdGroup =
  prefix :: string
  g_middlewares :: slice

definition NewStdServer :: "'h StdServer" where
  "NewStdServer = \<lparr>middlewares = nil_slice, routes = [], heap = \<lparr>arrays = (\<lambda>_. []), fresh_arr = 1\<rparr>\<rparr>"

definition Server_Use :: "(nat \<Rightarrow> nat) \<Rightarrow> nat list \<Rightarrow> 'h StdServer \<Rightarrow> 'h StdServer" where
  "Server_Use grow ms s = (let (ms, st) = append_slice grow (middlewares s) ms (heap s) in s\<lparr>middlewares := ms, heap := st\<rparr>)"

definition Server_Group :: "string \<Rightarrow> stdGroup" where
  "Server_Group pre = \<lparr>prefix = TrimSuffix_slash pre, g_middlewares = nil_slice\<rparr>"

text \<open>\<open>addRoute\<close> copies both slices into a fresh one, so a route does not change afterwards; a later
  registration of the same method and path replaces it.\<close>

definition put_route :: "string \<Rightarrow> 'h route \<Rightarrow> (string \<times> 'h route) list \<Rightarrow> (string \<times> 'h route) list" where
  "put_route k r rs = (k, r) # filter (\<lambda>(k', _). k' \<noteq> k) rs"

definition addRoute :: "string \<Rightarrow> string \<Rightarrow> slice \<Rightarrow> 'h \<Rightarrow> 'h StdServer \<Rightarrow> 'h StdServer" where
  "addRoute meth path groupMiddleware handler s =
    (let path = normalizePath path;
         allm = slice_elems (heap s) (middlewares s) @ slice_elems (heap s) groupMiddleware
     in s\<lparr>routes := put_route (routeKey meth path) \<lparr>rt_middlewares = allm, rt_handler = handler\<rparr> (routes s)\<rparr>)"

definition Server_handle :: "string \<Rightarrow> string \<Rightarrow> 'h \<Rightarrow> 'h StdServer \<Rightarrow> 'h StdServer" where
  "Server_handle meth path handler s = addRoute meth path nil_slice handler s"

definition Group_Use :: "(nat \<Rightarrow> nat) \<Rightarrow> nat list \<Rightarrow> stdGroup \<Rightarrow> 'h StdServer \<Rightarrow> stdGroup \<times> 'h StdServer" where
  "Group_Use grow ms g s = (let (ms, st) = append_slice grow (g_middlewares g) ms (heap s)
     in (g\<lparr>g_middlewares := ms\<rparr>, s\<lparr>heap := st\<rparr>))"

definition Group_Group :: "string \<Rightarrow> stdGroup \<Rightarrow> stdGroup" where
  "Group_Group pre g = (let p = TrimSuffix_slash pre; p = (if prefix g \<noteq> [] then prefix g @ p else p)
     in \<lparr>prefix = p, g_middlewares = g_middlewares g\<rparr>)"

definition Group_handle :: "string \<Rightarrow> string \<Rightarrow> 'h \<Rightarrow> stdGroup \<Rightarrow> 'h StdServer \<Rightarrow> 'h StdServer" where
  "Group_handle meth path handler g s = addRoute meth (prefix g @ normalizePath path) (g_middlewares g) handler s"

section \<open>Serving\<close>

text \<open>The loop of \<open>chain\<close> wraps the handler from the last middleware to the first.\<close>

definition chain :: "(nat \<Rightarrow> 'h \<Rightarrow> 'h) \<Rightarrow> nat list \<Rightarrow> 'h \<Rightarrow> 'h" where
  "chain mw ms final = fold mw (rev ms) final"

text \<open>\<open>Run\<close> groups the handlers by path and method; the mux pattern serving a path is \<open>pat\<close>.\<close>

definition byPath :: "(nat \<Rightarrow> 'h \<Rightarrow> 'h) \<Rightarrow> 'h StdServer \<Rightarrow> string \<Rightarrow> string \<Rightarrow> 'h option" where
  "byPath mw s path meth = (case filter (\<lambda>(k, _). splitRouteKey k = (meth, path)) (routes s) of
     (_, r) # _ \<Rightarrow> Some (chain mw (rt_middlewares r) (rt_handler r)) | [] \<Rightarrow> None)"

definition registered_paths :: "'h StdServer \<Rightarrow> string set" where
  "registered_paths s = (snd \<circ> splitRouteKey \<circ> fst) ` set (routes s)"

datatype 'h response = NotFound | MethodNotAllowed | Handled 'h

definition serve :: "(nat \<Rightarrow> 'h \<Rightarrow> 'h) \<Rightarrow> (string set \<Rightarrow> string \<Rightarrow> string option) \<Rightarrow> 'h StdServer
    \<Rightarrow> string \<Rightarrow> string \<Rightarrow> 'h response" where
  "serve mw pat s meth path = (case pat (registered_paths s) path of
     None \<Rightarrow> NotFound
   | Some p \<Rightarrow> (case byPath mw s p meth of None \<Rightarrow> MethodNotAllowed | Some h \<Rightarrow> Handled h))"

section \<open>Laws\<close>

lemma splitRouteKey_routeKey: "CHR '' '' \<notin> set meth \<Longrightarrow> splitRouteKey (routeKey meth path) = (meth, path)"
proof -
  assume "CHR '' '' \<notin> set meth"
  then have "takeWhile (\<lambda>c. c \<noteq> CHR '' '') (meth @ CHR '' '' # path) = meth" by (induction meth) auto
  then show ?thesis by (simp add: splitRouteKey_def routeKey_def Let_def)
qed

lemma normalizePath_rooted: "normalizePath p \<noteq> [] \<and> hd (normalizePath p) = CHR ''/''"
  by (simp add: normalizePath_def)

lemma normalizePath_idem [simp]: "normalizePath (normalizePath p) = normalizePath p"
  by (simp add: normalizePath_def)

lemma chain_Nil [simp]: "chain mw [] h = h"
  by (simp add: chain_def)

lemma chain_Cons [simp]: "chain mw (m # ms) h = mw m (chain mw ms h)"
  by (simp add: chain_def)

text \<open>Middleware added to a group comes after what it had, whichever way the slice grows.\<close>

theorem group_use_appends:
  assumes "slice_ok (heap s) (g_middlewares g)" "\<And>n. n \<le> grow n" "Group_Use grow ms g s = (g', s')"
  shows "slice_elems (heap s') (g_middlewares g') = slice_elems (heap s) (g_middlewares g) @ ms
    \<and> slice_ok (heap s') (g_middlewares g') \<and> prefix g' = prefix g"
  using append_slice_elems [OF assms(1,2), where xs = ms] assms(3)
  by (auto simp: Group_Use_def split: prod.splits)

theorem group_use_appends_witness:
  "slice_elems (heap (snd (Group_Use (\<lambda>n. n) [4, 5] (Server_Group ''/a'') (NewStdServer :: nat StdServer))))
     (g_middlewares (fst (Group_Use (\<lambda>n. n) [4, 5] (Server_Group ''/a'') (NewStdServer :: nat StdServer)))) = [4, 5]"
proof -
  obtain g s where u: "Group_Use (\<lambda>n. n) [4, 5] (Server_Group ''/a'') (NewStdServer :: nat StdServer) = (g, s)" by fastforce
  have "slice_ok (heap (NewStdServer :: nat StdServer)) (g_middlewares (Server_Group ''/a''))"
      "slice_elems (heap (NewStdServer :: nat StdServer)) (g_middlewares (Server_Group ''/a'')) = []"
    by (simp_all add: Server_Group_def)
  then show ?thesis using group_use_appends [OF _ _ u] by (simp add: u)
qed

text \<open>Routing is exact: a route registered through the server or a group, and not registered again, is
  served for its method and normalized path by its handler inside the middleware of the server
  and of the group as they were then, first registered outermost.\<close>

theorem http_route_exact:
  assumes "CHR '' '' \<notin> set meth" and "\<And>ps p. p \<in> ps \<Longrightarrow> pat ps p = Some p"
  shows "serve mw pat (Group_handle meth path h g s) meth (normalizePath (prefix g @ normalizePath path))
    = Handled (chain mw (slice_elems (heap s) (middlewares s) @ slice_elems (heap s) (g_middlewares g)) h)"
proof -
  let ?p = "normalizePath (prefix g @ normalizePath path)" and ?s = "Group_handle meth path h g s"
  note key = splitRouteKey_routeKey [OF assms(1), of ?p]
  have "?p \<in> registered_paths ?s"
    by (simp add: registered_paths_def Group_handle_def addRoute_def put_route_def Let_def key)
  from assms(2) [OF this] show ?thesis
    by (simp add: serve_def byPath_def Group_handle_def addRoute_def put_route_def Let_def key)
qed

definition exact_pat :: "string set \<Rightarrow> string \<Rightarrow> string option" where
  "exact_pat ps p = (if p \<in> ps then Some p else None)"

theorem http_route_exact_witness:
  "serve (\<lambda>m h. m # h) exact_pat (Group_handle ''GET'' ''ping'' [9] (Server_Group ''/api/'') (Server_Use (\<lambda>n. 2 * n) [1] NewStdServer))
     ''GET'' ''/api/ping'' = Handled [1, 9]"
proof -
  have "serve (\<lambda>m h. m # h) exact_pat (Group_handle ''GET'' ''ping'' [9] (Server_Group ''/api/'') (Server_Use (\<lambda>n. 2 * n) [1] NewStdServer))
     ''GET'' (normalizePath (prefix (Server_Group ''/api/'') @ normalizePath ''ping'')) = Handled [1, 9 :: nat]"
    by (subst http_route_exact)
      (simp_all add: exact_pat_def Server_Use_def append_slice_def NewStdServer_def nil_slice_def slice_elems_def Server_Group_def Let_def)
  then show ?thesis by (simp add: Server_Group_def TrimSuffix_slash_def normalizePath_def)
qed

text \<open>Claim C40: Groups leak middleware into each other: when the parent's slice has spare capacity (three
  middleware under doubling growth), two groups made from it append into the same array, and the
  middleware one group adds replaces the one the other group added before.\<close>

theorem sibling_groups_share_middleware:
  assumes "slice_ok (heap s) (g_middlewares parent)" "s_len (g_middlewares parent) < s_cap (g_middlewares parent)"
    and "Group_Use grow [a] (Group_Group p parent) s = (g1, s1)" and "Group_Use grow [b] (Group_Group q parent) s1 = (g2, s2)"
  shows "slice_elems (heap s2) (g_middlewares g1) = slice_elems (heap s) (g_middlewares parent) @ [b]"
proof -
  have "s_len (g_middlewares parent) < length (arrays (heap s) (s_arr (g_middlewares parent)))"
    using assms(1,2) by (auto simp: slice_ok_def)
  then show ?thesis using assms(2-4)
    by (auto simp: Group_Use_def Group_Group_def append_slice_def slice_elems_def Let_def min_absorb2)
qed

definition three_mw :: "stdGroup \<times> nat StdServer" where
  "three_mw = (let (g, s) = Group_Use (\<lambda>n. if n = 3 then 4 else n) [1] (Server_Group ''/api'') NewStdServer;
     (g, s) = Group_Use (\<lambda>n. if n = 3 then 4 else n) [2] g s in Group_Use (\<lambda>n. if n = 3 then 4 else n) [3] g s)"

theorem sibling_groups_share_middleware_witness:
  "(let (parent, s) = three_mw;
        (auth, s) = Group_Use (\<lambda>n. if n = 3 then 4 else n) [7] (Group_Group ''/admin'' parent) s;
        (pub, s) = Group_Use (\<lambda>n. if n = 3 then 4 else n) [8] (Group_Group ''/public'' parent) s
    in slice_elems (heap s) (g_middlewares auth)) = [1, 2, 3, 8]"
proof -
  obtain parent s where ps: "three_mw = (parent, s)" by fastforce
  obtain g1 s1 where u1: "Group_Use (\<lambda>n. if n = 3 then 4 else n) [7] (Group_Group ''/admin'' parent) s = (g1, s1)" by fastforce
  obtain g2 s2 where u2: "Group_Use (\<lambda>n. if n = 3 then 4 else n) [8] (Group_Group ''/public'' parent) s1 = (g2, s2)" by fastforce
  have "slice_ok (heap s) (g_middlewares parent) \<and> s_len (g_middlewares parent) < s_cap (g_middlewares parent)
      \<and> slice_elems (heap s) (g_middlewares parent) = [1, 2, 3]"
    using ps by (auto simp: three_mw_def Group_Use_def Server_Group_def append_slice_def NewStdServer_def nil_slice_def
        slice_ok_def slice_elems_def Let_def)
  then show ?thesis using sibling_groups_share_middleware [OF _ _ u1 u2] by (simp add: ps u1 u2)
qed

end
