(* ===== verification/ZNats.thy ===== *)
theory ZNats
  imports ZBase
begin

text \<open>
  \<open>znats\<close> and \<open>zbus\<close>: the client of the NATS server, the pool of clients and the topic bus over it.
  The \<open>nats.go\<close> library is not modelled: what each call to it returns is an argument, and the calls
  made are recorded, so that the subscriptions left open at the library are known. Connection and
  subscription objects are numbers that the library hands out.
\<close>

datatype nats_error = NoConn | NetError | Cancelled | NoClients | BusNotInitialized | NilHandler

section \<open>One client\<close>

record subItem =
  topic :: string
  sub :: nat
  timeout :: i64

datatype lib_call = Opened nat string | Closed nat | CloseFailed nat

record Nats =
  conn :: "nat option"
  subs :: "string \<rightharpoonup> subItem"
  globalTimeoutNs :: i64
  lib_calls :: "lib_call list"
  publish_total :: i64
  publish_errors :: i64
  request_total :: i64
  request_errors :: i64

definition NewNats :: Nats where
  "NewNats = \<lparr>conn = None, subs = Map.empty, globalTimeoutNs = 1000000000, lib_calls = [], publish_total = 0,
     publish_errors = 0, request_total = 0, request_errors = 0\<rparr>"

definition SetGlobalTimeout :: "i64 \<Rightarrow> Nats \<Rightarrow> Nats" where
  "SetGlobalTimeout t q = q\<lparr>globalTimeoutNs := t\<rparr>"

definition SetTopicTimeout :: "string \<Rightarrow> i64 \<Rightarrow> Nats \<Rightarrow> Nats" where
  "SetTopicTimeout tp t q = (case subs q tp of
     None \<Rightarrow> q
   | Some item \<Rightarrow> q\<lparr>subs := (subs q)(tp \<mapsto> \<lparr>topic = topic item, sub = sub item, timeout = t\<rparr>)\<rparr>)"

definition getTimeout :: "string \<Rightarrow> Nats \<Rightarrow> i64" where
  "getTimeout tp q = (case subs q tp of Some item \<Rightarrow> timeout item | None \<Rightarrow> globalTimeoutNs q)"

definition GetSub :: "string \<Rightarrow> Nats \<Rightarrow> nat option" where
  "GetSub tp q = map_option sub (subs q tp)"

definition DefaultMaxRetries :: nat where "DefaultMaxRetries = 30"

text \<open>The loop of \<open>Connect\<close>: per attempt, whether the context is done before it, what \<open>nats.Connect\<close>
  returns, and whether the context ends during the pause after a failure. \<open>left\<close> counts the
  attempts left.\<close>

fun Connect_loop :: "(nat \<Rightarrow> bool \<times> nat option \<times> bool) \<Rightarrow> nat \<Rightarrow> nat \<Rightarrow> Nats \<Rightarrow> (nats_error + unit) \<times> Nats" where
  "Connect_loop env attempt 0 q = (Inl NetError, q)"
| "Connect_loop env attempt (Suc left) q = (case env attempt of (ctxDone, dialed, cancelledInWait) \<Rightarrow>
     if ctxDone then (Inl Cancelled, q)
     else (case dialed of
         None \<Rightarrow> if cancelledInWait then (Inl Cancelled, q) else Connect_loop env (attempt + 1) left q
       | Some c \<Rightarrow> (Inr (), q\<lparr>conn := Some c\<rparr>)))"

definition Connect :: "(nat \<Rightarrow> bool \<times> nat option \<times> bool) \<Rightarrow> Nats \<Rightarrow> (nats_error + unit) \<times> Nats" where
  "Connect env q = Connect_loop env 1 DefaultMaxRetries q"

definition upsertSub :: "string \<Rightarrow> nat \<Rightarrow> i64 \<Rightarrow> Nats \<Rightarrow> Nats" where
  "upsertSub tp s t q = q\<lparr>subs := (subs q)(tp \<mapsto> \<lparr>topic = tp, sub = s, timeout = t\<rparr>)\<rparr>"

text \<open>\<open>Nats_Close\<close> closes the connection at the library but keeps it and the table: the connections closed.\<close>

definition Nats_Close :: "Nats \<Rightarrow> nat list" where
  "Nats_Close q = (case conn q of Some c \<Rightarrow> [c] | None \<Rightarrow> [])"

text \<open>The four ways to subscribe differ in the library function called; \<open>opened\<close> is what it returns
  (\<open>None\<close>: an error).\<close>

definition SubscribeCall :: "nat option \<Rightarrow> string \<Rightarrow> Nats \<Rightarrow> nat option \<times> Nats" where
  "SubscribeCall opened tp q = (case conn q of
     None \<Rightarrow> (None, q)
   | Some _ \<Rightarrow> (case opened of
       None \<Rightarrow> (None, q)
     | Some s \<Rightarrow> (Some s, upsertSub tp s (globalTimeoutNs q) (q\<lparr>lib_calls := lib_calls q @ [Opened s tp]\<rparr>))))"

definition SubscribeChan :: "nat option \<Rightarrow> string \<Rightarrow> Nats \<Rightarrow> nat option \<times> Nats" where
  "SubscribeChan opened tp q = SubscribeCall opened tp q"

definition Subscribe :: "nat option \<Rightarrow> string \<Rightarrow> Nats \<Rightarrow> nat option \<times> Nats" where
  "Subscribe opened tp q = SubscribeCall opened tp q"

definition SubscribeQueue :: "nat option \<Rightarrow> string \<Rightarrow> Nats \<Rightarrow> nat option \<times> Nats" where
  "SubscribeQueue opened tp q = SubscribeCall opened tp q"

text \<open>\<open>fails\<close> tells for which subscriptions the library's \<open>Unsubscribe\<close> returns an error.\<close>

fun UnSubscribe_loop :: "(nat \<Rightarrow> bool) \<Rightarrow> string list \<Rightarrow> string list \<Rightarrow> Nats \<Rightarrow> string list \<times> Nats" where
  "UnSubscribe_loop fails [] errTopic q = (errTopic, q)"
| "UnSubscribe_loop fails (tp # tps) errTopic q = (case subs q tp of
     None \<Rightarrow> UnSubscribe_loop fails tps errTopic q
   | Some item \<Rightarrow> if fails (sub item)
       then UnSubscribe_loop fails tps (errTopic @ [tp]) (q\<lparr>lib_calls := lib_calls q @ [CloseFailed (sub item)]\<rparr>)
       else UnSubscribe_loop fails tps errTopic
              (q\<lparr>lib_calls := lib_calls q @ [Closed (sub item)], subs := (subs q)(tp := None)\<rparr>))"

definition UnSubscribe :: "(nat \<Rightarrow> bool) \<Rightarrow> string list \<Rightarrow> Nats \<Rightarrow> string list \<times> Nats" where
  "UnSubscribe fails topics q = UnSubscribe_loop fails topics [] q"

definition Nats_Broadcast :: "bool \<Rightarrow> Nats \<Rightarrow> (nats_error + unit) \<times> Nats" where
  "Nats_Broadcast published q = (case conn q of
     None \<Rightarrow> (Inl NoConn, q)
   | Some _ \<Rightarrow> (let q = q\<lparr>publish_total := publish_total q + 1\<rparr> in
       if published then (Inr (), q) else (Inl NetError, q\<lparr>publish_errors := publish_errors q + 1\<rparr>)))"

definition Request :: "'m option \<Rightarrow> Nats \<Rightarrow> (nats_error + 'm) \<times> Nats" where
  "Request reply q = (case conn q of
     None \<Rightarrow> (Inl NoConn, q)
   | Some _ \<Rightarrow> (let q = q\<lparr>request_total := request_total q + 1\<rparr> in
       case reply of Some m \<Rightarrow> (Inr m, q) | None \<Rightarrow> (Inl NetError, q\<lparr>request_errors := request_errors q + 1\<rparr>)))"

definition Nats_IsConnected :: "(nat \<Rightarrow> bool) \<Rightarrow> Nats option \<Rightarrow> bool" where
  "Nats_IsConnected up q = (case q of None \<Rightarrow> False | Some q \<Rightarrow> (case conn q of None \<Rightarrow> False | Some c \<Rightarrow> up c))"

section \<open>The pool and the bus\<close>

record NatsPool =
  clients :: "Nats list"
  counter :: u64

definition NewDefaultNats :: "int \<Rightarrow> NatsPool" where
  "NewDefaultNats poolSize = (let poolSize = (if poolSize \<le> 0 then 1 else poolSize)
     in \<lparr>clients = replicate (nat poolSize) NewNats, counter = 0\<rparr>)"

definition pool_index :: "NatsPool \<Rightarrow> nat" where
  "pool_index c = unat (counter c + 1) mod length (clients c)"

definition Pool_Broadcast :: "bool \<Rightarrow> NatsPool \<Rightarrow> (nats_error + unit) \<times> NatsPool" where
  "Pool_Broadcast published c =
    (if clients c = [] then (Inl NoClients, c)
     else (let idx = pool_index c; (r, q) = Nats_Broadcast published (clients c ! idx)
           in (case r of Inl _ \<Rightarrow> Inl NetError | Inr u \<Rightarrow> Inr u,
               c\<lparr>counter := counter c + 1, clients := (clients c)[idx := q]\<rparr>)))"

definition Pool_SubscribeCall :: "nat option \<Rightarrow> string \<Rightarrow> NatsPool \<Rightarrow> nat option \<times> NatsPool" where
  "Pool_SubscribeCall opened tp c = (case clients c of
     [] \<Rightarrow> (None, c)
   | q # qs \<Rightarrow> (let (s, q) = SubscribeCall opened tp q in (s, c\<lparr>clients := q # qs\<rparr>)))"

text \<open>\<open>env\<close> gives the environment of every client's \<open>Connect\<close>; the first failure ends the loop.\<close>

fun Pool_Connect_loop :: "(nat \<Rightarrow> nat \<Rightarrow> bool \<times> nat option \<times> bool) \<Rightarrow> nat \<Rightarrow> Nats list \<Rightarrow> (nats_error + unit) \<times> Nats list" where
  "Pool_Connect_loop env i [] = (Inr (), [])"
| "Pool_Connect_loop env i (q # qs) = (case Connect (env i) q of
     (Inl e, q) \<Rightarrow> (Inl NetError, q # qs)
   | (Inr u, q) \<Rightarrow> (let (r, qs) = Pool_Connect_loop env (i + 1) qs in (r, q # qs)))"

definition Pool_Connect :: "(nat \<Rightarrow> nat \<Rightarrow> bool \<times> nat option \<times> bool) \<Rightarrow> NatsPool \<Rightarrow> (nats_error + unit) \<times> NatsPool" where
  "Pool_Connect env c = (let (r, qs) = Pool_Connect_loop env 0 (clients c) in (r, c\<lparr>clients := qs\<rparr>))"

definition Pool_IsConnected :: "(nat \<Rightarrow> bool) \<Rightarrow> NatsPool option \<Rightarrow> bool" where
  "Pool_IsConnected up c = (case c of
     None \<Rightarrow> False
   | Some c \<Rightarrow> clients c \<noteq> [] \<and> list_all (\<lambda>q. Nats_IsConnected up (Some q)) (clients c))"

text \<open>\<open>NatsBus\<close>: \<open>None\<close> is a bus without a pool.\<close>

definition Bus_Broadcast :: "bool \<Rightarrow> NatsPool option \<Rightarrow> (nats_error + unit) \<times> NatsPool option" where
  "Bus_Broadcast published b = (case b of
     None \<Rightarrow> (Inl BusNotInitialized, b) | Some c \<Rightarrow> (let (r, c) = Pool_Broadcast published c in (r, Some c)))"

definition Bus_Subscribe :: "bool \<Rightarrow> nat option \<Rightarrow> string \<Rightarrow> NatsPool option \<Rightarrow> (nats_error + nat) \<times> NatsPool option" where
  "Bus_Subscribe handlerNil opened tp b = (case b of
     None \<Rightarrow> (Inl BusNotInitialized, b)
   | Some c \<Rightarrow> if handlerNil then (Inl NilHandler, b)
       else (case Pool_SubscribeCall opened tp c of
           (None, c) \<Rightarrow> (Inl NetError, Some c) | (Some s, c) \<Rightarrow> (Inr s, Some c)))"

section \<open>Connecting\<close>

text \<open>The first attempt that ends the loop of \<open>Connect\<close>.\<close>

definition stops :: "bool \<times> nat option \<times> bool \<Rightarrow> bool" where
  "stops e = (case e of (ctxDone, dialed, cancelledInWait) \<Rightarrow> ctxDone \<or> dialed \<noteq> None \<or> cancelledInWait)"

lemma Connect_loop_spec:
  "Connect_loop env i n q = (case filter (stops \<circ> env) [i..<i + n] of
     [] \<Rightarrow> (Inl NetError, q)
   | k # _ \<Rightarrow> (case env k of (ctxDone, dialed, _) \<Rightarrow>
       if ctxDone \<or> dialed = None then (Inl Cancelled, q) else (Inr (), q\<lparr>conn := dialed\<rparr>)))"
proof (induction n arbitrary: i)
  case (Suc n)
  have "[i..<i + Suc n] = i # [Suc i..<Suc i + n]" by (simp add: upt_conv_Cons)
  then show ?case using Suc [of "Suc i"]
    by (cases "env i") (auto simp: stops_def split: option.splits)
qed simp

text \<open>\<open>Connect\<close> dials at most thirty times and always returns: with a connection exactly when one of the
  attempts succeeds before the context ends, and without any change otherwise.\<close>

theorem connect_bounded:
  "Connect env q = (case filter (stops \<circ> env) [1..<31] of
     [] \<Rightarrow> (Inl NetError, q)
   | k # _ \<Rightarrow> (case env k of (ctxDone, dialed, _) \<Rightarrow>
       if ctxDone \<or> dialed = None then (Inl Cancelled, q) else (Inr (), q\<lparr>conn := dialed\<rparr>)))"
  by (simp only: Connect_def Connect_loop_spec DefaultMaxRetries_def) simp

section \<open>Subscriptions left open at the library\<close>

fun open_subs :: "lib_call list \<Rightarrow> nat set" where
  "open_subs [] = {}"
| "open_subs (Opened s tp # cs) = insert s (open_subs cs)"
| "open_subs (Closed s # cs) = open_subs cs - {s}"
| "open_subs (CloseFailed s # cs) = open_subs cs"

definition tracked :: "Nats \<Rightarrow> nat set" where
  "tracked q = sub ` ran (subs q)"

definition subs_ok :: "Nats \<Rightarrow> bool" where
  "subs_ok q \<longleftrightarrow> open_subs (rev (lib_calls q)) = tracked q
     \<and> (\<forall>t t' i i'. subs q t = Some i \<longrightarrow> subs q t' = Some i' \<longrightarrow> sub i = sub i' \<longrightarrow> t = t')"

text \<open>The operations of a client; the library never hands out a subscription that is still open.\<close>

inductive nats_reach :: "Nats \<Rightarrow> bool" where
  new: "nats_reach NewNats"
| connect: "nats_reach q \<Longrightarrow> nats_reach (snd (Connect env q))"
| subscribe: "nats_reach q \<Longrightarrow> (\<And>s. opened = Some s \<Longrightarrow> s \<notin> open_subs (rev (lib_calls q)))
    \<Longrightarrow> subs q tp = None \<Longrightarrow> nats_reach (snd (SubscribeCall opened tp q))"
| unsubscribe: "nats_reach q \<Longrightarrow> nats_reach (snd (UnSubscribe fails tps q))"
| timeout: "nats_reach q \<Longrightarrow> nats_reach (SetTopicTimeout tp t q)"
| broadcast: "nats_reach q \<Longrightarrow> nats_reach (snd (Nats_Broadcast ok q))"

lemma subs_ok_cong: "subs q' = subs q \<Longrightarrow> lib_calls q' = lib_calls q \<Longrightarrow> subs_ok q' = subs_ok q"
  by (simp add: subs_ok_def tracked_def)

lemma Connect_keeps: "subs (snd (Connect env q)) = subs q \<and> lib_calls (snd (Connect env q)) = lib_calls q"
  by (auto simp: Connect_def Connect_loop_spec split: list.splits prod.splits)

lemma tracked_iff: "s \<in> tracked q \<longleftrightarrow> (\<exists>t i. subs q t = Some i \<and> sub i = s)"
  by (auto simp: tracked_def ran_def)

lemma subs_ok_inj: "subs_ok q \<Longrightarrow> subs q t = Some i \<Longrightarrow> subs q t' = Some i' \<Longrightarrow> sub i = sub i' \<Longrightarrow> t = t'"
  unfolding subs_ok_def by blast

lemma subs_ok_close:
  assumes "subs_ok q" "subs q tp = Some item"
  shows "subs_ok (q\<lparr>lib_calls := lib_calls q @ [Closed (sub item)], subs := (subs q)(tp := None)\<rparr>)" (is "subs_ok ?q")
proof -
  have "x \<in> tracked ?q \<longleftrightarrow> x \<in> tracked q - {sub item}" for x
  proof
    assume "x \<in> tracked ?q"
    then obtain t i where t: "t \<noteq> tp" "subs q t = Some i" "sub i = x" by (auto simp: tracked_iff split: if_splits)
    then have "x \<noteq> sub item" using subs_ok_inj [OF assms(1) t(2) assms(2)] by blast
    then show "x \<in> tracked q - {sub item}" using t tracked_iff by blast
  next
    assume "x \<in> tracked q - {sub item}"
    then obtain t i where t: "subs q t = Some i" "sub i = x" "x \<noteq> sub item" using tracked_iff by blast
    then have "t \<noteq> tp" using assms(2) by auto
    then have "subs ?q t = Some i" using t by simp
    then show "x \<in> tracked ?q" using t(2) unfolding tracked_iff by blast
  qed
  then have "tracked ?q = tracked q - {sub item}" by blast
  then show ?thesis using assms(1) unfolding subs_ok_def by (simp split: if_splits)
qed

lemma UnSubscribe_loop_ok: "subs_ok q \<Longrightarrow> subs_ok (snd (UnSubscribe_loop fails tps errs q))"
proof (induction fails tps errs q rule: UnSubscribe_loop.induct)
  case (2 fails tp tps errs q)
  have "subs_ok (q\<lparr>lib_calls := lib_calls q @ [CloseFailed s]\<rparr>)" for s
    using 2(4) by (simp add: subs_ok_def tracked_def)
  then show ?case using 2 subs_ok_close by (auto split: option.splits)
qed simp

lemma subscribe_ok:
  assumes "subs_ok q" "\<And>s. opened = Some s \<Longrightarrow> s \<notin> open_subs (rev (lib_calls q))" "subs q tp = None"
  shows "subs_ok (snd (SubscribeCall opened tp q))"
proof (cases "conn q = None \<or> opened = None")
  case True
  then show ?thesis using assms(1) by (auto simp: SubscribeCall_def split: option.splits)
next
  case False
  then obtain c s where cs: "conn q = Some c" "opened = Some s" by auto
  then have "s \<notin> tracked q" using assms(1,2) by (simp add: subs_ok_def)
  then have "sub i \<noteq> s" if "subs q t = Some i" for t i using that by (auto simp: tracked_def ran_def)
  then show ?thesis using assms(1,3) cs by (auto simp: SubscribeCall_def upsertSub_def subs_ok_def tracked_def ran_map_upd)
qed

lemma timeout_ok: "subs_ok q \<Longrightarrow> subs_ok (SetTopicTimeout tp t q)"
proof (cases "subs q tp")
  case (Some item)
  assume ok: "subs_ok q"
  have "sub ` ran ((subs q)(tp \<mapsto> \<lparr>topic = topic item, sub = sub item, timeout = t\<rparr>)) = sub ` ran (subs q)"
    using Some by (auto simp: ran_def image_iff) (metis option.inject subItem.select_convs(2))+
  then show ?thesis using ok Some by (auto simp: subs_ok_def tracked_def SetTopicTimeout_def)
qed (simp add: SetTopicTimeout_def)



text \<open>Subscribing a topic again replaces its entry without closing the old subscription, which stays
  open at the library and which no later \<open>UnSubscribe\<close> can close.\<close>

theorem resubscribe_orphans:
  assumes "conn q = Some c" "subs_ok q" "subs q tp = Some old" "s \<notin> open_subs (rev (lib_calls q))"
  defines "q2 \<equiv> snd (SubscribeCall (Some s) tp q)"
  shows "sub old \<in> open_subs (rev (lib_calls q2)) \<and> sub old \<notin> tracked q2"
proof -
  have op: "sub old \<in> open_subs (rev (lib_calls q))" using assms(2,3) tracked_iff unfolding subs_ok_def by blast
  then have ne: "sub old \<noteq> s" using assms(4) by auto
  have q2: "subs q2 = (subs q)(tp \<mapsto> \<lparr>topic = tp, sub = s, timeout = globalTimeoutNs q\<rparr>)"
      "lib_calls q2 = lib_calls q @ [Opened s tp]"
    using assms(1) by (simp_all add: q2_def SubscribeCall_def upsertSub_def)
  have "\<not> (\<exists>t i. subs q2 t = Some i \<and> sub i = sub old)"
    using ne subs_ok_inj [OF assms(2) _ assms(3)] by (auto simp: q2(1) split: if_splits)
  then show ?thesis using op by (simp add: tracked_iff q2(2))
qed

theorem resubscribe_orphans_witness:
  "3 \<in> open_subs (rev (lib_calls (snd (SubscribeCall (Some 4) ''t'' (snd (SubscribeCall (Some 3) ''t'' (NewNats\<lparr>conn := Some 0\<rparr>)))))))"
proof -
  let ?q = "snd (SubscribeCall (Some 3) ''t'' (NewNats\<lparr>conn := Some 0\<rparr>))"
  have q: "conn ?q = Some 0" "lib_calls ?q = [Opened 3 ''t'']" "subs ?q = [''t'' \<mapsto> \<lparr>topic = ''t'', sub = 3, timeout = 1000000000\<rparr>]"
    by (simp_all add: SubscribeCall_def upsertSub_def NewNats_def)
  then have "subs_ok ?q" by (auto simp: subs_ok_def tracked_def split: if_splits)
  from resubscribe_orphans [OF q(1) this, of "''t''" "\<lparr>topic = ''t'', sub = 3, timeout = 1000000000\<rparr>" 4]
  show ?thesis by (simp add: q)
qed

section \<open>The pool\<close>

text \<open>A successful publication changes only the client whose turn it is, and the turns of consecutive
  publications differ when there are two clients or more: publications of one sender to one topic
  travel on different connections, so the library does not keep their order.\<close>

theorem pool_turns_alternate:
  assumes "2 \<le> length (clients c)" "counter c < - 2"
  shows "pool_index (snd (Pool_Broadcast ok c)) \<noteq> pool_index c"
proof -
  let ?n = "length (clients c)" and ?k = "unat (counter c)"
  have "?k < unat (- 2 :: u64)" using assms(2) by (simp add: word_less_nat_alt)
  then have k: "?k + 2 < 2 ^ 64" by simp
  have step: "unat (counter c + 1) = ?k + 1" "unat (counter c + 1 + 1) = ?k + 2"
    using k by (simp_all add: unat_word_ariths)
  have "(?k + 2) mod ?n \<noteq> (?k + 1) mod ?n"
  proof
    assume "(?k + 2) mod ?n = (?k + 1) mod ?n"
    then have "?n dvd (?k + 2) - (?k + 1)" by (simp add: mod_eq_dvd_iff_nat)
    then show False using assms(1) by simp
  qed
  moreover have "clients c \<noteq> []" using assms(1) by auto
  ultimately show ?thesis using step by (simp add: pool_index_def Pool_Broadcast_def case_prod_beta Let_def)
qed

theorem pool_turns_alternate_witness:
  "pool_index (snd (Pool_Broadcast True (NewDefaultNats 2))) \<noteq> pool_index (NewDefaultNats 2)"
  by (rule pool_turns_alternate) (simp_all add: NewDefaultNats_def word_less_nat_alt)

end
