(* ===== verification/ZCallAll.thy ===== *)
theory ZCallAll
  imports ZSend "HOL-Library.Multiset"
begin

text \<open>
  \<open>CallActorAll\<close> (\<open>zactor/helper.go\<close>): the calls run as asynchronous tasks on the worker pool, and the
  callback of each, which the actor's own loop runs from its mailbox, counts down the wait group.
  The caller's loop, the workers and the actor's loop interleave as steps of one state. What
  the \<open>i\<close>-th \<open>CallActor\<close> returns is the parameter \<open>answer i\<close> (theory \<open>ZSend\<close> models the call), which
  submissions the pool accepts is \<open>accept\<close>, and \<open>own\<close> tells that the caller runs on the
  actor's mailbox goroutine, whose loop then waits with it.
\<close>

record call_all =
  ca_next :: nat
  ca_wg :: int
  ca_out :: "RpcReply option list"
  ca_pool :: "nat list"
  ca_mailbox :: "nat list"
  ca_lost :: "nat list"

text \<open>\<open>ca_out\<close> has \<open>None\<close> for the zero value; \<open>ca_lost\<close> are the tasks whose function panicked: the worker
  recovers and posts no callback.\<close>

definition CallActorAll_start :: "nat \<Rightarrow> call_all" where
  "CallActorAll_start n = \<lparr>ca_next = 0, ca_wg = 0, ca_out = replicate n None, ca_pool = [], ca_mailbox = [], ca_lost = []\<rparr>"

text \<open>One round of the loop over the calls.\<close>

definition CallActorAll_submit :: "(nat \<Rightarrow> bool) \<Rightarrow> call_all \<Rightarrow> call_all" where
  "CallActorAll_submit accept s =
    (let idx = ca_next s; s = s\<lparr>ca_next := idx + 1, ca_wg := ca_wg s + 1\<rparr>
     in if accept idx then s\<lparr>ca_pool := ca_pool s @ [idx]\<rparr>
        else s\<lparr>ca_out := (ca_out s)[idx := Some (failed_reply ErrorCode_RpcErr ''async task submit failed'')],
               ca_wg := ca_wg s - 1\<rparr>)"

text \<open>A worker runs the task of call \<open>i\<close> and posts its callback, or the task panics.\<close>

definition call_task :: "(nat \<Rightarrow> RpcReply) \<Rightarrow> nat \<Rightarrow> call_all \<Rightarrow> call_all" where
  "call_task answer i s = s\<lparr>ca_out := (ca_out s)[i := Some (answer i)], ca_pool := remove1 i (ca_pool s),
     ca_mailbox := ca_mailbox s @ [i]\<rparr>"

definition call_panic :: "nat \<Rightarrow> call_all \<Rightarrow> call_all" where
  "call_panic i s = s\<lparr>ca_pool := remove1 i (ca_pool s), ca_lost := i # ca_lost s\<rparr>"

text \<open>The actor's loop takes a callback out of the mailbox: \<open>wg.Done\<close>.\<close>

definition call_done :: "call_all \<Rightarrow> call_all" where
  "call_done s = s\<lparr>ca_mailbox := tl (ca_mailbox s), ca_wg := ca_wg s - 1\<rparr>"

definition CallActorAll_returned :: "call_all \<Rightarrow> bool" where
  "CallActorAll_returned s \<longleftrightarrow> ca_next s = length (ca_out s) \<and> ca_wg s = 0"

inductive call_step :: "bool \<Rightarrow> (nat \<Rightarrow> bool) \<Rightarrow> (nat \<Rightarrow> RpcReply) \<Rightarrow> call_all \<Rightarrow> call_all \<Rightarrow> bool"
  for own accept answer where
  submit: "ca_next s < length (ca_out s) \<Longrightarrow> call_step own accept answer s (CallActorAll_submit accept s)"
| task: "i \<in> set (ca_pool s) \<Longrightarrow> call_step own accept answer s (call_task answer i s)"
| panic: "i \<in> set (ca_pool s) \<Longrightarrow> call_step own accept answer s (call_panic i s)"
| callback: "\<not> own \<Longrightarrow> ca_mailbox s \<noteq> [] \<Longrightarrow> call_step own accept answer s (call_done s)"

definition call_reach :: "bool \<Rightarrow> (nat \<Rightarrow> bool) \<Rightarrow> (nat \<Rightarrow> RpcReply) \<Rightarrow> nat \<Rightarrow> call_all \<Rightarrow> bool" where
  "call_reach own accept answer n s \<longleftrightarrow> (call_step own accept answer)\<^sup>*\<^sup>* (CallActorAll_start n) s"

section \<open>The invariant\<close>

definition waiting :: "call_all \<Rightarrow> nat list" where
  "waiting s = ca_pool s @ ca_mailbox s @ ca_lost s"

definition call_inv :: "(nat \<Rightarrow> bool) \<Rightarrow> (nat \<Rightarrow> RpcReply) \<Rightarrow> nat \<Rightarrow> call_all \<Rightarrow> bool" where
  "call_inv accept answer n s \<longleftrightarrow> length (ca_out s) = n \<and> ca_next s \<le> n \<and> distinct (waiting s)
     \<and> ca_wg s = int (length (waiting s)) \<and> (\<forall>i \<in> set (waiting s). i < ca_next s \<and> accept i)
     \<and> (\<forall>i < ca_next s. i \<notin> set (ca_pool s) \<longrightarrow> i \<notin> set (ca_lost s) \<longrightarrow>
          ca_out s ! i = Some (if accept i then answer i else failed_reply ErrorCode_RpcErr ''async task submit failed''))"

lemma call_inv_start: "call_inv accept answer n (CallActorAll_start n)"
  by (simp add: call_inv_def CallActorAll_start_def waiting_def)

lemma call_inv_submit:
  assumes "call_inv accept answer n s" "ca_next s < length (ca_out s)"
  shows "call_inv accept answer n (CallActorAll_submit accept s)"
proof -
  have fresh: "ca_next s \<notin> set (waiting s)" using assms(1) by (auto simp: call_inv_def)
  show ?thesis
  proof (cases "accept (ca_next s)")
    case True
    then show ?thesis using assms fresh
      by (auto simp: call_inv_def CallActorAll_submit_def Let_def waiting_def less_Suc_eq)
  next
    case False
    then show ?thesis using assms fresh
      by (auto simp: call_inv_def CallActorAll_submit_def Let_def waiting_def less_Suc_eq nth_list_update)
  qed
qed

lemma call_inv_leave:
  assumes "call_inv accept answer n s" "i \<in> set (ca_pool s)"
  shows "i < n" and "distinct (waiting s)" and "i \<notin> set (remove1 i (ca_pool s))"
    and "i \<notin> set (ca_mailbox s)" and "i \<notin> set (ca_lost s)" and "length (ca_pool s) = Suc (length (remove1 i (ca_pool s)))"
    and "set (remove1 i (ca_pool s)) = set (ca_pool s) - {i}"
proof -
  have "i < ca_next s" "ca_next s \<le> n" using assms by (simp_all add: call_inv_def waiting_def)
  then show "i < n" by linarith
  have "0 < length (ca_pool s)" using assms(2) by (auto simp: length_pos_if_in_set)
  then show "length (ca_pool s) = Suc (length (remove1 i (ca_pool s)))" using assms(2) by (simp add: length_remove1)
  show "distinct (waiting s)" using assms(1) by (simp add: call_inv_def)
  then show "i \<notin> set (remove1 i (ca_pool s))" "i \<notin> set (ca_mailbox s)" "i \<notin> set (ca_lost s)"
    "set (remove1 i (ca_pool s)) = set (ca_pool s) - {i}"
    using assms(2) by (auto simp: waiting_def)
qed

lemma call_inv_out:
  "call_inv accept answer n s \<Longrightarrow> j < ca_next s \<Longrightarrow> j \<notin> set (ca_pool s) \<Longrightarrow> j \<notin> set (ca_lost s) \<Longrightarrow>
    ca_out s ! j = Some (if accept j then answer j else failed_reply ErrorCode_RpcErr ''async task submit failed'')"
  unfolding call_inv_def by blast

lemma call_inv_permute:
  assumes "call_inv accept answer n s" "mset (waiting s') = mset (waiting s)" "ca_next s' = ca_next s" "ca_wg s' = ca_wg s"
    "length (ca_out s') = length (ca_out s)"
    "\<And>j. j < ca_next s \<Longrightarrow> j \<notin> set (ca_pool s') \<Longrightarrow> j \<notin> set (ca_lost s') \<Longrightarrow>
       ca_out s' ! j = Some (if accept j then answer j else failed_reply ErrorCode_RpcErr ''async task submit failed'')"
  shows "call_inv accept answer n s'"
  using assms(1,3-6) mset_eq_setD [OF assms(2)] mset_eq_length [OF assms(2)] mset_eq_imp_distinct_iff [OF assms(2)]
  unfolding call_inv_def by simp

lemma add_remove1: "i \<in> set p \<Longrightarrow> add_mset i (mset (remove1 i p)) = mset p"
  by simp

lemma call_inv_task:
  assumes "call_inv accept answer n s" "i \<in> set (ca_pool s)"
  shows "call_inv accept answer n (call_task answer i s)"
proof (rule call_inv_permute [OF assms(1)])
  note leave = call_inv_leave [OF assms]
  show "mset (waiting (call_task answer i s)) = mset (waiting s)"
    unfolding waiting_def call_task_def by (simp add: add_remove1 [OF assms(2), symmetric] del: mset_remove1)
  have acc: "accept i" "length (ca_out s) = n" using assms by (simp_all add: call_inv_def waiting_def)
  show "ca_out (call_task answer i s) ! j = Some (if accept j then answer j else failed_reply ErrorCode_RpcErr ''async task submit failed'')"
    if "j < ca_next s" "j \<notin> set (ca_pool (call_task answer i s))" "j \<notin> set (ca_lost (call_task answer i s))" for j
  proof (cases "j = i")
    case True
    then show ?thesis using acc leave(1) by (simp add: call_task_def)
  next
    case False
    then have "j \<notin> set (ca_pool s)" "j \<notin> set (ca_lost s)" using that leave(7) by (auto simp: call_task_def)
    then show ?thesis using call_inv_out [OF assms(1) that(1)] False by (simp add: call_task_def)
  qed
qed (simp_all add: call_task_def)

lemma call_inv_panic:
  assumes "call_inv accept answer n s" "i \<in> set (ca_pool s)"
  shows "call_inv accept answer n (call_panic i s)"
proof (rule call_inv_permute [OF assms(1)])
  note leave = call_inv_leave [OF assms]
  show "mset (waiting (call_panic i s)) = mset (waiting s)"
    unfolding waiting_def call_panic_def by (simp add: add_remove1 [OF assms(2), symmetric] del: mset_remove1)
  show "ca_out (call_panic i s) ! j = Some (if accept j then answer j else failed_reply ErrorCode_RpcErr ''async task submit failed'')"
    if "j < ca_next s" "j \<notin> set (ca_pool (call_panic i s))" "j \<notin> set (ca_lost (call_panic i s))" for j
  proof -
    have "j \<notin> set (ca_pool s)" "j \<notin> set (ca_lost s)" using that leave(7) by (auto simp: call_panic_def)
    then show ?thesis using call_inv_out [OF assms(1) that(1)] by (simp add: call_panic_def)
  qed
qed (simp_all add: call_panic_def)

lemma call_inv_done: "call_inv accept answer n s \<Longrightarrow> ca_mailbox s \<noteq> [] \<Longrightarrow> call_inv accept answer n (call_done s)"
  by (cases "ca_mailbox s") (auto simp: call_inv_def call_done_def waiting_def)

lemma call_reach_inv: "call_reach own accept answer n s \<Longrightarrow> call_inv accept answer n s"
  unfolding call_reach_def
proof (induction rule: rtranclp_induct)
  case base
  then show ?case by (rule call_inv_start)
next
  case (step s s')
  from step(2,3) show ?case
    by cases (simp_all add: call_inv_submit call_inv_task call_inv_panic call_inv_done)
qed

text \<open>Claim C18: When \<open>CallActorAll\<close> returns, whatever the order in which the workers and the actor ran, the
  result has for every call, in the order of the calls, what that call returned, or the error of
  the submission when the pool rejected it.\<close>

theorem call_all_collects:
  assumes "call_reach own accept answer n s" "CallActorAll_returned s"
  shows "ca_out s = map (\<lambda>i. Some (if accept i then answer i
      else failed_reply ErrorCode_RpcErr ''async task submit failed'')) [0..<n]"
proof -
  have inv: "call_inv accept answer n s" by (rule call_reach_inv [OF assms(1)])
  then have "waiting s = []" using assms(2) by (simp add: call_inv_def CallActorAll_returned_def)
  then have "ca_pool s = []" "ca_lost s = []" by (simp_all add: waiting_def)
  moreover have "ca_next s = n" "length (ca_out s) = n" using inv assms(2) by (simp_all add: call_inv_def CallActorAll_returned_def)
  ultimately show ?thesis using inv by (intro nth_equalityI) (simp_all add: call_inv_def)
qed

lemma call_reach_step: "call_reach own accept answer n s \<Longrightarrow> call_step own accept answer s s' \<Longrightarrow> call_reach own accept answer n s'"
  unfolding call_reach_def by (rule rtranclp.rtrancl_into_rtrancl)

lemma two_calls_returned:
  fixes answer :: "nat \<Rightarrow> RpcReply"
  defines "s1 \<equiv> CallActorAll_submit (\<lambda>i. i = 0) (CallActorAll_submit (\<lambda>i. i = 0) (CallActorAll_start 2))"
  defines "s2 \<equiv> call_done (call_task answer 0 s1)"
  shows "call_reach False (\<lambda>i. i = 0) answer 2 s2" and "CallActorAll_returned s2"
proof -
  have s1: "ca_pool s1 = [0]" "ca_mailbox s1 = []" "ca_next s1 = 2" "length (ca_out s1) = 2" "ca_wg s1 = 1"
    by (simp_all add: s1_def CallActorAll_submit_def CallActorAll_start_def Let_def)
  have "call_reach False (\<lambda>i. i = 0) answer 2 s1" unfolding s1_def
    by (rule call_reach_step [OF call_reach_step call_step.submit], rule rtranclp.rtrancl_refl [THEN call_reach_def [THEN iffD2]],
        rule call_step.submit) (simp_all add: CallActorAll_submit_def CallActorAll_start_def Let_def)
  then have "call_reach False (\<lambda>i. i = 0) answer 2 (call_task answer 0 s1)"
    by (rule call_reach_step) (rule call_step.task, simp add: s1)
  then show "call_reach False (\<lambda>i. i = 0) answer 2 s2" unfolding s2_def
    by (rule call_reach_step) (rule call_step.callback, simp_all add: call_task_def)
  show "CallActorAll_returned s2" using s1 by (simp add: s2_def call_done_def call_task_def CallActorAll_returned_def)
qed

theorem call_all_collects_witness:
  "ca_out (call_done (call_task (\<lambda>_. failed_reply ErrCode_Success ''ok'') 0
     (CallActorAll_submit (\<lambda>i. i = 0) (CallActorAll_submit (\<lambda>i. i = 0) (CallActorAll_start 2)))))
   = [Some (failed_reply ErrCode_Success ''ok''), Some (failed_reply ErrorCode_RpcErr ''async task submit failed'')]"
  using call_all_collects [OF two_calls_returned [of "\<lambda>_. failed_reply ErrCode_Success ''ok''"]]
  by (simp add: upt_rec)

section \<open>When it returns\<close>

definition call_work :: "call_all \<Rightarrow> nat" where
  "call_work s = 3 * (length (ca_out s) - ca_next s) + 2 * length (ca_pool s) + length (ca_mailbox s)"

lemma call_step_work: "call_step own accept answer s s' \<Longrightarrow> call_work s' < call_work s"
proof (induction rule: call_step.cases)
  case (submit s)
  then show ?case by (auto simp: call_work_def CallActorAll_submit_def Let_def)
next
  case (task i s)
  then obtain k where "length (ca_pool s) = Suc k" by (cases "ca_pool s") auto
  then show ?case using task by (simp add: call_work_def call_task_def length_remove1)
next
  case (panic i s)
  then obtain k where "length (ca_pool s) = Suc k" by (cases "ca_pool s") auto
  then show ?case using panic by (simp add: call_work_def call_panic_def length_remove1)
next
  case (callback s)
  then show ?case by (cases "ca_mailbox s") (simp_all add: call_work_def call_done_def)
qed



text \<open>It never returns when it is called on the actor's own mailbox goroutine and the pool accepts one of
  its calls, and not when one of its calls panics.\<close>

theorem call_all_blocks:
  assumes "call_reach own accept answer n s" "own \<and> (\<exists>i < n. accept i) \<or> ca_lost s \<noteq> []"
  shows "\<not> CallActorAll_returned s"
proof
  assume ret: "CallActorAll_returned s"
  have inv: "call_inv accept answer n s" by (rule call_reach_inv [OF assms(1)])
  have none: "waiting s = []" "ca_next s = n" using inv ret by (auto simp: call_inv_def CallActorAll_returned_def)
  have "own \<Longrightarrow> \<forall>i < ca_next s. accept i \<longrightarrow> i \<in> set (waiting s)"
    using assms(1) unfolding call_reach_def
  proof (induction rule: rtranclp_induct)
    case base
    then show ?case by (simp add: CallActorAll_start_def)
  next
    case (step s s')
    from step(2,1,3,4) show ?case
    proof cases
      case submit
      then show ?thesis using step by (auto simp: CallActorAll_submit_def Let_def waiting_def less_Suc_eq)
    next
      case (task i)
      then show ?thesis using step by (auto simp: call_task_def waiting_def)
    next
      case (panic i)
      then show ?thesis using step by (auto simp: call_panic_def waiting_def)
    qed (use step in simp)
  qed
  then show False using assms(2) none by (auto simp: waiting_def)
qed

theorem call_all_blocks_witness:
  "\<not> CallActorAll_returned (CallActorAll_submit (\<lambda>_. True) (CallActorAll_start 1))"
proof (rule call_all_blocks [of True "\<lambda>_. True" "\<lambda>_. failed_reply ErrCode_Success []" 1])
  show "call_reach True (\<lambda>_. True) (\<lambda>_. failed_reply ErrCode_Success []) 1 (CallActorAll_submit (\<lambda>_. True) (CallActorAll_start 1))"
    by (rule call_reach_step [OF _ call_step.submit]) (simp_all add: call_reach_def CallActorAll_start_def)
qed auto

end
