(* ===== verification/ZStartup.thy ===== *)
theory ZStartup
  imports ZGroup ZMonitor
begin

text \<open>
  Start-up and small services of a process: \<open>zstartup/app.go\<close> (creating the configured actors,
  running the group, shutting down once), \<open>zcheck/check.go\<close> (requirements at start-up), the reload
  callback of \<open>zconfig/config.go\<close>, the observer relay of \<open>zpoolobs/global.go\<close>, the monitor data of an
  actor (\<open>zactor/monitor.go\<close>) and the network counters of \<open>zgate/net_metrics.go\<close>. Actors made by
  factories are references; \<open>cfg\<close> and \<open>msgList\<close> give an actor's configuration and the message
  identifiers it handles, as in theory \<open>ZGroup\<close>.
\<close>

section \<open>The application\<close>

datatype start_error = NoFactory u32 | FactoryNil u32 | FactoryExists u32 | NilFactory | RunFailed group_error

record App =
  Ap_Group :: Group
  actorFactories :: "u32 \<rightharpoonup> nat"
  Ap_Actors :: "ActorConfig list"
  stopped :: bool

definition NewApp :: "u64 \<Rightarrow> bool \<Rightarrow> ActorConfig list \<Rightarrow> App" where
  "NewApp proc single acts = \<lparr>Ap_Group = NewGroup proc single, actorFactories = Map.empty, Ap_Actors = acts, stopped = False\<rparr>"

text \<open>A factory is a number, \<open>None\<close> the nil function.\<close>

definition RegisterActorFactory :: "u32 \<Rightarrow> nat option \<Rightarrow> App \<Rightarrow> (start_error + unit) \<times> App" where
  "RegisterActorFactory actorType f a = (case f of
     None \<Rightarrow> (Inl NilFactory, a)
   | Some f \<Rightarrow> if actorFactories a actorType \<noteq> None then (Inl (FactoryExists actorType), a)
       else (Inr (), a\<lparr>actorFactories := (actorFactories a)(actorType \<mapsto> f)\<rparr>))"

text \<open>One actor of \<open>initActors\<close>: \<open>build f c\<close> is what the factory \<open>f\<close> returns.\<close>

definition initActor :: "(nat \<Rightarrow> ActorConfig \<Rightarrow> aref option) \<Rightarrow> (aref \<Rightarrow> ActorConfig) \<Rightarrow> (aref \<Rightarrow> i32 list)
    \<Rightarrow> (u32 \<rightharpoonup> nat) \<Rightarrow> ActorConfig \<Rightarrow> Group \<Rightarrow> (start_error + Group)" where
  "initActor build cfg msgList factories c g = (case factories (ActorType c) of
     None \<Rightarrow> Inl (NoFactory (ActorType c))
   | Some f \<Rightarrow> (case build f c of
       None \<Rightarrow> Inl (FactoryNil (ActorType c))
     | Some server \<Rightarrow>
         (let g = AddActor cfg server g; ids = msgList server
          in Inr (if length ids > 0 then RegisterRoutes (Some server) ids g else g))))"

fun initActors :: "(nat \<Rightarrow> ActorConfig \<Rightarrow> aref option) \<Rightarrow> (aref \<Rightarrow> ActorConfig) \<Rightarrow> (aref \<Rightarrow> i32 list)
    \<Rightarrow> (u32 \<rightharpoonup> nat) \<Rightarrow> ActorConfig list \<Rightarrow> Group \<Rightarrow> (start_error + unit) \<times> Group" where
  "initActors build cfg msgList factories [] g = (Inr (), g)"
| "initActors build cfg msgList factories (c # cs) g = (case initActor build cfg msgList factories c g of
     Inl e \<Rightarrow> (Inl e, g) | Inr g \<Rightarrow> initActors build cfg msgList factories cs g)"

datatype app_event = GroupRun "run_event list" | StopCancel | GroupClose "run_event list" | GraceWait

definition shutdown :: "u64 list \<Rightarrow> string list \<Rightarrow> App \<Rightarrow> app_event list \<times> App" where
  "shutdown order eorder a =
    (if stopped a then ([], a)
     else (let (closed, engines, g) = Group_Close order eorder (Ap_Group a)
           in ([StopCancel, GroupClose closed], a\<lparr>stopped := True, Ap_Group := g\<rparr>)))"

text \<open>\<open>Run\<close> up to the wait for a signal; \<open>disc\<close>, \<open>initOk\<close>, \<open>server\<close> and the orders are the parameters of
  \<open>Group_Run\<close>. The shutdown registered with the grace object runs when the wait ends.\<close>

definition App_Run :: "(nat \<Rightarrow> ActorConfig \<Rightarrow> aref option) \<Rightarrow> (aref \<Rightarrow> ActorConfig) \<Rightarrow> (aref \<Rightarrow> i32 list) \<Rightarrow> bool
    \<Rightarrow> (aref \<Rightarrow> bool) \<Rightarrow> (aref \<Rightarrow> bool option) \<Rightarrow> u64 list \<Rightarrow> string list \<Rightarrow> App
    \<Rightarrow> (start_error + unit) \<times> app_event list \<times> App" where
  "App_Run build cfg msgList disc initOk server order eorder a =
    (case initActors build cfg msgList (actorFactories a) (Ap_Actors a) (Ap_Group a) of
       (Inl e, g) \<Rightarrow> (Inl e, [], a\<lparr>Ap_Group := g\<rparr>)
     | (Inr _, g) \<Rightarrow>
         (let a = a\<lparr>Ap_Group := g\<rparr>;
              (r, tr) = Group_Run disc cfg msgList initOk server order order g
          in case r of
               Inl e \<Rightarrow> (let (ev, a) = shutdown order eorder a in (Inl (RunFailed e), GroupRun tr # ev, a))
             | Inr _ \<Rightarrow> (let (ev, a) = shutdown order eorder a in (Inr (), [GroupRun tr, GraceWait] @ ev, a))))"

section \<open>Start-up requirements\<close>

record CheckConfig =
  RequireRemoteBus :: bool
  RequireNatsPool :: bool
  RequireNatsConnected :: bool
  TouchMetricsRegistry :: bool

datatype check_error = BusNil | PoolNil | PoolNilConnect | NotConnected

text \<open>\<open>pool\<close> is the default NATS client: \<open>None\<close> when nil, otherwise whether it is connected. An empty
  list is the nil error. Touching the metric registry, which the package creates when it is loaded, has
  no effect.\<close>

definition Validate :: "bool \<Rightarrow> bool option \<Rightarrow> CheckConfig \<Rightarrow> check_error list" where
  "Validate busSet pool cfg =
    (let errs = (if RequireRemoteBus cfg \<and> \<not> busSet then [BusNil] else []);
         errs = errs @ (if RequireNatsPool cfg \<and> pool = None then [PoolNil] else []);
         errs = errs @ (if RequireNatsConnected cfg
           then (case pool of None \<Rightarrow> [PoolNilConnect] | Some conn \<Rightarrow> if \<not> conn then [NotConnected] else []) else [])
     in errs)"

text \<open>\<open>None\<close>: the panic.\<close>

definition ValidateOrPanic :: "bool \<Rightarrow> bool option \<Rightarrow> CheckConfig \<Rightarrow> unit option" where
  "ValidateOrPanic busSet pool cfg = (if Validate busSet pool cfg \<noteq> [] then None else Some ())"

section \<open>Configuration loader and pool observers\<close>

text \<open>A loader holds its path and, once set, a reload callback (a number). \<open>readFile\<close> and \<open>unmarshal\<close> are
  the file system and the TOML library.\<close>

record Loader =
  Ld_path :: string
  Ld_cb :: "nat option"

definition NewLoader :: "string \<Rightarrow> Loader" where
  "NewLoader path = \<lparr>Ld_path = path, Ld_cb = None\<rparr>"

definition Load :: "(string \<Rightarrow> 'e + byte list) \<Rightarrow> (byte list \<Rightarrow> 'd \<Rightarrow> 'e option \<times> 'd) \<Rightarrow> string \<Rightarrow> 'd \<Rightarrow> 'e option \<times> 'd" where
  "Load readFile unmarshal path dest = (case readFile path of
     Inl e \<Rightarrow> (Some e, dest) | Inr data \<Rightarrow> unmarshal data dest)"

definition Loader_Load :: "(string \<Rightarrow> 'e + byte list) \<Rightarrow> (byte list \<Rightarrow> 'd \<Rightarrow> 'e option \<times> 'd) \<Rightarrow> Loader \<Rightarrow> 'd \<Rightarrow> 'e option \<times> 'd" where
  "Loader_Load readFile unmarshal l dest = (case readFile (Ld_path l) of
     Inl e \<Rightarrow> (Some e, dest) | Inr data \<Rightarrow> unmarshal data dest)"

definition OnReload :: "nat option \<Rightarrow> Loader \<Rightarrow> Loader" where
  "OnReload cb l = l\<lparr>Ld_cb := cb\<rparr>"

text \<open>The callbacks \<open>reload\<close> calls.\<close>

definition reload :: "Loader \<Rightarrow> nat list" where
  "reload l = (case Ld_cb l of None \<Rightarrow> [] | Some cb \<Rightarrow> [cb])"

definition Reload :: "Loader \<Rightarrow> nat list" where
  "Reload l = reload l"

text \<open>\<open>zpoolobs\<close>: pools are created with a relay, which asks for the global observer at each event, so
  that an observer set later sees the events from then on. \<open>None\<close> is no observer; the holder
  distinguishes an observer never set from a nil one, \<open>GetObserver\<close> does not.\<close>

definition GetObserver :: "'o option option \<Rightarrow> 'o option" where
  "GetObserver h = (case h of None \<Rightarrow> None | Some obs \<Rightarrow> obs)"

definition SetObserver :: "'o option \<Rightarrow> 'o option option \<Rightarrow> 'o option option" where
  "SetObserver obs h = Some obs"

definition Resolve :: "'o option \<Rightarrow> 'o option option \<Rightarrow> 'o option" where
  "Resolve obs h = (case obs of Some x \<Rightarrow> Some x | None \<Rightarrow> GetObserver h)"

definition relay :: "'o option option \<Rightarrow> pool_event \<Rightarrow> (pool_event \<Rightarrow> 'o \<Rightarrow> 's \<Rightarrow> 's) \<Rightarrow> 's \<Rightarrow> 's" where
  "relay h ev notify s = (case GetObserver h of Some x \<Rightarrow> notify ev x s | None \<Rightarrow> s)"

section \<open>Enabling the metrics service\<close>

record EnableOptions =
  RuntimeCollectorEnabled :: bool
  RuntimeCollectorInterval :: i64
  InstallPoolObserver :: bool
  MonitorManager :: "nat option"

definition defaultEnableOptions :: EnableOptions where
  "defaultEnableOptions = \<lparr>RuntimeCollectorEnabled = True, RuntimeCollectorInterval = 30000000000,
     InstallPoolObserver = True, MonitorManager = None\<rparr>"

text \<open>What is started, in order. The runtime collector, started once per process whatever its interval, and
  the listening HTTP server are events; \<open>builtin\<close> is \<open>GlobalPoolObserver()\<close>.\<close>

datatype enable_event = StartRuntimeCollector i64 | EnsureActorPanicHook | RegisterMonitorManager nat | ServerStart

definition EnableWithOptions :: "'o \<Rightarrow> EnableOptions \<Rightarrow> 'o option option \<Rightarrow> 'o option option \<times> enable_event list \<times> MetricsServer" where
  "EnableWithOptions builtin opt h =
    (let h = (if InstallPoolObserver opt \<and> GetObserver h = None then SetObserver (Some builtin) h else h);
         collector = (if RuntimeCollectorEnabled opt
           then (let interv = RuntimeCollectorInterval opt;
                     interv = (if sint interv \<le> 0 then 5000000000 else interv)
                 in [StartRuntimeCollector interv]) else []);
         manager = (case MonitorManager opt of Some m \<Rightarrow> [RegisterMonitorManager m] | None \<Rightarrow> [])
     in (h, collector @ [EnsureActorPanicHook] @ manager @ [ServerStart], SetReady NewMetricsServer))"

definition Enable :: "'o \<Rightarrow> 'o option option \<Rightarrow> 'o option option \<times> enable_event list \<times> MetricsServer" where
  "Enable builtin h = EnableWithOptions builtin defaultEnableOptions h"

section \<open>Monitor data of an actor\<close>

definition actor_status :: "i64 \<Rightarrow> string" where
  "actor_status mailCount = (if sint mailCount > 1000 then ''busy'' else if mailCount = 0 then ''idle'' else ''running'')"

definition Actor_GetMonitorData :: "i64 \<Rightarrow> i64 \<Rightarrow> ActorConfig \<Rightarrow> i64 \<Rightarrow> ActorStats \<Rightarrow> MonitorData" where
  "Actor_GetMonitorData now nowMs c mailCount st =
    (let (processed, avgLatencyMs, qps, slow, errs) = GetSnapshot now st in
     \<lparr>MType = ''actor'', MID = ''actor_'' @ fmt_d (unat (GetActorId c)), MName = GetTopic c,
      Status = actor_status mailCount, Timestamp = nowMs,
      Metrics = [(''actorId'', GUint64 (GetActorId c)), (''actorType'', GString (GetTopic c)),
        (''mailCount'', GInt64 mailCount), (''processedMsg'', GInt64 processed),
        (''avgLatencyMs'', GFloat64 (i64_to_f64 avgLatencyMs)), (''qps'', GFloat64 qps),
        (''slowCount'', GInt64 slow), (''errorCount'', GInt64 errs)],
      Tags = [(''type'', ''actor''), (''topic'', GetTopic c)]\<rparr>)"

section \<open>Network counters\<close>

record NetCounters =
  ConnActive :: i64
  ConnAccepted :: i64
  ConnRejected :: i64
  BytesRecv :: i64
  BytesSent :: i64
  ConnErrors :: i64
  ConnHeartbeatTimeout :: i64

definition ConnInc :: "NetCounters \<Rightarrow> NetCounters" where
  "ConnInc c = c\<lparr>ConnActive := ConnActive c + 1, ConnAccepted := ConnAccepted c + 1\<rparr>"

definition ConnDec :: "NetCounters \<Rightarrow> NetCounters" where
  "ConnDec c = c\<lparr>ConnActive := ConnActive c - 1\<rparr>"

definition ConnRejectedInc :: "NetCounters \<Rightarrow> NetCounters" where
  "ConnRejectedInc c = c\<lparr>ConnRejected := ConnRejected c + 1\<rparr>"

definition BytesRecAdd :: "i64 \<Rightarrow> NetCounters \<Rightarrow> NetCounters" where
  "BytesRecAdd delta c = (if sint delta \<le> 0 then c else c\<lparr>BytesRecv := BytesRecv c + delta\<rparr>)"

definition BytesSentAdd :: "i64 \<Rightarrow> NetCounters \<Rightarrow> NetCounters" where
  "BytesSentAdd delta c = (if sint delta \<le> 0 then c else c\<lparr>BytesSent := BytesSent c + delta\<rparr>)"

definition ConnErrorsInc :: "NetCounters \<Rightarrow> NetCounters" where
  "ConnErrorsInc c = c\<lparr>ConnErrors := ConnErrors c + 1\<rparr>"

definition ConnHeartbeatTimeoutInc :: "NetCounters \<Rightarrow> NetCounters" where
  "ConnHeartbeatTimeoutInc c = c\<lparr>ConnHeartbeatTimeout := ConnHeartbeatTimeout c + 1\<rparr>"

section \<open>Start-up is exact\<close>

text \<open>The actor a configuration yields, when its factory gives one.\<close>

definition made :: "(nat \<Rightarrow> ActorConfig \<Rightarrow> aref option) \<Rightarrow> (u32 \<rightharpoonup> nat) \<Rightarrow> ActorConfig \<Rightarrow> aref option" where
  "made build factories c = Option.bind (factories (ActorType c)) (\<lambda>f. build f c)"

definition made_all :: "(nat \<Rightarrow> ActorConfig \<Rightarrow> aref option) \<Rightarrow> (u32 \<rightharpoonup> nat) \<Rightarrow> ActorConfig list \<Rightarrow> aref list" where
  "made_all build factories cs = List.map_filter (made build factories) cs"

lemma initActor_made:
  "initActor build cfg msgList factories c g = (case made build factories c of
     None \<Rightarrow> Inl (if factories (ActorType c) = None then NoFactory (ActorType c) else FactoryNil (ActorType c))
   | Some s \<Rightarrow> Inr (RegisterRoutes (Some s) (msgList s) (AddActor cfg s g)))"
  by (auto simp: initActor_def made_def Let_def RegisterRoutes_def split: option.split)

lemma actors_init_one: "actors (RegisterRoutes (Some s) ids (AddActor cfg s g))
    = (actors g)(GetActorId (cfg s) \<mapsto> \<lparr>IActor = s, item_count = 0\<rparr>)"
  by (simp add: RegisterRoutes_def AddActor_def)

lemma lookup_init_one: "set (LookupActorsByMsgIDView m (RegisterRoutes (Some s) ids (AddActor cfg s g)))
    = set (LookupActorsByMsgIDView m g) \<union> (if m \<in> set ids then {s} else {})"
  using RegisterRoutes_correct [of s ids "AddActor cfg s g" m undefined]
  by (auto simp: Let_def LookupActorsByMsgIDView_def AddActor_def)

lemma made_all_Cons:
  "made_all build factories (c # cs) = (case made build factories c of Some s \<Rightarrow> s # made_all build factories cs | None \<Rightarrow> made_all build factories cs)"
  by (simp add: made_all_def List.map_filter_def split: option.split)

lemma initActors_ok:
  assumes "initActors build cfg msgList factories cs g = (Inr (), g')"
  shows "length (made_all build factories cs) = length cs
    \<and> set (LookupActorsByMsgIDView m g') = set (LookupActorsByMsgIDView m g)
        \<union> {s \<in> set (made_all build factories cs). m \<in> set (msgList s)}
    \<and> GetActorById i g' = (case find (\<lambda>s. GetActorId (cfg s) = i) (rev (made_all build factories cs)) of
        Some s \<Rightarrow> Some s | None \<Rightarrow> GetActorById i g)"
  using assms
proof (induction cs arbitrary: g)
  case (Cons c cs)
  then obtain s where s: "made build factories c = Some s" by (auto simp: initActor_made split: option.splits)
  have find_snoc: "find P (xs @ [x]) = (case find P xs of Some y \<Rightarrow> Some y | None \<Rightarrow> if P x then Some x else None)"
    for P :: "aref \<Rightarrow> bool" and xs x
    by (induction xs) auto
  let ?g = "RegisterRoutes (Some s) (msgList s) (AddActor cfg s g)"
  have IH: "length (made_all build factories cs) = length cs
    \<and> set (LookupActorsByMsgIDView m g') = set (LookupActorsByMsgIDView m ?g)
        \<union> {s \<in> set (made_all build factories cs). m \<in> set (msgList s)}
    \<and> GetActorById i g' = (case find (\<lambda>s. GetActorId (cfg s) = i) (rev (made_all build factories cs)) of
        Some s \<Rightarrow> Some s | None \<Rightarrow> GetActorById i ?g)"
    using Cons.prems by (intro Cons.IH) (simp add: initActor_made s)
  show ?case
  proof (intro conjI)
    show "length (made_all build factories (c # cs)) = length (c # cs)" using IH by (simp add: made_all_Cons s)
    show "set (LookupActorsByMsgIDView m g') = set (LookupActorsByMsgIDView m g)
        \<union> {s \<in> set (made_all build factories (c # cs)). m \<in> set (msgList s)}"
      using IH by (auto simp: made_all_Cons s lookup_init_one split: if_splits)
    show "GetActorById i g' = (case find (\<lambda>s. GetActorId (cfg s) = i) (rev (made_all build factories (c # cs))) of
        Some s \<Rightarrow> Some s | None \<Rightarrow> GetActorById i g)"
      using IH by (auto simp: made_all_Cons s find_snoc GetActorById_def actors_init_one split: option.splits)
  qed
qed (simp add: made_all_def List.map_filter_def)

lemma initActors_new:
  assumes "initActors build cfg msgList factories cs (NewGroup p single) = (Inr (), g)"
  shows "length (made_all build factories cs) = length cs
    \<and> set (LookupActorsByMsgIDView m g) = {s \<in> set (made_all build factories cs). m \<in> set (msgList s)}
    \<and> GetActorById i g = find (\<lambda>s. GetActorId (cfg s) = i) (rev (made_all build factories cs))"
  using initActors_ok [OF assms, of m i]
  by (auto simp: LookupActorsByMsgIDView_def GetActorById_def NewGroup_def split: option.splits)

text \<open>Claim C21: When the actors of an application are set up without an error, every configuration has given its
  actor; the candidates for a message identifier are exactly the actors that handle it; and an
  actor is found under its identifier unless a later configuration has the same one.\<close>

theorem app_actors_exact:
  assumes "initActors build cfg msgList factories cs (NewGroup p single) = (Inr (), g)"
  shows "length (made_all build factories cs) = length cs
    \<and> set (LookupActorsByMsgIDView m g) = {s \<in> set (made_all build factories cs). m \<in> set (msgList s)}
    \<and> GetActorById i g = find (\<lambda>s. GetActorId (cfg s) = i) (rev (made_all build factories cs))"
  by (rule initActors_new [OF assms])

text \<open>Two configurations with one identifier: the first actor stays a candidate for its messages but is
  no longer in the group, which therefore never starts it.\<close>

theorem duplicate_id_strands_actor:
  assumes "initActors build cfg msgList factories [c, d] (NewGroup p single) = (Inr (), g)"
    and "made build factories c = Some s" "made build factories d = Some t" "s \<noteq> t"
    and "GetActorId (cfg s) = GetActorId (cfg t)" "m \<in> set (msgList s)"
  shows "s \<in> set (LookupActorsByMsgIDView m g) \<and> (\<forall>i. GetActorById i g \<noteq> Some s)"
proof -
  have "made_all build factories [c, d] = [s, t]" using assms(2,3) by (simp add: made_all_Cons) (simp add: made_all_def List.map_filter_def)
  then show ?thesis using initActors_new [OF assms(1), of m] assms(4-6) by auto
qed

definition demo_cfg :: "u64 \<Rightarrow> ActorConfig" where
  "demo_cfg i = \<lparr>Id = i, Process = 0, Name = [], ActorType = 1, Index = 0, Addr = [], IsLimiter = False, Rate = 0,
     Burst = 0, WorkSize = 0, MaxRPCPending = 0, MaxRestarts = 0, ModeConfig = mode_zero, SupportedMsgIDs = []\<rparr>"

theorem app_actors_exact_witness:
  "\<exists>g. initActors (\<lambda>f c. Some (unat (Id c))) (\<lambda>a. demo_cfg (of_nat a)) (\<lambda>a. [7]) [1 \<mapsto> 0] [demo_cfg 1, demo_cfg 2] (NewGroup 0 True) = (Inr (), g)
     \<and> set (LookupActorsByMsgIDView 7 g) = {1, 2}"
proof -
  let ?make = "\<lambda>(f :: nat) c. Some (unat (Id c))" and ?cfg = "\<lambda>a. demo_cfg (of_nat a)"
  have m: "made ?make [1 \<mapsto> 0] (demo_cfg i) = Some (unat i)" for i by (simp add: made_def demo_cfg_def)
  obtain g where g: "initActors ?make ?cfg (\<lambda>a. [7]) [1 \<mapsto> 0] [demo_cfg 1, demo_cfg 2] (NewGroup 0 True) = (Inr (), g)"
    by (simp add: initActor_made m)
  have "made_all ?make [1 \<mapsto> 0] [demo_cfg 1, demo_cfg 2] = [1, 2]"
    by (simp add: made_all_Cons m) (simp add: made_all_def List.map_filter_def)
  then show ?thesis using app_actors_exact [OF g, of 7] g by auto
qed

theorem duplicate_id_strands_actor_witness:
  "\<exists>g. 1 \<in> set (LookupActorsByMsgIDView 7 g) \<and> (\<forall>i. GetActorById i g \<noteq> Some 1)"
proof -
  let ?make = "\<lambda>(f :: nat) c. Some (unat (Id c))" and ?cfg = "\<lambda>a. demo_cfg 5"
  have m: "made ?make [1 \<mapsto> 0] (demo_cfg i) = Some (unat i)" for i by (simp add: made_def demo_cfg_def)
  obtain g where g: "initActors ?make ?cfg (\<lambda>a. [7]) [1 \<mapsto> 0] [demo_cfg 1, demo_cfg 2] (NewGroup 0 True) = (Inr (), g)"
    by (simp add: initActor_made m)
  from duplicate_id_strands_actor [OF g m m, of 7] show ?thesis by auto
qed

section \<open>Shutting down\<close>

text \<open>However a run ends after the actors have been set up, the context is cancelled and the group closed
  exactly once, and a further shutdown does nothing.\<close>

theorem app_shuts_down_once:
  assumes "App_Run build cfg msgList disc initOk server order eorder a = (r, evs, a')" "\<not> stopped a"
    and "initActors build cfg msgList (actorFactories a) (Ap_Actors a) (Ap_Group a) = (Inr (), g)"
  shows "length (filter (\<lambda>e. e = StopCancel) evs) = 1 \<and> length (filter (\<lambda>e. \<exists>c. e = GroupClose c) evs) = 1
    \<and> stopped a' \<and> shutdown order' eorder' a' = ([], a')"
  using assms by (auto simp: App_Run_def shutdown_def Let_def case_prod_beta split: sum.splits)

theorem app_shuts_down_once_witness:
  "\<exists>evs a'. App_Run (\<lambda>f c. None) (\<lambda>a. demo_cfg 0) (\<lambda>a. []) False (\<lambda>a. True) (\<lambda>a. None) [] [] (NewApp 0 True []) = (Inr (), evs, a')
     \<and> stopped a'"
proof -
  obtain r evs a' where run: "App_Run (\<lambda>f c. None) (\<lambda>a. demo_cfg 0) (\<lambda>a. []) False (\<lambda>a. True) (\<lambda>a. None) [] [] (NewApp 0 True []) = (r, evs, a')"
    by (metis prod.exhaust)
  have "r = Inr ()"
    using run by (auto simp: App_Run_def NewApp_def shutdown_def Group_Run_def items_def Let_def case_prod_beta split: sum.splits)
  then show ?thesis using app_shuts_down_once [OF run] run by (auto simp: NewApp_def)
qed

text \<open>The start-up check reports nothing exactly when every requirement is met, and an unconnected
  client that is required both as pool and connected is reported for what it lacks.\<close>

theorem validate_exact:
  "Validate busSet pool cfg = [] \<longleftrightarrow> (RequireRemoteBus cfg \<longrightarrow> busSet) \<and> (RequireNatsPool cfg \<longrightarrow> pool \<noteq> None)
     \<and> (RequireNatsConnected cfg \<longrightarrow> pool = Some True)"
  by (auto simp: Validate_def Let_def split: option.split)

end
