(* ===== verification/ZCodec.thy ===== *)
theory ZCodec
  imports ZSlice
begin

text \<open>
  \<open>zcodec\<close>: the three message adapters behind \<open>ziface.IMessage\<close>. Each holds a message identifier
  and a byte slice; their point is that they share no memory with the buffers they are given or
  hand out, which the framework reuses. The slices are therefore those of theory \<open>ZSlice\<close>, over one
  store of byte arrays. A nil receiver is \<open>None\<close>. The JSON and MessagePack libraries are
  parameters: an encoder returns an error or the bytes of a fresh buffer.
\<close>

type_synonym heap = "byte store"

record payload =
  msgID :: i32
  payload_data :: slice

section \<open>What the adapters share\<close>

text \<open>\<open>append([]byte(nil), b...)\<close>.\<close>

definition copy_bytes :: "(nat \<Rightarrow> nat) \<Rightarrow> slice \<Rightarrow> heap \<Rightarrow> slice \<times> heap" where
  "copy_bytes grow b st = append_slice grow nil_slice (slice_elems st b) st"

text \<open>\<open>m.data = append(m.data[:0], b...)\<close>.\<close>

definition overwrite_bytes :: "(nat \<Rightarrow> nat) \<Rightarrow> slice \<Rightarrow> slice \<Rightarrow> heap \<Rightarrow> slice \<times> heap" where
  "overwrite_bytes grow d b st = append_slice grow (d\<lparr>s_len := 0\<rparr>) (slice_elems st b) st"

text \<open>The buffer an encoder returns.\<close>

definition new_buffer :: "byte list \<Rightarrow> heap \<Rightarrow> slice \<times> heap" where
  "new_buffer bs st = append_slice (\<lambda>n. n) nil_slice bs st"

section \<open>Raw bytes\<close>

definition NewBytesMessage :: "(nat \<Rightarrow> nat) \<Rightarrow> i32 \<Rightarrow> slice \<Rightarrow> heap \<Rightarrow> payload \<times> heap" where
  "NewBytesMessage grow i b st = (let (c, st) = copy_bytes grow b st in (\<lparr>msgID = i, payload_data = c\<rparr>, st))"

definition Bytes_GetMsgId :: "payload option \<Rightarrow> i32" where
  "Bytes_GetMsgId m = (case m of None \<Rightarrow> 0 | Some m \<Rightarrow> msgID m)"

definition Bytes_SizeVT :: "payload option \<Rightarrow> nat" where
  "Bytes_SizeVT m = (case m of None \<Rightarrow> 0 | Some m \<Rightarrow> s_len (payload_data m))"

definition Bytes_UnmarshalVT :: "(nat \<Rightarrow> nat) \<Rightarrow> slice \<Rightarrow> payload option \<Rightarrow> heap \<Rightarrow> payload option \<times> heap" where
  "Bytes_UnmarshalVT grow b m st = (case m of
     None \<Rightarrow> (None, st)
   | Some m \<Rightarrow> (let (d, st) = overwrite_bytes grow (payload_data m) b st in (Some (m\<lparr>payload_data := d\<rparr>), st)))"

definition Bytes_MarshalVT :: "(nat \<Rightarrow> nat) \<Rightarrow> payload option \<Rightarrow> heap \<Rightarrow> slice \<times> heap" where
  "Bytes_MarshalVT grow m st = (case m of None \<Rightarrow> (nil_slice, st) | Some m \<Rightarrow> copy_bytes grow (payload_data m) st)"

definition Bytes_MarshalToVT :: "slice \<Rightarrow> payload option \<Rightarrow> heap \<Rightarrow> nat \<times> heap" where
  "Bytes_MarshalToVT dst m st = (case m of None \<Rightarrow> (0, st) | Some m \<Rightarrow> copy_slice dst (payload_data m) st)"

definition Bytes_Bytes :: "(nat \<Rightarrow> nat) \<Rightarrow> payload option \<Rightarrow> heap \<Rightarrow> slice \<times> heap" where
  "Bytes_Bytes grow m st = (case m of None \<Rightarrow> (nil_slice, st) | Some m \<Rightarrow> copy_bytes grow (payload_data m) st)"

section \<open>JSON\<close>

definition NewJSONMessage :: "('v \<Rightarrow> 'e + byte list) \<Rightarrow> i32 \<Rightarrow> 'v \<Rightarrow> heap \<Rightarrow> ('e + payload) \<times> heap" where
  "NewJSONMessage MarshalJson i v st = (case MarshalJson v of
     Inl e \<Rightarrow> (Inl e, st)
   | Inr bs \<Rightarrow> (let (b, st) = new_buffer bs st in (Inr \<lparr>msgID = i, payload_data = b\<rparr>, st)))"

definition NewJSONMessageFromBytes :: "(nat \<Rightarrow> nat) \<Rightarrow> i32 \<Rightarrow> slice \<Rightarrow> heap \<Rightarrow> payload \<times> heap" where
  "NewJSONMessageFromBytes grow i b st = (let (c, st) = copy_bytes grow b st in (\<lparr>msgID = i, payload_data = c\<rparr>, st))"

definition JSON_GetMsgId :: "payload option \<Rightarrow> i32" where
  "JSON_GetMsgId m = (case m of None \<Rightarrow> 0 | Some m \<Rightarrow> msgID m)"

definition JSON_SizeVT :: "payload option \<Rightarrow> nat" where
  "JSON_SizeVT m = (case m of None \<Rightarrow> 0 | Some m \<Rightarrow> s_len (payload_data m))"

definition JSON_UnmarshalVT :: "(nat \<Rightarrow> nat) \<Rightarrow> slice \<Rightarrow> payload option \<Rightarrow> heap \<Rightarrow> payload option \<times> heap" where
  "JSON_UnmarshalVT grow b m st = (case m of
     None \<Rightarrow> (None, st)
   | Some m \<Rightarrow> (let (d, st) = overwrite_bytes grow (payload_data m) b st in (Some (m\<lparr>payload_data := d\<rparr>), st)))"

definition JSON_MarshalVT :: "(nat \<Rightarrow> nat) \<Rightarrow> payload option \<Rightarrow> heap \<Rightarrow> slice \<times> heap" where
  "JSON_MarshalVT grow m st = (case m of None \<Rightarrow> (nil_slice, st) | Some m \<Rightarrow> copy_bytes grow (payload_data m) st)"

definition JSON_MarshalToVT :: "slice \<Rightarrow> payload option \<Rightarrow> heap \<Rightarrow> nat \<times> heap" where
  "JSON_MarshalToVT dst m st = (case m of None \<Rightarrow> (0, st) | Some m \<Rightarrow> copy_slice dst (payload_data m) st)"

definition JSON_Decode :: "(byte list \<Rightarrow> 'o \<Rightarrow> 'e option \<times> 'o) \<Rightarrow> payload option \<Rightarrow> heap \<Rightarrow> 'o \<Rightarrow> 'e option \<times> 'o" where
  "JSON_Decode UnmarshalJson m st out = (case m of
     None \<Rightarrow> (None, out) | Some m \<Rightarrow> UnmarshalJson (slice_elems st (payload_data m)) out)"

definition JSON_Encode :: "('v \<Rightarrow> 'e + byte list) \<Rightarrow> 'v \<Rightarrow> payload option \<Rightarrow> heap \<Rightarrow> 'e option \<times> payload option \<times> heap" where
  "JSON_Encode MarshalJson v m st = (case m of
     None \<Rightarrow> (None, None, st)
   | Some m \<Rightarrow> (case MarshalJson v of
       Inl e \<Rightarrow> (Some e, Some m, st)
     | Inr bs \<Rightarrow> (let (b, st) = new_buffer bs st in (None, Some (m\<lparr>payload_data := b\<rparr>), st))))"

section \<open>MessagePack\<close>

definition NewMsgpackMessage :: "('v \<Rightarrow> 'e + byte list) \<Rightarrow> i32 \<Rightarrow> 'v \<Rightarrow> heap \<Rightarrow> ('e + payload) \<times> heap" where
  "NewMsgpackMessage MarshalMsgPack i v st = (case MarshalMsgPack v of
     Inl e \<Rightarrow> (Inl e, st)
   | Inr bs \<Rightarrow> (let (b, st) = new_buffer bs st in (Inr \<lparr>msgID = i, payload_data = b\<rparr>, st)))"

definition NewMsgpackMessageFromBytes :: "(nat \<Rightarrow> nat) \<Rightarrow> i32 \<Rightarrow> slice \<Rightarrow> heap \<Rightarrow> payload \<times> heap" where
  "NewMsgpackMessageFromBytes grow i b st = (let (c, st) = copy_bytes grow b st in (\<lparr>msgID = i, payload_data = c\<rparr>, st))"

definition Msgpack_GetMsgId :: "payload option \<Rightarrow> i32" where
  "Msgpack_GetMsgId m = (case m of None \<Rightarrow> 0 | Some m \<Rightarrow> msgID m)"

definition Msgpack_SizeVT :: "payload option \<Rightarrow> nat" where
  "Msgpack_SizeVT m = (case m of None \<Rightarrow> 0 | Some m \<Rightarrow> s_len (payload_data m))"

definition Msgpack_UnmarshalVT :: "(nat \<Rightarrow> nat) \<Rightarrow> slice \<Rightarrow> payload option \<Rightarrow> heap \<Rightarrow> payload option \<times> heap" where
  "Msgpack_UnmarshalVT grow b m st = (case m of
     None \<Rightarrow> (None, st)
   | Some m \<Rightarrow> (let (d, st) = overwrite_bytes grow (payload_data m) b st in (Some (m\<lparr>payload_data := d\<rparr>), st)))"

definition Msgpack_MarshalVT :: "(nat \<Rightarrow> nat) \<Rightarrow> payload option \<Rightarrow> heap \<Rightarrow> slice \<times> heap" where
  "Msgpack_MarshalVT grow m st = (case m of None \<Rightarrow> (nil_slice, st) | Some m \<Rightarrow> copy_bytes grow (payload_data m) st)"

definition Msgpack_MarshalToVT :: "slice \<Rightarrow> payload option \<Rightarrow> heap \<Rightarrow> nat \<times> heap" where
  "Msgpack_MarshalToVT dst m st = (case m of None \<Rightarrow> (0, st) | Some m \<Rightarrow> copy_slice dst (payload_data m) st)"

definition Msgpack_Decode :: "(byte list \<Rightarrow> 'o \<Rightarrow> 'e option \<times> 'o) \<Rightarrow> payload option \<Rightarrow> heap \<Rightarrow> 'o \<Rightarrow> 'e option \<times> 'o" where
  "Msgpack_Decode UnmarshalMsgPack m st out = (case m of
     None \<Rightarrow> (None, out) | Some m \<Rightarrow> UnmarshalMsgPack (slice_elems st (payload_data m)) out)"

definition Msgpack_Encode :: "('v \<Rightarrow> 'e + byte list) \<Rightarrow> 'v \<Rightarrow> payload option \<Rightarrow> heap \<Rightarrow> 'e option \<times> payload option \<times> heap" where
  "Msgpack_Encode MarshalMsgPack v m st = (case m of
     None \<Rightarrow> (None, None, st)
   | Some m \<Rightarrow> (case MarshalMsgPack v of
       Inl e \<Rightarrow> (Some e, Some m, st)
     | Inr bs \<Rightarrow> (let (b, st) = new_buffer bs st in (None, Some (m\<lparr>payload_data := b\<rparr>), st))))"

section \<open>The contract of a message\<close>

text \<open>What the sending path relies on: the size is the length of the encoding, which \<open>MarshalToVT\<close>
  writes to the front of a large enough buffer and nowhere else, and \<open>UnmarshalVT\<close> of a buffer
  makes its bytes the payload without writing to memory that the message does not own.\<close>

locale imessage =
  fixes sizeVT :: "payload option \<Rightarrow> nat"
    and marshalTo :: "slice \<Rightarrow> payload option \<Rightarrow> heap \<Rightarrow> nat \<times> heap"
    and marshal :: "(nat \<Rightarrow> nat) \<Rightarrow> payload option \<Rightarrow> heap \<Rightarrow> slice \<times> heap"
    and unmarshal :: "(nat \<Rightarrow> nat) \<Rightarrow> slice \<Rightarrow> payload option \<Rightarrow> heap \<Rightarrow> payload option \<times> heap"
  assumes size_law: "slice_ok st (payload_data m) \<Longrightarrow> sizeVT (Some m) = length (slice_elems st (payload_data m))"
    and marshalTo_law: "slice_ok st (payload_data m) \<Longrightarrow> slice_ok st dst \<Longrightarrow> sizeVT (Some m) \<le> s_len dst
      \<Longrightarrow> marshalTo dst (Some m) st = (n, st') \<Longrightarrow> n = sizeVT (Some m)
        \<and> slice_elems st' (dst\<lparr>s_len := n\<rparr>) = slice_elems st (payload_data m)
        \<and> slice_ok st' dst \<and> fresh_arr st' = fresh_arr st \<and> (\<forall>a. a \<notin> owned dst \<longrightarrow> arrays st' a = arrays st a)"
    and marshal_law: "(\<And>n. n \<le> grow n) \<Longrightarrow> slice_ok st (payload_data m) \<Longrightarrow> marshal grow (Some m) st = (s, st')
      \<Longrightarrow> slice_elems st' s = slice_elems st (payload_data m) \<and> slice_ok st' s \<and> fresh_arr st \<le> fresh_arr st'
        \<and> owned s \<subseteq> {fresh_arr st..<fresh_arr st'} \<and> (\<forall>a < fresh_arr st. arrays st' a = arrays st a)"
    and unmarshal_law: "(\<And>n. n \<le> grow n) \<Longrightarrow> slice_ok st (payload_data m) \<Longrightarrow> unmarshal grow b (Some m) st = (r, st')
      \<Longrightarrow> \<exists>m'. r = Some m' \<and> msgID m' = msgID m \<and> slice_elems st' (payload_data m') = slice_elems st b
        \<and> slice_ok st' (payload_data m') \<and> fresh_arr st \<le> fresh_arr st'
        \<and> owned (payload_data m') \<subseteq> owned (payload_data m) \<union> {fresh_arr st..<fresh_arr st'}
        \<and> (\<forall>a < fresh_arr st. a \<notin> owned (payload_data m) \<longrightarrow> arrays st' a = arrays st a)"
begin

text \<open>Sending a message and reading it back at the receiver, who has a message of its own.\<close>

lemma transfer:
  assumes "\<And>n. n \<le> grow n" "slice_ok st (payload_data m)" "slice_ok st (payload_data m2)" "slice_ok st dst"
    and "sizeVT (Some m) \<le> s_len dst" "owned dst \<inter> owned (payload_data m2) = {}"
    and "marshalTo dst (Some m) st = (n, st1)" "unmarshal grow (dst\<lparr>s_len := n\<rparr>) (Some m2) st1 = (r, st2)"
  shows "n = sizeVT (Some m) \<and> (\<exists>m'. r = Some m' \<and> msgID m' = msgID m2
    \<and> slice_elems st2 (payload_data m') = slice_elems st (payload_data m))"
proof -
  note to = marshalTo_law [OF assms(2,4,5,7)]
  have "slice_ok st1 (payload_data m2)"
    by (rule slice_frame(1) [OF assms(3)]) (use to assms(6) in auto)
  from unmarshal_law [OF assms(1) this assms(8)] to show ?thesis by auto
qed

end

lemma copy_to_law:
  assumes "slice_ok st d" "slice_ok st dst" "s_len d \<le> s_len dst" "copy_slice dst d st = (n, st')"
  shows "n = s_len d \<and> slice_elems st' (dst\<lparr>s_len := n\<rparr>) = slice_elems st d
    \<and> slice_ok st' dst \<and> fresh_arr st' = fresh_arr st \<and> (\<forall>a. a \<notin> owned dst \<longrightarrow> arrays st' a = arrays st a)"
proof -
  note frame = copy_slice_frame [OF assms(2,4)]
  have n: "n = s_len d" using assms(3,4) by (simp add: copy_slice_def Let_def)
  have "slice_elems st' (dst\<lparr>s_len := n\<rparr>) = slice_elems st d"
    using assms(4) n length_slice_elems [OF assms(1)] assms(3)
    by (auto simp: copy_slice_def slice_elems_def Let_def comp_def)
  moreover have "slice_ok st' dst" using assms(2) frame(2) frame(3) [OF assms(1)] by (simp add: slice_ok_def)
  ultimately show ?thesis using n frame by simp
qed

lemma copy_bytes_law:
  assumes "\<And>n. n \<le> grow n" "copy_bytes grow b st = (s, st')"
  shows "slice_elems st' s = slice_elems st b \<and> slice_ok st' s \<and> fresh_arr st \<le> fresh_arr st'
    \<and> owned s \<subseteq> {fresh_arr st..<fresh_arr st'} \<and> (\<forall>a < fresh_arr st. arrays st' a = arrays st a)"
proof -
  note run = assms(2) [unfolded copy_bytes_def]
  note frame = append_slice_frame [OF slice_ok_nil(1) run]
  have "owned s \<subseteq> {fresh_arr st..<fresh_arr st'}" using frame(3,4) by fastforce
  then show ?thesis using append_slice_elems [OF slice_ok_nil(1) assms(1) run] frame(1,2) by simp
qed

lemma overwrite_law:
  assumes "\<And>n. n \<le> grow n" "slice_ok st d" "overwrite_bytes grow d b st = (s, st')"
  shows "slice_elems st' s = slice_elems st b \<and> slice_ok st' s \<and> fresh_arr st \<le> fresh_arr st'
    \<and> owned s \<subseteq> owned d \<union> {fresh_arr st..<fresh_arr st'}
    \<and> (\<forall>a < fresh_arr st. a \<notin> owned d \<longrightarrow> arrays st' a = arrays st a)"
proof -
  note run = assms(3) [unfolded overwrite_bytes_def]
  have ok: "slice_ok st (d\<lparr>s_len := 0\<rparr>)" using assms(2) by (simp add: slice_ok_def)
  have own: "owned (d\<lparr>s_len := 0\<rparr>) = owned d" by (simp add: owned_def)
  note frame = append_slice_frame [OF ok run, unfolded own]
  have "owned s \<subseteq> owned d \<union> {fresh_arr st..<fresh_arr st'}" using frame(3,4) by fastforce
  moreover have "slice_elems st (d\<lparr>s_len := 0\<rparr>) = []" by (simp add: slice_elems_def)
  ultimately show ?thesis using append_slice_elems [OF ok assms(1) run] frame(1,2) by simp
qed

text \<open>The three adapters meet the contract for the same reason: they copy.\<close>

lemma copying_message:
  assumes "\<And>m. sz (Some m) = s_len (payload_data m)"
    and "\<And>dst m st. to dst (Some m) st = copy_slice dst (payload_data m) st"
    and "\<And>grow m st. marshal grow (Some m) st = copy_bytes grow (payload_data m) st"
    and "\<And>grow b m st. unm grow b (Some m) st
      = (let (d, st) = overwrite_bytes grow (payload_data m) b st in (Some (m\<lparr>payload_data := d\<rparr>), st))"
  shows "imessage sz to marshal unm"
proof (rule imessage.intro)
  fix grow b st m r st' assume g: "\<And>n. n \<le> grow n" "slice_ok st (payload_data m)" "unm grow b (Some m) st = (r, st')"
  obtain d where "overwrite_bytes grow (payload_data m) b st = (d, st')" "r = Some (m\<lparr>payload_data := d\<rparr>)"
    using g(3) by (auto simp: assms(4) split: prod.splits)
  then show "\<exists>m'. r = Some m' \<and> msgID m' = msgID m \<and> slice_elems st' (payload_data m') = slice_elems st b
        \<and> slice_ok st' (payload_data m') \<and> fresh_arr st \<le> fresh_arr st'
        \<and> owned (payload_data m') \<subseteq> owned (payload_data m) \<union> {fresh_arr st..<fresh_arr st'}
        \<and> (\<forall>a < fresh_arr st. a \<notin> owned (payload_data m) \<longrightarrow> arrays st' a = arrays st a)"
    using overwrite_law [OF g(1,2)] by simp
next
  fix grow st m s st' assume g: "\<And>n. n \<le> grow n" "marshal grow (Some m) st = (s, st')"
  show "slice_elems st' s = slice_elems st (payload_data m) \<and> slice_ok st' s \<and> fresh_arr st \<le> fresh_arr st'
        \<and> owned s \<subseteq> {fresh_arr st..<fresh_arr st'} \<and> (\<forall>a < fresh_arr st. arrays st' a = arrays st a)"
    using copy_bytes_law [OF g(1)] g(2) by (simp add: assms(3))
next
  fix st m dst n st' assume g: "slice_ok st (payload_data m)" "slice_ok st dst" "sz (Some m) \<le> s_len dst" "to dst (Some m) st = (n, st')"
  show "n = sz (Some m) \<and> slice_elems st' (dst\<lparr>s_len := n\<rparr>) = slice_elems st (payload_data m)
        \<and> slice_ok st' dst \<and> fresh_arr st' = fresh_arr st \<and> (\<forall>a. a \<notin> owned dst \<longrightarrow> arrays st' a = arrays st a)"
    using copy_to_law [OF g(1,2), of n st'] g(3,4) unfolding assms(1,2) by blast
qed (simp add: assms(1) length_slice_elems)

interpretation bytes_msg: imessage Bytes_SizeVT Bytes_MarshalToVT Bytes_MarshalVT Bytes_UnmarshalVT
  by (rule copying_message) (simp_all add: Bytes_SizeVT_def Bytes_MarshalToVT_def Bytes_MarshalVT_def Bytes_UnmarshalVT_def)

interpretation json_msg: imessage JSON_SizeVT JSON_MarshalToVT JSON_MarshalVT JSON_UnmarshalVT
  by (rule copying_message) (simp_all add: JSON_SizeVT_def JSON_MarshalToVT_def JSON_MarshalVT_def JSON_UnmarshalVT_def)

interpretation msgpack_msg: imessage Msgpack_SizeVT Msgpack_MarshalToVT Msgpack_MarshalVT Msgpack_UnmarshalVT
  by (rule copying_message)
    (simp_all add: Msgpack_SizeVT_def Msgpack_MarshalToVT_def Msgpack_MarshalVT_def Msgpack_UnmarshalVT_def)

section \<open>Messages share no memory\<close>

datatype codec = Raw | Json | Msgpack

definition new_of :: "codec \<Rightarrow> (nat \<Rightarrow> nat) \<Rightarrow> i32 \<Rightarrow> slice \<Rightarrow> heap \<Rightarrow> payload \<times> heap" where
  "new_of c = (case c of Raw \<Rightarrow> NewBytesMessage | Json \<Rightarrow> NewJSONMessageFromBytes | Msgpack \<Rightarrow> NewMsgpackMessageFromBytes)"

definition size_of :: "codec \<Rightarrow> payload option \<Rightarrow> nat" where
  "size_of c = (case c of Raw \<Rightarrow> Bytes_SizeVT | Json \<Rightarrow> JSON_SizeVT | Msgpack \<Rightarrow> Msgpack_SizeVT)"

definition unmarshal_of :: "codec \<Rightarrow> (nat \<Rightarrow> nat) \<Rightarrow> slice \<Rightarrow> payload option \<Rightarrow> heap \<Rightarrow> payload option \<times> heap" where
  "unmarshal_of c = (case c of Raw \<Rightarrow> Bytes_UnmarshalVT | Json \<Rightarrow> JSON_UnmarshalVT | Msgpack \<Rightarrow> Msgpack_UnmarshalVT)"

definition marshal_of :: "codec \<Rightarrow> (nat \<Rightarrow> nat) \<Rightarrow> payload option \<Rightarrow> heap \<Rightarrow> slice \<times> heap" where
  "marshal_of c = (case c of Raw \<Rightarrow> Bytes_MarshalVT | Json \<Rightarrow> JSON_MarshalVT | Msgpack \<Rightarrow> Msgpack_MarshalVT)"

definition marshal_to_of :: "codec \<Rightarrow> slice \<Rightarrow> payload option \<Rightarrow> heap \<Rightarrow> nat \<times> heap" where
  "marshal_to_of c = (case c of Raw \<Rightarrow> Bytes_MarshalToVT | Json \<Rightarrow> JSON_MarshalToVT | Msgpack \<Rightarrow> Msgpack_MarshalToVT)"

definition encode_of :: "codec \<Rightarrow> ('v \<Rightarrow> 'e + byte list) \<Rightarrow> 'v \<Rightarrow> payload option \<Rightarrow> heap \<Rightarrow> 'e option \<times> payload option \<times> heap" where
  "encode_of c = (if c = Msgpack then Msgpack_Encode else JSON_Encode)"

lemma imessage_of: "imessage (size_of c) (marshal_to_of c) (marshal_of c) (unmarshal_of c)"
  using bytes_msg.imessage_axioms json_msg.imessage_axioms msgpack_msg.imessage_axioms
  by (cases c) (simp_all add: size_of_def marshal_to_of_def marshal_of_def unmarshal_of_def)

text \<open>The messages of a program, what was last stored into each, and the arrays that other code has:
  buffers it made and slices that messages gave it. It may write to those at any time. For an encoded
  value only its bytes matter, so the encoder is the identity on them.\<close>

record codec_world =
  cw_heap :: heap
  cw_msgs :: "payload list"
  cw_want :: "byte list list"
  cw_ext :: "nat set"

definition outside :: "codec_world \<Rightarrow> slice \<Rightarrow> bool" where
  "outside w b \<longleftrightarrow> slice_ok (cw_heap w) b \<and> owned b \<subseteq> cw_ext w"

inductive codec_reach :: "(nat \<Rightarrow> nat) \<Rightarrow> codec_world \<Rightarrow> bool" for grow where
  start: "codec_reach grow \<lparr>cw_heap = \<lparr>arrays = (\<lambda>_. []), fresh_arr = 1\<rparr>, cw_msgs = [], cw_want = [], cw_ext = {}\<rparr>"
| buffer: "codec_reach grow w \<Longrightarrow> new_buffer bs (cw_heap w) = (s, st)
    \<Longrightarrow> codec_reach grow (w\<lparr>cw_heap := st, cw_ext := cw_ext w \<union> owned s\<rparr>)"
| scribble: "codec_reach grow w \<Longrightarrow> a \<in> cw_ext w \<Longrightarrow> length xs = length (arrays (cw_heap w) a)
    \<Longrightarrow> codec_reach grow (w\<lparr>cw_heap := (cw_heap w)\<lparr>arrays := (arrays (cw_heap w))(a := xs)\<rparr>\<rparr>)"
| create: "codec_reach grow w \<Longrightarrow> outside w b \<Longrightarrow> new_of c grow i b (cw_heap w) = (m, st)
    \<Longrightarrow> codec_reach grow (w\<lparr>cw_heap := st, cw_msgs := cw_msgs w @ [m], cw_want := cw_want w @ [slice_elems (cw_heap w) b]\<rparr>)"
| unmarshal: "codec_reach grow w \<Longrightarrow> outside w b \<Longrightarrow> k < length (cw_msgs w)
    \<Longrightarrow> unmarshal_of c grow b (Some (cw_msgs w ! k)) (cw_heap w) = (Some m, st)
    \<Longrightarrow> codec_reach grow (w\<lparr>cw_heap := st, cw_msgs := (cw_msgs w)[k := m], cw_want := (cw_want w)[k := slice_elems (cw_heap w) b]\<rparr>)"
| marshal: "codec_reach grow w \<Longrightarrow> k < length (cw_msgs w) \<Longrightarrow> marshal_of c grow (Some (cw_msgs w ! k)) (cw_heap w) = (s, st)
    \<Longrightarrow> codec_reach grow (w\<lparr>cw_heap := st, cw_ext := cw_ext w \<union> owned s\<rparr>)"
| marshal_to: "codec_reach grow w \<Longrightarrow> k < length (cw_msgs w) \<Longrightarrow> outside w dst \<Longrightarrow> size_of c (Some (cw_msgs w ! k)) \<le> s_len dst
    \<Longrightarrow> marshal_to_of c dst (Some (cw_msgs w ! k)) (cw_heap w) = (n, st) \<Longrightarrow> codec_reach grow (w\<lparr>cw_heap := st\<rparr>)"
| encode: "codec_reach grow w \<Longrightarrow> k < length (cw_msgs w)
    \<Longrightarrow> encode_of c (\<lambda>bs. Inr bs :: unit + byte list) bs (Some (cw_msgs w ! k)) (cw_heap w) = (e, Some m, st)
    \<Longrightarrow> codec_reach grow (w\<lparr>cw_heap := st, cw_msgs := (cw_msgs w)[k := m], cw_want := (cw_want w)[k := bs]\<rparr>)"

definition holds :: "codec_world \<Rightarrow> payload \<Rightarrow> byte list \<Rightarrow> bool" where
  "holds w m bs \<longleftrightarrow> slice_ok (cw_heap w) (payload_data m) \<and> slice_elems (cw_heap w) (payload_data m) = bs
     \<and> owned (payload_data m) \<inter> cw_ext w = {}"

definition codec_inv :: "codec_world \<Rightarrow> bool" where
  "codec_inv w \<longleftrightarrow> list_all2 (holds w) (cw_msgs w) (cw_want w) \<and> cw_ext w \<subseteq> {..<fresh_arr (cw_heap w)}
     \<and> (\<forall>k l. k < length (cw_msgs w) \<longrightarrow> l < length (cw_msgs w) \<longrightarrow> k \<noteq> l
          \<longrightarrow> owned (payload_data (cw_msgs w ! k)) \<inter> owned (payload_data (cw_msgs w ! l)) = {})"

lemma slice_ok_owned: "slice_ok st s \<Longrightarrow> owned s \<subseteq> {..<fresh_arr st}"
  by (auto simp: slice_ok_def owned_def)

lemma holds_frame:
  assumes "holds w m bs" "fresh_arr (cw_heap w) \<le> fresh_arr st"
    and "\<And>a. a \<in> owned (payload_data m) \<Longrightarrow> arrays st a = arrays (cw_heap w) a"
    and "cw_heap w' = st" "owned (payload_data m) \<inter> cw_ext w' = {}"
  shows "holds w' m bs"
  using assms slice_frame [of "cw_heap w" "payload_data m" st] by (simp add: holds_def)

lemma inv_holds:
  assumes "codec_inv w" "k < length (cw_msgs w)"
  shows "holds w (cw_msgs w ! k) (cw_want w ! k)" and "slice_ok (cw_heap w) (payload_data (cw_msgs w ! k))"
    and "owned (payload_data (cw_msgs w ! k)) \<subseteq> {..<fresh_arr (cw_heap w)}"
    and "owned (payload_data (cw_msgs w ! k)) \<inter> cw_ext w = {}"
proof -
  show h: "holds w (cw_msgs w ! k) (cw_want w ! k)" using assms by (auto simp: codec_inv_def list_all2_conv_all_nth)
  show "slice_ok (cw_heap w) (payload_data (cw_msgs w ! k))" "owned (payload_data (cw_msgs w ! k)) \<inter> cw_ext w = {}"
    using h by (simp_all add: holds_def)
  then show "owned (payload_data (cw_msgs w ! k)) \<subseteq> {..<fresh_arr (cw_heap w)}" by (intro slice_ok_owned)
qed

text \<open>What other code does, including with slices it was given, changes no message.\<close>

lemma inv_outside:
  assumes "codec_inv w" "fresh_arr (cw_heap w) \<le> fresh_arr st"
    and "\<And>a. a < fresh_arr (cw_heap w) \<Longrightarrow> a \<notin> cw_ext w \<Longrightarrow> arrays st a = arrays (cw_heap w) a"
    and "X \<subseteq> {fresh_arr (cw_heap w)..<fresh_arr st}"
  shows "codec_inv (w\<lparr>cw_heap := st, cw_ext := cw_ext w \<union> X\<rparr>)"
proof -
  have "holds (w\<lparr>cw_heap := st, cw_ext := cw_ext w \<union> X\<rparr>) m bs" if h: "holds w m bs" for m bs
  proof (rule holds_frame [OF h assms(2)])
    have own: "owned (payload_data m) \<subseteq> {..<fresh_arr (cw_heap w)}" "owned (payload_data m) \<inter> cw_ext w = {}"
      using h slice_ok_owned by (auto simp: holds_def)
    then show "a \<in> owned (payload_data m) \<Longrightarrow> arrays st a = arrays (cw_heap w) a" for a using assms(3) by auto
    show "owned (payload_data m) \<inter> cw_ext (w\<lparr>cw_heap := st, cw_ext := cw_ext w \<union> X\<rparr>) = {}" using own assms(4) by fastforce
  qed simp
  moreover have "cw_ext w \<union> X \<subseteq> {..<fresh_arr st}" using assms(1,2,4) by (fastforce simp: codec_inv_def)
  ultimately show ?thesis using assms(1) by (auto simp: codec_inv_def elim: list_all2_mono)
qed

text \<open>A message is added or changed: it owns fresh arrays besides the ones it had.\<close>

lemma inv_add:
  assumes "codec_inv w" "fresh_arr (cw_heap w) \<le> fresh_arr st"
    and "\<And>a. a < fresh_arr (cw_heap w) \<Longrightarrow> arrays st a = arrays (cw_heap w) a"
    and "owned (payload_data m) \<subseteq> {fresh_arr (cw_heap w)..<fresh_arr st}"
    and "slice_ok st (payload_data m)" "slice_elems st (payload_data m) = bs"
  shows "codec_inv (w\<lparr>cw_heap := st, cw_msgs := cw_msgs w @ [m], cw_want := cw_want w @ [bs]\<rparr>)" (is "codec_inv ?w")
proof -
  note old = inv_holds(3) [OF assms(1)]
  have ext: "cw_ext w \<subseteq> {..<fresh_arr (cw_heap w)}" using assms(1) by (simp add: codec_inv_def)
  have "holds ?w m' bs'" if "holds w m' bs'" for m' bs'
    by (rule holds_frame [OF that assms(2)])
      (use that assms(3) slice_ok_owned in \<open>auto simp: holds_def\<close>)
  moreover have "holds ?w m bs" using assms(4-6) ext by (fastforce simp: holds_def)
  ultimately have "list_all2 (holds ?w) (cw_msgs ?w) (cw_want ?w)"
    using assms(1) by (auto simp: codec_inv_def intro!: list_all2_appendI elim: list_all2_mono)
  moreover have "owned (payload_data (cw_msgs w ! k)) \<inter> owned (payload_data m) = {}" if "k < length (cw_msgs w)" for k
    using old [OF that] assms(4) by fastforce
  ultimately show ?thesis using assms(1,2) ext by (auto simp: codec_inv_def nth_append less_Suc_eq)
qed

lemma inv_set:
  assumes "codec_inv w" "k < length (cw_msgs w)" "fresh_arr (cw_heap w) \<le> fresh_arr st"
    and "\<And>a. a < fresh_arr (cw_heap w) \<Longrightarrow> a \<notin> owned (payload_data (cw_msgs w ! k)) \<Longrightarrow> arrays st a = arrays (cw_heap w) a"
    and "owned (payload_data m) \<subseteq> owned (payload_data (cw_msgs w ! k)) \<union> {fresh_arr (cw_heap w)..<fresh_arr st}"
    and "slice_ok st (payload_data m)" "slice_elems st (payload_data m) = bs"
  shows "codec_inv (w\<lparr>cw_heap := st, cw_msgs := (cw_msgs w)[k := m], cw_want := (cw_want w)[k := bs]\<rparr>)" (is "codec_inv ?w")
proof -
  let ?own = "\<lambda>l. owned (payload_data (cw_msgs w ! l))"
  note h = inv_holds(1) [OF assms(1)] and old = inv_holds(3,4) [OF assms(1)]
  have len: "length (cw_want w) = length (cw_msgs w)" using assms(1) by (simp add: codec_inv_def list_all2_conv_all_nth)
  have ext: "cw_ext w \<subseteq> {..<fresh_arr (cw_heap w)}" using assms(1) by (simp add: codec_inv_def)
  have apart: "?own l \<inter> ?own k = {}" if "l < length (cw_msgs w)" "l \<noteq> k" for l
    using that assms(1,2) by (simp add: codec_inv_def)
  then have new: "?own l \<inter> owned (payload_data m) = {}" if "l < length (cw_msgs w)" "l \<noteq> k" for l
    using that assms(5) old(1) [OF that(1)] by fastforce
  have "holds ?w (cw_msgs w ! l) (cw_want w ! l)" if "l < length (cw_msgs w)" "l \<noteq> k" for l
  proof (rule holds_frame [OF h [OF that(1)] assms(3)])
    show "a \<in> ?own l \<Longrightarrow> arrays st a = arrays (cw_heap w) a" for a
      using assms(4) apart [OF that] old(1) [OF that(1)] by fastforce
  qed (use old(2) [OF that(1)] in simp_all)
  moreover have "holds ?w m bs" using assms(5-7) ext old [OF assms(2)] by (fastforce simp: holds_def)
  ultimately have "list_all2 (holds ?w) (cw_msgs ?w) (cw_want ?w)"
    using assms(2) by (auto simp: list_all2_conv_all_nth len nth_list_update)
  then show ?thesis using assms(1-3) ext new by (auto simp: codec_inv_def nth_list_update)
qed

lemma codec_reach_inv:
  assumes "\<And>n. n \<le> grow n"
  shows "codec_reach grow w \<Longrightarrow> codec_inv w"
proof (induction rule: codec_reach.induct)
  case start
  then show ?case by (simp add: codec_inv_def)
next
  case (buffer w bs s st)
  note run = buffer.hyps(2) [unfolded new_buffer_def]
  note frame = append_slice_frame [OF slice_ok_nil(1) run]
  show ?case by (rule inv_outside [OF buffer.IH frame(2)]) (use frame in fastforce)+
next
  case (scribble w a xs)
  have "codec_inv (w\<lparr>cw_heap := (cw_heap w)\<lparr>arrays := (arrays (cw_heap w))(a := xs)\<rparr>, cw_ext := cw_ext w \<union> {}\<rparr>)"
    by (rule inv_outside [OF scribble.IH]) (use scribble.hyps in auto)
  then show ?case by simp
next
  case (create w b c i m st)
  obtain d where run: "copy_bytes grow b (cw_heap w) = (d, st)" "m = \<lparr>msgID = i, payload_data = d\<rparr>"
    using create.hyps(3)
    by (cases c) (auto simp: new_of_def NewBytesMessage_def NewJSONMessageFromBytes_def NewMsgpackMessageFromBytes_def split: prod.splits)
  show ?case by (rule inv_add [OF create.IH]) (use copy_bytes_law [OF assms run(1)] run(2) in auto)
next
  case (unmarshal w b k c m st)
  note ok = inv_holds(2) [OF unmarshal.IH unmarshal.hyps(3)]
  show ?case by (rule inv_set [OF unmarshal.IH unmarshal.hyps(3)])
    (use imessage.unmarshal_law [OF imessage_of [of c], OF assms ok unmarshal.hyps(4)] in auto)
next
  case (marshal w k c s st)
  note law = imessage.marshal_law [OF imessage_of [of c], OF assms inv_holds(2) [OF marshal.IH marshal.hyps(2)] marshal.hyps(3)]
  show ?case by (rule inv_outside [OF marshal.IH]) (use law in auto)
next
  case (marshal_to w k dst c n st)
  note law = imessage.marshalTo_law [OF imessage_of [of c], OF inv_holds(2) [OF marshal_to.IH marshal_to.hyps(2)] _ marshal_to.hyps(4,5)]
  have "codec_inv (w\<lparr>cw_heap := st, cw_ext := cw_ext w \<union> {}\<rparr>)"
    by (rule inv_outside [OF marshal_to.IH]) (use law marshal_to.hyps(3) in \<open>auto simp: outside_def\<close>)
  then show ?case by simp
next
  case (encode w k c bs e m st)
  obtain d where run: "append_slice (\<lambda>n. n) nil_slice bs (cw_heap w) = (d, st)" "payload_data m = d"
    using encode.hyps(3)
    by (auto simp: encode_of_def JSON_Encode_def Msgpack_Encode_def new_buffer_def split: prod.splits if_splits)
  note frame = append_slice_frame [OF slice_ok_nil(1) run(1)] and elems = append_slice_elems [OF slice_ok_nil(1) order.refl run(1)]
  show ?case by (rule inv_set [OF encode.IH encode.hyps(2) frame(2)])
    (use frame elems run(2) in \<open>fastforce+\<close>)
qed

text \<open>Claim C17: Whatever other code does with the buffers it gave to messages or got from them, and in whatever
  order messages are made, overwritten, encoded and marshalled, every message keeps exactly the
  bytes that were last stored into it: the adapters share no memory with anyone.\<close>

theorem payloads_isolated:
  assumes "\<And>n. n \<le> grow n" "codec_reach grow w" "k < length (cw_msgs w)"
  shows "slice_elems (cw_heap w) (payload_data (cw_msgs w ! k)) = cw_want w ! k"
  using inv_holds(1) [OF codec_reach_inv [OF assms(1,2)] assms(3)] by (simp add: holds_def)

text \<open>A value sent as JSON arrives: it is encoded, written to the framework's buffer, read into a message
  of the receiver and decoded, if the library decodes what it encodes.\<close>

theorem json_value_arrives:
  assumes "\<And>n. n \<le> grow n" "NewJSONMessage enc i v st0 = (Inr m, st)"
    and "slice_ok st (payload_data m2)" "slice_ok st dst" "owned dst \<inter> owned (payload_data m2) = {}"
    and "JSON_SizeVT (Some m) \<le> s_len dst" "JSON_MarshalToVT dst (Some m) st = (n, st1)"
    and "JSON_UnmarshalVT grow (dst\<lparr>s_len := n\<rparr>) (Some m2) st1 = (r, st2)"
    and "\<And>bs. enc v = Inr bs \<Longrightarrow> dec bs out = (None, v)"
  shows "JSON_Decode dec r st2 out = (None, v)"
proof -
  obtain bs b where enc: "enc v = Inr bs" and b: "append_slice (\<lambda>n. n) nil_slice bs st0 = (b, st)" "payload_data m = b"
    using assms(2) by (auto simp: NewJSONMessage_def new_buffer_def split: sum.splits prod.splits)
  note elems = append_slice_elems [OF slice_ok_nil(1) order.refl b(1)]
  from json_msg.transfer [OF assms(1) _ assms(3,4,6,5,7,8)] elems b(2)
  show ?thesis using assms(9) [OF enc] by (auto simp: JSON_Decode_def)
qed

definition heap0 :: heap where "heap0 = \<lparr>arrays = (\<lambda>_. [])(1 := replicate 4 None), fresh_arr = 2\<rparr>"

theorem json_value_arrives_witness:
  "\<exists>m st n st1 r st2. NewJSONMessage (\<lambda>v. Inr [v, 7] :: unit + byte list) 9 5 heap0 = (Inr m, st)
    \<and> JSON_MarshalToVT \<lparr>s_arr = 1, s_len = 4, s_cap = 4\<rparr> (Some m) st = (n, st1)
    \<and> JSON_UnmarshalVT (\<lambda>n. n) \<lparr>s_arr = 1, s_len = n, s_cap = 4\<rparr> (Some \<lparr>msgID = 1, payload_data = nil_slice\<rparr>) st1 = (r, st2)
    \<and> JSON_Decode (\<lambda>bs out. (None :: unit option, hd bs)) r st2 0 = (None, 5)"
proof -
  let ?dst = "\<lparr>s_arr = 1, s_len = 4, s_cap = 4\<rparr> :: slice"
  obtain m st where m: "NewJSONMessage (\<lambda>v. Inr [v, 7] :: unit + byte list) 9 5 heap0 = (Inr m, st)"
      "slice_ok st ?dst" "s_len (payload_data m) = 2"
    by (simp add: NewJSONMessage_def new_buffer_def append_slice_def nil_slice_def heap0_def slice_ok_def)
  obtain n st1 where to: "JSON_MarshalToVT ?dst (Some m) st = (n, st1)" by fastforce
  obtain r st2 where un: "JSON_UnmarshalVT (\<lambda>n. n) (?dst\<lparr>s_len := n\<rparr>) (Some \<lparr>msgID = 1, payload_data = nil_slice\<rparr>) st1 = (r, st2)"
    by fastforce
  have "JSON_Decode (\<lambda>bs out. (None :: unit option, hd bs)) r st2 0 = (None, 5)"
    by (rule json_value_arrives [OF _ m(1) _ m(2) _ _ to un]) (simp_all add: m(3) JSON_SizeVT_def)
  with m(1) to un show ?thesis by auto
qed

theorem payloads_isolated_witness:
  "\<exists>w. codec_reach (\<lambda>n. n) w \<and> arrays (cw_heap w) 1 = [Some 8] \<and> slice_elems (cw_heap w) (payload_data (cw_msgs w ! 0)) = [3]"
proof -
  let ?w0 = "\<lparr>cw_heap = \<lparr>arrays = (\<lambda>_. []), fresh_arr = 1\<rparr>, cw_msgs = [], cw_want = [], cw_ext = {}\<rparr> :: codec_world"
  let ?b = "\<lparr>s_arr = 1, s_len = 1, s_cap = 1\<rparr> :: slice"
  define st1 :: heap where "st1 = \<lparr>arrays = (\<lambda>_. [])(1 := [Some 3]), fresh_arr = 2\<rparr>"
  define st2 :: heap where "st2 = \<lparr>arrays = (\<lambda>_. [])(1 := [Some 3], 2 := [Some 3]), fresh_arr = 3\<rparr>"
  define m where "m = \<lparr>msgID = 5, payload_data = \<lparr>s_arr = 2, s_len = 1, s_cap = 1\<rparr>\<rparr>"
  have "new_buffer [3] (cw_heap ?w0) = (?b, st1)" by (simp add: new_buffer_def append_slice_def nil_slice_def st1_def)
  from codec_reach.buffer [OF codec_reach.start this]
  have r1: "codec_reach (\<lambda>n. n) (?w0\<lparr>cw_heap := st1, cw_ext := {1}\<rparr>)" by (simp add: owned_def)
  have "new_of Raw (\<lambda>n. n) 5 ?b st1 = (m, st2)"
    by (simp add: new_of_def NewBytesMessage_def copy_bytes_def append_slice_def nil_slice_def slice_elems_def st1_def st2_def m_def)
  then have r2: "codec_reach (\<lambda>n. n) (?w0\<lparr>cw_heap := st2, cw_ext := {1}, cw_msgs := [m], cw_want := [[3]]\<rparr>)"
    using codec_reach.create [OF r1, of ?b Raw 5 m st2]
    by (simp add: outside_def slice_ok_def owned_def st1_def slice_elems_def)
  let ?st3 = "st2\<lparr>arrays := (arrays st2)(1 := [Some 8])\<rparr>"
  have r3: "codec_reach (\<lambda>n. n) (?w0\<lparr>cw_heap := ?st3, cw_ext := {1}, cw_msgs := [m], cw_want := [[3]]\<rparr>)"
    using codec_reach.scribble [OF r2, of 1 "[Some 8]"] by (simp add: st2_def)
  from payloads_isolated [OF _ r3, of 0] r3 show ?thesis by fastforce
qed

end
