(* ===== verification/ZGateMonitor.thy ===== *)
theory ZGateMonitor
  imports ZGate ZMonitor
begin

text \<open>
  What the gateway reports about itself: the loop of \<open>ReportMetrics\<close> (\<open>zgate/gate.go\<close>), which publishes
  the traffic of each period and samples the memory statistics, and \<open>GetMonitorData\<close>
  (\<open>zgate/monitor.go\<close>). Both take the round-trip samples out of the same tracker. Times are in
  nanoseconds; what the Go runtime reports is an argument. \<open>None\<close> is the panic of an index out of
  range in \<open>CalculateStats\<close>.
\<close>

section \<open>The report loop\<close>

text \<open>The fields of \<open>ServerMetrics\<close> about memory and the variables of the loop.\<close>

record report_state =
  lastReportTime :: i64
  lastMemSampleTime :: i64
  lastCollectTime :: i64
  lastMemStats :: MemStats
  MemAllocBytes :: u64
  MemSysBytes :: u64
  MemNumGC :: u64
  memAllocMB :: f64
  memSysMB :: f64
  allocRateMB :: f64
  deltaGC :: i64
  avgPause :: i64
  deltaPauseNs :: i64

record gate_prom =
  GateOnlineUsers :: Gauge
  GateRecvQPS :: Gauge
  GateSentQPS :: Gauge
  GateRTTAvg :: Histogram

record gate_log =
  QPS_Curr :: f64
  QPS_Global :: f64
  RTT_Stats :: LatencyStats
  RTT_Global_Avg :: i64
  RTT_Total_Count :: i64
  log_memAllocMB :: f64
  log_memSysMB :: f64
  log_allocRateMB :: f64
  log_deltaGC :: i64
  log_avgPause :: i64
  log_pauseTotalMs :: f64
  log_online :: i32
  Run_Sec :: f64

definition i64_div :: "i64 \<Rightarrow> i64 \<Rightarrow> i64" where
  "i64_div a b = word_of_int (sint a sdiv sint b)"

definition memStatsInterval :: i64 where "memStatsInterval = 30000000000"

text \<open>The statements before the loop.\<close>

definition ReportMetrics_start :: "i64 \<Rightarrow> MemStats \<Rightarrow> report_state" where
  "ReportMetrics_start now ms = \<lparr>lastReportTime = now, lastMemSampleTime = now, lastCollectTime = now, lastMemStats = ms,
     MemAllocBytes = Alloc ms, MemSysBytes = Sys ms, MemNumGC = ucast (NumGC ms), memAllocMB = 0, memSysMB = 0,
     allocRateMB = 0, deltaGC = 0, avgPause = 0, deltaPauseNs = 0\<rparr>"

text \<open>An idle period resets the reference points.\<close>

definition report_idle :: "i64 \<Rightarrow> MemStats \<Rightarrow> report_state" where
  "report_idle now ms = ReportMetrics_start now ms"

text \<open>The memory statistics, read at most every 30 seconds.\<close>

definition sample_memory :: "i64 \<Rightarrow> MemStats \<Rightarrow> report_state \<Rightarrow> report_state" where
  "sample_memory now ms r =
    (if sint (now - lastMemSampleTime r) < sint memStatsInterval then r
     else (let deltaMemTime = Seconds (now - lastCollectTime r);
               deltaMemTime = (if deltaMemTime \<le> 0 then 1 else deltaMemTime);
               dGC = ucast (NumGC ms - NumGC (lastMemStats r));
               dPause = PauseTotalNs ms - PauseTotalNs (lastMemStats r);
               deltaAllocBytes = TotalAlloc ms - TotalAlloc (lastMemStats r)
           in r\<lparr>deltaGC := dGC, deltaPauseNs := dPause,
                avgPause := (if sint dGC > 0 then i64_div dPause dGC else 0),
                allocRateMB := fdiv (fdiv (fdiv (i64_to_f64 deltaAllocBytes) 1024) 1024) deltaMemTime,
                memAllocMB := to_MB (Alloc ms), memSysMB := to_MB (Sys ms),
                MemAllocBytes := Alloc ms, MemSysBytes := Sys ms, MemNumGC := ucast (NumGC ms),
                lastMemStats := ms, lastCollectTime := now, lastMemSampleTime := now\<rparr>))"

text \<open>One tick. The first part, which resets the counters and takes the samples, is \<open>ReportMetrics_tick\<close> of
  theory \<open>ZGate\<close>; \<open>now\<close> is read after it decided that the gateway is not idle.\<close>

definition ReportMetrics_round :: "i64 \<Rightarrow> MemStats \<Rightarrow> report_state \<times> gate_prom \<times> Server
    \<Rightarrow> (gate_log option \<times> report_state \<times> gate_prom \<times> Server) option" where
  "ReportMetrics_round now ms g = (case g of (r, prom, s) \<Rightarrow>
    (let duration = Seconds (now - lastReportTime r);
         idle = (OnlineUsers (s_metrics s) = 0 \<and> ServerMetrics.recvCount (s_metrics s) + ServerMetrics.sentCount (s_metrics s) = 0)
     in case ReportMetrics_tick (\<not> duration \<le> 0) s of
          (None, s) \<Rightarrow> Some (None, if idle then report_idle now ms else r, prom, s)
        | (Some (deltaRecv, deltaSent, onlineCount, rawSamples), s) \<Rightarrow>
            (let r = r\<lparr>lastReportTime := now\<rparr>;
                 m = s_metrics s;
                 curr = fdiv (fadd (i64_to_f64 deltaRecv) (i64_to_f64 deltaSent)) duration;
                 totalPackets = recvCountTotal m + sentCountTotal m;
                 activeSeconds = (if sint (FirstPacketTime m) > 0 then Seconds (now - FirstPacketTime m) else 0);
                 globalQPS = (if sint (FirstPacketTime m) > 0 \<and> activeSeconds > 1
                   then fdiv (i64_to_f64 totalPackets) activeSeconds else 0)
             in case CalculateStats rawSamples of
                  None \<Rightarrow> None
                | Some rttStats \<Rightarrow>
                    (let globalAvgRTT = (if sint (GlobalCountRTT m) > 0 then i64_div (GlobalTotalRTT m) (GlobalCountRTT m) else 0);
                         r = sample_memory now ms r;
                         prom = prom\<lparr>GateOnlineUsers := Gauge_Set (scast onlineCount) (GateOnlineUsers prom),
                           GateRecvQPS := Gauge_Set (f64_to_i64 (fdiv (i64_to_f64 deltaRecv) duration)) (GateRecvQPS prom),
                           GateSentQPS := Gauge_Set (f64_to_i64 (fdiv (i64_to_f64 deltaSent) duration)) (GateSentQPS prom),
                           GateRTTAvg := fold (\<lambda>sample h. Observe (fdiv (i64_to_f64 sample) 1000000) h) rawSamples (GateRTTAvg prom)\<rparr>;
                         logged = \<lparr>QPS_Curr = curr, QPS_Global = globalQPS, RTT_Stats = rttStats, RTT_Global_Avg = globalAvgRTT,
                           RTT_Total_Count = GlobalCountRTT m, log_memAllocMB = memAllocMB r, log_memSysMB = memSysMB r,
                           log_allocRateMB = allocRateMB r, log_deltaGC = deltaGC r, log_avgPause = avgPause r,
                           log_pauseTotalMs = fdiv (i64_to_f64 (deltaPauseNs r)) 1000000, log_online = onlineCount,
                           Run_Sec = activeSeconds\<rparr>
                     in Some (if gateMonitorLogEnabled s then Some logged else None, r, prom, s)))))"

section \<open>The monitor data\<close>

text \<open>\<open>agg\<close>: the aggregated session statistics, if the network server offers them.\<close>

definition Microseconds :: "i64 \<Rightarrow> i64" where "Microseconds d = i64_div d 1000"

definition gate_status :: "i32 \<Rightarrow> string" where
  "gate_status onlineCount = (if onlineCount = 0 then ''idle'' else if sint onlineCount > 8000 then ''busy'' else ''running'')"

definition Gate_GetMonitorData :: "i64 \<Rightarrow> i64 \<Rightarrow> i64 \<Rightarrow> u64 \<Rightarrow> (i64 \<times> i64 \<times> i64 \<times> i64 \<times> i64) option
    \<Rightarrow> report_state \<Rightarrow> Server \<Rightarrow> (MonitorData \<times> Server) option" where
  "Gate_GetMonitorData now nowMs goroutineNum aid agg r s =
    (let m = s_metrics s;
         elapsed = Seconds (now - FirstPacketTime m);
         globalQPS = (if sint (FirstPacketTime m) > 0 \<and> elapsed > 0
           then fdiv (i64_to_f64 (recvCountTotal m)) elapsed else 0);
         (samples, t) = GetAndResetSamples (RTTTracker m);
         s = upd_metrics (\<lambda>m. m\<lparr>RTTTracker := t\<rparr>) s
     in case CalculateStats samples of
          None \<Rightarrow> None
        | Some stats \<Rightarrow>
            (let metrics =
               [(''onlineCount'', GInt (scast (OnlineUsers m))), (''totalSessions'', GInt64 (recvCountTotal m)),
                (''currentQPS'', GFloat64 (i64_to_f64 (ServerMetrics.recvCount m))), (''globalQPS'', GFloat64 globalQPS),
                (''avgRttMs'', GFloat64 (fdiv (i64_to_f64 (Microseconds (AvgRTT stats))) 1000)),
                (''p99RttMs'', GFloat64 (fdiv (i64_to_f64 (Microseconds (P99 stats))) 1000)),
                (''memAllocMB'', GFloat64 (to_MB (MemAllocBytes r))), (''goroutineNum'', GInt goroutineNum),
                (''gcCount'', GUint64 (MemNumGC r)), (''recvCount'', GInt64 (ServerMetrics.recvCount m)),
                (''sentCount'', GInt64 (ServerMetrics.sentCount m)), (''recvTotal'', GInt64 (recvCountTotal m)),
                (''sentTotal'', GInt64 (sentCountTotal m))]
               @ (case agg of None \<Rightarrow> []
                  | Some (n, ssc, src, ssb, srb) \<Rightarrow>
                     [(''session_channels_with_stats'', GInt n), (''session_sum_send_count'', GInt64 ssc),
                      (''session_sum_recv_count'', GInt64 src), (''session_sum_send_bytes'', GInt64 ssb),
                      (''session_sum_recv_bytes'', GInt64 srb)])
             in Some (\<lparr>MType = ''gate'', MID = ''gate_'' @ fmt_d (unat aid), MName = ''GateServer-'' @ fmt_d (unat aid),
                  Status = gate_status (OnlineUsers m), Timestamp = nowMs, Metrics = metrics,
                  Tags = [(''type'', ''gate'')]\<rparr>, s)))"

section \<open>Who sees a sample\<close>

definition pending :: "Server \<Rightarrow> i64 list" where
  "pending s = fst (GetAndResetSamples (RTTTracker (s_metrics s)))"

lemma observe_count: "h_count (fold (\<lambda>x h. Observe (f x) h) xs h) = h_count h + of_nat (length xs)"
proof (induction xs arbitrary: h)
  case (Cons x xs)
  have "h_count (Observe v h) = h_count h + 1" for v by (simp add: Observe_def Observe_ops_def Let_def)
  then show ?case using Cons by simp
qed simp

lemma tick_active:
  assumes "OnlineUsers (s_metrics s) \<noteq> 0"
  obtains s1 where "ReportMetrics_tick True s
      = (Some (ServerMetrics.recvCount (s_metrics s), ServerMetrics.sentCount (s_metrics s), OnlineUsers (s_metrics s), pending s), s1)"
    "ServerMetrics.recvCount (s_metrics s1) = 0" "ServerMetrics.sentCount (s_metrics s1) = 0" "pending s1 = []"
  using assms by (auto simp: ReportMetrics_tick_def pending_def GetAndResetSamples_def upd_metrics_def Let_def)

lemma round_reports:
  assumes "ReportMetrics_tick (\<not> Seconds (now - lastReportTime r) \<le> 0) s = (Some (dr, ds, on, raw), s1)"
    and "ReportMetrics_round now ms (r, prom, s) = Some (logged, r', prom', s')"
  shows "s' = s1 \<and> h_count (GateRTTAvg prom') = h_count (GateRTTAvg prom) + of_nat (length raw)
    \<and> GateOnlineUsers prom' = scast on \<and> lastReportTime r' = now"
  using assms(2) unfolding ReportMetrics_round_def
  by (auto simp: assms(1) Let_def observe_count Gauge_Set_def sample_memory_def split: option.splits)

lemma round_silent:
  assumes "ReportMetrics_tick (\<not> Seconds (now - lastReportTime r) \<le> 0) s = (None, s1)"
    and "ReportMetrics_round now ms (r, prom, s) = Some (logged, r', prom', s')"
  shows "prom' = prom"
  using assms(2) unfolding ReportMetrics_round_def by (simp add: assms(1) Let_def)

text \<open>A report counts every sample of its period in the exported histogram, sets the gauge of the online
  users to their number, resets the counters of the period and leaves no sample behind.\<close>

theorem report_exact:
  assumes "ReportMetrics_round now ms (r, prom, s) = Some (logged, r', prom', s')"
    and "0 < Seconds (now - lastReportTime r)" "OnlineUsers (s_metrics s) \<noteq> 0"
  shows "h_count (GateRTTAvg prom') = h_count (GateRTTAvg prom) + of_nat (length (pending s))
    \<and> GateOnlineUsers prom' = scast (OnlineUsers (s_metrics s))
    \<and> ServerMetrics.recvCount (s_metrics s') = 0 \<and> ServerMetrics.sentCount (s_metrics s') = 0 \<and> pending s' = []
    \<and> lastReportTime r' = now"
proof -
  obtain s1 where s1: "ReportMetrics_tick True s
      = (Some (ServerMetrics.recvCount (s_metrics s), ServerMetrics.sentCount (s_metrics s), OnlineUsers (s_metrics s), pending s), s1)"
    "ServerMetrics.recvCount (s_metrics s1) = 0" "ServerMetrics.sentCount (s_metrics s1) = 0" "pending s1 = []"
    using tick_active [OF assms(3)] .
  have "\<not> Seconds (now - lastReportTime r) \<le> 0" using assms(2) by simp
  then show ?thesis using round_reports [OF _ assms(1)] s1 by simp
qed

text \<open>Reading the monitor data takes the samples away: a report that follows counts none of them.\<close>

theorem monitor_read_takes_samples:
  assumes "Gate_GetMonitorData t0 t1 g i agg r s = Some (d, s1)"
    and "ReportMetrics_round now ms (r, prom, s1) = Some (logged, r', prom', s')"
  shows "h_count (GateRTTAvg prom') = h_count (GateRTTAvg prom)"
proof -
  have none: "pending s1 = []" using assms(1)
    by (auto simp: Gate_GetMonitorData_def pending_def GetAndResetSamples_def upd_metrics_def Let_def split: option.splits)
  obtain rep s2 where tick: "ReportMetrics_tick (\<not> Seconds (now - lastReportTime r) \<le> 0) s1 = (rep, s2)" by fastforce
  show ?thesis
  proof (cases rep)
    case None
    then show ?thesis using round_silent [OF _ assms(2)] tick by simp
  next
    case (Some p)
    then obtain dr ds on raw where p: "rep = Some (dr, ds, on, raw)" by (cases p) auto
    have "raw = pending s1" using tick
      by (auto simp: p ReportMetrics_tick_def pending_def GetAndResetSamples_def upd_metrics_def Let_def split: if_splits)
    then show ?thesis using round_reports [OF _ assms(2)] tick none by (simp add: p)
  qed
qed

end
