(* ===== verification/ZRuntime.thy ===== *)
theory ZRuntime
  imports ZMonitor
begin

text \<open>
  The collector of Go runtime metrics (\<open>zmetrics/runtime.go\<close>), the hook that counts panics
  (\<open>panic_hook.go\<close>) and the reactor callbacks (\<open>reactor_bridge.go\<close>). What the runtime reports is an
  argument; the garbage collector's percentage is state, since it can only be read by setting it.
\<close>

section \<open>Collecting\<close>

text \<open>The further fields of \<open>runtime.MemStats\<close> that the collector reads.\<close>

record GoMemStats = MemStats +
  HeapReleased :: u64
  StackInuse :: u64
  Mallocs :: u64
  Frees :: u64
  NextGC :: u64

record go_runtime =
  go_mem :: GoMemStats
  go_routines :: i64
  go_maxprocs :: i64
  go_threads :: "i64 option"

record GoMetrics =
  GoMemAllocBytes :: Gauge
  GoMemSysBytes :: Gauge
  GoMemHeapInuse :: Gauge
  GoMemHeapIdle :: Gauge
  GoMemHeapReleased :: Gauge
  GoMemStackInuse :: Gauge
  GoMemAllocTotal :: Counter
  GoMemMallocs :: Counter
  GoMemFrees :: Counter
  GoGCCycles :: Counter
  GoGCPauseTotal :: Gauge
  GoGCLastPauseNs :: Gauge
  GoGCHeapGoal :: Gauge
  GoGCPercent :: Gauge
  GoGoroutines :: Gauge
  GoThreads :: Gauge
  GoMaxProcs :: Gauge

text \<open>\<open>debug.SetGCPercent\<close>: the old percentage, and the new one.\<close>

definition SetGCPercent :: "i64 \<Rightarrow> i64 \<Rightarrow> i64 \<times> i64" where
  "SetGCPercent new cur = (cur, new)"

text \<open>Reading the percentage: two calls, between which other code may set it (\<open>other\<close>).\<close>

definition read_gc_percent :: "(i64 \<Rightarrow> i64) \<Rightarrow> i64 \<Rightarrow> i64 \<times> i64" where
  "read_gc_percent other cur =
    (let (gcPercent, cur) = SetGCPercent (- 1) cur; (_, cur) = SetGCPercent gcPercent (other cur) in (gcPercent, cur))"

definition collectRuntime :: "go_runtime \<Rightarrow> bool \<Rightarrow> (i64 \<Rightarrow> i64) \<Rightarrow> GoMetrics \<times> i64 \<Rightarrow> GoMetrics \<times> i64" where
  "collectRuntime env readGC other g = (case g of (g, percent) \<Rightarrow>
    (let ms = go_mem env;
         g = g\<lparr>GoMemAllocBytes := Gauge_Set (Alloc ms) (GoMemAllocBytes g), GoMemSysBytes := Gauge_Set (Sys ms) (GoMemSysBytes g),
           GoMemHeapInuse := Gauge_Set (HeapInuse ms) (GoMemHeapInuse g), GoMemHeapIdle := Gauge_Set (HeapIdle ms) (GoMemHeapIdle g),
           GoMemHeapReleased := Gauge_Set (HeapReleased ms) (GoMemHeapReleased g),
           GoMemStackInuse := Gauge_Set (StackInuse ms) (GoMemStackInuse g),
           GoMemAllocTotal := snd (Counter_Swap (TotalAlloc ms) (GoMemAllocTotal g)),
           GoMemMallocs := snd (Counter_Swap (Mallocs ms) (GoMemMallocs g)),
           GoMemFrees := snd (Counter_Swap (Frees ms) (GoMemFrees g)),
           GoGCCycles := snd (Counter_Swap (ucast (NumGC ms)) (GoGCCycles g)),
           GoGCPauseTotal := Gauge_Set (PauseTotalNs ms) (GoGCPauseTotal g)\<rparr>;
         g = (if unat (NumGC ms) > 0
              then g\<lparr>GoGCLastPauseNs := Gauge_Set (PauseNs ms ! last_pause_index (NumGC ms)) (GoGCLastPauseNs g)\<rparr> else g);
         g = g\<lparr>GoGCHeapGoal := Gauge_Set (NextGC ms) (GoGCHeapGoal g)\<rparr>;
         (g, percent) = (if readGC then (let (gcPercent, percent) = read_gc_percent other percent
              in (g\<lparr>GoGCPercent := Gauge_Set gcPercent (GoGCPercent g)\<rparr>, percent)) else (g, percent));
         g = g\<lparr>GoGoroutines := Gauge_Set (go_routines env) (GoGoroutines g),
           GoMaxProcs := Gauge_Set (go_maxprocs env) (GoMaxProcs g)\<rparr>
     in (case go_threads env of Some n \<Rightarrow> g\<lparr>GoThreads := Gauge_Set n (GoThreads g)\<rparr> | None \<Rightarrow> g, percent)))"

section \<open>The loop\<close>

definition gcRefreshEvery :: i64 where "gcRefreshEvery = 60000000000"

text \<open>One tick: whether the percentage is refreshed and the time of the last refresh.\<close>

definition gc_refresh :: "i64 \<Rightarrow> i64 \<Rightarrow> bool \<times> i64" where
  "gc_refresh now lastGCRefresh = (let readGC = sint (now - lastGCRefresh) \<ge> sint gcRefreshEvery
     in (readGC, if readGC then now else lastGCRefresh))"

definition collect_tick :: "(i64 \<Rightarrow> i64) \<Rightarrow> i64 \<times> go_runtime \<Rightarrow> i64 \<times> GoMetrics \<times> i64 \<Rightarrow> i64 \<times> GoMetrics \<times> i64" where
  "collect_tick other tick s = (case (tick, s) of ((now, env), (lastGCRefresh, g)) \<Rightarrow>
    (let (readGC, lastGCRefresh) = gc_refresh now lastGCRefresh in (lastGCRefresh, collectRuntime env readGC other g)))"

text \<open>The loop over the ticks until the context ends; it starts a minute in the past.\<close>

definition collectRuntimeLoop :: "(i64 \<Rightarrow> i64) \<Rightarrow> i64 \<Rightarrow> (i64 \<times> go_runtime) list \<Rightarrow> GoMetrics \<times> i64 \<Rightarrow> i64 \<times> GoMetrics \<times> i64" where
  "collectRuntimeLoop other start ticks g = fold (collect_tick other) ticks (start - gcRefreshEvery, g)"

text \<open>\<open>StartRuntimeCollector\<close>: the interval the collector starts with, if this call starts it.\<close>

definition StartRuntimeCollector_once :: "bool \<Rightarrow> i64 \<Rightarrow> bool \<Rightarrow> i64 option \<times> bool" where
  "StartRuntimeCollector_once ctxNil interv started =
    (if ctxNil then (None, started)
     else (let interv = (if sint interv \<le> 0 then 30000000000 else interv) in (if started then None else Some interv, True)))"

section \<open>Panics and reactor errors\<close>

text \<open>\<open>EnsureActorPanicHook\<close> appends the hook once: the number of hooks that count a panic.\<close>

definition EnsureActorPanicHook_once :: "bool \<times> nat \<Rightarrow> bool \<times> nat" where
  "EnsureActorPanicHook_once s = (case s of (added, hooks) \<Rightarrow> if added then (added, hooks) else (True, hooks + 1))"

datatype reactor_event = OnReadErrWithKind | OnAcceptErr | OtherReactor

definition ReactorMetricsBridge :: "reactor_event \<Rightarrow> Counter \<Rightarrow> Counter" where
  "ReactorMetricsBridge ev connErrors = (case ev of
     OnReadErrWithKind \<Rightarrow> Counter_Inc connErrors | OnAcceptErr \<Rightarrow> Counter_Inc connErrors | OtherReactor \<Rightarrow> connErrors)"

section \<open>Laws\<close>

text \<open>The times at which the loop sets the percentage.\<close>

fun refreshes :: "i64 list \<Rightarrow> i64 \<Rightarrow> i64 list" where
  "refreshes [] l = []"
| "refreshes (t # ts) l = (let (r, l') = gc_refresh t l in if r then t # refreshes ts l' else refreshes ts l')"

lemma refreshes_spaced:
  "sorted (map sint ts) \<Longrightarrow> \<forall>t \<in> set ts. 0 \<le> sint t \<Longrightarrow>
    sorted_wrt (\<lambda>a b. sint a + 60000000000 \<le> sint b) (refreshes ts l)
    \<and> (0 \<le> sint l \<longrightarrow> (\<forall>r \<in> set (refreshes ts l). sint l + 60000000000 \<le> sint r))"
proof (induction ts arbitrary: l)
  case (Cons t ts)
  have "0 \<le> sint t" using Cons.prems(2) by simp
  moreover have "sint (t - l) = sint t - sint l" if "0 \<le> sint l" using that Cons.prems(2) sint_since by simp
  moreover note Cons.IH [of t] Cons.IH [of l] Cons.prems
  ultimately show ?case by (auto simp: gc_refresh_def gcRefreshEvery_def Let_def)
qed simp

text \<open>The percentage, which is only read by switching the collector off for a moment, is read at most once
  a minute, and what was set before is set again afterwards; but a setting that other code makes in
  that moment is lost.\<close>

theorem gc_percent_care:
  assumes "sorted (map sint ts)" "\<forall>t \<in> set ts. 0 \<le> sint t"
  shows "sorted_wrt (\<lambda>a b. sint a + 60000000000 \<le> sint b) (refreshes ts l)
    \<and> read_gc_percent (\<lambda>p. p) cur = (cur, cur) \<and> read_gc_percent (\<lambda>_. new) cur = (cur, cur)"
  using refreshes_spaced [OF assms, of l] by (simp add: read_gc_percent_def SetGCPercent_def)

text \<open>However often the hook is requested, a panic is counted once.\<close>

theorem panic_hook_once:
  "snd ((EnsureActorPanicHook_once ^^ Suc n) (False, 0)) = 1"
proof -
  have "(EnsureActorPanicHook_once ^^ Suc n) (False, 0) = (True, 1)"
    by (induction n) (simp_all add: EnsureActorPanicHook_once_def)
  then show ?thesis by simp
qed

end
