(* ===== verification/Spec2Isabelle.thy ===== *)
theory Spec2Isabelle
  imports ZMsgPool ZModel ZRoute ZBreaker ZSender ZAoi ZGate ZDiscLoop ZEngine ZTrace ZMonitor ZHttp ZNats ZCallAll ZStartup ZCodec ZGateMonitor ZRuntime
begin

text \<open>
  A verification library for zhenyi, an actor framework in Go for long-lived connections. A process runs a
  group of actors, each a goroutine with a mailbox; actors send one another pooled messages with reference
  counts, call one another over slots with timeouts, and reach actors of other processes over a topic bus
  (NATS) after looking them up in a discoverer (etcd). A gateway turns packets of client connections into
  messages and back. Scripts in four languages, an area-of-interest index, metrics and monitoring, an HTTP
  server and the start-up code complete the framework. The sources are the Go packages below \<open>src/\<close>.

  \<^bold>\<open>How the code is rendered.\<close> A struct is a record with the code's field names (prefixed where two theories
  would clash), an integer is a word of its width (theory \<open>ZBase\<close>: \<open>u32\<close>, \<open>i32\<close>, \<open>u64\<close>, \<open>i64\<close>, so additions
  wrap), Go's \<open>int\<close> is \<open>i64\<close>, \<open>int\<close> or \<open>nat\<close> where it is a length, a \<open>float64\<close> is a rational with every operation
  rounded to the nearest double (theory \<open>ZFloat\<close>; infinities and NaN are left out), a string is its list
  of bytes. A Go map is a partial function, or the list of its entries where \<open>range\<close> is used: the order of a
  range is then an argument. Errors are values of a sum or option type, a panic is \<open>None\<close> or an error
  value. A method that changes state returns the changed record; messages, actors, grid nodes and slices,
  which are shared, live in explicit heaps and are references. Concurrent code is split into the steps
  between which other goroutines may run (loads, compare-and-swaps, lock regions, waits) and the steps are
  interleaved by an inductive relation; what depends on the schedule, on the clock, on a random source or
  on another repository (zhenyi-base, etcd, NATS, the script interpreters, JSON) is an argument. Logging
  is left out.

  \<^bold>\<open>Prelude.\<close>
  \<^item> \<open>ZBase\<close>: word types, little and big endian encodings, decimal text, list lemmas.
  \<^item> \<open>ZStr\<close>: the functions of \<open>strings\<close> and \<open>strconv\<close> in use. \<open>ZFloat\<close>: doubles.
  \<^item> \<open>ZSlice\<close>: slices over a store of arrays, with \<open>append\<close> and \<open>copy\<close>, for the components whose
    behaviour depends on shared arrays (\<open>ZHttp\<close>, \<open>ZCodec\<close>).

  \<^bold>\<open>Messages and shared data.\<close>
  \<^item> \<open>ZMsg\<close> (\<open>zmsg/msg.go\<close>): \<open>MarshalTo\<close>, \<open>Marshal\<close>, \<open>MarshalPooled\<close>, \<open>Unmarshal\<close> on byte lists; round trip and the exact
    set of accepted buffers. \<open>ZMsgPool\<close> (\<open>zmsg/msgpool.go\<close>, \<open>msg_ext.go\<close>): \<open>GetMessage\<close>, \<open>Retain\<close>, \<open>Release\<close>
    on a heap with a pool; invariant of every interleaving.
  \<^item> \<open>ZModel\<close> (\<open>zmodel/\<close>): configurations, commands, tuning. \<open>ZCodec\<close> (\<open>zcodec/\<close>): the message adapters for bytes, JSON
    and MessagePack; the contract of \<open>IMessage\<close> is the locale \<open>imessage\<close>, met by all three, and no adapter
    shares memory with anyone. \<open>ZTrace\<close> (\<open>ztrace/\<close>): trace identifiers as text.

  \<^bold>\<open>Actors\<close> (\<open>zactor/\<close>).
  \<^item> \<open>ZBreaker\<close> (\<open>circuitbreaker.go\<close>): the state machine refines a count of consecutive failures.
  \<^item> \<open>ZSender\<close> (\<open>sender.go\<close>): RPC slots as steps; the locale \<open>rpc_table\<close> is what callers rely on. Identifiers are not
    reused and replies reach the call they answer; sixteen ticks of its watchdog visit every slot, which is
    why the liveness property speaks of sixteen ticks.
  \<^item> \<open>ZGroup\<close> (\<open>group.go\<close>, \<open>router.go\<close>, \<open>watchdog.go\<close>): actors of a process, local and remote routing tables with
    their snapshots, start with rollback, supervision.
  \<^item> \<open>ZWorld\<close> (the state of a process), \<open>ZSend\<close> (\<open>helper.go\<close>: sends, replies, \<open>CallActor\<close> split where it waits,
    broadcasts), \<open>ZCallAll\<close> (\<open>CallActorAll\<close> as caller, workers and mailbox interleaved), \<open>ZActor\<close> (\<open>base.go\<close>,
    \<open>handlemsg.go\<close>, \<open>handler.go\<close>, \<open>dispatcher.go\<close>, \<open>hotupdate.go\<close>, \<open>flow.go\<close>, \<open>pubsub.go\<close>: mailbox, handlers, ticks,
    asynchronous tasks, the main loop \<open>Run_one\<close>, closing).
  \<^item> \<open>ZRefs\<close>, \<open>ZRefsOps\<close>, \<open>ZRefsRun\<close>: the reference invariant (every message's count is the number of places that hold
    it) and that each operation keeps it; the locale \<open>message_op\<close> is the shape the sending operations
    share. \<open>ZExec\<close>: executions of a process as interleavings of all operations: no held message is
    recycled, nothing leaks without faults, pooled tasks are never in use.

  \<^bold>\<open>Gateway\<close> (\<open>zgate/\<close>).
  \<^item> \<open>ZGateMetrics\<close> (\<open>session.go\<close>, \<open>rtt_tracker.go\<close>, \<open>metrics.go\<close>), \<open>ZGate\<close> (\<open>gate.go\<close>: accepting, reading, routing to itself, a
    local or a remote actor with retries, replies, closing) over the process of \<open>ZWorld\<close>: each packet is routed
    exactly once and nothing recycled is sent. \<open>ZGateMonitor\<close> (\<open>gate.go\<close>, \<open>monitor.go\<close>): report loop and monitor data.
  \<^item> \<open>ZRoute\<close> (\<open>zroute/\<close>): the three strategies interpret the locale \<open>remote_strategy\<close>.

  \<^bold>\<open>Discovery and bus.\<close>
  \<^item> \<open>ZDiscovery\<close>, \<open>ZDiscRun\<close>, \<open>ZDiscLoop\<close> (\<open>zdiscovery/\<close>): the cache mirrors the registrations in etcd, registrations reach the
    routing table of the group over the change channel, lease renewal does not interrupt them, the watch
    loop recovers, the keep-alive goroutine has one successor.
  \<^item> \<open>ZNats\<close> (\<open>znats/\<close>, \<open>zbus/\<close>): client, pool, bus. \<open>Connect\<close> tries thirty times, so its recursion is structural.

  \<^bold>\<open>Scripts.\<close>
  \<^item> \<open>ZScript\<close> (\<open>zscript/\<close>): values, pooled execution contexts, statistics with their compare-and-swap loops. \<open>ZVal\<close>: the
    conversions of values and the lazy contexts of the engines. \<open>ZLua\<close>, \<open>ZJs\<close>, \<open>ZStarlark\<close>, \<open>ZTengo\<close>
    (\<open>zlua/\<close>, \<open>zjs/\<close>, \<open>zstarlark/\<close>, \<open>ztengo/\<close>, \<open>engine.go\<close> each): pools of virtual machines with generations, the path
    sandbox of \<open>require\<close>, function indexes, stub caches, loading and calls. \<open>ZEngine\<close>: the contract of
    \<open>IScriptEngine\<close> is the locale \<open>script_engine\<close>, interpreted by all four; adapters and group integration.

  \<^bold>\<open>Area of interest.\<close> \<open>ZAoi\<close> (\<open>zaoi/\<close>): linked grid cells in a heap, all operations of the manager; the locale
    \<open>spatial_index\<close> is its contract. Views and crossing events are exact.

  \<^bold>\<open>Metrics, monitoring, services.\<close>
  \<^item> \<open>ZText\<close>, \<open>ZHist\<close>, \<open>ZMetrics\<close> (\<open>zmetrics/metrics.go\<close>, \<open>handler.go\<close>, \<open>pool_observer.go\<close>): number texts, counters and histograms,
    registry and its Prometheus text, per handler and per pool. \<open>ZMonitor\<close> (\<open>zmonitor/interface.go\<close>,
    \<open>zmetrics/monitor_prom.go\<close>, \<open>server.go\<close>): statistics, cached system sample, manager, health state; reading the whole text
    back gives the registered values. \<open>ZRuntime\<close> (\<open>zmetrics/runtime.go\<close>, \<open>panic_hook.go\<close>, \<open>reactor_bridge.go\<close>).
  \<^item> \<open>ZHttp\<close> (\<open>zhttp/server_std.go\<close>): routes, groups, middleware, dispatch.
  \<^item> \<open>ZStartup\<close> (\<open>zstartup/app.go\<close>, \<open>zcheck/\<close>, \<open>zconfig/\<close>, \<open>zpoolobs/\<close>, \<open>zactor/monitor.go\<close>, \<open>zgate/net_metrics.go\<close>, enabling of the metrics
    service in \<open>zmetrics/server.go\<close>).

  \<^bold>\<open>Bounds and termination.\<close> There is no fuel. Loops over data are structural recursions or have a measure;
  retry loops count down the code's own limits; the loops of background goroutines run over a finite
  script of inputs or are one step of a relation, and properties hold for every script and every
  reachable state. A loop that blocks is split at the wait, and that it returns is proved as progress
  with a decreasing measure (\<open>ZCallAll\<close>) or as a bound on steps (\<open>ZSender\<close>).

  \<^bold>\<open>Where the code deviates.\<close> Some theorems state what the code does where it cannot be meant: a listing and a watch
  with a gap (\<open>ZDiscovery.watch_gap_stale\<close>), stale compiled stubs (\<open>ZTengo.tengo_stale_stub\<close>), swallowed panics
  (\<open>ZStarlark.starlark_panic_swallowed\<close>), modules cached after a failure (\<open>ZJs.failed_module_stays_cached\<close>), the text of
  the least integer (\<open>ZText.formatInt_min_broken\<close>), shared middleware of sibling groups
  (\<open>ZHttp.sibling_groups_share_middleware\<close>), orphaned subscriptions (\<open>ZNats.resubscribe_orphans\<close>), parallel calls that
  never return after a panic (\<open>ZCallAll.call_all_blocks\<close>), stranded actors (\<open>ZStartup.duplicate_id_strands_actor\<close>).

  \<^bold>\<open>Not modelled.\<close> The libraries of other repositories (network servers, pools, serialisation, the interpreters,
  etcd and NATS clients) are arguments of the definitions that use them. Of the code here: reading TLS
  certificates and the lazy HTTP accessor in \<open>zgate\<close>, which only call such libraries; the set-up of the Lua
  sandbox and the JavaScript console, which configure an interpreter; \<open>zpyroscope\<close> and \<open>zstream\<close>, thin
  bindings; \<open>ziface\<close>, interfaces without code; the debug tracking of message life cycles, compiled out of the
  default build; the \<open>Example\<close> functions and the programs under \<open>examples/\<close>, which only use the library.
\<close>

end
